(* ===== verification/Prelude.thy ===== *)
theory Prelude
  imports Main "HOL-Library.Word" "HOL-Library.AList"
begin

text \<open>
  Shared vocabulary of the openfix development.

  \<^item> Bytes and strings: a \<open>std::string\<close> is a HOL \<open>string\<close> (a \<open>char list\<close>, a \<open>char\<close> is an
    8-bit byte); the separators of \<^verbatim>\<open>src/Message.h\<close> are \<open>SOH\<close>, \<open>BAR\<close> and \<open>EQCH\<close>.
  \<^item> Fallible code: \<open>'e + 'a\<close> with \<open>Inl\<close> for a C++ exception; \<open>sbind\<close> sequences it.
  \<^item> Stateful fallible code: \<open>('e, 's, 'a) st\<close>; an exception keeps the state reached so far,
    which is what a C++ \<open>throw\<close> does to member variables.
  \<^item> The parts of the C++ standard library that the code calls: \<open>std::to_chars\<close>,
    \<open>std::from_chars\<close>, \<open>memchr\<close> and \<open>std::string::find\<close>, and 32-bit \<open>int\<close> wrap-around.
\<close>

section \<open>Collections of facts\<close>

named_theorems bytes_simps \<open>evaluation of byte and digit operations\<close>
named_theorems monad_simps \<open>unfolding of the two monads\<close>

section \<open>Bytes\<close>

abbreviation SOH :: char where "SOH \<equiv> CHR 0x01"
abbreviation BAR :: char where "BAR \<equiv> CHR ''|''"
abbreviation EQCH :: char where "EQCH \<equiv> CHR ''=''"
abbreviation DASH :: char where "DASH \<equiv> CHR ''-''"

abbreviation byte_of :: "char \<Rightarrow> 8 word" where "byte_of c \<equiv> of_char c"

section \<open>Exceptions as values\<close>

definition sbind :: "'e + 'a \<Rightarrow> ('a \<Rightarrow> 'e + 'b) \<Rightarrow> 'e + 'b" where
  "sbind m k = (case m of Inl e \<Rightarrow> Inl e | Inr x \<Rightarrow> k x)"

lemma sbind_simps [simp]:
  "sbind (Inl e) k = Inl e" "sbind (Inr x) k = k x"
  by (simp_all add: sbind_def)

lemma sbind_Inr_iff: "sbind m k = Inr y \<longleftrightarrow> (\<exists>x. m = Inr x \<and> k x = Inr y)"
  by (cases m) auto

lemma sbind_InrE:
  assumes "sbind m k = Inr y"
  obtains x where "m = Inr x" "k x = Inr y"
  using assms by (auto simp: sbind_Inr_iff)

lemma sbind_cong [fundef_cong]:
  "m = m' \<Longrightarrow> (\<And>x. m' = Inr x \<Longrightarrow> k x = k' x) \<Longrightarrow> sbind m k = sbind m' k'"
  by (cases m') auto

section \<open>State with exceptions\<close>

type_synonym ('e, 's, 'a) st = "'s \<Rightarrow> ('e + 'a) \<times> 's"

definition st_ret :: "'a \<Rightarrow> ('e, 's, 'a) st" where
  "st_ret x = (\<lambda>s. (Inr x, s))"

definition st_throw :: "'e \<Rightarrow> ('e, 's, 'a) st" where
  "st_throw e = (\<lambda>s. (Inl e, s))"

definition st_bind :: "('e, 's, 'a) st \<Rightarrow> ('a \<Rightarrow> ('e, 's, 'b) st) \<Rightarrow> ('e, 's, 'b) st" where
  "st_bind m k = (\<lambda>s. case m s of (Inl e, s') \<Rightarrow> (Inl e, s') | (Inr x, s') \<Rightarrow> k x s')"

definition st_seq :: "('e, 's, 'a) st \<Rightarrow> ('e, 's, 'b) st \<Rightarrow> ('e, 's, 'b) st" where
  "st_seq m n = st_bind m (\<lambda>_. n)"

definition st_get :: "('s \<Rightarrow> 'a) \<Rightarrow> ('e, 's, 'a) st" where
  "st_get f = (\<lambda>s. (Inr (f s), s))"

definition st_mod :: "('s \<Rightarrow> 's) \<Rightarrow> ('e, 's, unit) st" where
  "st_mod f = (\<lambda>s. (Inr (), f s))"

definition st_lift :: "'e + 'a \<Rightarrow> ('e, 's, 'a) st" where
  "st_lift r = (\<lambda>s. (r, s))"

lemma st_simps [simp, monad_simps]:
  "st_ret x s = (Inr x, s)"
  "st_throw e s = (Inl e, s)"
  "st_get f s = (Inr (f s), s)"
  "st_mod g s = (Inr (), g s)"
  "st_lift r s = (r, s)"
  by (simp_all add: st_ret_def st_throw_def st_get_def st_mod_def st_lift_def)

lemma st_bind_apply [monad_simps]:
  "st_bind m k s = (case m s of (Inl e, s') \<Rightarrow> (Inl e, s') | (Inr x, s') \<Rightarrow> k x s')"
  by (simp add: st_bind_def)

lemma st_seq_apply [monad_simps]:
  "st_seq m n s = (case m s of (Inl e, s') \<Rightarrow> (Inl e, s') | (Inr x, s') \<Rightarrow> n s')"
  by (simp add: st_seq_def st_bind_def)

lemma st_bind_eqs [simp]:
  "st_bind (st_ret x) k = k x"
  "st_bind (st_throw e) k = st_throw e"
  by (simp_all add: fun_eq_iff monad_simps)

text \<open>
  A predicate on the state that a computation keeps, whether it returns or throws. Every
  frame and invariant proof about the session goes through these rules.
\<close>

definition st_keeps :: "('s \<Rightarrow> bool) \<Rightarrow> ('e, 's, 'a) st \<Rightarrow> bool" where
  "st_keeps P m \<longleftrightarrow> (\<forall>s. P s \<longrightarrow> P (snd (m s)))"

named_theorems keeps_intros \<open>introduction rules for preservation\<close>

lemma st_keepsD: "st_keeps P m \<Longrightarrow> P s \<Longrightarrow> P (snd (m s))"
  by (simp add: st_keeps_def)

lemma st_keeps_basic [keeps_intros]:
  "st_keeps P (st_ret x)" "st_keeps P (st_throw e)" "st_keeps P (st_get f)" "st_keeps P (st_lift r)"
  by (simp_all add: st_keeps_def)

lemma st_keeps_mod [keeps_intros]: "(\<And>s. P s \<Longrightarrow> P (g s)) \<Longrightarrow> st_keeps P (st_mod g)"
  by (simp add: st_keeps_def)

lemma st_keeps_bind [keeps_intros]:
  "st_keeps P m \<Longrightarrow> (\<And>x. st_keeps P (k x)) \<Longrightarrow> st_keeps P (st_bind m k)"
  unfolding st_keeps_def by (fastforce simp: monad_simps split: prod.splits sum.splits)

lemma st_keeps_seq [keeps_intros]:
  "st_keeps P m \<Longrightarrow> st_keeps P n \<Longrightarrow> st_keeps P (st_seq m n)"
  unfolding st_seq_def by (rule st_keeps_bind)

lemma st_keeps_if [keeps_intros]:
  "(b \<Longrightarrow> st_keeps P m) \<Longrightarrow> (\<not> b \<Longrightarrow> st_keeps P n) \<Longrightarrow> st_keeps P (if b then m else n)"
  by simp

section \<open>C++ integers\<close>

text \<open>The value an \<open>int\<close> holds after arithmetic: two's complement, 32 bits.\<close>

definition wrap32 :: "int \<Rightarrow> int" where
  "wrap32 x = (x + 2147483648) mod 4294967296 - 2147483648"

definition is_int32 :: "int \<Rightarrow> bool" where
  "is_int32 x \<longleftrightarrow> -2147483648 \<le> x \<and> x \<le> 2147483647"

lemma wrap32_id [simp]: "is_int32 x \<Longrightarrow> wrap32 x = x"
  by (simp add: wrap32_def is_int32_def)

lemma is_int32_wrap32 [simp]: "is_int32 (wrap32 x)"
  by (simp add: wrap32_def is_int32_def)

text \<open>The value a \<open>size_t\<close> or \<open>unsigned long\<close> holds after arithmetic.\<close>

definition wrapu64 :: "int \<Rightarrow> int" where
  "wrapu64 x = x mod 18446744073709551616"

text \<open>Integer division and remainder of C++, which round towards zero.\<close>

definition cdiv :: "int \<Rightarrow> int \<Rightarrow> int" where
  "cdiv a b = sgn a * sgn b * (\<bar>a\<bar> div \<bar>b\<bar>)"

lemma cdiv_nonneg [simp]: "0 \<le> a \<Longrightarrow> 0 < b \<Longrightarrow> cdiv a b = a div b"
  by (cases "a = 0") (auto simp: cdiv_def)

section \<open>Decimal text\<close>

definition is_digit :: "char \<Rightarrow> bool" where
  "is_digit c \<longleftrightarrow> 48 \<le> (of_char c :: nat) \<and> (of_char c :: nat) \<le> 57"

definition digit_val :: "char \<Rightarrow> nat" where
  "digit_val c = of_char c - 48"

definition digit_char :: "nat \<Rightarrow> char" where
  "digit_char d = char_of (48 + d)"

lemma digit_char_eval [simp, bytes_simps]:
  "digit_char 0 = CHR ''0''" "digit_char 1 = CHR ''1''" "digit_char (Suc 0) = CHR ''1''"
  "digit_char 2 = CHR ''2''" "digit_char 3 = CHR ''3''" "digit_char 4 = CHR ''4''"
  "digit_char 5 = CHR ''5''" "digit_char 6 = CHR ''6''" "digit_char 7 = CHR ''7''"
  "digit_char 8 = CHR ''8''" "digit_char 9 = CHR ''9''"
  by code_simp+

lemma of_char_digit_char [simp]: "d < 10 \<Longrightarrow> (of_char (digit_char d) :: nat) = 48 + d"
  by (simp add: digit_char_def)

lemma digit_char_digit [simp]:
  "d < 10 \<Longrightarrow> is_digit (digit_char d)" "d < 10 \<Longrightarrow> digit_val (digit_char d) = d"
  by (simp_all add: is_digit_def digit_val_def)

lemma not_digit_seps [simp]:
  "\<not> is_digit SOH" "\<not> is_digit EQCH" "\<not> is_digit DASH" "\<not> is_digit BAR"
  "\<not> is_digit CHR ''.''" "\<not> is_digit CHR '':''"
  by (simp_all add: is_digit_def)

text \<open>\<open>std::to_chars\<close> and \<open>std::to_string\<close> on \<open>int\<close>: no leading zeros, a minus sign.\<close>

fun dec_nat :: "nat \<Rightarrow> string" where
  "dec_nat n = (if n < 10 then [digit_char n] else dec_nat (n div 10) @ [digit_char (n mod 10)])"

declare dec_nat.simps [simp del]

definition dec_int :: "int \<Rightarrow> string" where
  "dec_int i = (if i < 0 then DASH # dec_nat (nat (- i)) else dec_nat (nat i))"

definition digits_val :: "string \<Rightarrow> nat" where
  "digits_val ds = foldl (\<lambda>a c. 10 * a + digit_val c) 0 ds"

lemma dec_nat_nonempty [simp]: "dec_nat n \<noteq> []"
  by (subst dec_nat.simps) simp

lemma dec_nat_digits: "list_all is_digit (dec_nat n)"
proof (induction n rule: dec_nat.induct)
  case (1 n)
  then show ?case
    by (subst dec_nat.simps) simp
qed

lemma digits_val_dec_nat [simp]: "digits_val (dec_nat n) = n"
proof (induction n rule: dec_nat.induct)
  case (1 n)
  show ?case
  proof (cases "n < 10")
    case True
    then show ?thesis by (subst dec_nat.simps) (simp add: digits_val_def)
  next
    case False
    then have "foldl (\<lambda>a c. 10 * a + digit_val c) 0 (dec_nat (n div 10)) = n div 10"
      using "1.IH" by (simp add: digits_val_def)
    with False show ?thesis by (subst dec_nat.simps) (simp add: digits_val_def)
  qed
qed

lemma takeWhile_digits [simp]:
  "takeWhile is_digit (dec_nat n) = dec_nat n"
  "\<not> is_digit c \<Longrightarrow> takeWhile is_digit (dec_nat n @ c # r) = dec_nat n"
  using dec_nat_digits[of n]
  by (simp_all add: list_all_iff takeWhile_append2 takeWhile_eq_all_conv)

lemma dec_nat_chars:
  "c \<in> set (dec_nat n) \<Longrightarrow> is_digit c"
  using dec_nat_digits[of n] by (simp add: list_all_iff)

lemma dec_int_no_sep [simp]:
  "SOH \<notin> set (dec_int i)" "EQCH \<notin> set (dec_int i)"
  by (auto simp: dec_int_def dest!: dec_nat_chars split: if_splits)

lemma dec_int_nonempty [simp]: "dec_int i \<noteq> []"
  by (simp add: dec_int_def)

lemma dec_nat_hd_not_dash: "dec_nat n = c # r \<Longrightarrow> c \<noteq> DASH"
  using dec_nat_chars[of c n] by auto

subsection \<open>std::from_chars\<close>

datatype num_error = InvalidArgument | OutOfRange

text \<open>
  \<open>std::from_chars\<close> reads the longest numeric prefix; trailing text is not an error. On
  either error the output variable is left as it was, which \<open>from_chars_or0\<close> states for the
  callers that initialise it with 0 and ignore the error code.
\<close>

definition from_chars_int :: "string \<Rightarrow> num_error + int" where
  "from_chars_int s =
     (let neg = (s \<noteq> [] \<and> hd s = DASH);
          ds = takeWhile is_digit (if neg then tl s else s);
          v = (if neg then - int (digits_val ds) else int (digits_val ds))
      in if ds = [] then Inl InvalidArgument
         else if is_int32 v then Inr v else Inl OutOfRange)"

definition from_chars_or0 :: "string \<Rightarrow> int" where
  "from_chars_or0 s = (case from_chars_int s of Inl _ \<Rightarrow> 0 | Inr v \<Rightarrow> v)"

definition from_chars_ulong :: "string \<Rightarrow> num_error + int" where
  "from_chars_ulong s =
     (let ds = takeWhile is_digit s; v = int (digits_val ds)
      in if ds = [] then Inl InvalidArgument
         else if v < 18446744073709551616 then Inr v else Inl OutOfRange)"

lemma from_chars_dec_int [simp]:
  assumes "is_int32 i"
  shows "from_chars_int (dec_int i) = Inr i"
proof (cases "i < 0")
  case True
  with assms show ?thesis by (simp add: from_chars_int_def dec_int_def Let_def)
next
  case False
  then have "hd (dec_int i) \<noteq> DASH"
    by (metis dec_int_def dec_nat_hd_not_dash dec_nat_nonempty list.exhaust_sel)
  with assms False show ?thesis by (simp add: from_chars_int_def dec_int_def Let_def)
qed

lemma from_chars_or0_dec_int [simp]: "is_int32 i \<Longrightarrow> from_chars_or0 (dec_int i) = i"
  by (simp add: from_chars_or0_def)

lemma from_chars_int_range: "from_chars_int s = Inr v \<Longrightarrow> is_int32 v"
  by (auto simp: from_chars_int_def Let_def split: if_splits)

lemma from_chars_or0_range [simp]: "is_int32 (from_chars_or0 s)"
  by (auto simp: from_chars_or0_def is_int32_def[of 0] dest: from_chars_int_range split: sum.splits)

lemma from_chars_ulong_dec_nat [simp]:
  "int n < 18446744073709551616 \<Longrightarrow> from_chars_ulong (dec_nat n) = Inr (int n)"
  by (simp add: from_chars_ulong_def Let_def)

section \<open>Searching text\<close>

text \<open>\<open>memchr\<close>: the text before the first occurrence of a byte, and the text after it.\<close>

fun break_at :: "char \<Rightarrow> string \<Rightarrow> (string \<times> string) option" where
  "break_at c [] = None"
| "break_at c (x # xs) =
     (if x = c then Some ([], xs) else map_option (\<lambda>(a, b). (x # a, b)) (break_at c xs))"

lemma break_at_append [simp]: "c \<notin> set a \<Longrightarrow> break_at c (a @ c # b) = Some (a, b)"
  by (induction a) auto

lemma break_at_SomeD: "break_at c s = Some (a, b) \<Longrightarrow> s = a @ c # b \<and> c \<notin> set a"
  by (induction s arbitrary: a) (auto split: if_splits)

lemma break_at_None_iff: "break_at c s = None \<longleftrightarrow> c \<notin> set s"
  by (induction s) auto

lemma break_at_shorter: "break_at c s = Some (a, b) \<Longrightarrow> length b < length s"
  by (auto dest!: break_at_SomeD)

text \<open>\<open>std::string::find(pat, pos)\<close>: the first match at or after \<open>pos\<close>; \<open>None\<close> is \<open>npos\<close>.\<close>

fun find_sub :: "string \<Rightarrow> string \<Rightarrow> nat option" where
  "find_sub pat [] = (if pat = [] then Some 0 else None)"
| "find_sub pat (x # xs) =
     (if take (length pat) (x # xs) = pat then Some 0 else map_option Suc (find_sub pat xs))"

definition str_find :: "string \<Rightarrow> string \<Rightarrow> nat \<Rightarrow> nat option" where
  "str_find s pat pos =
     (if length s < pos then None else map_option (\<lambda>i. pos + i) (find_sub pat (drop pos s)))"

lemma find_sub_SomeD:
  "find_sub pat s = Some i \<Longrightarrow> i + length pat \<le> length s \<and> take (length pat) (drop i s) = pat"
proof (induction s arbitrary: i)
  case Nil
  then show ?case by (auto split: if_splits)
next
  case (Cons x xs)
  show ?case
  proof (cases "take (length pat) (x # xs) = pat")
    case True
    with Cons.prems have "i = 0" by simp
    moreover have "length pat \<le> length (x # xs)"
      using arg_cong[OF True, of length] by (simp add: min_def split: if_splits)
    ultimately show ?thesis using True by simp
  next
    case False
    with Cons.prems obtain j where "find_sub pat xs = Some j" "i = Suc j" by auto
    with Cons.IH show ?thesis by auto
  qed
qed

lemma find_sub_first:
  "find_sub pat s = Some i \<Longrightarrow> j < i \<Longrightarrow> take (length pat) (drop j s) \<noteq> pat"
proof (induction s arbitrary: i j)
  case Nil
  then show ?case by (auto split: if_splits)
next
  case (Cons x xs)
  then show ?case by (cases j) (auto split: if_splits)
qed

lemma find_sub_prefix [simp]: "find_sub pat (pat @ s) = Some 0"
proof (cases "pat @ s")
  case (Cons x xs)
  then have "take (length pat) (x # xs) = pat"
    by (metis append_eq_conv_conj)
  with Cons show ?thesis by simp
qed simp

lemma str_find_SomeD:
  assumes "str_find s pat pos = Some i"
  shows "pos \<le> i" "i + length pat \<le> length s" "take (length pat) (drop i s) = pat"
proof -
  from assms obtain k where k: "find_sub pat (drop pos s) = Some k" "i = pos + k"
    and le: "pos \<le> length s"
    by (auto simp: str_find_def split: if_splits)
  from find_sub_SomeD[OF k(1)] k(2) le
  show "pos \<le> i" "i + length pat \<le> length s" "take (length pat) (drop i s) = pat"
    by (auto simp: add.commute)
qed

lemma str_find_first:
  "str_find s pat pos = Some i \<Longrightarrow> pos \<le> j \<Longrightarrow> j < i \<Longrightarrow> take (length pat) (drop j s) \<noteq> pat"
  by (auto simp: str_find_def split: if_splits
      dest!: find_sub_first[where j = "j - pos"])

section \<open>Lists\<close>

lemma foldl_acc_sum: "foldl (\<lambda>a x. a + f x) (b::'a::comm_monoid_add) xs = b + sum_list (map f xs)"
  by (induction xs arbitrary: b) (auto simp: add.assoc)

lemma distinct_fst_filter: "distinct (map fst xs) \<Longrightarrow> distinct (map fst (filter P xs))"
  by (induction xs) auto

lemma map_of_filter_fst: "map_of (filter (\<lambda>x. fst x \<noteq> k) xs) j = (if j = k then None else map_of xs j)"
  by (induction xs) auto

end
