(* ===== verification/Containers.thy ===== *)
theory Containers
  imports Prelude
begin

text \<open>
  The standard containers the code uses, as executable lists: \<open>HashMapT\<close>
  (\<^verbatim>\<open>lib/Types.h\<close>, a hash map whose iteration order nothing may depend on) is an association
  list with distinct keys, and \<open>std::map\<close> an association list in ascending key order. Both meet
  the interface \<open>key_value\<close>, which the ordered container of field maps extends.
\<close>

section \<open>The interface\<close>

locale key_value =
  fixes empty :: "'m"
    and lookup :: "'m \<Rightarrow> 'k \<Rightarrow> 'v option"
    and assign :: "'m \<Rightarrow> 'k \<Rightarrow> 'v \<Rightarrow> 'm"
    and erase :: "'m \<Rightarrow> 'k \<Rightarrow> 'm"
    and ok :: "'m \<Rightarrow> bool"
  assumes ok_empty: "ok empty"
    and lookup_empty: "lookup empty k = None"
    and ok_assign: "ok m \<Longrightarrow> ok (assign m k v)"
    and ok_erase: "ok m \<Longrightarrow> ok (erase m k)"
    and lookup_assign: "ok m \<Longrightarrow> lookup (assign m k v) j = (if j = k then Some v else lookup m j)"
    and lookup_erase: "ok m \<Longrightarrow> lookup (erase m k) j = (if j = k then None else lookup m j)"
begin

definition assign_all :: "'m \<Rightarrow> ('k \<times> 'v) list \<Rightarrow> 'm" where
  "assign_all m xs = foldl (\<lambda>m (k, v). assign m k v) m xs"

lemma assign_all_simps [simp]:
  "assign_all m [] = m" "assign_all m ((k, v) # xs) = assign_all (assign m k v) xs"
  by (simp_all add: assign_all_def)

lemma ok_assign_all: "ok m \<Longrightarrow> ok (assign_all m xs)"
  by (induction xs arbitrary: m) (auto simp: ok_assign)

lemma lookup_assign_all:
  "ok m \<Longrightarrow> distinct (map fst xs) \<Longrightarrow>
   lookup (assign_all m xs) k = (case map_of xs k of Some v \<Rightarrow> Some v | None \<Rightarrow> lookup m k)"
proof (induction xs arbitrary: m)
  case (Cons x xs)
  obtain j v where x: "x = (j, v)" by force
  with Cons.prems have "map_of xs j = None"
    by (simp add: map_of_eq_None_iff)
  with Cons x show ?case
    by (auto simp: ok_assign lookup_assign split: option.splits)
qed simp

lemma lookup_assign_erase:
  "ok m \<Longrightarrow> j \<noteq> k \<Longrightarrow> lookup (erase (assign m k v) j) i = lookup (assign (erase m j) k v) i"
  by (simp add: lookup_erase lookup_assign ok_assign ok_erase)

end

section \<open>Hash maps\<close>

type_synonym ('k, 'v) hmap = "('k \<times> 'v) list"

definition hmap_set :: "('k, 'v) hmap \<Rightarrow> 'k \<Rightarrow> 'v \<Rightarrow> ('k, 'v) hmap" where
  "hmap_set m k v = AList.update k v m"

text \<open>\<open>emplace\<close> and \<open>insert\<close>: a present key keeps its value.\<close>

definition hmap_emplace :: "('k, 'v) hmap \<Rightarrow> 'k \<Rightarrow> 'v \<Rightarrow> ('k, 'v) hmap" where
  "hmap_emplace m k v = (case map_of m k of None \<Rightarrow> AList.update k v m | Some _ \<Rightarrow> m)"

definition hmap_erase :: "('k, 'v) hmap \<Rightarrow> 'k \<Rightarrow> ('k, 'v) hmap" where
  "hmap_erase m k = AList.delete k m"

definition hmap_ok :: "('k, 'v) hmap \<Rightarrow> bool" where
  "hmap_ok m \<longleftrightarrow> distinct (map fst m)"

lemma hmap_lookup_set [simp]: "map_of (hmap_set m k v) = (map_of m)(k \<mapsto> v)"
  by (simp add: hmap_set_def update_conv')

lemma hmap_lookup_erase [simp]: "map_of (hmap_erase m k) = (map_of m)(k := None)"
  by (simp add: hmap_erase_def delete_conv')

lemma hmap_ok_ops [simp]:
  "hmap_ok []" "hmap_ok m \<Longrightarrow> hmap_ok (hmap_set m k v)" "hmap_ok m \<Longrightarrow> hmap_ok (hmap_erase m k)"
  "hmap_ok m \<Longrightarrow> hmap_ok (hmap_emplace m k v)"
  by (simp_all add: hmap_ok_def hmap_set_def hmap_erase_def hmap_emplace_def distinct_update
      distinct_delete split: option.split)

interpretation hm: key_value "[]" map_of hmap_set hmap_erase hmap_ok
  by unfold_locales auto

section \<open>std::map\<close>

type_synonym 'v smap = "(int \<times> 'v) list"

fun smap_set :: "'v smap \<Rightarrow> int \<Rightarrow> 'v \<Rightarrow> 'v smap" where
  "smap_set [] k v = [(k, v)]"
| "smap_set (x # xs) k v =
     (if k < fst x then (k, v) # x # xs
      else if k = fst x then (k, v) # xs
      else x # smap_set xs k v)"

definition smap_erase :: "'v smap \<Rightarrow> int \<Rightarrow> 'v smap" where
  "smap_erase m k = filter (\<lambda>x. fst x \<noteq> k) m"

definition smap_ok :: "'v smap \<Rightarrow> bool" where
  "smap_ok m \<longleftrightarrow> sorted_wrt (<) (map fst m)"

lemma smap_set_keys: "set (map fst (smap_set m k v)) = insert k (set (map fst m))"
  by (induction m) auto

lemma smap_set_entries: "set (smap_set m k v) \<subseteq> insert (k, v) (set m)"
  by (induction m) auto

lemma smap_ok_set [simp]: "smap_ok m \<Longrightarrow> smap_ok (smap_set m k v)"
proof (induction m)
  case (Cons x xs)
  then have IH: "smap_ok (smap_set xs k v)" by (simp add: smap_ok_def)
  with Cons.prems smap_set_keys[of xs k v] show ?case
    by (fastforce simp: smap_ok_def)
qed (simp add: smap_ok_def)

lemma smap_ok_erase [simp]: "smap_ok m \<Longrightarrow> smap_ok (smap_erase m k)"
  by (induction m) (auto simp: smap_ok_def smap_erase_def)

lemma smap_ok_Nil [simp]: "smap_ok []"
  by (simp add: smap_ok_def)

lemma smap_ok_Cons: "smap_ok (x # xs) \<longleftrightarrow> (\<forall>y\<in>set xs. fst x < fst y) \<and> smap_ok xs"
  by (auto simp: smap_ok_def)

lemma smap_lookup_set: "smap_ok m \<Longrightarrow> map_of (smap_set m k v) = (map_of m)(k \<mapsto> v)"
proof (induction m)
  case (Cons x xs)
  then show ?case by (auto simp: fun_eq_iff smap_ok_Cons)
qed simp

lemma smap_lookup_erase: "map_of (smap_erase m k) j = (if j = k then None else map_of m j)"
  by (simp add: smap_erase_def map_of_filter_fst)

interpretation sm: key_value "[]" map_of smap_set smap_erase smap_ok
  by unfold_locales (simp_all add: smap_lookup_set smap_lookup_erase)

text \<open>Sorting entries by key, as \<open>getMessages\<close> does before replaying: the result is the
  \<open>std::map\<close> with the same entries.\<close>

definition sort_by_key :: "(int \<times> 'v) list \<Rightarrow> 'v smap" where
  "sort_by_key xs = sort_key fst xs"

lemma sort_by_key_ok: "distinct (map fst xs) \<Longrightarrow> smap_ok (sort_by_key xs)"
proof -
  assume d: "distinct (map fst xs)"
  have "sorted (map fst (sort_by_key xs))" by (simp add: sort_by_key_def)
  moreover have "distinct (map fst (sort_by_key xs))"
    using d by (simp add: sort_by_key_def distinct_map)
  ultimately show ?thesis by (simp add: smap_ok_def strict_sorted_iff)
qed

lemma set_sort_by_key [simp]: "set (sort_by_key xs) = set xs"
  by (simp add: sort_by_key_def)

end
