(* ===== verification/Store.thy ===== *)
theory Store
  imports Containers
begin

text \<open>
  \<^verbatim>\<open>src/FIXStore.h\<close>, \<^verbatim>\<open>src/FIXStore.cpp\<close>: the persistent session store. \<open>StoreHandle\<close> appends
  binary records (a type byte, little-endian numbers as \<open>memcpy\<close> lays them out on x86, the raw
  message) and \<open>load\<close> replays the file. The file is a byte string, \<open>None\<close> while it does not
  exist. What the cache relies on is the interface \<open>session_store\<close>, interpreted here on files.
\<close>

section \<open>Little-endian numbers\<close>

fun le_bytes :: "nat \<Rightarrow> nat \<Rightarrow> string" where
  "le_bytes 0 n = []"
| "le_bytes (Suc k) n = char_of n # le_bytes k (n div 256)"

fun le_val :: "string \<Rightarrow> nat" where
  "le_val [] = 0"
| "le_val (c # cs) = of_char c + 256 * le_val cs"

lemma length_le_bytes [simp]: "length (le_bytes k n) = k"
  by (induction k arbitrary: n) auto

lemma le_val_le_bytes: "le_val (le_bytes k n) = n mod 256 ^ k"
proof (induction k arbitrary: n)
  case (Suc k)
  have "of_char (char_of n :: char) + 256 * (n div 256 mod 256 ^ k) = n mod (256 * 256 ^ k)"
    by (simp add: mod_mult2_eq)
  with Suc show ?case by simp
qed simp

text \<open>A C++ \<open>int\<close> (4 bytes, two's complement) and a \<open>size_t\<close> (8 bytes).\<close>

definition int_bytes :: "int \<Rightarrow> string" where
  "int_bytes i = le_bytes 4 (nat (i mod 4294967296))"

definition int_of_bytes :: "string \<Rightarrow> int" where
  "int_of_bytes bs = wrap32 (int (le_val bs))"

definition size_bytes :: "nat \<Rightarrow> string" where
  "size_bytes n = le_bytes 8 n"

lemma length_num_bytes [simp]: "length (int_bytes i) = 4" "length (size_bytes n) = 8"
  by (simp_all add: int_bytes_def size_bytes_def)

lemma int_of_int_bytes [simp]: "is_int32 i \<Longrightarrow> int_of_bytes (int_bytes i) = i"
proof -
  assume i: "is_int32 i"
  have "wrap32 (i mod 4294967296) = wrap32 i"
    by (simp add: wrap32_def mod_simps)
  with i show ?thesis
    by (simp add: int_of_bytes_def int_bytes_def le_val_le_bytes nat_mod_distrib)
qed

lemma le_val_size_bytes [simp]: "n < 18446744073709551616 \<Longrightarrow> le_val (size_bytes n) = n"
  by (simp add: size_bytes_def le_val_le_bytes)

section \<open>Records\<close>

record session_data =
  sd_messages :: "string smap"
  sd_senderSeqNum :: int
  sd_targetSeqNum :: int

definition session_data0 :: session_data where
  "session_data0 = \<lparr>sd_messages = [], sd_senderSeqNum = 1, sd_targetSeqNum = 1\<rparr>"

datatype load_error = FileStoreLoadError string | LengthError

definition store_record :: "int \<Rightarrow> string \<Rightarrow> string" where
  "store_record seqnum msg = CHR 0x00 # int_bytes seqnum @ size_bytes (length msg) @ msg"

definition setSenderSeqNum_record :: "int \<Rightarrow> string" where
  "setSenderSeqNum_record num = CHR 0x01 # int_bytes num"

definition setTargetSeqNum_record :: "int \<Rightarrow> string" where
  "setTargetSeqNum_record num = CHR 0x02 # int_bytes num"

section \<open>Loading\<close>

definition read_n :: "nat \<Rightarrow> string \<Rightarrow> (string \<times> string) option" where
  "read_n n bs = (if n \<le> length bs then Some (take n bs, drop n bs) else None)"

lemma read_n_append [simp]: "length a = n \<Longrightarrow> read_n n (a @ b) = Some (a, b)"
  by (simp add: read_n_def)

lemma read_n_more: "read_n n bs = Some (a, r) \<Longrightarrow> read_n n (bs @ s) = Some (a, r @ s)"
  by (auto simp: read_n_def split: if_splits)

lemma read_n_shorter: "read_n n bs = Some (a, r) \<Longrightarrow> length r \<le> length bs"
  by (auto simp: read_n_def split: if_splits)

text \<open>The largest size \<open>std::string(length, 0)\<close> accepts before it throws \<open>std::length_error\<close>.\<close>

definition max_string_size :: nat where
  "max_string_size = 9223372036854775807"

text \<open>The body of a message record, after its type byte: sequence number, length, text.\<close>

definition read_message :: "string \<Rightarrow> load_error + (int \<times> string \<times> string)" where
  "read_message bs =
     (case read_n 4 bs of
        None \<Rightarrow> Inl (FileStoreLoadError ''Data file corrupted; unable to parse message seqnum'')
      | Some (s, bs1) \<Rightarrow>
          (case read_n 8 bs1 of
             None \<Rightarrow> Inl (FileStoreLoadError ''Data file corrupted; unable to parse message length'')
           | Some (l, bs2) \<Rightarrow>
               (if max_string_size < le_val l then Inl LengthError
                else case read_n (le_val l) bs2 of
                  None \<Rightarrow> Inl (FileStoreLoadError ''Data file corrupted; unable to read complete message'')
                | Some (msg, bs3) \<Rightarrow> Inr (int_of_bytes s, msg, bs3))))"

lemma read_message_shorter: "read_message bs = Inr (s, m, r) \<Longrightarrow> length r \<le> length bs"
  by (fastforce simp: read_message_def dest: read_n_shorter split: option.splits if_splits)

text \<open>The loop of \<open>StoreHandle::load\<close>; a type byte that is none of the three is skipped.\<close>

function load_loop :: "string \<Rightarrow> session_data \<Rightarrow> load_error + session_data" where
  "load_loop [] ret = Inr ret"
| "load_loop (t # bs) ret =
     (if t = CHR 0x01 \<or> t = CHR 0x02 then
        (case read_n 4 bs of
           None \<Rightarrow> Inl (FileStoreLoadError ''Data file corrupted; unable to parse seqnum'')
         | Some (s, bs') \<Rightarrow>
             load_loop bs'
               (if t = CHR 0x01 then ret\<lparr>sd_senderSeqNum := int_of_bytes s\<rparr>
                else ret\<lparr>sd_targetSeqNum := int_of_bytes s\<rparr>))
      else if t = CHR 0x00 then
        (case read_message bs of
           Inl e \<Rightarrow> Inl e
         | Inr (s, msg, bs') \<Rightarrow>
             load_loop bs' (ret\<lparr>sd_messages := smap_set (sd_messages ret) s msg\<rparr>))
      else load_loop bs ret)"
  by pat_completeness auto
termination
  by (relation "measure (\<lambda>(bs, ret). length bs)")
    (auto dest!: read_n_shorter read_message_shorter)

definition load :: "string option \<Rightarrow> load_error + session_data" where
  "load file = (case file of None \<Rightarrow> Inr session_data0 | Some bytes \<Rightarrow> load_loop bytes session_data0)"

section \<open>Appending records to a file\<close>

definition append_file :: "string option \<Rightarrow> string \<Rightarrow> string option" where
  "append_file file bytes = Some (case file of None \<Rightarrow> bytes | Some b \<Rightarrow> b @ bytes)"

lemma read_message_more:
  "read_message bs = Inr (s, m, r) \<Longrightarrow> read_message (bs @ x) = Inr (s, m, r @ x)"
proof -
  assume rm: "read_message bs = Inr (s, m, r)"
  then obtain a bs1 where 1: "read_n 4 bs = Some (a, bs1)"
    by (auto simp: read_message_def split: option.splits)
  with rm obtain l bs2 where 2: "read_n 8 bs1 = Some (l, bs2)"
    by (auto simp: read_message_def split: option.splits)
  with 1 rm have 3: "le_val l \<le> max_string_size"
    by (auto simp: read_message_def not_less split: if_splits)
  with 1 2 rm obtain m' bs3 where 4: "read_n (le_val l) bs2 = Some (m', bs3)"
    by (auto simp: read_message_def split: option.splits if_splits)
  note read_n_more[OF 1, of x] read_n_more[OF 2, of x] read_n_more[OF 4, of x]
  with 1 2 3 4 rm show ?thesis by (simp add: read_message_def)
qed

lemma load_loop_append:
  "load_loop bs d = Inr d' \<Longrightarrow> load_loop (bs @ r) d = load_loop r d'"
proof (induction bs d arbitrary: d' rule: load_loop.induct)
  case (2 t bs ret)
  show ?case
  proof (cases "t = CHR 0x01 \<or> t = CHR 0x02")
    case True
    with "2.prems" obtain s bs' where "read_n 4 bs = Some (s, bs')"
      by (auto split: option.splits)
    with True "2.IH"(1)[OF True this refl] "2.prems" read_n_more[OF this, of r] show ?thesis by simp
  next
    case F: False
    show ?thesis
    proof (cases "t = CHR 0x00")
      case True
      with F "2.prems" obtain s m bs' where "read_message bs = Inr (s, m, bs')"
        by (auto split: sum.splits)
      with True F "2.IH"(2)[OF F True this refl refl] "2.prems" read_message_more[OF this, of r]
      show ?thesis by simp
    next
      case False
      with F "2.IH"(3)[OF F False] "2.prems" show ?thesis by simp
    qed
  qed
qed simp

lemma load_append:
  "load f = Inr d \<Longrightarrow> load (append_file f r) = load_loop r d"
  by (auto simp: load_def append_file_def load_loop_append split: option.splits)

lemma load_loop_records [simp]:
  "is_int32 n \<Longrightarrow> length m \<le> max_string_size \<Longrightarrow>
   load_loop (store_record n m) d = Inr (d\<lparr>sd_messages := smap_set (sd_messages d) n m\<rparr>)"
  "is_int32 n \<Longrightarrow> load_loop (setSenderSeqNum_record n) d = Inr (d\<lparr>sd_senderSeqNum := n\<rparr>)"
  "is_int32 n \<Longrightarrow> load_loop (setTargetSeqNum_record n) d = Inr (d\<lparr>sd_targetSeqNum := n\<rparr>)"
  by (simp_all add: store_record_def setSenderSeqNum_record_def setTargetSeqNum_record_def
      read_message_def max_string_size_def read_n_def)

section \<open>The interface of a session store\<close>

text \<open>The writes a session makes, and what each means for the data a later load returns.\<close>

datatype store_op = PutMessage int string | PutSender int | PutTarget int

fun store_op_ok :: "store_op \<Rightarrow> bool" where
  "store_op_ok (PutMessage n m) \<longleftrightarrow> is_int32 n \<and> length m \<le> max_string_size"
| "store_op_ok (PutSender n) \<longleftrightarrow> is_int32 n"
| "store_op_ok (PutTarget n) \<longleftrightarrow> is_int32 n"

fun data_op :: "store_op \<Rightarrow> session_data \<Rightarrow> session_data" where
  "data_op (PutMessage n m) d = d\<lparr>sd_messages := smap_set (sd_messages d) n m\<rparr>"
| "data_op (PutSender n) d = d\<lparr>sd_senderSeqNum := n\<rparr>"
| "data_op (PutTarget n) d = d\<lparr>sd_targetSeqNum := n\<rparr>"

fun record_of :: "store_op \<Rightarrow> string" where
  "record_of (PutMessage n m) = store_record n m"
| "record_of (PutSender n) = setSenderSeqNum_record n"
| "record_of (PutTarget n) = setTargetSeqNum_record n"

locale session_store =
  fixes put :: "'s \<Rightarrow> store_op \<Rightarrow> 's"
    and load_data :: "'s \<Rightarrow> 'e + session_data"
    and wiped :: "'s"
    and inv :: "'s \<Rightarrow> bool"
  assumes inv_wiped: "inv wiped"
    and load_wiped: "load_data wiped = Inr session_data0"
    and inv_put: "inv s \<Longrightarrow> inv (put s opn)"
    and load_put: "inv s \<Longrightarrow> load_data s = Inr d \<Longrightarrow> store_op_ok opn \<Longrightarrow>
          load_data (put s opn) = Inr (data_op opn d)"
begin

lemma load_puts:
  "inv s \<Longrightarrow> load_data s = Inr d \<Longrightarrow> list_all store_op_ok ops \<Longrightarrow>
   load_data (foldl put s ops) = Inr (fold data_op ops d)"
  by (induction ops arbitrary: s d) (auto simp: load_put inv_put)

lemma load_after_wipe:
  "list_all store_op_ok ops \<Longrightarrow> load_data (foldl put wiped ops) = Inr (fold data_op ops session_data0)"
  by (rule load_puts[OF inv_wiped load_wiped])

end

definition file_write :: "string option \<Rightarrow> store_op \<Rightarrow> string option" where
  "file_write f opn = append_file f (record_of opn)"

lemma load_record_of: "store_op_ok opn \<Longrightarrow> load_loop (record_of opn) d = Inr (data_op opn d)"
  by (cases opn) auto

lemma load_file_write:
  "load f = Inr d \<Longrightarrow> store_op_ok opn \<Longrightarrow> load (file_write f opn) = Inr (data_op opn d)"
  by (simp add: file_write_def load_append load_record_of)

interpretation file_store: session_store file_write load "Some []" "\<lambda>_. True"
  by unfold_locales (simp_all add: load_file_write, simp add: load_def)

lemma file_writes_bytes:
  "foldl file_write (Some b) ops = Some (b @ concat (map record_of ops))"
  by (induction ops arbitrary: b) (auto simp: file_write_def append_file_def)

section \<open>Properties\<close>

text \<open>C25: loading a file that holds the records of any sequence of writes returns exactly the data
  those writes describe: the last sender and target numbers, and per sequence number the last message.\<close>

theorem store_roundtrip:
  assumes "list_all store_op_ok ops"
  shows "load (Some (concat (map record_of ops))) = Inr (fold data_op ops session_data0)"
  using file_store.load_after_wipe[OF assms] by (simp add: file_writes_bytes)

theorem store_roundtrip_witness:
  "load (Some (concat (map record_of [PutMessage 1 ''abc'', PutSender 2, PutTarget 7, PutSender 3])))
     = Inr \<lparr>sd_messages = [(1, ''abc'')], sd_senderSeqNum = 3, sd_targetSeqNum = 7\<rparr>"
  using store_roundtrip[of "[PutMessage 1 ''abc'', PutSender 2, PutTarget 7, PutSender 3]"]
  by (simp add: is_int32_def max_string_size_def session_data0_def)

text \<open>C29: a file cut inside its last record is reported as corrupt: whatever the earlier records
  are, no strict non-empty prefix of a further record loads.\<close>

lemma load_loop_truncated:
  assumes "store_op_ok opn" "0 < k" "k < length (record_of opn)"
  shows "\<exists>e. load_loop (take k (record_of opn)) d = Inl e"
proof (cases opn)
  case (PutMessage n m)
  define h where "h = int_bytes n @ size_bytes (length m)"
  obtain j where j: "k = Suc j" using assms(2) by (cases k) auto
  have tk: "take k (record_of opn) = CHR 0x00 # take j (h @ m)" and jl: "j < 12 + length m"
    using PutMessage assms(3) by (simp_all add: store_record_def j h_def)
  have lm: "length m \<le> max_string_size" using assms(1) PutMessage by simp
  have "\<exists>e. read_message (take j (h @ m)) = Inl e"
  proof (cases "12 \<le> j")
    case True
    then have "take j (h @ m) = int_bytes n @ size_bytes (length m) @ take (j - 12) m"
      by (simp add: h_def take_append)
    with jl lm True show ?thesis
      by (simp add: read_message_def max_string_size_def) (simp add: read_n_def)
  next
    case False
    then show ?thesis by (auto simp: read_message_def read_n_def)
  qed
  with tk show ?thesis by auto
next
  case (PutSender n)
  with assms show ?thesis
    by (cases k) (auto simp: setSenderSeqNum_record_def read_n_def)
next
  case (PutTarget n)
  with assms show ?thesis
    by (cases k) (auto simp: setTargetSeqNum_record_def read_n_def)
qed

theorem store_truncation_detected:
  assumes "list_all store_op_ok ops" "store_op_ok opn" "0 < k" "k < length (record_of opn)"
  shows "\<exists>e. load (Some (concat (map record_of ops) @ take k (record_of opn))) = Inl e"
proof -
  let ?b = "concat (map record_of ops)"
  have "load_loop ?b session_data0 = Inr (fold data_op ops session_data0)"
    using file_store.load_after_wipe[OF assms(1)] by (simp add: file_writes_bytes load_def)
  from load_loop_append[OF this] load_loop_truncated[OF assms(2-4)] show ?thesis
    by (simp add: load_def)
qed

theorem store_truncation_detected_witness:
  "\<exists>e. load (Some (concat (map record_of [PutSender 2]) @ take 3 (record_of (PutTarget 7)))) = Inl e"
  using store_truncation_detected[of "[PutSender 2]" "PutTarget 7" 3]
  by (simp add: is_int32_def setTargetSeqNum_record_def)

end
