(* ===== verification/Utils.thy ===== *)
theory Utils
  imports Prelude
begin

text \<open>
  \<^verbatim>\<open>lib/Utils.h\<close>: FIX UTC timestamps and the tag lookups that the network layer makes on raw
  text. Times are milliseconds (or microseconds) since 1970, read from the system clock, so
  they are natural numbers where they are written. \<open>gmtime_r\<close> and \<open>strftime\<close> are given by the
  Gregorian calendar itself: years and months are walked one at a time.
\<close>

section \<open>The calendar behind gmtime_r\<close>

definition leap :: "nat \<Rightarrow> bool" where
  "leap y \<longleftrightarrow> y mod 4 = 0 \<and> (y mod 100 \<noteq> 0 \<or> y mod 400 = 0)"

definition year_len :: "nat \<Rightarrow> nat" where
  "year_len y = (if leap y then 366 else 365)"

definition month_len :: "nat \<Rightarrow> nat \<Rightarrow> nat" where
  "month_len y m =
     (if m = 2 then (if leap y then 29 else 28)
      else if m = 4 \<or> m = 6 \<or> m = 9 \<or> m = 11 then 30 else 31)"

function year_walk :: "nat \<Rightarrow> nat \<Rightarrow> nat \<times> nat" where
  "year_walk y d = (if d < year_len y then (y, d) else year_walk (Suc y) (d - year_len y))"
  by pat_completeness auto
termination by (relation "measure snd") (auto simp: year_len_def)

function month_walk :: "nat \<Rightarrow> nat \<Rightarrow> nat \<Rightarrow> nat \<times> nat" where
  "month_walk y m d =
     (if d < month_len y m \<or> 12 \<le> m then (m, d) else month_walk y (Suc m) (d - month_len y m))"
  by pat_completeness auto
termination by (relation "measure (\<lambda>(y, m, d). 12 - m)") auto

declare year_walk.simps [simp del] month_walk.simps [simp del]

text \<open>\<open>struct tm\<close>: full year, month 1-12, day of month 1-31, hour, minute, second.\<close>

record tm =
  tm_year :: nat
  tm_mon :: nat
  tm_mday :: nat
  tm_hour :: nat
  tm_min :: nat
  tm_sec :: nat

definition gmtime :: "nat \<Rightarrow> tm" where
  "gmtime s =
     (let (y, yd) = year_walk 1970 (s div 86400); (m, d) = month_walk y 1 yd; r = s mod 86400
      in \<lparr>tm_year = y, tm_mon = m, tm_mday = Suc d,
          tm_hour = r div 3600, tm_min = r mod 3600 div 60, tm_sec = r mod 60\<rparr>)"

definition pad2 :: "nat \<Rightarrow> string" where
  "pad2 n = [digit_char (n div 10 mod 10), digit_char (n mod 10)]"

definition pad4 :: "nat \<Rightarrow> string" where
  "pad4 n = [digit_char (n div 1000 mod 10), digit_char (n div 100 mod 10),
             digit_char (n div 10 mod 10), digit_char (n mod 10)]"

text \<open>\<open>strftime\<close> with \<^verbatim>\<open>%Y%m%d-%H:%M:%S\<close>, for the four-digit years the 18-byte buffers hold.\<close>

definition strftime_utc :: "tm \<Rightarrow> string" where
  "strftime_utc t =
     pad4 (tm_year t) @ pad2 (tm_mon t) @ pad2 (tm_mday t) @ DASH # pad2 (tm_hour t)
     @ CHR '':'' # pad2 (tm_min t) @ CHR '':'' # pad2 (tm_sec t)"

definition utc_prefix :: "nat \<Rightarrow> string" where
  "utc_prefix s = strftime_utc (gmtime s)"

section \<open>Writing timestamps\<close>

text \<open>
  Each writer keeps the last second and its text in thread-local storage, zeroed at first.
  The cache is passed in and out.
\<close>

type_synonym ts_cache = "nat \<times> string"

definition ts_cache0 :: ts_cache where
  "ts_cache0 = (0, replicate 17 (CHR 0x00))"

definition refresh_cache :: "ts_cache \<Rightarrow> nat \<Rightarrow> ts_cache" where
  "refresh_cache cache epoch_s =
     (if epoch_s \<noteq> fst cache then (epoch_s, utc_prefix epoch_s) else cache)"

definition writeUTCTimestamp :: "ts_cache \<Rightarrow> nat \<Rightarrow> string \<times> ts_cache" where
  "writeUTCTimestamp cache epoch_ms =
     (let epoch_s = epoch_ms div 1000; ms = epoch_ms mod 1000;
          cache' = refresh_cache cache epoch_s
      in (take 17 (snd cache') @
          [CHR ''.'', digit_char (ms div 100), digit_char (ms div 10 mod 10), digit_char (ms mod 10)],
          cache'))"

definition pad6 :: "nat \<Rightarrow> string" where
  "pad6 n = pad2 (n div 10000) @ pad4 (n mod 10000)"

definition formatTimestampMicros :: "ts_cache \<Rightarrow> nat \<Rightarrow> string \<times> ts_cache" where
  "formatTimestampMicros cache epoch_us =
     (let epoch_s = epoch_us div 1000000; us = epoch_us mod 1000000;
          cache' = refresh_cache cache epoch_s
      in (take 17 (snd cache') @ CHR ''.'' # pad6 us, cache'))"

section \<open>Reading timestamps\<close>

definition parseN :: "string \<Rightarrow> nat \<Rightarrow> nat \<Rightarrow> int" where
  "parseN ts pos len = from_chars_or0 (take len (drop pos ts))"

text \<open>Howard Hinnant's days-from-civil formula, as the code writes it.\<close>

definition civil_days :: "int \<Rightarrow> int \<Rightarrow> int \<Rightarrow> int" where
  "civil_days year month day =
     (let y = year - (if month \<le> 2 then 1 else 0);
          era = cdiv (if 0 \<le> y then y else y - 399) 400;
          yoe = y - era * 400;
          doy = cdiv (153 * (month + (if month > 2 then -3 else 9)) + 2) 5 + day - 1;
          doe = yoe * 365 + cdiv yoe 4 - cdiv yoe 100 + doy
      in era * 146097 + doe - 719468)"

text \<open>The two loops that scale the fraction to milliseconds.\<close>

definition frac_ms :: "int \<Rightarrow> nat \<Rightarrow> int" where
  "frac_ms frac frac_len =
     (if frac_len \<le> 3 then ((\<lambda>f. f * 10) ^^ (3 - frac_len)) frac
      else ((\<lambda>f. cdiv f 10) ^^ (frac_len - 3)) frac)"

definition parseUTCTimestamp :: "string \<Rightarrow> int" where
  "parseUTCTimestamp ts =
     (if length ts < 17 then 0
      else
        let ms = civil_days (parseN ts 0 4) (parseN ts 4 2) (parseN ts 6 2) * 86400000
               + parseN ts 9 2 * 3600000 + parseN ts 12 2 * 60000 + parseN ts 15 2 * 1000
        in if 18 < length ts \<and> ts ! 17 = CHR ''.''
           then ms + frac_ms (from_chars_or0 (drop 18 ts)) (length ts - 18)
           else ms)"

section \<open>Tag lookups on raw text\<close>

definition buildTagPattern :: "int \<Rightarrow> string" where
  "buildTagPattern tag = SOH # dec_int tag @ [EQCH]"

text \<open>
  \<open>getTagValueView\<close> and the \<open>getTagValue\<close> overload on a prepared pattern: the value and the
  position of the separator that ends it, or an empty value and \<open>npos\<close> (\<open>None\<close>).
\<close>

definition getTagValue :: "string \<Rightarrow> string \<Rightarrow> nat \<Rightarrow> string \<times> nat option" where
  "getTagValue msg pattern idx =
     (case str_find msg pattern idx of
        None \<Rightarrow> ([], None)
      | Some b \<Rightarrow>
          (let b' = b + length pattern in
           case str_find msg [SOH] b' of
             None \<Rightarrow> ([], None)
           | Some e \<Rightarrow> (take (e - b') (drop b' msg), Some e)))"

section \<open>Calendar facts\<close>

lemma civil_jan1:
  assumes "1 \<le> y"
  shows "civil_days (int y) 1 1
     = 365 * (int y - 1) + (int y - 1) div 4 - (int y - 1) div 100 + (int y - 1) div 400 - 719162"
proof -
  define q r where "q = (int y - 1) div 400" and "r = (int y - 1) mod 400"
  have y: "int y - 1 = 400 * q + r" and r: "0 \<le> r" "r < 400"
    by (simp_all add: q_def r_def)
  from assms have q: "0 \<le> q" by (simp add: q_def)
  have e: "(400 * q + r) div 4 = 100 * q + r div 4" "(400 * q + r) div 100 = 4 * q + r div 100"
    "(400 * q + r) div 400 = q"
    using r by (simp_all add: div_plus_div_distrib_dvd_left)
  have "int y - 1 - q * 400 = r" using y by simp
  then have c: "civil_days (int y) 1 1 = q * 146097 + (r * 365 + r div 4 - r div 100 + 306) - 719468"
    using assms r by (simp add: civil_days_def Let_def flip: q_def)
  show ?thesis unfolding y e c by simp
qed

lemma civil_year_step:
  assumes "1 \<le> y"
  shows "civil_days (int (Suc y)) 1 1 = civil_days (int y) 1 1 + int (year_len y)"
proof -
  obtain x where x: "y = Suc x" using assms by (cases y) auto
  have step: "int (Suc x) div int k = int x div int k + (if Suc x mod k = 0 then 1 else 0)" for k
    unfolding zdiv_int[symmetric] by (simp add: div_Suc)
  have "y mod 400 mod 100 = y mod 100" "y mod 100 mod 4 = y mod 4"
    by (rule mod_mod_cancel, simp)+
  then have d: "y mod 400 = 0 \<longrightarrow> y mod 100 = 0" "y mod 100 = 0 \<longrightarrow> y mod 4 = 0"
    by auto
  have c1: "civil_days (int (Suc y)) 1 1 = 365 * int y + int y div 4 - int y div 100 + int y div 400 - 719162"
    using civil_jan1[of "Suc y"] by simp
  have c2: "civil_days (int y) 1 1
      = 365 * (int y - 1) + int x div 4 - int x div 100 + int x div 400 - 719162"
    using civil_jan1[OF assms] by (simp add: x)
  have e: "int y div 4 = int x div 4 + of_bool (y mod 4 = 0)"
    "int y div 100 = int x div 100 + of_bool (y mod 100 = 0)"
    "int y div 400 = int x div 400 + of_bool (y mod 400 = 0)"
    using step[of 4] step[of 100] step[of 400] by (simp_all only: x of_nat_numeral of_bool_def)
  have l: "int (year_len y)
      = 365 + of_bool (y mod 4 = 0) - of_bool (y mod 100 = 0) + of_bool (y mod 400 = 0)"
    using d by (cases "y mod 400 = 0"; cases "y mod 100 = 0"; cases "y mod 4 = 0")
      (simp_all add: year_len_def leap_def)
  show ?thesis unfolding c1 c2 e l by simp
qed

lemma civil_month_step:
  assumes "1 \<le> y" "1 \<le> m" "m < 12"
  shows "civil_days (int y) (int (Suc m)) d = civil_days (int y) (int m) d + int (month_len y m)"
proof -
  have feb: "civil_days (int y) 3 d = civil_days (int y) 1 d + int (year_len y) - 306"
  proof -
    have "civil_days (int (Suc y)) 1 1 = civil_days (int y) 3 1 + 306"
      using assms(1) by (simp add: civil_days_def Let_def)
    moreover have "civil_days (int y) k d = civil_days (int y) k 1 + d - 1" for k
      by (simp add: civil_days_def Let_def)
    ultimately show ?thesis using civil_year_step[OF assms(1)] by simp
  qed
  have "m = 1 \<or> m = 2 \<or> m = 3 \<or> m = 4 \<or> m = 5 \<or> m = 6 \<or> m = 7 \<or> m = 8 \<or> m = 9 \<or> m = 10 \<or> m = 11"
    using assms(2,3) by (auto simp: numeral_eq_Suc less_Suc_eq)
  then consider "m = 1" | "m = 2" | "m = 3" | "m = 4" | "m = 5" | "m = 6" | "m = 7" | "m = 8"
    | "m = 9" | "m = 10" | "m = 11"
    by blast
  then show ?thesis
  proof cases
    case 2
    have "civil_days (int y) 2 d = civil_days (int y) 1 d + 31"
      by (simp add: civil_days_def Let_def)
    with feb 2 show ?thesis by (simp add: year_len_def month_len_def)
  qed (simp_all add: civil_days_def Let_def month_len_def)
qed

lemma civil_day_shift: "civil_days y m (d + k) = civil_days y m d + k"
  by (simp add: civil_days_def Let_def)

lemma civil_epoch: "civil_days 1970 1 1 = 0"
  using civil_jan1[of 1970] by simp

lemma civil_jan1_mono: "1 \<le> y \<Longrightarrow> y \<le> z \<Longrightarrow> civil_days (int y) 1 1 \<le> civil_days (int z) 1 1"
proof (induction "z - y" arbitrary: z)
  case (Suc n)
  then obtain w where w: "z = Suc w" "n = w - y" "y \<le> w" by (cases z) auto
  with Suc have "civil_days (int y) 1 1 \<le> civil_days (int w) 1 1" by simp
  with civil_year_step[of w] w Suc.prems show ?case by simp
qed simp

lemma year_walk_correct:
  "1 \<le> y \<Longrightarrow> year_walk y d = (y', d') \<Longrightarrow>
   y \<le> y' \<and> d' < year_len y' \<and> civil_days (int y') 1 1 + int d' = civil_days (int y) 1 1 + int d"
proof (induction y d rule: year_walk.induct)
  case (1 y d)
  show ?case
  proof (cases "d < year_len y")
    case True
    with "1.prems" show ?thesis by (simp add: year_walk.simps[of y d])
  next
    case False
    with "1.prems" have "year_walk (Suc y) (d - year_len y) = (y', d')"
      by (simp add: year_walk.simps[of y d])
    from "1.IH"[OF False _ this] civil_year_step[OF "1.prems"(1)] False show ?thesis by simp
  qed
qed

lemma month_walk_correct:
  "1 \<le> y \<Longrightarrow> 1 \<le> m \<Longrightarrow> m \<le> 12 \<Longrightarrow> month_walk y m d = (m', d') \<Longrightarrow>
   m \<le> m' \<and> m' \<le> 12 \<and> (d' < month_len y m' \<or> m' = 12)
   \<and> civil_days (int y) (int m') (int d') = civil_days (int y) (int m) (int d)"
proof (induction y m d rule: month_walk.induct)
  case (1 y m d)
  show ?case
  proof (cases "d < month_len y m \<or> 12 \<le> m")
    case True
    with "1.prems" show ?thesis by (auto simp: month_walk.simps[of y m d])
  next
    case False
    with "1.prems" have "month_walk y (Suc m) (d - month_len y m) = (m', d')"
      by (simp add: month_walk.simps[of y m d])
    from "1.IH"[OF False _ _ _ this] "1.prems" False
      civil_month_step[of y m "int (d - month_len y m)"]
      civil_day_shift[of "int y" "int m" "int (d - month_len y m)" "int (month_len y m)"]
    show ?thesis by (simp add: of_nat_diff)
  qed
qed

lemma civil_dec1: "1 \<le> y \<Longrightarrow> civil_days (int y) 12 1 = civil_days (int y) 1 1 + int (year_len y) - 31"
proof -
  assume y: "1 \<le> y"
  have "civil_days (int (Suc y)) 1 1 = civil_days (int y) 3 1 + 306"
    using y by (simp add: civil_days_def Let_def)
  moreover have "civil_days (int y) 12 1 = civil_days (int y) 3 1 + 275"
    by (simp add: civil_days_def Let_def)
  ultimately show ?thesis using civil_year_step[OF y] by simp
qed

lemma gmtime_correct:
  assumes "s < 253402300800"
  defines "t \<equiv> gmtime s"
  shows "civil_days (int (tm_year t)) (int (tm_mon t)) (int (tm_mday t)) = int (s div 86400)"
    and "tm_year t < 10000" "tm_mon t \<le> 12" "tm_mday t \<le> 31"
    and "tm_hour t = s mod 86400 div 3600" "tm_min t = s mod 86400 mod 3600 div 60"
    and "tm_sec t = s mod 86400 mod 60"
proof -
  obtain y yd where yw: "year_walk 1970 (s div 86400) = (y, yd)" by force
  obtain m d where mw: "month_walk y 1 yd = (m, d)" by force
  have t: "t = \<lparr>tm_year = y, tm_mon = m, tm_mday = Suc d, tm_hour = s mod 86400 div 3600,
      tm_min = s mod 86400 mod 3600 div 60, tm_sec = s mod 86400 mod 60\<rparr>"
    by (simp add: t_def gmtime_def yw mw[unfolded One_nat_def] Let_def)
  from year_walk_correct[OF _ yw] civil_epoch
  have y: "1970 \<le> y" "yd < year_len y" "civil_days (int y) 1 1 + int yd = int (s div 86400)"
    by simp_all
  from month_walk_correct[OF _ _ _ mw] y(1)
  have m: "1 \<le> m" "m \<le> 12" "d < month_len y m \<or> m = 12"
    "civil_days (int y) (int m) (int d) = civil_days (int y) 1 (int yd)"
    by simp_all
  show "civil_days (int (tm_year t)) (int (tm_mon t)) (int (tm_mday t)) = int (s div 86400)"
    using m(4) y(3) civil_day_shift[of "int y" "int m" "int d" 1]
      civil_day_shift[of "int y" 1 1 "int yd - 1"]
    by (simp add: t add.commute[of 1])
  show "tm_year t < 10000"
  proof (rule ccontr)
    assume "\<not> tm_year t < 10000"
    then have "civil_days 10000 1 1 \<le> civil_days (int y) 1 1"
      using civil_jan1_mono[of 10000 y] by (simp add: t)
    moreover have "civil_days 10000 1 1 = 2932897" using civil_jan1[of 10000] by simp
    ultimately have "2932897 \<le> int (s div 86400)" using y(3) by linarith
    with assms(1) show False by simp
  qed
  show "tm_mon t \<le> 12" using m(2) by (simp add: t)
  show "tm_mday t \<le> 31"
  proof (cases "d < month_len y m")
    case True
    then show ?thesis by (auto simp: t month_len_def split: if_splits)
  next
    case False
    with m(3,4) have "civil_days (int y) 12 (int d) = civil_days (int y) 1 (int yd)" by simp
    with civil_dec1[of y] y(1,2) civil_day_shift[of "int y" 12 1 "int d - 1"]
      civil_day_shift[of "int y" 1 1 "int yd - 1"]
    show ?thesis by (simp add: t)
  qed
  show "tm_hour t = s mod 86400 div 3600" "tm_min t = s mod 86400 mod 3600 div 60"
    "tm_sec t = s mod 86400 mod 60"
    by (simp_all add: t)
qed


section \<open>Digit groups\<close>

lemma digits_val_bound: "list_all is_digit ds \<Longrightarrow> digits_val ds < 10 ^ length ds"
proof (induction ds rule: rev_induct)
  case (snoc c ds)
  then have "digit_val c < 10" by (auto simp: is_digit_def digit_val_def)
  with snoc show ?case by (simp add: digits_val_def)
qed (simp add: digits_val_def)

lemma from_chars_digits:
  assumes "list_all is_digit ds" "ds \<noteq> []" "length ds \<le> 9"
  shows "from_chars_or0 ds = int (digits_val ds)"
proof -
  have "hd ds \<noteq> DASH"
    using assms(1,2) by (cases ds) auto
  moreover have "takeWhile is_digit ds = ds"
    using assms(1) by (simp add: takeWhile_eq_all_conv list_all_iff)
  moreover have "digits_val ds < 10 ^ 9"
    using digits_val_bound[OF assms(1)] power_increasing[OF assms(3), of "10::nat"] by linarith
  ultimately show ?thesis
    using assms(2) by (simp add: from_chars_or0_def from_chars_int_def Let_def is_int32_def
        del: takeWhile_eq_all_conv)
qed

lemma from_chars_2:
  "a < 10 \<Longrightarrow> b < 10 \<Longrightarrow> from_chars_or0 [digit_char a, digit_char b] = int (10 * a + b)"
  by (subst from_chars_digits) (simp_all add: digits_val_def)

lemma from_chars_3:
  "a < 10 \<Longrightarrow> b < 10 \<Longrightarrow> c < 10 \<Longrightarrow>
   from_chars_or0 [digit_char a, digit_char b, digit_char c] = int (100 * a + 10 * b + c)"
  by (subst from_chars_digits) (simp_all add: digits_val_def)

lemma from_chars_4:
  "a < 10 \<Longrightarrow> b < 10 \<Longrightarrow> c < 10 \<Longrightarrow> d < 10 \<Longrightarrow>
   from_chars_or0 [digit_char a, digit_char b, digit_char c, digit_char d]
     = int (1000 * a + 100 * b + 10 * c + d)"
  by (subst from_chars_digits) (simp_all add: digits_val_def)

lemma digit_split:
  fixes n :: nat
  shows "10 * (n div 10 mod 10) + n mod 10 = n mod 100"
    and "100 * (n div 100 mod 10) + 10 * (n div 10 mod 10) + n mod 10 = n mod 1000"
    and "1000 * (n div 1000 mod 10) + 100 * (n div 100 mod 10) + 10 * (n div 10 mod 10) + n mod 10
      = n mod 10000"
proof -
  have m: "n mod (10 * k) = 10 * (n div 10 mod k) + n mod 10"
    "n mod (100 * k) = 100 * (n div 100 mod k) + n mod 100"
    "n mod (1000 * k) = 1000 * (n div 1000 mod k) + n mod 1000" for k
    by (simp_all add: mod_mult2_eq)
  show a: "10 * (n div 10 mod 10) + n mod 10 = n mod 100" using m(1)[of 10] by simp
  show b: "100 * (n div 100 mod 10) + 10 * (n div 10 mod 10) + n mod 10 = n mod 1000"
    using m(2)[of 10] a by simp
  show "1000 * (n div 1000 mod 10) + 100 * (n div 100 mod 10) + 10 * (n div 10 mod 10) + n mod 10
      = n mod 10000"
    using m(3)[of 10] b by simp
qed

lemma from_chars_pad:
  "n < 100 \<Longrightarrow> from_chars_or0 (pad2 n) = int n"
  "n < 10000 \<Longrightarrow> from_chars_or0 (pad4 n) = int n"
  using digit_split[of n] by (simp_all add: pad2_def pad4_def from_chars_2 from_chars_4)

lemma pad_length [simp]: "length (pad2 n) = 2" "length (pad4 n) = 4"
  by (simp_all add: pad2_def pad4_def)

lemma length_utc_prefix [simp]: "length (utc_prefix s) = 17"
  by (simp add: utc_prefix_def strftime_utc_def)

section \<open>Properties\<close>

definition ts_cache_ok :: "ts_cache \<Rightarrow> bool" where
  "ts_cache_ok cache \<longleftrightarrow> fst cache = 0 \<or> snd cache = utc_prefix (fst cache)"

lemma refresh_cache_ok:
  "ts_cache_ok cache \<Longrightarrow> ts_cache_ok (refresh_cache cache s)"
  "ts_cache_ok cache \<Longrightarrow> 0 < s \<Longrightarrow> snd (refresh_cache cache s) = utc_prefix s"
  by (auto simp: ts_cache_ok_def refresh_cache_def)

lemma parse_prefix:
  assumes "s < 253402300800" "length r = 4" "r ! 0 = CHR ''.''"
  shows "parseUTCTimestamp (utc_prefix s @ r)
    = int s * 1000 + frac_ms (from_chars_or0 (tl r)) 3"
proof -
  let ?t = "gmtime s"
  define Y where "Y = pad4 (tm_year ?t)"
  note g = gmtime_correct[OF assms(1)]
  have h: "tm_hour ?t < 100" "tm_min ?t < 100" "tm_sec ?t < 100" "tm_mon ?t < 100" "tm_mday ?t < 100"
    using g(3-7) by (auto simp: less_mult_imp_div_less)
  define x where "x = utc_prefix s @ r"
  have p: "x = pad4 (tm_year ?t) @ pad2 (tm_mon ?t) @ pad2 (tm_mday ?t) @ DASH # pad2 (tm_hour ?t)
      @ CHR '':'' # pad2 (tm_min ?t) @ CHR '':'' # pad2 (tm_sec ?t) @ r"
    by (simp add: x_def utc_prefix_def strftime_utc_def)
  have n: "parseN x 0 4 = int (tm_year ?t)" "parseN x 4 2 = int (tm_mon ?t)"
    "parseN x 6 2 = int (tm_mday ?t)" "parseN x 9 2 = int (tm_hour ?t)"
    "parseN x 12 2 = int (tm_min ?t)" "parseN x 15 2 = int (tm_sec ?t)"
    using h g(2) by (simp_all add: parseN_def p from_chars_pad numeral_eq_Suc)
  have l: "length x = 21" "x ! 17 = CHR ''.''" "drop 18 x = tl r"
    using assms(2,3) by (simp_all add: x_def nth_append drop_Suc)
  have "int (tm_hour ?t) * 3600000 + int (tm_min ?t) * 60000 + int (tm_sec ?t) * 1000
      = int (s mod 86400) * 1000"
  proof -
    define m where "m = s mod 86400"
    have "m mod 3600 mod 60 = m mod 60" by (rule mod_mod_cancel) simp
    then have "3600 * (m div 3600) + 60 * (m mod 3600 div 60) + m mod 60 = m"
      by (metis add.assoc mult_div_mod_eq)
    then have "int (3600 * (m div 3600) + 60 * (m mod 3600 div 60) + m mod 60) = int m" by simp
    then show ?thesis using g(5-7) by (simp add: m_def)
  qed
  moreover have "int (s div 86400) * 86400000 + int (s mod 86400) * 1000 = int s * 1000"
  proof -
    define a b where "a = s div 86400" and "b = s mod 86400"
    then have "s = 86400 * a + b" by simp
    then have "int a * 86400000 + int b * 1000 = int s * 1000" by simp
    then show ?thesis unfolding a_def b_def .
  qed
  ultimately show ?thesis
    unfolding x_def[symmetric]
    by (simp add: parseUTCTimestamp_def Let_def n l g(1))
qed

lemma written_timestamp:
  assumes "ts_cache_ok cache" "1000 \<le> t" "t < 253402300800000"
  shows "parseUTCTimestamp (fst (writeUTCTimestamp cache t)) = int t
    \<and> length (fst (writeUTCTimestamp cache t)) = 21
    \<and> ts_cache_ok (snd (writeUTCTimestamp cache t))"
proof -
  define s ms where "s = t div 1000" and "ms = t mod 1000"
  have s: "s < 253402300800" "0 < s" using assms by (auto simp: s_def less_mult_imp_div_less)
  define r where "r = [CHR ''.'', digit_char (ms div 100), digit_char (ms div 10 mod 10), digit_char (ms mod 10)]"
  have w: "fst (writeUTCTimestamp cache t) = utc_prefix s @ r"
    using refresh_cache_ok(2)[OF assms(1) s(2)]
    by (simp add: writeUTCTimestamp_def Let_def r_def flip: s_def ms_def)
  have "ms div 100 < 10" by (simp add: ms_def less_mult_imp_div_less)
  then have f: "from_chars_or0 (tl r) = int ms"
    using digit_split(2)[of ms] by (simp add: r_def from_chars_3 ms_def)
  have "int s * 1000 + int ms = int t"
  proof -
    have "t = 1000 * s + ms" by (simp add: s_def ms_def)
    then show ?thesis by simp
  qed
  with w f parse_prefix[OF s(1), of r] have "parseUTCTimestamp (fst (writeUTCTimestamp cache t)) = int t"
    by (simp add: r_def frac_ms_def)
  then show ?thesis
    using w refresh_cache_ok(1)[OF assms(1)]
    by (simp add: r_def writeUTCTimestamp_def Let_def)
qed

text \<open>C30: a UTC timestamp written by \<open>writeUTCTimestamp\<close> is 21 bytes long and
  \<open>parseUTCTimestamp\<close> reads back the same number of milliseconds, for every time from one second
  after the epoch to the end of year 9999 and any state of the writer's one-second cache.\<close>

theorem timestamp_roundtrip:
  assumes "ts_cache_ok cache" "1000 \<le> t" "t < 253402300800000"
  shows "parseUTCTimestamp (fst (writeUTCTimestamp cache t)) = int t
    \<and> length (fst (writeUTCTimestamp cache t)) = 21
    \<and> ts_cache_ok (snd (writeUTCTimestamp cache t))"
  using written_timestamp[OF assms] .

theorem timestamp_roundtrip_witness:
  "parseUTCTimestamp (fst (writeUTCTimestamp ts_cache0 1711800000123)) = 1711800000123"
  using timestamp_roundtrip[of ts_cache0 1711800000123] by (simp add: ts_cache_ok_def ts_cache0_def)

end
