(* ===== verification/FileWriter.thy ===== *)
theory FileWriter
  imports Store Utils
begin

text \<open>
  \<^verbatim>\<open>lib/FileUtils.h\<close>, \<^verbatim>\<open>lib/FileUtils.cpp\<close>: the asynchronous file writer under the store and
  the message log. Callers append to a queue under a lock; the writer thread swaps the queue
  with its own buffer and appends the buffer to the file. A step of the interleaving is one
  locked operation of a caller or one \<open>flushInstances\<close> pass over an instance. Whether the file
  system accepts an open or a write in a pass is the environment \<open>fs_env\<close>.
\<close>

section \<open>State\<close>

record log_entry =
  le_epoch_us :: nat
  le_inbound :: bool
  le_msg :: string

record writer =
  w_buffer :: string
  w_queue :: string
  w_logEntryQueue :: "log_entry list"
  w_logEntryBuffer :: "log_entry list"
  w_shouldReset :: bool
  w_dirty :: bool
  w_formatFIXMessages :: bool
  w_open :: bool
  w_good :: bool
  w_ts :: ts_cache
  w_file :: "string option"

record fs_env =
  can_open :: bool
  write_ok :: bool

definition fs_fine :: fs_env where
  "fs_fine = \<lparr>can_open = True, write_ok = True\<rparr>"

definition new_writer :: "bool \<Rightarrow> string option \<Rightarrow> writer" where
  "new_writer fmt file =
     \<lparr>w_buffer = [], w_queue = [], w_logEntryQueue = [], w_logEntryBuffer = [],
      w_shouldReset = False, w_dirty = False, w_formatFIXMessages = fmt,
      w_open = False, w_good = True, w_ts = ts_cache0, w_file = file\<rparr>"

section \<open>Operations of the callers\<close>

definition write_text :: "writer \<Rightarrow> string \<Rightarrow> writer" where
  "write_text w text = w\<lparr>w_queue := w_queue w @ text, w_dirty := True\<rparr>"

definition writeRaw :: "writer \<Rightarrow> string \<Rightarrow> string \<Rightarrow> writer" where
  "writeRaw w prefix body = w\<lparr>w_queue := (w_queue w @ prefix) @ body, w_dirty := True\<rparr>"

definition writeMessage :: "writer \<Rightarrow> nat \<Rightarrow> bool \<Rightarrow> string \<Rightarrow> writer" where
  "writeMessage w epoch_us inbound msg =
     w\<lparr>w_logEntryQueue := w_logEntryQueue w @ [\<lparr>le_epoch_us = epoch_us, le_inbound = inbound, le_msg = msg\<rparr>],
       w_dirty := True\<rparr>"

definition reset_writer :: "writer \<Rightarrow> writer" where
  "reset_writer w = w\<lparr>w_shouldReset := True, w_dirty := True\<rparr>"

section \<open>A flush pass\<close>

definition format_entry :: "ts_cache \<Rightarrow> log_entry \<Rightarrow> string \<times> ts_cache" where
  "format_entry cache e =
     (let (ts, cache') = formatTimestampMicros cache (le_epoch_us e)
      in (ts @ (if le_inbound e then '' RECV: '' else '' SENT: '') @ le_msg e @ [CHR 0x0A], cache'))"

fun format_entries :: "ts_cache \<Rightarrow> log_entry list \<Rightarrow> string \<times> ts_cache" where
  "format_entries cache [] = ([], cache)"
| "format_entries cache (e # es) =
     (let (t, cache') = format_entry cache e; (ts, cache'') = format_entries cache' es
      in (t @ ts, cache''))"

definition printable_soh :: "string \<Rightarrow> string" where
  "printable_soh s = map (\<lambda>c. if c = SOH then BAR else c) s"

text \<open>The swap under the lock, then the formatting of the deferred log entries.\<close>

definition swap_buffers :: "writer \<Rightarrow> writer" where
  "swap_buffers w =
     (let w1 = (if w_queue w \<noteq> [] then w\<lparr>w_queue := w_buffer w, w_buffer := w_queue w\<rparr> else w)
      in if w_logEntryQueue w1 \<noteq> []
         then w1\<lparr>w_logEntryQueue := w_logEntryBuffer w1, w_logEntryBuffer := w_logEntryQueue w1\<rparr>
         else w1)"

definition format_log :: "writer \<Rightarrow> writer" where
  "format_log w =
     (let (t, cache) = format_entries (w_ts w) (w_logEntryBuffer w)
      in w\<lparr>w_buffer := w_buffer w @ t, w_logEntryBuffer := [], w_ts := cache\<rparr>)"

definition write_out :: "fs_env \<Rightarrow> writer \<Rightarrow> writer" where
  "write_out env w =
     (let w1 = (if w_formatFIXMessages w then w\<lparr>w_buffer := printable_soh (w_buffer w)\<rparr> else w);
          opened = (w_open w1 \<and> w_good w1) \<or> can_open env
      in if \<not> opened then w1\<lparr>w_open := False, w_good := False\<rparr>
         else if write_ok env
         then w1\<lparr>w_open := True, w_good := True, w_file := append_file (w_file w1) (w_buffer w1), w_buffer := []\<rparr>
         else w1\<lparr>w_open := True, w_good := False, w_buffer := []\<rparr>)"

definition flushInstance :: "fs_env \<Rightarrow> writer \<Rightarrow> writer" where
  "flushInstance env w =
     (if \<not> w_dirty w then w
      else
        let w1 = w\<lparr>w_dirty := False\<rparr>
        in if w_shouldReset w1
           then w1\<lparr>w_shouldReset := False, w_queue := [], w_buffer := [],
                   w_logEntryQueue := [], w_logEntryBuffer := [], w_open := False,
                   w_file := (if can_open env then Some [] else w_file w1)\<rparr>
           else
             let w2 = format_log (swap_buffers w1)
             in if w_buffer w2 = [] then w2 else write_out env w2)"

definition flushInstances :: "fs_env \<Rightarrow> (string, writer) hmap \<Rightarrow> (string, writer) hmap" where
  "flushInstances env ws = map (\<lambda>(p, w). (p, flushInstance env w)) ws"

text \<open>\<open>createInstance\<close>: one instance per path.\<close>

definition createInstance ::
    "(string, writer) hmap \<Rightarrow> string \<Rightarrow> bool \<Rightarrow> string option \<Rightarrow> (string, writer) hmap" where
  "createInstance ws path fmt file = hmap_emplace ws path (new_writer fmt file)"

section \<open>Order of bytes on a working file system\<close>

text \<open>What the file will hold once everything queued is written, for an instance without log
  entries (the session store's).\<close>

definition eventual :: "writer \<Rightarrow> string" where
  "eventual w = (case w_file w of None \<Rightarrow> [] | Some b \<Rightarrow> b) @ w_buffer w @ w_queue w"

definition store_writer :: "writer \<Rightarrow> bool" where
  "store_writer w \<longleftrightarrow> \<not> w_formatFIXMessages w \<and> w_logEntryQueue w = [] \<and> w_logEntryBuffer w = []
     \<and> \<not> w_shouldReset w \<and> w_buffer w = [] \<and> (w_queue w \<noteq> [] \<longrightarrow> w_dirty w)"

lemma store_writer_ops [simp]:
  "store_writer w \<Longrightarrow> store_writer (write_text w t)"
  "store_writer w \<Longrightarrow> store_writer (writeRaw w p t)"
  by (auto simp: store_writer_def write_text_def writeRaw_def)

lemma eventual_ops [simp]:
  "eventual (write_text w t) = eventual w @ t"
  "eventual (writeRaw w p t) = eventual w @ p @ t"
  by (simp_all add: eventual_def write_text_def writeRaw_def)

lemma flush_store_writer:
  assumes "store_writer w"
  shows "store_writer (flushInstance fs_fine w)" "eventual (flushInstance fs_fine w) = eventual w"
    "w_queue (flushInstance fs_fine w) = []"
  using assms
  by (auto simp: store_writer_def flushInstance_def Let_def swap_buffers_def format_log_def
      write_out_def fs_fine_def eventual_def append_file_def split: option.split)

lemma flush_store_writer_file:
  assumes "store_writer w" "eventual w \<noteq> [] \<or> w_file w \<noteq> None"
  shows "w_file (flushInstance fs_fine w) = Some (eventual w)"
  using assms
  by (auto simp: store_writer_def flushInstance_def Let_def swap_buffers_def format_log_def
      write_out_def fs_fine_def eventual_def append_file_def split: option.split)

section \<open>The store behind the asynchronous writer\<close>

text \<open>\<open>StoreHandle\<close>'s three writes go through the instance of the session's data file.\<close>

fun buffered_put :: "writer \<Rightarrow> store_op \<Rightarrow> writer" where
  "buffered_put w (PutMessage n m) =
     writeRaw w (CHR 0x00 # int_bytes n @ size_bytes (length m)) m"
| "buffered_put w (PutSender n) = write_text w (setSenderSeqNum_record n)"
| "buffered_put w (PutTarget n) = write_text w (setTargetSeqNum_record n)"

definition reload :: "writer \<Rightarrow> load_error + session_data" where
  "reload w = load (w_file (flushInstance fs_fine w))"

lemma eventual_buffered_put: "eventual (buffered_put w opn) = eventual w @ record_of opn"
  by (cases opn) (simp_all add: store_record_def)

lemma store_writer_buffered_put [simp]: "store_writer w \<Longrightarrow> store_writer (buffered_put w opn)"
  by (cases opn) auto

lemma record_of_nonempty [simp]: "record_of opn \<noteq> []"
  by (cases opn) (auto simp: store_record_def setSenderSeqNum_record_def setTargetSeqNum_record_def)

lemma reload_eventual:
  assumes "store_writer w"
  shows "reload w = load_loop (eventual w) session_data0"
proof (cases "eventual w \<noteq> [] \<or> w_file w \<noteq> None")
  case True
  then show ?thesis using flush_store_writer_file[OF assms] by (simp add: reload_def load_def)
next
  case False
  then have "w_queue w = []" "w_buffer w = []" "w_file w = None" by (auto simp: eventual_def)
  with assms False have "w_file (flushInstance fs_fine w) = None"
    by (auto simp: store_writer_def flushInstance_def Let_def swap_buffers_def format_log_def)
  with False show ?thesis by (simp add: reload_def load_def)
qed

lemma load_records:
  "load_loop b session_data0 = Inr d \<Longrightarrow> list_all store_op_ok ops \<Longrightarrow>
   load_loop (b @ concat (map record_of ops)) session_data0 = Inr (fold data_op ops d)"
proof (induction ops arbitrary: b d)
  case (Cons op ops)
  have "load_loop (b @ record_of op) session_data0 = Inr (data_op op d)"
    using Cons.prems by (simp add: load_loop_append load_record_of)
  from Cons.IH[OF this] Cons.prems(2) show ?case by simp
qed simp

interpretation buffered_store: session_store buffered_put reload
    "flushInstance fs_fine (reset_writer (new_writer False None))" store_writer
proof (unfold_locales, goal_cases)
  case 1
  then show ?case
    by (simp add: flushInstance_def reset_writer_def new_writer_def store_writer_def fs_fine_def)
next
  case 2
  then show ?case
    by (simp add: reload_def load_def flushInstance_def reset_writer_def new_writer_def fs_fine_def)
next
  case (4 s d opn)
  then show ?case
    by (simp add: reload_eventual eventual_buffered_put load_loop_append load_record_of)
qed simp

section \<open>Properties\<close>

text \<open>in any interleaving of appends and flush passes on a working file system, the session
  store's file, with what is still queued, is the appended texts in call order after the file's
  first content; nothing is lost, duplicated or reordered.\<close>

datatype writer_step = Append string | Flush

fun step_writer :: "writer \<Rightarrow> writer_step \<Rightarrow> writer" where
  "step_writer w (Append t) = write_text w t"
| "step_writer w Flush = flushInstance fs_fine w"

fun appended :: "writer_step list \<Rightarrow> string" where
  "appended [] = []"
| "appended (Append t # es) = t @ appended es"
| "appended (Flush # es) = appended es"

lemma writer_steps_eventual:
  "store_writer w \<Longrightarrow> store_writer (foldl step_writer w es)
   \<and> eventual (foldl step_writer w es) = eventual w @ appended es"
proof (induction es arbitrary: w)
  case (Cons e es)
  then show ?case by (cases e) (simp_all add: flush_store_writer)
qed simp

theorem writer_preserves_order:
  shows "let w = foldl step_writer (new_writer False (Some b)) es
         in (case w_file w of None \<Rightarrow> [] | Some f \<Rightarrow> f) @ w_queue w = b @ appended es
            \<and> w_file (flushInstance fs_fine w) = Some (b @ appended es)"
proof -
  let ?init = "new_writer False (Some b)"
  let ?w = "foldl step_writer ?init es"
  have w0: "store_writer ?init" "eventual ?init = b"
    by (simp_all add: store_writer_def new_writer_def eventual_def)
  from writer_steps_eventual[OF w0(1), of es] w0(2)
  have w: "store_writer ?w" "eventual ?w = b @ appended es" by simp_all
  have hasfile: "store_writer w \<Longrightarrow> w_file w \<noteq> None \<Longrightarrow> w_file (step_writer w e) \<noteq> None" for w e
    by (cases e) (auto simp: write_text_def flush_store_writer_file)
  have "store_writer w \<Longrightarrow> w_file w \<noteq> None \<Longrightarrow> w_file (foldl step_writer w es) \<noteq> None" for w
  proof (induction es arbitrary: w)
    case (Cons e es)
    have "store_writer (step_writer w e)"
      using writer_steps_eventual[OF Cons.prems(1), of "[e]"] by simp
    with Cons hasfile[OF Cons.prems] show ?case by simp
  qed simp
  from this[OF w0(1)] have "w_file ?w \<noteq> None" by (simp add: new_writer_def)
  with w flush_store_writer_file[OF w(1)] show ?thesis
    by (auto simp: Let_def eventual_def store_writer_def)
qed

text \<open>what the store appends through the asynchronous writer is what a later load returns:
  after any writes to a wiped store and a flush, the loaded data are those writes replayed.\<close>

theorem buffered_store_roundtrip:
  assumes "list_all store_op_ok ops"
  shows "reload (foldl buffered_put (flushInstance fs_fine (reset_writer (new_writer False None))) ops)
    = Inr (fold data_op ops session_data0)"
  by (rule buffered_store.load_after_wipe[OF assms])

theorem buffered_store_roundtrip_witness:
  "reload (foldl buffered_put (flushInstance fs_fine (reset_writer (new_writer False None)))
      [PutSender 4, PutMessage 3 ''x''])
     = Inr \<lparr>sd_messages = [(3, ''x'')], sd_senderSeqNum = 4, sd_targetSeqNum = 1\<rparr>"
  using buffered_store_roundtrip[of "[PutSender 4, PutMessage 3 ''x'']"]
  by (simp add: is_int32_def max_string_size_def session_data0_def)

text \<open>a reset takes effect at the next flush pass, and that pass drops every text appended
  between the two: after reset, append, flush the file is empty and nothing is queued.\<close>

theorem reset_drops_later_appends:
  "let w' = flushInstance fs_fine (foldl write_text (reset_writer w) texts)
   in w_file w' = Some [] \<and> w_queue w' = [] \<and> w_buffer w' = [] \<and> \<not> w_dirty w'"
proof -
  have "w_shouldReset (foldl write_text v texts) = w_shouldReset v
      \<and> (w_dirty v \<longrightarrow> w_dirty (foldl write_text v texts))" for v
    by (induction texts arbitrary: v) (simp_all add: write_text_def)
  from this[of "reset_writer w"] show ?thesis
    by (simp add: Let_def flushInstance_def fs_fine_def reset_writer_def)
qed

end
