(* ===== verification/LinkedHash.thy ===== *)
theory LinkedHash
  imports Containers
begin

text \<open>
  \<^verbatim>\<open>lib/LinkedHashMap.h\<close>: a map that keeps insertion order, held in a vector of pairs and
  searched linearly. An iterator is a position in the vector and \<open>end()\<close> is its length. The
  section ends with the interface \<open>ordered_map\<close> that the field maps of messages rely on, and
  its interpretation on this container.
\<close>

section \<open>The container\<close>

type_synonym ('k, 'v) lhm = "('k \<times> 'v) list"

fun lhm_find :: "('k, 'v) lhm \<Rightarrow> 'k \<Rightarrow> nat" where
  "lhm_find [] k = 0"
| "lhm_find (x # xs) k = (if fst x = k then 0 else Suc (lhm_find xs k))"

definition lhm_has :: "('k, 'v) lhm \<Rightarrow> 'k \<Rightarrow> bool" where
  "lhm_has m k \<longleftrightarrow> lhm_find m k \<noteq> length m"

text \<open>\<open>it->second\<close> of a found iterator, with \<open>None\<close> for \<open>end()\<close>.\<close>

definition lhm_lookup :: "('k, 'v) lhm \<Rightarrow> 'k \<Rightarrow> 'v option" where
  "lhm_lookup m k =
     (let it = lhm_find m k in if it \<noteq> length m then Some (snd (m ! it)) else None)"

text \<open>\<open>operator[]\<close> returns a reference: the vector after a possible \<open>emplace_back\<close>, and a position.\<close>

definition lhm_index :: "('k, 'v) lhm \<Rightarrow> 'k \<Rightarrow> 'v \<Rightarrow> ('k, 'v) lhm \<times> nat" where
  "lhm_index m k dflt =
     (let it = lhm_find m k
      in if it \<noteq> length m then (m, it) else (m @ [(k, dflt)], length m))"

text \<open>The assignment \<open>m[k] = v\<close> through that reference.\<close>

definition lhm_assign :: "('k, 'v) lhm \<Rightarrow> 'k \<Rightarrow> 'v \<Rightarrow> ('k, 'v) lhm" where
  "lhm_assign m k v = (case lhm_index m k v of (m', it) \<Rightarrow> m'[it := (k, v)])"

definition lhm_insert :: "('k, 'v) lhm \<Rightarrow> 'k \<times> 'v \<Rightarrow> ('k, 'v) lhm \<times> nat \<times> bool" where
  "lhm_insert m x =
     (let it = lhm_find m (fst x)
      in if it \<noteq> length m then (m, it, False) else (m @ [x], length m, True))"

definition lhm_insert_at :: "('k, 'v) lhm \<Rightarrow> nat \<Rightarrow> 'k \<times> 'v \<Rightarrow> ('k, 'v) lhm \<times> nat" where
  "lhm_insert_at m pos x =
     (if lhm_find m (fst x) \<noteq> length m then (m, length m)
      else (take pos m @ x # drop pos m, pos))"

definition lhm_erase_at :: "('k, 'v) lhm \<Rightarrow> nat \<Rightarrow> ('k, 'v) lhm" where
  "lhm_erase_at m it = (if it \<noteq> length m then take it m @ drop (Suc it) m else m)"

definition lhm_erase :: "('k, 'v) lhm \<Rightarrow> 'k \<Rightarrow> ('k, 'v) lhm \<times> bool" where
  "lhm_erase m k =
     (let it = lhm_find m k in if it = length m then (m, False) else (lhm_erase_at m it, True))"

definition lhm_push_back_unchecked :: "('k, 'v) lhm \<Rightarrow> 'k \<times> 'v \<Rightarrow> ('k, 'v) lhm" where
  "lhm_push_back_unchecked m x = m @ [x]"

section \<open>Its meaning as a map with an order\<close>

abbreviation lhm_keys :: "('k, 'v) lhm \<Rightarrow> 'k list" where
  "lhm_keys m \<equiv> map fst m"

definition lhm_ok :: "('k, 'v) lhm \<Rightarrow> bool" where
  "lhm_ok m \<longleftrightarrow> distinct (lhm_keys m)"

lemma lhm_find_le: "lhm_find m k \<le> length m"
  by (induction m) auto

lemma lhm_find_end_iff: "lhm_find m k = length m \<longleftrightarrow> k \<notin> set (lhm_keys m)"
  using lhm_find_le by (induction m) (auto simp: le_Suc_eq)

lemma lhm_find_fst: "k \<in> set (lhm_keys m) \<Longrightarrow> fst (m ! lhm_find m k) = k"
  by (induction m) auto

lemma lhm_find_map_of: "k \<in> set (lhm_keys m) \<Longrightarrow> map_of m k = Some (snd (m ! lhm_find m k))"
  by (induction m) auto

lemma lhm_has_iff [simp]: "lhm_has m k \<longleftrightarrow> k \<in> set (lhm_keys m)"
  by (simp add: lhm_has_def lhm_find_end_iff)

lemma lhm_lookup_map_of: "lhm_lookup m k = map_of m k"
proof (cases "k \<in> set (lhm_keys m)")
  case True
  then show ?thesis by (simp add: lhm_lookup_def Let_def lhm_find_end_iff lhm_find_map_of)
next
  case False
  then have "map_of m k = None" by (simp add: map_of_eq_None_iff)
  with False show ?thesis by (simp add: lhm_lookup_def Let_def lhm_find_end_iff)
qed

text \<open>The list function the assignment computes: overwrite the first occurrence or append.\<close>

lemma lhm_assign_Nil [simp]: "lhm_assign [] k v = [(k, v)]"
  by (simp add: lhm_assign_def lhm_index_def Let_def)

lemma lhm_assign_Cons [simp]:
  "lhm_assign (x # xs) k v = (if fst x = k then (k, v) # xs else x # lhm_assign xs k v)"
  by (auto simp: lhm_assign_def lhm_index_def Let_def)

lemma lhm_assign_new: "k \<notin> set (lhm_keys m) \<Longrightarrow> lhm_assign m k v = m @ [(k, v)]"
  by (induction m) auto

lemma lhm_assign_keys:
  "lhm_keys (lhm_assign m k v) =
     (if k \<in> set (lhm_keys m) then lhm_keys m else lhm_keys m @ [k])"
  by (induction m) auto

lemma lhm_assign_map_of: "map_of (lhm_assign m k v) = (map_of m)(k \<mapsto> v)"
  by (induction m) (auto simp: fun_eq_iff)

lemma lhm_insert_fst:
  "fst (lhm_insert m (k, v)) = (if k \<in> set (lhm_keys m) then m else m @ [(k, v)])"
  "snd (snd (lhm_insert m (k, v))) \<longleftrightarrow> k \<notin> set (lhm_keys m)"
  by (simp_all add: lhm_insert_def Let_def lhm_find_end_iff)

lemma lhm_erase_Cons:
  "fst (lhm_erase (x # xs) k) = (if fst x = k then xs else x # fst (lhm_erase xs k))"
  by (auto simp: lhm_erase_def lhm_erase_at_def Let_def)

lemma lhm_erase_Nil [simp]: "lhm_erase [] k = ([], False)"
  by (simp add: lhm_erase_def)

lemma lhm_erase_ok_filter: "lhm_ok m \<Longrightarrow> fst (lhm_erase m k) = filter (\<lambda>x. fst x \<noteq> k) m"
proof (induction m)
  case (Cons x xs)
  show ?case
  proof (cases "fst x = k")
    case True
    with Cons.prems have "k \<notin> fst ` set xs" by (simp add: lhm_ok_def)
    then have "\<forall>y\<in>set xs. fst y \<noteq> k" by blast
    with True show ?thesis by (simp add: lhm_erase_Cons)
  next
    case False
    with Cons show ?thesis by (simp add: lhm_erase_Cons lhm_ok_def)
  qed
qed simp

lemma lhm_insert_at_keys:
  "k \<notin> set (lhm_keys m) \<Longrightarrow>
   fst (lhm_insert_at m pos (k, v)) = take pos m @ (k, v) # drop pos m"
  by (simp add: lhm_insert_at_def lhm_find_end_iff)

lemma lhm_ok_Nil [simp]: "lhm_ok []"
  by (simp add: lhm_ok_def)

lemma lhm_ok_assign [simp]: "lhm_ok m \<Longrightarrow> lhm_ok (lhm_assign m k v)"
  by (auto simp: lhm_ok_def lhm_assign_keys)

lemma lhm_ok_erase [simp]: "lhm_ok m \<Longrightarrow> lhm_ok (fst (lhm_erase m k))"
  using distinct_fst_filter[of m "\<lambda>x. fst x \<noteq> k"]
  by (simp add: lhm_erase_ok_filter) (simp add: lhm_ok_def)

lemma lhm_ok_insert [simp]: "lhm_ok m \<Longrightarrow> lhm_ok (fst (lhm_insert m x))"
  by (cases x) (auto simp: lhm_insert_fst lhm_ok_def)

lemma lhm_ok_insert_at [simp]: "lhm_ok m \<Longrightarrow> lhm_ok (fst (lhm_insert_at m pos x))"
proof (cases "fst x \<in> set (lhm_keys m)")
  case True
  then show "lhm_ok m \<Longrightarrow> ?thesis"
    by (simp add: lhm_insert_at_def lhm_find_end_iff)
next
  case False
  assume ok: "lhm_ok m"
  have "distinct (lhm_keys (take pos m) @ lhm_keys (drop pos m))"
    using ok by (simp add: lhm_ok_def flip: map_append)
  moreover have "set (lhm_keys (take pos m)) \<union> set (lhm_keys (drop pos m)) = set (lhm_keys m)"
    by (metis append_take_drop_id map_append set_append)
  ultimately show ?thesis
    using False by (cases x) (auto simp: lhm_insert_at_keys lhm_ok_def)
qed

section \<open>The interface: an insertion-ordered map\<close>

text \<open>
  What the field maps need of their container: assignment changes one key, keeps the position
  of a present key and appends a new one; erasing removes one key and keeps the others' order.
\<close>

locale ordered_map = key_value empty lookup assign erase ok
  for empty :: "'m"
    and lookup :: "'m \<Rightarrow> 'k \<Rightarrow> 'v option"
    and assign :: "'m \<Rightarrow> 'k \<Rightarrow> 'v \<Rightarrow> 'm"
    and erase :: "'m \<Rightarrow> 'k \<Rightarrow> 'm"
    and ok :: "'m \<Rightarrow> bool" +
  fixes keys :: "'m \<Rightarrow> 'k list"
  assumes keys_empty: "keys empty = []"
    and ok_distinct: "ok m \<Longrightarrow> distinct (keys m)"
    and lookup_None: "ok m \<Longrightarrow> lookup m k = None \<longleftrightarrow> k \<notin> set (keys m)"
    and keys_assign: "ok m \<Longrightarrow>
          keys (assign m k v) = (if k \<in> set (keys m) then keys m else keys m @ [k])"
    and keys_erase: "ok m \<Longrightarrow> keys (erase m k) = removeAll k (keys m)"
begin

lemma keys_assign_all_fresh:
  "ok m \<Longrightarrow> distinct (map fst xs) \<Longrightarrow> set (map fst xs) \<inter> set (keys m) = {} \<Longrightarrow>
   keys (assign_all m xs) = keys m @ map fst xs"
proof (induction xs arbitrary: m)
  case (Cons x xs)
  obtain k v where x: "x = (k, v)" by force
  with Cons.prems have "keys (assign m k v) = keys m @ [k]"
    by (auto simp: keys_assign)
  moreover from this Cons.prems x have "set (map fst xs) \<inter> set (keys (assign m k v)) = {}"
    by auto
  ultimately show ?case
    using Cons x by (simp add: ok_assign)
qed simp

lemma lookup_Some_keys: "ok m \<Longrightarrow> lookup m k = Some v \<Longrightarrow> k \<in> set (keys m)"
  using lookup_None[of m k] by simp

end

lemma lhm_ok_distinct: "lhm_ok m \<Longrightarrow> distinct (lhm_keys m)"
  by (simp add: lhm_ok_def)

lemma lhm_erase_map_of:
  "lhm_ok m \<Longrightarrow> map_of (fst (lhm_erase m k)) j = (if j = k then None else map_of m j)"
  by (cases "j = k")
    (auto simp: lhm_erase_ok_filter map_of_eq_None_iff map_of_filter_fst)

interpretation lhm: ordered_map "[]" lhm_lookup lhm_assign "\<lambda>m k. fst (lhm_erase m k)" lhm_ok lhm_keys
proof (unfold_locales, goal_cases)
  case (11 m k)
  then show ?case
    by (induction m) (auto simp: lhm_erase_Cons lhm_ok_def removeAll_id)
qed (auto simp: lhm_assign_keys lhm_lookup_map_of lhm_assign_map_of lhm_erase_map_of
    map_of_eq_None_iff intro: lhm_ok_distinct)

section \<open>Properties\<close>

text \<open>Assigning a list of distinct new keys to the container appends them in that order and
  makes each findable with its value, while every other key keeps its value.\<close>

theorem lhm_assign_sequence:
  assumes "lhm_ok m" "distinct (map fst xs)" "set (map fst xs) \<inter> set (lhm_keys m) = {}"
  shows "lhm_keys (foldl (\<lambda>m (k, v). lhm_assign m k v) m xs) = lhm_keys m @ map fst xs
    \<and> lhm_lookup (foldl (\<lambda>m (k, v). lhm_assign m k v) m xs) k
        = (case map_of xs k of Some v \<Rightarrow> Some v | None \<Rightarrow> lhm_lookup m k)"
  using lhm.keys_assign_all_fresh[OF assms] lhm.lookup_assign_all[OF assms(1,2)]
  by (simp add: lhm.assign_all_def)

theorem lhm_assign_sequence_witness:
  "lhm_keys (foldl (\<lambda>m (k, v). lhm_assign m k v) [(8::int, ''A'')] [(9, ''B''), (35, ''C'')])
     = [8, 9, 35]
   \<and> lhm_lookup (foldl (\<lambda>m (k, v). lhm_assign m k v) [(8::int, ''A'')] [(9, ''B''), (35, ''C'')]) 35
     = Some ''C''"
  using lhm_assign_sequence[of "[(8::int, ''A'')]" "[(9, ''B''), (35, ''C'')]" 35]
  by (simp add: lhm_ok_def)

end
