(* ===== verification/Checksum.thy ===== *)
theory Checksum
  imports Prelude
begin

unbundle bit_operations_syntax

text \<open>
  \<^verbatim>\<open>src/Checksum.h\<close>: the FIX checksum (the sum of the bytes, modulo 256), in its three
  compiled variants (AVX2, SSE2, plain), and the three-digit text \<open>formatChecksum\<close> writes.
  A 256-bit register is four 64-bit lanes, a 128-bit register two.
\<close>

section \<open>The instructions used\<close>

text \<open>\<open>_mm_sad_epu8(v, 0)\<close> per 64-bit lane: the sum of its eight bytes.\<close>

definition sad_lane :: "string \<Rightarrow> 64 word" where
  "sad_lane bs = sum_list (map (\<lambda>c. (of_char c :: 64 word)) (take 8 bs))"

type_synonym vec128 = "64 word \<times> 64 word"
type_synonym vec256 = "64 word \<times> 64 word \<times> 64 word \<times> 64 word"

definition sad128 :: "string \<Rightarrow> vec128" where
  "sad128 bs = (sad_lane bs, sad_lane (drop 8 bs))"

definition sad256 :: "string \<Rightarrow> vec256" where
  "sad256 bs = (sad_lane bs, sad_lane (drop 8 bs), sad_lane (drop 16 bs), sad_lane (drop 24 bs))"

fun add128 :: "vec128 \<Rightarrow> vec128 \<Rightarrow> vec128" where
  "add128 (a0, a1) (b0, b1) = (a0 + b0, a1 + b1)"

fun add256 :: "vec256 \<Rightarrow> vec256 \<Rightarrow> vec256" where
  "add256 (a0, a1, a2, a3) (b0, b1, b2, b3) = (a0 + b0, a1 + b1, a2 + b2, a3 + b3)"

text \<open>\<open>_mm_extract_epi16(v, 0)\<close> and \<open>(v, 4)\<close>: the low 16 bits of lane 0 and of lane 1.\<close>

definition extract16 :: "64 word \<Rightarrow> 32 word" where
  "extract16 x = ucast (ucast x :: 16 word)"

section \<open>The three variants\<close>

fun tail_loop :: "32 word \<Rightarrow> string \<Rightarrow> 32 word" where
  "tail_loop acc [] = acc"
| "tail_loop acc (c # cs) = tail_loop (acc + of_char c) cs"

definition low_byte :: "32 word \<Rightarrow> 8 word" where
  "low_byte acc = ucast (acc AND 255)"

definition checksum_plain :: "string \<Rightarrow> 8 word" where
  "checksum_plain data = low_byte (tail_loop 0 data)"

function sse2_loop :: "vec128 \<Rightarrow> string \<Rightarrow> vec128 \<times> string" where
  "sse2_loop v data =
     (if 16 \<le> length data then sse2_loop (add128 v (sad128 data)) (drop 16 data) else (v, data))"
  by pat_completeness auto
termination by (relation "measure (\<lambda>(v, data). length data)") auto

definition checksum_sse2 :: "string \<Rightarrow> 8 word" where
  "checksum_sse2 data =
     (case sse2_loop (0, 0) data of ((l0, l1), rest) \<Rightarrow>
        low_byte (tail_loop (extract16 l0 + extract16 l1) rest))"

function avx2_loop :: "vec256 \<Rightarrow> string \<Rightarrow> vec256 \<times> string" where
  "avx2_loop v data =
     (if 32 \<le> length data then avx2_loop (add256 v (sad256 data)) (drop 32 data) else (v, data))"
  by pat_completeness auto
termination by (relation "measure (\<lambda>(v, data). length data)") auto

declare sse2_loop.simps [simp del] avx2_loop.simps [simp del]

definition checksum_avx2 :: "string \<Rightarrow> 8 word" where
  "checksum_avx2 data =
     (case avx2_loop (0, 0, 0, 0) data of ((l0, l1, l2, l3), rest) \<Rightarrow>
        let combined = add128 (l0, l1) (l2, l3);
            acc = extract16 (fst combined) + extract16 (snd combined)
        in if 16 \<le> length rest
           then let s = sad128 rest
                in low_byte (tail_loop (acc + (extract16 (fst s) + extract16 (snd s))) (drop 16 rest))
           else low_byte (tail_loop acc rest))"

text \<open>The library is built with \<^verbatim>\<open>-mavx2\<close> (\<^verbatim>\<open>src/BUILD\<close>), so the AVX2 variant is the one in use.\<close>

definition computeChecksum :: "string \<Rightarrow> 8 word" where
  "computeChecksum = checksum_avx2"

definition formatChecksum :: "8 word \<Rightarrow> string" where
  "formatChecksum checksum =
     (let n = unat checksum in
      [digit_char (n div 100), digit_char (n div 10 mod 10), digit_char (n mod 10)])"

section \<open>Reference: the sum of the bytes\<close>

definition byte_sum :: "string \<Rightarrow> 8 word" where
  "byte_sum s = sum_list (map byte_of s)"

lemma byte_sum_simps [simp]:
  "byte_sum [] = 0" "byte_sum (c # s) = byte_of c + byte_sum s"
  "byte_sum (s @ t) = byte_sum s + byte_sum t"
  by (simp_all add: byte_sum_def)


lemma low_add:
  "(ucast (a + b :: 64 word) :: 8 word) = ucast a + ucast b"
  "(ucast (x + y :: 32 word) :: 8 word) = ucast x + ucast y"
  by (rule word_unat_eq_iff[THEN iffD2],
      simp add: unsigned_ucast_eq unat_word_ariths take_bit_eq_mod mod_mod_cancel mod_simps)+

lemma ucast_of_nat_low:
  "(ucast (of_nat n :: 64 word) :: 8 word) = of_nat n"
  "(ucast (of_nat n :: 32 word) :: 8 word) = of_nat n"
  by (rule word_unat_eq_iff[THEN iffD2],
      simp add: unsigned_ucast_eq unat_of_nat take_bit_eq_mod mod_mod_cancel)+

lemma low_char:
  "(ucast (of_char c :: 64 word) :: 8 word) = of_char c"
  "(ucast (of_char c :: 32 word) :: 8 word) = of_char c"
  using ucast_of_nat_low[of "of_char c"] by (simp_all add: of_nat_of_char)

lemma low_extract: "(ucast (extract16 x) :: 8 word) = ucast x"
  by (rule bit_word_eqI) (simp add: extract16_def bit_simps)

lemma low_byte_ucast: "low_byte x = ucast x"
proof -
  have "low_byte x = ucast (take_bit 8 x)"
    by (simp add: low_byte_def take_bit_eq_mask mask_eq_exp_minus_1)
  also have "\<dots> = ucast x" by (rule bit_word_eqI) (simp add: bit_simps)
  finally show ?thesis .
qed

lemma low_tail_loop: "(ucast (tail_loop acc s) :: 8 word) = ucast acc + byte_sum s"
  by (induction s arbitrary: acc) (simp_all add: low_add low_char)

theorem checksum_plain_sum: "checksum_plain s = byte_sum s"
  by (simp add: checksum_plain_def low_byte_ucast low_tail_loop)

lemma low_sad_lane: "(ucast (sad_lane s) :: 8 word) = byte_sum (take 8 s)"
proof -
  have "(ucast (sum_list (map (\<lambda>c. of_char c :: 64 word) xs)) :: 8 word) = byte_sum xs" for xs
    by (induction xs) (simp_all add: low_add low_char)
  then show ?thesis by (simp add: sad_lane_def)
qed

lemma byte_sum_chunks:
  "byte_sum (take 8 s) + byte_sum (take 8 (drop 8 s)) + byte_sum (drop 16 s) = byte_sum s"
proof -
  have "byte_sum s = byte_sum (take 8 s @ take 8 (drop 8 s) @ drop 16 s)"
    by (metis append_take_drop_id drop_drop numeral_Bit0)
  then show ?thesis by simp
qed

lemma byte_sum_chunks32:
  "byte_sum s = byte_sum (take 8 s) + byte_sum (take 8 (drop 8 s)) + byte_sum (take 8 (drop 16 s))
     + byte_sum (take 8 (drop 24 s)) + byte_sum (drop 32 s)"
proof -
  have "byte_sum (drop 16 s) = byte_sum (take 8 (drop 16 s)) + byte_sum (take 8 (drop 24 s))
      + byte_sum (drop 32 s)"
    using byte_sum_chunks[of "drop 16 s"] by simp
  then show ?thesis using byte_sum_chunks[of s] by (simp add: add.assoc)
qed

lemma sse2_loop_sum:
  "sse2_loop (a, b) s = ((l0, l1), r) \<Longrightarrow>
   (ucast l0 :: 8 word) + ucast l1 + byte_sum r = ucast a + ucast b + byte_sum s"
proof (induction "(a, b)" s arbitrary: a b rule: sse2_loop.induct)
  case (1 s)
  show ?case
  proof (cases "16 \<le> length s")
    case True
    then have "sse2_loop (a + sad_lane s, b + sad_lane (drop 8 s)) (drop 16 s) = ((l0, l1), r)"
      using "1.prems" by (simp add: sse2_loop.simps[of "(a, b)" s] sad128_def)
    from "1.hyps"[OF True _ this] show ?thesis
      using byte_sum_chunks[of s] by (simp add: sad128_def low_add low_sad_lane algebra_simps)
  next
    case False
    then show ?thesis using "1.prems" by (simp add: sse2_loop.simps[of "(a, b)" s])
  qed
qed

lemma avx2_loop_sum:
  "avx2_loop (a, b, c, d) s = ((l0, l1, l2, l3), r) \<Longrightarrow>
   (ucast l0 :: 8 word) + ucast l1 + ucast l2 + ucast l3 + byte_sum r
     = ucast a + ucast b + ucast c + ucast d + byte_sum s"
proof (induction "(a, b, c, d)" s arbitrary: a b c d rule: avx2_loop.induct)
  case (1 s)
  show ?case
  proof (cases "32 \<le> length s")
    case True
    then have "avx2_loop (a + sad_lane s, b + sad_lane (drop 8 s), c + sad_lane (drop 16 s),
        d + sad_lane (drop 24 s)) (drop 32 s) = ((l0, l1, l2, l3), r)"
      using "1.prems" by (simp add: avx2_loop.simps[of "(a, b, c, d)" s] sad256_def)
    from "1.hyps"[OF True _ this] show ?thesis
      by (subst byte_sum_chunks32[of s]) (simp add: sad256_def low_add low_sad_lane algebra_simps)
  next
    case False
    then show ?thesis using "1.prems" by (simp add: avx2_loop.simps[of "(a, b, c, d)" s])
  qed
qed

lemma checksum_sse2_sum: "checksum_sse2 s = byte_sum s"
proof -
  obtain l0 l1 r where "sse2_loop (0, 0) s = ((l0, l1), r)" by (metis prod.collapse)
  from this sse2_loop_sum[OF this] show ?thesis
    by (simp add: checksum_sse2_def low_byte_ucast low_tail_loop low_add low_extract)
qed

lemma checksum_avx2_sum: "checksum_avx2 s = byte_sum s"
proof -
  obtain l0 l1 l2 l3 r where l: "avx2_loop (0, 0, 0, 0) s = ((l0, l1, l2, l3), r)"
    by (metis prod.collapse)
  from avx2_loop_sum[OF l] have "ucast l0 + ucast l1 + ucast l2 + ucast l3 + byte_sum r = byte_sum s"
    by simp
  with l byte_sum_chunks[of r] show ?thesis
    by (simp add: checksum_avx2_def Let_def low_byte_ucast low_tail_loop low_add low_extract
        sad128_def low_sad_lane algebra_simps)
qed

lemma computeChecksum_sum: "computeChecksum s = byte_sum s"
  by (simp add: computeChecksum_def checksum_avx2_sum)

lemma unat_byte_sum: "unat (byte_sum s) = sum_list (map of_char s) mod 256"
proof (induction s)
  case (Cons c s)
  have "unat (byte_of c) = of_char c mod 256"
    using unat_of_nat[where 'a = 8, of "of_char c"] by (simp add: of_nat_of_char take_bit_eq_mod)
  with Cons show ?case by (simp add: unat_word_ariths mod_simps)
qed simp

section \<open>Properties\<close>

text \<open>C31: the AVX2, SSE2 and plain variants of \<open>computeChecksum\<close> return the same byte for every
  input, and it is the sum of the input's bytes modulo 256.\<close>

theorem checksum_variants_agree:
  "checksum_avx2 s = checksum_plain s \<and> checksum_sse2 s = checksum_plain s
   \<and> unat (checksum_plain s) = sum_list (map of_char s) mod 256"
  by (simp add: checksum_avx2_sum checksum_sse2_sum checksum_plain_sum unat_byte_sum)

lemma formatChecksum_length [simp]: "length (formatChecksum c) = 3"
  by (simp add: formatChecksum_def Let_def)

lemma unat_byte_lt: "unat (c :: 8 word) < 256"
  using unsigned_less[of c, where 'a = nat] by simp

lemma formatChecksum_digits: "list_all is_digit (formatChecksum c)"
  using unat_byte_lt[of c] by (simp add: formatChecksum_def Let_def)

lemma formatChecksum_no_sep [simp]: "SOH \<notin> set (formatChecksum c)" "EQCH \<notin> set (formatChecksum c)"
  using formatChecksum_digits[of c] by (auto simp: list_all_iff)

lemma digits_val_formatChecksum [simp]: "digits_val (formatChecksum c) = unat c"
proof -
  define n where "n = unat c"
  have lt: "n div 100 < 10" "n div 10 mod 10 < 10" "n mod 10 < 10"
    using unat_byte_lt[of c] by (auto simp: n_def)
  have "10 * (10 * (n div 100) + n div 10 mod 10) + n mod 10 = n"
  proof -
    have "n div 100 = n div 10 div 10" by (simp flip: div_mult2_eq)
    then show ?thesis by (simp only: mult_div_mod_eq)
  qed
  moreover have "digits_val (formatChecksum c) = 10 * (10 * (n div 100) + n div 10 mod 10) + n mod 10"
    using lt unfolding formatChecksum_def digits_val_def Let_def n_def[symmetric]
    by (simp only: foldl.simps digit_char_digit(2) mult_0_right add_0)
  ultimately show ?thesis by (simp add: n_def)
qed

text \<open>\<open>formatChecksum\<close> writes exactly three decimal digits, and they read back as the
  checksum, so distinct checksums have distinct texts.\<close>

theorem formatChecksum_roundtrip:
  "length (formatChecksum c) = 3 \<and> list_all is_digit (formatChecksum c)
   \<and> digits_val (formatChecksum c) = unat c"
  by (simp add: formatChecksum_digits)

end
