(* ===== verification/FixMessage.thy ===== *)
theory FixMessage
  imports LinkedHash Checksum Utils
begin

text \<open>
  \<^verbatim>\<open>src/Message.h\<close>, \<^verbatim>\<open>src/Message.cpp\<close>, \<^verbatim>\<open>src/Fields.h\<close>, \<^verbatim>\<open>src/Exception.h\<close>: group
  specifications, field maps, messages and their serialization.

  A field map's values are \<open>string_view\<close>s, and setting a field stores the text in
  \<open>m_ownedStorage\<close> and keeps a view of it. The code's result depends on that aliasing, so the
  model keeps it: a view is either external text (the parsed message, a session constant) or a
  slot of the owned storage with the length it had when the view was taken; a slot is a string
  buffer with its capacity, which a later assignment overwrites in place. Where C++ would leave a
  view dangling the operation fails with \<open>DanglingView\<close>.
\<close>

section \<open>Constants and exceptions\<close>

text \<open>The tags of \<^verbatim>\<open>namespace FIELD\<close>.\<close>

abbreviation FIELD_BeginSeqNo :: int where "FIELD_BeginSeqNo \<equiv> 7"
abbreviation FIELD_BeginString :: int where "FIELD_BeginString \<equiv> 8"
abbreviation FIELD_BodyLength :: int where "FIELD_BodyLength \<equiv> 9"
abbreviation FIELD_CheckSum :: int where "FIELD_CheckSum \<equiv> 10"
abbreviation FIELD_EndSeqNo :: int where "FIELD_EndSeqNo \<equiv> 16"
abbreviation FIELD_MsgSeqNum :: int where "FIELD_MsgSeqNum \<equiv> 34"
abbreviation FIELD_MsgType :: int where "FIELD_MsgType \<equiv> 35"
abbreviation FIELD_NewSeqNo :: int where "FIELD_NewSeqNo \<equiv> 36"
abbreviation FIELD_PossDupFlag :: int where "FIELD_PossDupFlag \<equiv> 43"
abbreviation FIELD_RefSeqNum :: int where "FIELD_RefSeqNum \<equiv> 45"
abbreviation FIELD_SenderCompID :: int where "FIELD_SenderCompID \<equiv> 49"
abbreviation FIELD_SendingTime :: int where "FIELD_SendingTime \<equiv> 52"
abbreviation FIELD_TargetCompID :: int where "FIELD_TargetCompID \<equiv> 56"
abbreviation FIELD_Text :: int where "FIELD_Text \<equiv> 58"
abbreviation FIELD_EncryptMethod :: int where "FIELD_EncryptMethod \<equiv> 98"
abbreviation FIELD_HeartBtInt :: int where "FIELD_HeartBtInt \<equiv> 108"
abbreviation FIELD_TestReqID :: int where "FIELD_TestReqID \<equiv> 112"
abbreviation FIELD_OrigSendingTime :: int where "FIELD_OrigSendingTime \<equiv> 122"
abbreviation FIELD_GapFillFlag :: int where "FIELD_GapFillFlag \<equiv> 123"
abbreviation FIELD_ResetSeqNumFlag :: int where "FIELD_ResetSeqNumFlag \<equiv> 141"
abbreviation FIELD_SessionRejectReason :: int where "FIELD_SessionRejectReason \<equiv> 373"
abbreviation FIELD_TestMessageIndicator :: int where "FIELD_TestMessageIndicator \<equiv> 464"
abbreviation FIELD_NextExpectedMsgSeqNum :: int where "FIELD_NextExpectedMsgSeqNum \<equiv> 789"

text \<open>The exceptions of the code, and the undefined behaviours it can reach: a null
  dereference, a view of freed storage, a write past a fixed array, a read past a buffer.\<close>

datatype exn =
    FieldNotFound int
  | MessageParsingError string
  | DictionaryParsingError string
  | MisconfiguredSessionError string
  | StdOutOfRange
  | NullDereference
  | DanglingView
  | ArrayOverflow
  | BufferOverread

datatype field_type =
    FT_UNKNOWN
  | FT_INT | FT_LENGTH | FT_NUMINGROUP | FT_SEQNUM | FT_TAGNUM | FT_DAYOFMONTH
  | FT_FLOAT | FT_QTY | FT_PRICE | FT_PRICEOFFSET | FT_AMT | FT_PERCENTAGE
  | FT_CHAR | FT_BOOLEAN
  | FT_STRING | FT_MULTIPLEVALUESTRING | FT_COUNTRY | FT_CURRENCY | FT_EXCHANGE | FT_MONTHYEAR
  | FT_UTCTIMESTAMP | FT_UTCTIMEONLY | FT_UTCDATEONLY | FT_LOCALMKTDATE
  | FT_DATA

definition FieldTypes_LOOKUP :: "(string, field_type) hmap" where
  "FieldTypes_LOOKUP =
     [(''UNKNOWN'', FT_UNKNOWN), (''INT'', FT_INT), (''LENGTH'', FT_LENGTH), (''NUMINGROUP'', FT_NUMINGROUP),
      (''SEQNUM'', FT_SEQNUM), (''TAGNUM'', FT_TAGNUM), (''DAYOFMONTH'', FT_DAYOFMONTH), (''FLOAT'', FT_FLOAT),
      (''QTY'', FT_QTY), (''PRICE'', FT_PRICE), (''PRICEOFFSET'', FT_PRICEOFFSET), (''AMT'', FT_AMT),
      (''PERCENTAGE'', FT_PERCENTAGE), (''CHAR'', FT_CHAR), (''BOOLEAN'', FT_BOOLEAN), (''STRING'', FT_STRING),
      (''MULTIPLEVALUESTRING'', FT_MULTIPLEVALUESTRING), (''COUNTRY'', FT_COUNTRY), (''CURRENCY'', FT_CURRENCY),
      (''EXCHANGE'', FT_EXCHANGE), (''MONTHYEAR'', FT_MONTHYEAR), (''UTCTIMESTAMP'', FT_UTCTIMESTAMP),
      (''UTCTIMEONLY'', FT_UTCTIMEONLY), (''UTCDATEONLY'', FT_UTCDATEONLY), (''LOCALMKTDATE'', FT_LOCALMKTDATE),
      (''DATA'', FT_DATA)]"

section \<open>Group specifications\<close>

text \<open>\<open>std::array<bool, 1024>\<close> is a function read below 1024 only.\<close>

definition FAST_LOOKUP_SIZE :: int where "FAST_LOOKUP_SIZE = 1024"

datatype group_spec =
  GroupSpec
    (gs_fields: "(int \<times> bool) list")
    (gs_groups: "(int \<times> group_spec) list")
    (gs_ordered: bool)
    (gs_fieldOrder: "int list")
    (gs_fieldLookup: "nat \<Rightarrow> bool")
    (gs_groupLookup: "nat \<Rightarrow> bool")

definition spec_empty :: "group_spec \<Rightarrow> bool" where
  "spec_empty s \<longleftrightarrow> gs_fields s = [] \<and> gs_groups s = []"

definition hasField :: "group_spec \<Rightarrow> int \<Rightarrow> bool" where
  "hasField s tag =
     (if 0 \<le> tag \<and> tag < FAST_LOOKUP_SIZE then gs_fieldLookup s (nat tag)
      else tag \<in> set (map fst (gs_fields s)))"

definition findGroup :: "group_spec \<Rightarrow> int \<Rightarrow> group_spec option" where
  "findGroup s tag =
     (if 0 \<le> tag \<and> tag < FAST_LOOKUP_SIZE \<and> \<not> gs_groupLookup s (nat tag) then None
      else map_of (gs_groups s) tag)"

fun set_flags :: "int list \<Rightarrow> (nat \<Rightarrow> bool) \<Rightarrow> nat \<Rightarrow> bool" where
  "set_flags [] a = a"
| "set_flags (tag # tags) a =
     set_flags tags (if 0 \<le> tag \<and> tag < FAST_LOOKUP_SIZE then a(nat tag := True) else a)"

definition buildLookup :: "group_spec \<Rightarrow> group_spec" where
  "buildLookup s =
     GroupSpec (gs_fields s) (gs_groups s) (gs_ordered s) (gs_fieldOrder s)
       (set_flags (map fst (gs_fields s)) (\<lambda>_. False))
       (set_flags (map fst (gs_groups s)) (\<lambda>_. False))"

text \<open>A specification with built lookup arrays, as \<open>DictionaryRegistry::load\<close> makes them.\<close>

definition mk_spec :: "(int \<times> bool) list \<Rightarrow> (int \<times> group_spec) list \<Rightarrow> bool \<Rightarrow> int list \<Rightarrow> group_spec" where
  "mk_spec fs gs ord order = buildLookup (GroupSpec fs gs ord order (\<lambda>_. False) (\<lambda>_. False))"

definition spec_built :: "group_spec \<Rightarrow> bool" where
  "spec_built s \<longleftrightarrow> buildLookup s = s"

lemma set_flags_iff:
  "set_flags tags a n \<longleftrightarrow> a n \<or> (\<exists>tag\<in>set tags. 0 \<le> tag \<and> tag < FAST_LOOKUP_SIZE \<and> nat tag = n)"
  by (induction tags arbitrary: a) auto

lemma buildLookup_sel [simp]:
  "gs_fields (buildLookup s) = gs_fields s" "gs_groups (buildLookup s) = gs_groups s"
  "gs_ordered (buildLookup s) = gs_ordered s" "gs_fieldOrder (buildLookup s) = gs_fieldOrder s"
  by (simp_all add: buildLookup_def)

lemma mk_spec_sel [simp]:
  "gs_fields (mk_spec fs gs ord order) = fs" "gs_groups (mk_spec fs gs ord order) = gs"
  "gs_ordered (mk_spec fs gs ord order) = ord" "gs_fieldOrder (mk_spec fs gs ord order) = order"
  by (simp_all add: mk_spec_def)

lemma spec_built_mk [simp]: "spec_built (mk_spec fs gs ord order)"
  by (simp add: spec_built_def mk_spec_def buildLookup_def)

lemma hasField_built: "spec_built s \<Longrightarrow> hasField s tag \<longleftrightarrow> tag \<in> set (map fst (gs_fields s))"
proof -
  assume "spec_built s"
  then have "gs_fieldLookup s = set_flags (map fst (gs_fields s)) (\<lambda>_. False)"
    unfolding spec_built_def by (metis buildLookup_def group_spec.sel(5))
  then show ?thesis by (auto simp: hasField_def set_flags_iff) (metis fst_conv image_eqI nat_eq_iff2)+
qed

lemma findGroup_built: "spec_built s \<Longrightarrow> findGroup s tag = map_of (gs_groups s) tag"
proof -
  assume "spec_built s"
  then have l: "gs_groupLookup s = set_flags (map fst (gs_groups s)) (\<lambda>_. False)"
    unfolding spec_built_def by (metis buildLookup_def group_spec.sel(6))
  show ?thesis
  proof (cases "tag \<in> set (map fst (gs_groups s))")
    case True
    then show ?thesis by (auto simp: findGroup_def l set_flags_iff)
  next
    case False
    then have "map_of (gs_groups s) tag = None" by (simp add: map_of_eq_None_iff)
    then show ?thesis by (simp add: findGroup_def)
  qed
qed

section \<open>Field maps\<close>

datatype fview = Ext string | Own nat nat

type_synonym slot = "int \<times> nat \<times> string"

datatype field_map =
  FieldMap
    (fm_fields: "(int \<times> fview) list")
    (fm_owned: "slot list")
    (fm_ownedCap: nat)
    (fm_groups: "(int \<times> field_map list) list")
    (fm_spec: "group_spec option")
    (fm_seen: "64 word list")

definition empty_fm :: field_map where
  "empty_fm = FieldMap [] [] 0 [] None (replicate 16 0)"

definition with_fields :: "(int \<times> fview) list \<Rightarrow> field_map \<Rightarrow> field_map" where
  "with_fields fs m = FieldMap fs (fm_owned m) (fm_ownedCap m) (fm_groups m) (fm_spec m) (fm_seen m)"

definition with_owned :: "slot list \<Rightarrow> nat \<Rightarrow> field_map \<Rightarrow> field_map" where
  "with_owned ow cap m = FieldMap (fm_fields m) ow cap (fm_groups m) (fm_spec m) (fm_seen m)"

definition with_groups :: "(int \<times> field_map list) list \<Rightarrow> field_map \<Rightarrow> field_map" where
  "with_groups gs m = FieldMap (fm_fields m) (fm_owned m) (fm_ownedCap m) gs (fm_spec m) (fm_seen m)"

definition setSpec :: "group_spec option \<Rightarrow> field_map \<Rightarrow> field_map" where
  "setSpec s m = FieldMap (fm_fields m) (fm_owned m) (fm_ownedCap m) (fm_groups m) s (fm_seen m)"

definition with_seen :: "64 word list \<Rightarrow> field_map \<Rightarrow> field_map" where
  "with_seen sn m = FieldMap (fm_fields m) (fm_owned m) (fm_ownedCap m) (fm_groups m) (fm_spec m) sn"

lemma fm_with_sel [simp]:
  "fm_fields (with_fields fs m) = fs" "fm_owned (with_fields fs m) = fm_owned m"
  "fm_ownedCap (with_fields fs m) = fm_ownedCap m" "fm_groups (with_fields fs m) = fm_groups m"
  "fm_spec (with_fields fs m) = fm_spec m" "fm_seen (with_fields fs m) = fm_seen m"
  "fm_fields (with_owned ow c m) = fm_fields m" "fm_owned (with_owned ow c m) = ow"
  "fm_ownedCap (with_owned ow c m) = c" "fm_groups (with_owned ow c m) = fm_groups m"
  "fm_spec (with_owned ow c m) = fm_spec m" "fm_seen (with_owned ow c m) = fm_seen m"
  "fm_fields (with_groups gs m) = fm_fields m" "fm_owned (with_groups gs m) = fm_owned m"
  "fm_ownedCap (with_groups gs m) = fm_ownedCap m" "fm_groups (with_groups gs m) = gs"
  "fm_spec (with_groups gs m) = fm_spec m" "fm_seen (with_groups gs m) = fm_seen m"
  "fm_fields (setSpec sp m) = fm_fields m" "fm_owned (setSpec sp m) = fm_owned m"
  "fm_ownedCap (setSpec sp m) = fm_ownedCap m" "fm_groups (setSpec sp m) = fm_groups m"
  "fm_spec (setSpec sp m) = sp" "fm_seen (setSpec sp m) = fm_seen m"
  "fm_fields (with_seen sn m) = fm_fields m" "fm_owned (with_seen sn m) = fm_owned m"
  "fm_ownedCap (with_seen sn m) = fm_ownedCap m" "fm_groups (with_seen sn m) = fm_groups m"
  "fm_spec (with_seen sn m) = fm_spec m" "fm_seen (with_seen sn m) = sn"
  by (simp_all add: with_fields_def with_owned_def with_groups_def setSpec_def with_seen_def)

lemma empty_fm_sel [simp]:
  "fm_fields empty_fm = []" "fm_owned empty_fm = []" "fm_ownedCap empty_fm = 0"
  "fm_groups empty_fm = []" "fm_spec empty_fm = None" "fm_seen empty_fm = replicate 16 0"
  by (simp_all add: empty_fm_def)

subsection \<open>Reading\<close>

fun fv_read :: "slot list \<Rightarrow> fview \<Rightarrow> string" where
  "fv_read ow (Ext s) = s"
| "fv_read ow (Own i n) = (case ow ! i of (_, _, bytes) \<Rightarrow> take n bytes)"

definition fm_has :: "field_map \<Rightarrow> int \<Rightarrow> bool" where
  "fm_has m tag = lhm_has (fm_fields m) tag"

definition getField :: "field_map \<Rightarrow> int \<Rightarrow> exn + string" where
  "getField m tag =
     (case lhm_lookup (fm_fields m) tag of
        Some v \<Rightarrow> Inr (fv_read (fm_owned m) v) | None \<Rightarrow> Inl (FieldNotFound tag))"

definition getIntField :: "field_map \<Rightarrow> int \<Rightarrow> exn + int" where
  "getIntField m tag = sbind (getField m tag) (\<lambda>str. Inr (from_chars_or0 str))"

definition tryGetBool :: "field_map \<Rightarrow> int \<Rightarrow> bool" where
  "tryGetBool m tag =
     (case lhm_lookup (fm_fields m) tag of None \<Rightarrow> False | Some v \<Rightarrow> fv_read (fm_owned m) v = ''Y'')"

definition removeField :: "int \<Rightarrow> field_map \<Rightarrow> field_map \<times> bool" where
  "removeField tag m = (case lhm_erase (fm_fields m) tag of (fs, b) \<Rightarrow> (with_fields fs m, b))"

definition getGroupCount :: "field_map \<Rightarrow> int \<Rightarrow> nat" where
  "getGroupCount m tag = (case map_of (fm_groups m) tag of None \<Rightarrow> 0 | Some gs \<Rightarrow> length gs)"

definition getGroups :: "field_map \<Rightarrow> int \<Rightarrow> exn + field_map list" where
  "getGroups m tag =
     (case map_of (fm_groups m) tag of None \<Rightarrow> Inl (FieldNotFound tag) | Some gs \<Rightarrow> Inr gs)"

definition getGroup :: "field_map \<Rightarrow> int \<Rightarrow> nat \<Rightarrow> exn + field_map" where
  "getGroup m tag idx =
     sbind (getGroups m tag) (\<lambda>vec. if length vec \<le> idx then Inl StdOutOfRange else Inr (vec ! idx))"

definition fm_empty :: "field_map \<Rightarrow> bool" where
  "fm_empty m \<longleftrightarrow> fm_fields m = [] \<and> fm_groups m = []"

subsection \<open>Groups\<close>

text \<open>\<open>addGroup\<close> appends an empty instance; the reference it returns is the last position.\<close>

definition addGroup :: "int \<Rightarrow> field_map \<Rightarrow> field_map" where
  "addGroup tag m =
     (let gs = (case map_of (fm_groups m) tag of None \<Rightarrow> [] | Some gs \<Rightarrow> gs)
      in with_groups (hmap_set (fm_groups m) tag (gs @ [empty_fm])) m)"

definition removeGroups :: "int \<Rightarrow> field_map \<Rightarrow> field_map \<times> bool" where
  "removeGroups tag m =
     (with_groups (hmap_erase (fm_groups m) tag) m, map_of (fm_groups m) tag \<noteq> None)"

subsection \<open>Inserting a view\<close>

text \<open>The scan of \<open>insertFieldView\<close> over the fields (from position \<open>i\<close>) and the rest of the order.\<close>

datatype place = Overwrite nat | InsertBefore nat | AtEnd

fun scan_place :: "int \<Rightarrow> int list \<Rightarrow> (int \<times> fview) list \<Rightarrow> nat \<Rightarrow> place" where
  "scan_place tag order [] i = AtEnd"
| "scan_place tag order (f # fs) i =
     (if tag = fst f then Overwrite i
      else let order' = dropWhile (\<lambda>x. x \<noteq> fst f \<and> x \<noteq> tag) order
           in if order' \<noteq> [] \<and> hd order' = tag then InsertBefore i
              else scan_place tag order' fs (Suc i))"

definition insertFieldView :: "int \<Rightarrow> fview \<Rightarrow> bool \<Rightarrow> field_map \<Rightarrow> field_map" where
  "insertFieldView tag value order m =
     (case fm_spec m of
        None \<Rightarrow> with_fields (lhm_assign (fm_fields m) tag value) m
      | Some s \<Rightarrow>
          (if \<not> order \<or> \<not> gs_ordered s then with_fields (lhm_assign (fm_fields m) tag value) m
           else case scan_place tag (gs_fieldOrder s) (fm_fields m) 0 of
             Overwrite i \<Rightarrow> with_fields ((fm_fields m)[i := (tag, value)]) m
           | InsertBefore i \<Rightarrow> with_fields (fst (lhm_insert_at (fm_fields m) i (tag, value))) m
           | AtEnd \<Rightarrow> with_fields (lhm_assign (fm_fields m) tag value) m))"

definition setFieldView :: "int \<Rightarrow> string \<Rightarrow> bool \<Rightarrow> field_map \<Rightarrow> field_map" where
  "setFieldView tag value order m = insertFieldView tag (Ext value) order m"

subsection \<open>Setting an owned field\<close>

definition OWNED_STORAGE_CAPACITY :: nat where "OWNED_STORAGE_CAPACITY = 16"

text \<open>Capacity of a string built from a value (15 bytes are stored inside the object).\<close>

definition sso_capacity :: nat where "sso_capacity = 15"

definition new_slot :: "int \<Rightarrow> string \<Rightarrow> slot" where
  "new_slot tag value = (tag, max sso_capacity (length value), value @ [CHR 0x00])"

fun assign_slot :: "string \<Rightarrow> slot \<Rightarrow> slot" where
  "assign_slot value (tag, cap, bytes) =
     (if length value \<le> cap then (tag, cap, value @ CHR 0x00 # drop (Suc (length value)) bytes)
      else (tag, max (length value) (2 * cap), value @ [CHR 0x00]))"

fun find_slot :: "slot list \<Rightarrow> int \<Rightarrow> nat" where
  "find_slot [] tag = 0"
| "find_slot (s # ss) tag = (if fst s = tag then 0 else Suc (find_slot ss tag))"

text \<open>Views into the storage of in-object strings, which moving the vector's elements breaks.\<close>

definition has_sso_view :: "field_map \<Rightarrow> bool" where
  "has_sso_view m \<longleftrightarrow>
     list_ex (\<lambda>(_, v). case v of Ext _ \<Rightarrow> False | Own i _ \<Rightarrow> fst (snd (fm_owned m ! i)) = sso_capacity)
       (fm_fields m)"

definition setField :: "int \<Rightarrow> string \<Rightarrow> bool \<Rightarrow> field_map \<Rightarrow> exn + field_map" where
  "setField tag value order m =
     (let ow = fm_owned m; i = find_slot ow tag
      in if i \<noteq> length ow then
           let m' = insertFieldView tag (Own i (length value)) order
                      (with_owned (ow[i := assign_slot value (ow ! i)]) (fm_ownedCap m) m)
           in if fst (snd (ow ! i)) < length value
                 \<and> lhm_lookup (fm_fields m') tag \<noteq> Some (Own i (length value))
              then Inl DanglingView else Inr m'
         else
           let cap = (if ow = [] then max (fm_ownedCap m) OWNED_STORAGE_CAPACITY else fm_ownedCap m)
           in if length ow = cap \<and> has_sso_view m then Inl DanglingView
              else Inr (insertFieldView tag (Own (length ow) (length value)) order
                     (with_owned (ow @ [new_slot tag value]) (if length ow = cap then 2 * cap else cap) m)))"

definition setFieldInt :: "int \<Rightarrow> int \<Rightarrow> bool \<Rightarrow> field_map \<Rightarrow> exn + field_map" where
  "setFieldInt tag value order m = setField tag (dec_int value) order m"

subsection \<open>Sorting and copying\<close>

definition take_ordered ::
    "int list \<Rightarrow> (int \<times> fview) list \<Rightarrow> (int \<times> fview) list \<times> (int \<times> fview) list" where
  "take_ordered order flds =
     fold (\<lambda>tag (new, old).
             case lhm_lookup old tag of
               None \<Rightarrow> (new, old)
             | Some v \<Rightarrow> (fst (lhm_insert new (tag, v)), fst (lhm_erase old tag)))
       order ([], flds)"

definition sortFields :: "field_map \<Rightarrow> field_map" where
  "sortFields m =
     (let (new, old) = (case fm_spec m of None \<Rightarrow> ([], fm_fields m)
                        | Some s \<Rightarrow> take_ordered (gs_fieldOrder s) (fm_fields m))
      in with_fields (fold (\<lambda>e acc. fst (lhm_insert acc e)) (sort_key fst old) new) m)"

text \<open>The copy constructor: every value becomes owned, in field order; the duplicate-detection
  bits start cleared. The groups' vectors copy their elements the same way.\<close>

primrec copy_fm :: "field_map \<Rightarrow> field_map" where
  "copy_fm (FieldMap fs ow cap gs sp sn) =
     FieldMap (map (\<lambda>(i, (tag, v)). (tag, Own i (length (fv_read ow v)))) (enumerate 0 fs))
       (map (\<lambda>(tag, v). new_slot tag (fv_read ow v)) fs)
       (max (length fs) OWNED_STORAGE_CAPACITY)
       (map (map_prod id (map copy_fm)) gs) sp (replicate 16 0)"

subsection \<open>The parser's duplicate detection\<close>

definition setFieldViewOrDetectDup :: "int \<Rightarrow> string \<Rightarrow> field_map \<Rightarrow> field_map \<times> bool" where
  "setFieldViewOrDetectDup tag value m =
     (if 0 \<le> tag \<and> tag < 1024 then
        let w = nat tag div 64; b = nat tag mod 64
        in if bit (fm_seen m ! w) b then (m, True)
           else (with_fields (lhm_push_back_unchecked (fm_fields m) (tag, Ext value))
                  (with_seen ((fm_seen m)[w := set_bit b (fm_seen m ! w)]) m), False)
      else
        case lhm_insert (fm_fields m) (tag, Ext value) of
          (fs, _, inserted) \<Rightarrow> (with_fields fs m, \<not> inserted))"

section \<open>Messages\<close>

record message =
  m_header :: field_map
  m_body :: field_map
  m_trailer :: field_map
  m_sourceText :: string

definition empty_message :: message where
  "empty_message = \<lparr>m_header = empty_fm, m_body = empty_fm, m_trailer = empty_fm, m_sourceText = []\<rparr>"

definition copy_message :: "message \<Rightarrow> message" where
  "copy_message msg =
     \<lparr>m_header = copy_fm (m_header msg), m_body = copy_fm (m_body msg),
      m_trailer = copy_fm (m_trailer msg), m_sourceText = m_sourceText msg\<rparr>"

section \<open>Serialization\<close>

definition isIgnoredTag :: "int \<Rightarrow> bool" where
  "isIgnoredTag tag \<longleftrightarrow> tag = FIELD_BeginString \<or> tag = FIELD_BodyLength \<or> tag = FIELD_CheckSum"

text \<open>The table of prebuilt tag texts and the general path append the same text.\<close>

definition tagEqTable :: "nat \<Rightarrow> string" where
  "tagEqTable i = dec_nat i @ [EQCH]"

definition appendTagEq :: "int \<Rightarrow> string" where
  "appendTagEq tag = (if 0 \<le> tag \<and> tag < 1024 then tagEqTable (nat tag) else dec_int tag @ [EQCH])"

lemma appendTagEq_eq: "appendTagEq tag = dec_int tag @ [EQCH]"
  by (simp add: appendTagEq_def tagEqTable_def dec_int_def)

text \<open>\<open>appendGroup\<close>: the text it appends and the amount it adds to \<open>soh_char_count\<close>.\<close>

lemma group_smaller [termination_simp]:
  "map_of (fm_groups m) k = Some gs \<Longrightarrow> g \<in> set gs \<Longrightarrow> size g < size m"
proof (cases m)
  case (FieldMap fs ow cap grps sp sn)
  assume "map_of (fm_groups m) k = Some gs" and g: "g \<in> set gs"
  then have kg: "(k, gs) \<in> set grps" by (simp add: FieldMap map_of_SomeD)
  have "size g < Suc (size_list size gs)"
    using size_list_estimation'[OF g, of "size g" size] by simp
  also have "\<dots> \<le> Suc (size_prod (\<lambda>x. 0) (size_list size) (k, gs))" by simp
  also have "\<dots> \<le> Suc (size_list (size_prod (\<lambda>x. 0) (size_list size)) grps)"
    using size_list_estimation'[OF kg order.refl, of "size_prod (\<lambda>x. 0) (size_list size)"] by simp
  finally show ?thesis by (simp add: FieldMap)
qed

function appendGroup :: "bool \<Rightarrow> char \<Rightarrow> field_map \<Rightarrow> string \<times> nat" where
  "appendGroup skip soh m =
     (if fm_empty m then ([], 0)
      else
        let parts =
              map (\<lambda>(k, v).
                if skip \<and> isIgnoredTag k then ([], 0)
                else
                  let subs = (case map_of (fm_groups m) k of
                                None \<Rightarrow> [] | Some gs \<Rightarrow> map (appendGroup skip soh) gs)
                  in (appendTagEq k @ fv_read (fm_owned m) v @ soh # concat (map fst subs),
                      Suc (sum_list (map snd subs))))
                (fm_fields m);
            tail = (if \<not> skip \<and> fm_has m FIELD_CheckSum
                    then appendTagEq FIELD_CheckSum
                      @ (case getField m FIELD_CheckSum of Inr v \<Rightarrow> v | Inl _ \<Rightarrow> []) @ [soh]
                    else [])
        in (concat (map fst parts) @ tail, sum_list (map snd parts)))"
  by pat_completeness auto
termination
  by (relation "measure (\<lambda>(_, _, m). size m)") (auto intro: group_smaller)

declare appendGroup.simps [simp del]

text \<open>\<open>serializeTo\<close>; the count of separators starts at one, for the BodyLength field.\<close>

definition serialize_body :: "char \<Rightarrow> message \<Rightarrow> string \<times> nat" where
  "serialize_body soh msg =
     (let (h, nh) = appendGroup True soh (m_header msg);
          (b, nb) = appendGroup True soh (m_body msg);
          (t, nt) = appendGroup True soh (m_trailer msg)
      in (h @ b @ t, 1 + nh + nb + nt))"

definition serialize_prefix :: "char \<Rightarrow> message \<Rightarrow> string \<times> nat" where
  "serialize_prefix soh msg =
     (case lhm_lookup (fm_fields (m_header msg)) FIELD_BeginString of
        None \<Rightarrow> ([], 0)
      | Some v \<Rightarrow> (''8='' @ fv_read (fm_owned (m_header msg)) v @ [soh], 1))"

definition serialize :: "char \<Rightarrow> message \<Rightarrow> string" where
  "serialize soh msg =
     (let (body, n0) = serialize_body soh msg;
          (prefix, n1) = serialize_prefix soh msg;
          soh_char_count = n0 + n1;
          result = prefix @ ''9='' @ dec_int (wrap32 (int (length body))) @ [soh] @ body;
          checksum0 = computeChecksum result;
          checksum = (if soh \<noteq> SOH
                      then checksum0 + word_of_int (int soh_char_count * (1 - int (of_char soh)))
                      else checksum0)
      in result @ ''10='' @ formatChecksum checksum @ [soh])"

definition toString :: "bool \<Rightarrow> message \<Rightarrow> string" where
  "toString internal msg = serialize (if internal then SOH else BAR) msg"

text \<open>The stream operator on a field map prints it alone, with visible separators.\<close>

definition fm_toString :: "field_map \<Rightarrow> string" where
  "fm_toString m = fst (appendGroup False BAR m)"

end
