(* ===== verification/FixDictionary.thy ===== *)
theory FixDictionary
  imports FixMessage
begin

text \<open>
  \<^verbatim>\<open>src/Dictionary.h\<close> and the parser of \<^verbatim>\<open>src/Dictionary.cpp\<close>. The parser's local variables and
  the message it fills are one record, each lambda is one function over it, and every
  \<open>TRY_LOG_THROW\<close> is a branch: an exception, or the code that follows it when parsing is relaxed.
  Pointers into the groups of the message are paths: a part of the message and the (tag, index)
  pairs leading to the instance. Log output is not modelled, and neither is running out of memory
  in the \<open>reserve\<close> of a large NumInGroup.
\<close>

section \<open>The dictionary\<close>

definition MAX_FIELD_TAG :: int where "MAX_FIELD_TAG = 1024"

definition FAST_MSGTYPE_SIZE :: nat where "FAST_MSGTYPE_SIZE = 128"

record dictionary =
  d_headerSpec :: group_spec
  d_trailerSpec :: group_spec
  d_bodySpecs :: "(string, group_spec) hmap"
  d_bodySpecsFast :: "nat \<Rightarrow> group_spec option"
  d_fieldTypes :: "nat \<Rightarrow> field_type"
  d_fieldsFallback :: "(int, field_type) hmap"

definition getFieldType :: "dictionary \<Rightarrow> int \<Rightarrow> field_type" where
  "getFieldType d tag =
     (if 0 \<le> tag \<and> tag < MAX_FIELD_TAG then d_fieldTypes d (nat tag)
      else case map_of (d_fieldsFallback d) tag of None \<Rightarrow> FT_UNKNOWN | Some t \<Rightarrow> t)"

definition getMessageSpec :: "dictionary \<Rightarrow> string \<Rightarrow> group_spec option" where
  "getMessageSpec d msg_type =
     (case (case msg_type of
              [ch] \<Rightarrow> (let c = of_char ch in if c < FAST_MSGTYPE_SIZE then d_bodySpecsFast d c else None)
            | _ \<Rightarrow> None) of
        Some s \<Rightarrow> Some s | None \<Rightarrow> map_of (d_bodySpecs d) msg_type)"

definition getMessageSpecRaw :: "dictionary \<Rightarrow> string \<Rightarrow> group_spec option" where
  "getMessageSpecRaw d msg_type =
     (case msg_type of
        [ch] \<Rightarrow> (let c = of_char ch
                in if c < FAST_MSGTYPE_SIZE then d_bodySpecsFast d c else map_of (d_bodySpecs d) msg_type)
      | _ \<Rightarrow> map_of (d_bodySpecs d) msg_type)"

definition create :: "dictionary \<Rightarrow> string \<Rightarrow> exn + message" where
  "create d msg_type =
     (case getMessageSpecRaw d msg_type of
        None \<Rightarrow> Inl (MessageParsingError (''Unknown message: '' @ msg_type))
      | Some bodySpec \<Rightarrow>
          sbind (setField FIELD_MsgType msg_type True (setSpec (Some (d_headerSpec d)) empty_fm))
            (\<lambda>h. Inr \<lparr>m_header = h, m_body = setSpec (Some bodySpec) empty_fm,
                      m_trailer = setSpec (Some (d_trailerSpec d)) empty_fm, m_sourceText = []\<rparr>))"

section \<open>Tag numbers\<close>

text \<open>Signed overflow wraps, as on the platforms the code is built for.\<close>

definition fastParseTag :: "string \<Rightarrow> int" where
  "fastParseTag s =
     (if s = [] then -1
      else if list_all is_digit s then foldl (\<lambda>v c. wrap32 (v * 10 + int (digit_val c))) 0 s
      else -1)"

section \<open>The parser's state\<close>

datatype message_state = HEADER | BODY | TRAILER

record parse_settings =
  relaxedParsing :: bool
  validateRequired :: bool
  reorderTags :: bool

datatype msg_part = PartHeader | PartBody | PartTrailer

type_synonym group_ref = "msg_part \<times> (int \<times> nat) list"

record group_info =
  gi_spec :: group_spec
  gi_group :: group_ref
  gi_tag :: int
  gi_count :: nat
  gi_max :: nat

record parser =
  p_header :: field_map
  p_body :: field_map
  p_trailer :: field_map
  p_msgState :: message_state
  p_stack :: "group_info list"
  p_bodyLengthStart :: int
  p_dataLength :: int
  p_tagCount :: nat
  p_tag :: int

definition STACK_SIZE :: nat where "STACK_SIZE = 8"

definition root_info :: "group_spec \<Rightarrow> msg_part \<Rightarrow> group_info" where
  "root_info s part = \<lparr>gi_spec = s, gi_group = (part, []), gi_tag = 0, gi_count = 0, gi_max = 0\<rparr>"

subsection \<open>Following a pointer\<close>

fun sub_get :: "(int \<times> nat) list \<Rightarrow> field_map \<Rightarrow> field_map" where
  "sub_get [] m = m"
| "sub_get ((t, i) # path) m =
     (case map_of (fm_groups m) t of None \<Rightarrow> empty_fm | Some gs \<Rightarrow> sub_get path (gs ! i))"

fun sub_set :: "(int \<times> nat) list \<Rightarrow> field_map \<Rightarrow> field_map \<Rightarrow> field_map" where
  "sub_set [] new m = new"
| "sub_set ((t, i) # path) new m =
     (case map_of (fm_groups m) t of
        None \<Rightarrow> m
      | Some gs \<Rightarrow> with_groups (hmap_set (fm_groups m) t (gs[i := sub_set path new (gs ! i)])) m)"

fun part_get :: "msg_part \<Rightarrow> parser \<Rightarrow> field_map" where
  "part_get PartHeader st = p_header st"
| "part_get PartBody st = p_body st"
| "part_get PartTrailer st = p_trailer st"

fun part_set :: "msg_part \<Rightarrow> field_map \<Rightarrow> parser \<Rightarrow> parser" where
  "part_set PartHeader m st = st\<lparr>p_header := m\<rparr>"
| "part_set PartBody m st = st\<lparr>p_body := m\<rparr>"
| "part_set PartTrailer m st = st\<lparr>p_trailer := m\<rparr>"

definition deref :: "group_ref \<Rightarrow> parser \<Rightarrow> field_map" where
  "deref r st = sub_get (snd r) (part_get (fst r) st)"

definition assign_ref :: "group_ref \<Rightarrow> field_map \<Rightarrow> parser \<Rightarrow> parser" where
  "assign_ref r m st = part_set (fst r) (sub_set (snd r) m (part_get (fst r) st)) st"

text \<open>The last instance of a group, the one \<open>addGroup\<close> returns.\<close>

definition ref_last :: "group_ref \<Rightarrow> int \<Rightarrow> parser \<Rightarrow> group_ref" where
  "ref_last r tag st = (fst r, snd r @ [(tag, getGroupCount (deref r st) tag - 1)])"

section \<open>The lambdas\<close>

definition try_throw :: "parse_settings \<Rightarrow> string \<Rightarrow> 'a \<Rightarrow> exn + 'a" where
  "try_throw cfg msg st = (if relaxedParsing cfg then Inr st else Inl (MessageParsingError msg))"

fun check_required :: "parse_settings \<Rightarrow> (int \<times> bool) list \<Rightarrow> field_map \<Rightarrow> exn + unit" where
  "check_required cfg [] m = Inr ()"
| "check_required cfg ((tag, required) # fs) m =
     (if required \<and> \<not> fm_has m tag
      then sbind (try_throw cfg (''Message is missing required field: '' @ dec_int tag) ())
             (\<lambda>_. check_required cfg fs m)
      else check_required cfg fs m)"

definition validateGroup :: "parse_settings \<Rightarrow> group_ref \<Rightarrow> group_spec \<Rightarrow> parser \<Rightarrow> exn + parser" where
  "validateGroup cfg r s st =
     (let g = setSpec (Some s) (deref r st);
          g = (if reorderTags cfg \<and> gs_ordered s then sortFields g else g);
          st = assign_ref r g st
      in if \<not> validateRequired cfg then Inr st
         else sbind (check_required cfg (gs_fields s) g) (\<lambda>_. Inr st))"

text \<open>\<open>overwriteStack(curIdx)\<close> keeps \<open>curIdx + 1\<close> entries.\<close>

function overwriteStack :: "parse_settings \<Rightarrow> nat \<Rightarrow> parser \<Rightarrow> exn + parser" where
  "overwriteStack cfg keep st =
     (if length (p_stack st) \<le> keep then Inr st
      else
        let g = last (p_stack st)
        in sbind (if gi_tag g > 0 \<and> gi_count g < gi_max g
                  then try_throw cfg (''Repeating group terminated with count less than NumInGroup (tag=''
                         @ dec_int (gi_tag g) @ '')'') st
                  else Inr st)
             (\<lambda>st1. sbind (validateGroup cfg (gi_group g) (gi_spec g) st1)
                (\<lambda>st2. overwriteStack cfg keep (st2\<lparr>p_stack := butlast (p_stack st)\<rparr>))))"
  by pat_completeness auto
termination
  by (relation "measure (\<lambda>(_, _, st). length (p_stack st))") auto

declare overwriteStack.simps [simp del]

text \<open>The LENGTH and BodyLength tracking that follows the store of a field. \<open>valEnd\<close> is the offset
  of the end of the value in the text.\<close>

definition note_length :: "parse_settings \<Rightarrow> dictionary \<Rightarrow> int \<Rightarrow> string \<Rightarrow> parser \<Rightarrow> exn + parser" where
  "note_length cfg d tag val st =
     (if getFieldType d tag = FT_LENGTH then
        let parsed = fastParseTag val
        in if parsed < 0 then try_throw cfg (''Couldn't parse data field (tag='' @ dec_int tag @ '')'') st
           else Inr (st\<lparr>p_dataLength := parsed\<rparr>)
      else Inr st)"

definition note_bodyLength :: "int \<Rightarrow> nat \<Rightarrow> parser \<Rightarrow> parser" where
  "note_bodyLength tag valEnd st =
     (if tag = FIELD_BodyLength then st\<lparr>p_bodyLengthStart := wrap32 (int valEnd) + 1\<rparr> else st)"

definition parse_setField ::
    "parse_settings \<Rightarrow> dictionary \<Rightarrow> group_ref \<Rightarrow> int \<Rightarrow> string \<Rightarrow> nat \<Rightarrow> parser \<Rightarrow> exn + parser" where
  "parse_setField cfg d r tag val valEnd st =
     sbind (note_length cfg d tag val st)
       (\<lambda>st. let st = note_bodyLength tag valEnd st
             in Inr (assign_ref r (setFieldView tag val False (deref r st)) st))"

definition handleRepeatingTag ::
    "parse_settings \<Rightarrow> dictionary \<Rightarrow> group_info \<Rightarrow> nat \<Rightarrow> int \<Rightarrow> string \<Rightarrow> parser \<Rightarrow> exn + (nat option \<times> parser)" where
  "handleRepeatingTag cfg d g groupIdx tag val st =
     (if gi_tag g > 0 then
        if gi_count g = gi_max g then
          try_throw cfg (''Repeating group count exceeds NumInGroup (tag='' @ dec_int (gi_tag g) @ '')'') (None, st)
        else
          sbind (validateGroup cfg (gi_group g) (gi_spec g) st)
            (\<lambda>st. let parent = gi_group (p_stack st ! (groupIdx - 1));
                      st = assign_ref parent (addGroup (gi_tag g) (deref parent st)) st;
                      new = ref_last parent (gi_tag g) st;
                      st = assign_ref new (fst (setFieldViewOrDetectDup tag val (deref new st))) st;
                      st = (if getFieldType d tag = FT_LENGTH \<and> fastParseTag val \<ge> 0
                            then st\<lparr>p_dataLength := fastParseTag val\<rparr> else st);
                      g' = g\<lparr>gi_group := new, gi_count := Suc (gi_count g)\<rparr>
                  in Inr (Some groupIdx, st\<lparr>p_stack := (p_stack st)[groupIdx := g']\<rparr>))
      else try_throw cfg (''Message contains duplicate tags (tag='' @ dec_int tag @ '')'') (None, st))"

text \<open>\<open>trySetField\<close>: the returned index, \<open>None\<close> for \<open>-1\<close>. A group starts a new entry of the fixed
  stack.\<close>

definition trySetField ::
    "parse_settings \<Rightarrow> dictionary \<Rightarrow> group_info \<Rightarrow> nat \<Rightarrow> int \<Rightarrow> string \<Rightarrow> nat \<Rightarrow> parser
       \<Rightarrow> exn + (nat option \<times> parser)" where
  "trySetField cfg d g groupIdx tag val valEnd st =
     (if hasField (gi_spec g) tag then
        case setFieldViewOrDetectDup tag val (deref (gi_group g) st) of
          (m, dup) \<Rightarrow>
            if dup then handleRepeatingTag cfg d g groupIdx tag val st
            else sbind (note_length cfg d tag val (assign_ref (gi_group g) m st))
                   (\<lambda>st. Inr (Some groupIdx, note_bodyLength tag valEnd st))
      else
        case findGroup (gi_spec g) tag of
          None \<Rightarrow> Inr (None, st)
        | Some gspec \<Rightarrow>
            if getGroupCount (deref (gi_group g) st) tag > 0
            then handleRepeatingTag cfg d g groupIdx tag val st
            else
              let parsed = fastParseTag val
              in if parsed < 0
                 then try_throw cfg (''Couldn't parse NumInGroup (tag='' @ dec_int tag @ '')'') (None, st)
                 else
                   let st = assign_ref (gi_group g) (addGroup tag (deref (gi_group g) st)) st
                   in if length (p_stack st) \<ge> STACK_SIZE then Inl ArrayOverflow
                      else
                        let new = \<lparr>gi_spec = gspec, gi_group = ref_last (gi_group g) tag st, gi_tag = tag,
                                   gi_count = 1, gi_max = nat parsed\<rparr>;
                            st = st\<lparr>p_stack := p_stack st @ [new]\<rparr>
                        in sbind (parse_setField cfg d (gi_group g) tag val valEnd st)
                             (\<lambda>st. Inr (Some (Suc groupIdx), st)))"

text \<open>The loop over the stack from its top, \<open>n\<close> entries still to try.\<close>

fun try_levels ::
    "parse_settings \<Rightarrow> dictionary \<Rightarrow> int \<Rightarrow> string \<Rightarrow> nat \<Rightarrow> nat \<Rightarrow> parser \<Rightarrow> exn + (nat option \<times> parser)" where
  "try_levels cfg d tag val valEnd 0 st = Inr (None, st)"
| "try_levels cfg d tag val valEnd (Suc j) st =
     sbind (trySetField cfg d (p_stack st ! j) j tag val valEnd st)
       (\<lambda>(idx, st). case idx of
          Some newIdx \<Rightarrow> Inr (Some newIdx, st)
        | None \<Rightarrow> try_levels cfg d tag val valEnd j st)"

definition curInfo :: "parser \<Rightarrow> group_info" where
  "curInfo st = last (p_stack st)"

text \<open>The header's end: the whole stack is validated and the body, of the type MsgType names,
  takes its place. Without a specification the code dereferences a null pointer next.\<close>

definition enter_body :: "parse_settings \<Rightarrow> dictionary \<Rightarrow> parser \<Rightarrow> exn + parser" where
  "enter_body cfg d st =
     sbind (overwriteStack cfg 0 st)
       (\<lambda>st. sbind (case getField (p_header st) FIELD_MsgType of
                      Inr msgType \<Rightarrow> Inr (getMessageSpecRaw d msgType)
                    | Inl _ \<Rightarrow> try_throw cfg ''Unknown message type'' None)
         (\<lambda>bodySpec. case bodySpec of
            None \<Rightarrow> Inl NullDereference
          | Some s \<Rightarrow> Inr (st\<lparr>p_stack := p_stack st @ [root_info s PartBody], p_msgState := BODY\<rparr>)))"

definition try_trailer ::
    "parse_settings \<Rightarrow> dictionary \<Rightarrow> int \<Rightarrow> string \<Rightarrow> nat \<Rightarrow> parser \<Rightarrow> exn + (nat option \<times> parser)" where
  "try_trailer cfg d tag val valEnd st =
     (let test = root_info (d_trailerSpec d) PartTrailer
      in sbind (trySetField cfg d test 0 tag val valEnd st)
           (\<lambda>(idx, st). case idx of
              None \<Rightarrow> Inr (None, st)
            | Some newIdx \<Rightarrow>
                let bottom = p_stack st ! 0
                in sbind (validateGroup cfg (gi_group bottom) (gi_spec bottom) st)
                     (\<lambda>st. sbind (overwriteStack cfg (Suc newIdx)
                                   (st\<lparr>p_msgState := TRAILER, p_stack := (p_stack st)[0 := test]\<rparr>))
                             (\<lambda>st. Inr (Some newIdx, st)))))"

definition unknown_field ::
    "parse_settings \<Rightarrow> dictionary \<Rightarrow> int \<Rightarrow> string \<Rightarrow> nat \<Rightarrow> parser \<Rightarrow> exn + parser" where
  "unknown_field cfg d tag val valEnd st = parse_setField cfg d (gi_group (curInfo st)) tag val valEnd st"

definition body_or_trailer ::
    "parse_settings \<Rightarrow> dictionary \<Rightarrow> int \<Rightarrow> string \<Rightarrow> nat \<Rightarrow> parser \<Rightarrow> exn + parser" where
  "body_or_trailer cfg d tag val valEnd st =
     (if p_msgState st = BODY then
        sbind (try_trailer cfg d tag val valEnd st)
          (\<lambda>(idx, st). case idx of
             Some _ \<Rightarrow> Inr st
           | None \<Rightarrow> unknown_field cfg d tag val valEnd st)
      else unknown_field cfg d tag val valEnd st)"

definition leave_header ::
    "parse_settings \<Rightarrow> dictionary \<Rightarrow> int \<Rightarrow> string \<Rightarrow> nat \<Rightarrow> parser \<Rightarrow> exn + parser" where
  "leave_header cfg d tag val valEnd st =
     (if p_msgState st = HEADER then
        sbind (enter_body cfg d st)
          (\<lambda>st. sbind (trySetField cfg d (p_stack st ! 0) 0 tag val valEnd st)
             (\<lambda>(idx, st). case idx of
                Some _ \<Rightarrow> Inr st
              | None \<Rightarrow> body_or_trailer cfg d tag val valEnd st))
      else body_or_trailer cfg d tag val valEnd st)"

definition dispatchField ::
    "parse_settings \<Rightarrow> dictionary \<Rightarrow> int \<Rightarrow> string \<Rightarrow> nat \<Rightarrow> parser \<Rightarrow> exn + parser" where
  "dispatchField cfg d tag val valEnd st =
     (if \<not> spec_empty (gi_spec (curInfo st)) then
        sbind (try_levels cfg d tag val valEnd (length (p_stack st)) st)
          (\<lambda>(idx, st). case idx of
             Some newIdx \<Rightarrow> overwriteStack cfg (Suc newIdx) st
           | None \<Rightarrow> leave_header cfg d tag val valEnd st)
      else leave_header cfg d tag val valEnd st)"

section \<open>The extraction loop\<close>

definition check_first_fields :: "parse_settings \<Rightarrow> int \<Rightarrow> parser \<Rightarrow> exn + parser" where
  "check_first_fields cfg tag st =
     (if p_tagCount st = 0 \<and> tag \<noteq> FIELD_BeginString then try_throw cfg ''First field is not BeginString'' st
      else if p_tagCount st = 1 \<and> tag \<noteq> FIELD_BodyLength then try_throw cfg ''Second field is not BodyLength'' st
      else if p_tagCount st = 2 \<and> tag \<noteq> FIELD_MsgType then try_throw cfg ''Third field is not MsgType'' st
      else Inr st)"

definition bump :: "parser \<Rightarrow> parser" where
  "bump st = st\<lparr>p_tagCount := Suc (p_tagCount st)\<rparr>"

text \<open>A DATA field after its LENGTH: the value is the next \<open>dataLength\<close> bytes. Beyond the text's end
  a relaxed parser keeps a view that runs past the buffer.\<close>

definition take_data ::
    "parse_settings \<Rightarrow> int \<Rightarrow> string \<Rightarrow> parser \<Rightarrow> exn + parser" where
  "take_data cfg tag after st =
     (let n = nat (p_dataLength st); r = gi_group (curInfo st)
      in if length after < n
         then if relaxedParsing cfg then Inl BufferOverread
              else Inl (MessageParsingError ''Data tag length would exceed message size'')
         else Inr ((assign_ref r (setFieldView tag (take n after) False (deref r st)) st)\<lparr>p_dataLength := -1\<rparr>))"

function parse_loop ::
    "parse_settings \<Rightarrow> dictionary \<Rightarrow> string \<Rightarrow> string \<Rightarrow> parser \<Rightarrow> exn + parser" where
  "parse_loop cfg d text rest st =
     (if rest = [] then Inr st
      else case break_at EQCH rest of
        None \<Rightarrow> try_throw cfg ''Missing tag assignment in remaining message'' st
      | Some (t, after) \<Rightarrow>
          let tag = fastParseTag t; st = st\<lparr>p_tag := tag\<rparr>
          in if tag < 0 then
               sbind (try_throw cfg ''Tag not int'' st)
                 (\<lambda>st. case break_at SOH after of
                    None \<Rightarrow> Inr (bump st)
                  | Some (_, rest') \<Rightarrow> parse_loop cfg d text rest' (bump st))
             else
               sbind (check_first_fields cfg tag st)
                 (\<lambda>st. let st = bump st
                   in if p_dataLength st \<ge> 0 \<and> getFieldType d tag = FT_DATA then
                        sbind (take_data cfg tag after st)
                          (\<lambda>st'. parse_loop cfg d text (drop (Suc (nat (p_dataLength st))) after) st')
                      else
                        let st = st\<lparr>p_dataLength := -1\<rparr>
                        in case break_at SOH after of
                             None \<Rightarrow> try_throw cfg ''Message does not end in SOH character'' st
                           | Some (val, rest') \<Rightarrow>
                               sbind (dispatchField cfg d tag val (length text - length rest' - 1) st)
                                 (\<lambda>st. parse_loop cfg d text rest' st)))"
  by pat_completeness auto
termination
  by (relation "measure (\<lambda>(_, _, _, rest, _). length rest)") (auto dest!: break_at_shorter)

declare parse_loop.simps [simp del]

definition start_parser :: "dictionary \<Rightarrow> parser" where
  "start_parser d =
     \<lparr>p_header = empty_fm, p_body = empty_fm, p_trailer = empty_fm, p_msgState = HEADER,
      p_stack = [root_info (d_headerSpec d) PartHeader], p_bodyLengthStart = 0, p_dataLength = -1,
      p_tagCount = 0, p_tag = 0\<rparr>"

section \<open>The checks at the end\<close>

definition check_bodyLength :: "string \<Rightarrow> parser \<Rightarrow> exn + unit" where
  "check_bodyLength text st =
     (let expectedLength = wrapu64 (int (length text) - p_bodyLengthStart st - 7)
      in sbind (getField (p_header st) FIELD_BodyLength)
           (\<lambda>blStr. case from_chars_ulong blStr of
              Inr bodyLength \<Rightarrow>
                if expectedLength \<noteq> bodyLength
                then Inl (MessageParsingError (''Invalid BodyLength: expected '' @ dec_int expectedLength))
                else Inr ()
            | Inl _ \<Rightarrow> Inl (MessageParsingError (''Invalid BodyLength: expected '' @ dec_int expectedLength))))"

definition check_checksum :: "string \<Rightarrow> parser \<Rightarrow> exn + unit" where
  "check_checksum text st =
     (if \<not> fm_has (p_trailer st) FIELD_CheckSum then Inl (MessageParsingError ''Footer missing CheckSum'')
      else
        let checksumStr = formatChecksum (computeChecksum (take (length text - 7) text))
        in if p_tag st \<noteq> FIELD_CheckSum then Inl (MessageParsingError ''Message didn't end in checksum'')
           else sbind (getField (p_trailer st) FIELD_CheckSum)
                  (\<lambda>checksumRet. if checksumRet \<noteq> checksumStr
                     then Inl (MessageParsingError (''Invalid checksum: expected '' @ checksumStr
                            @ '', received '' @ checksumRet))
                     else Inr ()))"

definition finish_parse :: "parse_settings \<Rightarrow> string \<Rightarrow> parser \<Rightarrow> exn + message" where
  "finish_parse cfg text st =
     sbind (overwriteStack cfg 0 st)
       (\<lambda>st. sbind (if p_msgState st \<noteq> TRAILER then try_throw cfg ''Incomplete message'' () else Inr ())
         (\<lambda>_. sbind (if relaxedParsing cfg then Inr ()
                     else sbind (check_bodyLength text st) (\<lambda>_. check_checksum text st))
           (\<lambda>_. Inr \<lparr>m_header = p_header st, m_body = p_body st,
                      m_trailer = fst (removeField FIELD_CheckSum (p_trailer st)), m_sourceText = text\<rparr>)))"

definition parse :: "parse_settings \<Rightarrow> dictionary \<Rightarrow> string \<Rightarrow> exn + message" where
  "parse cfg d text = sbind (parse_loop cfg d text text (start_parser d)) (finish_parse cfg text)"

end
