(* ===== verification/MessageFacts.thy ===== *)
theory MessageFacts
  imports FixMessage
begin

text \<open>
  What the field-map operations and the serializer of \<open>FixMessage\<close> guarantee: a well-formedness
  invariant tying views to their storage, the reads after a write, the order that ordered
  insertion keeps, copies that mean the same message, and the layout of the wire text.
\<close>

section \<open>Well-formed field maps\<close>

fun view_ok :: "slot list \<Rightarrow> int \<times> fview \<Rightarrow> bool" where
  "view_ok ow (k, Ext s) = True"
| "view_ok ow (k, Own i n) = (i < length ow \<and> fst (ow ! i) = k \<and> n \<le> length (snd (snd (ow ! i))))"

definition fm_wf :: "field_map \<Rightarrow> bool" where
  "fm_wf m \<longleftrightarrow> lhm_ok (fm_fields m) \<and> list_all (view_ok (fm_owned m)) (fm_fields m)
     \<and> length (fm_seen m) = 16"

lemma fm_wf_empty [simp]: "fm_wf empty_fm"
  by (simp add: fm_wf_def)

lemma fm_wf_frame [simp]:
  "fm_wf (setSpec s m) = fm_wf m" "fm_wf (with_groups gs m) = fm_wf m"
  "fm_wf (addGroup tag m) = fm_wf m"
  by (simp_all add: fm_wf_def addGroup_def Let_def)

lemma getField_map_of:
  "getField m k = (case map_of (fm_fields m) k of
     Some v \<Rightarrow> Inr (fv_read (fm_owned m) v) | None \<Rightarrow> Inl (FieldNotFound k))"
  by (simp add: getField_def lhm_lookup_map_of)

section \<open>Where ordered insertion puts a field\<close>

text \<open>\<open>misplaced\<close>: the scan stops at a later field although the tag is present behind it. Then the
  code inserts nothing and the old view stays.\<close>

definition misplaced :: "int \<Rightarrow> bool \<Rightarrow> field_map \<Rightarrow> bool" where
  "misplaced tag order m \<longleftrightarrow>
     order \<and> tag \<in> set (lhm_keys (fm_fields m)) \<and>
     (case fm_spec m of None \<Rightarrow> False
      | Some s \<Rightarrow> gs_ordered s \<and>
          (case scan_place tag (gs_fieldOrder s) (fm_fields m) 0 of InsertBefore _ \<Rightarrow> True | _ \<Rightarrow> False))"

lemma scan_place_Overwrite:
  "scan_place tag order fs n = Overwrite i \<Longrightarrow> n \<le> i \<and> i - n < length fs \<and> fst (fs ! (i - n)) = tag"
proof (induction fs arbitrary: order n)
  case (Cons f fs)
  show ?case
  proof (cases "tag = fst f")
    case True
    with Cons.prems show ?thesis by simp
  next
    case False
    with Cons.prems have "scan_place tag (dropWhile (\<lambda>x. x \<noteq> fst f \<and> x \<noteq> tag) order) fs (Suc n) = Overwrite i"
      by (simp add: Let_def split: if_splits)
    from Cons.IH[OF this] have "Suc n \<le> i" "i - Suc n < length fs" "fst (fs ! (i - Suc n)) = tag"
      by blast+
    moreover from this(1) obtain j where "i = Suc (n + j)" by (auto simp: le_iff_add)
    ultimately show ?thesis by simp
  qed
qed simp

lemma update_eq_assign:
  "distinct (map fst fs) \<Longrightarrow> i < length fs \<Longrightarrow> fst (fs ! i) = k \<Longrightarrow> fs[i := (k, v)] = lhm_assign fs k v"
proof (induction fs arbitrary: i)
  case (Cons x xs)
  show ?case
  proof (cases i)
    case 0
    with Cons.prems show ?thesis by simp
  next
    case (Suc j)
    with Cons.prems have j: "j < length xs" "fst (xs ! j) = k" by auto
    then have "k \<in> set (map fst xs)" using nth_mem[OF j(1)] by (metis image_eqI list.set_map)
    moreover from Cons.prems(1) have "fst x \<notin> set (map fst xs)" by simp
    ultimately have "fst x \<noteq> k" by metis
    moreover from Cons.prems(1) have "distinct (map fst xs)" by simp
    ultimately show ?thesis using Suc Cons.IH j by simp
  qed
qed simp

lemma insertFieldView_cases:
  assumes "lhm_ok (fm_fields m)"
  shows "insertFieldView tag v order m =
    (if misplaced tag order m then m
     else case (if order then map_option (\<lambda>s. (gs_ordered s, gs_fieldOrder s)) (fm_spec m) else None) of
       Some (True, ord) \<Rightarrow>
         (case scan_place tag ord (fm_fields m) 0 of
            InsertBefore i \<Rightarrow> with_fields (take i (fm_fields m) @ (tag, v) # drop i (fm_fields m)) m
          | _ \<Rightarrow> with_fields (lhm_assign (fm_fields m) tag v) m)
     | _ \<Rightarrow> with_fields (lhm_assign (fm_fields m) tag v) m)"
proof -
  have id: "with_fields (fm_fields m) m = m" by (simp add: with_fields_def)
  have "(fm_fields m)[i := (tag, v)] = lhm_assign (fm_fields m) tag v"
    if "scan_place tag ord (fm_fields m) 0 = Overwrite i" for i ord
    using scan_place_Overwrite[OF that] assms by (intro update_eq_assign) (auto simp: lhm_ok_def)
  then show ?thesis
    by (auto simp: insertFieldView_def misplaced_def lhm_insert_at_def lhm_find_end_iff id
        split: option.splits place.splits bool.splits)
qed

lemma map_of_insert_mid:
  assumes "k \<notin> set (map fst xs)"
  shows "map_of (take i xs @ (k, v) # drop i xs) j = (if j = k then Some v else map_of xs j)"
proof -
  have "map_of (take i xs) k = None" "map_of (drop i xs) k = None"
    using assms by (auto simp: map_of_eq_None_iff dest: in_set_takeD in_set_dropD)
  moreover have "map_of xs j = (map_of (take i xs @ drop i xs)) j" by (simp only: append_take_drop_id)
  ultimately show ?thesis
    by (simp add: map_add_def del: append_take_drop_id split: option.split)
qed

lemma misplaced_scan:
  "\<not> misplaced tag True m \<Longrightarrow> fm_spec m = Some s \<Longrightarrow> gs_ordered s \<Longrightarrow>
   scan_place tag (gs_fieldOrder s) (fm_fields m) 0 = InsertBefore i \<Longrightarrow>
   tag \<notin> set (lhm_keys (fm_fields m))"
  by (auto simp: misplaced_def)

lemma insertFieldView_lookup:
  assumes "lhm_ok (fm_fields m)"
  shows "map_of (fm_fields (insertFieldView tag v order m)) k =
     (if k = tag \<and> \<not> misplaced tag order m then Some v else map_of (fm_fields m) k)"
proof (cases "misplaced tag order m")
  case True
  then show ?thesis by (simp add: insertFieldView_cases[OF assms])
next
  case False
  note mid = map_of_insert_mid[OF misplaced_scan[of tag m], simplified]
  from False show ?thesis
    by (auto simp: insertFieldView_cases[OF assms] lhm_assign_map_of mid
        split: option.splits place.splits bool.splits)
qed

lemma insertFieldView_sel [simp]:
  "fm_owned (insertFieldView tag v order m) = fm_owned m"
  "fm_groups (insertFieldView tag v order m) = fm_groups m"
  "fm_spec (insertFieldView tag v order m) = fm_spec m"
  "fm_seen (insertFieldView tag v order m) = fm_seen m"
  "fm_ownedCap (insertFieldView tag v order m) = fm_ownedCap m"
  by (auto simp: insertFieldView_def split: option.split place.split)

lemma set_lhm_assign: "set (lhm_assign m k v) \<subseteq> insert (k, v) (set m)"
  by (induction m) auto

lemma insertFieldView_set:
  assumes "lhm_ok (fm_fields m)"
  shows "set (fm_fields (insertFieldView tag v order m)) \<subseteq> insert (tag, v) (set (fm_fields m))"
  using set_lhm_assign[of "fm_fields m" tag v]
  by (auto simp: insertFieldView_cases[OF assms] dest: in_set_takeD in_set_dropD
      split: option.splits place.splits bool.splits)

lemma insertFieldView_ok:
  assumes "lhm_ok (fm_fields m)"
  shows "lhm_ok (fm_fields (insertFieldView tag v order m))"
proof (cases "misplaced tag order m")
  case True
  with assms show ?thesis by (simp add: insertFieldView_cases[OF assms])
next
  case False
  have "lhm_ok (take i (fm_fields m) @ (tag, v) # drop i (fm_fields m))"
    if "tag \<notin> set (lhm_keys (fm_fields m))" for i
    using lhm_ok_insert_at[OF assms, of i "(tag, v)"] that by (simp add: lhm_insert_at_keys)
  with False assms misplaced_scan[of tag m] show ?thesis
    by (auto simp: insertFieldView_cases[OF assms] split: option.splits place.splits bool.splits)
qed

lemma insertFieldView_wf:
  "fm_wf m \<Longrightarrow> view_ok (fm_owned m) (tag, v) \<Longrightarrow> fm_wf (insertFieldView tag v order m)"
  using insertFieldView_set[of m tag v order] insertFieldView_ok[of m tag v order]
  by (fastforce simp: fm_wf_def list_all_iff)

lemma setFieldView_wf: "fm_wf m \<Longrightarrow> fm_wf (setFieldView tag s order m)"
  by (simp add: setFieldView_def insertFieldView_wf)

lemma setFieldView_get:
  "fm_wf m \<Longrightarrow> getField (setFieldView tag s order m) k =
     (if k = tag \<and> \<not> misplaced tag order m then Inr s else getField m k)"
  by (simp add: setFieldView_def getField_map_of insertFieldView_lookup fm_wf_def split: option.split)

section \<open>Setting owned fields\<close>

lemma find_slot_le: "find_slot ow tag \<le> length ow"
  by (induction ow) auto

lemma find_slot_fst: "find_slot ow tag \<noteq> length ow \<Longrightarrow> fst (ow ! find_slot ow tag) = tag"
  by (induction ow) auto

lemma find_slot_end: "find_slot ow tag = length ow \<Longrightarrow> tag \<notin> set (map fst ow)"
  by (induction ow) (auto split: if_splits)

lemma assign_slot_facts [simp]:
  "fst (assign_slot v s) = fst s" "take (length v) (snd (snd (assign_slot v s))) = v"
  "length v \<le> length (snd (snd (assign_slot v s)))"
  "length v \<le> fst (snd s) \<Longrightarrow> length (snd (snd s)) \<le> length (snd (snd (assign_slot v s)))"
  by (cases s, simp)+

lemma view_ok_update:
  assumes "view_ok ow (k, w)" "k \<noteq> fst (ow ! i)" "fst s = fst (ow ! i)"
  shows "view_ok (ow[i := s]) (k, w)" "fv_read (ow[i := s]) w = fv_read ow w"
proof -
  have "\<And>j n. w = Own j n \<Longrightarrow> j \<noteq> i" using assms by auto
  with assms(1) show "view_ok (ow[i := s]) (k, w)" "fv_read (ow[i := s]) w = fv_read ow w"
    by (cases w; simp)+
qed

lemma view_ok_append:
  "view_ok ow (k, w) \<Longrightarrow> view_ok (ow @ [s]) (k, w) \<and> fv_read (ow @ [s]) w = fv_read ow w"
  by (cases w) (auto simp: nth_append)

lemma fm_wfD:
  "fm_wf m \<Longrightarrow> map_of (fm_fields m) k = Some w \<Longrightarrow> view_ok (fm_owned m) (k, w)"
  by (auto simp: fm_wf_def list_all_iff dest!: map_of_SomeD)

lemma view_ok_assign_slot:
  assumes "view_ok ow (k, w)" "length value \<le> fst (snd (ow ! i))"
  shows "view_ok (ow[i := assign_slot value (ow ! i)]) (k, w)"
proof (cases w)
  case (Own j n)
  then show ?thesis
    using assms assign_slot_facts(4)[OF assms(2)]
    by (cases "j = i") (auto intro: order_trans)
qed simp

lemma setField_present:
  assumes "find_slot (fm_owned m) tag \<noteq> length (fm_owned m)" and "setField tag value order m = Inr m'"
  defines "i \<equiv> find_slot (fm_owned m) tag"
  shows "m' = insertFieldView tag (Own i (length value)) order
      (with_owned ((fm_owned m)[i := assign_slot value (fm_owned m ! i)]) (fm_ownedCap m) m)"
    and "fst (snd (fm_owned m ! i)) < length value \<Longrightarrow>
      lhm_lookup (fm_fields m') tag = Some (Own i (length value))"
  using assms by (auto simp: setField_def Let_def split: if_splits)

lemma setField_fresh:
  assumes "find_slot (fm_owned m) tag = length (fm_owned m)" and "setField tag value order m = Inr m'"
  obtains cap where "m' = insertFieldView tag (Own (length (fm_owned m)) (length value)) order
      (with_owned (fm_owned m @ [new_slot tag value]) cap m)"
  using assms by (auto simp: setField_def Let_def split: if_splits)

text \<open>The state just before the view is inserted: every other field still reads the same.\<close>

definition stored :: "int \<Rightarrow> string \<Rightarrow> field_map \<Rightarrow> nat \<Rightarrow> field_map \<Rightarrow> bool" where
  "stored tag value m i m0 \<longleftrightarrow>
     fm_fields m0 = fm_fields m \<and> fm_spec m0 = fm_spec m \<and> fm_seen m0 = fm_seen m \<and>
     fm_groups m0 = fm_groups m \<and> view_ok (fm_owned m0) (tag, Own i (length value)) \<and>
     fv_read (fm_owned m0) (Own i (length value)) = value \<and>
     (\<forall>(k, w)\<in>set (fm_fields m). k \<noteq> tag \<longrightarrow>
        view_ok (fm_owned m0) (k, w) \<and> fv_read (fm_owned m0) w = fv_read (fm_owned m) w)"

lemma storage_step:
  assumes wf: "fm_wf m" and set: "setField tag value order m = Inr m'"
  obtains m0 i where "m' = insertFieldView tag (Own i (length value)) order m0"
    "stored tag value m i m0"
    "\<forall>w. (tag, w) \<in> set (fm_fields m) \<longrightarrow>
       view_ok (fm_owned m0) (tag, w) \<or> lhm_lookup (fm_fields m') tag = Some (Own i (length value))"
proof -
  let ?ow = "fm_owned m" and ?i = "find_slot (fm_owned m) tag"
  have ok: "view_ok ?ow (k, w)" if "(k, w) \<in> set (fm_fields m)" for k w
    using wf that by (auto simp: fm_wf_def list_all_iff)
  show thesis
  proof (cases "?i = length ?ow")
    case False
    then have i: "?i < length ?ow" "fst (?ow ! ?i) = tag"
      using find_slot_le[of ?ow tag] find_slot_fst by auto
    let ?s = "assign_slot value (?ow ! ?i)"
    let ?m0 = "with_owned (?ow[?i := ?s]) (fm_ownedCap m) m"
    have "view_ok (?ow[?i := ?s]) (k, w) \<and> fv_read (?ow[?i := ?s]) w = fv_read ?ow w"
      if "(k, w) \<in> set (fm_fields m)" "k \<noteq> tag" for k w
      using view_ok_update[OF ok[OF that(1)]] i(2) that(2) by simp
    moreover have "fv_read (?ow[?i := ?s]) (Own ?i (length value)) = value"
      using assign_slot_facts(2) [of "value" "?ow ! ?i"] i(1)
      by (simp add: case_prod_beta del: assign_slot_facts(2))
    moreover have "view_ok (?ow[?i := ?s]) (tag, Own ?i (length value))" using i by simp
    ultimately have st: "stored tag value m ?i ?m0" by (auto simp: stored_def)
    have "view_ok (fm_owned ?m0) (tag, w) \<or> lhm_lookup (fm_fields m') tag = Some (Own ?i (length value))"
      if "(tag, w) \<in> set (fm_fields m)" for w
    proof (cases "length value \<le> fst (snd (?ow ! ?i))")
      case True
      then show ?thesis using view_ok_assign_slot[OF ok[OF that] True] by simp
    next
      case f: False
      then show ?thesis using setField_present(2)[OF False set] by simp
    qed
    with setField_present(1)[OF False set] st show thesis by (intro that) auto
  next
    case True
    obtain cap where m': "m' = insertFieldView tag (Own (length ?ow) (length value)) order
        (with_owned (?ow @ [new_slot tag value]) cap m)"
      by (rule setField_fresh[OF True set])
    have "stored tag value m (length ?ow) (with_owned (?ow @ [new_slot tag value]) cap m)"
      unfolding stored_def using view_ok_append[OF ok] by (auto simp: new_slot_def nth_append)
    from that[OF m' this] show thesis
      using view_ok_append[OF ok, where s = "new_slot tag value"] by simp
  qed
qed

lemma stored_frame:
  "stored tag value m i m0 \<Longrightarrow> fm_fields m0 = fm_fields m \<and> fm_spec m0 = fm_spec m
     \<and> fm_seen m0 = fm_seen m \<and> fm_groups m0 = fm_groups m \<and> misplaced tag order m0 = misplaced tag order m"
  by (simp add: stored_def misplaced_def cong: option.case_cong)

lemma setField_lookup:
  assumes "fm_wf m" "setField tag value order m = Inr m'"
  shows "k \<noteq> tag \<Longrightarrow> getField m' k = getField m k"
    and "\<not> misplaced tag order m \<Longrightarrow> getField m' tag = Inr value"
    and "fm_spec m' = fm_spec m" "fm_groups m' = fm_groups m" "fm_seen m' = fm_seen m"
proof -
  obtain m0 i where m': "m' = insertFieldView tag (Own i (length value)) order m0"
    and st: "stored tag value m i m0"
    by (rule storage_step[OF assms])
  note fr = stored_frame[OF st]
  have ok: "lhm_ok (fm_fields m0)" using assms(1) fr by (simp add: fm_wf_def)
  show "getField m' k = getField m k" if "k \<noteq> tag"
  proof (cases "map_of (fm_fields m) k")
    case None
    with that fr show ?thesis by (simp add: getField_map_of m' insertFieldView_lookup[OF ok])
  next
    case (Some w)
    from st that map_of_SomeD[OF Some] have "fv_read (fm_owned m0) w = fv_read (fm_owned m) w"
      by (auto simp: stored_def)
    with Some that fr show ?thesis by (simp add: getField_map_of m' insertFieldView_lookup[OF ok])
  qed
  show "getField m' tag = Inr value" if "\<not> misplaced tag order m"
    using that st fr by (simp add: getField_map_of m' insertFieldView_lookup[OF ok] stored_def)
  show "fm_spec m' = fm_spec m" "fm_groups m' = fm_groups m" "fm_seen m' = fm_seen m"
    using fr by (simp_all add: m')
qed

lemma setField_wf:
  assumes wf: "fm_wf m" and set: "setField tag value order m = Inr m'"
  shows "fm_wf m'"
proof -
  obtain m0 i where m': "m' = insertFieldView tag (Own i (length value)) order m0"
    and st: "stored tag value m i m0"
    and old: "\<forall>w. (tag, w) \<in> set (fm_fields m) \<longrightarrow>
       view_ok (fm_owned m0) (tag, w) \<or> lhm_lookup (fm_fields m') tag = Some (Own i (length value))"
    by (rule storage_step[OF assms])
  note fr = stored_frame[OF st]
  have ok0: "lhm_ok (fm_fields m0)" using wf fr by (simp add: fm_wf_def)
  have ok': "lhm_ok (fm_fields m')" by (simp add: m' insertFieldView_ok[OF ok0])
  have "view_ok (fm_owned m') (k, w)" if kw: "(k, w) \<in> set (fm_fields m')" for k w
  proof (cases "(k, w) = (tag, Own i (length value))")
    case True
    then show ?thesis using st by (simp add: m' stored_def)
  next
    case False
    from kw insertFieldView_set[OF ok0] False fr have o: "(k, w) \<in> set (fm_fields m)"
      by (auto simp: m')
    have new: "lhm_lookup (fm_fields m') k = Some w"
      using kw ok' by (simp add: lhm_ok_def lhm_lookup_map_of)
    show ?thesis
    proof (cases "k = tag")
      case True
      with False new old o show ?thesis by (auto simp: m')
    next
      case False
      with o st have "view_ok (fm_owned m0) (k, w)" unfolding stored_def by blast
      then show ?thesis by (simp add: m')
    qed
  qed
  then show ?thesis using ok' wf fr by (auto simp: fm_wf_def list_all_iff m')
qed

section \<open>The order that ordered insertion keeps\<close>

definition ordered_keys :: "int list \<Rightarrow> int list \<Rightarrow> bool" where
  "ordered_keys order ks \<longleftrightarrow> ks = filter (\<lambda>t. t \<in> set ks) order"

lemma filter_none: "\<forall>x\<in>set xs. \<not> P x \<Longrightarrow> filter P xs = []"
  by (simp add: filter_empty_conv)

lemma dropWhile_stop:
  "k \<notin> set p \<Longrightarrow> t \<notin> set p \<Longrightarrow> y = k \<or> y = t \<Longrightarrow>
   dropWhile (\<lambda>x. x \<noteq> k \<and> x \<noteq> t) (p @ y # r) = y # r"
  by (induction p) auto

lemma take_drop_shift:
  "Suc n \<le> i \<Longrightarrow> take (i - n) (k # ks) @ t # drop (i - n) (k # ks) =
     k # take (i - Suc n) ks @ t # drop (i - Suc n) ks"
proof -
  assume "Suc n \<le> i"
  then have "i - n = Suc (i - Suc n)" by simp
  then show ?thesis by simp
qed

lemma filter_single: "distinct xs \<Longrightarrow> t \<in> set xs \<Longrightarrow> filter Q xs = [] \<Longrightarrow> filter (\<lambda>x. Q x \<or> x = t) xs = [t]"
proof (induction xs)
  case (Cons x xs)
  show ?case
  proof (cases "x = t")
    case True
    with Cons.prems have "filter (\<lambda>y. Q y \<or> y = t) xs = []"
      by (auto simp: filter_empty_conv split: if_splits)
    with True show ?thesis by simp
  next
    case False
    with Cons show ?thesis by (auto split: if_splits)
  qed
qed simp

definition placed_at :: "int \<Rightarrow> (int \<Rightarrow> bool) \<Rightarrow> int list \<Rightarrow> int list \<Rightarrow> nat \<Rightarrow> place \<Rightarrow> bool" where
  "placed_at tag Q order ks n p \<longleftrightarrow>
     (case p of Overwrite _ \<Rightarrow> False
      | InsertBefore i \<Rightarrow> n \<le> i \<and> take (i - n) ks @ tag # drop (i - n) ks = filter (\<lambda>x. Q x \<or> x = tag) order
      | AtEnd \<Rightarrow> ks @ [tag] = filter (\<lambda>x. Q x \<or> x = tag) order)"

lemma scan_place_ordered:
  "distinct order \<Longrightarrow> map fst fs = filter Q order \<Longrightarrow> tag \<in> set order \<Longrightarrow> \<not> Q tag \<Longrightarrow>
   placed_at tag Q order (map fst fs) n (scan_place tag order fs n)"
proof (induction fs arbitrary: order Q n)
  case Nil
  then show ?case using filter_single[of order tag Q] by (simp add: placed_at_def)
next
  case (Cons f fs)
  let ?k = "fst f" and ?R = "\<lambda>x. Q x \<or> x = tag"
  obtain pre post where o: "order = pre @ ?k # post" and pre: "\<forall>x\<in>set pre. \<not> Q x"
    and k: "Q ?k" and post: "map fst fs = filter Q post"
    using Cons.prems(2) unfolding list.map by (metis filter_eq_Cons_iff)
  have ne: "?k \<noteq> tag" using k Cons.prems(4) by auto
  let ?o = "dropWhile (\<lambda>x. x \<noteq> ?k \<and> x \<noteq> tag) order"
  show ?case
  proof (cases "tag \<in> set pre")
    case True
    then obtain p q where pq: "pre = p @ tag # q" "tag \<notin> set p" by (meson split_list_first)
    have "?k \<notin> set p" using Cons.prems(1) o pq by auto
    then have "?o = tag # q @ ?k # post" using dropWhile_stop[of ?k p tag tag] pq by (simp add: o)
    moreover have "filter ?R p = []" "filter ?R q = []" "filter ?R post = filter Q post"
      using pre pq Cons.prems(1) o by (auto simp: filter_empty_conv intro!: filter_cong)
    ultimately show ?thesis
      using ne k pq o post by (simp add: placed_at_def)
  next
    case False
    then have tp: "tag \<in> set post" using Cons.prems(3) o ne by auto
    have "?k \<notin> set pre" using Cons.prems(1) o by auto
    then have oo: "?o = ?k # post" using False by (simp add: o dropWhile_stop)
    let ?Q = "\<lambda>x. Q x \<and> x \<noteq> ?k"
    have kp: "?k \<notin> set post" "distinct post" using Cons.prems(1) o by auto
    then have eq: "filter ?Q (?k # post) = filter Q post" "filter (\<lambda>x. ?Q x \<or> x = tag) (?k # post) = filter ?R post"
      using ne by (auto intro!: filter_cong)
    have "placed_at tag ?Q (?k # post) (map fst fs) (Suc n) (scan_place tag (?k # post) fs (Suc n))"
      using kp eq(1) post tp Cons.prems(4) by (intro Cons.IH) auto
    moreover have "filter ?R order = ?k # filter ?R post"
      using pre k o False by (auto simp: filter_empty_conv)
    ultimately show ?thesis
      using ne oo eq(2) by (auto simp: placed_at_def take_drop_shift split: place.splits)
  qed
qed

lemma scan_place_present:
  "distinct order \<Longrightarrow> map fst fs = filter Q order \<Longrightarrow> tag \<in> set order \<Longrightarrow> Q tag \<Longrightarrow>
   \<exists>i. scan_place tag order fs n = Overwrite i"
proof (induction fs arbitrary: order Q n)
  case Nil
  then show ?case by (auto simp: filter_empty_conv dest!: sym[of "[]"])
next
  case (Cons f fs)
  let ?k = "fst f"
  obtain pre post where o: "order = pre @ ?k # post" and pre: "\<forall>x\<in>set pre. \<not> Q x"
    and post: "map fst fs = filter Q post"
    using Cons.prems(2) unfolding list.map by (metis filter_eq_Cons_iff)
  show ?case
  proof (cases "tag = ?k")
    case False
    have np: "?k \<notin> set pre" "tag \<notin> set pre" "?k \<notin> set post" using Cons.prems(1,4) o pre by auto
    then have oo: "dropWhile (\<lambda>x. x \<noteq> ?k \<and> x \<noteq> tag) order = ?k # post"
      by (simp add: o dropWhile_stop)
    have "filter (\<lambda>x. Q x \<and> x \<noteq> ?k) (?k # post) = filter Q post"
      using np by (auto intro!: filter_cong)
    then have "\<exists>i. scan_place tag (?k # post) fs (Suc n) = Overwrite i"
      using Cons.prems False post o pre by (intro Cons.IH[where Q = "\<lambda>x. Q x \<and> x \<noteq> ?k"]) auto
    with oo False show ?thesis by simp
  qed simp
qed

lemma insertFieldView_ordered:
  assumes ok: "lhm_ok (fm_fields m)" and sp: "fm_spec m = Some s" "gs_ordered s" "distinct (gs_fieldOrder s)"
    and keys: "ordered_keys (gs_fieldOrder s) (lhm_keys (fm_fields m))" and tag: "tag \<in> set (gs_fieldOrder s)"
  shows "\<not> misplaced tag True m"
    and "ordered_keys (gs_fieldOrder s) (lhm_keys (fm_fields (insertFieldView tag v True m)))"
    and "set (lhm_keys (fm_fields (insertFieldView tag v True m))) = insert tag (set (lhm_keys (fm_fields m)))"
proof -
  let ?ks = "lhm_keys (fm_fields m)" and ?o = "gs_fieldOrder s"
  let ?p = "scan_place tag ?o (fm_fields m) 0"
  let ?m' = "insertFieldView tag v True m"
  have kf: "?ks = filter (\<lambda>t. t \<in> set ?ks) ?o" using keys unfolding ordered_keys_def .
  show mis: "\<not> misplaced tag True m"
  proof (cases "tag \<in> set ?ks")
    case True
    then obtain i where "?p = Overwrite i" using scan_place_present[OF sp(3) kf tag, of 0] by blast
    with sp show ?thesis by (simp add: misplaced_def)
  qed (simp add: misplaced_def)
  have K: "lhm_keys (fm_fields ?m') = filter (\<lambda>t. t \<in> set ?ks \<or> t = tag) ?o"
  proof (cases "tag \<in> set ?ks")
    case True
    then obtain i where "?p = Overwrite i" using scan_place_present[OF sp(3) kf tag, of 0] by blast
    then have "lhm_keys (fm_fields ?m') = ?ks"
      using True sp mis by (simp add: insertFieldView_cases[OF ok] lhm_assign_keys)
    also have "\<dots> = filter (\<lambda>t. t \<in> set ?ks \<or> t = tag) ?o"
      using True by (subst kf) (auto intro!: filter_cong)
    finally show ?thesis .
  next
    case False
    have "placed_at tag (\<lambda>t. t \<in> set ?ks) ?o ?ks 0 ?p"
      using scan_place_ordered[OF sp(3) kf tag] False by simp
    then show ?thesis
      using False sp mis
      by (auto simp: insertFieldView_cases[OF ok] lhm_assign_keys placed_at_def take_map drop_map
          split: place.splits)
  qed
  have "set ?ks \<subseteq> set ?o" using kf by (metis filter_is_subset)
  with K show S: "set (lhm_keys (fm_fields ?m')) = insert tag (set ?ks)"
    using tag by (simp only: set_filter) blast
  have e: "(\<lambda>t. t \<in> set (lhm_keys (fm_fields ?m'))) = (\<lambda>t. t \<in> set ?ks \<or> t = tag)"
    unfolding S by (auto simp: fun_eq_iff)
  show "ordered_keys ?o (lhm_keys (fm_fields ?m'))"
    unfolding ordered_keys_def e by (rule K)
qed

section \<open>Building a field map\<close>

fun set_all :: "field_map \<Rightarrow> (int \<times> string) list \<Rightarrow> exn + field_map" where
  "set_all m [] = Inr m"
| "set_all m ((k, v) # kvs) = sbind (setField k v True m) (\<lambda>m'. set_all m' kvs)"

lemma setField_ordered:
  assumes "fm_wf m" "setField tag value True m = Inr m'" "fm_spec m = Some s" "gs_ordered s"
    "distinct (gs_fieldOrder s)" "ordered_keys (gs_fieldOrder s) (lhm_keys (fm_fields m))"
    "tag \<in> set (gs_fieldOrder s)"
  shows "ordered_keys (gs_fieldOrder s) (lhm_keys (fm_fields m'))"
    "set (lhm_keys (fm_fields m')) = insert tag (set (lhm_keys (fm_fields m)))"
    "\<not> misplaced tag True m"
proof -
  obtain m0 i where m': "m' = insertFieldView tag (Own i (length value)) True m0"
    and st: "stored tag value m i m0"
    by (rule storage_step[OF assms(1,2)])
  note fr = stored_frame[OF st, of True]
  have "lhm_ok (fm_fields m0)" using assms(1) fr by (simp add: fm_wf_def)
  note ins = insertFieldView_ordered[OF this, where tag = tag and s = s]
  show "ordered_keys (gs_fieldOrder s) (lhm_keys (fm_fields m'))"
    "set (lhm_keys (fm_fields m')) = insert tag (set (lhm_keys (fm_fields m)))"
    "\<not> misplaced tag True m"
    using ins fr assms(3-7) by (simp_all add: m')
qed

lemma set_all_ordered:
  assumes "fm_wf m" "fm_spec m = Some s" "gs_ordered s" "distinct (gs_fieldOrder s)"
    "ordered_keys (gs_fieldOrder s) (lhm_keys (fm_fields m))"
    "set (map fst kvs) \<subseteq> set (gs_fieldOrder s)" "set_all m kvs = Inr m'"
  shows "fm_wf m' \<and> ordered_keys (gs_fieldOrder s) (lhm_keys (fm_fields m')) \<and>
    set (lhm_keys (fm_fields m')) = set (map fst kvs) \<union> set (lhm_keys (fm_fields m)) \<and>
    (\<forall>k. getField m' k = (case map_of (rev kvs) k of Some v \<Rightarrow> Inr v | None \<Rightarrow> getField m k))"
  using assms
proof (induction m kvs rule: set_all.induct)
  case (2 m k v kvs)
  from "2.prems"(7) obtain m1 where m1: "setField k v True m = Inr m1" "set_all m1 kvs = Inr m'"
    by (auto elim!: sbind_InrE)
  note look = setField_lookup[OF "2.prems"(1) m1(1)]
  note ord = setField_ordered[OF "2.prems"(1) m1(1) "2.prems"(2-5)]
  have k: "k \<in> set (gs_fieldOrder s)" using "2.prems"(6) by simp
  have IH: "fm_wf m' \<and> ordered_keys (gs_fieldOrder s) (lhm_keys (fm_fields m')) \<and>
    set (lhm_keys (fm_fields m')) = set (map fst kvs) \<union> set (lhm_keys (fm_fields m1)) \<and>
    (\<forall>j. getField m' j = (case map_of (rev kvs) j of Some v \<Rightarrow> Inr v | None \<Rightarrow> getField m1 j))"
    using "2.prems" m1 look(3) ord(1)[OF k] setField_wf[OF "2.prems"(1) m1(1)]
    by (intro "2.IH") auto
  have "getField m1 j = (if j = k then Inr v else getField m j)" for j
    using look(1,2) ord(3)[OF k] by simp
  with IH show ?case using ord(2)[OF k]
    by (auto simp: map_add_def split: option.split)
qed simp

lemma setField_total:
  assumes "length (fm_owned m) < fm_ownedCap m \<or> fm_owned m = [] \<or> tag \<in> set (map fst (fm_owned m))"
    "lhm_ok (fm_fields m)" "\<not> misplaced tag order m"
  shows "\<exists>m'. setField tag value order m = Inr m'"
proof (cases "find_slot (fm_owned m) tag = length (fm_owned m)")
  case True
  with assms(1) find_slot_end[OF True] show ?thesis
    by (auto simp: setField_def Let_def OWNED_STORAGE_CAPACITY_def)
next
  case False
  let ?i = "find_slot (fm_owned m) tag"
  let ?m = "with_owned ((fm_owned m)[?i := assign_slot value (fm_owned m ! ?i)]) (fm_ownedCap m) m"
  have "\<not> misplaced tag order ?m" using assms(3) by (simp add: misplaced_def cong: option.case_cong)
  then have "lhm_lookup (fm_fields (insertFieldView tag (Own ?i (length value)) order ?m)) tag
      = Some (Own ?i (length value))"
    using assms(2) by (simp add: lhm_lookup_map_of insertFieldView_lookup)
  with False show ?thesis by (auto simp: setField_def Let_def)
qed

definition roomy :: "field_map \<Rightarrow> bool" where
  "roomy m \<longleftrightarrow> distinct (map fst (fm_owned m)) \<and> (fm_owned m = [] \<or> OWNED_STORAGE_CAPACITY \<le> fm_ownedCap m)"

lemma roomy_empty [simp]: "roomy empty_fm" "roomy (setSpec s m) = roomy m"
  by (simp_all add: roomy_def)

lemma setField_owned:
  assumes "setField tag value order m = Inr m'" "roomy m"
  shows "set (map fst (fm_owned m')) = insert tag (set (map fst (fm_owned m)))" "roomy m'"
proof -
  have "map fst (fm_owned m') = map fst (fm_owned m) \<and> tag \<in> set (map fst (fm_owned m)) \<and> fm_ownedCap m' = fm_ownedCap m
      \<or> map fst (fm_owned m') = map fst (fm_owned m) @ [tag] \<and> tag \<notin> set (map fst (fm_owned m))
        \<and> OWNED_STORAGE_CAPACITY \<le> fm_ownedCap m'"
  proof (cases "find_slot (fm_owned m) tag = length (fm_owned m)")
    case True
    with assms find_slot_end[OF True] show ?thesis
      by (auto simp: setField_def Let_def new_slot_def roomy_def split: if_splits)
  next
    case False
    let ?i = "find_slot (fm_owned m) tag"
    have i: "?i < length (fm_owned m)" using False find_slot_le[of "fm_owned m" tag] by simp
    have "map fst ((fm_owned m)[?i := assign_slot value (fm_owned m ! ?i)]) = map fst (fm_owned m)"
      using i by (simp add: map_update list_update_same_conv)
    moreover have "tag \<in> set (map fst (fm_owned m))"
      using find_slot_fst[OF False] i by (metis image_eqI list.set_map nth_mem)
    ultimately show ?thesis
      using setField_present(1)[OF False assms(1)] by simp
  qed
  then show "set (map fst (fm_owned m')) = insert tag (set (map fst (fm_owned m)))" "roomy m'"
    using assms(2) unfolding roomy_def by (elim disjE conjE; simp add: insert_absorb del: list.set_map)+
qed

lemma set_all_total:
  assumes "fm_wf m" "roomy m" "fm_spec m = Some s" "gs_ordered s" "distinct (gs_fieldOrder s)"
    "ordered_keys (gs_fieldOrder s) (lhm_keys (fm_fields m))"
    "set (map fst kvs) \<subseteq> set (gs_fieldOrder s)"
    "card (set (map fst (fm_owned m)) \<union> set (map fst kvs)) \<le> OWNED_STORAGE_CAPACITY"
  shows "\<exists>m'. set_all m kvs = Inr m'"
  using assms
proof (induction m kvs rule: set_all.induct)
  case (2 m k v kvs)
  let ?T = "set (map fst (fm_owned m))"
  have k: "k \<in> set (gs_fieldOrder s)" and ok: "lhm_ok (fm_fields m)"
    using "2.prems"(1,7) by (auto simp: fm_wf_def)
  note mis = insertFieldView_ordered(1)[OF ok "2.prems"(3-6) k]
  have "card (insert k ?T) \<le> card (?T \<union> set (map fst ((k, v) # kvs)))"
    by (intro card_mono) auto
  with "2.prems"(8) have "card (insert k ?T) \<le> OWNED_STORAGE_CAPACITY" by simp
  moreover have "length (fm_owned m) = card ?T"
    using "2.prems"(2) distinct_card[of "map fst (fm_owned m)"] by (simp add: roomy_def)
  ultimately have "length (fm_owned m) < fm_ownedCap m \<or> fm_owned m = [] \<or> k \<in> ?T"
    using "2.prems"(2) by (auto simp: roomy_def card_insert_if)
  from setField_total[OF this ok mis] obtain m1 where m1: "setField k v True m = Inr m1" ..
  note look = setField_lookup[OF "2.prems"(1) m1(1)]
  note ord = setField_ordered[OF "2.prems"(1) m1(1) "2.prems"(3-6) k]
  note own = setField_owned[OF m1 "2.prems"(2)]
  have "\<exists>m'. set_all m1 kvs = Inr m'"
    using "2.prems" m1 look(3) ord(1) setField_wf[OF "2.prems"(1) m1] own(2)
    by (intro "2.IH") (auto simp: own(1) simp del: set_map)
  with m1 show ?case by simp
qed simp

section \<open>Duplicate detection while parsing\<close>

text \<open>The bits mirror the fields below 1024 of a map filled through the parser only.\<close>

definition seen_ok :: "field_map \<Rightarrow> bool" where
  "seen_ok m \<longleftrightarrow> length (fm_seen m) = 16 \<and> lhm_ok (fm_fields m) \<and>
     (\<forall>t. 0 \<le> t \<and> t < 1024 \<longrightarrow>
        bit (fm_seen m ! (nat t div 64)) (nat t mod 64) = (t \<in> set (lhm_keys (fm_fields m))))"

lemma seen_ok_empty [simp]: "seen_ok empty_fm" "seen_ok (setSpec s m) = seen_ok m"
  "seen_ok (with_groups gs m) = seen_ok m"
proof -
  have "replicate 16 (0::64 word) ! (nat t div 64) = 0" if "t < 1024" "0 \<le> t" for t :: int
  proof -
    have "nat t < 1024" using that by simp
    then have "nat t div 64 < 16" by (simp add: less_mult_imp_div_less)
    then show ?thesis by (rule nth_replicate)
  qed
  then show "seen_ok empty_fm" unfolding seen_ok_def by (metis bit_0_eq bot_apply bot_bool_def
        empty_fm_sel(1,6) empty_iff length_replicate lhm_ok_Nil list.set(1) list.simps(8))
qed (simp_all add: seen_ok_def)

lemma word_index_less: "0 \<le> t \<Longrightarrow> t < 1024 \<Longrightarrow> nat t div 64 < (16::nat)" for t :: int
  by (simp add: less_mult_imp_div_less)

lemma word_index_eq:
  fixes t u :: int
  assumes "0 \<le> t" "0 \<le> u" "nat t div 64 = nat u div 64" "nat t mod 64 = nat u mod 64"
  shows "t = u"
proof -
  have "nat t = nat u" using assms(3,4) by (metis div_mult_mod_eq)
  with assms(1,2) show ?thesis by simp
qed

lemma setFieldViewOrDetectDup_cases:
  assumes ok: "seen_ok m"
  shows "snd (setFieldViewOrDetectDup tag v m) \<longleftrightarrow> tag \<in> set (lhm_keys (fm_fields m))"
    and "tag \<in> set (lhm_keys (fm_fields m)) \<Longrightarrow> fst (setFieldViewOrDetectDup tag v m) = m"
    and "tag \<notin> set (lhm_keys (fm_fields m)) \<Longrightarrow>
      fm_fields (fst (setFieldViewOrDetectDup tag v m)) = fm_fields m @ [(tag, Ext v)]"
    and "seen_ok (fst (setFieldViewOrDetectDup tag v m))"
proof -
  let ?r = "setFieldViewOrDetectDup tag v m" and ?ks = "set (lhm_keys (fm_fields m))"
  let ?w = "nat tag div 64" and ?b = "nat tag mod 64"
  have frame: "with_fields (fm_fields m) m = m" by (simp add: with_fields_def)
  show dup: "snd ?r \<longleftrightarrow> tag \<in> ?ks"
    using ok lhm_insert_fst[of "fm_fields m" tag "Ext v"]
    by (auto simp: setFieldViewOrDetectDup_def seen_ok_def Let_def split: prod.splits)
  show same: "fst ?r = m" if "tag \<in> ?ks"
    using that ok lhm_insert_fst[of "fm_fields m" tag "Ext v"] frame
    by (auto simp: setFieldViewOrDetectDup_def seen_ok_def Let_def split: prod.splits)
  show new: "fm_fields (fst ?r) = fm_fields m @ [(tag, Ext v)]" if "tag \<notin> ?ks"
    using that ok lhm_insert_fst[of "fm_fields m" tag "Ext v"]
    by (auto simp: setFieldViewOrDetectDup_def seen_ok_def Let_def lhm_push_back_unchecked_def
        split: prod.splits)
  show "seen_ok (fst ?r)"
  proof (cases "tag \<in> ?ks")
    case True
    with same ok show ?thesis by simp
  next
    case False
    have fields: "fm_fields (fst ?r) = fm_fields m @ [(tag, Ext v)]" using new False .
    have lok: "lhm_ok (fm_fields (fst ?r))"
      using ok False unfolding fields by (simp add: seen_ok_def lhm_ok_def)
    show ?thesis
    proof (cases "0 \<le> tag \<and> tag < 1024")
      case True
      have seen: "fm_seen (fst ?r) = (fm_seen m)[?w := set_bit ?b (fm_seen m ! ?w)]"
        using True False ok by (auto simp: setFieldViewOrDetectDup_def seen_ok_def Let_def)
      have w: "?w < length (fm_seen m)"
        using True ok word_index_less[of tag] by (simp add: seen_ok_def)
      have "bit (fm_seen (fst ?r) ! (nat t div 64)) (nat t mod 64) \<longleftrightarrow>
          t = tag \<or> bit (fm_seen m ! (nat t div 64)) (nat t mod 64)" if "0 \<le> t" "t < 1024" for t
      proof (cases "nat t div 64 = ?w")
        case same_word: True
        have "?b < LENGTH(64)" by simp
        then have "bit (set_bit ?b (fm_seen m ! ?w)) (nat t mod 64) \<longleftrightarrow>
            nat t mod 64 = ?b \<or> bit (fm_seen m ! ?w) (nat t mod 64)"
          by (auto simp: bit_set_bit_iff bit_simps)
        moreover have "nat t mod 64 = ?b \<longleftrightarrow> t = tag"
          using word_index_eq[OF that(1) _ same_word] True by auto
        ultimately show ?thesis by (simp add: seen same_word w)
      next
        case False
        then show ?thesis by (auto simp: seen)
      qed
      with lok ok fields seen show ?thesis by (auto simp: seen_ok_def)
    next
      case out: False
      then have "fm_seen (fst ?r) = fm_seen m"
        by (auto simp: setFieldViewOrDetectDup_def split: prod.splits)
      with lok ok fields out show ?thesis by (auto simp: seen_ok_def)
    qed
  qed
qed

lemma setFieldViewOrDetectDup_sel [simp]:
  "fm_owned (fst (setFieldViewOrDetectDup tag v m)) = fm_owned m"
  "fm_groups (fst (setFieldViewOrDetectDup tag v m)) = fm_groups m"
  "fm_spec (fst (setFieldViewOrDetectDup tag v m)) = fm_spec m"
  by (auto simp: setFieldViewOrDetectDup_def Let_def split: prod.split)

section \<open>Copies\<close>

lemma copy_fm_sel:
  "fm_fields (copy_fm m) =
     map (\<lambda>(i, (tag, v)). (tag, Own i (length (fv_read (fm_owned m) v)))) (enumerate 0 (fm_fields m))"
  "fm_owned (copy_fm m) = map (\<lambda>(tag, v). new_slot tag (fv_read (fm_owned m) v)) (fm_fields m)"
  "fm_groups (copy_fm m) = map (map_prod id (map copy_fm)) (fm_groups m)"
  "fm_spec (copy_fm m) = fm_spec m" "fm_seen (copy_fm m) = replicate 16 0"
  by (cases m; simp)+

text \<open>The text a field map shows: its tags with the text of each view.\<close>

definition shown :: "field_map \<Rightarrow> (int \<times> string) list" where
  "shown m = map (\<lambda>(k, v). (k, fv_read (fm_owned m) v)) (fm_fields m)"

lemma shown_copy: "shown (copy_fm m) = shown m"
proof (rule nth_equalityI)
  fix i
  assume "i < length (shown (copy_fm m))"
  then have i: "i < length (fm_fields m)" by (simp add: shown_def copy_fm_sel)
  obtain k v where kv: "fm_fields m ! i = (k, v)" by force
  show "shown (copy_fm m) ! i = shown m ! i"
    using i by (simp add: shown_def copy_fm_sel nth_enumerate_eq kv new_slot_def)
qed (simp add: shown_def copy_fm_sel)

lemma map_of_map_snd: "map_of (map (\<lambda>(k, v). (k, f v)) xs) k = map_option f (map_of xs k)"
  by (induction xs) auto

lemma getField_shown:
  "getField m k = (case map_of (shown m) k of Some s \<Rightarrow> Inr s | None \<Rightarrow> Inl (FieldNotFound k))"
  by (simp add: shown_def getField_map_of map_of_map_snd split: option.split)

lemma keys_shown: "map fst (shown m) = lhm_keys (fm_fields m)"
  by (simp add: shown_def case_prod_beta)

lemma getField_copy: "getField (copy_fm m) k = getField m k"
  by (simp add: getField_shown shown_copy)

lemma copy_fm_wf: "lhm_ok (fm_fields m) \<Longrightarrow> fm_wf (copy_fm m) \<and> roomy (copy_fm m)"
proof -
  assume ok: "lhm_ok (fm_fields m)"
  have "view_ok (fm_owned (copy_fm m)) (fm_fields (copy_fm m) ! i)" if "i < length (fm_fields m)" for i
  proof -
    obtain k v where "fm_fields m ! i = (k, v)" by force
    with that show ?thesis by (simp add: copy_fm_sel nth_enumerate_eq new_slot_def)
  qed
  moreover have "lhm_keys (fm_fields (copy_fm m)) = lhm_keys (fm_fields m)"
    using shown_copy[of m] by (metis keys_shown)
  moreover have "map fst (fm_owned (copy_fm m)) = lhm_keys (fm_fields m)"
    by (simp add: copy_fm_sel new_slot_def case_prod_beta)
  moreover have "OWNED_STORAGE_CAPACITY \<le> fm_ownedCap (copy_fm m)" by (cases m) simp
  moreover have "length (fm_fields (copy_fm m)) = length (fm_fields m)" "length (fm_seen (copy_fm m)) = 16"
    by (simp_all add: copy_fm_sel)
  ultimately show ?thesis
    using ok unfolding fm_wf_def roomy_def lhm_ok_def list_all_length by simp
qed

definition group_parts :: "bool \<Rightarrow> char \<Rightarrow> field_map \<Rightarrow> int \<Rightarrow> (string \<times> nat) list" where
  "group_parts skip soh m k =
     (case map_of (fm_groups m) k of None \<Rightarrow> [] | Some gs \<Rightarrow> map (appendGroup skip soh) gs)"

fun field_part :: "bool \<Rightarrow> char \<Rightarrow> (int \<Rightarrow> (string \<times> nat) list) \<Rightarrow> int \<times> string \<Rightarrow> string \<times> nat" where
  "field_part skip soh sub (k, s) =
     (if skip \<and> isIgnoredTag k then ([], 0)
      else (appendTagEq k @ s @ soh # concat (map fst (sub k)), Suc (sum_list (map snd (sub k)))))"

definition checksum_tail :: "bool \<Rightarrow> char \<Rightarrow> field_map \<Rightarrow> string" where
  "checksum_tail skip soh m =
     (if skip then [] else case getField m FIELD_CheckSum of
        Inr v \<Rightarrow> appendTagEq FIELD_CheckSum @ v @ [soh] | Inl _ \<Rightarrow> [])"

lemma appendGroup_parts:
  "appendGroup skip soh m =
     (let parts = map (field_part skip soh (group_parts skip soh m)) (shown m)
      in (concat (map fst parts) @ checksum_tail skip soh m, sum_list (map snd parts)))"
proof (cases "fm_fields m = []")
  case True
  then show ?thesis
    by (subst appendGroup.simps)
      (simp add: Let_def shown_def checksum_tail_def getField_shown fm_has_def)
next
  case False
  have parts: "map (\<lambda>(k, v). if skip \<and> isIgnoredTag k then ([], 0)
        else let subs = (case map_of (fm_groups m) k of None \<Rightarrow> [] | Some gs \<Rightarrow> map (appendGroup skip soh) gs)
          in (appendTagEq k @ fv_read (fm_owned m) v @ soh # concat (map fst subs), Suc (sum_list (map snd subs))))
      (fm_fields m) = map (field_part skip soh (group_parts skip soh m)) (shown m)"
    by (auto simp: shown_def group_parts_def Let_def)
  have tail: "(if \<not> skip \<and> fm_has m FIELD_CheckSum
        then appendTagEq FIELD_CheckSum @ (case getField m FIELD_CheckSum of Inr v \<Rightarrow> v | Inl _ \<Rightarrow> []) @ [soh]
        else []) = checksum_tail skip soh m"
    using map_of_eq_None_iff[of "fm_fields m" FIELD_CheckSum]
    by (auto simp: checksum_tail_def getField_map_of fm_has_def split: option.split)
  show ?thesis
    using False by (subst appendGroup.simps) (simp only: parts[unfolded Let_def] tail fm_empty_def Let_def, simp)
qed

lemma group_parts_copy:
  assumes "\<And>gs g. map_of (fm_groups m) k = Some gs \<Longrightarrow> g \<in> set gs \<Longrightarrow>
      appendGroup skip soh (copy_fm g) = appendGroup skip soh g"
  shows "group_parts skip soh (copy_fm m) k = group_parts skip soh m k"
  using assms by (auto simp: group_parts_def copy_fm_sel map_prod_def id_def map_of_map_snd split: option.split)

lemma appendGroup_copy: "appendGroup skip soh (copy_fm m) = appendGroup skip soh m"
proof (induction m)
  case (FieldMap fs ow cap grps sp sn)
  let ?m = "FieldMap fs ow cap grps sp sn"
  have "group_parts skip soh (copy_fm ?m) = group_parts skip soh ?m"
  proof (rule ext, rule group_parts_copy)
    fix k gs g
    assume "map_of (fm_groups ?m) k = Some gs" "g \<in> set gs"
    then have "(k, gs) \<in> set grps" by (simp add: map_of_SomeD)
    with FieldMap \<open>g \<in> set gs\<close> show "appendGroup skip soh (copy_fm g) = appendGroup skip soh g"
      by (force simp: snds.simps)
  qed
  moreover have "checksum_tail skip soh (copy_fm ?m) = checksum_tail skip soh ?m"
    by (simp only: checksum_tail_def getField_copy)
  ultimately show ?case by (simp only: appendGroup_parts shown_copy)
qed

section \<open>The layout of the wire text\<close>

text \<open>Two renderings of one message differ by the separator only: same length, same count, and
  byte sums that differ by the count times the difference of the separators.\<close>

definition sep_rel :: "char \<Rightarrow> string \<times> nat \<Rightarrow> string \<times> nat \<Rightarrow> bool" where
  "sep_rel soh p q \<longleftrightarrow> snd p = snd q \<and> length (fst p) = length (fst q) \<and>
     byte_sum (fst p) + of_nat (snd q) = byte_sum (fst q) + of_nat (snd q) * byte_of soh"

lemma byte_of_SOH: "byte_of SOH = 1"
  by code_simp

lemma sep_rel_Nil [simp]: "sep_rel soh ([], 0) ([], 0)"
  by (simp add: sep_rel_def)

lemma sep_rel_append:
  "sep_rel soh (a, i) (b, i') \<Longrightarrow> sep_rel soh (c, j) (d, j') \<Longrightarrow> sep_rel soh (a @ c, i + j) (b @ d, i' + j')"
  by (simp add: sep_rel_def algebra_simps)

lemma sep_rel_concat:
  "list_all2 (sep_rel soh) ps qs \<Longrightarrow>
   sep_rel soh (concat (map fst ps), sum_list (map snd ps)) (concat (map fst qs), sum_list (map snd qs))"
proof (induction rule: list_all2_induct)
  case (Cons p ps q qs)
  then show ?case using sep_rel_append[of soh "fst p" "snd p" "fst q" "snd q"] by simp
qed simp

lemma sep_rel_part:
  "list_all2 (sep_rel soh) (sub k) (sub' k) \<Longrightarrow>
   sep_rel soh (field_part skip soh sub (k, s)) (field_part skip SOH sub' (k, s))"
  using sep_rel_concat[of soh "sub k" "sub' k"]
  by (simp add: sep_rel_def byte_of_SOH algebra_simps)

lemma appendGroup_sep: "sep_rel soh (appendGroup True soh m) (appendGroup True SOH m)"
proof (induction m)
  case (FieldMap fs ow cap grps sp sn)
  let ?m = "FieldMap fs ow cap grps sp sn"
  have g: "list_all2 (sep_rel soh) (group_parts True soh ?m k) (group_parts True SOH ?m k)" for k
  proof (cases "map_of grps k")
    case (Some gs)
    then have "(k, gs) \<in> set grps" by (simp add: map_of_SomeD)
    with FieldMap have "sep_rel soh (appendGroup True soh g) (appendGroup True SOH g)" if "g \<in> set gs" for g
      using that by (force simp: snds.simps)
    with Some show ?thesis by (simp add: group_parts_def list_all2_conv_all_nth)
  qed (simp add: group_parts_def)
  have "list_all2 (sep_rel soh) (map (field_part True soh (group_parts True soh ?m)) (shown ?m))
      (map (field_part True SOH (group_parts True SOH ?m)) (shown ?m))"
    using sep_rel_part[where soh = soh and sub = "group_parts True soh ?m" and sub' = "group_parts True SOH ?m", OF g]
    unfolding list_all2_conv_all_nth by (simp del: field_part.simps) (metis prod.collapse)
  from sep_rel_concat[OF this] show ?case
    by (simp add: appendGroup_parts Let_def checksum_tail_def comp_def)
qed

lemma serialize_body_sep:
  "sep_rel soh (fst (serialize_body soh msg), snd (serialize_body soh msg) - 1)
     (fst (serialize_body SOH msg), snd (serialize_body SOH msg) - 1)
   \<and> snd (serialize_body soh msg) = snd (serialize_body SOH msg) \<and> 0 < snd (serialize_body soh msg)"
proof -
  let ?h = "appendGroup True soh (m_header msg)" and ?b = "appendGroup True soh (m_body msg)"
    and ?t = "appendGroup True soh (m_trailer msg)"
  let ?h' = "appendGroup True SOH (m_header msg)" and ?b' = "appendGroup True SOH (m_body msg)"
    and ?t' = "appendGroup True SOH (m_trailer msg)"
  have "sep_rel soh (fst ?h @ fst ?b @ fst ?t, snd ?h + (snd ?b + snd ?t))
      (fst ?h' @ fst ?b' @ fst ?t', snd ?h' + (snd ?b' + snd ?t'))"
    by (intro sep_rel_append) (simp_all add: appendGroup_sep)
  moreover have "snd ?h = snd ?h'" "snd ?b = snd ?b'" "snd ?t = snd ?t'"
    using appendGroup_sep by (simp_all add: sep_rel_def)
  ultimately show ?thesis by (simp add: serialize_body_def case_prod_beta add.assoc)
qed

lemma serialize_prefix_getField:
  "serialize_prefix soh msg =
     (case getField (m_header msg) FIELD_BeginString of Inr v \<Rightarrow> (''8='' @ v @ [soh], 1) | Inl _ \<Rightarrow> ([], 0))"
  by (simp add: serialize_prefix_def getField_def split: option.split)

text \<open>The text before the checksum field.\<close>

definition before_checksum :: "char \<Rightarrow> message \<Rightarrow> string" where
  "before_checksum soh msg =
     fst (serialize_prefix soh msg) @ ''9='' @ dec_int (wrap32 (int (length (fst (serialize_body soh msg)))))
       @ [soh] @ fst (serialize_body soh msg)"

lemma before_checksum_sum:
  "byte_sum (before_checksum soh msg) + of_nat (snd (serialize_body soh msg) + snd (serialize_prefix soh msg))
     = byte_sum (before_checksum SOH msg)
       + of_nat (snd (serialize_body soh msg) + snd (serialize_prefix soh msg)) * byte_of soh"
  and before_checksum_length: "length (before_checksum soh msg) = length (before_checksum SOH msg)"
proof -
  have p: "sep_rel soh (serialize_prefix soh msg) (serialize_prefix SOH msg)"
    by (simp add: serialize_prefix_def sep_rel_def byte_of_SOH algebra_simps split: option.split)
  obtain n where n: "snd (serialize_body soh msg) = Suc n"
    using serialize_body_sep by (metis gr0_implies_Suc)
  have b: "sep_rel soh (fst (serialize_body soh msg), n) (fst (serialize_body SOH msg), n)"
    using serialize_body_sep[of soh msg] n by (metis diff_Suc_1)
  show "byte_sum (before_checksum soh msg) + of_nat (snd (serialize_body soh msg) + snd (serialize_prefix soh msg))
     = byte_sum (before_checksum SOH msg)
       + of_nat (snd (serialize_body soh msg) + snd (serialize_prefix soh msg)) * byte_of soh"
    using p b by (simp add: before_checksum_def sep_rel_def n byte_of_SOH algebra_simps)
  show "length (before_checksum soh msg) = length (before_checksum SOH msg)"
    using p b by (simp add: before_checksum_def sep_rel_def)
qed

lemma serialize_eq:
  "serialize soh msg = before_checksum soh msg @ ''10='' @ formatChecksum (byte_sum (before_checksum SOH msg)) @ [soh]"
proof -
  let ?n = "snd (serialize_body soh msg) + snd (serialize_prefix soh msg)"
  have "(word_of_int (int ?n * (1 - int (of_char soh))) :: 8 word) = of_nat ?n * (1 - byte_of soh)"
    using of_nat_of_char[of soh, where 'a = "8 word"] by simp
  then have ck: "byte_sum (before_checksum soh msg) + word_of_int (int ?n * (1 - int (of_char soh)))
      = byte_sum (before_checksum SOH msg)"
    using before_checksum_sum[of soh msg] by (simp add: algebra_simps)
  have "serialize soh msg =
      (let c = (if soh \<noteq> SOH then byte_sum (before_checksum soh msg) + word_of_int (int ?n * (1 - int (of_char soh)))
                else byte_sum (before_checksum soh msg))
       in before_checksum soh msg @ ''10='' @ formatChecksum c @ [soh])"
    by (simp add: serialize_def before_checksum_def case_prod_beta Let_def computeChecksum_sum
        del: byte_sum_simps)
  then show ?thesis unfolding ck by (simp add: Let_def)
qed

section \<open>Properties\<close>

text \<open>C24: \<open>setField\<close> keeps a field map well formed (distinct tags, every view inside its storage),
  changes the value of its own tag only, and afterwards the tag reads as the value written, unless
  the tag is \<open>misplaced\<close>: present behind the position where the specification's order wants it.\<close>

theorem setField_writes_one_field:
  assumes "fm_wf m" and "setField tag value order m = Inr m'"
  shows "fm_wf m' \<and> (\<forall>k. k \<noteq> tag \<longrightarrow> getField m' k = getField m k)
    \<and> (\<not> misplaced tag order m \<longrightarrow> getField m' tag = Inr value)"
  using setField_wf[OF assms] setField_lookup(1,2)[OF assms] by blast

definition header_spec :: group_spec where
  "header_spec = mk_spec [(8, True), (9, True), (35, True), (49, True), (56, True), (34, True), (52, True)] []
     True [8, 9, 35, 49, 56, 34, 52]"

lemma setField_writes_one_field_witness:
  "getField (projr (setField 8 ''FIX.4.2'' True (setSpec (Some header_spec) empty_fm))) 8 = Inr ''FIX.4.2''"
proof -
  let ?m = "setSpec (Some header_spec) empty_fm"
  have "setField 8 ''FIX.4.2'' True ?m = Inr (projr (setField 8 ''FIX.4.2'' True ?m))"
    by (simp add: setField_def OWNED_STORAGE_CAPACITY_def)
  moreover have "\<not> misplaced 8 True ?m" by (simp add: misplaced_def)
  ultimately show ?thesis
    using setField_writes_one_field[of ?m 8 "''FIX.4.2''" True] by simp
qed

text \<open>C15: setting the fields of a map with an ordered specification, in any order and with
  repetitions, never fails while at most 16 different tags are set; the fields then stand in the
  dictionary's order, and each reads as the last value set.\<close>

theorem fields_in_dictionary_order:
  assumes "gs_ordered s" "distinct (gs_fieldOrder s)" "set (map fst kvs) \<subseteq> set (gs_fieldOrder s)"
    and "card (set (map fst kvs)) \<le> OWNED_STORAGE_CAPACITY"
  shows "\<exists>m. set_all (setSpec (Some s) empty_fm) kvs = Inr m
    \<and> lhm_keys (fm_fields m) = filter (\<lambda>t. t \<in> set (map fst kvs)) (gs_fieldOrder s)
    \<and> (\<forall>k. getField m k = (case map_of (rev kvs) k of Some v \<Rightarrow> Inr v | None \<Rightarrow> Inl (FieldNotFound k)))"
proof -
  let ?m = "setSpec (Some s) empty_fm"
  have ord: "ordered_keys (gs_fieldOrder s) (lhm_keys (fm_fields ?m))" by (simp add: ordered_keys_def)
  obtain m where m: "set_all ?m kvs = Inr m"
    using set_all_total[of ?m s kvs] assms ord by auto
  have "getField ?m k = Inl (FieldNotFound k)" for k by (simp add: getField_map_of)
  with set_all_ordered[of ?m s kvs m] assms ord m
  have "\<forall>k. getField m k = (case map_of (rev kvs) k of Some v \<Rightarrow> Inr v | None \<Rightarrow> Inl (FieldNotFound k))"
    by (simp cong: option.case_cong)
  moreover have "lhm_keys (fm_fields m) = filter (\<lambda>t. t \<in> set (map fst kvs)) (gs_fieldOrder s)"
    using set_all_ordered[of ?m s kvs m] assms ord m by (simp add: ordered_keys_def)
  ultimately show ?thesis using m by blast
qed

lemma fields_in_dictionary_order_witness:
  "\<exists>m. set_all (setSpec (Some header_spec) empty_fm) [(34, ''7''), (8, ''FIX.4.2''), (34, ''8'')] = Inr m
    \<and> lhm_keys (fm_fields m) = [8, 34] \<and> getField m 34 = Inr ''8''"
  using fields_in_dictionary_order[of header_spec "[(34, ''7''), (8, ''FIX.4.2''), (34, ''8'')]"]
  by (auto simp: header_spec_def OWNED_STORAGE_CAPACITY_def card_insert_if)

text \<open>The parser's combined check-and-insert reports a tag as a duplicate exactly when the
  field map already has it, keeps the first value then, appends the field otherwise, and its bitset
  keeps agreeing with the fields.\<close>

theorem duplicate_detection:
  assumes "seen_ok m" and "setFieldViewOrDetectDup tag v m = (m', dup)"
  shows "seen_ok m' \<and> (dup \<longleftrightarrow> fm_has m tag)
    \<and> fm_fields m' = (if dup then fm_fields m else fm_fields m @ [(tag, Ext v)])"
  using setFieldViewOrDetectDup_cases[OF assms(1), of tag v] assms(2) by (auto simp: fm_has_def)

lemma duplicate_detection_witness:
  "snd (setFieldViewOrDetectDup 35 ''A'' (fst (setFieldViewOrDetectDup 35 ''0'' empty_fm)))"
  using duplicate_detection[OF seen_ok_empty(1), of 35 "''0''"]
    duplicate_detection[of "fst (setFieldViewOrDetectDup 35 ''0'' empty_fm)" 35 "''A''"]
  by (cases "setFieldViewOrDetectDup 35 ''0'' empty_fm",
      cases "setFieldViewOrDetectDup 35 ''A'' (fst (setFieldViewOrDetectDup 35 ''0'' empty_fm))")
    (auto simp: fm_has_def)

text \<open>copying a message detaches it from every buffer its views pointed into: the copy's
  views all lie in its own storage, and it reads and serializes as the original, groups included.\<close>

theorem copy_is_detached:
  assumes "lhm_ok (fm_fields (m_body msg))"
  shows "fm_wf (m_body (copy_message msg))
    \<and> (\<forall>(k, v)\<in>set (fm_fields (m_body (copy_message msg))). \<exists>i n. v = Own i n)
    \<and> (\<forall>k. getField (m_body (copy_message msg)) k = getField (m_body msg) k)
    \<and> (\<forall>internal. toString internal (copy_message msg) = toString internal msg)"
proof -
  have "serialize soh (copy_message msg) = serialize soh msg" for soh
    by (simp add: serialize_def serialize_body_def serialize_prefix_getField copy_message_def
        appendGroup_copy getField_copy)
  then show ?thesis
    using copy_fm_wf[OF assms] by (auto simp: copy_message_def getField_copy copy_fm_sel toString_def)
qed

lemma copy_is_detached_witness:
  "toString True (copy_message (empty_message\<lparr>m_body := setFieldView 35 ''0'' True empty_fm\<rparr>))
    = toString True (empty_message\<lparr>m_body := setFieldView 35 ''0'' True empty_fm\<rparr>)"
  using copy_is_detached[of "empty_message\<lparr>m_body := setFieldView 35 ''0'' True empty_fm\<rparr>"]
  by (simp add: setFieldView_def insertFieldView_def lhm_ok_def)

text \<open>C14: the wire text of a message is \<open>8=<BeginString>\<close> when the header has it, \<open>9=\<close> and the
  number of bytes of the body section, the body section, and \<open>10=\<close> with three digits: the sum of
  all bytes before it modulo 256.\<close>

theorem wire_layout:
  assumes "length (fst (serialize_body SOH msg)) < 2147483648"
  shows "\<exists>front ck. toString True msg = front @ ''10='' @ ck @ [SOH]
    \<and> front = (case getField (m_header msg) FIELD_BeginString of Inr v \<Rightarrow> ''8='' @ v @ [SOH] | Inl _ \<Rightarrow> [])
        @ ''9='' @ dec_nat (length (fst (serialize_body SOH msg))) @ [SOH] @ fst (serialize_body SOH msg)
    \<and> length ck = 3 \<and> digits_val ck = sum_list (map of_char front) mod 256"
proof -
  have "before_checksum SOH msg =
      (case getField (m_header msg) FIELD_BeginString of Inr v \<Rightarrow> ''8='' @ v @ [SOH] | Inl _ \<Rightarrow> [])
        @ ''9='' @ dec_nat (length (fst (serialize_body SOH msg))) @ [SOH] @ fst (serialize_body SOH msg)"
    using assms
    by (simp add: before_checksum_def serialize_prefix_getField dec_int_def is_int32_def split: sum.split)
  moreover have "toString True msg = before_checksum SOH msg @ ''10=''
      @ formatChecksum (byte_sum (before_checksum SOH msg)) @ [SOH]"
    by (simp add: toString_def serialize_eq)
  moreover have "digits_val (formatChecksum (byte_sum (before_checksum SOH msg)))
      = sum_list (map of_char (before_checksum SOH msg)) mod 256"
    by (simp add: unat_byte_sum)
  ultimately show ?thesis using formatChecksum_length by blast
qed

lemma wire_layout_witness:
  "\<exists>front ck. toString True empty_message = front @ ''10='' @ ck @ [SOH] \<and> length ck = 3
    \<and> digits_val ck = sum_list (map of_char front) mod 256"
proof -
  have "length (fst (serialize_body SOH empty_message)) < 2147483648"
    by (simp add: serialize_body_def empty_message_def appendGroup_parts shown_def checksum_tail_def)
  from wire_layout[OF this] show ?thesis by blast
qed

text \<open>The external rendering (separator \<open>|\<close>) shows the same BodyLength and the same checksum as
  the text sent on the wire, and has the same length.\<close>

theorem external_rendering:
  "\<exists>wire shown ck. toString True msg = wire @ ''10='' @ ck @ [SOH]
     \<and> toString False msg = shown @ ''10='' @ ck @ [BAR]
     \<and> length shown = length wire
     \<and> length (fst (serialize_body BAR msg)) = length (fst (serialize_body SOH msg))"
proof -
  have "length (fst (serialize_body BAR msg)) = length (fst (serialize_body SOH msg))"
    using serialize_body_sep[of BAR msg] by (simp add: sep_rel_def)
  then show ?thesis
    using before_checksum_length[of BAR msg]
    by (intro exI[of _ "before_checksum SOH msg"] exI[of _ "before_checksum BAR msg"]
        exI[of _ "formatChecksum (byte_sum (before_checksum SOH msg))"])
      (simp add: toString_def serialize_eq)
qed

end

