(* ===== verification/ParserFacts.thy ===== *)
theory ParserFacts
  imports FixDictionary MessageFacts
begin

text \<open>
  What the parser of \<open>FixDictionary\<close> does with well-formed text: the run over a list of fields, the
  transitions from header to body to trailer, the checks at the end; then the round trip with the
  serializer, the rejection of inconsistent messages, and the behaviours that lose or refuse data.
\<close>

section \<open>Reading one field\<close>

lemma fastParseTag_dec_nat: "n < 2147483648 \<Longrightarrow> fastParseTag (dec_nat n) = int n"
proof -
  have "foldl (\<lambda>v c. wrap32 (v * 10 + int (digit_val c))) 0 (dec_nat n) = int n" if "n < 2147483648" for n
    using that
  proof (induction n rule: dec_nat.induct)
    case (1 n)
    show ?case
    proof (cases "n < 10")
      case True
      then show ?thesis by (subst dec_nat.simps) (simp add: is_int32_def)
    next
      case False
      have "n div 10 < 2147483648" using "1.prems" by simp
      with False "1.IH" have "foldl (\<lambda>v c. wrap32 (v * 10 + int (digit_val c))) 0 (dec_nat (n div 10)) = int (n div 10)"
        by simp
      moreover have "int (n div 10) * 10 + int (n mod 10) = int n"
        by (metis mult_div_mod_eq mult.commute of_nat_add of_nat_mult of_nat_numeral)
      moreover have "is_int32 (int n)" using "1.prems" by (simp add: is_int32_def)
      ultimately show ?thesis
        using False by (subst dec_nat.simps) simp
    qed
  qed
  then show "n < 2147483648 \<Longrightarrow> fastParseTag (dec_nat n) = int n"
    using dec_nat_digits[of n] by (simp add: fastParseTag_def)
qed

definition good_field :: "dictionary \<Rightarrow> int \<times> string \<Rightarrow> bool" where
  "good_field d kv \<longleftrightarrow> 0 \<le> fst kv \<and> fst kv < 2147483648 \<and> SOH \<notin> set (snd kv)
     \<and> getFieldType d (fst kv) \<noteq> FT_DATA
     \<and> (getFieldType d (fst kv) = FT_LENGTH \<longrightarrow> 0 \<le> fastParseTag (snd kv))"

definition field_text :: "int \<times> string \<Rightarrow> string" where
  "field_text kv = appendTagEq (fst kv) @ snd kv @ [SOH]"

definition fields_text :: "(int \<times> string) list \<Rightarrow> string" where
  "fields_text kvs = concat (map field_text kvs)"

lemma fields_text_simps [simp]:
  "fields_text [] = []" "fields_text (kv # kvs) = field_text kv @ fields_text kvs"
  "fields_text (a @ b) = fields_text a @ fields_text b"
  by (simp_all add: fields_text_def)

definition first_ok :: "nat \<Rightarrow> int \<Rightarrow> bool" where
  "first_ok n tag \<longleftrightarrow> (n = 0 \<longrightarrow> tag = FIELD_BeginString) \<and> (n = 1 \<longrightarrow> tag = FIELD_BodyLength)
     \<and> (n = 2 \<longrightarrow> tag = FIELD_MsgType)"

text \<open>The state in which a field is dispatched.\<close>

definition at_field :: "int \<Rightarrow> parser \<Rightarrow> parser" where
  "at_field tag st = st\<lparr>p_tag := tag, p_tagCount := Suc (p_tagCount st), p_dataLength := -1\<rparr>"

text \<open>A field that the loop reads up to the next separator; a good one has a parsable LENGTH too.\<close>

definition plain_field :: "dictionary \<Rightarrow> int \<times> string \<Rightarrow> bool" where
  "plain_field d kv \<longleftrightarrow> 0 \<le> fst kv \<and> fst kv < 2147483648 \<and> SOH \<notin> set (snd kv) \<and> getFieldType d (fst kv) \<noteq> FT_DATA"

lemma parse_loop_plain:
  assumes "plain_field d (k, v)"
  shows "parse_loop cfg d text (field_text (k, v) @ rest) st =
    sbind (check_first_fields cfg k (st\<lparr>p_tag := k\<rparr>)) (\<lambda>st.
      sbind (dispatchField cfg d k v (length text - length rest - 1) ((bump st)\<lparr>p_dataLength := -1\<rparr>))
        (\<lambda>st. parse_loop cfg d text rest st))"
proof -
  have k: "dec_int k = dec_nat (nat k)" "int (nat k) = k" "nat k < 2147483648"
    using assms(1) by (auto simp: plain_field_def dec_int_def)
  have t: "fastParseTag (dec_int k) = k" using fastParseTag_dec_nat[OF k(3)] k by simp
  have split1: "break_at EQCH (field_text (k, v) @ rest) = Some (dec_int k, v @ SOH # rest)"
    by (simp add: field_text_def appendTagEq_eq break_at_append)
  have split2: "break_at SOH (v @ SOH # rest) = Some (v, rest)"
    using assms(1) by (simp add: plain_field_def break_at_append)
  have "(field_text (k, v) @ rest = []) = False" "\<not> k < 0" "getFieldType d k \<noteq> FT_DATA"
    using assms(1) by (auto simp: field_text_def plain_field_def)
  then show ?thesis
    by (subst parse_loop.simps) (simp add: split1 split2 t Let_def del: append_is_Nil_conv)
qed

lemma parse_loop_field:
  assumes "good_field d (k, v)" "first_ok (p_tagCount st) k"
  shows "parse_loop cfg d text (field_text (k, v) @ rest) st =
    sbind (dispatchField cfg d k v (length text - length rest - 1) (at_field k st))
      (\<lambda>st. parse_loop cfg d text rest st)"
proof -
  have "plain_field d (k, v)" using assms(1) by (simp add: good_field_def plain_field_def)
  moreover have "check_first_fields cfg k (st\<lparr>p_tag := k\<rparr>) = Inr (st\<lparr>p_tag := k\<rparr>)"
    using assms(2) by (auto simp: check_first_fields_def first_ok_def)
  moreover have "bump (st\<lparr>p_tag := k\<rparr>)\<lparr>p_dataLength := -1\<rparr> = at_field k st"
    by (simp add: bump_def at_field_def)
  ultimately show ?thesis by (simp add: parse_loop_plain)
qed

section \<open>A run of fields in one part of the message\<close>

abbreviation push :: "int \<Rightarrow> string \<Rightarrow> field_map \<Rightarrow> field_map" where
  "push k v m \<equiv> fst (setFieldViewOrDetectDup k v m)"

fun push_all :: "(int \<times> string) list \<Rightarrow> field_map \<Rightarrow> field_map" where
  "push_all [] m = m"
| "push_all ((k, v) # kvs) m = push_all kvs (push k v m)"

lemma part_get_set [simp]: "part_get p (part_set p m st) = m"
  "part_get p (st\<lparr>p_dataLength := x\<rparr>) = part_get p st"
  "part_get p (st\<lparr>p_bodyLengthStart := y\<rparr>) = part_get p st"
  by (cases p; simp)+

lemma part_set_sel [simp]:
  "p_stack (part_set p m st) = p_stack st" "p_msgState (part_set p m st) = p_msgState st"
  "p_tag (part_set p m st) = p_tag st" "p_tagCount (part_set p m st) = p_tagCount st"
  "p_bodyLengthStart (part_set p m st) = p_bodyLengthStart st"
  "p_dataLength (part_set p m st) = p_dataLength st"
  by (cases p; simp)+

lemma deref_root [simp]: "deref (p, []) st = part_get p st"
  by (simp add: deref_def)

lemma assign_root [simp]: "assign_ref (p, []) m st = part_set p m st"
  by (simp add: assign_ref_def)

lemma root_info_sel [simp]:
  "gi_spec (root_info s p) = s" "gi_group (root_info s p) = (p, [])" "gi_tag (root_info s p) = 0"
  "gi_count (root_info s p) = 0" "gi_max (root_info s p) = 0"
  by (simp_all add: root_info_def)

lemma note_length_good:
  assumes "good_field d (k, v)"
  obtains x where "note_length cfg d k v st = Inr (st\<lparr>p_dataLength := x\<rparr>)"
proof (cases "getFieldType d k = FT_LENGTH")
  case True
  with assms that show thesis by (simp add: note_length_def good_field_def)
next
  case False
  with that[of "p_dataLength st"] show thesis by (simp add: note_length_def)
qed

lemma trySetField_new:
  assumes "good_field d (k, v)" "hasField s k" "seen_ok (part_get p st)"
    "k \<notin> set (lhm_keys (fm_fields (part_get p st)))"
  obtains x where "trySetField cfg d (root_info s p) i k v e st =
    Inr (Some i, note_bodyLength k e ((part_set p (push k v (part_get p st)) st)\<lparr>p_dataLength := x\<rparr>))"
proof -
  obtain m dup where r: "setFieldViewOrDetectDup k v (part_get p st) = (m, dup)" by force
  with setFieldViewOrDetectDup_cases(1)[OF assms(3), of k v] assms(4) have "\<not> dup" by simp
  moreover obtain x where "note_length cfg d k v (part_set p m st) = Inr ((part_set p m st)\<lparr>p_dataLength := x\<rparr>)"
    by (rule note_length_good[OF assms(1)])
  ultimately show thesis using that[of x] r assms(2) by (simp add: trySetField_def)
qed

definition not_in_spec :: "group_spec \<Rightarrow> int \<Rightarrow> bool" where
  "not_in_spec s k \<longleftrightarrow> \<not> hasField s k \<and> findGroup s k = None"

lemma trySetField_unknown:
  "not_in_spec (gi_spec g) k \<Longrightarrow> trySetField cfg d g i k v e st = Inr (None, st)"
  by (simp add: trySetField_def not_in_spec_def)

lemma hasField_not_empty: "spec_built s \<Longrightarrow> hasField s k \<Longrightarrow> \<not> spec_empty s"
  by (auto simp: hasField_built spec_empty_def)

lemma dispatch_known:
  assumes "good_field d (k, v)" "spec_built s" "hasField s k" "seen_ok (part_get p st)"
    "k \<notin> set (lhm_keys (fm_fields (part_get p st)))" "p_stack st = [root_info s p]"
  obtains x where "dispatchField cfg d k v e st =
    Inr (note_bodyLength k e ((part_set p (push k v (part_get p st)) st)\<lparr>p_dataLength := x\<rparr>))"
proof -
  obtain x where t: "trySetField cfg d (root_info s p) 0 k v e st =
      Inr (Some 0, note_bodyLength k e ((part_set p (push k v (part_get p st)) st)\<lparr>p_dataLength := x\<rparr>))"
    by (rule trySetField_new[OF assms(1,3-5)])
  have "overwriteStack cfg 1 st' = Inr st'" if "p_stack st' = p_stack st" for st'
    using that assms(6) by (subst overwriteStack.simps) simp
  then show thesis
    using that[of x] t assms hasField_not_empty[OF assms(2,3)]
    by (simp add: dispatchField_def curInfo_def note_bodyLength_def)
qed

definition after_fields :: "msg_part \<Rightarrow> (int \<times> string) list \<Rightarrow> int \<Rightarrow> parser \<Rightarrow> parser" where
  "after_fields p kvs x st =
     (part_set p (push_all kvs (part_get p st)) st)
       \<lparr>p_tag := (if kvs = [] then p_tag st else fst (last kvs)),
        p_tagCount := p_tagCount st + length kvs, p_dataLength := x\<rparr>"

fun firsts_ok :: "nat \<Rightarrow> (int \<times> string) list \<Rightarrow> bool" where
  "firsts_ok n [] = True"
| "firsts_ok n (kv # kvs) = (first_ok n (fst kv) \<and> firsts_ok (Suc n) kvs)"

lemma firsts_ok_later: "3 \<le> n \<Longrightarrow> firsts_ok n kvs"
  by (induction kvs arbitrary: n) (auto simp: first_ok_def)

lemma push_all_ok:
  "seen_ok m \<Longrightarrow> distinct (map fst kvs) \<Longrightarrow> set (map fst kvs) \<inter> set (lhm_keys (fm_fields m)) = {} \<Longrightarrow>
   seen_ok (push_all kvs m) \<and> fm_fields (push_all kvs m) = fm_fields m @ map (\<lambda>(k, v). (k, Ext v)) kvs
   \<and> fm_groups (push_all kvs m) = fm_groups m \<and> fm_spec (push_all kvs m) = fm_spec m
   \<and> fm_owned (push_all kvs m) = fm_owned m"
proof (induction kvs m rule: push_all.induct)
  case (2 k v kvs m)
  then have k: "k \<notin> set (lhm_keys (fm_fields m))" by auto
  note c = setFieldViewOrDetectDup_cases(3,4)[OF "2.prems"(1), of k v]
  from c(1)[OF k] c(2) "2.prems" k
  have "seen_ok (push_all kvs (push k v m)) \<and>
      fm_fields (push_all kvs (push k v m)) = fm_fields (push k v m) @ map (\<lambda>(k, v). (k, Ext v)) kvs
      \<and> fm_groups (push_all kvs (push k v m)) = fm_groups (push k v m)
      \<and> fm_spec (push_all kvs (push k v m)) = fm_spec (push k v m)
      \<and> fm_owned (push_all kvs (push k v m)) = fm_owned (push k v m)"
    by (intro "2.IH") auto
  with c(1)[OF k] show ?case by simp
qed simp

lemma run_fields:
  assumes "spec_built s" "p_stack st = [root_info s p]" "seen_ok (part_get p st)"
    "\<forall>kv\<in>set kvs. good_field d kv \<and> hasField s (fst kv) \<and> fst kv \<noteq> FIELD_BodyLength"
    "distinct (map fst kvs)" "set (map fst kvs) \<inter> set (lhm_keys (fm_fields (part_get p st))) = {}"
    "firsts_ok (p_tagCount st) kvs"
  shows "\<exists>x. parse_loop cfg d text (fields_text kvs @ rest) st =
      parse_loop cfg d text rest (after_fields p kvs x st)"
  using assms
proof (induction kvs arbitrary: st)
  case Nil
  have "after_fields p [] (p_dataLength st) st = st" by (cases p) (simp_all add: after_fields_def)
  then show ?case by (metis append_Nil fields_text_simps(1))
next
  case (Cons kv kvs)
  obtain k v where kv: "kv = (k, v)" by force
  let ?at = "at_field k st"
  have pg: "part_get p ?at = part_get p st" by (cases p) (simp_all add: at_field_def)
  have k: "k \<notin> set (lhm_keys (fm_fields (part_get p st)))" using Cons.prems kv by auto
  have gf: "good_field d (k, v)" "hasField s k" "k \<noteq> FIELD_BodyLength" using Cons.prems(4) kv by auto
  let ?e = "length text - length (fields_text kvs @ rest) - 1"
  have at: "p_stack ?at = [root_info s p]" "seen_ok (part_get p ?at)"
    "k \<notin> set (lhm_keys (fm_fields (part_get p ?at)))"
    using Cons.prems(2,3) pg k by (simp_all add: at_field_def)
  obtain x where "dispatchField cfg d k v ?e ?at =
      Inr (note_bodyLength k ?e ((part_set p (push k v (part_get p ?at)) ?at)\<lparr>p_dataLength := x\<rparr>))"
    by (rule dispatch_known[OF gf(1) Cons.prems(1) gf(2) at(2,3,1)])
  then have disp: "dispatchField cfg d k v ?e ?at =
      Inr ((part_set p (push k v (part_get p st)) ?at)\<lparr>p_dataLength := x\<rparr>)"
    using gf(3) by (simp add: note_bodyLength_def pg)
  let ?st1 = "(part_set p (push k v (part_get p st)) ?at)\<lparr>p_dataLength := x\<rparr>"
  have step: "parse_loop cfg d text (fields_text (kv # kvs) @ rest) st =
      parse_loop cfg d text (fields_text kvs @ rest) ?st1"
    using parse_loop_field[OF gf(1), of st cfg "text" "fields_text kvs @ rest"] Cons.prems(7) kv disp by simp
  note c = setFieldViewOrDetectDup_cases(3,4)[OF Cons.prems(3), of k v]
  have fields: "fm_fields (push k v (part_get p st)) = fm_fields (part_get p st) @ [(k, Ext v)]"
    using c(1) k by blast
  have "\<exists>y. parse_loop cfg d text (fields_text kvs @ rest) ?st1 =
      parse_loop cfg d text rest (after_fields p kvs y ?st1)"
  proof (rule Cons.IH[OF Cons.prems(1)])
    show "p_stack ?st1 = [root_info s p]" using Cons.prems(2) by (simp add: at_field_def)
    show "seen_ok (part_get p ?st1)" using c(2) by simp
    show "set (map fst kvs) \<inter> set (lhm_keys (fm_fields (part_get p ?st1))) = {}"
      using Cons.prems(5,6) kv by (auto simp: fields)
    show "firsts_ok (p_tagCount ?st1) kvs" using Cons.prems(7) by (simp add: at_field_def)
  qed (use Cons.prems(4,5) in auto)
  moreover have "after_fields p kvs y ?st1 = after_fields p (kv # kvs) y st" for y
    by (cases p) (auto simp: after_fields_def at_field_def kv)
  ultimately show ?case using step by metis
qed

section \<open>From part to part\<close>

definition required_ok :: "parse_settings \<Rightarrow> group_spec \<Rightarrow> int list \<Rightarrow> bool" where
  "required_ok cfg s ks \<longleftrightarrow> validateRequired cfg \<longrightarrow> (\<forall>(k, r)\<in>set (gs_fields s). r \<longrightarrow> k \<in> set ks)"

lemma check_required_ok:
  "\<forall>(k, r)\<in>set fs. r \<longrightarrow> fm_has m k \<Longrightarrow> check_required cfg fs m = Inr ()"
  by (induction cfg fs m rule: check_required.induct) auto

lemma validateGroup_ok:
  assumes "\<not> reorderTags cfg" "required_ok cfg s (lhm_keys (fm_fields (part_get p st)))"
  shows "validateGroup cfg (p, []) s st = Inr (part_set p (setSpec (Some s) (part_get p st)) st)"
  using assms check_required_ok[of "gs_fields s" "setSpec (Some s) (part_get p st)" cfg]
  by (auto simp: validateGroup_def Let_def required_ok_def fm_has_def)

lemma overwriteStack_root:
  assumes "\<not> reorderTags cfg" "required_ok cfg s (lhm_keys (fm_fields (part_get p st)))"
    "p_stack st = [root_info s p]"
  shows "overwriteStack cfg 0 st = Inr ((part_set p (setSpec (Some s) (part_get p st)) st)\<lparr>p_stack := []\<rparr>)"
  using assms(3) validateGroup_ok[OF assms(1,2)]
  by (subst overwriteStack.simps, simp) (subst overwriteStack.simps, simp)

lemma overwriteStack_keep: "length (p_stack st) \<le> n \<Longrightarrow> overwriteStack cfg n st = Inr st"
  by (subst overwriteStack.simps) simp

text \<open>The parser inside one part of the message, with the contents of the three field maps.\<close>

definition inside ::
    "msg_part \<Rightarrow> group_spec \<Rightarrow> message_state \<Rightarrow> field_map \<times> field_map \<times> field_map \<Rightarrow> int \<Rightarrow> parser \<Rightarrow> bool" where
  "inside p s ms maps B st \<longleftrightarrow> p_stack st = [root_info s p] \<and> p_msgState st = ms
     \<and> (p_header st, p_body st, p_trailer st) = maps \<and> p_bodyLengthStart st = B \<and> 3 \<le> p_tagCount st"

lemma dispatch_leaves_root:
  assumes "p_stack st = [root_info s p]" "not_in_spec s k"
  shows "dispatchField cfg d k v e st = leave_header cfg d k v e st"
  using assms trySetField_unknown[of "root_info s p" k cfg d 0 v e st]
  by (simp add: dispatchField_def curInfo_def)

lemma enter_body_ok:
  assumes "\<not> reorderTags cfg" "required_ok cfg hs (lhm_keys (fm_fields h))"
    "inside PartHeader hs HEADER (h, b, t) B st" "getField h FIELD_MsgType = Inr mt"
    "getMessageSpecRaw d mt = Some bs"
  shows "\<exists>st'. enter_body cfg d st = Inr st' \<and> inside PartBody bs BODY (setSpec (Some hs) h, b, t) B st'
    \<and> p_dataLength st' = p_dataLength st \<and> p_tag st' = p_tag st"
proof -
  from assms(3) have st: "p_stack st = [root_info hs PartHeader]" "p_header st = h"
    by (simp_all add: inside_def)
  have "getField (setSpec (Some hs) h) FIELD_MsgType = Inr mt"
    using assms(4) by (simp add: getField_def split: option.splits)
  then show ?thesis
    using overwriteStack_root[OF assms(1), of hs PartHeader st] assms st
    by (simp add: enter_body_def inside_def)
qed

lemma to_trailer:
  assumes "\<not> reorderTags cfg" "inside PartBody bs BODY (h, b, t) B st"
    "required_ok cfg bs (lhm_keys (fm_fields b))" "good_field d (k, v)" "hasField (d_trailerSpec d) k"
    "k \<noteq> FIELD_BodyLength" "seen_ok t" "k \<notin> set (lhm_keys (fm_fields t))"
  shows "\<exists>st'. body_or_trailer cfg d k v e st = Inr st'
    \<and> inside PartTrailer (d_trailerSpec d) TRAILER (h, setSpec (Some bs) b, push k v t) B st' \<and> p_tag st' = p_tag st"
proof -
  from assms(2) have st: "p_stack st = [root_info bs PartBody]" "p_msgState st = BODY" "p_body st = b"
    "p_trailer st = t" "p_header st = h" "p_bodyLengthStart st = B" "3 \<le> p_tagCount st"
    by (simp_all add: inside_def)
  let ?ts = "d_trailerSpec d"
  obtain x where trs: "trySetField cfg d (root_info ?ts PartTrailer) 0 k v e st =
      Inr (Some 0, note_bodyLength k e ((part_set PartTrailer (push k v (part_get PartTrailer st)) st)\<lparr>p_dataLength := x\<rparr>))"
    using assms(4,5,7,8) st(4) by (rule_tac trySetField_new[of d k v ?ts PartTrailer st]) simp_all
  let ?st1 = "(part_set PartTrailer (push k v t) st)\<lparr>p_dataLength := x\<rparr>"
  have "validateGroup cfg (PartBody, []) bs ?st1 = Inr (part_set PartBody (setSpec (Some bs) b) ?st1)"
    using validateGroup_ok[OF assms(1), of bs PartBody ?st1] assms(3) st by simp
  then show ?thesis
    using trs st assms(6)
    by (simp add: body_or_trailer_def try_trailer_def note_bodyLength_def overwriteStack_keep inside_def)
qed

lemma inside_at_field [simp]: "inside p s ms maps B st \<Longrightarrow> inside p s ms maps B (at_field k st)"
  by (simp add: inside_def at_field_def)

text \<open>Fields of the current part.\<close>

definition put_part :: "msg_part \<Rightarrow> field_map \<Rightarrow> field_map \<times> field_map \<times> field_map \<Rightarrow> field_map \<times> field_map \<times> field_map" where
  "put_part p m maps = (case maps of (h, b, t) \<Rightarrow>
     (case p of PartHeader \<Rightarrow> (m, b, t) | PartBody \<Rightarrow> (h, m, t) | PartTrailer \<Rightarrow> (h, b, m)))"

definition fields_ok :: "dictionary \<Rightarrow> group_spec \<Rightarrow> (int \<times> string) list \<Rightarrow> bool" where
  "fields_ok d s kvs \<longleftrightarrow> spec_built s \<and> distinct (map fst kvs)
     \<and> (\<forall>kv\<in>set kvs. good_field d kv \<and> hasField s (fst kv) \<and> fst kv \<noteq> FIELD_BodyLength)"

lemma run_inside:
  assumes "inside p s ms maps B st" "fields_ok d s kvs" "seen_ok (part_get p st)"
    "set (map fst kvs) \<inter> set (lhm_keys (fm_fields (part_get p st))) = {}"
  shows "\<exists>st'. parse_loop cfg d text (fields_text kvs @ rest) st = parse_loop cfg d text rest st'
    \<and> inside p s ms (put_part p (push_all kvs (part_get p st)) maps) B st'
    \<and> p_tag st' = (if kvs = [] then p_tag st else fst (last kvs))"
proof -
  obtain x where "parse_loop cfg d text (fields_text kvs @ rest) st =
      parse_loop cfg d text rest (after_fields p kvs x st)"
    using run_fields[of s st p kvs d cfg "text" rest] assms firsts_ok_later[of "p_tagCount st" kvs]
    by (auto simp: inside_def fields_ok_def)
  moreover have "inside p s ms (put_part p (push_all kvs (part_get p st)) maps) B (after_fields p kvs x st)"
    using assms(1) by (cases p) (auto simp: inside_def after_fields_def put_part_def)
  moreover have "p_tag (after_fields p kvs x st) = (if kvs = [] then p_tag st else fst (last kvs))"
    by (simp add: after_fields_def)
  ultimately show ?thesis by blast
qed

section \<open>A whole message\<close>

lemma seen_ok_push_all_empty:
  assumes "distinct (map fst kvs)"
  shows "seen_ok (push_all kvs empty_fm)" "fm_fields (push_all kvs empty_fm) = map (\<lambda>(k, v). (k, Ext v)) kvs"
    "fm_groups (push_all kvs empty_fm) = []" "shown (push_all kvs empty_fm) = kvs"
    "lhm_keys (fm_fields (push_all kvs empty_fm)) = map fst kvs"
proof -
  show f: "fm_fields (push_all kvs empty_fm) = map (\<lambda>(k, v). (k, Ext v)) kvs"
    and "seen_ok (push_all kvs empty_fm)" "fm_groups (push_all kvs empty_fm) = []"
    using push_all_ok[OF seen_ok_empty(1) assms] by simp_all
  show "shown (push_all kvs empty_fm) = kvs" "lhm_keys (fm_fields (push_all kvs empty_fm)) = map fst kvs"
    by (simp_all add: shown_def f comp_def case_prod_beta)
qed

lemma push_all_append: "push_all (a @ b) m = push_all b (push_all a m)"
  by (induction a m rule: push_all.induct) auto

lemma parse_header:
  assumes tx: "text = fields_text ((8, v8) # (9, v9) # (35, mt) # hs) @ rest" and "length text < 2147483648"
    and ok: "fields_ok d (d_headerSpec d) ((8, v8) # (35, mt) # hs)"
    and "hasField (d_headerSpec d) 9" "good_field d (9, v9)"
  shows "\<exists>st. parse_loop cfg d text text (start_parser d) = parse_loop cfg d text rest st
    \<and> inside PartHeader (d_headerSpec d) HEADER
        (push_all ((8, v8) # (9, v9) # (35, mt) # hs) empty_fm, empty_fm, empty_fm)
        (int (length (fields_text [(8, v8), (9, v9)]))) st"
proof -
  let ?s = "d_headerSpec d" and ?st0 = "start_parser d"
  let ?r1 = "field_text (9, v9) @ fields_text ((35, mt) # hs) @ rest"
  let ?r2 = "fields_text ((35, mt) # hs) @ rest"
  note okD = ok[unfolded fields_ok_def]
  have built: "spec_built ?s" using okD by blast
  obtain x where s1: "parse_loop cfg d text text ?st0 = parse_loop cfg d text ?r1 (after_fields PartHeader [(8, v8)] x ?st0)"
    using run_fields[of ?s ?st0 PartHeader "[(8, v8)]" d cfg "text" ?r1] okD
    by (auto simp: start_parser_def first_ok_def tx)
  let ?st1 = "after_fields PartHeader [(8, v8)] x ?st0"
  let ?at = "at_field 9 ?st1" and ?e = "length text - length ?r2 - 1"
  have m1: "part_get PartHeader ?at = push_all [(8, v8)] empty_fm"
    by (simp add: at_field_def after_fields_def start_parser_def)
  note p1 = seen_ok_push_all_empty[of "[(8, v8)]"]
  obtain y where "dispatchField cfg d 9 v9 ?e ?at =
      Inr (note_bodyLength 9 ?e ((part_set PartHeader (push 9 v9 (part_get PartHeader ?at)) ?at)\<lparr>p_dataLength := y\<rparr>))"
    by (rule dispatch_known[OF assms(5) built assms(4), of PartHeader ?at cfg ?e])
      (use p1 in \<open>auto simp: m1 at_field_def after_fields_def start_parser_def\<close>)
  moreover define st2 where "st2 = note_bodyLength 9 ?e ((part_set PartHeader (push 9 v9 (part_get PartHeader ?at)) ?at)\<lparr>p_dataLength := y\<rparr>)"
  ultimately have s2: "parse_loop cfg d text ?r1 ?st1 = parse_loop cfg d text ?r2 st2"
    using parse_loop_field[OF assms(5), of ?st1 cfg "text" ?r2]
    by (simp add: first_ok_def after_fields_def start_parser_def)
  have h2: "part_get PartHeader st2 = push_all [(8, v8), (9, v9)] empty_fm"
    using m1 by (simp add: st2_def note_bodyLength_def)
  define L where "L = length (fields_text [(8, v8), (9, v9)])"
  have "?e = L - 1" "0 < L" "is_int32 (int (L - 1))"
    using assms(2) by (auto simp: L_def is_int32_def field_text_def tx)
  then have B: "p_bodyLengthStart st2 = int (length (fields_text [(8, v8), (9, v9)]))"
    unfolding L_def[symmetric] by (simp add: st2_def note_bodyLength_def of_nat_diff)
  note p2 = seen_ok_push_all_empty[of "[(8, v8), (9, v9)]"]
  have st2: "p_stack st2 = [root_info ?s PartHeader]" "p_tagCount st2 = 2" "p_msgState st2 = HEADER"
    "p_body st2 = empty_fm" "p_trailer st2 = empty_fm"
    by (simp_all add: st2_def note_bodyLength_def at_field_def after_fields_def start_parser_def)
  have "\<exists>z. parse_loop cfg d text ?r2 st2 = parse_loop cfg d text rest (after_fields PartHeader ((35, mt) # hs) z st2)"
  proof (rule run_fields[OF built st2(1)])
    show "seen_ok (part_get PartHeader st2)" unfolding h2 using p2(1) by simp
    show "set (map fst ((35, mt) # hs)) \<inter> set (lhm_keys (fm_fields (part_get PartHeader st2))) = {}"
      unfolding h2 using p2(5) okD by auto
    show "firsts_ok (p_tagCount st2) ((35, mt) # hs)"
      by (simp add: st2 first_ok_def firsts_ok_later)
  qed (use okD in auto)
  then obtain z where s3: "parse_loop cfg d text ?r2 st2 =
      parse_loop cfg d text rest (after_fields PartHeader ((35, mt) # hs) z st2)" ..
  have "inside PartHeader ?s HEADER (push_all ((8, v8) # (9, v9) # (35, mt) # hs) empty_fm, empty_fm, empty_fm)
        (int (length (fields_text [(8, v8), (9, v9)]))) (after_fields PartHeader ((35, mt) # hs) z st2)"
    using st2 h2 B by (simp add: inside_def after_fields_def)
  with s1 s2 s3 show ?thesis by metis
qed


lemma enter_body_dispatch:
  assumes "\<not> reorderTags cfg" "required_ok cfg hs (lhm_keys (fm_fields h))"
    "inside PartHeader hs HEADER (h, b, t) B st" "getField h FIELD_MsgType = Inr mt"
    "getMessageSpecRaw d mt = Some bs" "not_in_spec hs k"
  obtains st' where "inside PartBody bs BODY (setSpec (Some hs) h, b, t) B st'" "p_tag st' = p_tag st"
    "dispatchField cfg d k v e st = sbind (trySetField cfg d (root_info bs PartBody) 0 k v e st')
      (\<lambda>(idx, st). case idx of Some _ \<Rightarrow> Inr st | None \<Rightarrow> body_or_trailer cfg d k v e st)"
proof -
  from enter_body_ok[OF assms(1-5)] obtain st' where
    st': "enter_body cfg d st = Inr st'" "inside PartBody bs BODY (setSpec (Some hs) h, b, t) B st'"
      "p_tag st' = p_tag st" by blast
  with assms(3) dispatch_leaves_root[of st hs PartHeader k cfg d v e] assms(6) that[OF st'(2,3)] show thesis
    by (simp add: inside_def leave_header_def)
qed

lemma parse_body:
  assumes "\<not> reorderTags cfg" "required_ok cfg hs (lhm_keys (fm_fields h))"
    "inside PartHeader hs HEADER (h, empty_fm, t) B st" "getField h FIELD_MsgType = Inr mt"
    "getMessageSpecRaw d mt = Some bs" "fields_ok d bs kvs" "kvs \<noteq> []" "\<forall>kv\<in>set kvs. not_in_spec hs (fst kv)"
  shows "\<exists>st'. parse_loop cfg d text (fields_text kvs @ rest) st = parse_loop cfg d text rest st'
    \<and> inside PartBody bs BODY (setSpec (Some hs) h, push_all kvs empty_fm, t) B st'"
proof -
  obtain k v kvs' where kvs: "kvs = (k, v) # kvs'" using assms(7) by (metis list.exhaust prod.collapse)
  let ?e = "length text - length (fields_text kvs' @ rest) - 1"
  have ok: "good_field d (k, v)" "hasField bs k" "k \<noteq> FIELD_BodyLength" "fields_ok d bs kvs'"
    "k \<notin> set (map fst kvs')"
    using assms(6) by (auto simp: kvs fields_ok_def)
  have nk: "not_in_spec hs k" using assms(8) kvs by simp
  obtain st1 where st1: "inside PartBody bs BODY (setSpec (Some hs) h, empty_fm, t) B st1"
    and disp: "dispatchField cfg d k v ?e (at_field k st) = sbind (trySetField cfg d (root_info bs PartBody) 0 k v ?e st1)
      (\<lambda>(idx, st). case idx of Some _ \<Rightarrow> Inr st | None \<Rightarrow> body_or_trailer cfg d k v ?e st)"
    by (rule enter_body_dispatch[OF assms(1,2) inside_at_field[OF assms(3)] assms(4,5) nk])
  from st1 have b1: "part_get PartBody st1 = empty_fm" by (simp add: inside_def)
  obtain x where "trySetField cfg d (root_info bs PartBody) 0 k v ?e st1 = Inr (Some 0,
      note_bodyLength k ?e ((part_set PartBody (push k v (part_get PartBody st1)) st1)\<lparr>p_dataLength := x\<rparr>))"
    by (rule trySetField_new[OF ok(1,2), of PartBody st1 cfg 0 ?e]) (use b1 in auto)
  moreover define st2 where "st2 = (part_set PartBody (push k v empty_fm) st1)\<lparr>p_dataLength := x\<rparr>"
  ultimately have "dispatchField cfg d k v ?e (at_field k st) = Inr st2"
    using disp ok(3) b1 by (simp add: note_bodyLength_def)
  moreover have in2: "inside PartBody bs BODY (setSpec (Some hs) h, push k v empty_fm, t) B st2"
    using st1 by (simp add: inside_def st2_def)
  moreover have "first_ok (p_tagCount st) k" using assms(3) by (simp add: inside_def first_ok_def)
  ultimately have step: "parse_loop cfg d text (fields_text kvs @ rest) st = parse_loop cfg d text (fields_text kvs' @ rest) st2"
    using parse_loop_field[OF ok(1), of st cfg "text" "fields_text kvs' @ rest"] by (simp add: kvs)
  note p1 = seen_ok_push_all_empty[of "[(k, v)]", simplified]
  have b2: "part_get PartBody st2 = push k v empty_fm" using in2 by (simp add: inside_def)
  have "\<exists>st'. parse_loop cfg d text (fields_text kvs' @ rest) st2 = parse_loop cfg d text rest st'
    \<and> inside PartBody bs BODY (put_part PartBody (push_all kvs' (part_get PartBody st2)) (setSpec (Some hs) h, push k v empty_fm, t)) B st'
    \<and> p_tag st' = (if kvs' = [] then p_tag st2 else fst (last kvs'))"
    by (rule run_inside[OF in2 ok(4)]) (use b2 p1 ok(5) in auto)
  then show ?thesis using step b2 by (auto simp: put_part_def kvs)
qed

lemma parse_trailer:
  assumes "\<not> reorderTags cfg" "required_ok cfg hs (lhm_keys (fm_fields h))"
    "inside PartHeader hs HEADER (h, empty_fm, empty_fm) B st" "getField h FIELD_MsgType = Inr mt"
    "getMessageSpecRaw d mt = Some bs" "fields_ok d bs bvs" "\<forall>kv\<in>set bvs. not_in_spec hs (fst kv)"
    "required_ok cfg bs (map fst bvs)" "fields_ok d (d_trailerSpec d) kvs" "kvs \<noteq> []"
    "\<forall>kv\<in>set kvs. not_in_spec hs (fst kv) \<and> not_in_spec bs (fst kv)"
  shows "\<exists>st'. parse_loop cfg d text (fields_text bvs @ fields_text kvs @ rest) st = parse_loop cfg d text rest st'
    \<and> inside PartTrailer (d_trailerSpec d) TRAILER
        (setSpec (Some hs) h, setSpec (Some bs) (push_all bvs empty_fm), push_all kvs empty_fm) B st'
    \<and> p_tag st' = fst (last kvs)"
proof -
  let ?ts = "d_trailerSpec d"
  obtain k v kvs' where kvs: "kvs = (k, v) # kvs'" using assms(10) by (metis list.exhaust prod.collapse)
  let ?r = "fields_text kvs' @ rest"
  let ?e = "length text - length ?r - 1"
  have ok: "good_field d (k, v)" "hasField ?ts k" "k \<noteq> FIELD_BodyLength" "fields_ok d ?ts kvs'"
    "k \<notin> set (map fst kvs')"
    using assms(9) by (auto simp: kvs fields_ok_def)
  have nk: "not_in_spec hs k" "not_in_spec bs k" using assms(11) kvs by auto
  note pb = seen_ok_push_all_empty[of bvs]
  have db: "distinct (map fst bvs)" using assms(6) by (simp add: fields_ok_def)
  have tr: "\<exists>st'. body_or_trailer cfg d k v ?e st1 = Inr st'
      \<and> inside PartTrailer ?ts TRAILER (setSpec (Some hs) h, setSpec (Some bs) (push_all bvs empty_fm), push k v empty_fm) B st'
      \<and> p_tag st' = p_tag st1"
    if "inside PartBody bs BODY (setSpec (Some hs) h, push_all bvs empty_fm, empty_fm) B st1" for st1
    using to_trailer[OF assms(1) that _ ok(1,2,3), of ?e] assms(8) pb(5)[OF db] by simp
  have "\<exists>st1 st2. parse_loop cfg d text (fields_text bvs @ fields_text kvs @ rest) st
        = parse_loop cfg d text (fields_text kvs @ rest) st1 \<and> 3 \<le> p_tagCount st1
      \<and> dispatchField cfg d k v ?e (at_field k st1) = Inr st2
      \<and> inside PartTrailer ?ts TRAILER (setSpec (Some hs) h, setSpec (Some bs) (push_all bvs empty_fm), push k v empty_fm) B st2
      \<and> p_tag st2 = k"
  proof (cases "bvs = []")
    case True
    obtain st1 where st1: "inside PartBody bs BODY (setSpec (Some hs) h, empty_fm, empty_fm) B st1"
        "p_tag st1 = p_tag (at_field k st)"
      and disp: "dispatchField cfg d k v ?e (at_field k st) = sbind (trySetField cfg d (root_info bs PartBody) 0 k v ?e st1)
      (\<lambda>(idx, st). case idx of Some _ \<Rightarrow> Inr st | None \<Rightarrow> body_or_trailer cfg d k v ?e st)"
      by (rule enter_body_dispatch[OF assms(1,2) inside_at_field[OF assms(3)] assms(4,5) nk(1)])
    from tr[of st1] st1 True disp nk(2) obtain st2 where
      "dispatchField cfg d k v ?e (at_field k st) = Inr st2" "p_tag st2 = k"
      "inside PartTrailer ?ts TRAILER (setSpec (Some hs) h, setSpec (Some bs) (push_all bvs empty_fm), push k v empty_fm) B st2"
      by (auto simp: trySetField_unknown at_field_def)
    moreover have "3 \<le> p_tagCount st" using assms(3) by (simp add: inside_def)
    ultimately show ?thesis using True by (intro exI[of _ st] exI[of _ st2]) simp
  next
    case False
    obtain st1 where st1: "parse_loop cfg d text (fields_text bvs @ fields_text kvs @ rest) st
        = parse_loop cfg d text (fields_text kvs @ rest) st1"
      "inside PartBody bs BODY (setSpec (Some hs) h, push_all bvs empty_fm, empty_fm) B st1"
      using parse_body[OF assms(1-6) False assms(7)] by blast
    have "dispatchField cfg d k v ?e (at_field k st1) = body_or_trailer cfg d k v ?e (at_field k st1)"
      using dispatch_leaves_root[of "at_field k st1" bs PartBody k] nk(2) inside_at_field[OF st1(2), of k]
      by (simp add: inside_def leave_header_def)
    with tr[OF inside_at_field[OF st1(2)], of k] st1 show ?thesis
      by (auto simp: inside_def at_field_def)
  qed
  then obtain st1 st2 where st: "parse_loop cfg d text (fields_text bvs @ fields_text kvs @ rest) st
        = parse_loop cfg d text (fields_text kvs @ rest) st1" "3 \<le> p_tagCount st1"
      "dispatchField cfg d k v ?e (at_field k st1) = Inr st2" "p_tag st2 = k"
    and in2: "inside PartTrailer ?ts TRAILER
        (setSpec (Some hs) h, setSpec (Some bs) (push_all bvs empty_fm), push k v empty_fm) B st2" by blast
  have "first_ok (p_tagCount st1) k" using st(2) by (simp add: first_ok_def)
  then have step: "parse_loop cfg d text (fields_text kvs @ rest) st1 = parse_loop cfg d text ?r st2"
    using parse_loop_field[OF ok(1), of st1 cfg "text" ?r] st(3) by (simp add: kvs)
  note p1 = seen_ok_push_all_empty[of "[(k, v)]", simplified]
  have t2: "part_get PartTrailer st2 = push k v empty_fm" using in2 by (simp add: inside_def)
  have "\<exists>st'. parse_loop cfg d text ?r st2 = parse_loop cfg d text rest st'
    \<and> inside PartTrailer ?ts TRAILER (put_part PartTrailer (push_all kvs' (part_get PartTrailer st2))
        (setSpec (Some hs) h, setSpec (Some bs) (push_all bvs empty_fm), push k v empty_fm)) B st'
    \<and> p_tag st' = (if kvs' = [] then p_tag st2 else fst (last kvs'))"
    by (rule run_inside[OF in2 ok(4)]) (use t2 p1 ok(5) in auto)
  then show ?thesis using st(1,4) step t2 by (auto simp: put_part_def kvs)
qed

section \<open>The checks at the end of a consistent message\<close>

text \<open>The fields of a message without groups fit a dictionary: known tags of the right part, no DATA
  fields, parsable LENGTH fields, no separator inside a value, required tags present.\<close>

definition flat_ok ::
    "parse_settings \<Rightarrow> dictionary \<Rightarrow> string \<Rightarrow> string \<Rightarrow> (int \<times> string) list \<Rightarrow> (int \<times> string) list
       \<Rightarrow> (int \<times> string) list \<Rightarrow> bool" where
  "flat_ok cfg d v8 mt hs bs ts \<longleftrightarrow>
     \<not> reorderTags cfg
     \<and> fields_ok d (d_headerSpec d) ((8, v8) # (35, mt) # hs)
     \<and> hasField (d_headerSpec d) 9 \<and> getFieldType d 9 \<noteq> FT_DATA
     \<and> required_ok cfg (d_headerSpec d) (8 # 9 # 35 # map fst hs)
     \<and> (case getMessageSpecRaw d mt of
          None \<Rightarrow> False
        | Some s \<Rightarrow> fields_ok d s bs \<and> required_ok cfg s (map fst bs)
            \<and> list_all (not_in_spec s) (10 # map fst ts))
     \<and> fields_ok d (d_trailerSpec d) ts \<and> 10 \<notin> set (map fst ts)
     \<and> hasField (d_trailerSpec d) 10 \<and> getFieldType d 10 \<notin> {FT_DATA, FT_LENGTH}
     \<and> required_ok cfg (d_trailerSpec d) (map fst ts @ [10])
     \<and> list_all (not_in_spec (d_headerSpec d)) (10 # map fst bs @ map fst ts)"

definition wire_text :: "string \<Rightarrow> (int \<times> string) list \<Rightarrow> string" where
  "wire_text v8 kvs =
     (let front = fields_text ((8, v8) # (9, dec_nat (length (fields_text kvs))) # kvs)
      in front @ fields_text [(10, formatChecksum (computeChecksum front))])"

lemma fields_ok_snoc:
  assumes "fields_ok d s ts" "10 \<notin> set (map fst ts)" "hasField s 10" "getFieldType d 10 \<notin> {FT_DATA, FT_LENGTH}"
  shows "fields_ok d s (ts @ [(10, formatChecksum c)])"
  using assms by (auto simp: fields_ok_def good_field_def)

lemma wrapu64_id: "0 \<le> x \<Longrightarrow> x < 18446744073709551616 \<Longrightarrow> wrapu64 x = x"
  by (simp add: wrapu64_def)

lemma shown_ops [simp]: "shown (setSpec s m) = shown m"
  by (simp add: shown_def)

lemma shown_remove:
  assumes "lhm_ok (fm_fields m)"
  shows "shown (fst (removeField k m)) = filter (\<lambda>x. fst x \<noteq> k) (shown m)"
  using lhm_erase_ok_filter[OF assms, of k]
  by (simp add: removeField_def shown_def case_prod_beta filter_map comp_def)

lemma parse_wire_text:
  assumes ok: "flat_ok cfg d v8 mt hs bs ts"
    and len: "length (wire_text v8 ((35, mt) # hs @ bs @ ts)) < 2147483648"
  shows "\<exists>msg. parse cfg d (wire_text v8 ((35, mt) # hs @ bs @ ts)) = Inr msg
    \<and> shown (m_header msg) = (8, v8) # (9, dec_nat (length (fields_text ((35, mt) # hs @ bs @ ts)))) # (35, mt) # hs
    \<and> shown (m_body msg) = bs \<and> shown (m_trailer msg) = ts
    \<and> fm_groups (m_header msg) = [] \<and> fm_groups (m_body msg) = [] \<and> fm_groups (m_trailer msg) = []"
proof -
  let ?hs = "d_headerSpec d" and ?ts = "d_trailerSpec d"
  define kvs where "kvs = (35, mt) # hs @ bs @ ts"
  define v9 where "v9 = dec_nat (length (fields_text kvs))"
  define front where "front = fields_text ((8, v8) # (9, v9) # kvs)"
  define ck where "ck = formatChecksum (computeChecksum front)"
  define T where "T = wire_text v8 kvs"
  define H where "H = (8, v8) # (9, v9) # (35, mt) # hs"
  obtain s where spec: "getMessageSpecRaw d mt = Some s" and bok: "fields_ok d s bs" "required_ok cfg s (map fst bs)"
      "list_all (not_in_spec s) (10 # map fst ts)"
    using ok by (auto simp: flat_ok_def split: option.splits)
  have T: "T = fields_text H @ fields_text bs @ fields_text (ts @ [(10, ck)]) @ []"
    by (simp add: T_def wire_text_def Let_def H_def v9_def ck_def front_def kvs_def)
  have T2: "T = front @ field_text (10, ck)"
    by (simp add: T_def wire_text_def Let_def v9_def ck_def front_def)
  have lenT: "length T < 2147483648" using len by (simp add: T_def kvs_def)
  have ten: "length (field_text (10, ck)) = 7" by (simp add: field_text_def appendTagEq_eq ck_def dec_int_def dec_nat.simps)
  have l9: "length (fields_text kvs) < 2147483648"
    using lenT by (simp add: T2 front_def)
  have g9: "good_field d (9, v9)"
    using ok fastParseTag_dec_nat[OF l9] dec_nat_chars by (fastforce simp: flat_ok_def good_field_def v9_def)
  have dH: "distinct (map fst H)" and kH: "map fst H = 8 # 9 # 35 # map fst hs"
    using ok by (auto simp: flat_ok_def fields_ok_def H_def)
  note ph = seen_ok_push_all_empty[OF dH]
  let ?h = "push_all H empty_fm" and ?B = "int (length (fields_text [(8, v8), (9, v9)]))"
  obtain st1 where st1: "parse_loop cfg d T T (start_parser d) =
        parse_loop cfg d T (fields_text bs @ fields_text (ts @ [(10, ck)]) @ []) st1"
      "inside PartHeader ?hs HEADER (?h, empty_fm, empty_fm) ?B st1"
    using parse_header[OF T[unfolded H_def] lenT _ _ g9, of cfg] ok by (auto simp: flat_ok_def H_def)
  have mt: "getField ?h FIELD_MsgType = Inr mt"
    using ph(4) by (simp add: getField_shown H_def)
  have tok: "fields_ok d ?ts (ts @ [(10, ck)])"
    using fields_ok_snoc[of d ?ts ts] ok by (simp add: flat_ok_def ck_def)
  have rq: "required_ok cfg ?hs (lhm_keys (fm_fields ?h))" using ok ph(5) kH by (simp add: flat_ok_def)
  have nts: "\<forall>kv\<in>set (ts @ [(10, ck)]). not_in_spec ?hs (fst kv) \<and> not_in_spec s (fst kv)"
    "\<forall>kv\<in>set bs. not_in_spec ?hs (fst kv)"
    using ok bok(3) by (auto simp: flat_ok_def list_all_iff)
  let ?b = "push_all bs empty_fm" and ?t = "push_all (ts @ [(10, ck)]) empty_fm"
  have ro: "\<not> reorderTags cfg" using ok by (simp add: flat_ok_def)
  obtain st2 where st2: "parse_loop cfg d T (fields_text bs @ fields_text (ts @ [(10, ck)]) @ []) st1 = parse_loop cfg d T [] st2"
      "inside PartTrailer ?ts TRAILER (setSpec (Some ?hs) ?h, setSpec (Some s) ?b, ?t) ?B st2" "p_tag st2 = 10"
    using parse_trailer[OF ro rq st1(2) mt spec bok(1) nts(2) bok(2) tok _ nts(1), of T "[]"] by auto
  have loop: "parse_loop cfg d T T (start_parser d) = Inr st2"
    using st1(1) st2(1) by (subst (asm) (2) parse_loop.simps) simp
  have dt: "distinct (map fst (ts @ [(10, ck)]))" using tok by (simp add: fields_ok_def)
  note pt = seen_ok_push_all_empty[OF dt]
  have rt: "required_ok cfg ?ts (lhm_keys (fm_fields (part_get PartTrailer st2)))"
    using ok pt(5) st2(2) by (simp add: flat_ok_def inside_def)
  have pst: "p_stack st2 = [root_info ?ts PartTrailer]" "p_trailer st2 = ?t" "p_header st2 = setSpec (Some ?hs) ?h"
    "p_body st2 = setSpec (Some s) ?b" "p_bodyLengthStart st2 = ?B" "p_msgState st2 = TRAILER"
    using st2(2) by (simp_all add: inside_def)
  let ?st3 = "(part_set PartTrailer (setSpec (Some ?ts) ?t) st2)\<lparr>p_stack := []\<rparr>"
  have over: "overwriteStack cfg 0 st2 = Inr ?st3"
    using overwriteStack_root[OF ro rt pst(1)] pst by simp
  have "int (length T) - ?B - 7 = int (length (fields_text kvs))"
    by (simp add: T2 front_def ten)
  moreover have "getField (setSpec (Some ?hs) ?h) FIELD_BodyLength = Inr v9"
    using ph(4) by (simp add: getField_shown H_def)
  ultimately have bl: "check_bodyLength T ?st3 = Inr ()"
    using l9 by (simp add: check_bodyLength_def pst wrapu64_id v9_def)
  have sht: "shown (setSpec (Some ?ts) ?t) = ts @ [(10, ck)]" using pt(4) by simp
  have "map_of ts FIELD_CheckSum = None" using ok by (simp add: flat_ok_def map_of_eq_None_iff)
  then have ck10: "getField (setSpec (Some ?ts) ?t) FIELD_CheckSum = Inr ck"
    unfolding getField_shown sht by (simp add: map_add_def)
  have "fm_has (setSpec (Some ?ts) ?t) FIELD_CheckSum" using pt(5) by (simp add: fm_has_def)
  moreover have "take (length T - 7) T = front" by (simp add: T2 ten)
  ultimately have cs: "check_checksum T ?st3 = Inr ()"
    using st2(3) ck10 by (simp add: check_checksum_def ck_def)
  have "lhm_ok (fm_fields (setSpec (Some ?ts) ?t))" using pt(1) by (simp add: seen_ok_def)
  from shown_remove[OF this, of FIELD_CheckSum] have tr: "shown (fst (removeField FIELD_CheckSum (setSpec (Some ?ts) ?t))) = ts"
    unfolding sht using ok by (auto simp: flat_ok_def filter_id_conv)
  have gr: "fm_groups (fst (removeField FIELD_CheckSum (setSpec (Some ?ts) ?t))) = []"
    using pt(3) by (simp add: removeField_def case_prod_beta)
  have db: "distinct (map fst bs)" using bok(1) by (simp add: fields_ok_def)
  note pb = seen_ok_push_all_empty[OF db]
  have "parse cfg d T = Inr \<lparr>m_header = setSpec (Some ?hs) ?h, m_body = setSpec (Some s) ?b,
      m_trailer = fst (removeField FIELD_CheckSum (setSpec (Some ?ts) ?t)), m_sourceText = T\<rparr>"
    using over bl cs pst by (simp add: parse_def loop finish_parse_def)
  then show ?thesis
    using tr gr ph(3,4) pb(3,4) by (simp add: T_def[unfolded kvs_def, symmetric] H_def v9_def kvs_def)
qed

section \<open>Serialized messages\<close>

definition sent :: "field_map \<Rightarrow> (int \<times> string) list" where
  "sent m = filter (\<lambda>x. \<not> isIgnoredTag (fst x)) (shown m)"

lemma appendGroup_flat:
  assumes "fm_groups m = []"
  shows "fst (appendGroup True SOH m) = fields_text (sent m)"
proof -
  have "concat (map (fst \<circ> field_part True SOH (group_parts True SOH m)) kvs)
      = fields_text (filter (\<lambda>x. \<not> isIgnoredTag (fst x)) kvs)" for kvs
    by (induction kvs) (auto simp: group_parts_def assms field_text_def)
  then show ?thesis by (simp add: appendGroup_parts Let_def checksum_tail_def sent_def)
qed

definition flat_message :: "message \<Rightarrow> bool" where
  "flat_message msg \<longleftrightarrow> fm_groups (m_header msg) = [] \<and> fm_groups (m_body msg) = [] \<and> fm_groups (m_trailer msg) = []"

lemma toString_wire_text:
  assumes "flat_message msg" "getField (m_header msg) FIELD_BeginString = Inr v8"
    "length (fst (serialize_body SOH msg)) < 2147483648"
  shows "toString True msg = wire_text v8 (sent (m_header msg) @ sent (m_body msg) @ sent (m_trailer msg))"
proof -
  have b: "fst (serialize_body SOH msg) = fields_text (sent (m_header msg) @ sent (m_body msg) @ sent (m_trailer msg))"
    using assms(1) by (simp add: serialize_body_def flat_message_def case_prod_beta appendGroup_flat)
  define body where "body = fields_text (sent (m_header msg) @ sent (m_body msg) @ sent (m_trailer msg))"
  have b'': "fst (serialize_body SOH msg) = body" using b by (simp add: body_def)
  have w: "dec_int (wrap32 (int (length body))) = dec_nat (length body)"
    using assms(3) unfolding b body_def[symmetric] by (simp add: is_int32_def dec_int_def)
  have a: "appendTagEq 8 = ''8=''" "appendTagEq 9 = ''9=''" "appendTagEq 10 = ''10=''"
    by code_simp+
  show ?thesis
    using assms(2) unfolding toString_def serialize_eq before_checksum_def wire_text_def Let_def computeChecksum_sum
    by (simp add: serialize_prefix_getField field_text_def a b'' w body_def[symmetric]
        del: byte_sum_simps fields_text_simps(3))
qed

text \<open>C12: a message without groups whose fields fit the dictionary survives the wire: the parser
  accepts the text \<open>toString\<close> writes, returns the same fields in the same order in each part (with
  the BeginString and BodyLength in front of the header), and serializing the result gives the same
  text again.\<close>

theorem parse_of_serialized:
  assumes "flat_message msg" "getField (m_header msg) FIELD_BeginString = Inr v8"
    and "sent (m_header msg) = (FIELD_MsgType, mt) # hs"
    and "flat_ok cfg d v8 mt hs (sent (m_body msg)) (sent (m_trailer msg))"
    and "length (toString True msg) < 2147483648" "length (fst (serialize_body SOH msg)) < 2147483648"
  shows "\<exists>msg'. parse cfg d (toString True msg) = Inr msg'
    \<and> shown (m_header msg') = (FIELD_BeginString, v8)
        # (FIELD_BodyLength, dec_nat (length (fst (serialize_body SOH msg)))) # sent (m_header msg)
    \<and> shown (m_body msg') = sent (m_body msg) \<and> shown (m_trailer msg') = sent (m_trailer msg)
    \<and> toString True msg' = toString True msg"
proof -
  let ?kvs = "sent (m_header msg) @ sent (m_body msg) @ sent (m_trailer msg)"
  have body: "fst (serialize_body SOH msg) = fields_text ?kvs"
    using assms(1) by (simp add: serialize_body_def flat_message_def case_prod_beta appendGroup_flat)
  note w = toString_wire_text[OF assms(1,2,6)]
  obtain msg' where m': "parse cfg d (wire_text v8 ?kvs) = Inr msg'"
    "shown (m_header msg') = (8, v8) # (9, dec_nat (length (fields_text ?kvs))) # sent (m_header msg)"
    "shown (m_body msg') = sent (m_body msg)" "shown (m_trailer msg') = sent (m_trailer msg)" "flat_message msg'"
    using parse_wire_text[OF assms(4)] assms(5) by (auto simp: w assms(3) flat_message_def)
  have idem: "filter (\<lambda>x. \<not> isIgnoredTag (fst x)) (sent m) = sent m" for m by (simp add: sent_def)
  have s: "sent (m_header msg') = sent (m_header msg)" "sent (m_body msg') = sent (m_body msg)"
    "sent (m_trailer msg') = sent (m_trailer msg)"
    unfolding sent_def[of "m_header msg'"] sent_def[of "m_body msg'"] sent_def[of "m_trailer msg'"]
    by (simp_all only: m' filter.simps idem) (simp add: isIgnoredTag_def)
  have "fst (serialize_body SOH msg') = fst (serialize_body SOH msg)"
    using m'(5) s body by (simp add: serialize_body_def flat_message_def case_prod_beta appendGroup_flat)
  moreover have "getField (m_header msg') FIELD_BeginString = Inr v8" by (simp add: getField_shown m')
  ultimately have "toString True msg' = toString True msg"
    using toString_wire_text[OF m'(5)] assms(6) w s by simp
  then show ?thesis using m' w body by auto
qed

definition example_body :: group_spec where
  "example_body = mk_spec [(11, True), (55, False)]
     [(453, mk_spec [(448, True), (447, False)] [] True [448, 447]), (555, mk_spec [(600, True)] [] True [600])]
     True [11, 55, 453, 555]"

definition example_dictionary :: dictionary where
  "example_dictionary =
     \<lparr>d_headerSpec = header_spec, d_trailerSpec = mk_spec [(10, True)] [] True [10],
      d_bodySpecs = [(''D'', example_body)], d_bodySpecsFast = (\<lambda>_. None)(68 := Some example_body),
      d_fieldTypes = (\<lambda>t. if t = 9 then FT_LENGTH else if t = 453 \<or> t = 555 then FT_NUMINGROUP else FT_STRING),
      d_fieldsFallback = []\<rparr>"

definition strict :: parse_settings where
  "strict = \<lparr>relaxedParsing = False, validateRequired = True, reorderTags = False\<rparr>"

definition example_message :: message where
  "example_message =
     \<lparr>m_header = fold (\<lambda>(k, v). setFieldView k v True)
        [(8, ''FIX.4.2''), (35, ''D''), (49, ''A''), (56, ''B''), (34, ''7''), (52, ''now'')]
        (setSpec (Some header_spec) empty_fm),
      m_body = setFieldView 11 ''id'' True (setSpec (Some example_body) empty_fm),
      m_trailer = empty_fm, m_sourceText = []\<rparr>"

lemma example_specs:
  "spec_built header_spec" "spec_built example_body" "gs_fields header_spec =
     [(8, True), (9, True), (35, True), (49, True), (56, True), (34, True), (52, True)]"
  "gs_groups header_spec = []" "gs_fields example_body = [(11, True), (55, False)]"
  "map_of (gs_groups example_body) k = None \<longleftrightarrow> k \<noteq> 453 \<and> k \<noteq> 555"
  by (simp_all add: header_spec_def example_body_def)

lemma parse_of_serialized_witness:
  "\<exists>msg'. parse strict example_dictionary (toString True example_message) = Inr msg'
    \<and> shown (m_body msg') = [(11, ''id'')] \<and> toString True msg' = toString True example_message"
proof -
  let ?m = "example_message"
  have h: "sent (m_header ?m) = [(35, ''D''), (49, ''A''), (56, ''B''), (34, ''7''), (52, ''now'')]"
    "sent (m_body ?m) = [(11, ''id'')]" "sent (m_trailer ?m) = []" by code_simp+
  have g: "getMessageSpecRaw example_dictionary ''D'' = Some example_body"
    by (simp add: getMessageSpecRaw_def example_dictionary_def FAST_MSGTYPE_SIZE_def)
  have "flat_ok strict example_dictionary ''FIX.4.2'' ''D'' [(49, ''A''), (56, ''B''), (34, ''7''), (52, ''now'')]
      (sent (m_body ?m)) (sent (m_trailer ?m))"
    unfolding flat_ok_def g h
    by (simp add: fields_ok_def good_field_def required_ok_def not_in_spec_def getFieldType_def MAX_FIELD_TAG_def
        hasField_built findGroup_built example_specs strict_def)
      (simp add: example_dictionary_def hasField_built findGroup_built example_specs)
  moreover have "length (toString True ?m) < 100" "length (fst (serialize_body SOH ?m)) < 100"
    by code_simp+
  moreover have "flat_message ?m" "getField (m_header ?m) 8 = Inr ''FIX.4.2''" by code_simp+
  ultimately show ?thesis
    using parse_of_serialized[of ?m "''FIX.4.2''" "''D''" "[(49, ''A''), (56, ''B''), (34, ''7''), (52, ''now'')]"
        strict example_dictionary] h by auto
qed

text \<open>C32: a message whose MsgType the dictionary does not know makes the parser dereference a null
  specification at the first tag that is not a header tag, strict or relaxed.\<close>

theorem unknown_msgtype_crashes:
  assumes "\<not> reorderTags cfg" "fields_ok d (d_headerSpec d) ((8, v8) # (35, mt) # hs)"
    and "hasField (d_headerSpec d) 9" "good_field d (9, v9)" "getMessageSpecRaw d mt = None"
    and "required_ok cfg (d_headerSpec d) (8 # 9 # 35 # map fst hs)"
    and "good_field d (k, v)" "not_in_spec (d_headerSpec d) k"
    and "text = fields_text ((8, v8) # (9, v9) # (35, mt) # hs) @ field_text (k, v) @ rest" "length text < 2147483648"
  shows "parse cfg d text = Inl NullDereference"
proof -
  let ?hs = "d_headerSpec d" and ?r = "field_text (k, v) @ rest"
  let ?H = "(8, v8) # (9, v9) # (35, mt) # hs"
  obtain st where st: "parse_loop cfg d text text (start_parser d) = parse_loop cfg d text ?r st"
      "inside PartHeader ?hs HEADER (push_all ?H empty_fm, empty_fm, empty_fm) (int (length (fields_text [(8, v8), (9, v9)]))) st"
    using parse_header[OF assms(9,10,2,3,4), of cfg] by blast
  have "distinct (map fst ?H)" using assms(2) by (auto simp: fields_ok_def)
  note ph = seen_ok_push_all_empty[OF this]
  let ?at = "at_field k st"
  have at: "p_stack ?at = [root_info ?hs PartHeader]" "p_msgState ?at = HEADER" "p_header ?at = push_all ?H empty_fm"
    "first_ok (p_tagCount st) k"
    using st(2) by (simp_all add: inside_def at_field_def first_ok_def)
  have "getField (setSpec (Some ?hs) (push_all ?H empty_fm)) FIELD_MsgType = Inr mt"
    using ph(4) by (simp add: getField_shown)
  moreover have "required_ok cfg ?hs (lhm_keys (fm_fields (part_get PartHeader ?at)))"
    using assms(6) ph(5) at by simp
  ultimately have "enter_body cfg d ?at = Inl NullDereference"
    using overwriteStack_root[OF assms(1), of ?hs PartHeader ?at] at assms(5) by (simp add: enter_body_def)
  then have "dispatchField cfg d k v e ?at = Inl NullDereference" for e
    using dispatch_leaves_root[OF at(1) assms(8)] at by (simp add: leave_header_def)
  then show ?thesis
    using parse_loop_field[OF assms(7) at(4), of cfg "text" rest] st(1) by (simp add: parse_def)
qed

lemma unknown_msgtype_crashes_witness:
  "parse strict example_dictionary (fields_text [(8, ''FIX.4.2''), (9, ''10''), (35, ''Z''), (49, ''A''), (56, ''B''),
     (34, ''7''), (52, ''now'')] @ field_text (11, ''id'') @ []) = Inl NullDereference"
  by (rule unknown_msgtype_crashes[where ?v8.0 = "''FIX.4.2''" and ?v9.0 = "''10''" and k = 11 and v = "''id''" and rest = "[]" and mt = "''Z''" and hs = "[(49, ''A''), (56, ''B''), (34, ''7''), (52, ''now'')]"])
    (simp_all add: fields_ok_def good_field_def required_ok_def not_in_spec_def getFieldType_def MAX_FIELD_TAG_def
      strict_def getMessageSpecRaw_def FAST_MSGTYPE_SIZE_def example_dictionary_def hasField_built findGroup_built example_specs
      fastParseTag_def field_text_def appendTagEq_eq is_digit_def dec_int_def dec_nat.simps wrap32_def digit_val_def)

text \<open>a second repeating group at the same level is refused: while the first group is on the
  stack, a NumInGroup field of at least two for another group of the enclosing part is reported as
  terminated with too few instances, because the new entry is popped instead of the old one.\<close>

theorem sibling_group_refused:
  assumes "\<not> relaxedParsing cfg" "p_stack st = [root_info s part, g]"
    and "\<not> spec_empty (gi_spec g)" "not_in_spec (gi_spec g) tag" "\<not> hasField s tag" "findGroup s tag = Some gspec"
    and "getGroupCount (part_get part st) tag = 0" "2 \<le> fastParseTag val" "getFieldType d tag \<noteq> FT_LENGTH" "0 < tag"
  shows "dispatchField cfg d tag val valEnd st = Inl (MessageParsingError
    (''Repeating group terminated with count less than NumInGroup (tag='' @ dec_int tag @ '')''))"
proof -
  have "\<exists>st'. trySetField cfg d (root_info s part) 0 tag val valEnd st = Inr (Some 1, st')
      \<and> (\<exists>new. p_stack st' = [root_info s part, g, new] \<and> gi_tag new = tag \<and> gi_count new = 1 \<and> gi_max new = nat (fastParseTag val))"
    using assms by (auto simp: trySetField_def Let_def parse_setField_def note_length_def note_bodyLength_def STACK_SIZE_def)
  then obtain st' new where t: "trySetField cfg d (root_info s part) 0 tag val valEnd st = Inr (Some 1, st')"
    and n: "p_stack st' = [root_info s part, g, new]" "gi_tag new = tag" "gi_count new = 1" "gi_max new = nat (fastParseTag val)"
    by blast
  have "overwriteStack cfg 2 st' = Inl (MessageParsingError
    (''Repeating group terminated with count less than NumInGroup (tag='' @ dec_int tag @ '')''))"
    using n assms(1,8,10) by (subst overwriteStack.simps) (simp add: try_throw_def)
  then show ?thesis
    using assms(2,3) trySetField_unknown[OF assms(4), of cfg d 1 val valEnd st] t
    by (simp add: dispatchField_def curInfo_def numeral_2_eq_2)
qed

definition example_parties :: group_info where
  "example_parties =
     \<lparr>gi_spec = mk_spec [(448, True)] [] True [448], gi_group = (PartBody, [(453, 1)]), gi_tag = 453,
      gi_count = 2, gi_max = 2\<rparr>"

lemma sibling_group_refused_witness:
  "dispatchField strict example_dictionary 555 ''2'' 0
     ((start_parser example_dictionary)\<lparr>p_stack := [root_info example_body PartBody,
        example_parties]\<rparr>)
   = Inl (MessageParsingError (''Repeating group terminated with count less than NumInGroup (tag='' @ dec_int 555 @ '')''))"
  by (rule sibling_group_refused[where gspec = "mk_spec [(600, True)] [] True [600]" and s = example_body and part = PartBody
        and g = example_parties])
    (simp_all add: strict_def example_specs hasField_built findGroup_built not_in_spec_def spec_empty_def
      getGroupCount_def start_parser_def getFieldType_def MAX_FIELD_TAG_def example_dictionary_def fastParseTag_def
      is_digit_def example_body_def digit_val_def wrap32_def
      example_parties_def)

end

