(* ===== verification/FixCache.thy ===== *)
theory FixCache
  imports FileWriter ParserFacts
begin

text \<open>
  \<^verbatim>\<open>src/FIXCache.h\<close>, \<^verbatim>\<open>src/FIXCache.cpp\<close>: the session's memory of sent messages and of both
  sequence numbers, written behind to the session store. The store handle is the writer instance
  of the session's data file. The two counters share the contract \<open>seq_counter\<close>, interpreted once for each.
\<close>

section \<open>MemoryCache\<close>

record fix_cache_state =
  c_senderSeqNum :: int
  c_targetSeqNum :: int
  c_messages :: "(int, string) hmap"
  c_seqNumsDirty :: bool
  c_pendingStoreSeqNums :: "int list"
  c_inboundQueue :: "message smap"
  c_store :: writer

definition new_cache :: "writer \<Rightarrow> fix_cache_state" where
  "new_cache store =
     \<lparr>c_senderSeqNum = 1, c_targetSeqNum = 1, c_messages = [], c_seqNumsDirty = False,
      c_pendingStoreSeqNums = [], c_inboundQueue = [], c_store = store\<rparr>"

text \<open>\<open>StoreHandle::load\<close> reads the file as it is on disk. A failed load leaves the cache as it was.\<close>

definition cache_load :: "fix_cache_state \<Rightarrow> load_error + fix_cache_state" where
  "cache_load c =
     sbind (load (w_file (c_store c)))
       (\<lambda>data. Inr (c\<lparr>c_senderSeqNum := sd_senderSeqNum data, c_targetSeqNum := sd_targetSeqNum data,
          c_seqNumsDirty := False, c_pendingStoreSeqNums := [],
          c_messages := foldl (\<lambda>m (idx, msg). hmap_emplace m idx msg) [] (sd_messages data)\<rparr>))"

definition cache_reset :: "fix_cache_state \<Rightarrow> fix_cache_state" where
  "cache_reset c =
     c\<lparr>c_messages := [], c_inboundQueue := [], c_pendingStoreSeqNums := [],
       c_senderSeqNum := 0, c_targetSeqNum := 0, c_seqNumsDirty := False,
       c_store := reset_writer (c_store c)\<rparr>"

definition cache_setSenderSeqNum :: "int \<Rightarrow> fix_cache_state \<Rightarrow> fix_cache_state" where
  "cache_setSenderSeqNum num c = c\<lparr>c_senderSeqNum := num, c_seqNumsDirty := True\<rparr>"

definition cache_setTargetSeqNum :: "int \<Rightarrow> fix_cache_state \<Rightarrow> fix_cache_state" where
  "cache_setTargetSeqNum num c = c\<lparr>c_targetSeqNum := num, c_seqNumsDirty := True\<rparr>"

definition cache_nextSenderSeqNum :: "fix_cache_state \<Rightarrow> int \<times> fix_cache_state" where
  "cache_nextSenderSeqNum c =
     (let next = wrap32 (c_senderSeqNum c + 1)
      in (next, c\<lparr>c_senderSeqNum := next, c_seqNumsDirty := True\<rparr>))"

definition cache_nextTargetSeqNum :: "fix_cache_state \<Rightarrow> int \<times> fix_cache_state" where
  "cache_nextTargetSeqNum c =
     (let next = wrap32 (c_targetSeqNum c + 1)
      in (next, c\<lparr>c_targetSeqNum := next, c_seqNumsDirty := True\<rparr>))"

fun store_pending :: "(int, string) hmap \<Rightarrow> int list \<Rightarrow> writer \<Rightarrow> writer" where
  "store_pending msgs [] w = w"
| "store_pending msgs (seq # seqs) w =
     (case map_of msgs seq of
        None \<Rightarrow> store_pending msgs seqs w
      | Some wire \<Rightarrow> store_pending msgs seqs (buffered_put w (PutMessage seq wire)))"

definition flushSeqNums :: "fix_cache_state \<Rightarrow> fix_cache_state" where
  "flushSeqNums c =
     (let c1 = c\<lparr>c_store := store_pending (c_messages c) (c_pendingStoreSeqNums c) (c_store c),
                c_pendingStoreSeqNums := []\<rparr>
      in if \<not> c_seqNumsDirty c1 then c1
         else c1\<lparr>c_seqNumsDirty := False,
                 c_store := buffered_put (buffered_put (c_store c1) (PutSender (c_senderSeqNum c1)))
                              (PutTarget (c_targetSeqNum c1))\<rparr>)"

definition cache_message :: "int \<Rightarrow> string \<Rightarrow> fix_cache_state \<Rightarrow> fix_cache_state" where
  "cache_message seqnum wire c =
     c\<lparr>c_messages := hmap_set (c_messages c) seqnum wire,
       c_pendingStoreSeqNums := c_pendingStoreSeqNums c @ [seqnum]\<rparr>"

text \<open>\<open>getMessages\<close>: the entries in the order the consumer gets them, each with the result of
  parsing it.\<close>

definition cache_entries :: "int \<Rightarrow> int \<Rightarrow> fix_cache_state \<Rightarrow> (int \<times> string) list" where
  "cache_entries beginSeq endSeq c =
     sort_by_key (filter (\<lambda>(seqnum, wire). beginSeq \<le> seqnum \<and> (endSeq = 0 \<or> seqnum \<le> endSeq)) (c_messages c))"

definition getMessages ::
    "parse_settings \<Rightarrow> dictionary \<Rightarrow> int \<Rightarrow> int \<Rightarrow> fix_cache_state \<Rightarrow> (int \<times> (exn + message)) list" where
  "getMessages cfg d beginSeq endSeq c = map (\<lambda>(seqnum, wire). (seqnum, parse cfg d wire)) (cache_entries beginSeq endSeq c)"

section \<open>Counters\<close>

locale seq_counter =
  fixes get :: "'c \<Rightarrow> int" and assign :: "int \<Rightarrow> 'c \<Rightarrow> 'c" and step :: "'c \<Rightarrow> int \<times> 'c" and dirty :: "'c \<Rightarrow> bool"
  assumes get_assign: "get (assign n c) = n"
    and get_step: "get (snd (step c)) = wrap32 (get c + 1)"
    and step_result: "fst (step c) = get (snd (step c))"
    and dirty_assign: "dirty (assign n c)"
    and dirty_step: "dirty (snd (step c))"
begin

fun steps :: "nat \<Rightarrow> 'c \<Rightarrow> int list \<times> 'c" where
  "steps 0 c = ([], c)"
| "steps (Suc n) c = (let (x, c1) = step c; (xs, c2) = steps n c1 in (x # xs, c2))"

text \<open>Until the 32-bit limit the numbers handed out are consecutive.\<close>

lemma steps_consecutive:
  "- 2147483648 \<le> get c \<Longrightarrow> get c + int n < 2147483648 \<Longrightarrow>
   fst (steps n c) = map (\<lambda>i. get c + 1 + int i) [0..<n] \<and> get (snd (steps n c)) = get c + int n"
proof (induction n arbitrary: c)
  case (Suc n)
  obtain x c1 where s: "step c = (x, c1)" by force
  have x: "x = get c + 1" "get c1 = get c + 1"
    using Suc.prems get_step[of c] step_result[of c] s by (simp_all add: is_int32_def)
  then have IH: "fst (steps n c1) = map (\<lambda>i. get c1 + 1 + int i) [0..<n] \<and> get (snd (steps n c1)) = get c1 + int n"
    using Suc.prems by (intro Suc.IH) simp_all
  have "[0..<Suc n] = 0 # map Suc [0..<n]" by (simp add: upt_conv_Cons map_Suc_upt del: upt_Suc)
  with IH x s show ?case by (simp add: case_prod_beta add.commute add.left_commute del: upt_Suc)
qed simp

end

interpretation sender: seq_counter c_senderSeqNum cache_setSenderSeqNum cache_nextSenderSeqNum c_seqNumsDirty
  by unfold_locales (simp_all add: cache_setSenderSeqNum_def cache_nextSenderSeqNum_def Let_def)

interpretation target: seq_counter c_targetSeqNum cache_setTargetSeqNum cache_nextTargetSeqNum c_seqNumsDirty
  by unfold_locales (simp_all add: cache_setTargetSeqNum_def cache_nextTargetSeqNum_def Let_def)

section \<open>The cache and its store agree\<close>

text \<open>What a load would return once the writer has written everything queued.\<close>

definition durable :: "fix_cache_state \<Rightarrow> load_error + session_data" where
  "durable c = reload (c_store c)"

definition agrees :: "fix_cache_state \<Rightarrow> session_data \<Rightarrow> bool" where
  "agrees c D \<longleftrightarrow>
     smap_ok (sd_messages D)
     \<and> (c_seqNumsDirty c \<or> sd_senderSeqNum D = c_senderSeqNum c \<and> sd_targetSeqNum D = c_targetSeqNum c)
     \<and> (\<forall>k. k \<notin> set (c_pendingStoreSeqNums c) \<longrightarrow> map_of (sd_messages D) k = map_of (c_messages c) k)"

definition cache_ok :: "fix_cache_state \<Rightarrow> bool" where
  "cache_ok c \<longleftrightarrow>
     store_writer (c_store c) \<and> is_int32 (c_senderSeqNum c) \<and> is_int32 (c_targetSeqNum c)
     \<and> hmap_ok (c_messages c)
     \<and> (\<forall>k wire. map_of (c_messages c) k = Some wire \<longrightarrow> is_int32 k \<and> length wire \<le> max_string_size)
     \<and> set (c_pendingStoreSeqNums c) \<subseteq> dom (map_of (c_messages c))
     \<and> (\<exists>D. durable c = Inr D \<and> agrees c D)"

lemma reload_put:
  "store_writer w \<Longrightarrow> reload w = Inr D \<Longrightarrow> store_op_ok opn \<Longrightarrow> reload (buffered_put w opn) = Inr (data_op opn D)"
  by (rule buffered_store.load_put)

lemma store_pending_reload:
  assumes "store_writer w" "reload w = Inr D" "smap_ok (sd_messages D)"
    "\<And>k wire. map_of msgs k = Some wire \<Longrightarrow> is_int32 k \<and> length wire \<le> max_string_size"
  shows "store_writer (store_pending msgs seqs w) \<and> (\<exists>D'. reload (store_pending msgs seqs w) = Inr D'
    \<and> smap_ok (sd_messages D') \<and> sd_senderSeqNum D' = sd_senderSeqNum D \<and> sd_targetSeqNum D' = sd_targetSeqNum D
    \<and> (\<forall>k. map_of (sd_messages D') k =
          (if k \<in> set seqs \<and> k \<in> dom (map_of msgs) then map_of msgs k else map_of (sd_messages D) k)))"
  using assms(1-3)
proof (induction seqs arbitrary: w D)
  case (Cons seq seqs)
  show ?case
  proof (cases "map_of msgs seq")
    case None
    with Cons.IH[OF Cons.prems] show ?thesis by (auto simp: domIff)
  next
    case (Some wire)
    define w1 where "w1 = buffered_put w (PutMessage seq wire)"
    define D1 where "D1 = data_op (PutMessage seq wire) D"
    have D1: "smap_ok (sd_messages D1)" "sd_senderSeqNum D1 = sd_senderSeqNum D"
      "sd_targetSeqNum D1 = sd_targetSeqNum D"
      "map_of (sd_messages D1) k = (if k = seq then Some wire else map_of (sd_messages D) k)" for k
      using Cons.prems(3) by (simp_all add: D1_def smap_lookup_set)
    have w1: "store_writer w1" "reload w1 = Inr D1"
      unfolding w1_def D1_def using Cons.prems assms(4)[OF Some] by (simp, intro reload_put) auto
    have "store_pending msgs (seq # seqs) w = store_pending msgs seqs w1" using Some by (simp add: w1_def)
    with Cons.IH[OF w1 D1(1)] Some D1(2-4) show ?thesis by (auto simp: domIff)
  qed
qed auto

lemma flushSeqNums_durable:
  assumes "cache_ok c"
  shows "cache_ok (flushSeqNums c) \<and> c_seqNumsDirty (flushSeqNums c) = False
    \<and> c_pendingStoreSeqNums (flushSeqNums c) = []
    \<and> c_senderSeqNum (flushSeqNums c) = c_senderSeqNum c \<and> c_targetSeqNum (flushSeqNums c) = c_targetSeqNum c
    \<and> c_messages (flushSeqNums c) = c_messages c"
proof -
  from assms obtain D where D: "reload (c_store c) = Inr D" "agrees c D" "store_writer (c_store c)"
    by (auto simp: cache_ok_def durable_def)
  let ?w = "store_pending (c_messages c) (c_pendingStoreSeqNums c) (c_store c)"
  have msg_ok: "is_int32 k \<and> length wire \<le> max_string_size" if "map_of (c_messages c) k = Some wire" for k wire
    using that assms by (auto simp: cache_ok_def)
  have "smap_ok (sd_messages D)" using D(2) by (simp add: agrees_def)
  from store_pending_reload[OF D(3,1) this msg_ok, where seqs = "c_pendingStoreSeqNums c"]
  obtain D' where D': "store_writer ?w" "reload ?w = Inr D'" "smap_ok (sd_messages D')"
      "sd_senderSeqNum D' = sd_senderSeqNum D" "sd_targetSeqNum D' = sd_targetSeqNum D"
    and msgs: "\<And>k. map_of (sd_messages D') k = (if k \<in> set (c_pendingStoreSeqNums c) \<and> k \<in> dom (map_of (c_messages c))
        then map_of (c_messages c) k else map_of (sd_messages D) k)"
    by blast
  have all: "map_of (sd_messages D') k = map_of (c_messages c) k" for k
    using msgs[of k] D(2) assms by (auto simp: agrees_def cache_ok_def)
  show ?thesis
  proof (cases "c_seqNumsDirty c")
    case False
    then show ?thesis
      using assms D' D(2) all by (auto simp: flushSeqNums_def Let_def cache_ok_def durable_def agrees_def)
  next
    case True
    let ?w1 = "buffered_put ?w (PutSender (c_senderSeqNum c))"
    have 1: "reload ?w1 = Inr (data_op (PutSender (c_senderSeqNum c)) D')"
      using assms by (intro reload_put D') (simp add: cache_ok_def)
    have "reload (buffered_put ?w1 (PutTarget (c_targetSeqNum c)))
        = Inr (data_op (PutTarget (c_targetSeqNum c)) (data_op (PutSender (c_senderSeqNum c)) D'))"
      using assms D'(1) by (intro reload_put 1) (simp_all add: cache_ok_def)
    then show ?thesis
      using True assms D' all by (auto simp: flushSeqNums_def Let_def cache_ok_def durable_def agrees_def)
  qed
qed

section \<open>Operations in sequence\<close>

datatype cache_op = CacheMessage int string | SetSender int | SetTarget int | NextSender | NextTarget
  | FlushSeqNums | WriterPass

fun cache_op_ok :: "cache_op \<Rightarrow> bool" where
  "cache_op_ok (CacheMessage n wire) \<longleftrightarrow> is_int32 n \<and> length wire \<le> max_string_size"
| "cache_op_ok (SetSender n) \<longleftrightarrow> is_int32 n"
| "cache_op_ok (SetTarget n) \<longleftrightarrow> is_int32 n"
| "cache_op_ok _ \<longleftrightarrow> True"

fun cache_step :: "fix_cache_state \<Rightarrow> cache_op \<Rightarrow> fix_cache_state" where
  "cache_step c (CacheMessage n wire) = cache_message n wire c"
| "cache_step c (SetSender n) = cache_setSenderSeqNum n c"
| "cache_step c (SetTarget n) = cache_setTargetSeqNum n c"
| "cache_step c NextSender = snd (cache_nextSenderSeqNum c)"
| "cache_step c NextTarget = snd (cache_nextTargetSeqNum c)"
| "cache_step c FlushSeqNums = flushSeqNums c"
| "cache_step c WriterPass = c\<lparr>c_store := flushInstance fs_fine (c_store c)\<rparr>"

lemma reload_flush: "store_writer w \<Longrightarrow> reload (flushInstance fs_fine w) = reload w"
  by (simp add: reload_eventual flush_store_writer)

lemma cache_ok_step: "cache_ok c \<Longrightarrow> cache_op_ok opn \<Longrightarrow> cache_ok (cache_step c opn)"
proof (cases opn)
  case FlushSeqNums
  then show "cache_ok c \<Longrightarrow> ?thesis" using flushSeqNums_durable by simp
next
  case WriterPass
  then show "cache_ok c \<Longrightarrow> ?thesis"
    by (auto simp: cache_ok_def durable_def agrees_def reload_flush flush_store_writer)
next
  case (CacheMessage n wire)
  assume "cache_ok c" "cache_op_ok opn"
  then show ?thesis
    by (auto simp: CacheMessage cache_ok_def durable_def agrees_def cache_message_def)
qed (auto simp: cache_ok_def durable_def agrees_def cache_setSenderSeqNum_def cache_setTargetSeqNum_def
    cache_nextSenderSeqNum_def cache_nextTargetSeqNum_def Let_def)

lemma cache_ok_new: "cache_ok (new_cache (new_writer False None))"
proof -
  have "store_writer (new_writer False None)" by (simp add: store_writer_def new_writer_def)
  moreover from this have "reload (new_writer False None) = Inr session_data0"
    by (simp add: reload_eventual) (simp add: eventual_def new_writer_def)
  ultimately show ?thesis
    by (simp add: cache_ok_def new_cache_def durable_def agrees_def is_int32_def session_data0_def)
qed

lemma cache_ok_steps: "cache_ok c \<Longrightarrow> list_all cache_op_ok ops \<Longrightarrow> cache_ok (foldl cache_step c ops)"
  by (induction ops arbitrary: c) (auto simp: cache_ok_step)

lemma emplace_all: "map_of (foldl (\<lambda>m (i, x). hmap_emplace m i x) m0 xs) k =
    (case map_of m0 k of Some v \<Rightarrow> Some v | None \<Rightarrow> map_of xs k)"
proof (induction xs arbitrary: m0)
  case (Cons x xs)
  obtain i v where "x = (i, v)" by force
  with Cons show ?case by (auto simp: hmap_emplace_def update_conv' split: option.split)
qed (simp split: option.split)

text \<open>Once the numbers are flushed and the writer has run, the file holds what the cache holds.\<close>

lemma flushed_cache_reloads:
  assumes "cache_ok c"
  shows "\<exists>c'. cache_load (new_cache (new_writer False (w_file (flushInstance fs_fine (c_store (flushSeqNums c)))))) = Inr c'
    \<and> c_senderSeqNum c' = c_senderSeqNum c \<and> c_targetSeqNum c' = c_targetSeqNum c
    \<and> map_of (c_messages c') = map_of (c_messages c)"
proof -
  note fl = flushSeqNums_durable[OF assms]
  obtain D where D: "durable (flushSeqNums c) = Inr D" "agrees (flushSeqNums c) D"
    using fl by (auto simp: cache_ok_def)
  then have eq: "sd_senderSeqNum D = c_senderSeqNum c" "sd_targetSeqNum D = c_targetSeqNum c"
    "map_of (sd_messages D) = map_of (c_messages c)"
    using fl by (auto simp: agrees_def fun_eq_iff)
  from D(1) have "load (w_file (flushInstance fs_fine (c_store (flushSeqNums c)))) = Inr D"
    by (simp add: durable_def reload_def)
  then have "\<exists>c'. cache_load (new_cache (new_writer False (w_file (flushInstance fs_fine (c_store (flushSeqNums c)))))) = Inr c'
      \<and> c_senderSeqNum c' = sd_senderSeqNum D \<and> c_targetSeqNum c' = sd_targetSeqNum D
      \<and> map_of (c_messages c') = map_of (sd_messages D)"
    by (simp add: cache_load_def new_cache_def new_writer_def emplace_all fun_eq_iff)
  then show ?thesis by (simp only: eq)
qed

section \<open>A cache that was loaded, and its store after the last flush\<close>

lemma loaded_data:
  assumes "list_all store_op_ok ds" "smap_ok (sd_messages d)" "is_int32 (sd_senderSeqNum d)" "is_int32 (sd_targetSeqNum d)"
    and "list_all (\<lambda>(k, m). is_int32 k \<and> length m \<le> max_string_size) (sd_messages d)"
  shows "smap_ok (sd_messages (fold data_op ds d)) \<and> is_int32 (sd_senderSeqNum (fold data_op ds d))
    \<and> is_int32 (sd_targetSeqNum (fold data_op ds d))
    \<and> list_all (\<lambda>(k, m). is_int32 k \<and> length m \<le> max_string_size) (sd_messages (fold data_op ds d))"
  using assms
proof (induction ds arbitrary: d)
  case (Cons x ds)
  show ?case
  proof (cases x)
    case (PutMessage n m)
    have "list_all (\<lambda>(k, m). is_int32 k \<and> length m \<le> max_string_size) (smap_set (sd_messages d) n m)"
      using Cons.prems PutMessage by (auto simp: list_all_iff dest!: smap_set_entries[THEN subsetD])
    with Cons PutMessage show ?thesis by simp
  qed (use Cons in simp_all)
qed simp

lemma cache_ok_loaded:
  assumes "disk = None \<or> disk = Some (concat (map record_of ds))" "list_all store_op_ok ds"
    and "cache_load (new_cache (new_writer False disk)) = Inr c0"
  shows "cache_ok c0"
proof -
  let ?w = "new_writer False disk"
  have w: "store_writer ?w" by (simp add: store_writer_def new_writer_def)
  define ds' where "ds' = (if disk = None then [] else ds)"
  have ds': "list_all store_op_ok ds'" "(case disk of None \<Rightarrow> [] | Some b \<Rightarrow> b) = concat (map record_of ds')"
    using assms(1,2) by (auto simp: ds'_def)
  let ?D = "fold data_op ds' session_data0"
  have "load_loop [] session_data0 = Inr session_data0" by simp
  from load_records[OF this ds'(1)] have l: "load_loop (concat (map record_of ds')) session_data0 = Inr ?D" by simp
  have r: "reload ?w = Inr ?D"
    using w l ds'(2) by (simp add: reload_eventual) (simp add: eventual_def new_writer_def)
  have "load disk = Inr ?D" using l ds'(2) by (cases disk) (simp_all add: load_def)
  then have c0: "c0 = (new_cache ?w)\<lparr>c_senderSeqNum := sd_senderSeqNum ?D, c_targetSeqNum := sd_targetSeqNum ?D,
      c_seqNumsDirty := False, c_pendingStoreSeqNums := [],
      c_messages := foldl (\<lambda>m (idx, msg). hmap_emplace m idx msg) [] (sd_messages ?D)\<rparr>"
    using assms(3) by (simp add: cache_load_def new_cache_def new_writer_def)
  have msgs: "map_of (c_messages c0) = map_of (sd_messages ?D)"
    by (simp add: c0 fun_eq_iff emplace_all)
  have hm: "hmap_ok (foldl (\<lambda>m (idx, msg). hmap_emplace m idx msg) m0 xs)" if "hmap_ok m0" for m0 :: "(int, string) hmap" and xs
    using that by (induction xs arbitrary: m0) auto
  have D: "smap_ok (sd_messages ?D)" "is_int32 (sd_senderSeqNum ?D)" "is_int32 (sd_targetSeqNum ?D)"
    "list_all (\<lambda>(k, m). is_int32 k \<and> length m \<le> max_string_size) (sd_messages ?D)"
    using loaded_data[OF ds'(1), of session_data0] by (simp_all add: session_data0_def is_int32_def)
  have "is_int32 k \<and> length m \<le> max_string_size" if "map_of (c_messages c0) k = Some m" for k m
    using D(4) map_of_SomeD[of "sd_messages ?D" k m] that msgs by (auto simp: list_all_iff)
  moreover have "hmap_ok (c_messages c0)" using hm[of "[]"] by (simp add: c0)
  moreover have "durable c0 = Inr ?D" using r by (simp add: durable_def c0 new_cache_def)
  moreover have "agrees c0 ?D" using D(1) msgs by (simp add: agrees_def c0)
  ultimately show ?thesis using w D(2,3) by (auto simp: cache_ok_def c0 new_cache_def)
qed

text \<open>Operations that do not flush leave the file as it is going to be.\<close>

lemma reload_until_flush:
  "FlushSeqNums \<notin> set ops \<Longrightarrow> store_writer (c_store c) \<Longrightarrow>
   store_writer (c_store (foldl cache_step c ops)) \<and> reload (c_store (foldl cache_step c ops)) = reload (c_store c)"
proof (induction ops arbitrary: c)
  case (Cons x ops)
  have "store_writer (c_store (cache_step c x)) \<and> reload (c_store (cache_step c x)) = reload (c_store c)"
    using Cons.prems
    by (cases x) (simp_all add: cache_message_def cache_setSenderSeqNum_def cache_setTargetSeqNum_def
        cache_nextSenderSeqNum_def cache_nextTargetSeqNum_def Let_def reload_flush flush_store_writer)
  with Cons show ?case by simp
qed simp

lemma last_flush_reloads:
  assumes "cache_ok c" "FlushSeqNums \<notin> set ops" "f = w_file (flushInstance fs_fine (c_store (foldl cache_step (flushSeqNums c) ops)))"
  shows "\<exists>c'. cache_load (new_cache (new_writer False f)) = Inr c' \<and>
    c_senderSeqNum c' = c_senderSeqNum c \<and> c_targetSeqNum c' = c_targetSeqNum c \<and> map_of (c_messages c') = map_of (c_messages c)"
proof -
  let ?c = "flushSeqNums c"
  have "store_writer (c_store ?c)" using flushSeqNums_durable[OF assms(1)] by (simp add: cache_ok_def)
  from reload_until_flush[OF assms(2) this] assms(3)
  have "load f = load (w_file (flushInstance fs_fine (c_store ?c)))" by (simp add: reload_def)
  then have "cache_load (new_cache (new_writer False f)) =
      sbind (load (w_file (flushInstance fs_fine (c_store ?c)))) (\<lambda>data. Inr ((new_cache (new_writer False f))
        \<lparr>c_senderSeqNum := sd_senderSeqNum data, c_targetSeqNum := sd_targetSeqNum data,
          c_seqNumsDirty := False, c_pendingStoreSeqNums := [],
          c_messages := foldl (\<lambda>m (idx, msg). hmap_emplace m idx msg) [] (sd_messages data)\<rparr>))"
    by (simp add: cache_load_def) (simp add: new_cache_def new_writer_def)
  with flushed_cache_reloads[OF assms(1)] show ?thesis
    by (cases "load (w_file (flushInstance fs_fine (c_store ?c)))")
       (auto simp: cache_load_def new_cache_def new_writer_def)
qed

lemma step_keeps_file:
  "opn \<noteq> WriterPass \<Longrightarrow> w_file (c_store (cache_step c opn)) = w_file (c_store c)"
proof -
  have put: "w_file (buffered_put w x) = w_file w" for w x
    by (cases x) (simp_all add: writeRaw_def write_text_def)
  have "w_file (store_pending m seqs w) = w_file w" for m seqs w
    by (induction seqs arbitrary: w) (simp_all add: put del: buffered_put.simps split: option.split)
  then show "opn \<noteq> WriterPass \<Longrightarrow> ?thesis"
    by (cases opn) (simp_all add: cache_message_def cache_setSenderSeqNum_def cache_setTargetSeqNum_def
        cache_nextSenderSeqNum_def cache_nextTargetSeqNum_def flushSeqNums_def put Let_def
        del: buffered_put.simps)
qed

section \<open>Properties\<close>

text \<open>the cache is durable: after any sequence of cached messages, counter updates, flushes and
  writer passes, once the sequence numbers are flushed and the writer has run, a fresh cache that
  loads the store's file has the same sequence numbers and the same messages.\<close>

theorem cache_survives_restart:
  assumes "list_all cache_op_ok ops"
  shows "let c = flushSeqNums (foldl cache_step (new_cache (new_writer False None)) ops);
             file = w_file (flushInstance fs_fine (c_store c))
         in \<exists>c'. cache_load (new_cache (new_writer False file)) = Inr c'
              \<and> c_senderSeqNum c' = c_senderSeqNum c \<and> c_targetSeqNum c' = c_targetSeqNum c
              \<and> map_of (c_messages c') = map_of (c_messages c)"
proof -
  let ?c0 = "foldl cache_step (new_cache (new_writer False None)) ops"
  have ok: "cache_ok ?c0" by (rule cache_ok_steps[OF cache_ok_new assms])
  from flushed_cache_reloads[OF ok] flushSeqNums_durable[OF ok] show ?thesis by (simp add: Let_def)
qed

lemma cache_survives_restart_witness:
  "\<exists>c'. cache_load (new_cache (new_writer False (w_file (flushInstance fs_fine (c_store
      (flushSeqNums (foldl cache_step (new_cache (new_writer False None)) [CacheMessage 1 ''x'', NextSender]))))))) = Inr c'
    \<and> c_senderSeqNum c' = 2"
proof -
  have "list_all cache_op_ok [CacheMessage 1 ''x'', NextSender]" by (simp add: is_int32_def max_string_size_def)
  note r = cache_survives_restart[OF this, unfolded Let_def]
  have "c_senderSeqNum (flushSeqNums (foldl cache_step (new_cache (new_writer False None)) [CacheMessage 1 ''x'', NextSender])) = 2"
    by code_simp
  with r show ?thesis by auto
qed

text \<open>a replay hands out exactly the cached messages of the requested range (an end of zero means
  no upper limit), each once, in ascending order of sequence number, with the text as it was sent.\<close>

theorem replay_in_order:
  assumes "hmap_ok (c_messages c)"
  shows "let es = cache_entries beginSeq endSeq c
         in sorted_wrt (<) (map fst es)
            \<and> (\<forall>seq wire. (seq, wire) \<in> set es \<longleftrightarrow>
                 map_of (c_messages c) seq = Some wire \<and> beginSeq \<le> seq \<and> (endSeq = 0 \<or> seq \<le> endSeq))"
proof -
  have d: "distinct (map fst (c_messages c))" using assms by (simp add: hmap_ok_def)
  let ?f = "filter (\<lambda>(seqnum, wire). beginSeq \<le> seqnum \<and> (endSeq = 0 \<or> seqnum \<le> endSeq)) (c_messages c)"
  have "distinct (map fst ?f)" using distinct_fst_filter[OF d] by simp
  from sort_by_key_ok[OF this] have "sorted_wrt (<) (map fst (cache_entries beginSeq endSeq c))"
    by (simp add: cache_entries_def smap_ok_def)
  moreover have "map_of (c_messages c) k = Some v \<longleftrightarrow> (k, v) \<in> set (c_messages c)" for k v
    using d by simp
  ultimately show ?thesis by (simp add: Let_def cache_entries_def)
qed

lemma replay_in_order_witness:
  "map fst (cache_entries 2 0 (cache_message 2 ''b'' (cache_message 3 ''c'' (cache_message 1 ''a''
     (new_cache (new_writer False None)))))) = [2, 3]"
proof -
  let ?c = "cache_message 2 ''b'' (cache_message 3 ''c'' (cache_message 1 ''a'' (new_cache (new_writer False None))))"
  have "hmap_ok (c_messages ?c)" by (simp add: cache_message_def new_cache_def)
  from replay_in_order[OF this, of 2 0] have "sorted_wrt (<) (map fst (cache_entries 2 0 ?c))" by (simp add: Let_def)
  moreover have "cache_entries 2 0 ?c = [(2, ''b''), (3, ''c'')]" by code_simp
  ultimately show ?thesis by simp
qed

text \<open>Sequence numbers are issued without gaps or repetition: as long as the 32-bit limit is not
  reached, \<open>n\<close> calls of \<open>nextSenderSeqNum\<close> return the \<open>n\<close> numbers after the current one, in order.\<close>

theorem sender_numbers_consecutive:
  assumes "is_int32 (c_senderSeqNum c)" "c_senderSeqNum c + int n < 2147483648"
  shows "fst (sender.steps n c) = map (\<lambda>i. c_senderSeqNum c + 1 + int i) [0..<n]
    \<and> c_senderSeqNum (snd (sender.steps n c)) = c_senderSeqNum c + int n"
  using assms by (intro sender.steps_consecutive) (simp_all add: is_int32_def)

lemma sender_numbers_consecutive_witness:
  "fst (sender.steps 3 (new_cache (new_writer False None))) = [2, 3, 4]"
proof -
  have "is_int32 (c_senderSeqNum (new_cache (new_writer False None)))"
    "c_senderSeqNum (new_cache (new_writer False None)) + int 3 < 2147483648"
    by (simp_all add: new_cache_def is_int32_def)
  from sender_numbers_consecutive[OF this] show ?thesis by (simp add: new_cache_def upt_rec)
qed

text \<open>After \<open>reset\<close> both counters are zero, while a store that has just been wiped loads as one and
  one; and since reset does not mark the numbers as changed, flushing writes nothing.\<close>

theorem reset_numbers_disagree:
  "let c = flushSeqNums (cache_reset c0)
   in c_senderSeqNum c = 0 \<and> c_targetSeqNum c = 0
      \<and> load (w_file (flushInstance fs_fine (c_store c))) = Inr session_data0
      \<and> sd_senderSeqNum session_data0 = 1 \<and> sd_targetSeqNum session_data0 = 1"
  by (simp add: flushSeqNums_def cache_reset_def Let_def flushInstance_def reset_writer_def fs_fine_def
      load_def session_data0_def)

end
