(* ===== verification/FixConfig.thy ===== *)
theory FixConfig
  imports FixDictionary
begin

text \<open>
  \<^verbatim>\<open>src/Config.h\<close>: typed configuration items, the defaults they register when the program starts,
  loading a map of texts, and the settings of the platform and of a session. An item is found by
  its name in the registry and by its index in the values of its type. A \<open>double\<close> is the decimal
  \<open>m / 10 ^ k\<close> of its text; rounding to binary is not modelled.
\<close>

section \<open>Values and the conversions of the standard library\<close>

type_synonym decimal = "int \<times> nat"

datatype cfg_type = TString | TLong | TBool | TDouble

datatype cfg_value = VString string | VLong int | VBool bool | VDouble decimal

definition c_str :: "string \<Rightarrow> string" where
  "c_str s = takeWhile (\<lambda>c. c \<noteq> CHR 0x00) s"

definition to_lower :: "char \<Rightarrow> char" where
  "to_lower c = (let n = (of_char c :: nat) in if 65 \<le> n \<and> n \<le> 90 then char_of (n + 32) else c)"

definition strcaseeq :: "string \<Rightarrow> string \<Rightarrow> bool" where
  "strcaseeq a b \<longleftrightarrow> map to_lower (c_str a) = map to_lower (c_str b)"

definition is_space :: "char \<Rightarrow> bool" where
  "is_space c = (let n = (of_char c :: nat) in n = 32 \<or> 9 \<le> n \<and> n \<le> 13)"

text \<open>White space and a sign, which \<open>std::stol\<close> and \<open>std::stod\<close> accept before the digits.\<close>

definition take_sign :: "string \<Rightarrow> bool \<times> string" where
  "take_sign s =
     (let r = dropWhile is_space s
      in case r of [] \<Rightarrow> (False, []) | c # cs \<Rightarrow>
           if c = DASH then (True, cs) else if c = CHR ''+'' then (False, cs) else (False, r))"

definition stol :: "string \<Rightarrow> num_error + int" where
  "stol s =
     (let (neg, r) = take_sign s; ds = takeWhile is_digit r;
          v = (if neg then - int (digits_val ds) else int (digits_val ds))
      in if ds = [] then Inl InvalidArgument
         else if - 9223372036854775808 \<le> v \<and> v \<le> 9223372036854775807 then Inr v else Inl OutOfRange)"

text \<open>\<open>std::stod\<close> on decimal text without an exponent.\<close>

definition stod :: "string \<Rightarrow> num_error + decimal" where
  "stod s =
     (let (neg, r) = take_sign s; ds = takeWhile is_digit r; r' = dropWhile is_digit r;
          fs = (case r' of c # cs \<Rightarrow> if c = CHR ''.'' then takeWhile is_digit cs else [] | [] \<Rightarrow> []);
          m = int (digits_val (ds @ fs))
      in if ds @ fs = [] then Inl InvalidArgument else Inr (if neg then - m else m, length fs))"

text \<open>A \<open>double\<close> times a \<open>long\<close>, cast back to \<open>long\<close>.\<close>

definition scale_decimal :: "decimal \<Rightarrow> int \<Rightarrow> int" where
  "scale_decimal d n = cdiv (fst d * n) (10 ^ snd d)"

section \<open>Items and their registration\<close>

record 'a config_item =
  ci_name :: string
  ci_default :: 'a
  ci_index :: nat

record config_defaults =
  df_fields :: "(string, cfg_type \<times> nat) hmap"
  df_strings :: "string list"
  df_longs :: "int list"
  df_bools :: "bool list"
  df_doubles :: "decimal list"

definition no_defaults :: config_defaults where
  "no_defaults = \<lparr>df_fields = [], df_strings = [], df_longs = [], df_bools = [], df_doubles = []\<rparr>"

definition createString :: "string \<Rightarrow> string \<Rightarrow> config_defaults \<Rightarrow> string config_item \<times> config_defaults" where
  "createString name def d =
     (let d' = d\<lparr>df_strings := df_strings d @ [def]\<rparr>; i = length (df_strings d') - 1
      in (\<lparr>ci_name = name, ci_default = def, ci_index = i\<rparr>,
          d'\<lparr>df_fields := hmap_emplace (df_fields d') name (TString, i)\<rparr>))"

definition createLong :: "string \<Rightarrow> int \<Rightarrow> config_defaults \<Rightarrow> int config_item \<times> config_defaults" where
  "createLong name def d =
     (let d' = d\<lparr>df_longs := df_longs d @ [def]\<rparr>; i = length (df_longs d') - 1
      in (\<lparr>ci_name = name, ci_default = def, ci_index = i\<rparr>,
          d'\<lparr>df_fields := hmap_emplace (df_fields d') name (TLong, i)\<rparr>))"

definition createBool :: "string \<Rightarrow> bool \<Rightarrow> config_defaults \<Rightarrow> bool config_item \<times> config_defaults" where
  "createBool name def d =
     (let d' = d\<lparr>df_bools := df_bools d @ [def]\<rparr>; i = length (df_bools d') - 1
      in (\<lparr>ci_name = name, ci_default = def, ci_index = i\<rparr>,
          d'\<lparr>df_fields := hmap_emplace (df_fields d') name (TBool, i)\<rparr>))"

definition createDouble :: "string \<Rightarrow> decimal \<Rightarrow> config_defaults \<Rightarrow> decimal config_item \<times> config_defaults" where
  "createDouble name def d =
     (let d' = d\<lparr>df_doubles := df_doubles d @ [def]\<rparr>; i = length (df_doubles d') - 1
      in (\<lparr>ci_name = name, ci_default = def, ci_index = i\<rparr>,
          d'\<lparr>df_fields := hmap_emplace (df_fields d') name (TDouble, i)\<rparr>))"

text \<open>One \<open>static inline ConfigItem\<close> of a settings class.\<close>

datatype item_decl = DString string string | DLong string int | DBool string bool | DDouble string decimal

fun register :: "config_defaults \<Rightarrow> item_decl \<Rightarrow> config_defaults" where
  "register d (DString name def) = snd (createString name def d)"
| "register d (DLong name def) = snd (createLong name def d)"
| "register d (DBool name def) = snd (createBool name def d)"
| "register d (DDouble name def) = snd (createDouble name def d)"

fun decl_name :: "item_decl \<Rightarrow> string" where
  "decl_name (DString name def) = name"
| "decl_name (DLong name def) = name"
| "decl_name (DBool name def) = name"
| "decl_name (DDouble name def) = name"

section \<open>Configurations\<close>

record config =
  cfg_strings :: "string list"
  cfg_longs :: "int list"
  cfg_bools :: "bool list"
  cfg_doubles :: "decimal list"

definition new_config :: "config_defaults \<Rightarrow> config" where
  "new_config d =
     \<lparr>cfg_strings = df_strings d, cfg_longs = df_longs d, cfg_bools = df_bools d, cfg_doubles = df_doubles d\<rparr>"

definition setString :: "string config_item \<Rightarrow> string \<Rightarrow> config \<Rightarrow> config" where
  "setString item v cfg = cfg\<lparr>cfg_strings := (cfg_strings cfg)[ci_index item := v]\<rparr>"

definition getString :: "string config_item \<Rightarrow> config \<Rightarrow> string" where
  "getString item cfg = cfg_strings cfg ! ci_index item"

definition setLong :: "int config_item \<Rightarrow> int \<Rightarrow> config \<Rightarrow> config" where
  "setLong item v cfg = cfg\<lparr>cfg_longs := (cfg_longs cfg)[ci_index item := v]\<rparr>"

definition getLong :: "int config_item \<Rightarrow> config \<Rightarrow> int" where
  "getLong item cfg = cfg_longs cfg ! ci_index item"

definition setBool :: "bool config_item \<Rightarrow> bool \<Rightarrow> config \<Rightarrow> config" where
  "setBool item v cfg = cfg\<lparr>cfg_bools := (cfg_bools cfg)[ci_index item := v]\<rparr>"

definition getBool :: "bool config_item \<Rightarrow> config \<Rightarrow> bool" where
  "getBool item cfg = cfg_bools cfg ! ci_index item"

definition setDouble :: "decimal config_item \<Rightarrow> decimal \<Rightarrow> config \<Rightarrow> config" where
  "setDouble item v cfg = cfg\<lparr>cfg_doubles := (cfg_doubles cfg)[ci_index item := v]\<rparr>"

definition getDouble :: "decimal config_item \<Rightarrow> config \<Rightarrow> decimal" where
  "getDouble item cfg = cfg_doubles cfg ! ci_index item"

text \<open>\<open>load\<close>: the texts in the order the map yields them; a bad number stops it with an exception,
  an unknown name is skipped.\<close>

definition bool_text :: "string \<Rightarrow> bool" where
  "bool_text val \<longleftrightarrow> val = ''1'' \<or> strcaseeq val ''Y'' \<or> strcaseeq val ''true''"

fun read_value :: "cfg_type \<Rightarrow> string \<Rightarrow> num_error + cfg_value" where
  "read_value TString val = Inr (VString val)"
| "read_value TLong val = sbind (stol val) (\<lambda>n. Inr (VLong n))"
| "read_value TBool val = Inr (VBool (bool_text val))"
| "read_value TDouble val = sbind (stod val) (\<lambda>x. Inr (VDouble x))"

fun assign_value :: "nat \<Rightarrow> cfg_value \<Rightarrow> config \<Rightarrow> config" where
  "assign_value i (VString s) cfg = cfg\<lparr>cfg_strings := (cfg_strings cfg)[i := s]\<rparr>"
| "assign_value i (VLong n) cfg = cfg\<lparr>cfg_longs := (cfg_longs cfg)[i := n]\<rparr>"
| "assign_value i (VBool b) cfg = cfg\<lparr>cfg_bools := (cfg_bools cfg)[i := b]\<rparr>"
| "assign_value i (VDouble x) cfg = cfg\<lparr>cfg_doubles := (cfg_doubles cfg)[i := x]\<rparr>"

fun load_config :: "config_defaults \<Rightarrow> (string \<times> string) list \<Rightarrow> config \<Rightarrow> num_error + config" where
  "load_config d [] cfg = Inr cfg"
| "load_config d ((key, val) # settings) cfg =
     (case map_of (df_fields d) key of
        None \<Rightarrow> load_config d settings cfg
      | Some (ty, i) \<Rightarrow>
          sbind (read_value ty val) (\<lambda>v. load_config d settings (assign_value i v cfg)))"

section \<open>PlatformSettings\<close>

definition platform_decls :: "item_decl list" where
  "platform_decls =
     [DLong ''InputThreads'' 1, DLong ''SocketSendBufSize'' 0, DLong ''SocketRecvBufSize'' 0,
      DLong ''UpdateDelay'' 1000, DLong ''EpollTimeout'' 1000,
      DString ''LogPath'' ''./log'', DString ''DataPath'' ''./data'',
      DLong ''AdminWebsitePort'' 51234,
      DString ''CpuCores'' '''', DBool ''CpuAvoidHT'' False, DLong ''CpuNumaNode'' (- 1)]"

section \<open>SessionSettings\<close>

definition session_decls :: "item_decl list" where
  "session_decls =
     [DString ''BeginString'' '''',
      DString ''SenderCompID'' '''', DString ''TargetCompID'' '''',
      DBool ''TestSession'' False, DBool ''SendNextExpectedMsgSeqNum'' True,
      DBool ''ResetSeqNumOnLogon'' False, DBool ''AllowResetSeqNumFlag'' False,
      DBool ''TCPQuickAck'' True, DBool ''TCPNoDelay'' True,
      DString ''FIXDictionary'' '''',
      DBool ''RelaxedParsing'' False, DBool ''LoudParsing'' True,
      DBool ''ValidateRequiredFields'' False, DBool ''ParsingReorderTags'' False,
      DString ''StartTime'' ''00:00:00'', DString ''StopTime'' ''00:00:00'',
      DLong ''AcceptPort'' 0,
      DString ''ConnectHost'' '''', DLong ''ConnectPort'' 0,
      DBool ''TLSEnabled'' False, DBool ''TLSVerifyPeer'' True, DBool ''TLSRequireClientCert'' False,
      DString ''TLSCAFile'' '''', DString ''TLSCertFile'' '''', DString ''TLSKeyFile'' '''',
      DString ''TLSServerName'' '''',
      DLong ''ConnectTimeout'' 5000,
      DLong ''HeartbeatInterval'' 10, DLong ''LogonInterval'' 10, DLong ''ReconnectInterval'' 10,
      DDouble ''TestRequestThreshold'' (2, 0), DLong ''SendingTimeThreshold'' 10,
      DString ''SessionType'' '''']"

definition platform_defaults :: config_defaults where
  "platform_defaults = foldl register no_defaults platform_decls"

definition session_defaults :: config_defaults where
  "session_defaults = foldl register no_defaults session_decls"

text \<open>The item a declaration returns: registered after the declarations before it.\<close>

definition declared :: "string \<Rightarrow> config_defaults" where
  "declared name = foldl register no_defaults (takeWhile (\<lambda>x. decl_name x \<noteq> name) session_decls)"

definition BEGIN_STRING :: "string config_item" where
  "BEGIN_STRING = fst (createString ''BeginString'' '''' (declared ''BeginString''))"
definition SENDER_COMP_ID :: "string config_item" where
  "SENDER_COMP_ID = fst (createString ''SenderCompID'' '''' (declared ''SenderCompID''))"
definition TARGET_COMP_ID :: "string config_item" where
  "TARGET_COMP_ID = fst (createString ''TargetCompID'' '''' (declared ''TargetCompID''))"
definition IS_TEST :: "bool config_item" where
  "IS_TEST = fst (createBool ''TestSession'' False (declared ''TestSession''))"
definition SEND_NEXT_EXPECTED_MSG_SEQ_NUM :: "bool config_item" where
  "SEND_NEXT_EXPECTED_MSG_SEQ_NUM =
     fst (createBool ''SendNextExpectedMsgSeqNum'' True (declared ''SendNextExpectedMsgSeqNum''))"
definition RESET_SEQ_NUM_ON_LOGON :: "bool config_item" where
  "RESET_SEQ_NUM_ON_LOGON = fst (createBool ''ResetSeqNumOnLogon'' False (declared ''ResetSeqNumOnLogon''))"
definition FIX_DICTIONARY :: "string config_item" where
  "FIX_DICTIONARY = fst (createString ''FIXDictionary'' '''' (declared ''FIXDictionary''))"
definition RELAXED_PARSING :: "bool config_item" where
  "RELAXED_PARSING = fst (createBool ''RelaxedParsing'' False (declared ''RelaxedParsing''))"
definition VALIDATE_REQUIRED_FIELDS :: "bool config_item" where
  "VALIDATE_REQUIRED_FIELDS =
     fst (createBool ''ValidateRequiredFields'' False (declared ''ValidateRequiredFields''))"
definition PARSING_REORDER_TAGS :: "bool config_item" where
  "PARSING_REORDER_TAGS = fst (createBool ''ParsingReorderTags'' False (declared ''ParsingReorderTags''))"
definition HEARTBEAT_INTERVAL :: "int config_item" where
  "HEARTBEAT_INTERVAL = fst (createLong ''HeartbeatInterval'' 10 (declared ''HeartbeatInterval''))"
definition LOGON_INTERVAL :: "int config_item" where
  "LOGON_INTERVAL = fst (createLong ''LogonInterval'' 10 (declared ''LogonInterval''))"
definition RECONNECT_INTERVAL :: "int config_item" where
  "RECONNECT_INTERVAL = fst (createLong ''ReconnectInterval'' 10 (declared ''ReconnectInterval''))"
definition TEST_REQUEST_THRESHOLD :: "decimal config_item" where
  "TEST_REQUEST_THRESHOLD = fst (createDouble ''TestRequestThreshold'' (2, 0) (declared ''TestRequestThreshold''))"
definition SENDING_TIME_THRESHOLD :: "int config_item" where
  "SENDING_TIME_THRESHOLD = fst (createLong ''SendingTimeThreshold'' 10 (declared ''SendingTimeThreshold''))"
definition SESSION_TYPE_STR :: "string config_item" where
  "SESSION_TYPE_STR = fst (createString ''SessionType'' '''' (declared ''SessionType''))"

lemmas session_items_def =
  BEGIN_STRING_def SENDER_COMP_ID_def TARGET_COMP_ID_def IS_TEST_def SEND_NEXT_EXPECTED_MSG_SEQ_NUM_def
  RESET_SEQ_NUM_ON_LOGON_def FIX_DICTIONARY_def RELAXED_PARSING_def VALIDATE_REQUIRED_FIELDS_def
  PARSING_REORDER_TAGS_def HEARTBEAT_INTERVAL_def LOGON_INTERVAL_def RECONNECT_INTERVAL_def
  TEST_REQUEST_THRESHOLD_def SENDING_TIME_THRESHOLD_def SESSION_TYPE_STR_def

datatype session_type = ACCEPTOR | INITIATOR

definition getSessionType :: "config \<Rightarrow> exn + session_type" where
  "getSessionType cfg =
     (let tmp = getString SESSION_TYPE_STR cfg
      in if strcaseeq tmp ''initiator'' then Inr INITIATOR
         else if strcaseeq tmp ''acceptor'' then Inr ACCEPTOR
         else Inl (MisconfiguredSessionError (''Unknown session type: '' @ tmp)))"

definition getSessionID :: "config \<Rightarrow> string" where
  "getSessionID cfg = getString SENDER_COMP_ID cfg @ '':'' @ getString TARGET_COMP_ID cfg"

text \<open>The settings that \<open>Dictionary::parse\<close> reads.\<close>

definition parse_settings_of :: "config \<Rightarrow> parse_settings" where
  "parse_settings_of cfg =
     \<lparr>relaxedParsing = getBool RELAXED_PARSING cfg, validateRequired = getBool VALIDATE_REQUIRED_FIELDS cfg,
      reorderTags = getBool PARSING_REORDER_TAGS cfg\<rparr>"

section \<open>Loading\<close>

fun type_of :: "cfg_value \<Rightarrow> cfg_type" where
  "type_of (VString s) = TString"
| "type_of (VLong n) = TLong"
| "type_of (VBool b) = TBool"
| "type_of (VDouble x) = TDouble"

text \<open>The value in a slot, and whether a slot exists.\<close>

fun slot_value :: "config \<Rightarrow> cfg_type \<Rightarrow> nat \<Rightarrow> cfg_value" where
  "slot_value cfg TString i = VString (cfg_strings cfg ! i)"
| "slot_value cfg TLong i = VLong (cfg_longs cfg ! i)"
| "slot_value cfg TBool i = VBool (cfg_bools cfg ! i)"
| "slot_value cfg TDouble i = VDouble (cfg_doubles cfg ! i)"

fun slot_count :: "config \<Rightarrow> cfg_type \<Rightarrow> nat" where
  "slot_count cfg TString = length (cfg_strings cfg)"
| "slot_count cfg TLong = length (cfg_longs cfg)"
| "slot_count cfg TBool = length (cfg_bools cfg)"
| "slot_count cfg TDouble = length (cfg_doubles cfg)"

definition registry_ok :: "config_defaults \<Rightarrow> bool" where
  "registry_ok d \<longleftrightarrow>
     distinct (map snd (df_fields d))
     \<and> (\<forall>(name, ty, i) \<in> set (df_fields d). i < slot_count (new_config d) ty)"

lemma read_value_type: "read_value ty val = Inr v \<Longrightarrow> type_of v = ty"
  by (cases ty) (auto elim!: sbind_InrE)

lemma slot_count_assign [simp]: "slot_count (assign_value i v cfg) ty = slot_count cfg ty"
  by (cases v; cases ty) simp_all

lemma slot_value_assign:
  "i < slot_count cfg (type_of v) \<Longrightarrow>
   slot_value (assign_value i v cfg) ty j = (if ty = type_of v \<and> j = i then v else slot_value cfg ty j)"
  by (cases v; cases ty) (auto simp: nth_list_update)

lemma registry_slots:
  assumes "registry_ok d" "map_of (df_fields d) name = Some s" "map_of (df_fields d) name' = Some s"
  shows "name = name'"
proof -
  have "(name, s) \<in> set (df_fields d)" "(name', s) \<in> set (df_fields d)"
    using assms(2,3) by (simp_all add: map_of_SomeD)
  moreover have "inj_on snd (set (df_fields d))" using assms(1) by (simp add: registry_ok_def distinct_map)
  ultimately show ?thesis using inj_onD[of snd "set (df_fields d)" "(name, s)" "(name', s)"] by simp
qed

lemma load_slot:
  assumes "registry_ok d" "map_of (df_fields d) name = Some (ty, i)"
  shows "\<lbrakk>distinct (map fst settings); load_config d settings cfg = Inr cfg';
      \<And>t. slot_count cfg t = slot_count (new_config d) t\<rbrakk> \<Longrightarrow>
    (case map_of settings name of None \<Rightarrow> slot_value cfg' ty i = slot_value cfg ty i
     | Some val \<Rightarrow> read_value ty val = Inr (slot_value cfg' ty i))"
proof (induction settings arbitrary: cfg)
  case (Cons kv settings)
  obtain key val where kv: "kv = (key, val)" by force
  show ?case
  proof (cases "map_of (df_fields d) key")
    case None
    with Cons kv assms(2) show ?thesis by auto
  next
    case (Some tj)
    obtain ty' j where tj: "tj = (ty', j)" by force
    with Cons.prems(2) kv Some obtain v where v: "read_value ty' val = Inr v"
        "load_config d settings (assign_value j v cfg) = Inr cfg'"
      by (auto elim!: sbind_InrE)
    have "(key, ty', j) \<in> set (df_fields d)" using Some tj by (simp add: map_of_SomeD)
    with assms(1) have "j < slot_count (new_config d) ty'" by (auto simp: registry_ok_def)
    then have j: "j < slot_count cfg (type_of v)" using Cons.prems(3) read_value_type[OF v(1)] by simp
    note IH = Cons.IH[OF _ v(2)]
    show ?thesis
    proof (cases "key = name")
      case True
      with Cons.prems(1) kv have "map_of settings name = None" by (auto simp: map_of_eq_None_iff)
      moreover have "ty' = ty" "j = i" using True Some tj assms(2) by auto
      ultimately show ?thesis
        using IH Cons.prems(1,3) kv True v(1) j read_value_type[OF v(1)] slot_value_assign[OF j, of ty i] by simp
    next
      case False
      have "slot_value (assign_value j v cfg) ty i = slot_value cfg ty i"
        using False registry_slots[OF assms(1,2), of key] Some tj read_value_type[OF v(1)]
        by (auto simp: slot_value_assign[OF j])
      with False show ?thesis using IH Cons.prems(1,3) kv by (simp cong: option.case_cong)
    qed
  qed
qed simp

lemma load_slot_count: "load_config d settings cfg = Inr cfg' \<Longrightarrow> slot_count cfg' ty = slot_count cfg ty"
proof (induction settings arbitrary: cfg)
  case (Cons kv settings)
  obtain key val where kv: "kv = (key, val)" by force
  show ?case
  proof (cases "map_of (df_fields d) key")
    case (Some tj)
    with Cons.prems kv Cons.IH show ?thesis by (cases tj) (auto elim!: sbind_InrE)
  qed (use Cons kv in auto)
qed simp

fun decl_default :: "item_decl \<Rightarrow> cfg_value" where
  "decl_default (DString name def) = VString def"
| "decl_default (DLong name def) = VLong def"
| "decl_default (DBool name def) = VBool def"
| "decl_default (DDouble name def) = VDouble def"

lemma session_items [simp]:
  "ci_index BEGIN_STRING = 0" "ci_index SENDER_COMP_ID = 1" "ci_index TARGET_COMP_ID = 2"
  "ci_index FIX_DICTIONARY = 3" "ci_index SESSION_TYPE_STR = 11"
  "ci_index IS_TEST = 0" "ci_index SEND_NEXT_EXPECTED_MSG_SEQ_NUM = 1" "ci_index RESET_SEQ_NUM_ON_LOGON = 2"
  "ci_index RELAXED_PARSING = 6" "ci_index VALIDATE_REQUIRED_FIELDS = 8" "ci_index PARSING_REORDER_TAGS = 9"
  "ci_index HEARTBEAT_INTERVAL = 3" "ci_index LOGON_INTERVAL = 4" "ci_index RECONNECT_INTERVAL = 5"
  "ci_index SENDING_TIME_THRESHOLD = 6" "ci_index TEST_REQUEST_THRESHOLD = 0"
  by code_simp+

section \<open>Reading an item back\<close>

text \<open>The index in the item that a declaration returns, and what the getter of its type reads with it.\<close>

fun item_slot :: "config_defaults \<Rightarrow> item_decl \<Rightarrow> nat" where
  "item_slot d (DString name def) = ci_index (fst (createString name def d))"
| "item_slot d (DLong name def) = ci_index (fst (createLong name def d))"
| "item_slot d (DBool name def) = ci_index (fst (createBool name def d))"
| "item_slot d (DDouble name def) = ci_index (fst (createDouble name def d))"

fun read_item :: "config_defaults \<Rightarrow> item_decl \<Rightarrow> config \<Rightarrow> cfg_value" where
  "read_item d (DString name def) cfg = VString (getString (fst (createString name def d)) cfg)"
| "read_item d (DLong name def) cfg = VLong (getLong (fst (createLong name def d)) cfg)"
| "read_item d (DBool name def) cfg = VBool (getBool (fst (createBool name def d)) cfg)"
| "read_item d (DDouble name def) cfg = VDouble (getDouble (fst (createDouble name def d)) cfg)"

abbreviation item_type :: "item_decl \<Rightarrow> cfg_type" where
  "item_type x \<equiv> type_of (decl_default x)"

definition declared_before :: "item_decl list \<Rightarrow> string \<Rightarrow> config_defaults" where
  "declared_before decls name = foldl register no_defaults (takeWhile (\<lambda>x. decl_name x \<noteq> name) decls)"

lemma read_item_slot: "read_item d x cfg = slot_value cfg (item_type x) (item_slot d x)"
  by (cases x) (simp_all add: getString_def getLong_def getBool_def getDouble_def)

lemma register_facts:
  "df_fields (register d x) = hmap_emplace (df_fields d) (decl_name x) (item_type x, item_slot d x)"
  "item_slot d x = slot_count (new_config d) (item_type x)"
  "slot_count (new_config (register d x)) t = slot_count (new_config d) t + (if t = item_type x then 1 else 0)"
  "i < slot_count (new_config d) t \<Longrightarrow> slot_value (new_config (register d x)) t i = slot_value (new_config d) t i"
  "slot_value (new_config (register d x)) (item_type x) (item_slot d x) = decl_default x"
  by (cases x; cases t;
      simp add: createString_def createLong_def createBool_def createDouble_def new_config_def Let_def nth_append)+

text \<open>What later declarations leave alone: the entry, its slot and the value in it.\<close>

definition registered_as :: "config_defaults \<Rightarrow> item_decl \<Rightarrow> nat \<Rightarrow> bool" where
  "registered_as d x i \<longleftrightarrow> map_of (df_fields d) (decl_name x) = Some (item_type x, i)
     \<and> i < slot_count (new_config d) (item_type x) \<and> slot_value (new_config d) (item_type x) i = decl_default x"

lemma registered_stays: "registered_as d x i \<Longrightarrow> registered_as (foldl register d decls) x i"
proof (induction decls arbitrary: d)
  case (Cons y decls)
  from Cons.prems have "registered_as (register d y) x i"
    using register_facts(4)[of i d "item_type x" y]
    by (auto simp: registered_as_def register_facts(1,3) hmap_emplace_def update_conv' split: option.split)
  with Cons.IH show ?case by simp
qed simp

lemma registered_now:
  "map_of (df_fields d) (decl_name x) = None \<Longrightarrow> registered_as (register d x) x (item_slot d x)"
  by (simp add: registered_as_def register_facts(1,3,5) hmap_emplace_def update_conv') (simp add: register_facts(2))

lemma registered_names:
  "map_of (df_fields (foldl register no_defaults decls)) name = None \<longleftrightarrow> name \<notin> decl_name ` set decls"
proof (induction decls rule: rev_induct)
  case (snoc x decls)
  then show ?case
    by (auto simp: register_facts(1) hmap_emplace_def update_conv' split: option.split)
qed (simp add: no_defaults_def)

lemma update_new: "k \<notin> fst ` set m \<Longrightarrow> AList.update k v m = m @ [(k, v)]"
  by (induction m) auto

lemma registry_ok_register: "registry_ok d \<Longrightarrow> registry_ok (register d x)"
proof -
  assume ok: "registry_ok d"
  let ?s = "(item_type x, item_slot d x)"
  have new: "?s \<notin> set (map snd (df_fields d))"
  proof
    assume "?s \<in> set (map snd (df_fields d))"
    then obtain name where "(name, ?s) \<in> set (df_fields d)" by auto
    with ok show False by (auto simp: registry_ok_def register_facts(2))
  qed
  have grows: "slot_count (new_config d) t \<le> slot_count (new_config (register d x)) t" for t
    by (simp add: register_facts(3))
  have old: "i < slot_count (new_config (register d x)) t" if "(name, t, i) \<in> set (df_fields d)" for name t i
    using ok that grows[of t] by (fastforce simp: registry_ok_def)
  show ?thesis
  proof (cases "map_of (df_fields d) (decl_name x)")
    case None
    then have "decl_name x \<notin> fst ` set (df_fields d)" by (simp add: map_of_eq_None_iff)
    then have "AList.update (decl_name x) ?s (df_fields d) = df_fields d @ [(decl_name x, ?s)]"
      by (rule update_new)
    with None ok new old show ?thesis
      by (auto simp: registry_ok_def register_facts(1-3) hmap_emplace_def)
  next
    case (Some y)
    with ok old show ?thesis by (auto simp: registry_ok_def register_facts(1) hmap_emplace_def)
  qed
qed

lemma registry_ok_all: "registry_ok (foldl register no_defaults decls)"
  by (induction decls rule: rev_induct) (simp add: registry_ok_def no_defaults_def, simp add: registry_ok_register)

lemma item_registered:
  assumes "distinct (map decl_name decls)" "x \<in> set decls"
  shows "registered_as (foldl register no_defaults decls) x (item_slot (declared_before decls (decl_name x)) x)"
proof -
  obtain pre post where d: "decls = pre @ x # post" using assms(2) by (meson split_list)
  with assms(1) have n: "decl_name x \<notin> decl_name ` set pre" by auto
  then have "takeWhile (\<lambda>y. decl_name y \<noteq> decl_name x) decls = pre"
    unfolding d by (subst takeWhile_append2) (auto simp: image_iff)
  then have b: "declared_before decls (decl_name x) = foldl register no_defaults pre" by (simp add: declared_before_def)
  have "registered_as (register (foldl register no_defaults pre) x) x (item_slot (foldl register no_defaults pre) x)"
    by (rule registered_now) (use n registered_names in blast)
  from registered_stays[OF this, of post] show ?thesis by (simp add: b[unfolded d] d)
qed

text \<open>C40: a setting is read as it was configured. Take the declarations of a settings class, with
  distinct names, and load settings that name each key once. For each declaration, the getter of its type,
  called with the item that the declaration returned when the class was initialised, reads inside
  the vector of its type, and returns the value that the text under the item's name denotes, or the
  declared default when the settings do not name it. This holds for every class of settings; the
  two of the program have distinct names (\<open>program_decls_distinct\<close>).\<close>

theorem settings_read_back:
  assumes "distinct (map decl_name decls)" "distinct (map fst settings)" "x \<in> set decls"
    and "load_config (foldl register no_defaults decls) settings (new_config (foldl register no_defaults decls)) = Inr cfg"
  shows "item_slot (declared_before decls (decl_name x)) x < slot_count cfg (item_type x)
    \<and> (case map_of settings (decl_name x) of
         None \<Rightarrow> read_item (declared_before decls (decl_name x)) x cfg = decl_default x
       | Some val \<Rightarrow> read_value (item_type x) val = Inr (read_item (declared_before decls (decl_name x)) x cfg))"
proof -
  let ?d = "foldl register no_defaults decls" and ?i = "item_slot (declared_before decls (decl_name x)) x"
  have reg: "map_of (df_fields ?d) (decl_name x) = Some (item_type x, ?i)" "?i < slot_count (new_config ?d) (item_type x)"
    "slot_value (new_config ?d) (item_type x) ?i = decl_default x"
    using item_registered[OF assms(1,3)] by (simp_all add: registered_as_def)
  from load_slot[OF registry_ok_all reg(1) assms(2,4)] reg(2,3) load_slot_count[OF assms(4)] show ?thesis
    by (simp add: read_item_slot cong: option.case_cong)
qed

lemma program_decls_distinct: "distinct (map decl_name session_decls)" "distinct (map decl_name platform_decls)"
  by code_simp+

lemma declared_session: "declared_before session_decls name = declared name"
  by (simp add: declared_before_def declared_def)

lemma settings_read_back_witness:
  "\<exists>cfg. load_config session_defaults [(''BeginString'', ''FIX.4.2''), (''HeartbeatInterval'', ''30'')]
      (new_config session_defaults) = Inr cfg
    \<and> getString BEGIN_STRING cfg = ''FIX.4.2'' \<and> getLong HEARTBEAT_INTERVAL cfg = 30 \<and> getLong LOGON_INTERVAL cfg = 10"
proof -
  let ?settings = "[(''BeginString'', ''FIX.4.2''), (''HeartbeatInterval'', ''30'')]"
  obtain cfg where cfg: "load_config session_defaults ?settings (new_config session_defaults) = Inr cfg"
  proof (cases "load_config session_defaults ?settings (new_config session_defaults)")
    case (Inl e)
    moreover have "\<not> isl (load_config session_defaults ?settings (new_config session_defaults))" by code_simp
    ultimately show ?thesis by simp
  qed
  have d: "distinct (map fst ?settings)" by simp
  have mem: "DString ''BeginString'' [] \<in> set session_decls" "DLong ''HeartbeatInterval'' 10 \<in> set session_decls"
    "DLong ''LogonInterval'' 10 \<in> set session_decls" by (simp_all add: session_decls_def)
  note rb = settings_read_back[OF program_decls_distinct(1) d _ cfg[unfolded session_defaults_def], unfolded declared_session]
  have "stol ''30'' = Inr 30" by code_simp
  then have "getString BEGIN_STRING cfg = ''FIX.4.2''" "getLong HEARTBEAT_INTERVAL cfg = 30" "getLong LOGON_INTERVAL cfg = 10"
    using rb[OF mem(1)] rb[OF mem(2)] rb[OF mem(3)]
    by (simp_all add: BEGIN_STRING_def HEARTBEAT_INTERVAL_def LOGON_INTERVAL_def)
  with cfg show ?thesis by blast
qed

end
