(* ===== verification/NetworkHandler.thy ===== *)
theory NetworkHandler
  imports Prelude
begin

text \<open>
  \<open>NetworkHandler\<close> and \<open>ConnectionHandle\<close> of \<^verbatim>\<open>src/Network.h\<close> and \<^verbatim>\<open>src/Network.cpp\<close>: a session's end
  of its connection. The packets it hands to its connections are recorded in order, each with
  whether it went out at once (its callback is run by \<open>send\<close>) or into the write queue of the
  reader thread (its callback waits with it). Whether an inline send can complete is the
  argument \<open>inline\<close> of \<open>send\<close>: it depends on the socket, on TLS and on what is queued already.
\<close>

section \<open>State\<close>

record 'cb packet =
  pk_msg :: string
  pk_callback :: "'cb option"
  pk_inline :: bool

record 'cb network_handler =
  nh_connection :: bool
  nh_valid :: bool
  nh_connected :: bool
  nh_stopped :: bool
  nh_packets :: "'cb packet list"
  nh_disconnects :: nat

definition new_handler :: "'cb network_handler" where
  "new_handler =
     \<lparr>nh_connection = False, nh_valid = True, nh_connected = False, nh_stopped = False,
      nh_packets = [], nh_disconnects = 0\<rparr>"

section \<open>Operations\<close>

definition isConnected :: "'cb network_handler \<Rightarrow> bool" where
  "isConnected h = nh_connected h"

definition setConnection :: "bool \<Rightarrow> 'cb network_handler \<Rightarrow> 'cb network_handler" where
  "setConnection connection h = h\<lparr>nh_connection := connection, nh_valid := True, nh_connected := connection\<rparr>"

definition invalidate :: "'cb network_handler \<Rightarrow> 'cb network_handler" where
  "invalidate h = h\<lparr>nh_valid := False, nh_connected := False\<rparr>"

text \<open>\<open>ConnectionHandle::disconnect\<close> closes the descriptor and invalidates this handler.\<close>

definition connection_disconnect :: "'cb network_handler \<Rightarrow> 'cb network_handler" where
  "connection_disconnect h = invalidate (h\<lparr>nh_disconnects := Suc (nh_disconnects h)\<rparr>)"

definition disconnect :: "'cb network_handler \<Rightarrow> 'cb network_handler" where
  "disconnect h =
     (let h1 = h\<lparr>nh_connected := False\<rparr>
      in if nh_connection h1 then
           (if \<not> nh_valid h1 then h1\<lparr>nh_connection := False\<rparr>
            else (connection_disconnect h1)\<lparr>nh_connection := False\<rparr>)
         else h1)"

definition trySendInline :: "bool \<Rightarrow> string \<Rightarrow> 'cb network_handler \<Rightarrow> bool \<times> 'cb network_handler" where
  "trySendInline inline msg h =
     (if inline
      then (True, h\<lparr>nh_packets := nh_packets h @ [\<lparr>pk_msg = msg, pk_callback = None, pk_inline = True\<rparr>]\<rparr>)
      else (False, h))"

definition queueWrite :: "string \<Rightarrow> 'cb option \<Rightarrow> 'cb network_handler \<Rightarrow> 'cb network_handler" where
  "queueWrite msg cb h =
     h\<lparr>nh_packets := nh_packets h @ [\<lparr>pk_msg = msg, pk_callback = cb, pk_inline = False\<rparr>]\<rparr>"

text \<open>\<open>send\<close> returns the callback that the caller's thread has to run after the lock is released.\<close>

definition nh_send :: "bool \<Rightarrow> string \<Rightarrow> 'cb option \<Rightarrow> 'cb network_handler \<Rightarrow> 'cb option \<times> 'cb network_handler" where
  "nh_send inline msg cb h =
     (if nh_connection h then
        (if \<not> nh_valid h then (None, h\<lparr>nh_connection := False\<rparr>)
         else case trySendInline inline msg h of
           (True, h1) \<Rightarrow> (cb, h1)
         | (False, h1) \<Rightarrow> (None, queueWrite msg cb h1))
      else (None, h))"

text \<open>\<open>stop\<close> disconnects once; whether the acceptor is then removed is for the network.\<close>

definition nh_stop :: "'cb network_handler \<Rightarrow> 'cb network_handler" where
  "nh_stop h = (if nh_stopped h then h else disconnect (h\<lparr>nh_stopped := True\<rparr>))"

section \<open>The contract of a connection\<close>

text \<open>
  What the session relies on: nothing goes out without a live connection, a packet that goes out
  is recorded whole with its callback run or kept, and after a disconnect the handler is
  unconnected until a new connection is set.
\<close>

definition live :: "'cb network_handler \<Rightarrow> bool" where
  "live h \<longleftrightarrow> nh_connection h \<and> nh_valid h"

definition handler_ok :: "'cb network_handler \<Rightarrow> bool" where
  "handler_ok h \<longleftrightarrow> (nh_connected h \<longleftrightarrow> live h)"

locale connection =
  fixes conn :: "'h \<Rightarrow> bool" and ok :: "'h \<Rightarrow> bool"
    and sent :: "'h \<Rightarrow> string list"
    and transmit :: "bool \<Rightarrow> string \<Rightarrow> 'cb option \<Rightarrow> 'h \<Rightarrow> 'cb option \<times> 'h"
    and hangup :: "'h \<Rightarrow> 'h" and attach :: "'h \<Rightarrow> 'h"
  assumes ok_transmit: "ok h \<Longrightarrow> ok (snd (transmit i m cb h))"
    and ok_hangup: "ok h \<Longrightarrow> ok (hangup h)"
    and ok_attach: "ok (attach h)"
    and conn_hangup: "\<not> conn (hangup h)"
    and conn_attach: "conn (attach h)"
    and conn_transmit: "ok h \<Longrightarrow> conn (snd (transmit i m cb h)) = conn h"
    and sent_transmit: "ok h \<Longrightarrow> sent (snd (transmit i m cb h)) = (if conn h then sent h @ [m] else sent h)"
    and sent_hangup: "sent (hangup h) = sent h"
    and callback_transmit: "ok h \<Longrightarrow> fst (transmit i m cb h) = (if conn h \<and> i then cb else None)"
begin

definition send_all :: "(bool \<times> string) list \<Rightarrow> 'h \<Rightarrow> 'h" where
  "send_all ms h = foldl (\<lambda>h (i, m). snd (transmit i m None h)) h ms"

lemma send_all_simps [simp]:
  "send_all [] h = h" "send_all ((i, m) # ms) h = send_all ms (snd (transmit i m None h))"
  by (simp_all add: send_all_def)

lemma send_all_in_order:
  "ok h \<Longrightarrow> ok (send_all ms h) \<and> conn (send_all ms h) = conn h
     \<and> sent (send_all ms h) = (if conn h then sent h @ map snd ms else sent h)"
proof (induction ms arbitrary: h)
  case (Cons x ms)
  obtain i m where "x = (i, m)" by force
  with Cons show ?case by (simp add: ok_transmit conn_transmit sent_transmit)
qed simp

lemma nothing_after_hangup: "ok h \<Longrightarrow> sent (send_all ms (hangup h)) = sent h"
  using send_all_in_order[OF ok_hangup, of h ms] by (simp add: conn_hangup sent_hangup)

end

lemmas handler_defs =
  isConnected_def setConnection_def invalidate_def connection_disconnect_def disconnect_def
  trySendInline_def queueWrite_def nh_send_def nh_stop_def

definition handler_sent :: "'cb network_handler \<Rightarrow> string list" where
  "handler_sent h = map pk_msg (nh_packets h)"

interpretation handler: connection isConnected handler_ok handler_sent nh_send disconnect "setConnection True"
  by unfold_locales (auto simp: handler_defs handler_ok_def live_def handler_sent_def Let_def)

section \<open>Properties\<close>

text \<open>Packets leave in the order they were handed over, inline or queued, each whole; after a
  disconnect nothing more goes out and no callback is run until a new connection is set.\<close>

theorem handler_sends_in_order:
  assumes "handler_ok h"
  shows "handler_sent (handler.send_all ms h) = (if isConnected h then handler_sent h @ map snd ms else handler_sent h)
    \<and> handler_sent (handler.send_all ms (disconnect h)) = handler_sent h"
  using handler.send_all_in_order[OF assms, of ms] handler.nothing_after_hangup[OF assms, of ms] by simp_all

lemma handler_sends_in_order_witness:
  "handler_sent (handler.send_all [(True, ''a''), (False, ''b'')] (setConnection True (new_handler :: nat network_handler)))
     = [''a'', ''b'']"
proof -
  have "handler_ok (setConnection True (new_handler :: nat network_handler))"
    by (simp add: handler_ok_def live_def setConnection_def new_handler_def)
  from handler_sends_in_order[OF this, of "[(True, ''a''), (False, ''b'')]"] show ?thesis
    by (simp add: isConnected_def setConnection_def new_handler_def handler_sent_def)
qed

end
