(* ===== verification/Session.thy ===== *)
theory Session
  imports FixCache FixConfig NetworkHandler
begin

text \<open>
  \<^verbatim>\<open>src/Session.h\<close>, \<^verbatim>\<open>src/Session.cpp\<close>, \<^verbatim>\<open>src/Messages.h\<close>: the FIX session. A handler is a state
  transformer that may throw (\<open>('e, 's, 'a) st\<close>): its text follows the code statement by
  statement, and what happened before a throw stays.

  \<^item> Fixed for a session (\<open>session_env\<close>): its settings and dictionary; the delegate, which is code
    of the application and may itself call the session; and what the operating system answers: the
    clock, whether an inline send completes and whether a connection attempt succeeds. An answer
    is indexed by the number of questions asked before it (\<open>s_tick\<close>).
  \<^item> The session's members are the fields of \<open>session\<close>. The logger handle is the pair of writer
    instances behind it. Calls of the delegate are recorded in \<open>s_delegated\<close>.
  \<^item> Times are milliseconds (microseconds in \<open>m_cachedEpochUs\<close>) as integers.
\<close>

section \<open>Message types\<close>

abbreviation MSG_HEARTBEAT :: string where "MSG_HEARTBEAT \<equiv> ''0''"
abbreviation MSG_TEST_REQUEST :: string where "MSG_TEST_REQUEST \<equiv> ''1''"
abbreviation MSG_RESEND_REQUEST :: string where "MSG_RESEND_REQUEST \<equiv> ''2''"
abbreviation MSG_REJECT :: string where "MSG_REJECT \<equiv> ''3''"
abbreviation MSG_SEQUENCE_RESET :: string where "MSG_SEQUENCE_RESET \<equiv> ''4''"
abbreviation MSG_LOGOUT :: string where "MSG_LOGOUT \<equiv> ''5''"
abbreviation MSG_LOGON :: string where "MSG_LOGON \<equiv> ''A''"

definition SESSION_MSGS :: "string list" where
  "SESSION_MSGS =
     [MSG_HEARTBEAT, MSG_TEST_REQUEST, MSG_RESEND_REQUEST, MSG_SEQUENCE_RESET, MSG_LOGOUT, MSG_LOGON]"

datatype reject_reason =
    InvalidTagNum | RequiredTagMissing | TagNotDefinedForMsg | UndefinedTag | TagWithoutValue
  | IncorrectValueForTag | IncorrectFormatForValue | DecryptionProblem | SignatureProblem
  | CompIDProblem | SendingTimeProblem | InvalidMsgType

fun reason_code :: "reject_reason \<Rightarrow> int" where
  "reason_code InvalidTagNum = 0"
| "reason_code RequiredTagMissing = 1"
| "reason_code TagNotDefinedForMsg = 2"
| "reason_code UndefinedTag = 3"
| "reason_code TagWithoutValue = 4"
| "reason_code IncorrectValueForTag = 5"
| "reason_code IncorrectFormatForValue = 6"
| "reason_code DecryptionProblem = 7"
| "reason_code SignatureProblem = 8"
| "reason_code CompIDProblem = 9"
| "reason_code SendingTimeProblem = 10"
| "reason_code InvalidMsgType = 11"

section \<open>State\<close>

datatype session_state = LOGON | READY | TEST_REQUEST | KILLING | LOGOUT

text \<open>A send callback: the closure of \<open>sendLogout\<close>, or one the application passed.\<close>

datatype send_callback = TerminateWith string | AppCallback nat

datatype delegate_event =
    OnMessage message | OnAdminMessage message | OnLogon | OnLogout | OnSent nat

record session =
  s_state :: session_state
  s_cache :: fix_cache_state
  s_network :: "send_callback network_handler"
  s_evtLogger :: writer
  s_msgLogger :: writer
  s_enabled :: bool
  s_lastSentHeartbeat :: int
  s_lastRecvHeartbeat :: int
  s_lastSentTestRequest :: int
  s_heartbeatInterval :: int
  s_lastLogon :: int
  s_logoutTime :: int
  s_logonInterval :: int
  s_lastReconnect :: int
  s_reconnectInterval :: int
  s_lastUpdate :: int
  s_testReqID :: int
  s_cachedEpochUs :: int
  s_writeTs :: ts_cache
  s_utcTs :: ts_cache
  s_tick :: nat
  s_delegated :: "delegate_event list"

type_synonym 'a act = "(exn, session, 'a) st"

record session_env =
  e_settings :: config
  e_dictionary :: dictionary
  e_delegate :: "(delegate_event \<Rightarrow> unit act) option"
  e_clock :: "nat \<Rightarrow> nat"
  e_inline :: "nat \<Rightarrow> bool"
  e_connects :: "nat \<Rightarrow> bool"

definition on_cache :: "(fix_cache_state \<Rightarrow> fix_cache_state) \<Rightarrow> unit act" where
  "on_cache f = st_mod (\<lambda>s. s\<lparr>s_cache := f (s_cache s)\<rparr>)"

definition on_network :: "(send_callback network_handler \<Rightarrow> send_callback network_handler) \<Rightarrow> unit act" where
  "on_network f = st_mod (\<lambda>s. s\<lparr>s_network := f (s_network s)\<rparr>)"

definition set_state :: "session_state \<Rightarrow> unit act" where
  "set_state x = st_mod (\<lambda>s. s\<lparr>s_state := x\<rparr>)"

definition when_do :: "bool \<Rightarrow> unit act \<Rightarrow> unit act" where
  "when_do b m = (if b then m else st_ret ())"

definition ask :: "(nat \<Rightarrow> 'a) \<Rightarrow> 'a act" where
  "ask oracle = (\<lambda>s. (Inr (oracle (s_tick s)), s\<lparr>s_tick := Suc (s_tick s)\<rparr>))"

section \<open>Clock, logger and delegate\<close>

definition getEpochMicros :: "session_env \<Rightarrow> int act" where
  "getEpochMicros env = st_bind (ask (e_clock env)) (\<lambda>us. st_ret (int us))"

definition getEpochMillis :: "session_env \<Rightarrow> int act" where
  "getEpochMillis env = st_bind (ask (e_clock env)) (\<lambda>us. st_ret (int (us div 1000)))"

definition getUTCTimestamp :: "session_env \<Rightarrow> string act" where
  "getUTCTimestamp env =
     st_bind (ask (e_clock env)) (\<lambda>us s.
       case writeUTCTimestamp (s_utcTs s) (us div 1000) of (ts, c) \<Rightarrow> (Inr ts, s\<lparr>s_utcTs := c\<rparr>))"

definition writeTimestamp :: "int \<Rightarrow> string act" where
  "writeTimestamp epoch_ms =
     (\<lambda>s. case writeUTCTimestamp (s_writeTs s) (nat epoch_ms) of (ts, c) \<Rightarrow> (Inr ts, s\<lparr>s_writeTs := c\<rparr>))"

definition logEvent :: "string \<Rightarrow> unit act" where
  "logEvent event = st_mod (\<lambda>s. s\<lparr>s_evtLogger := write_text (s_evtLogger s) (event @ [CHR 0x0A])\<rparr>)"

definition logMessage :: "int \<Rightarrow> string \<Rightarrow> bool \<Rightarrow> unit act" where
  "logMessage epoch_us msg inbound =
     st_mod (\<lambda>s. s\<lparr>s_msgLogger := writeMessage (s_msgLogger s) (nat epoch_us) inbound msg\<rparr>)"

text \<open>The handle's other \<open>logMessage\<close>, which reads the clock itself.\<close>

datatype direction = INBOUND | OUTBOUND

definition logMessage_now :: "session_env \<Rightarrow> string \<Rightarrow> direction \<Rightarrow> unit act" where
  "logMessage_now env msg dir = st_bind (getEpochMicros env) (\<lambda>us. logMessage us msg (dir = INBOUND))"

definition call_delegate :: "session_env \<Rightarrow> delegate_event \<Rightarrow> unit act" where
  "call_delegate env ev =
     (case e_delegate env of
        None \<Rightarrow> st_ret ()
      | Some app \<Rightarrow> st_seq (st_mod (\<lambda>s. s\<lparr>s_delegated := s_delegated s @ [ev]\<rparr>)) (app ev))"

section \<open>Sequence numbers\<close>

definition getSenderSeqNum :: "int act" where
  "getSenderSeqNum = st_get (\<lambda>s. c_senderSeqNum (s_cache s))"

definition getTargetSeqNum :: "int act" where
  "getTargetSeqNum = st_get (\<lambda>s. c_targetSeqNum (s_cache s))"

definition setSenderSeqNum :: "int \<Rightarrow> unit act" where
  "setSenderSeqNum num = on_cache (cache_setSenderSeqNum num)"

definition setTargetSeqNum :: "int \<Rightarrow> unit act" where
  "setTargetSeqNum num = on_cache (cache_setTargetSeqNum num)"

definition nextSenderSeqNum :: "unit act" where
  "nextSenderSeqNum = on_cache (\<lambda>c. snd (cache_nextSenderSeqNum c))"

definition nextTargetSeqNum :: "unit act" where
  "nextTargetSeqNum = on_cache (\<lambda>c. snd (cache_nextTargetSeqNum c))"

definition load_session :: "bool act" where
  "load_session =
     (\<lambda>s. case cache_load (s_cache s) of
        Inl e \<Rightarrow> (Inr False, s) | Inr c \<Rightarrow> (Inr True, s\<lparr>s_cache := c\<rparr>))"

definition reset_session :: "unit act" where
  "reset_session = on_cache cache_reset"

section \<open>Sending\<close>

definition terminate :: "string \<Rightarrow> unit act" where
  "terminate reason =
     st_seq (logEvent (''Terminating: '' @ reason))
    (st_seq (on_network disconnect)
            (set_state LOGON))"

fun run_callback :: "session_env \<Rightarrow> send_callback option \<Rightarrow> unit act" where
  "run_callback env None = st_ret ()"
| "run_callback env (Some (TerminateWith reason)) = terminate reason"
| "run_callback env (Some (AppCallback i)) = call_delegate env (OnSent i)"

definition network_send :: "session_env \<Rightarrow> string \<Rightarrow> send_callback option \<Rightarrow> unit act" where
  "network_send env msg cb =
     st_bind (ask (e_inline env)) (\<lambda>inline.
     st_bind (\<lambda>s. case nh_send inline msg cb (s_network s) of (r, h) \<Rightarrow> (Inr r, s\<lparr>s_network := h\<rparr>))
             (run_callback env))"

definition internal_send_wire :: "session_env \<Rightarrow> string \<Rightarrow> send_callback option \<Rightarrow> int \<Rightarrow> unit act" where
  "internal_send_wire env msg cb epoch_us =
     st_bind (st_get (\<lambda>s. isConnected (s_network s))) (\<lambda>connected.
     when_do connected
       (st_seq (logMessage epoch_us msg False)
       (st_seq (network_send env msg cb)
               (st_mod (\<lambda>s. s\<lparr>s_lastSentHeartbeat := cdiv epoch_us 1000\<rparr>)))))"

definition send_time :: "session_env \<Rightarrow> int act" where
  "send_time env =
     st_bind (st_get s_cachedEpochUs) (\<lambda>cached. if cached \<noteq> 0 then st_ret cached else getEpochMicros env)"

definition internal_send :: "session_env \<Rightarrow> message \<Rightarrow> send_callback option \<Rightarrow> unit act" where
  "internal_send env msg cb =
     st_bind (send_time env) (internal_send_wire env (toString True msg) cb)"

definition populateMessage :: "session_env \<Rightarrow> message \<Rightarrow> int \<Rightarrow> (int \<times> message) act" where
  "populateMessage env msg epoch_ms0 =
     st_bind (if epoch_ms0 = 0 then getEpochMillis env else st_ret epoch_ms0) (\<lambda>epoch_ms.
     st_bind getSenderSeqNum (\<lambda>seqnum.
     let h1 = setFieldView FIELD_BeginString (getString BEGIN_STRING (e_settings env)) False (m_header msg);
         h2 = setFieldView FIELD_SenderCompID (getString SENDER_COMP_ID (e_settings env)) False h1;
         h3 = setFieldView FIELD_TargetCompID (getString TARGET_COMP_ID (e_settings env)) False h2
     in st_bind (writeTimestamp epoch_ms) (\<lambda>ts.
        st_bind (st_lift (setField FIELD_SendingTime ts False h3)) (\<lambda>h4.
        st_bind (st_lift (setFieldInt FIELD_MsgSeqNum seqnum False h4)) (\<lambda>h5.
        st_ret (seqnum, msg\<lparr>m_header := h5\<rparr>))))))"

text \<open>\<open>send\<close> stamps the caller's message, which it returns.\<close>

definition send :: "session_env \<Rightarrow> message \<Rightarrow> send_callback option \<Rightarrow> message act" where
  "send env msg cb =
     st_bind (send_time env) (\<lambda>epoch_us.
     st_bind (populateMessage env msg (cdiv epoch_us 1000)) (\<lambda>(seqnum, msg').
     let wire = toString True msg'
     in st_seq (on_cache (cache_message seqnum wire))
       (st_seq nextSenderSeqNum
       (st_seq (internal_send_wire env wire cb epoch_us)
               (st_ret msg')))))"

definition set_body :: "int \<Rightarrow> string \<Rightarrow> message \<Rightarrow> message act" where
  "set_body tag value msg =
     st_bind (st_lift (setField tag value True (m_body msg))) (\<lambda>b. st_ret (msg\<lparr>m_body := b\<rparr>))"

definition set_header :: "int \<Rightarrow> string \<Rightarrow> message \<Rightarrow> message act" where
  "set_header tag value msg =
     st_bind (st_lift (setField tag value True (m_header msg))) (\<lambda>h. st_ret (msg\<lparr>m_header := h\<rparr>))"

definition createMessage :: "session_env \<Rightarrow> string \<Rightarrow> message act" where
  "createMessage env msgType = st_lift (create (e_dictionary env) msgType)"

definition send_only :: "session_env \<Rightarrow> send_callback option \<Rightarrow> message \<Rightarrow> unit act" where
  "send_only env cb msg = st_bind (send env msg cb) (\<lambda>_. st_ret ())"

definition sendHeartbeat :: "session_env \<Rightarrow> string \<Rightarrow> unit act" where
  "sendHeartbeat env testReqID =
     st_bind (createMessage env MSG_HEARTBEAT) (\<lambda>msg.
     st_bind (if testReqID \<noteq> [] then set_body FIELD_TestReqID testReqID msg else st_ret msg)
             (send_only env None))"

definition sendLogon :: "session_env \<Rightarrow> bool \<Rightarrow> unit act" where
  "sendLogon env shouldReset =
     st_bind (createMessage env MSG_LOGON) (\<lambda>m0.
     st_bind (st_get s_heartbeatInterval) (\<lambda>hb.
     st_bind (set_body FIELD_HeartBtInt (dec_int (wrap32 (cdiv hb 1000))) m0) (\<lambda>m1.
     st_bind (set_body FIELD_EncryptMethod ''0'' m1) (\<lambda>m2.
     st_bind (if getBool SEND_NEXT_EXPECTED_MSG_SEQ_NUM (e_settings env)
              then st_bind getTargetSeqNum (\<lambda>n. set_header FIELD_NextExpectedMsgSeqNum (dec_int n) m2)
              else st_ret m2) (\<lambda>m3.
     st_bind (if shouldReset then set_header FIELD_ResetSeqNumFlag ''Y'' m3 else st_ret m3) (\<lambda>m4.
     st_seq (send_only env None m4)
       (st_bind (getEpochMillis env) (\<lambda>t. st_mod (\<lambda>s. s\<lparr>s_lastLogon := t\<rparr>)))))))))"

definition sendLogout :: "session_env \<Rightarrow> string \<Rightarrow> bool \<Rightarrow> unit act" where
  "sendLogout env reason term =
     st_bind (createMessage env MSG_LOGOUT) (\<lambda>m0.
     st_bind (if reason \<noteq> [] then set_body FIELD_Text reason m0 else st_ret m0)
             (send_only env (if term then Some (TerminateWith reason) else None)))"

definition sendResendRequest :: "session_env \<Rightarrow> int \<Rightarrow> int \<Rightarrow> unit act" where
  "sendResendRequest env from to =
     st_bind (createMessage env MSG_RESEND_REQUEST) (\<lambda>m0.
     st_bind (set_body FIELD_BeginSeqNo (dec_int from) m0) (\<lambda>m1.
     st_bind (set_body FIELD_EndSeqNo (dec_int to) m1)
             (send_only env None)))"

definition sendSequenceReset :: "session_env \<Rightarrow> int \<Rightarrow> int \<Rightarrow> bool \<Rightarrow> unit act" where
  "sendSequenceReset env seqno new_seqno gapfill =
     st_bind (createMessage env MSG_SEQUENCE_RESET) (\<lambda>m0.
     st_bind (populateMessage env m0 0) (\<lambda>(_, m1).
     st_bind (getUTCTimestamp env) (\<lambda>ts.
     st_bind (set_header FIELD_OrigSendingTime ts m1) (\<lambda>m2.
     st_bind (set_header FIELD_MsgSeqNum (dec_int seqno) m2) (\<lambda>m3.
     st_bind (set_header FIELD_PossDupFlag ''Y'' m3) (\<lambda>m4.
     st_bind (set_body FIELD_NewSeqNo (dec_int new_seqno) m4) (\<lambda>m5.
     st_bind (if gapfill then set_body FIELD_GapFillFlag ''Y'' m5 else st_ret m5) (\<lambda>m6.
     internal_send env m6 None))))))))"

definition sendTestRequest :: "session_env \<Rightarrow> unit act" where
  "sendTestRequest env =
     st_bind (createMessage env MSG_TEST_REQUEST) (\<lambda>m0.
     st_seq (st_mod (\<lambda>s. s\<lparr>s_testReqID := s_testReqID s + 1\<rparr>))
    (st_bind (st_get s_testReqID) (\<lambda>i.
     st_bind (set_body FIELD_TestReqID (dec_int (wrap32 i)) m0)
             (send_only env None))))"

definition sendReject :: "session_env \<Rightarrow> message \<Rightarrow> reject_reason \<Rightarrow> string \<Rightarrow> unit act" where
  "sendReject env rejectedMsg reason text =
     st_bind (createMessage env MSG_REJECT) (\<lambda>m0.
     st_bind (st_lift (getField (m_header rejectedMsg) FIELD_MsgSeqNum)) (\<lambda>num.
     st_bind (set_body FIELD_RefSeqNum num m0) (\<lambda>m1.
     st_bind (set_body FIELD_SessionRejectReason (dec_int (reason_code reason)) m1) (\<lambda>m2.
     st_bind (if text \<noteq> [] then set_body FIELD_Text text m2 else st_ret m2)
             (send_only env None)))))"

definition logout :: "session_env \<Rightarrow> string \<Rightarrow> bool \<Rightarrow> unit act" where
  "logout env reason term =
     st_seq (if term then set_state KILLING
             else st_seq (set_state LOGOUT)
                    (st_bind (getEpochMillis env) (\<lambda>t. st_mod (\<lambda>s. s\<lparr>s_logoutTime := t\<rparr>))))
            (sendLogout env reason term)"

section \<open>Validation\<close>

definition fail_validation :: "session_env \<Rightarrow> string \<Rightarrow> unit act" where
  "fail_validation env reason =
     st_bind (st_get s_state) (\<lambda>x. if x = LOGON then terminate reason else logout env reason True)"

definition refuse :: "unit act \<Rightarrow> bool act" where
  "refuse m = st_seq m (st_ret False)"

definition validateTime :: "session_env \<Rightarrow> message \<Rightarrow> int \<Rightarrow> bool act" where
  "validateTime env msg time =
     st_bind (st_lift (getField (m_header msg) FIELD_SendingTime)) (\<lambda>sendingTime.
     let diff = time - parseUTCTimestamp sendingTime
     in if \<bar>diff\<bar> > getLong SENDING_TIME_THRESHOLD (e_settings env) * 1000
        then refuse (st_seq (sendReject env msg SendingTimeProblem [])
                            (logout env ''SendingTime(52) outside of threshold'' False))
        else if tryGetBool (m_header msg) FIELD_PossDupFlag \<and> \<not> fm_has (m_header msg) FIELD_OrigSendingTime
        then refuse (sendReject env msg RequiredTagMissing [])
        else st_ret True)"

definition validateState :: "session_env \<Rightarrow> string \<Rightarrow> bool act" where
  "validateState env msgType =
     st_bind (st_get s_state) (\<lambda>x.
     if x = LOGON \<and> msgType \<noteq> MSG_LOGON
     then refuse (logout env (''Received unexpected MsgType(35) during logon state: '' @ msgType) True)
     else if x = LOGOUT \<and> msgType \<noteq> MSG_LOGOUT \<and> msgType \<noteq> MSG_RESEND_REQUEST
     then refuse (logout env (''Received unexpected MsgType(35) during logoff state: '' @ msgType) True)
     else st_ret True)"

definition validateMessage :: "session_env \<Rightarrow> message \<Rightarrow> string \<Rightarrow> int \<Rightarrow> bool act" where
  "validateMessage env msg msgType time =
     (if \<not> fm_has (m_header msg) FIELD_MsgSeqNum
      then refuse (logout env ''Message missing MsgSeqNum(34)'' True)
      else
        st_bind (st_lift (getField (m_header msg) FIELD_BeginString)) (\<lambda>bs.
        if bs \<noteq> getString BEGIN_STRING (e_settings env)
        then refuse (fail_validation env (''Failed to validate BeginString(8): '' @ bs))
        else
        st_bind (st_lift (getField (m_header msg) FIELD_SenderCompID)) (\<lambda>sender.
        if sender \<noteq> getString TARGET_COMP_ID (e_settings env)
        then refuse (fail_validation env (''Failed to validate SenderCompID(49): '' @ sender))
        else
        st_bind (st_lift (getField (m_header msg) FIELD_TargetCompID)) (\<lambda>target.
        if target \<noteq> getString SENDER_COMP_ID (e_settings env)
        then refuse (fail_validation env (''Failed to validate TargetCompID(56): '' @ target))
        else
        st_bind (validateTime env msg time) (\<lambda>timely.
        if \<not> timely then st_ret False else validateState env msgType)))))"

definition validateSeqNum :: "session_env \<Rightarrow> message \<Rightarrow> bool act" where
  "validateSeqNum env msg =
     st_bind (st_lift (getIntField (m_header msg) FIELD_MsgSeqNum)) (\<lambda>seqNum.
     st_bind getTargetSeqNum (\<lambda>target.
     if seqNum = target then st_seq nextTargetSeqNum (st_ret True)
     else if seqNum < target
     then refuse (logout env (''MsgSeqNum too low, expected '' @ dec_int target @ '', received '' @ dec_int seqNum) True)
     else if seqNum \<noteq> 0
     then refuse (st_seq (on_cache (\<lambda>c. c\<lparr>c_inboundQueue := smap_set (c_inboundQueue c) seqNum (copy_message msg)\<rparr>))
                         (sendResendRequest env target seqNum))
     else st_ret False))"

section \<open>Message recovery\<close>

fun recover :: "session_env \<Rightarrow> int \<Rightarrow> (int \<times> (exn + message)) list \<Rightarrow> int act" where
  "recover env ptr [] = st_ret ptr"
| "recover env ptr ((seqno, parsed) # entries) =
     st_bind (st_lift parsed) (\<lambda>orig.
     let msg = copy_message orig in
     st_bind (st_lift (getField (m_header msg) FIELD_MsgType)) (\<lambda>msgType.
     if msgType \<in> set SESSION_MSGS then recover env ptr entries
     else
       st_seq (when_do (seqno \<noteq> ptr) (sendSequenceReset env ptr seqno True))
      (st_bind (set_header FIELD_PossDupFlag ''Y'' msg) (\<lambda>m1.
       st_bind (st_lift (getField (m_header m1) FIELD_SendingTime)) (\<lambda>sendingTime.
       st_bind (set_header FIELD_OrigSendingTime sendingTime m1) (\<lambda>m2.
       st_bind (getUTCTimestamp env) (\<lambda>ts.
       st_bind (set_header FIELD_SendingTime ts m2) (\<lambda>m3.
       st_seq (internal_send env m3 None) (recover env (wrap32 (seqno + 1)) entries)))))))))"

definition runMessageRecovery :: "session_env \<Rightarrow> int \<Rightarrow> int \<Rightarrow> unit act" where
  "runMessageRecovery env beginSeqNo endSeqNo0 =
     st_bind getSenderSeqNum (\<lambda>sender.
     let endSeqNo = min endSeqNo0 sender in
     st_bind (st_get (\<lambda>s. getMessages (parse_settings_of (e_settings env)) (e_dictionary env)
                              beginSeqNo endSeqNo (s_cache s))) (\<lambda>entries.
     st_bind (recover env beginSeqNo entries) (\<lambda>ptr0.
     let ptr = (if ptr0 \<noteq> beginSeqNo then wrap32 (ptr0 - 1) else ptr0) in
     st_bind getSenderSeqNum (\<lambda>sender'.
     let endSeqNo' = (if endSeqNo \<noteq> 0 then endSeqNo else sender') in
     when_do (ptr < endSeqNo') (sendSequenceReset env ptr endSeqNo' True)))))"

section \<open>Handlers of admin messages\<close>

definition handleResendRequest :: "session_env \<Rightarrow> message \<Rightarrow> unit act" where
  "handleResendRequest env msg =
     st_bind (st_lift (getIntField (m_header msg) FIELD_MsgSeqNum)) (\<lambda>seqNo.
     st_bind (st_lift (getIntField (m_body msg) FIELD_BeginSeqNo)) (\<lambda>beginSeqNo.
     st_bind (st_lift (getIntField (m_body msg) FIELD_EndSeqNo)) (\<lambda>endSeqNo.
     st_seq (runMessageRecovery env beginSeqNo endSeqNo)
    (st_bind getTargetSeqNum (\<lambda>target. when_do (seqNo = target) nextTargetSeqNum)))))"

definition handleSequenceReset :: "session_env \<Rightarrow> message \<Rightarrow> unit act" where
  "handleSequenceReset env msg =
     (let gapFill = tryGetBool (m_body msg) FIELD_GapFillFlag in
     st_bind (st_lift (getIntField (m_body msg) FIELD_NewSeqNo)) (\<lambda>newSeqNum.
     st_bind (st_lift (getIntField (m_header msg) FIELD_MsgSeqNum)) (\<lambda>seqNum.
     if newSeqNum \<le> seqNum
     then sendReject env msg IncorrectValueForTag
            (''Attempt to lower sequence number, invalid value NewSeqNo(36)='' @ dec_int newSeqNum)
     else
     st_bind getTargetSeqNum (\<lambda>target.
     if newSeqNum < target
     then logout env (''Unable to set SeqNum to '' @ dec_int newSeqNum @ '', next expected is '' @ dec_int target) True
     else
     st_bind (if gapFill then validateSeqNum env msg else st_ret True) (\<lambda>in_sequence.
     when_do in_sequence (setTargetSeqNum newSeqNum))))))"

text \<open>The end of \<open>handleLogon\<close>, once the logon is accepted.\<close>

definition finish_logon :: "session_env \<Rightarrow> message \<Rightarrow> int \<Rightarrow> int \<Rightarrow> int option \<Rightarrow> bool \<Rightarrow> unit act" where
  "finish_logon env msg seqNum expectedTargetSeqNum recovery shouldReset =
     st_seq (when_do (seqNum = expectedTargetSeqNum) nextTargetSeqNum)
    (st_bind (st_lift (getSessionType (e_settings env))) (\<lambda>ty.
     st_seq (when_do (ty = ACCEPTOR)
               (st_bind (st_lift (getIntField (m_body msg) FIELD_HeartBtInt)) (\<lambda>hb.
                st_seq (st_mod (\<lambda>s. s\<lparr>s_heartbeatInterval := hb * 1000\<rparr>))
                       (sendLogon env shouldReset))))
    (st_seq (set_state READY)
    (st_seq (case recovery of None \<Rightarrow> st_ret ()
             | Some nextExpectedSeqNum \<Rightarrow> runMessageRecovery env nextExpectedSeqNum 0)
            (if \<not> getBool SEND_NEXT_EXPECTED_MSG_SEQ_NUM (e_settings env) \<and> seqNum > expectedTargetSeqNum
             then sendResendRequest env expectedTargetSeqNum 0
             else call_delegate env OnLogon)))))"

text \<open>The check of NextExpectedMsgSeqNum: refused (\<open>Inl\<close> the reason), or where a recovery starts.\<close>

definition check_next_expected :: "message \<Rightarrow> int \<Rightarrow> exn + (string + int option)" where
  "check_next_expected msg sender =
     (if \<not> fm_has (m_body msg) FIELD_NextExpectedMsgSeqNum then Inr (Inr None)
      else sbind (getIntField (m_body msg) FIELD_NextExpectedMsgSeqNum) (\<lambda>n.
        if n > sender
        then Inr (Inl (''NextExpectedMsgSeqNum(789) too high, next sender MsgSeqNum='' @ dec_int sender))
        else Inr (Inr (if n < sender then Some n else None))))"

definition handleLogon :: "session_env \<Rightarrow> message \<Rightarrow> unit act" where
  "handleLogon env msg =
     (if tryGetBool (m_body msg) FIELD_TestMessageIndicator \<noteq> getBool IS_TEST (e_settings env)
      then logout env ''Sender/target test session mismatch'' False
      else
      st_bind (st_lift (getIntField (m_header msg) FIELD_MsgSeqNum)) (\<lambda>seqNum.
      st_bind getTargetSeqNum (\<lambda>expectedTargetSeqNum.
      if \<not> tryGetBool (m_header msg) FIELD_PossDupFlag \<and> seqNum < expectedTargetSeqNum
      then logout env (''MsgSeqNum(34) too low, expected '' @ dec_int expectedTargetSeqNum) True
      else
      st_bind getSenderSeqNum (\<lambda>sender.
      st_bind (st_lift (check_next_expected msg sender)) (\<lambda>checked.
      case checked of
        Inl reason \<Rightarrow> logout env reason True
      | Inr recovery \<Rightarrow>
          (if tryGetBool (m_body msg) FIELD_ResetSeqNumFlag
           then (if \<not> getBool RESET_SEQ_NUM_ON_LOGON (e_settings env)
                 then logout env ''ResetSeqNumFlag(141) not supported on this session'' True
                 else st_seq reset_session (finish_logon env msg seqNum expectedTargetSeqNum recovery True))
           else finish_logon env msg seqNum expectedTargetSeqNum recovery False))))))"

section \<open>Processing a message\<close>

definition processLogout :: "session_env \<Rightarrow> unit act" where
  "processLogout env =
     st_seq (call_delegate env OnLogout)
    (st_bind (st_get s_state) (\<lambda>x.
     if x = LOGOUT then st_seq (set_state LOGON) (on_network disconnect)
     else sendLogout env ''Successful logout'' True))"

definition processHeartbeat :: "session_env \<Rightarrow> message \<Rightarrow> unit act" where
  "processHeartbeat env msg =
     st_seq (st_bind (st_get s_state) (\<lambda>x.
             when_do (x = TEST_REQUEST \<and> fm_has (m_body msg) FIELD_TestReqID)
               (st_bind (st_lift (getIntField (m_body msg) FIELD_TestReqID)) (\<lambda>i.
                st_bind (st_get s_testReqID) (\<lambda>expected.
                when_do (i = expected) (set_state READY))))))
            (call_delegate env (OnAdminMessage msg))"

definition processMessage :: "session_env \<Rightarrow> message \<Rightarrow> int \<Rightarrow> unit act" where
  "processMessage env msg time =
     st_bind (st_lift (getField (m_header msg) FIELD_MsgType)) (\<lambda>msgType.
     st_bind (validateMessage env msg msgType time) (\<lambda>valid.
     if \<not> valid then st_ret ()
     else if msgType = MSG_SEQUENCE_RESET then handleSequenceReset env msg
     else if msgType = MSG_LOGON then handleLogon env msg
     else if msgType = MSG_RESEND_REQUEST then handleResendRequest env msg
     else
     st_bind (validateSeqNum env msg) (\<lambda>in_sequence.
     if \<not> in_sequence then st_ret ()
     else if msgType = MSG_LOGOUT then processLogout env
     else if msgType = MSG_HEARTBEAT then processHeartbeat env msg
     else if msgType = MSG_TEST_REQUEST
     then st_bind (st_lift (getField (m_body msg) FIELD_TestReqID)) (sendHeartbeat env)
     else if msgType = MSG_REJECT then st_ret ()
     else call_delegate env (OnMessage msg))))"

text \<open>
  The loop over queued messages. \<open>erase(begin())\<close> on an empty queue would be undefined. The
  bound is the number of queued messages: each pass removes one and adds none.
\<close>

definition erase_first :: "unit act" where
  "erase_first =
     (\<lambda>s. case c_inboundQueue (s_cache s) of
        [] \<Rightarrow> (Inl BufferOverread, s)
      | _ # q \<Rightarrow> (Inr (), s\<lparr>s_cache := (s_cache s)\<lparr>c_inboundQueue := q\<rparr>\<rparr>))"

fun drain :: "session_env \<Rightarrow> int \<Rightarrow> nat \<Rightarrow> unit act" where
  "drain env time 0 = st_ret ()"
| "drain env time (Suc n) =
     st_bind (st_get (\<lambda>s. (c_inboundQueue (s_cache s), c_targetSeqNum (s_cache s)))) (\<lambda>(queue, target).
     case queue of
       [] \<Rightarrow> st_ret ()
     | (seq, msg) # _ \<Rightarrow>
         if target = seq then st_seq (processMessage env msg time) (st_seq erase_first (drain env time n))
         else st_ret ())"

text \<open>What C++ can catch: the exceptions, not the undefined behaviours.\<close>

definition catchable :: "exn \<Rightarrow> bool" where
  "catchable e \<longleftrightarrow> (case e of
      NullDereference \<Rightarrow> False | DanglingView \<Rightarrow> False | ArrayOverflow \<Rightarrow> False | BufferOverread \<Rightarrow> False
    | _ \<Rightarrow> True)"

definition catch_all :: "unit act \<Rightarrow> unit act \<Rightarrow> unit act" where
  "catch_all body handler =
     (\<lambda>s. case body s of
        (Inl e, s') \<Rightarrow> if catchable e then handler s' else (Inl e, s')
      | (Inr x, s') \<Rightarrow> (Inr x, s'))"

definition set_cachedEpoch :: "int \<Rightarrow> unit act" where
  "set_cachedEpoch us = st_mod (\<lambda>s. s\<lparr>s_cachedEpochUs := us\<rparr>)"

definition receive :: "session_env \<Rightarrow> string \<Rightarrow> unit act" where
  "receive env txt =
     st_bind (st_lift (parse (parse_settings_of (e_settings env)) (e_dictionary env) txt)) (\<lambda>msg.
     st_bind (getEpochMicros env) (\<lambda>us.
     st_seq (set_cachedEpoch us)
    (let time = cdiv us 1000 in
     st_seq (logMessage us (m_sourceText msg) True)
    (st_seq (st_mod (\<lambda>s. s\<lparr>s_lastRecvHeartbeat := time\<rparr>))
    (st_seq (processMessage env msg time)
    (st_bind (st_get (\<lambda>s. length (c_inboundQueue (s_cache s)))) (\<lambda>n.
     st_seq (drain env time n) (set_cachedEpoch 0))))))))"

definition onNetworkMessage :: "session_env \<Rightarrow> string \<Rightarrow> unit act" where
  "onNetworkMessage env txt =
     st_bind (st_get s_state) (\<lambda>x.
     if x = KILLING then st_ret () else catch_all (receive env txt) (set_cachedEpoch 0))"

section \<open>The update loop\<close>

definition network_start :: "session_env \<Rightarrow> unit act" where
  "network_start env =
     st_bind (st_lift (getSessionType (e_settings env))) (\<lambda>ty.
     when_do (ty = INITIATOR)
       (st_bind (ask (e_connects env)) (\<lambda>ok. when_do ok (on_network (setConnection True)))))"

definition test_request_timeout :: "session_env \<Rightarrow> session \<Rightarrow> int" where
  "test_request_timeout env s =
     scale_decimal (getDouble TEST_REQUEST_THRESHOLD (e_settings env)) (s_heartbeatInterval s)"

definition update_disconnected :: "session_env \<Rightarrow> int \<Rightarrow> unit act" where
  "update_disconnected env time =
     st_seq (set_state LOGON)
    (st_bind (st_get (\<lambda>s. time - s_lastReconnect s \<ge> s_reconnectInterval s)) (\<lambda>due.
     when_do due
       (st_seq (network_start env) (st_mod (\<lambda>s. s\<lparr>s_lastReconnect := time\<rparr>)))))"

definition update_logon :: "session_env \<Rightarrow> unit act" where
  "update_logon env =
     (let shouldReset = getBool RESET_SEQ_NUM_ON_LOGON (e_settings env)
      in st_seq (when_do shouldReset reset_session) (sendLogon env shouldReset))"

definition update_timeouts :: "session_env \<Rightarrow> int \<Rightarrow> unit act" where
  "update_timeouts env time =
     st_seq (st_bind (st_get (\<lambda>s. s_state s = TEST_REQUEST
                                \<and> time - s_lastSentTestRequest s \<ge> test_request_timeout env s)) (\<lambda>due.
             when_do due (st_bind (st_get s_testReqID) (\<lambda>i.
               terminate (''Failed to respond to test request '' @ dec_int i @ '' within heartbeat timeout'')))))
            (st_bind (st_get (\<lambda>s. s_state s = LOGOUT \<and> time - s_logoutTime s \<ge> 2 * s_heartbeatInterval s)) (\<lambda>due.
             when_do due (terminate ''Didn't receive logout ack in time'')))"

definition update_heartbeats :: "session_env \<Rightarrow> int \<Rightarrow> unit act" where
  "update_heartbeats env time =
     st_bind (st_get s_state) (\<lambda>x.
     when_do (x \<noteq> LOGON \<and> x \<noteq> LOGOUT \<and> x \<noteq> KILLING)
       (st_seq (st_bind (st_get (\<lambda>s. time - s_lastSentHeartbeat s \<ge> s_heartbeatInterval s)) (\<lambda>due.
                when_do due (sendHeartbeat env [])))
               (st_bind (st_get (\<lambda>s. s_state s \<noteq> TEST_REQUEST
                                  \<and> time - s_lastRecvHeartbeat s \<ge> test_request_timeout env s)) (\<lambda>due.
                when_do due
                  (st_seq (sendTestRequest env)
                  (st_seq (st_mod (\<lambda>s. s\<lparr>s_lastSentTestRequest := time\<rparr>)) (set_state TEST_REQUEST)))))))"

text \<open>Whether an initiator is due to log on; the session type is read first, and may be missing.\<close>

definition logon_due :: "session_env \<Rightarrow> int \<Rightarrow> bool act" where
  "logon_due env time =
     st_bind (st_lift (getSessionType (e_settings env))) (\<lambda>ty.
     st_get (\<lambda>s. ty = INITIATOR \<and> s_state s = LOGON \<and> time - s_lastLogon s \<ge> s_logonInterval s))"

definition internal_update :: "session_env \<Rightarrow> unit act" where
  "internal_update env =
     st_bind (getEpochMillis env) (\<lambda>time.
     st_bind (st_get (\<lambda>s. isConnected (s_network s))) (\<lambda>connected.
     if \<not> connected then update_disconnected env time
     else st_bind (logon_due env time) (\<lambda>due.
       if due then update_logon env
       else st_seq (update_timeouts env time) (update_heartbeats env time))))"

definition onNetworkUpdate :: "session_env \<Rightarrow> unit act" where
  "onNetworkUpdate env =
     st_bind (st_get s_enabled) (\<lambda>enabled.
     if \<not> enabled then st_ret ()
     else
     st_bind (getEpochMillis env) (\<lambda>now.
     st_bind (st_get s_lastUpdate) (\<lambda>lastUpdate.
     if now - lastUpdate < 1 then st_ret ()
     else st_seq (st_mod (\<lambda>s. s\<lparr>s_lastUpdate := now\<rparr>))
            (catch_all (st_seq (on_cache flushSeqNums) (internal_update env)) (st_ret ())))))"

section \<open>Life cycle\<close>

definition new_session :: "config \<Rightarrow> writer \<Rightarrow> writer \<Rightarrow> writer \<Rightarrow> session" where
  "new_session settings evtLog msgLog store =
     (let s0 = \<lparr>s_state = LOGON, s_cache = new_cache store, s_network = new_handler,
                s_evtLogger = evtLog, s_msgLogger = msgLog, s_enabled = True,
                s_lastSentHeartbeat = 0, s_lastRecvHeartbeat = 0, s_lastSentTestRequest = 0,
                s_heartbeatInterval = getLong HEARTBEAT_INTERVAL settings * 1000,
                s_lastLogon = 0, s_logoutTime = 0,
                s_logonInterval = getLong LOGON_INTERVAL settings * 1000,
                s_lastReconnect = 0,
                s_reconnectInterval = getLong RECONNECT_INTERVAL settings * 1000,
                s_lastUpdate = 0, s_testReqID = 0, s_cachedEpochUs = 0,
                s_writeTs = ts_cache0, s_utcTs = ts_cache0, s_tick = 0, s_delegated = []\<rparr>
      in snd (load_session s0))"

definition start_session :: "unit act" where
  "start_session = st_mod (\<lambda>s. s\<lparr>s_enabled := True\<rparr>)"

definition stop_session :: "unit act" where
  "stop_session =
     st_seq (st_mod (\<lambda>s. s\<lparr>s_enabled := False\<rparr>))
    (st_seq (on_cache flushSeqNums)
            (on_network nh_stop))"

end
