(* ===== verification/SessionFacts.thy ===== *)
theory SessionFacts
  imports Session
begin

text \<open>
  What the session's operations leave alone, as a tower of frame contracts: \<open>internal_frame\<close> for
  a predicate that the stamping and transmission of a message keeps, \<open>send_frame\<close> for one that also
  survives the numbering of a message, \<open>logout_frame\<close> for one that survives a logout as well. The
  handlers' lemmas are proved once for any such predicate and interpreted on the parts of the state.
\<close>

section \<open>Preservation\<close>

lemma keeps_ask [keeps_intros]: "(\<And>s n. P s \<Longrightarrow> P (s\<lparr>s_tick := n\<rparr>)) \<Longrightarrow> st_keeps P (ask oracle)"
  by (simp add: st_keeps_def ask_def)

lemma keeps_when [keeps_intros]: "(b \<Longrightarrow> st_keeps P m) \<Longrightarrow> st_keeps P (when_do b m)"
  by (simp add: when_do_def keeps_intros)

lemma keeps_catch: "st_keeps P m \<Longrightarrow> st_keeps P h \<Longrightarrow> st_keeps P (catch_all m h)"
  unfolding st_keeps_def catch_all_def by (auto split: prod.splits sum.splits; metis snd_conv)

lemma keeps_case_prod [keeps_intros]: "(\<And>a b. st_keeps P (f a b)) \<Longrightarrow> st_keeps P (case x of (a, b) \<Rightarrow> f a b)"
  by (cases x) simp

locale internal_frame =
  fixes P :: "session \<Rightarrow> bool"
  assumes tick: "P s \<Longrightarrow> P (s\<lparr>s_tick := n\<rparr>)"
    and writeTs: "P s \<Longrightarrow> P (s\<lparr>s_writeTs := c\<rparr>)"
    and utcTs: "P s \<Longrightarrow> P (s\<lparr>s_utcTs := c\<rparr>)"
    and msgLogger: "P s \<Longrightarrow> P (s\<lparr>s_msgLogger := w\<rparr>)"
    and network_send: "P s \<Longrightarrow> P (s\<lparr>s_network := snd (nh_send i m cb (s_network s))\<rparr>)"
    and lastSent: "P s \<Longrightarrow> P (s\<lparr>s_lastSentHeartbeat := t\<rparr>)"
begin

lemma keeps_clock [keeps_intros]: "st_keeps P (getEpochMicros env)" "st_keeps P (getEpochMillis env)"
  unfolding getEpochMicros_def getEpochMillis_def by (intro keeps_intros tick; assumption)+

lemma keeps_getUTCTimestamp [keeps_intros]: "st_keeps P (getUTCTimestamp env)"
  unfolding getUTCTimestamp_def
  by (intro keeps_intros tick; (assumption | simp add: st_keeps_def utcTs split: prod.splits))

lemma keeps_writeTimestamp [keeps_intros]: "st_keeps P (writeTimestamp t)"
  by (simp add: st_keeps_def writeTimestamp_def writeTs split: prod.splits)

lemma keeps_set [keeps_intros]: "st_keeps P (set_header tag v msg)" "st_keeps P (set_body tag v msg)"
  unfolding set_header_def set_body_def by (intro keeps_intros)+

lemma keeps_reads [keeps_intros]:
  "st_keeps P getSenderSeqNum" "st_keeps P getTargetSeqNum" "st_keeps P (createMessage env t)"
  unfolding getSenderSeqNum_def getTargetSeqNum_def createMessage_def by (intro keeps_intros)+

lemma keeps_logMessage [keeps_intros]: "st_keeps P (logMessage us m b)"
  unfolding logMessage_def by (intro keeps_intros msgLogger)

lemma keeps_populate [keeps_intros]: "st_keeps P (populateMessage env msg t)"
  unfolding populateMessage_def Let_def by (intro keeps_intros)

lemma keeps_transmit:
  "(\<And>cb'. cb' \<in> {None, cb} \<Longrightarrow> st_keeps P (run_callback env cb')) \<Longrightarrow>
   st_keeps P (st_bind (\<lambda>s. case nh_send i m cb (s_network s) of (r, h) \<Rightarrow> (Inr r, s\<lparr>s_network := h\<rparr>)) (run_callback env))"
  unfolding st_keeps_def[where m = "st_bind _ _"]
proof (intro allI impI)
  fix s assume cb: "\<And>cb'. cb' \<in> {None, cb} \<Longrightarrow> st_keeps P (run_callback env cb')" and "P s"
  obtain r h where rh: "nh_send i m cb (s_network s) = (r, h)" by force
  have "P (s\<lparr>s_network := h\<rparr>)" using network_send[OF \<open>P s\<close>, of i m cb] rh by simp
  moreover have "r \<in> {None, cb}" using rh by (auto simp: nh_send_def trySendInline_def split: if_splits)
  ultimately show "P (snd (st_bind (\<lambda>s. case nh_send i m cb (s_network s) of (r, h) \<Rightarrow> (Inr r, s\<lparr>s_network := h\<rparr>))
      (run_callback env) s))"
    using st_keepsD[OF cb] by (simp add: st_bind_def rh)
qed

lemma keeps_network_send:
  "(\<And>cb'. cb' \<in> {None, cb} \<Longrightarrow> st_keeps P (run_callback env cb')) \<Longrightarrow> st_keeps P (Session.network_send env m cb)"
  unfolding Session.network_send_def by (intro keeps_intros tick keeps_transmit)

lemma keeps_internal_send_wire:
  "(\<And>cb'. cb' \<in> {None, cb} \<Longrightarrow> st_keeps P (run_callback env cb')) \<Longrightarrow> st_keeps P (internal_send_wire env m cb us)"
  unfolding internal_send_wire_def by (intro keeps_intros keeps_network_send lastSent) auto

lemma keeps_no_callback: "cb' \<in> {None, None} \<Longrightarrow> st_keeps P (run_callback env cb')"
  by (auto intro: keeps_intros)

lemma keeps_send_time [keeps_intros]: "st_keeps P (send_time env)"
  unfolding send_time_def by (intro keeps_intros)

lemma keeps_internal_send [keeps_intros]: "st_keeps P (internal_send env msg None)"
  unfolding internal_send_def by (intro keeps_intros keeps_internal_send_wire keeps_no_callback)

lemma keeps_sendSequenceReset [keeps_intros]: "st_keeps P (sendSequenceReset env a b g)"
  unfolding sendSequenceReset_def by (intro keeps_intros)

lemma keeps_recover [keeps_intros]: "st_keeps P (recover env ptr entries)"
proof (induction entries arbitrary: ptr)
  case (Cons e entries)
  then show ?case by (cases e) (simp only: recover.simps Let_def, intro keeps_intros)
qed (simp add: keeps_intros)

lemma keeps_runMessageRecovery [keeps_intros]: "st_keeps P (runMessageRecovery env a b)"
  unfolding runMessageRecovery_def Let_def by (intro keeps_intros)

end

locale send_frame = internal_frame +
  assumes numbered: "P s \<Longrightarrow> P (s\<lparr>s_cache := cache_message n w (s_cache s)\<rparr>)"
    and advanced: "P s \<Longrightarrow> P (s\<lparr>s_cache := snd (cache_nextSenderSeqNum (s_cache s))\<rparr>)"
    and lastLogon: "P s \<Longrightarrow> P (s\<lparr>s_lastLogon := t\<rparr>)"
    and testReqID: "P s \<Longrightarrow> P (s\<lparr>s_testReqID := i\<rparr>)"
begin

lemma keeps_send:
  "(\<And>cb'. cb' \<in> {None, cb} \<Longrightarrow> st_keeps P (run_callback env cb')) \<Longrightarrow> st_keeps P (send env msg cb)"
  unfolding send_def Let_def on_cache_def nextSenderSeqNum_def
  by (intro keeps_intros keeps_internal_send_wire numbered advanced)

lemma keeps_send_only [keeps_intros]: "st_keeps P (send_only env None msg)"
  unfolding send_only_def by (intro keeps_intros keeps_send keeps_no_callback)

lemma keeps_sendHeartbeat [keeps_intros]: "st_keeps P (sendHeartbeat env i)"
  unfolding sendHeartbeat_def by (intro keeps_intros)

lemma keeps_sendLogon [keeps_intros]: "st_keeps P (sendLogon env r)"
  unfolding sendLogon_def by (intro keeps_intros lastLogon)

lemma keeps_sendResendRequest [keeps_intros]: "st_keeps P (sendResendRequest env a b)"
  unfolding sendResendRequest_def by (intro keeps_intros)

lemma keeps_sendTestRequest [keeps_intros]: "st_keeps P (sendTestRequest env)"
  unfolding sendTestRequest_def by (intro keeps_intros testReqID)

lemma keeps_sendReject [keeps_intros]: "st_keeps P (sendReject env msg r t)"
  unfolding sendReject_def by (intro keeps_intros)

end

locale logout_frame = send_frame +
  assumes state: "P s \<Longrightarrow> P (s\<lparr>s_state := x\<rparr>)"
    and logoutTime: "P s \<Longrightarrow> P (s\<lparr>s_logoutTime := t\<rparr>)"
    and evtLogger: "P s \<Longrightarrow> P (s\<lparr>s_evtLogger := w\<rparr>)"
    and hangup: "P s \<Longrightarrow> P (s\<lparr>s_network := disconnect (s_network s)\<rparr>)"
begin

lemma keeps_set_state [keeps_intros]: "st_keeps P (set_state x)"
  unfolding set_state_def by (intro keeps_intros state)

lemma keeps_hangup [keeps_intros]: "st_keeps P (on_network disconnect)"
  unfolding on_network_def by (intro keeps_intros hangup)

lemma keeps_terminate [keeps_intros]: "st_keeps P (terminate reason)"
  unfolding terminate_def logEvent_def by (intro keeps_intros evtLogger)

lemma keeps_own_callback: "cb \<in> {None, if b then Some (TerminateWith r) else None} \<Longrightarrow> st_keeps P (run_callback env cb)"
  by (auto intro: keeps_intros split: if_splits)

lemma keeps_sendLogout [keeps_intros]: "st_keeps P (sendLogout env r b)"
  unfolding sendLogout_def send_only_def by (intro keeps_intros keeps_send keeps_own_callback)

lemma keeps_logout [keeps_intros]: "st_keeps P (logout env r b)"
  unfolding logout_def by (intro keeps_intros logoutTime)

lemma keeps_refuse [keeps_intros]: "st_keeps P m \<Longrightarrow> st_keeps P (refuse m)"
  unfolding refuse_def by (intro keeps_intros)

lemma keeps_validateMessage [keeps_intros]: "st_keeps P (validateMessage env msg t now)"
  unfolding validateMessage_def validateTime_def validateState_def fail_validation_def Let_def
  by (intro keeps_intros)

end

section \<open>What sending leaves alone\<close>

text \<open>The inbound half of a session: what has been received and delivered.\<close>

definition inbound :: "session \<Rightarrow> int \<times> message smap \<times> delegate_event list" where
  "inbound s = (c_targetSeqNum (s_cache s), c_inboundQueue (s_cache s), s_delegated s)"

text \<open>What transmission alone may not touch: everything but the connection and the clocks.\<close>

definition outbound :: "session \<Rightarrow> session_state \<times> fix_cache_state \<times> delegate_event list" where
  "outbound s = (s_state s, s_cache s, s_delegated s)"

lemmas cache_ops = cache_message_def cache_nextSenderSeqNum_def cache_nextTargetSeqNum_def
  cache_setTargetSeqNum_def cache_setSenderSeqNum_def Let_def

interpretation inbound: logout_frame "\<lambda>s. inbound s = v" for v
  by unfold_locales (simp_all add: inbound_def cache_ops)

interpretation outbound: internal_frame "\<lambda>s. outbound s = v" for v
  by unfold_locales (simp_all add: outbound_def)

interpretation connected: logout_frame "\<lambda>s. handler_ok (s_network s)"
  by unfold_locales (simp_all add: handler.ok_transmit handler.ok_hangup)

interpretation clocks: logout_frame "\<lambda>s. s_cachedEpochUs s = c" for c
  by unfold_locales simp_all

end
