(* ===== verification/SessionDemo.thy ===== *)
theory SessionDemo
  imports SessionFacts
begin

text \<open>
  A small dictionary and settings on which the session's model runs, for the witnesses: FIX.4.2
  administrative messages and one application message, an acceptor B talking to A.
\<close>

definition demo_header :: group_spec where
  "demo_header =
     mk_spec [(8, True), (9, True), (35, True), (49, True), (56, True), (34, True), (43, False), (52, True),
              (122, False), (789, False), (141, False)] [] True [8, 9, 35, 49, 56, 34, 43, 52, 122, 789, 141]"

definition demo_bodies :: "(string, group_spec) hmap" where
  "demo_bodies =
     map (\<lambda>(t, fs). (t, mk_spec (map (\<lambda>k. (k, False)) fs) [] True fs))
       [(MSG_HEARTBEAT, [112]), (MSG_TEST_REQUEST, [112]), (MSG_RESEND_REQUEST, [7, 16]),
        (MSG_REJECT, [45, 373, 58]), (MSG_SEQUENCE_RESET, [123, 36]), (MSG_LOGOUT, [58]),
        (MSG_LOGON, [98, 108, 141, 789, 464]), (''D'', [11])]"

definition demo_dictionary :: dictionary where
  "demo_dictionary =
     \<lparr>d_headerSpec = demo_header, d_trailerSpec = mk_spec [(10, True)] [] True [10],
      d_bodySpecs = demo_bodies, d_bodySpecsFast = (\<lambda>c. map_of demo_bodies [char_of c]),
      d_fieldTypes = (\<lambda>t. if t = 9 then FT_LENGTH else FT_STRING), d_fieldsFallback = []\<rparr>"

definition demo_settings :: "string \<Rightarrow> config" where
  "demo_settings ty =
     setString SESSION_TYPE_STR ty (setString BEGIN_STRING ''FIX.4.2''
       (setString SENDER_COMP_ID ''B'' (setString TARGET_COMP_ID ''A'' (new_config session_defaults))))"

definition demo_env :: "string \<Rightarrow> session_env" where
  "demo_env ty =
     \<lparr>e_settings = demo_settings ty, e_dictionary = demo_dictionary, e_delegate = Some (\<lambda>_. st_ret ()),
      e_clock = (\<lambda>n. 7), e_inline = (\<lambda>_. True), e_connects = (\<lambda>_. True)\<rparr>"

definition demo_session :: "string \<Rightarrow> session" where
  "demo_session ty =
     (let w = new_writer False None in (new_session (demo_settings ty) w w w)
        \<lparr>s_network := setConnection True new_handler\<rparr>)"

text \<open>A message of the counterparty, as A sends it.\<close>

definition demo_text :: "string \<Rightarrow> int \<Rightarrow> (int \<times> string) list \<Rightarrow> string" where
  "demo_text ty seq body =
     toString True
       \<lparr>m_header = fold (\<lambda>(k, v). setFieldView k v False)
          [(8, ''FIX.4.2''), (35, ty), (49, ''A''), (56, ''B''), (34, dec_int seq), (52, ''19700101-00:00:00'')] empty_fm,
        m_body = fold (\<lambda>(k, v). setFieldView k v False) body empty_fm, m_trailer = empty_fm, m_sourceText = []\<rparr>"

text \<open>The session in mid-conversation: logged on, expecting the counterparty's number 2.\<close>

definition demo_ready :: session where
  "demo_ready = (demo_session ''acceptor'')
     \<lparr>s_state := READY, s_cache := (new_cache (new_writer False None))\<lparr>c_targetSeqNum := 2\<rparr>\<rparr>"

definition demo_order :: "int \<Rightarrow> string" where
  "demo_order seq = demo_text ''D'' seq [(11, ''id'')]"

definition demo_parse :: "string \<Rightarrow> exn + message" where
  "demo_parse txt = parse (parse_settings_of (demo_settings ''acceptor'')) demo_dictionary txt"

section \<open>Passing validation\<close>

text \<open>What \<open>validateMessage\<close> asks of a message, whatever the session's state.\<close>

definition passes :: "session_env \<Rightarrow> message \<Rightarrow> int \<Rightarrow> bool" where
  "passes env msg time \<longleftrightarrow>
     fm_has (m_header msg) FIELD_MsgSeqNum
     \<and> getField (m_header msg) FIELD_BeginString = Inr (getString BEGIN_STRING (e_settings env))
     \<and> getField (m_header msg) FIELD_SenderCompID = Inr (getString TARGET_COMP_ID (e_settings env))
     \<and> getField (m_header msg) FIELD_TargetCompID = Inr (getString SENDER_COMP_ID (e_settings env))
     \<and> (case getField (m_header msg) FIELD_SendingTime of
          Inl _ \<Rightarrow> False
        | Inr ts \<Rightarrow> \<bar>time - parseUTCTimestamp ts\<bar> \<le> getLong SENDING_TIME_THRESHOLD (e_settings env) * 1000)
     \<and> (tryGetBool (m_header msg) FIELD_PossDupFlag \<longrightarrow> fm_has (m_header msg) FIELD_OrigSendingTime)"

lemma validateMessage_passes:
  assumes "passes env msg time" "s_state s \<noteq> LOGON \<or> t = MSG_LOGON"
    "s_state s \<noteq> LOGOUT \<or> t = MSG_LOGOUT \<or> t = MSG_RESEND_REQUEST"
  shows "validateMessage env msg t time s = (Inr True, s)"
proof -
  from assms(1) obtain ts where "getField (m_header msg) FIELD_SendingTime = Inr ts"
    "\<bar>time - parseUTCTimestamp ts\<bar> \<le> getLong SENDING_TIME_THRESHOLD (e_settings env) * 1000"
    by (auto simp: passes_def split: sum.splits)
  with assms show ?thesis
    by (auto simp: passes_def validateMessage_def validateTime_def validateState_def st_bind_apply Let_def)
qed

text \<open>Whether a state lets a message of a type through.\<close>

definition admits :: "session_state \<Rightarrow> string \<Rightarrow> bool" where
  "admits x t \<longleftrightarrow> (x = LOGON \<longrightarrow> t = MSG_LOGON) \<and> (x = LOGOUT \<longrightarrow> t = MSG_LOGOUT \<or> t = MSG_RESEND_REQUEST)"

lemma demo_orders:
  "case demo_parse (demo_order 2) of Inl _ \<Rightarrow> False | Inr m \<Rightarrow>
     passes (demo_env ''acceptor'') m 0 \<and> getField (m_header m) FIELD_MsgType = Inr ''D''
     \<and> getIntField (m_header m) FIELD_MsgSeqNum = Inr 2"
  "case demo_parse (demo_order 3) of Inl _ \<Rightarrow> False | Inr m \<Rightarrow>
     passes (demo_env ''acceptor'') m 0 \<and> getField (m_header m) FIELD_MsgType = Inr ''D''
     \<and> getIntField (m_header m) FIELD_MsgSeqNum = Inr 3"
  by code_simp+

end
