(* ===== verification/Delivery.thy ===== *)
theory Delivery
  imports SessionDemo
begin

text \<open>
  Delivery to the application: a session hands over the messages of its counterparty in the order
  of their sequence numbers, each at most once. The proofs use triples over the state monad; the
  runs are sequences of events, one per entry point of the session.
\<close>

section \<open>Triples\<close>

text \<open>From a state with \<open>P\<close>, a normal return \<open>x\<close> satisfies \<open>Q x\<close> and a throw satisfies \<open>E\<close>.\<close>

definition st_post :: "('s \<Rightarrow> bool) \<Rightarrow> ('e, 's, 'a) st \<Rightarrow> ('a \<Rightarrow> 's \<Rightarrow> bool) \<Rightarrow> ('s \<Rightarrow> bool) \<Rightarrow> bool" where
  "st_post P m Q E \<longleftrightarrow> (\<forall>s. P s \<longrightarrow> (case m s of (Inl e, s') \<Rightarrow> E s' | (Inr x, s') \<Rightarrow> Q x s'))"

named_theorems post_intros \<open>introduction rules for triples\<close>

lemma st_post_keepsI: "st_post P m (\<lambda>_. P) P \<Longrightarrow> st_keeps P m"
  unfolding st_post_def st_keeps_def
proof (intro allI impI)
  fix s assume post: "\<forall>s. P s \<longrightarrow> (case m s of (Inl e, s') \<Rightarrow> P s' | (Inr x, s') \<Rightarrow> P s')" and "P s"
  obtain r s' where m: "m s = (r, s')" by force
  from post[THEN spec, of s] \<open>P s\<close> show "P (snd (m s))" by (cases r) (simp_all add: m)
qed

lemma st_post_keeps: "st_keeps I m \<Longrightarrow> (\<And>s. P s \<Longrightarrow> I s) \<Longrightarrow> (\<And>x s. I s \<Longrightarrow> Q x s) \<Longrightarrow> (\<And>s. I s \<Longrightarrow> E s) \<Longrightarrow> st_post P m Q E"
  unfolding st_post_def st_keeps_def by (auto split: prod.splits sum.splits) (metis snd_conv)+

lemma post_bind [post_intros]:
  "st_post P m R E \<Longrightarrow> (\<And>x. st_post (R x) (k x) Q E) \<Longrightarrow> st_post P (st_bind m k) Q E"
  unfolding st_post_def by (fastforce simp: monad_simps split: prod.splits sum.splits)

lemma post_seq [post_intros]:
  "st_post P m (\<lambda>_. R) E \<Longrightarrow> st_post R n Q E \<Longrightarrow> st_post P (st_seq m n) Q E"
  unfolding st_seq_def by (rule post_bind)

lemma post_if [post_intros]:
  "(b \<Longrightarrow> st_post P m Q E) \<Longrightarrow> (\<not> b \<Longrightarrow> st_post P n Q E) \<Longrightarrow> st_post P (if b then m else n) Q E"
  by simp

lemma post_pre: "st_post P' m Q E \<Longrightarrow> (\<And>s. P s \<Longrightarrow> P' s) \<Longrightarrow> st_post P m Q E"
  by (simp add: st_post_def)

lemma post_ret: "(\<And>s. P s \<Longrightarrow> Q x s) \<Longrightarrow> st_post P (st_ret x) Q E"
  by (simp add: st_post_def)

lemma post_get: "st_post P (st_get f) (\<lambda>x s. P s \<and> x = f s) E"
  by (simp add: st_post_def)

lemma post_mod: "(\<And>s. P s \<Longrightarrow> Q () (f s)) \<Longrightarrow> st_post P (st_mod f) Q E"
  by (simp add: st_post_def)

lemma post_lift: "(\<And>s. P s \<Longrightarrow> E s) \<Longrightarrow> st_post P (st_lift r) (\<lambda>x s. P s \<and> r = Inr x) E"
  by (cases r) (simp_all add: st_post_def)

lemma post_assume: "(c \<Longrightarrow> st_post P m Q E) \<Longrightarrow> st_post (\<lambda>s. P s \<and> c) m Q E"
  by (auto simp: st_post_def)

section \<open>The invariant\<close>

definition msg_seq :: "message \<Rightarrow> int" where
  "msg_seq m = (case getIntField (m_header m) FIELD_MsgSeqNum of Inr n \<Rightarrow> n | Inl _ \<Rightarrow> 0)"

fun app_messages :: "delegate_event list \<Rightarrow> message list" where
  "app_messages [] = []"
| "app_messages (OnMessage m # evs) = m # app_messages evs"
| "app_messages (_ # evs) = app_messages evs"

definition delivered :: "session \<Rightarrow> message list" where
  "delivered s = app_messages (s_delegated s)"

definition max_seq :: int where "max_seq = 2147483647"

definition in_order :: "session \<Rightarrow> bool" where
  "in_order s \<longleftrightarrow>
     sorted_wrt (<) (map msg_seq (delivered s))
     \<and> (\<forall>m \<in> set (delivered s). msg_seq m < c_targetSeqNum (s_cache s))
     \<and> is_int32 (c_targetSeqNum (s_cache s))
     \<and> (\<forall>(k, m) \<in> set (c_inboundQueue (s_cache s)). msg_seq m = k \<and> k < max_seq)"

text \<open>The application's handlers may do anything that keeps a predicate, such as sending.\<close>

definition app_keeps :: "session_env \<Rightarrow> (session \<Rightarrow> bool) \<Rightarrow> bool" where
  "app_keeps env P \<longleftrightarrow> (case e_delegate env of None \<Rightarrow> True | Some app \<Rightarrow> \<forall>ev. st_keeps P (app ev))"

lemma app_messages_append [simp]: "app_messages (xs @ ys) = app_messages xs @ app_messages ys"
  by (induction xs rule: app_messages.induct) auto

lemma msg_seq_copy [simp]: "msg_seq (copy_message m) = msg_seq m"
  by (simp add: msg_seq_def getIntField_def getField_copy copy_message_def)

lemma msg_seq_int32 [simp]: "is_int32 (msg_seq m)"
  by (auto simp: msg_seq_def getIntField_def is_int32_def[of 0] split: sum.splits elim!: sbind_InrE)

lemma msg_seqI: "getIntField (m_header m) FIELD_MsgSeqNum = Inr n \<Longrightarrow> n = msg_seq m"
  by (simp add: msg_seq_def)

interpretation ordered: logout_frame in_order
  by unfold_locales (simp_all add: in_order_def delivered_def cache_ops)

lemma set_smap_set: "set (smap_set q k v) \<subseteq> insert (k, v) (set q)"
  by (induction q k v rule: smap_set.induct) auto

lemma in_order_advance:
  "in_order s \<Longrightarrow> c_targetSeqNum (s_cache s) < max_seq \<Longrightarrow>
   in_order (s\<lparr>s_cache := snd (cache_nextTargetSeqNum (s_cache s))\<rparr>)"
  by (force simp: in_order_def cache_ops delivered_def max_seq_def is_int32_def)

lemma in_order_raise:
  "in_order s \<Longrightarrow> c_targetSeqNum (s_cache s) \<le> n \<Longrightarrow> is_int32 n \<Longrightarrow>
   in_order (s\<lparr>s_cache := cache_setTargetSeqNum n (s_cache s)\<rparr>)"
  by (force simp: in_order_def cache_ops delivered_def)

lemma in_order_enqueue:
  "in_order s \<Longrightarrow> msg_seq m < max_seq \<Longrightarrow>
   in_order (s\<lparr>s_cache := (s_cache s)\<lparr>c_inboundQueue := smap_set (c_inboundQueue (s_cache s)) (msg_seq m) (copy_message m)\<rparr>\<rparr>)"
  using set_smap_set[of "c_inboundQueue (s_cache s)" "msg_seq m" "copy_message m"]
  by (auto simp: in_order_def delivered_def)

lemma keeps_call_delegate:
  assumes "app_keeps env P" "\<And>s. P s \<Longrightarrow> P (s\<lparr>s_delegated := s_delegated s @ [ev]\<rparr>)"
  shows "st_keeps P (call_delegate env ev)"
proof (cases "e_delegate env")
  case None
  then show ?thesis by (simp add: call_delegate_def keeps_intros)
next
  case (Some app)
  with assms show ?thesis by (simp add: call_delegate_def app_keeps_def keeps_intros)
qed

lemma keeps_notify [keeps_intros]:
  "app_keeps env in_order \<Longrightarrow> \<forall>m. ev \<noteq> OnMessage m \<Longrightarrow> st_keeps in_order (call_delegate env ev)"
  by (rule keeps_call_delegate) (cases ev; simp add: in_order_def delivered_def)+

section \<open>Accepting a sequence number\<close>

text \<open>After a message was accepted: the target is past it and everything delivered is before it.\<close>

definition accepted :: "message \<Rightarrow> session \<Rightarrow> bool" where
  "accepted msg s \<longleftrightarrow> in_order s \<and> c_targetSeqNum (s_cache s) = msg_seq msg + 1
     \<and> (\<forall>m \<in> set (delivered s). msg_seq m < msg_seq msg)"

lemma accepted_in_order: "accepted msg s \<Longrightarrow> in_order s"
  by (simp add: accepted_def)

lemma validateSeqNum_post:
  assumes "msg_seq msg < max_seq"
  shows "st_post in_order (validateSeqNum env msg) (\<lambda>b s. if b then accepted msg s else in_order s) in_order"
  unfolding validateSeqNum_def getTargetSeqNum_def
proof (intro post_bind[OF post_lift] post_bind[OF post_get])
  fix n t
  let ?Q = "\<lambda>b s. if b then accepted msg s else in_order s"
  let ?P = "\<lambda>s. (in_order s \<and> getIntField (m_header msg) FIELD_MsgSeqNum = Inr n) \<and> t = c_targetSeqNum (s_cache s)"
  have refuse: "st_post ?P (refuse m) ?Q in_order" if "st_keeps in_order m" for m
    unfolding refuse_def using that by (intro post_seq[where R = in_order] st_post_keeps[of in_order m] post_ret) auto
  show "st_post ?P
      (if n = t then st_seq nextTargetSeqNum (st_ret True)
       else if n < t
       then refuse (logout env (''MsgSeqNum too low, expected '' @ dec_int t @ '', received '' @ dec_int n) True)
       else if n \<noteq> 0
       then refuse (st_seq (on_cache (\<lambda>c. c\<lparr>c_inboundQueue := smap_set (c_inboundQueue c) n (copy_message msg)\<rparr>))
                           (sendResendRequest env t n))
       else st_ret False) ?Q in_order"
  proof (intro post_if)
    assume "n = t"
    then show "st_post ?P (st_seq nextTargetSeqNum (st_ret True)) ?Q in_order"
      unfolding nextTargetSeqNum_def on_cache_def using assms
      by (intro post_seq[OF post_mod[where Q = "\<lambda>_. accepted msg"]] post_ret)
        (auto simp: accepted_def in_order_advance dest!: msg_seqI,
         auto simp: in_order_def cache_ops delivered_def is_int32_def max_seq_def)
  next
    show "st_post ?P (refuse (st_seq (on_cache (\<lambda>c. c\<lparr>c_inboundQueue := smap_set (c_inboundQueue c) n (copy_message msg)\<rparr>))
                           (sendResendRequest env t n))) ?Q in_order"
      unfolding refuse_def on_cache_def
      by (intro post_seq post_mod post_ret st_post_keeps[of in_order "sendResendRequest env t n"] keeps_intros)
        (auto simp: assms in_order_enqueue dest!: msg_seqI)
  qed (rule refuse, intro keeps_intros | rule post_ret, simp)+
qed simp_all

section \<open>The handlers keep the order\<close>

lemma keeps_bind_lift:
  "(\<And>x. r = Inr x \<Longrightarrow> st_keeps P (k x)) \<Longrightarrow> st_keeps P (st_bind (st_lift r) k)"
  by (cases r) (simp_all add: st_keeps_def st_bind_def)

lemma keeps_bind_get:
  "(\<And>x. st_post (\<lambda>s. P s \<and> x = f s) (k x) (\<lambda>_. P) P) \<Longrightarrow> st_keeps P (st_bind (st_get f) k)"
  by (intro st_post_keepsI post_bind[OF post_get])

lemma post_from_keeps: "st_keeps P m \<Longrightarrow> st_post (\<lambda>s. P s \<and> c s) m (\<lambda>_. P) P"
  by (rule st_post_keeps) auto

lemma keeps_advance_if:
  "n < max_seq \<Longrightarrow> st_keeps in_order (st_bind getTargetSeqNum (\<lambda>t. when_do (n = t) nextTargetSeqNum))"
  unfolding getTargetSeqNum_def nextTargetSeqNum_def on_cache_def when_do_def
  by (intro keeps_bind_get post_if post_mod post_ret) (auto simp: in_order_advance)

lemma keeps_handleResendRequest:
  assumes "msg_seq msg < max_seq"
  shows "st_keeps in_order (handleResendRequest env msg)"
  unfolding handleResendRequest_def
  by (intro keeps_bind_lift keeps_intros keeps_advance_if) (use assms in \<open>auto dest!: msg_seqI\<close>)

lemma keeps_handleSequenceReset:
  assumes "msg_seq msg < max_seq"
  shows "st_keeps in_order (handleSequenceReset env msg)"
  unfolding handleSequenceReset_def Let_def getTargetSeqNum_def
proof (rule keeps_bind_lift, rule keeps_bind_lift, rule st_keeps_if, (intro keeps_intros)[1],
    rule keeps_bind_get, rule post_if, rule post_from_keeps, (intro keeps_intros)[1])
  fix n i t
  assume n: "getIntField (m_body msg) FIELD_NewSeqNo = Inr n" and i: "getIntField (m_header msg) FIELD_MsgSeqNum = Inr i"
    and le: "\<not> n \<le> i" "\<not> n < t"
  let ?P = "\<lambda>s. in_order s \<and> t = c_targetSeqNum (s_cache s)"
  let ?M = "\<lambda>b s. in_order s \<and> (b \<longrightarrow> c_targetSeqNum (s_cache s) \<le> n)"
  have "is_int32 n" using n by (auto simp: getIntField_def elim!: sbind_InrE)
  have "st_post in_order (validateSeqNum env msg) ?M in_order"
    using validateSeqNum_post[OF assms, of env] le msg_seqI[OF i]
    unfolding st_post_def by (fastforce simp: accepted_def split: prod.splits sum.splits if_splits)
  then have "st_post ?P (if tryGetBool (m_body msg) FIELD_GapFillFlag then validateSeqNum env msg else st_ret True) ?M in_order"
    using le by (intro post_if post_ret) (auto elim: post_pre)
  then show "st_post ?P (st_bind (if tryGetBool (m_body msg) FIELD_GapFillFlag then validateSeqNum env msg else st_ret True)
      (\<lambda>in_sequence. when_do in_sequence (setTargetSeqNum n))) (\<lambda>_. in_order) in_order"
  proof (rule post_bind)
    show "st_post (?M b) (when_do b (setTargetSeqNum n)) (\<lambda>_. in_order) in_order" for b
      unfolding when_do_def setTargetSeqNum_def on_cache_def
      using \<open>is_int32 n\<close> by (intro post_if post_mod post_ret) (auto simp: in_order_raise)
  qed
qed

lemma keeps_heartbeatInterval [keeps_intros]: "st_keeps in_order (st_mod (\<lambda>s. s\<lparr>s_heartbeatInterval := t\<rparr>))"
  by (intro keeps_intros) (simp add: in_order_def delivered_def)

lemma keeps_option_case [keeps_intros]:
  "st_keeps P m \<Longrightarrow> (\<And>x. st_keeps P (f x)) \<Longrightarrow> st_keeps P (case opt of None \<Rightarrow> m | Some x \<Rightarrow> f x)"
  by (cases opt) simp_all

lemma post_finish_logon:
  assumes "n < max_seq" "app_keeps env in_order"
  shows "st_post (\<lambda>s. in_order s \<and> t = c_targetSeqNum (s_cache s)) (finish_logon env msg n t r b) (\<lambda>_. in_order) in_order"
proof -
  have "st_post (\<lambda>s. in_order s \<and> t = c_targetSeqNum (s_cache s)) (when_do (n = t) nextTargetSeqNum) (\<lambda>_. in_order) in_order"
    unfolding when_do_def nextTargetSeqNum_def on_cache_def
    using assms(1) by (intro post_if post_mod post_ret) (auto simp: in_order_advance)
  then show ?thesis
    unfolding finish_logon_def
  proof (rule post_seq)
    show "st_post in_order
     (st_bind (st_lift (getSessionType (e_settings env)))
       (\<lambda>ty. st_seq (when_do (ty = ACCEPTOR)
                 (st_bind (st_lift (getIntField (m_body msg) FIELD_HeartBtInt)) (\<lambda>hb.
                  st_seq (st_mod (\<lambda>s. s\<lparr>s_heartbeatInterval := hb * 1000\<rparr>)) (sendLogon env b))))
             (st_seq (set_state READY)
             (st_seq (case r of None \<Rightarrow> st_ret () | Some i \<Rightarrow> runMessageRecovery env i 0)
                (if \<not> getBool SEND_NEXT_EXPECTED_MSG_SEQ_NUM (e_settings env) \<and> n > t
                 then sendResendRequest env t 0 else call_delegate env OnLogon)))))
     (\<lambda>_. in_order) in_order"
      by (rule st_post_keeps[of in_order]) (intro keeps_intros assms(2); simp)+
  qed
qed

lemma keeps_handleLogon:
  assumes "msg_seq msg < max_seq" "app_keeps env in_order" "\<not> getBool RESET_SEQ_NUM_ON_LOGON (e_settings env)"
  shows "st_keeps in_order (handleLogon env msg)"
proof -
  have frame: "st_post (\<lambda>s. in_order s \<and> t = c_targetSeqNum (s_cache s)) m
      (\<lambda>_ s. in_order s \<and> t = c_targetSeqNum (s_cache s)) in_order"
    if "\<And>s. snd (m s) = s" for t and m :: "'b act"
    unfolding st_post_def using that by (auto split: prod.splits sum.splits) (metis snd_conv)+
  show ?thesis
    unfolding handleLogon_def getTargetSeqNum_def getSenderSeqNum_def
  proof (rule st_keeps_if, (intro keeps_intros)[1], rule keeps_bind_lift, rule keeps_bind_get, rule post_if,
      rule post_from_keeps, (intro keeps_intros)[1])
    fix n t
    assume n: "getIntField (m_header msg) FIELD_MsgSeqNum = Inr n"
    have lt: "n < max_seq" using assms(1) msg_seqI[OF n] by simp
    show "st_post (\<lambda>s. in_order s \<and> t = c_targetSeqNum (s_cache s))
       (st_bind (st_get (\<lambda>s. c_senderSeqNum (s_cache s))) (\<lambda>sender.
        st_bind (st_lift (check_next_expected msg sender)) (\<lambda>checked.
          case checked of
            Inl reason \<Rightarrow> logout env reason True
          | Inr recovery \<Rightarrow>
              (if tryGetBool (m_body msg) FIELD_ResetSeqNumFlag
               then (if \<not> getBool RESET_SEQ_NUM_ON_LOGON (e_settings env)
                     then logout env ''ResetSeqNumFlag(141) not supported on this session'' True
                     else st_seq reset_session (finish_logon env msg n t recovery True))
               else finish_logon env msg n t recovery False))))
       (\<lambda>_. in_order) in_order"
    proof (intro post_bind[OF frame])
      fix sender checked
      show "st_post (\<lambda>s. in_order s \<and> t = c_targetSeqNum (s_cache s))
        (case checked of
            Inl reason \<Rightarrow> logout env reason True
          | Inr recovery \<Rightarrow>
              (if tryGetBool (m_body msg) FIELD_ResetSeqNumFlag
               then (if \<not> getBool RESET_SEQ_NUM_ON_LOGON (e_settings env)
                     then logout env ''ResetSeqNumFlag(141) not supported on this session'' True
                     else st_seq reset_session (finish_logon env msg n t recovery True))
               else finish_logon env msg n t recovery False))
        (\<lambda>_. in_order) in_order"
        using assms(3) lt
        by (cases checked) (simp_all add: post_from_keeps keeps_intros post_finish_logon assms(2))
    qed simp_all
  qed
qed

section \<open>Receiving keeps the order\<close>

lemma accepted_deliver:
  "accepted msg s \<Longrightarrow> in_order (s\<lparr>s_delegated := s_delegated s @ [OnMessage msg]\<rparr>)"
  by (auto simp: accepted_def in_order_def delivered_def sorted_wrt_append)

lemma post_deliver:
  assumes "app_keeps env in_order"
  shows "st_post (accepted msg) (call_delegate env (OnMessage msg)) (\<lambda>_. in_order) in_order"
proof (cases "e_delegate env")
  case None
  then show ?thesis by (auto simp: call_delegate_def accepted_in_order intro: post_ret)
next
  case (Some app)
  then have "st_keeps in_order (app (OnMessage msg))" using assms by (simp add: app_keeps_def)
  then have "st_post in_order (app (OnMessage msg)) (\<lambda>_. in_order) in_order" by (rule st_post_keeps)
  with Some show ?thesis
    by (auto simp: call_delegate_def intro!: post_seq[OF post_mod[where Q = "\<lambda>_. in_order"]] accepted_deliver)
qed

lemma keeps_processLogout [keeps_intros]: "app_keeps env in_order \<Longrightarrow> st_keeps in_order (processLogout env)"
  unfolding processLogout_def by (intro keeps_intros) simp_all

lemma keeps_processHeartbeat [keeps_intros]:
  "app_keeps env in_order \<Longrightarrow> st_keeps in_order (processHeartbeat env msg)"
  unfolding processHeartbeat_def by (intro keeps_intros) simp_all

lemma keeps_processMessage:
  assumes "msg_seq msg < max_seq" "app_keeps env in_order" "\<not> getBool RESET_SEQ_NUM_ON_LOGON (e_settings env)"
  shows "st_keeps in_order (processMessage env msg time)"
  unfolding processMessage_def
proof (rule st_keeps_bind, (intro keeps_intros)[1], rule st_keeps_bind, (intro keeps_intros)[1],
    (rule st_keeps_if, (intro keeps_intros keeps_handleSequenceReset keeps_handleLogon keeps_handleResendRequest assms)[1])+)
  fix msgType
  let ?in = "\<lambda>in_sequence. if \<not> in_sequence then st_ret ()
     else if msgType = MSG_LOGOUT then processLogout env
     else if msgType = MSG_HEARTBEAT then processHeartbeat env msg
     else if msgType = MSG_TEST_REQUEST
     then st_bind (st_lift (getField (m_body msg) FIELD_TestReqID)) (sendHeartbeat env)
     else if msgType = MSG_REJECT then st_ret ()
     else call_delegate env (OnMessage msg)"
  have other: "st_post (accepted msg) m (\<lambda>_. in_order) in_order" if "st_keeps in_order m" for m :: "unit act"
    using that by (rule st_post_keeps) (auto simp: accepted_in_order)
  have "st_post (\<lambda>s. if b then accepted msg s else in_order s) (?in b) (\<lambda>_. in_order) in_order" for b
  proof (cases b)
    case True
    have "st_post (accepted msg) (?in True) (\<lambda>_. in_order) in_order"
      by (simp only: not_True_eq_False if_False, intro post_if post_deliver assms other keeps_intros)
    with True show ?thesis by simp
  qed (auto intro: post_ret)
  then show "st_keeps in_order (st_bind (validateSeqNum env msg) ?in)"
    by (intro st_post_keepsI post_bind[OF validateSeqNum_post[OF assms(1)]])
qed

lemma keeps_erase_first [keeps_intros]: "st_keeps in_order erase_first"
  by (auto simp: st_keeps_def erase_first_def in_order_def delivered_def split: list.splits)

lemma keeps_drain:
  assumes "app_keeps env in_order" "\<not> getBool RESET_SEQ_NUM_ON_LOGON (e_settings env)"
  shows "st_keeps in_order (drain env time n)"
proof (induction n)
  case (Suc n)
  show ?case unfolding drain.simps
  proof (rule keeps_bind_get, clarsimp split: list.splits, intro conjI allI impI)
    fix queue target msg rest
    show "st_post (\<lambda>s. in_order s \<and> queue = c_inboundQueue (s_cache s) \<and> target = c_targetSeqNum (s_cache s))
       (st_ret ()) (\<lambda>_. in_order) in_order" by (rule post_ret) simp
    show "st_post (\<lambda>s. in_order s \<and> (k, msg) # rest = c_inboundQueue (s_cache s) \<and> t = c_targetSeqNum (s_cache s))
       (st_ret ()) (\<lambda>_. in_order) in_order" for k t by (rule post_ret) simp
    show "st_post (\<lambda>s. in_order s \<and> (k, msg) # rest = c_inboundQueue (s_cache s) \<and> t = c_targetSeqNum (s_cache s))
       (st_seq (processMessage env msg time) (st_seq erase_first (drain env time n))) (\<lambda>_. in_order) in_order" for k t
    proof (cases "msg_seq msg < max_seq")
      case True
      then have "st_keeps in_order (st_seq (processMessage env msg time) (st_seq erase_first (drain env time n)))"
        by (intro keeps_intros keeps_processMessage Suc.IH assms)
      then show ?thesis by (rule post_from_keeps)
    next
      case False
      then have "\<not> (in_order s \<and> (k, msg) # rest = c_inboundQueue (s_cache s) \<and> t = c_targetSeqNum (s_cache s))" for s
        by (cases "c_inboundQueue (s_cache s)") (auto simp: in_order_def)
      then show ?thesis by (simp add: st_post_def) blast
    qed
  qed
qed (simp only: drain.simps, intro keeps_intros)

definition text_ok :: "session_env \<Rightarrow> string \<Rightarrow> bool" where
  "text_ok env txt \<longleftrightarrow>
     (case parse (parse_settings_of (e_settings env)) (e_dictionary env) txt of
        Inl _ \<Rightarrow> True | Inr msg \<Rightarrow> msg_seq msg < max_seq)"

lemma keeps_modify_other [keeps_intros]:
  "st_keeps in_order (set_cachedEpoch us)"
  "st_keeps in_order (st_mod (\<lambda>s. s\<lparr>s_lastRecvHeartbeat := t\<rparr>))"
  "st_keeps in_order (st_mod (\<lambda>s. s\<lparr>s_lastReconnect := t\<rparr>))"
  "st_keeps in_order (st_mod (\<lambda>s. s\<lparr>s_lastSentTestRequest := t\<rparr>))"
  "st_keeps in_order (st_mod (\<lambda>s. s\<lparr>s_lastUpdate := t\<rparr>))"
  "st_keeps in_order (st_mod (\<lambda>s. s\<lparr>s_enabled := b\<rparr>))"
  "st_keeps in_order (on_network f)"
  unfolding set_cachedEpoch_def on_network_def
  by (intro keeps_intros; simp add: in_order_def delivered_def)+

lemma flushSeqNums_sel [simp]:
  "c_targetSeqNum (flushSeqNums c) = c_targetSeqNum c" "c_senderSeqNum (flushSeqNums c) = c_senderSeqNum c"
  "c_inboundQueue (flushSeqNums c) = c_inboundQueue c" "c_messages (flushSeqNums c) = c_messages c"
  by (simp_all add: flushSeqNums_def Let_def)

lemma keeps_flush [keeps_intros]: "st_keeps in_order (on_cache flushSeqNums)"
  unfolding on_cache_def by (intro keeps_intros) (simp add: in_order_def delivered_def)

definition orderly :: "session_env \<Rightarrow> bool" where
  "orderly env \<longleftrightarrow> app_keeps env in_order \<and> \<not> getBool RESET_SEQ_NUM_ON_LOGON (e_settings env)"

lemma keeps_receive: "orderly env \<Longrightarrow> text_ok env txt \<Longrightarrow> st_keeps in_order (receive env txt)"
  unfolding receive_def Let_def
  by (rule keeps_bind_lift, rule st_keeps_bind)
    (intro keeps_intros keeps_processMessage keeps_drain; simp add: text_ok_def orderly_def)+

lemma keeps_onNetworkMessage: "orderly env \<Longrightarrow> text_ok env txt \<Longrightarrow> st_keeps in_order (onNetworkMessage env txt)"
  unfolding onNetworkMessage_def by (intro keeps_intros keeps_catch keeps_receive)

lemma keeps_internal_update: "orderly env \<Longrightarrow> st_keeps in_order (internal_update env)"
  unfolding internal_update_def update_disconnected_def network_start_def update_logon_def update_timeouts_def
    update_heartbeats_def logon_due_def Let_def
  by (intro keeps_intros ordered.tick) (simp_all add: when_do_def keeps_intros orderly_def)

lemma keeps_onNetworkUpdate: "orderly env \<Longrightarrow> st_keeps in_order (onNetworkUpdate env)"
  unfolding onNetworkUpdate_def by (intro keeps_intros keeps_catch keeps_internal_update)

lemma keeps_any_callback: "orderly env \<Longrightarrow> st_keeps in_order (run_callback env cb)"
proof (cases cb)
  case (Some c)
  then show "orderly env \<Longrightarrow> ?thesis" by (cases c) (auto intro!: keeps_intros simp: orderly_def)
qed (simp add: keeps_intros)

section \<open>Runs of a session\<close>

text \<open>
  The entry points of a session: a text from the reader thread, the update tick, the application's
  calls, a connection coming and going, and a queued packet's callback, run by the reader thread
  when the packet has left.
\<close>

datatype session_event =
    Received string | Updated | Sent message "nat option" | Started | Stopped | Attached | Dropped
  | Flushed send_callback

fun perform :: "session_env \<Rightarrow> session_event \<Rightarrow> unit act" where
  "perform env (Received txt) = onNetworkMessage env txt"
| "perform env Updated = onNetworkUpdate env"
| "perform env (Sent msg cb) = send_only env (map_option AppCallback cb) msg"
| "perform env Started = start_session"
| "perform env Stopped = stop_session"
| "perform env Attached = on_network (setConnection True)"
| "perform env Dropped = on_network invalidate"
| "perform env (Flushed cb) = run_callback env (Some cb)"

inductive session_run :: "session_env \<Rightarrow> session \<Rightarrow> session_event list \<Rightarrow> session \<Rightarrow> bool" for env s0 where
  run_none: "session_run env s0 [] s0"
| run_more: "session_run env s0 es s \<Longrightarrow> snd (perform env e s) = s' \<Longrightarrow> session_run env s0 (es @ [e]) s'"

inductive_cases session_run_snocE: "session_run env s0 (es @ [e]) s"
inductive_simps session_run_nil [simp]: "session_run env s0 [] s"

lemma session_run_snoc [simp]:
  "session_run env s0 (es @ [e]) s' \<longleftrightarrow> (\<exists>s. session_run env s0 es s \<and> s' = snd (perform env e s))"
  by (auto intro: run_more elim!: session_run_snocE)

text \<open>A property that every event keeps holds throughout a run.\<close>

lemma run_invariant:
  assumes "session_run env s0 es s" "P s0" "\<And>e. e \<in> set es \<Longrightarrow> st_keeps P (perform env e)"
  shows "P s"
  using assms
proof (induction rule: session_run.induct)
  case (run_more es s e s')
  then have "P s" by simp
  with run_more show ?case by (metis st_keepsD in_set_conv_decomp)
qed simp

fun event_ok :: "session_env \<Rightarrow> session_event \<Rightarrow> bool" where
  "event_ok env (Received txt) = text_ok env txt"
| "event_ok env _ = True"

lemma keeps_perform: "orderly env \<Longrightarrow> event_ok env e \<Longrightarrow> st_keeps in_order (perform env e)"
proof (cases e)
  case (Sent msg cb)
  assume o: "orderly env"
  show ?thesis unfolding Sent perform.simps send_only_def
    by (intro keeps_intros ordered.keeps_send keeps_any_callback o)
next
  case Stopped
  then show ?thesis by (simp add: stop_session_def) (intro keeps_intros)
next
  case Started
  then show ?thesis by (simp add: start_session_def keeps_intros)
qed (simp_all add: keeps_onNetworkMessage keeps_onNetworkUpdate keeps_any_callback keeps_intros)

section \<open>One message in sequence\<close>

definition app_type :: "string \<Rightarrow> bool" where
  "app_type t \<longleftrightarrow> t \<notin> set SESSION_MSGS \<and> t \<noteq> MSG_REJECT"

lemma validateSeqNum_at:
  "getIntField (m_header msg) FIELD_MsgSeqNum = Inr (c_targetSeqNum (s_cache s)) \<Longrightarrow>
   validateSeqNum env msg s = (Inr True, s\<lparr>s_cache := snd (cache_nextTargetSeqNum (s_cache s))\<rparr>)"
  by (simp add: validateSeqNum_def st_bind_apply getTargetSeqNum_def nextTargetSeqNum_def on_cache_def st_seq_apply)

lemma processMessage_in_sequence:
  assumes "passes env msg time" "getField (m_header msg) FIELD_MsgType = Inr t" "app_type t"
    "s_state s \<noteq> LOGON" "s_state s \<noteq> LOGOUT"
    "getIntField (m_header msg) FIELD_MsgSeqNum = Inr (c_targetSeqNum (s_cache s))"
  shows "processMessage env msg time s =
    call_delegate env (OnMessage msg) (s\<lparr>s_cache := snd (cache_nextTargetSeqNum (s_cache s))\<rparr>)"
proof -
  have v: "validateMessage env msg t time s = (Inr True, s)" using assms by (intro validateMessage_passes) simp_all
  note validateSeqNum_at[OF assms(6), of env]
  with v assms(2,3) show ?thesis
    by (simp add: processMessage_def st_bind_apply app_type_def SESSION_MSGS_def)
qed

text \<open>A well-addressed application message that carries the expected number, on a session that is
  past logon, is handed to the application at once, exactly once, and moves the expected number on by
  one; nothing is sent.\<close>

lemma in_sequence_delivered:
  assumes "passes env msg time" "getField (m_header msg) FIELD_MsgType = Inr t" "app_type t"
    "s_state s \<noteq> LOGON" "s_state s \<noteq> LOGOUT"
    "getIntField (m_header msg) FIELD_MsgSeqNum = Inr (c_targetSeqNum (s_cache s))"
    "e_delegate env = Some (\<lambda>_. st_ret ())"
  shows "processMessage env msg time s =
    (Inr (), s\<lparr>s_cache := snd (cache_nextTargetSeqNum (s_cache s)), s_delegated := s_delegated s @ [OnMessage msg]\<rparr>)"
  unfolding processMessage_in_sequence[OF assms(1-6)]
  by (simp add: call_delegate_def assms(7) st_seq_apply)

text \<open>\<open>receive\<close> after the parser and the clock have answered.\<close>

definition received :: "message \<Rightarrow> int \<Rightarrow> session \<Rightarrow> session" where
  "received msg us s = s\<lparr>s_tick := Suc (s_tick s), s_cachedEpochUs := us,
     s_msgLogger := writeMessage (s_msgLogger s) (nat us) True (m_sourceText msg), s_lastRecvHeartbeat := cdiv us 1000\<rparr>"

lemma receive_parsed:
  assumes "parse (parse_settings_of (e_settings env)) (e_dictionary env) txt = Inr msg"
    "int (e_clock env (s_tick s)) = us"
  shows "receive env txt s = st_seq (processMessage env msg (cdiv us 1000))
      (st_bind (st_get (\<lambda>s. length (c_inboundQueue (s_cache s)))) (\<lambda>n. st_seq (drain env (cdiv us 1000) n) (set_cachedEpoch 0)))
      (received msg us s)"
  unfolding receive_def st_bind_apply assms(1) st_simps prod.case sum.case getEpochMicros_def ask_def assms(2)
  by (simp only: Let_def st_seq_apply st_bind_apply set_cachedEpoch_def logMessage_def st_simps prod.case sum.case)
    (simp add: received_def)

text \<open>Receiving such a message when nothing is queued.\<close>

lemma receive_in_sequence:
  assumes "parse (parse_settings_of (e_settings env)) (e_dictionary env) txt = Inr msg"
    "passes env msg (cdiv (int (e_clock env (s_tick s))) 1000)" "getField (m_header msg) FIELD_MsgType = Inr t" "app_type t"
    "s_state s = READY" "c_inboundQueue (s_cache s) = []"
    "getIntField (m_header msg) FIELD_MsgSeqNum = Inr (c_targetSeqNum (s_cache s))"
    "e_delegate env = Some (\<lambda>_. st_ret ())"
  defines "s' \<equiv> snd (onNetworkMessage env txt s)"
  shows "s_delegated s' = s_delegated s @ [OnMessage msg] \<and> s_state s' = READY \<and> s_tick s' = Suc (s_tick s)
    \<and> c_targetSeqNum (s_cache s') = wrap32 (c_targetSeqNum (s_cache s) + 1) \<and> c_inboundQueue (s_cache s') = []"
proof -
  define us where "us = int (e_clock env (s_tick s))"
  define time where "time = cdiv us 1000"
  define s1 where "s1 = received msg us s"
  define s2 where "s2 = s1\<lparr>s_cache := snd (cache_nextTargetSeqNum (s_cache s1)), s_delegated := s_delegated s1 @ [OnMessage msg]\<rparr>"
  have p: "processMessage env msg time s1 = (Inr (), s2)"
    using assms(2-8) unfolding s2_def by (intro in_sequence_delivered) (simp_all add: s1_def received_def time_def us_def)
  have q: "c_inboundQueue (s_cache s2) = []" using assms(6) by (simp add: s2_def s1_def received_def cache_ops)
  have "receive env txt s = st_seq (processMessage env msg time)
      (st_bind (st_get (\<lambda>s. length (c_inboundQueue (s_cache s)))) (\<lambda>n. st_seq (drain env time n) (set_cachedEpoch 0))) s1"
    unfolding s1_def time_def by (rule receive_parsed[OF assms(1)]) (simp add: us_def)
  also have "\<dots> = (Inr (), s2\<lparr>s_cachedEpochUs := 0\<rparr>)"
    by (simp add: st_seq_apply p st_bind_apply q set_cachedEpoch_def)
  finally have "s' = s2\<lparr>s_cachedEpochUs := 0\<rparr>"
    using assms(5) by (simp add: s'_def onNetworkMessage_def st_bind_apply catch_all_def)
  with q assms(5) show ?thesis by (simp add: s2_def s1_def received_def cache_ops)
qed

section \<open>Properties\<close>

text \<open>C4: the application gets the counterparty's messages in the order of their sequence numbers, each
  at most once: over any run of a session (texts received in any order, updates, sends, lost and new
  connections, delayed callbacks) the numbers of the messages delivered are strictly increasing and
  below the number expected next. The session is one that does not allow resets, the texts do not
  carry the number 2147483647, and the application's own code keeps the order.\<close>

theorem delivered_in_order:
  assumes "orderly env" "in_order s0" "session_run env s0 es s" "list_all (event_ok env) es"
  shows "sorted_wrt (<) (map msg_seq (delivered s))
    \<and> (\<forall>m \<in> set (delivered s). msg_seq m < c_targetSeqNum (s_cache s))"
proof -
  have "in_order s"
    using assms(3,2) by (rule run_invariant) (use assms(1,4) in \<open>auto simp: list_all_iff intro: keeps_perform\<close>)
  then show ?thesis by (simp add: in_order_def)
qed

lemma demo_orderly: "orderly (demo_env ty)" "in_order demo_ready"
proof -
  have "\<not> getBool RESET_SEQ_NUM_ON_LOGON (demo_settings ty)"
    by (simp add: getBool_def demo_settings_def setString_def new_config_def) code_simp
  then show "orderly (demo_env ty)" by (simp add: orderly_def demo_env_def app_keeps_def keeps_intros)
  show "in_order demo_ready"
    by (simp add: in_order_def demo_ready_def delivered_def new_cache_def is_int32_def demo_session_def new_session_def
        load_session_def cache_load_def Let_def split: sum.splits)
qed

lemma demo_env_sel [simp]:
  "parse (parse_settings_of (e_settings (demo_env ''acceptor''))) (e_dictionary (demo_env ''acceptor'')) txt = demo_parse txt"
  "e_delegate (demo_env ty) = Some (\<lambda>_. st_ret ())" "cdiv (int (e_clock (demo_env ty) n)) 1000 = 0"
  by (simp_all add: demo_env_def demo_parse_def)

lemma demo_ready_sel [simp]:
  "s_state demo_ready = READY" "c_inboundQueue (s_cache demo_ready) = []" "c_targetSeqNum (s_cache demo_ready) = 2"
  "s_delegated demo_ready = []"
  by (simp_all add: demo_ready_def new_cache_def demo_session_def new_session_def load_session_def Let_def split: sum.splits)

lemma demo_order_parsed:
  obtains m2 m3 where "demo_parse (demo_order 2) = Inr m2" "demo_parse (demo_order 3) = Inr m3"
    "passes (demo_env ''acceptor'') m2 0" "passes (demo_env ''acceptor'') m3 0"
    "getField (m_header m2) FIELD_MsgType = Inr ''D''" "getField (m_header m3) FIELD_MsgType = Inr ''D''"
    "getIntField (m_header m2) FIELD_MsgSeqNum = Inr 2" "getIntField (m_header m3) FIELD_MsgSeqNum = Inr 3"
  using demo_orders by (auto split: sum.splits)

lemma in_sequence_delivered_witness:
  "\<exists>m. demo_parse (demo_order 2) = Inr m
    \<and> delivered (snd (processMessage (demo_env ''acceptor'') m 0 demo_ready)) = [m]"
proof -
  obtain m where m: "demo_parse (demo_order 2) = Inr m" "passes (demo_env ''acceptor'') m 0"
    "getField (m_header m) FIELD_MsgType = Inr ''D''" "getIntField (m_header m) FIELD_MsgSeqNum = Inr 2"
    using demo_order_parsed by metis
  have "app_type ''D''" by (simp add: app_type_def SESSION_MSGS_def)
  from in_sequence_delivered[OF m(2,3) this, of demo_ready] m show ?thesis
    by (simp add: delivered_def)
qed

lemma delivered_in_order_witness:
  "\<exists>s. session_run (demo_env ''acceptor'') demo_ready [Received (demo_order 2), Received (demo_order 3)] s
    \<and> map msg_seq (delivered s) = [2, 3] \<and> 3 < c_targetSeqNum (s_cache s)"
proof -
  obtain m2 m3 where m: "demo_parse (demo_order 2) = Inr m2" "demo_parse (demo_order 3) = Inr m3"
    "passes (demo_env ''acceptor'') m2 0" "passes (demo_env ''acceptor'') m3 0"
    "getField (m_header m2) FIELD_MsgType = Inr ''D''" "getField (m_header m3) FIELD_MsgType = Inr ''D''"
    "getIntField (m_header m2) FIELD_MsgSeqNum = Inr 2" "getIntField (m_header m3) FIELD_MsgSeqNum = Inr 3"
    by (rule demo_order_parsed)
  have t: "app_type ''D''" by (simp add: app_type_def SESSION_MSGS_def)
  define s1 where "s1 = snd (onNetworkMessage (demo_env ''acceptor'') (demo_order 2) demo_ready)"
  define s2 where "s2 = snd (onNetworkMessage (demo_env ''acceptor'') (demo_order 3) s1)"
  have s1: "s_delegated s1 = [OnMessage m2]" "s_state s1 = READY" "c_targetSeqNum (s_cache s1) = 3"
    "c_inboundQueue (s_cache s1) = []"
    using receive_in_sequence[of "demo_env ''acceptor''" "demo_order 2" m2 demo_ready, OF _ _ m(5) t] m
    by (simp_all add: s1_def is_int32_def)
  have s2: "s_delegated s2 = [OnMessage m2, OnMessage m3]"
    using receive_in_sequence[of "demo_env ''acceptor''" "demo_order 3" m3 s1, OF _ _ m(6) t] m s1
    by (simp_all add: s2_def)
  have run: "session_run (demo_env ''acceptor'') demo_ready ([] @ [Received (demo_order 2)] @ [Received (demo_order 3)]) s2"
    by (simp only: append_assoc[symmetric] session_run_snoc session_run_nil) (auto simp: s1_def s2_def)
  have seqs: "map msg_seq (delivered s2) = [2, 3]" using s2 m by (simp add: delivered_def msg_seq_def)
  have "list_all (event_ok (demo_env ''acceptor'')) ([] @ [Received (demo_order 2)] @ [Received (demo_order 3)])"
    using m by (simp add: text_ok_def msg_seq_def max_seq_def)
  from delivered_in_order[OF demo_orderly run this] have "\<forall>m \<in> set (delivered s2). msg_seq m < c_targetSeqNum (s_cache s2)"
    by blast
  with seqs have "3 < c_targetSeqNum (s_cache s2)" by (cases "delivered s2") auto
  with run seqs show ?thesis by auto
qed

end
