(* ===== verification/SessionProps.thy ===== *)
theory SessionProps
  imports Delivery
begin

text \<open>
  What the session's operations do, one by one: sending and numbering, gaps and stale numbers,
  replay, timers, and the containment of errors.
\<close>

section \<open>Sending\<close>

lemma populateMessage_frame:
  "s_network (snd (populateMessage env msg t s)) = s_network s" (is ?n)
  "s_cache (snd (populateMessage env msg t s)) = s_cache s" (is ?c)
  "fst (populateMessage env msg t s) = Inr (n, m) \<Longrightarrow> n = c_senderSeqNum (s_cache s)"
  by (auto simp: populateMessage_def st_bind_apply getEpochMillis_def ask_def getSenderSeqNum_def writeTimestamp_def Let_def
      split: prod.splits sum.splits if_splits)

lemma send_time_frame: "s_network (snd (send_time env s)) = s_network s" "s_cache (snd (send_time env s)) = s_cache s"
  by (auto simp: send_time_def st_bind_apply getEpochMicros_def ask_def)

lemma send_time_returns: "\<exists>us s'. send_time env s = (Inr us, s') \<and> s_network s' = s_network s \<and> s_cache s' = s_cache s"
  by (auto simp: send_time_def st_bind_apply getEpochMicros_def ask_def)

text \<open>The callbacks the session itself uses.\<close>

definition own_callback :: "send_callback option \<Rightarrow> bool" where
  "own_callback cb \<longleftrightarrow> (case cb of Some (AppCallback _) \<Rightarrow> False | _ \<Rightarrow> True)"

lemma run_callback_own:
  assumes "own_callback cb"
  shows "fst (run_callback env cb s) = Inr ()"
    "handler_sent (s_network (snd (run_callback env cb s))) = handler_sent (s_network s)"
    "s_cache (snd (run_callback env cb s)) = s_cache s"
  using assms
  by (cases cb; cases "the cb"; auto simp: own_callback_def terminate_def logEvent_def on_network_def set_state_def
      st_seq_apply handler.sent_hangup)+

lemma internal_send_wire_spec:
  assumes "own_callback cb" "handler_ok (s_network s)"
  shows "\<exists>s'. internal_send_wire env wire cb us s = (Inr (), s') \<and> s_cache s' = s_cache s
    \<and> handler_sent (s_network s') = handler_sent (s_network s) @ (if isConnected (s_network s) then [wire] else [])"
proof (cases "isConnected (s_network s)")
  case True
  define s1 where "s1 = s\<lparr>s_msgLogger := writeMessage (s_msgLogger s) (nat us) False wire, s_tick := Suc (s_tick s)\<rparr>"
  obtain r h where rh: "nh_send (e_inline env (s_tick s)) wire cb (s_network s) = (r, h)" by force
  have h: "handler_sent h = handler_sent (s_network s) @ [wire]"
    using handler.sent_transmit[OF assms(2), of "e_inline env (s_tick s)" wire cb] True rh by simp
  have r: "own_callback r"
    using assms rh True by (auto simp: nh_send_def trySendInline_def own_callback_def split: if_splits)
  obtain s3 where s3: "run_callback env r (s1\<lparr>s_network := h\<rparr>) = (Inr (), s3)"
    "handler_sent (s_network s3) = handler_sent h" "s_cache s3 = s_cache s"
    using run_callback_own[OF r, of env "s1\<lparr>s_network := h\<rparr>"]
    by (cases "run_callback env r (s1\<lparr>s_network := h\<rparr>)") (auto simp: s1_def)
  have e: "internal_send_wire env wire cb us s = (Inr (), s3\<lparr>s_lastSentHeartbeat := cdiv us 1000\<rparr>)"
    using True rh s3(1)
    by (simp add: internal_send_wire_def st_bind_apply st_seq_apply when_do_def logMessage_def network_send_def ask_def s1_def)
  show ?thesis using True s3 h by (simp add: e)
qed (simp add: internal_send_wire_def st_bind_apply when_do_def)

lemma send_spec:
  assumes "own_callback cb" "handler_ok (s_network s)" "send env msg cb s = (Inr msg', s')"
  shows "c_senderSeqNum (s_cache s') = wrap32 (c_senderSeqNum (s_cache s) + 1)
    \<and> c_messages (s_cache s') = hmap_set (c_messages (s_cache s)) (c_senderSeqNum (s_cache s)) (toString True msg')
    \<and> c_pendingStoreSeqNums (s_cache s') = c_pendingStoreSeqNums (s_cache s) @ [c_senderSeqNum (s_cache s)]
    \<and> handler_sent (s_network s') = handler_sent (s_network s) @ (if isConnected (s_network s) then [toString True msg'] else [])"
proof -
  obtain us s1 where s1: "send_time env s = (Inr us, s1)" "s_network s1 = s_network s" "s_cache s1 = s_cache s"
    using send_time_returns by blast
  from assms(3) s1(1) obtain n s2 where s2: "populateMessage env msg (cdiv us 1000) s1 = (Inr (n, msg'), s2)"
    by (auto simp: send_def st_bind_apply st_seq_apply Let_def split: prod.splits sum.splits)
  have f: "s_network s2 = s_network s" "s_cache s2 = s_cache s" "n = c_senderSeqNum (s_cache s)"
    using populateMessage_frame[of env msg "cdiv us 1000" s1] s2 s1 by auto
  define s3 where "s3 = s2\<lparr>s_cache := snd (cache_nextSenderSeqNum (cache_message n (toString True msg') (s_cache s)))\<rparr>"
  have "send env msg cb s = (case internal_send_wire env (toString True msg') cb us s3 of
      (Inl e, s') \<Rightarrow> (Inl e, s') | (Inr x, s') \<Rightarrow> (Inr msg', s'))"
    by (simp add: send_def st_bind_apply st_seq_apply s1 s2 Let_def on_cache_def nextSenderSeqNum_def s3_def f
        split: prod.split sum.split)
  moreover obtain s4 where "internal_send_wire env (toString True msg') cb us s3 = (Inr (), s4)" "s_cache s4 = s_cache s3"
      "handler_sent (s_network s4) = handler_sent (s_network s3) @ (if isConnected (s_network s3) then [toString True msg'] else [])"
    using internal_send_wire_spec[OF assms(1), of s3 env "toString True msg'" us] assms(2) f by (auto simp: s3_def)
  ultimately show ?thesis
    using assms(3) f by (auto simp: s3_def cache_ops)
qed

section \<open>Sending a fresh message\<close>

lemma getField_setField_unordered:
  assumes "setField tag v False m = Inr m'"
  shows "getField m' tag = Inr v"
proof -
  have r: "getField (insertFieldView tag (Own i (length v)) False (with_owned ow c m)) tag = Inr v"
    if "ow ! i = (t, k, v @ bytes)" for i t k bytes ow c
    using that by (simp add: getField_def insertFieldView_def lhm_lookup_map_of lhm_assign_map_of split: option.split)
  show ?thesis
  proof (cases "find_slot (fm_owned m) tag = length (fm_owned m)")
    case True
    with assms show ?thesis
      by (auto simp: setField_def Let_def split: if_splits intro!: r) (auto simp: new_slot_def nth_append)
  next
    case False
    then have "find_slot (fm_owned m) tag < length (fm_owned m)" using find_slot_le[of "fm_owned m" tag] by simp
    with False assms show ?thesis
      by (cases "fm_owned m ! find_slot (fm_owned m) tag")
        (auto simp: setField_def Let_def split: if_splits intro!: r)
  qed
qed

text \<open>A map that owns at most two short fields takes the two stamps of \<open>populateMessage\<close>.\<close>

lemma setField_fits:
  assumes "length (fm_owned m) \<le> 12" "tag \<notin> fst ` set (fm_owned m)" "fm_owned m = [] \<or> 16 \<le> fm_ownedCap m"
  shows "\<exists>m'. setField tag v order m = Inr m' \<and> fst ` set (fm_owned m') = insert tag (fst ` set (fm_owned m))
    \<and> length (fm_owned m') = Suc (length (fm_owned m)) \<and> 16 \<le> fm_ownedCap m'"
proof -
  have "find_slot ow tag = length ow" if "tag \<notin> fst ` set ow" for ow using that by (induction ow) auto
  with assms have f: "find_slot (fm_owned m) tag = length (fm_owned m)" by blast
  have o: "fm_owned (insertFieldView t x ord m) = fm_owned m" "fm_ownedCap (insertFieldView t x ord m) = fm_ownedCap m"
    for t x ord m by (auto simp: insertFieldView_def split: option.splits place.splits)
  show ?thesis
    using assms f by (auto simp: setField_def Let_def OWNED_STORAGE_CAPACITY_def o new_slot_def)
qed

lemma populate_fits:
  assumes "length (fm_owned (m_header msg)) \<le> 10" "FIELD_SendingTime \<notin> fst ` set (fm_owned (m_header msg))"
    "FIELD_MsgSeqNum \<notin> fst ` set (fm_owned (m_header msg))"
    "fm_owned (m_header msg) = [] \<or> 16 \<le> fm_ownedCap (m_header msg)"
  shows "\<exists>msg' s'. populateMessage env msg t s = (Inr (c_senderSeqNum (s_cache s), msg'), s')
    \<and> m_body msg' = m_body msg \<and> getField (m_header msg') FIELD_MsgSeqNum = Inr (dec_int (c_senderSeqNum (s_cache s)))"
proof -
  have o: "fm_owned (setFieldView t x ord m) = fm_owned m" "fm_ownedCap (setFieldView t x ord m) = fm_ownedCap m"
    for t x ord m by (auto simp: setFieldView_def insertFieldView_def split: option.splits place.splits)
  define h3 where "h3 = setFieldView FIELD_TargetCompID (getString TARGET_COMP_ID (e_settings env)) False
     (setFieldView FIELD_SenderCompID (getString SENDER_COMP_ID (e_settings env)) False
       (setFieldView FIELD_BeginString (getString BEGIN_STRING (e_settings env)) False (m_header msg)))"
  have h3: "fm_owned h3 = fm_owned (m_header msg)" "fm_ownedCap h3 = fm_ownedCap (m_header msg)" by (simp_all add: h3_def o)
  have "\<exists>h4 h5. setField FIELD_SendingTime x False h3 = Inr h4
      \<and> setFieldInt FIELD_MsgSeqNum (c_senderSeqNum (s_cache s)) False h4 = Inr h5" for x
  proof -
    obtain h4 where h4: "setField FIELD_SendingTime x False h3 = Inr h4"
      "fst ` set (fm_owned h4) = insert FIELD_SendingTime (fst ` set (fm_owned h3))"
      "length (fm_owned h4) = Suc (length (fm_owned h3))" "16 \<le> fm_ownedCap h4"
      using setField_fits[of h3 FIELD_SendingTime x False] assms unfolding h3 by auto
    have "length (fm_owned h4) \<le> 12" using h4(3) assms(1) h3 by simp
    moreover have "FIELD_MsgSeqNum \<notin> fst ` set (fm_owned h4)" unfolding h4(2) h3 using assms(3) by simp
    ultimately obtain h5 where "setField FIELD_MsgSeqNum (dec_int (c_senderSeqNum (s_cache s))) False h4 = Inr h5"
      using setField_fits[of h4 FIELD_MsgSeqNum] h4(4) by blast
    with h4(1) show ?thesis by (auto simp: setFieldInt_def)
  qed
  then obtain h4 h5 where h: "setField FIELD_SendingTime x False h3 = Inr (h4 x)"
    "setFieldInt FIELD_MsgSeqNum (c_senderSeqNum (s_cache s)) False (h4 x) = Inr (h5 x)" for x by metis
  then have "getField (h5 x) FIELD_MsgSeqNum = Inr (dec_int (c_senderSeqNum (s_cache s)))" for x
    unfolding setFieldInt_def by (intro getField_setField_unordered)
  then show ?thesis
    by (auto simp: populateMessage_def st_bind_apply getEpochMillis_def ask_def getSenderSeqNum_def writeTimestamp_def
        Let_def h split: prod.splits simp flip: h3_def)
qed

lemma send_returns:
  assumes "length (fm_owned (m_header msg)) \<le> 10" "FIELD_SendingTime \<notin> fst ` set (fm_owned (m_header msg))"
    "FIELD_MsgSeqNum \<notin> fst ` set (fm_owned (m_header msg))"
    "fm_owned (m_header msg) = [] \<or> 16 \<le> fm_ownedCap (m_header msg)"
    "own_callback cb" "handler_ok (s_network s)"
  shows "\<exists>msg' s'. send env msg cb s = (Inr msg', s') \<and> m_body msg' = m_body msg
    \<and> getField (m_header msg') FIELD_MsgSeqNum = Inr (dec_int (c_senderSeqNum (s_cache s)))"
proof -
  obtain us s1 where s1: "send_time env s = (Inr us, s1)" "s_network s1 = s_network s" "s_cache s1 = s_cache s"
    using send_time_returns by blast
  obtain msg' s2 where s2: "populateMessage env msg (cdiv us 1000) s1 = (Inr (c_senderSeqNum (s_cache s), msg'), s2)"
    "m_body msg' = m_body msg" "getField (m_header msg') FIELD_MsgSeqNum = Inr (dec_int (c_senderSeqNum (s_cache s)))"
    using populate_fits[OF assms(1-4), of env "cdiv us 1000" s1] s1(3) by auto
  have "s_network s2 = s_network s"
    using populateMessage_frame(1)[of env msg "cdiv us 1000" s1] s1(2) s2(1) by simp
  define s3 where "s3 = s2\<lparr>s_cache := snd (cache_nextSenderSeqNum (cache_message (c_senderSeqNum (s_cache s)) (toString True msg') (s_cache s2)))\<rparr>"
  obtain s4 where "internal_send_wire env (toString True msg') cb us s3 = (Inr (), s4)"
    using internal_send_wire_spec[OF assms(5), of s3 env "toString True msg'" us] assms(6) \<open>s_network s2 = s_network s\<close>
    by (auto simp: s3_def)
  then have "send env msg cb s = (Inr msg', s4)"
    by (simp add: send_def st_bind_apply st_seq_apply s1 s2(1) Let_def on_cache_def nextSenderSeqNum_def s3_def)
  with s2(2,3) show ?thesis by blast
qed

text \<open>C8: sending numbers, caches and transmits a message as one step: a message whose header owns few
  fields is stamped with the current sequence number, kept under that number as the exact text,
  transmitted whole on the connection (if there is one) after everything sent before, and the
  counter moves on by one, 32-bit wrap-around included.\<close>

theorem send_numbers_and_keeps:
  assumes "length (fm_owned (m_header msg)) \<le> 10" "fm_owned (m_header msg) = [] \<or> 16 \<le> fm_ownedCap (m_header msg)"
    "FIELD_SendingTime \<notin> fst ` set (fm_owned (m_header msg))" "FIELD_MsgSeqNum \<notin> fst ` set (fm_owned (m_header msg))"
    "own_callback cb" "handler_ok (s_network s)"
  shows "\<exists>msg' s'. send env msg cb s = (Inr msg', s')
    \<and> getField (m_header msg') FIELD_MsgSeqNum = Inr (dec_int (c_senderSeqNum (s_cache s)))
    \<and> c_messages (s_cache s') = hmap_set (c_messages (s_cache s)) (c_senderSeqNum (s_cache s)) (toString True msg')
    \<and> c_senderSeqNum (s_cache s') = wrap32 (c_senderSeqNum (s_cache s) + 1)
    \<and> handler_sent (s_network s') = handler_sent (s_network s) @ (if isConnected (s_network s) then [toString True msg'] else [])"
  using send_returns[OF assms(1,3,4,2,5,6), of env] send_spec[OF assms(5,6)] by blast

lemma demo_network [simp]: "handler_ok (s_network demo_ready)" "isConnected (s_network demo_ready)"
    "handler_sent (s_network demo_ready) = []" "c_senderSeqNum (s_cache demo_ready) = 1"
  by (simp_all add: demo_ready_def demo_session_def Let_def handler_ok_def live_def setConnection_def new_handler_def
      isConnected_def handler_sent_def new_cache_def)

lemma send_numbers_and_keeps_witness:
  "\<exists>msg' s'. send (demo_env ''acceptor'') empty_message None demo_ready = (Inr msg', s')
    \<and> getField (m_header msg') FIELD_MsgSeqNum = Inr ''1'' \<and> handler_sent (s_network s') = [toString True msg']"
proof -
  have "dec_int 1 = ''1''" by code_simp
  then show ?thesis
    using send_numbers_and_keeps[of empty_message None demo_ready "demo_env ''acceptor''"]
    by (auto simp: empty_message_def own_callback_def)
qed

section \<open>Validation\<close>

lemma refuse_not_True [simp]: "refuse m s \<noteq> (Inr True, s')"
  by (auto simp: refuse_def st_seq_apply split: prod.splits sum.splits)

lemma validateMessage_accepted:
  "validateMessage env msg t time s = (Inr True, s') \<Longrightarrow> s' = s \<and> passes env msg time \<and> admits (s_state s) t"
  by (auto simp: validateMessage_def validateTime_def validateState_def passes_def admits_def st_bind_apply Let_def
      split: if_splits sum.splits prod.splits)

text \<open>C6: \<open>validateMessage\<close> accepts exactly the messages that carry a number, name this session's
  version and parties, were sent within the threshold, have their original time when marked as
  possible duplicates, and are of a type the state lets through; accepting changes nothing.\<close>

theorem validation_exact:
  "validateMessage env msg t time s = (Inr True, s') \<longleftrightarrow>
     s' = s \<and> passes env msg time \<and> admits (s_state s) t"
proof
  show "s' = s \<and> passes env msg time \<and> admits (s_state s) t" if "validateMessage env msg t time s = (Inr True, s')"
    using that by (rule validateMessage_accepted)
  show "validateMessage env msg t time s = (Inr True, s')" if "s' = s \<and> passes env msg time \<and> admits (s_state s) t"
    using that validateMessage_passes[of env msg time s t] by (auto simp: admits_def)
qed

text \<open>C7: a message that fails validation is inert: whatever it is answered with, it changes neither
  the expected number, nor the queue, nor what the application has seen. In particular nothing
  but a logon gets through before the logon.\<close>

theorem refused_is_inert:
  assumes "getField (m_header msg) FIELD_MsgType = Inr t" "\<not> (passes env msg time \<and> admits (s_state s) t)"
  shows "inbound (snd (processMessage env msg time s)) = inbound s"
proof -
  obtain r s1 where v: "validateMessage env msg t time s = (r, s1)" by force
  then have "inbound s1 = inbound s"
    using st_keepsD[OF inbound.keeps_validateMessage, of s "inbound s" env msg t time] by simp
  moreover have "r \<noteq> Inr True"
    using validateMessage_accepted[of env msg t time s s1] assms(2) v by blast
  then have "snd (processMessage env msg time s) = s1"
    using assms(1) v by (cases r) (auto simp: processMessage_def st_bind_apply)
  ultimately show ?thesis by simp
qed

lemma refused_is_inert_witness:
  "\<exists>m. demo_parse (demo_order 2) = Inr m
    \<and> inbound (snd (processMessage (demo_env ''acceptor'') m 0 (demo_ready\<lparr>s_state := LOGON\<rparr>))) = (2, [], [])"
proof -
  obtain m where m: "demo_parse (demo_order 2) = Inr m" "getField (m_header m) FIELD_MsgType = Inr ''D''"
    using demo_order_parsed by metis
  from refused_is_inert[OF m(2), of "demo_env ''acceptor''" 0 "demo_ready\<lparr>s_state := LOGON\<rparr>"] m(1)
  show ?thesis by (simp add: admits_def inbound_def)
qed

section \<open>Sequence numbers of incoming messages\<close>

interpretation closing: send_frame "\<lambda>s. s_state s = KILLING \<or> s_state s = LOGON"
  by unfold_locales auto

lemma logout_closes: "s_state (snd (logout env reason True s)) \<in> {KILLING, LOGON}"
proof -
  let ?P = "\<lambda>s. s_state s = KILLING \<or> s_state s = LOGON"
  have t: "st_keeps ?P (terminate reason)"
    by (simp add: st_keeps_def terminate_def logEvent_def on_network_def set_state_def st_seq_apply)
  have "st_keeps ?P (sendLogout env reason True)"
    unfolding sendLogout_def send_only_def
    by (intro keeps_intros closing.keeps_send) (auto intro: keeps_intros t)
  then have "?P (snd (sendLogout env reason True (s\<lparr>s_state := KILLING\<rparr>)))" by (rule st_keepsD) simp
  then show ?thesis by (auto simp: logout_def st_seq_apply set_state_def)
qed

text \<open>C5: the number of an incoming message decides its fate. The expected one is taken and the counter
  moves on. A lower one changes nothing and ends the connection or marks it for killing. A higher one
  is kept under its number for later, the counter stays, and nothing is delivered. A zero is ignored.\<close>

theorem sequence_gate:
  fixes env :: session_env and msg :: message and s :: session
  assumes "getIntField (m_header msg) FIELD_MsgSeqNum = Inr n"
  defines "target \<equiv> c_targetSeqNum (s_cache s)" and "s' \<equiv> snd (validateSeqNum env msg s)"
  shows "if n = target then validateSeqNum env msg s = (Inr True, s\<lparr>s_cache := snd (cache_nextTargetSeqNum (s_cache s))\<rparr>)
    else fst (validateSeqNum env msg s) \<noteq> Inr True
      \<and> (if n < target then inbound s' = inbound s \<and> s_state s' \<in> {KILLING, LOGON}
         else if n = 0 then s' = s
         else inbound s' = (target, smap_set (c_inboundQueue (s_cache s)) n (copy_message msg), s_delegated s))"
proof -
  have v: "validateSeqNum env msg s =
     (if n = target then (Inr True, s\<lparr>s_cache := snd (cache_nextTargetSeqNum (s_cache s))\<rparr>)
      else if n < target
      then refuse (logout env (''MsgSeqNum too low, expected '' @ dec_int target @ '', received '' @ dec_int n) True) s
      else if n \<noteq> 0
      then refuse (st_seq (on_cache (\<lambda>c. c\<lparr>c_inboundQueue := smap_set (c_inboundQueue c) n (copy_message msg)\<rparr>))
                          (sendResendRequest env target n)) s
      else (Inr False, s))"
    using assms(1) by (simp add: validateSeqNum_def st_bind_apply getTargetSeqNum_def nextTargetSeqNum_def on_cache_def
        st_seq_apply target_def)
  have r: "fst (refuse m s) \<noteq> Inr True" "snd (refuse m s) = snd (m s)" for m s
    by (auto simp: refuse_def st_seq_apply split: prod.splits sum.splits)
  have low: "inbound (snd (logout env x True s)) = inbound s" for x
    using st_keepsD[OF inbound.keeps_logout] by blast
  have "inbound (snd (sendResendRequest env a b s)) = inbound s" for a b s
    using st_keepsD[OF inbound.keeps_sendResendRequest] by blast
  then have high: "inbound (snd (st_seq (on_cache (\<lambda>c. c\<lparr>c_inboundQueue := smap_set (c_inboundQueue c) n (copy_message msg)\<rparr>))
      (sendResendRequest env a b) s)) = (target, smap_set (c_inboundQueue (s_cache s)) n (copy_message msg), s_delegated s)" for a b
    by (simp add: on_cache_def st_seq_apply target_def) (simp add: inbound_def)
  show ?thesis
    unfolding s'_def v by (auto simp: r low logout_closes[simplified] high simp flip: target_def)
qed

lemma sequence_gate_witness:
  "\<exists>m. demo_parse (demo_order 3) = Inr m
    \<and> inbound (snd (validateSeqNum (demo_env ''acceptor'') m demo_ready)) = (2, [(3, copy_message m)], [])"
proof -
  obtain m where m: "demo_parse (demo_order 3) = Inr m" "getIntField (m_header m) FIELD_MsgSeqNum = Inr 3"
    using demo_order_parsed by metis
  from sequence_gate[OF m(2), of demo_ready "demo_env ''acceptor''"] m(1) show ?thesis by simp
qed

section \<open>Replay\<close>

text \<open>answering a resend request never consumes a sequence number, touches the cached messages or
  the inbound side, or changes the session's state, whatever the range and the cache's contents.\<close>

theorem replay_changes_nothing:
  "outbound (snd (runMessageRecovery env beginSeqNo endSeqNo s)) = outbound s"
  using st_keepsD[OF outbound.keeps_runMessageRecovery] by blast

section \<open>Errors stay inside\<close>

text \<open>an exception while a message is handled never leaves \<open>onNetworkMessage\<close>: only undefined
  behaviour of the C++ code can end it abnormally; and the cached clock reading is cleared on
  every way out, so no later send is stamped with a stale time. A session being killed reads nothing.\<close>

theorem errors_contained:
  "case onNetworkMessage env txt s of
     (Inl e, s') \<Rightarrow> \<not> catchable e
   | (Inr _, s') \<Rightarrow> s_cachedEpochUs s' = (if s_state s = KILLING then s_cachedEpochUs s else 0)"
proof -
  have z: "s_cachedEpochUs (snd (receive env txt s)) = 0" if "fst (receive env txt s) = Inr ()"
    using that
    by (auto simp: receive_def st_bind_apply st_seq_apply Let_def set_cachedEpoch_def split: prod.splits sum.splits)
  show ?thesis
    using z by (auto simp: onNetworkMessage_def st_bind_apply catch_all_def set_cachedEpoch_def split: prod.splits sum.splits)
qed

section \<open>The loop over queued messages\<close>

text \<open>The queue is kept by everything that handles a message in sequence, resets apart.\<close>

definition queue_is :: "message smap \<Rightarrow> session \<Rightarrow> bool" where
  "queue_is q s \<longleftrightarrow> c_inboundQueue (s_cache s) = q"

definition keeps_queue :: "session_env \<Rightarrow> bool" where
  "keeps_queue env \<longleftrightarrow> (\<forall>q. app_keeps env (queue_is q)) \<and> \<not> getBool RESET_SEQ_NUM_ON_LOGON (e_settings env)"

interpretation queue_is: logout_frame "queue_is q" for q
  by unfold_locales (simp_all add: queue_is_def cache_ops)

lemma keeps_queue_mods [keeps_intros]:
  "st_keeps (queue_is q) nextTargetSeqNum" "st_keeps (queue_is q) (setTargetSeqNum n)"
  "st_keeps (queue_is q) (st_mod (\<lambda>s. s\<lparr>s_heartbeatInterval := t\<rparr>))"
  unfolding nextTargetSeqNum_def setTargetSeqNum_def on_cache_def
  by (intro keeps_intros; simp add: queue_is_def cache_ops)+

lemma keeps_queue_notify [keeps_intros]: "keeps_queue env \<Longrightarrow> st_keeps (queue_is q) (call_delegate env ev)"
  by (rule keeps_call_delegate) (simp_all add: keeps_queue_def, simp add: queue_is_def)

lemma keeps_validateSeqNum_tail:
  assumes "getIntField (m_header msg) FIELD_MsgSeqNum = Inr n" "\<And>b. st_keeps (queue_is q) (k b)"
  shows "st_post (\<lambda>s. queue_is q s \<and> c_targetSeqNum (s_cache s) = n) (st_bind (validateSeqNum env msg) k) (\<lambda>_. queue_is q) (queue_is q)"
proof (rule post_bind)
  show "st_post (\<lambda>s. queue_is q s \<and> c_targetSeqNum (s_cache s) = n) (validateSeqNum env msg) (\<lambda>_. queue_is q) (queue_is q)"
    using assms(1) by (auto simp: st_post_def validateSeqNum_at queue_is_def cache_ops)
  show "st_post (queue_is q) (k b) (\<lambda>_. queue_is q) (queue_is q)" for b by (rule st_post_keeps[OF assms(2)])
qed

lemma post_at_keeps: "st_keeps (queue_is q) m \<Longrightarrow> st_post (\<lambda>s. queue_is q s \<and> c s) m (\<lambda>_. queue_is q) (queue_is q)"
  by (rule st_post_keeps) auto

lemma keeps_case_sum [keeps_intros]:
  "(\<And>a. st_keeps P (f a)) \<Longrightarrow> (\<And>b. st_keeps P (g b)) \<Longrightarrow> st_keeps P (case x of Inl a \<Rightarrow> f a | Inr b \<Rightarrow> g b)"
  by (cases x) simp_all

lemma keeps_queue_finish [keeps_intros]:
  "keeps_queue env \<Longrightarrow> st_keeps (queue_is q) (finish_logon env msg n t r b)"
  unfolding finish_logon_def by (intro keeps_intros)

lemma keeps_queue_handleLogon:
  assumes "keeps_queue env"
  shows "st_keeps (queue_is q) (handleLogon env msg)"
proof -
  have "\<not> getBool RESET_SEQ_NUM_ON_LOGON (e_settings env)" using assms by (simp add: keeps_queue_def)
  then show ?thesis
    unfolding handleLogon_def by (simp only: not_False_eq_True if_True) (intro keeps_intros assms)
qed

lemma keeps_queue_processMessage:
  assumes "keeps_queue env" "getIntField (m_header msg) FIELD_MsgSeqNum = Inr n"
  shows "st_post (\<lambda>s. queue_is q s \<and> c_targetSeqNum (s_cache s) = n) (processMessage env msg time) (\<lambda>_. queue_is q) (queue_is q)"
proof -
  let ?P = "\<lambda>s. queue_is q s \<and> c_targetSeqNum (s_cache s) = n"
  have v: "st_post ?P (validateMessage env msg t time) (\<lambda>b s. if b then ?P s else queue_is q s) (queue_is q)" for t
  proof -
    have "st_keeps (queue_is q) (validateMessage env msg t time)" by (intro keeps_intros)
    then show ?thesis
      unfolding st_post_def st_keeps_def by (auto dest!: validateMessage_accepted split: prod.splits sum.splits)
  qed
  have gap: "st_post ?P (st_bind (if g then validateSeqNum env msg else st_ret True) (\<lambda>b. when_do b (setTargetSeqNum k)))
      (\<lambda>_. queue_is q) (queue_is q)" for g k
  proof (cases g)
    case True
    then show ?thesis by (simp, intro keeps_validateSeqNum_tail[OF assms(2)] keeps_intros)
  next
    case False
    then show ?thesis by (simp, intro post_at_keeps keeps_intros)
  qed
  have reset: "st_post ?P (handleSequenceReset env msg) (\<lambda>_. queue_is q) (queue_is q)"
    unfolding handleSequenceReset_def Let_def getTargetSeqNum_def
    by (rule post_bind[OF post_lift], simp, rule post_bind[OF post_lift], simp, rule post_if,
        rule post_at_keeps[THEN post_pre], intro keeps_intros, simp, rule post_bind[OF post_get], rule post_if,
        rule post_at_keeps[THEN post_pre], intro keeps_intros, simp, rule post_pre[OF gap], simp)
  have taken: "st_post ?P (if msgType = MSG_SEQUENCE_RESET then handleSequenceReset env msg
     else if msgType = MSG_LOGON then handleLogon env msg
     else if msgType = MSG_RESEND_REQUEST then handleResendRequest env msg
     else
     st_bind (validateSeqNum env msg) (\<lambda>in_sequence.
     if \<not> in_sequence then st_ret ()
     else if msgType = MSG_LOGOUT then processLogout env
     else if msgType = MSG_HEARTBEAT then processHeartbeat env msg
     else if msgType = MSG_TEST_REQUEST
     then st_bind (st_lift (getField (m_body msg) FIELD_TestReqID)) (sendHeartbeat env)
     else if msgType = MSG_REJECT then st_ret ()
     else call_delegate env (OnMessage msg))) (\<lambda>_. queue_is q) (queue_is q)" for msgType
  proof (rule post_if, rule reset, rule post_if, rule post_at_keeps, rule keeps_queue_handleLogon[OF assms(1)],
      rule post_if, rule post_at_keeps)
    show "st_keeps (queue_is q) (handleResendRequest env msg)"
      unfolding handleResendRequest_def by (intro keeps_intros)
    show "st_post ?P (st_bind (validateSeqNum env msg) (\<lambda>in_sequence.
     if \<not> in_sequence then st_ret ()
     else if msgType = MSG_LOGOUT then processLogout env
     else if msgType = MSG_HEARTBEAT then processHeartbeat env msg
     else if msgType = MSG_TEST_REQUEST
     then st_bind (st_lift (getField (m_body msg) FIELD_TestReqID)) (sendHeartbeat env)
     else if msgType = MSG_REJECT then st_ret ()
     else call_delegate env (OnMessage msg))) (\<lambda>_. queue_is q) (queue_is q)"
      by (rule keeps_validateSeqNum_tail[OF assms(2)])
        (simp only: processLogout_def processHeartbeat_def, intro keeps_intros assms(1))
  qed
  show ?thesis
    unfolding processMessage_def
  proof (rule post_bind[OF post_lift], simp, rule post_bind)
    fix msgType
    let ?Pt = "\<lambda>s. ?P s \<and> getField (m_header msg) FIELD_MsgType = Inr msgType"
    show "st_post ?Pt (validateMessage env msg msgType time) (\<lambda>b s. if b then ?P s else queue_is q s) (queue_is q)"
      by (rule post_pre[OF v]) simp
    show "st_post (\<lambda>s. if b then ?P s else queue_is q s)
       (if \<not> b then st_ret ()
        else if msgType = MSG_SEQUENCE_RESET then handleSequenceReset env msg
        else if msgType = MSG_LOGON then handleLogon env msg
        else if msgType = MSG_RESEND_REQUEST then handleResendRequest env msg
        else
        st_bind (validateSeqNum env msg) (\<lambda>in_sequence.
        if \<not> in_sequence then st_ret ()
        else if msgType = MSG_LOGOUT then processLogout env
        else if msgType = MSG_HEARTBEAT then processHeartbeat env msg
        else if msgType = MSG_TEST_REQUEST
        then st_bind (st_lift (getField (m_body msg) FIELD_TestReqID)) (sendHeartbeat env)
        else if msgType = MSG_REJECT then st_ret ()
        else call_delegate env (OnMessage msg))) (\<lambda>_. queue_is q) (queue_is q)" for b
      using taken[of msgType] by (cases b) (simp_all add: post_ret)
  qed
qed

definition queue_waits :: "session \<Rightarrow> bool" where
  "queue_waits s \<longleftrightarrow> (case c_inboundQueue (s_cache s) of [] \<Rightarrow> True | (k, _) # _ \<Rightarrow> c_targetSeqNum (s_cache s) \<noteq> k)"

definition numbered :: "message smap \<Rightarrow> bool" where
  "numbered q \<longleftrightarrow> (\<forall>(k, m) \<in> set q. getIntField (m_header m) FIELD_MsgSeqNum = Inr k)"

text \<open>C21: the loop over queued messages ends, and does all its work within the model's bound: entered
  with the number of queued messages, it stops with the queue empty or waiting for a number that has
  not come, and it only ever takes messages from the front.\<close>

theorem drain_completes:
  assumes "keeps_queue env" "numbered (c_inboundQueue (s_cache s))"
    "drain env time (length (c_inboundQueue (s_cache s))) s = (Inr (), s')"
  shows "queue_waits s' \<and> (\<exists>k. c_inboundQueue (s_cache s') = drop k (c_inboundQueue (s_cache s)))"
  using assms(2,3)
proof (induction "c_inboundQueue (s_cache s)" arbitrary: s)
  case Nil
  then show ?case by (auto simp: queue_waits_def)
next
  case (Cons x q)
  obtain k m where x: "x = (k, m)" by force
  have queue: "c_inboundQueue (s_cache s) = (k, m) # q" using Cons.hyps(2) x by simp
  show ?case
  proof (cases "c_targetSeqNum (s_cache s) = k")
    case False
    with Cons.prems(2) queue have "s' = s" by (simp add: st_bind_apply)
    with False queue show ?thesis by (auto simp: queue_waits_def intro: exI[of _ 0])
  next
    case True
    have num: "getIntField (m_header m) FIELD_MsgSeqNum = Inr k" using Cons.prems(1) queue by (auto simp: numbered_def)
    have d: "drain env time (Suc (length q)) s =
        st_seq (processMessage env m time) (st_seq erase_first (drain env time (length q))) s"
      using True queue by (simp add: st_bind_apply)
    then obtain s1 where s1: "processMessage env m time s = (Inr (), s1)"
        "st_seq erase_first (drain env time (length q)) s1 = (Inr (), s')"
      using Cons.prems(2) queue by (auto simp: st_seq_apply split: prod.splits sum.splits)
    have "c_inboundQueue (s_cache s1) = (k, m) # q"
      using keeps_queue_processMessage[OF assms(1) num, of "(k, m) # q" time] s1(1) True queue
      unfolding st_post_def queue_is_def by fastforce
    then have s2: "drain env time (length q) (s1\<lparr>s_cache := (s_cache s1)\<lparr>c_inboundQueue := q\<rparr>\<rparr>) = (Inr (), s')"
      using s1(2) by (simp add: erase_first_def st_seq_apply)
    have "numbered q" using Cons.prems(1) queue by (simp add: numbered_def)
    with Cons.hyps(1)[of "s1\<lparr>s_cache := (s_cache s1)\<lparr>c_inboundQueue := q\<rparr>\<rparr>"] s2
    obtain j where "queue_waits s'" "c_inboundQueue (s_cache s') = drop j q" by auto
    then show ?thesis unfolding queue by (auto intro: exI[of _ "Suc j"])
  qed
qed

lemma drain_completes_witness:
  "\<exists>m s'. demo_parse (demo_order 2) = Inr m
    \<and> drain (demo_env ''acceptor'') 0 1
        (demo_ready\<lparr>s_cache := (s_cache demo_ready)\<lparr>c_inboundQueue := [(2, m)]\<rparr>\<rparr>) = (Inr (), s')
    \<and> c_inboundQueue (s_cache s') = [] \<and> queue_waits s'"
proof -
  obtain m where m: "demo_parse (demo_order 2) = Inr m" "passes (demo_env ''acceptor'') m 0"
    "getField (m_header m) FIELD_MsgType = Inr ''D''" "getIntField (m_header m) FIELD_MsgSeqNum = Inr 2"
    using demo_order_parsed by metis
  let ?s = "demo_ready\<lparr>s_cache := (s_cache demo_ready)\<lparr>c_inboundQueue := [(2, m)]\<rparr>\<rparr>"
  have t: "app_type ''D''" by (simp add: app_type_def SESSION_MSGS_def)
  have k: "keeps_queue (demo_env ''acceptor'')"
    using demo_orderly(1)[of "''acceptor''"] by (simp add: keeps_queue_def orderly_def app_keeps_def keeps_intros)
  have p: "processMessage (demo_env ''acceptor'') m 0 ?s = (Inr (), ?s\<lparr>s_cache := snd (cache_nextTargetSeqNum (s_cache ?s)),
      s_delegated := s_delegated ?s @ [OnMessage m]\<rparr>)"
    using m t by (intro in_sequence_delivered) simp_all
  obtain s' where d: "drain (demo_env ''acceptor'') 0 1 ?s = (Inr (), s')" "c_inboundQueue (s_cache s') = []"
    by (simp add: st_bind_apply st_seq_apply p[simplified] erase_first_def cache_ops)
  with drain_completes[OF k, of ?s 0 s'] m show ?thesis by (auto simp: numbered_def)
qed

section \<open>Timers\<close>

definition type_known :: "session_env \<Rightarrow> bool" where
  "type_known env \<longleftrightarrow> (case getSessionType (e_settings env) of Inr _ \<Rightarrow> True | Inl _ \<Rightarrow> False)"

text \<open>A test request that stays unanswered for the threshold ends the connection at the next
  update: the handler hangs up and the session waits for a logon again; nothing is sent.\<close>

theorem silent_peer_disconnected:
  assumes "type_known env" "isConnected (s_network s)" "s_state s = TEST_REQUEST"
    "int (e_clock env (s_tick s) div 1000) - s_lastSentTestRequest s \<ge> test_request_timeout env s"
  shows "\<exists>s'. internal_update env s = (Inr (), s') \<and> \<not> isConnected (s_network s') \<and> s_state s' = LOGON
    \<and> handler_sent (s_network s') = handler_sent (s_network s) \<and> s_cache s' = s_cache s"
proof -
  obtain ty where "getSessionType (e_settings env) = Inr ty" using assms(1) by (auto simp: type_known_def split: sum.splits)
  with assms(2-4) show ?thesis
    by (simp add: internal_update_def getEpochMillis_def ask_def st_bind_apply st_seq_apply logon_due_def update_timeouts_def
        update_heartbeats_def when_do_def terminate_def logEvent_def on_network_def set_state_def test_request_timeout_def
        handler.conn_hangup handler.sent_hangup)
qed

lemma silent_peer_disconnected_witness:
  "\<exists>s'. internal_update (demo_env ''acceptor'') (demo_ready\<lparr>s_state := TEST_REQUEST, s_lastSentTestRequest := - 20000,
      s_heartbeatInterval := 10000\<rparr>) = (Inr (), s') \<and> s_state s' = LOGON"
proof -
  let ?s = "demo_ready\<lparr>s_state := TEST_REQUEST, s_lastSentTestRequest := - 20000, s_heartbeatInterval := 10000\<rparr>"
  have "type_known (demo_env ''acceptor'')" "getDouble TEST_REQUEST_THRESHOLD (demo_settings ''acceptor'') = (2, 0)" by code_simp+
  then show ?thesis
    using silent_peer_disconnected[of "demo_env ''acceptor''" ?s]
    by (auto simp: test_request_timeout_def scale_decimal_def demo_env_def)
qed

text \<open>What has been sent stays sent.\<close>

interpretation grows: send_frame "\<lambda>s. handler_ok (s_network s) \<and> (\<exists>ys. handler_sent (s_network s) = xs @ ys)" for xs
  by unfold_locales (auto simp: handler.ok_transmit handler.sent_transmit)

lemma create_header:
  assumes "create d t = Inr m0"
  shows "fst ` set (fm_owned (m_header m0)) = {FIELD_MsgType}" "length (fm_owned (m_header m0)) = 1"
    "16 \<le> fm_ownedCap (m_header m0)"
proof -
  obtain h where h: "setField FIELD_MsgType t True (setSpec (Some (d_headerSpec d)) empty_fm) = Inr h" "m_header m0 = h"
    using assms by (auto simp: create_def split: option.splits elim!: sbind_InrE)
  with setField_fits[of "setSpec (Some (d_headerSpec d)) empty_fm" FIELD_MsgType t True]
  show "fst ` set (fm_owned (m_header m0)) = {FIELD_MsgType}" "length (fm_owned (m_header m0)) = 1"
    "16 \<le> fm_ownedCap (m_header m0)" by auto
qed

lemma send_created:
  assumes "create d t = Inr m0" "own_callback cb" "handler_ok (s_network s)" "m_header msg = m_header m0"
  shows "\<exists>msg' s'. send env msg cb s = (Inr msg', s') \<and> m_body msg' = m_body msg
    \<and> getField (m_header msg') FIELD_MsgSeqNum = Inr (dec_int (c_senderSeqNum (s_cache s)))"
  using create_header[OF assms(1)] assms(2-4) by (intro send_returns) simp_all

lemma update_heartbeats_due:
  assumes "s_state s = READY" "t - s_lastSentHeartbeat s \<ge> s_heartbeatInterval s"
  shows "update_heartbeats env t s = st_seq (sendHeartbeat env [])
     (st_bind (st_get (\<lambda>s. s_state s \<noteq> TEST_REQUEST \<and> t - s_lastRecvHeartbeat s \<ge> test_request_timeout env s))
      (\<lambda>due. when_do due (st_seq (sendTestRequest env)
         (st_seq (st_mod (\<lambda>s. s\<lparr>s_lastSentTestRequest := t\<rparr>)) (set_state TEST_REQUEST))))) s"
proof -
  have a: "st_bind (st_get (\<lambda>s. t - s_lastSentHeartbeat s \<ge> s_heartbeatInterval s)) (\<lambda>due. when_do due (sendHeartbeat env [])) s
      = sendHeartbeat env [] s"
    using assms(2) by (simp add: st_bind_apply when_do_def)
  have "update_heartbeats env t s = when_do True (st_seq
      (st_bind (st_get (\<lambda>s. t - s_lastSentHeartbeat s \<ge> s_heartbeatInterval s)) (\<lambda>due. when_do due (sendHeartbeat env [])))
      (st_bind (st_get (\<lambda>s. s_state s \<noteq> TEST_REQUEST \<and> t - s_lastRecvHeartbeat s \<ge> test_request_timeout env s))
        (\<lambda>due. when_do due (st_seq (sendTestRequest env)
         (st_seq (st_mod (\<lambda>s. s\<lparr>s_lastSentTestRequest := t\<rparr>)) (set_state TEST_REQUEST)))))) s"
    unfolding update_heartbeats_def st_bind_apply[of "st_get s_state"] st_simps prod.case sum.case
    by (simp only: assms(1) session_state.distinct not_False_eq_True simp_thms)
  then show ?thesis by (simp only: when_do_def[of True] if_True st_seq_apply a)
qed

text \<open>a session that is past logon does not fall silent: when nothing has been sent for the heartbeat
  interval, the next update transmits a Heartbeat, before anything else it sends.\<close>

theorem heartbeat_when_idle:
  assumes "type_known env" "isConnected (s_network s)" "handler_ok (s_network s)" "s_state s = READY"
    "int (e_clock env (s_tick s) div 1000) - s_lastSentHeartbeat s \<ge> s_heartbeatInterval s"
    "create (e_dictionary env) MSG_HEARTBEAT = Inr m0"
  shows "\<exists>msg rest. handler_sent (s_network (snd (internal_update env s)))
      = handler_sent (s_network s) @ toString True msg # rest
    \<and> m_body msg = m_body m0 \<and> getField (m_header msg) FIELD_MsgSeqNum = Inr (dec_int (c_senderSeqNum (s_cache s)))"
proof -
  obtain ty where ty: "getSessionType (e_settings env) = Inr ty" using assms(1) by (auto simp: type_known_def split: sum.splits)
  define s1 where "s1 = s\<lparr>s_tick := Suc (s_tick s)\<rparr>"
  define t where "t = int (e_clock env (s_tick s) div 1000)"
  obtain msg s2 where s2: "send env m0 None s1 = (Inr msg, s2)" "m_body msg = m_body m0"
    "getField (m_header msg) FIELD_MsgSeqNum = Inr (dec_int (c_senderSeqNum (s_cache s1)))"
    using send_created[OF assms(6), of None s1 m0 env] assms(3) by (auto simp: own_callback_def s1_def)
  have sent: "handler_sent (s_network s2) = handler_sent (s_network s) @ [toString True msg]"
    using send_spec[OF _ _ s2(1)] assms(2,3) by (simp add: own_callback_def s1_def)
  have ok: "handler_ok (s_network s2)"
    using st_keepsD[OF connected.keeps_send[of None env m0], of s1] assms(3) s2(1) by (simp add: s1_def keeps_intros)
  let ?tail = "st_bind (st_get (\<lambda>s. s_state s \<noteq> TEST_REQUEST \<and> t - s_lastRecvHeartbeat s \<ge> test_request_timeout env s))
      (\<lambda>due. when_do due (st_seq (sendTestRequest env)
         (st_seq (st_mod (\<lambda>s. s\<lparr>s_lastSentTestRequest := t\<rparr>)) (set_state TEST_REQUEST))))"
  have timeouts: "update_timeouts env t s1 = (Inr (), s1)"
    using assms(4) by (simp add: update_timeouts_def st_bind_apply st_seq_apply when_do_def s1_def)
  have hb: "sendHeartbeat env [] s1 = (Inr (), s2)"
    using s2(1) by (simp add: sendHeartbeat_def createMessage_def assms(6) send_only_def st_bind_apply)
  have "internal_update env s = st_seq (update_timeouts env t) (update_heartbeats env t) s1"
    using ty assms(2,4)
    by (simp add: internal_update_def getEpochMillis_def ask_def st_bind_apply logon_due_def t_def s1_def)
  also have "\<dots> = update_heartbeats env t s1" by (simp add: st_seq_apply timeouts)
  also have "\<dots> = st_seq (sendHeartbeat env []) ?tail s1"
    using assms(4,5) by (intro update_heartbeats_due) (simp_all add: s1_def t_def)
  finally have "internal_update env s = ?tail s2" by (simp add: st_seq_apply hb)
  have g: "st_keeps (\<lambda>s. handler_ok (s_network s) \<and> (\<exists>ys. handler_sent (s_network s) = xs @ ys)) ?tail" for xs
    unfolding set_state_def by (intro keeps_intros) simp_all
  have "\<exists>ys. handler_sent (s_network (snd (internal_update env s))) = handler_sent (s_network s2) @ ys"
    unfolding \<open>internal_update env s = ?tail s2\<close> using st_keepsD[OF g, of s2 "handler_sent (s_network s2)"] ok by simp
  with s2(2,3) sent show ?thesis by (auto simp: s1_def)
qed

lemma heartbeat_when_idle_witness:
  "\<exists>w. length (handler_sent (s_network (snd (internal_update (demo_env ''acceptor'')
      (demo_ready\<lparr>s_lastSentHeartbeat := - 20000, s_heartbeatInterval := 10000\<rparr>))))) = Suc w"
proof -
  let ?s = "demo_ready\<lparr>s_lastSentHeartbeat := - 20000, s_heartbeatInterval := 10000\<rparr>"
  have t: "type_known (demo_env ''acceptor'')" by code_simp
  have "\<exists>m0. create demo_dictionary MSG_HEARTBEAT = Inr m0"
  proof (cases "create demo_dictionary MSG_HEARTBEAT")
    case (Inl e)
    moreover have "\<not> isl (create demo_dictionary MSG_HEARTBEAT)" by code_simp
    ultimately show ?thesis by simp
  qed simp
  then obtain m0 where "create (e_dictionary (demo_env ''acceptor'')) MSG_HEARTBEAT = Inr m0" by (auto simp: demo_env_def)
  from heartbeat_when_idle[OF t _ _ _ _ this, of ?s] show ?thesis by auto
qed

section \<open>Resets\<close>

text \<open>a session that resets on logon numbers its logon 0, and the counterparty, which expects at
  least 1, refuses a logon numbered 0 as too low before it looks at ResetSeqNumFlag: nothing is
  reset on its side, and the connection is ended or marked for killing.\<close>

theorem reset_logon_refused:
  assumes "getIntField (m_header msg) FIELD_MsgSeqNum = Inr 0" "1 \<le> c_targetSeqNum (s_cache s)"
    "\<not> tryGetBool (m_header msg) FIELD_PossDupFlag"
    "tryGetBool (m_body msg) FIELD_TestMessageIndicator = getBool IS_TEST (e_settings env)"
  shows "inbound (snd (handleLogon env msg s)) = inbound s \<and> s_state (snd (handleLogon env msg s)) \<in> {KILLING, LOGON}
    \<and> c_senderSeqNum (cache_reset c) = 0"
proof -
  have "handleLogon env msg s = logout env (''MsgSeqNum(34) too low, expected '' @ dec_int (c_targetSeqNum (s_cache s))) True s"
    using assms by (simp add: handleLogon_def st_bind_apply getTargetSeqNum_def)
  then show ?thesis
    using st_keepsD[OF inbound.keeps_logout, of s "inbound s"] logout_closes by (simp add: cache_reset_def)
qed

lemma reset_logon_refused_witness:
  "inbound (snd (handleLogon (demo_env ''acceptor'') (empty_message\<lparr>m_header := setFieldView 34 ''0'' True empty_fm\<rparr>) demo_ready))
    = (2, [], [])"
proof -
  let ?m = "empty_message\<lparr>m_header := setFieldView 34 ''0'' True empty_fm\<rparr>"
  have h: "getIntField (m_header ?m) FIELD_MsgSeqNum = Inr 0" "\<not> tryGetBool (m_header ?m) FIELD_PossDupFlag"
    "tryGetBool (m_body ?m) FIELD_TestMessageIndicator = getBool IS_TEST (demo_settings ''acceptor'')" by code_simp+
  then show ?thesis
    using reset_logon_refused[of ?m demo_ready "demo_env ''acceptor''"] by (simp add: demo_env_def inbound_def)
qed

end
