(* ===== verification/ReadBuffer.thy ===== *)
theory ReadBuffer
  imports MessageFacts
begin

text \<open>
  \<open>ReadBuffer\<close> of \<^verbatim>\<open>src/Network.h\<close> and \<^verbatim>\<open>src/Network.cpp\<close>: cutting the byte stream of a connection
  into messages. What the socket returns to the successive reads of one call is a list of
  results; the call ends at the first that is not data. The end of the list is a socket with
  nothing more to read.
\<close>

section \<open>Cutting one message\<close>

definition BEGIN_STRING_TAG :: string where "BEGIN_STRING_TAG = dec_int 8 @ [EQCH]"
definition BODY_LENGTH_PATTERN :: string where "BODY_LENGTH_PATTERN = buildTagPattern 9"
definition CHECKSUM_PATTERN :: string where "CHECKSUM_PATTERN = buildTagPattern 10"

text \<open>One pass of the inner loop from offset \<open>consumed\<close>: wait for more data, skip a bad message, or a
  completed message, each with the new offset.\<close>

datatype scan = Wait nat | Skip nat | Complete nat nat

definition scan_message :: "string \<Rightarrow> nat \<Rightarrow> scan" where
  "scan_message buffer consumed =
     (case str_find buffer BEGIN_STRING_TAG consumed of
        None \<Rightarrow> Wait consumed
      | Some start \<Rightarrow>
          (case getTagValue buffer BODY_LENGTH_PATTERN start of
             (val, None) \<Rightarrow> Wait start
           | (val, Some ptr) \<Rightarrow>
               if val = [] then Wait start
               else case from_chars_int val of
                 Inl _ \<Rightarrow> Skip (Suc ptr)
               | Inr bodyLength \<Rightarrow>
                   if bodyLength < 0 then Skip (Suc ptr)
                   else case getTagValue buffer CHECKSUM_PATTERN (ptr + nat bodyLength) of
                     (ck, None) \<Rightarrow> Wait start
                   | (ck, Some e) \<Rightarrow> if ck = [] then Wait start else Complete start (Suc e)))"

lemma str_find_bounds: "str_find s pat pos = Some i \<Longrightarrow> pos \<le> i \<and> i + length pat \<le> length s"
  using str_find_SomeD[of s pat pos i] by simp

lemma getTagValue_end:
  "getTagValue msg pattern idx = (v, Some e) \<Longrightarrow> idx \<le> e \<and> e < length msg"
  by (auto simp: getTagValue_def Let_def split: option.splits dest!: str_find_bounds)

lemma scan_progress:
  "scan_message buffer c = Skip c' \<Longrightarrow> c < c' \<and> c' \<le> length buffer"
  "scan_message buffer c = Complete a c' \<Longrightarrow> c < c' \<and> a \<le> c' \<and> c' \<le> length buffer"
  by (auto simp: scan_message_def split: option.splits prod.splits sum.splits if_splits
      dest!: getTagValue_end str_find_bounds)

text \<open>The inner loop: the messages found, the buffer and the offset consumed at its end. A message
  that is the whole buffer is moved out of it.\<close>

function cut_messages :: "string \<Rightarrow> nat \<Rightarrow> string list \<Rightarrow> string list \<times> string \<times> nat" where
  "cut_messages buffer consumed found =
     (case scan_message buffer consumed of
        Wait c \<Rightarrow> (found, buffer, c)
      | Skip c \<Rightarrow> cut_messages buffer c found
      | Complete start msgEnd \<Rightarrow>
          if start = 0 \<and> msgEnd = length buffer then (found @ [buffer], [], 0)
          else cut_messages buffer msgEnd (found @ [take (msgEnd - start) (drop start buffer)]))"
  by pat_completeness auto
termination
  by (relation "measure (\<lambda>(buffer, c, _). length buffer - c)") (auto dest!: scan_progress)

declare cut_messages.simps [simp del]

section \<open>Reading a connection\<close>

datatype read_result = Bytes string | EndOfStream | WouldBlock | ReadError

datatype read_error = SocketClosedError

text \<open>The outer loop, on the connection's buffer: the result of the call and the buffer it leaves.\<close>

fun read_loop :: "read_result list \<Rightarrow> string \<Rightarrow> string list \<Rightarrow> (read_error + string list) \<times> string" where
  "read_loop [] buffer found = (Inr found, buffer)"
| "read_loop (WouldBlock # rs) buffer found = (Inr found, buffer)"
| "read_loop (ReadError # rs) buffer found = (Inr found, [])"
| "read_loop (EndOfStream # rs) buffer found = (Inl SocketClosedError, buffer)"
| "read_loop (Bytes chunk # rs) buffer found =
     (if chunk = [] then (Inl SocketClosedError, buffer)
      else case cut_messages (buffer @ chunk) 0 found of
        (found', buffer', consumed) \<Rightarrow> read_loop rs (drop consumed buffer') found')"

type_synonym read_buffer = "(int, string) hmap"

definition rb_read :: "int \<Rightarrow> read_result list \<Rightarrow> read_buffer \<Rightarrow> (read_error + string list) \<times> read_buffer" where
  "rb_read fd results rb =
     (let rb1 = hmap_emplace rb fd [];
          (r, buffer) = read_loop results (case map_of rb1 fd of None \<Rightarrow> [] | Some b \<Rightarrow> b) []
      in (r, hmap_set rb1 fd buffer))"

definition rb_clear :: "int \<Rightarrow> read_buffer \<Rightarrow> read_buffer" where
  "rb_clear fd rb = hmap_erase rb fd"

definition rb_clear_all :: "read_buffer \<Rightarrow> read_buffer" where
  "rb_clear_all rb = []"

section \<open>Messages as they are framed on the wire\<close>

definition framed :: "string \<Rightarrow> bool" where
  "framed w \<longleftrightarrow> (\<exists>bs body ck. SOH \<notin> set bs \<and> SOH \<notin> set ck \<and> ck \<noteq> [] \<and> is_int32 (int (length body))
     \<and> (body = [] \<or> last body = SOH)
     \<and> w = ''8='' @ bs @ SOH # ''9='' @ dec_nat (length body) @ SOH # body @ ''10='' @ ck @ [SOH])"

lemma patterns:
  "BEGIN_STRING_TAG = ''8=''" "BODY_LENGTH_PATTERN = SOH # ''9=''" "CHECKSUM_PATTERN = SOH # ''10=''"
  by code_simp+

text \<open>Lookups do not depend on what stands before the offset, and a match stays the first one when
  more text arrives.\<close>

definition shift_scan :: "nat \<Rightarrow> scan \<Rightarrow> scan" where
  "shift_scan n r = (case r of Wait c \<Rightarrow> Wait (n + c) | Skip c \<Rightarrow> Skip (n + c)
    | Complete a e \<Rightarrow> Complete (n + a) (n + e))"

lemma str_find_shift: "str_find (pre @ s) pat (length pre + k) = map_option ((+) (length pre)) (str_find s pat k)"
  by (simp add: str_find_def option.map_comp comp_def add.assoc)

lemma getTagValue_shift:
  "getTagValue (pre @ s) pat (length pre + k) = map_prod id (map_option ((+) (length pre))) (getTagValue s pat k)"
  by (auto simp: getTagValue_def Let_def str_find_shift add.assoc split: option.splits)

lemma scan_shift: "scan_message (pre @ s) (length pre + k) = shift_scan (length pre) (scan_message s k)"
  by (auto simp: scan_message_def str_find_shift getTagValue_shift shift_scan_def add.assoc
      split: option.splits prod.splits sum.splits)

lemma find_sub_more: "find_sub pat p = Some i \<Longrightarrow> find_sub pat (p @ q) = Some i"
proof (induction p arbitrary: i)
  case Nil
  then show ?case by (cases q) (auto split: if_splits)
next
  case (Cons x xs)
  from find_sub_SomeD[OF Cons.prems] have "length pat \<le> length (x # xs)" by simp
  then have "take (length pat) ((x # xs) @ q) = take (length pat) (x # xs)"
    by (simp only: take_append) simp
  with Cons show ?case by (auto split: if_splits)
qed

lemma str_find_more: "str_find p pat k = Some i \<Longrightarrow> str_find (p @ q) pat k = Some i"
  by (auto simp: str_find_def find_sub_more split: if_splits)

lemma getTagValue_Some_iff:
  "getTagValue msg pat k = (v, Some e) \<longleftrightarrow> (\<exists>b. str_find msg pat k = Some b
     \<and> str_find msg [SOH] (b + length pat) = Some e
     \<and> v = take (e - (b + length pat)) (drop (b + length pat) msg))"
  by (auto simp: getTagValue_def Let_def split: option.splits)

lemma getTagValue_more:
  assumes "getTagValue p pat k = (v, Some e)"
  shows "getTagValue (p @ q) pat k = (v, Some e)"
proof -
  from assms obtain b where b: "str_find p pat k = Some b" "str_find p [SOH] (b + length pat) = Some e"
    and v: "v = take (e - (b + length pat)) (drop (b + length pat) p)"
    by (auto simp: getTagValue_Some_iff)
  from str_find_bounds[OF b(2)] v have "v = take (e - (b + length pat)) (drop (b + length pat) (p @ q))"
    by simp
  with b[THEN str_find_more] show ?thesis by (auto simp: getTagValue_Some_iff)
qed

lemma getTagValue_none: "getTagValue p pat k = (v, None) \<Longrightarrow> v = []"
  by (auto simp: getTagValue_def Let_def split: option.splits)

lemma scan_more:
  assumes "scan_message p k = r" "\<And>c. r \<noteq> Wait c"
  shows "scan_message (p @ q) k = r"
proof -
  from assms obtain a v b where s: "str_find p BEGIN_STRING_TAG k = Some a"
    "getTagValue p BODY_LENGTH_PATTERN a = (v, Some b)" "v \<noteq> []"
    by (auto simp: scan_message_def split: option.splits prod.splits if_splits)
  note more = str_find_more[OF s(1), of q] getTagValue_more[OF s(2), of q]
  show ?thesis
  proof (cases "from_chars_int v")
    case (Inl x)
    with assms s more show ?thesis by (simp add: scan_message_def)
  next
    case (Inr L)
    show ?thesis
    proof (cases "L < 0")
      case True
      with Inr assms s more show ?thesis by (simp add: scan_message_def)
    next
      case False
      with Inr s assms obtain ck e where g: "getTagValue p CHECKSUM_PATTERN (b + nat L) = (ck, Some e)"
        by (cases "getTagValue p CHECKSUM_PATTERN (b + nat L)")
          (auto simp: scan_message_def split: option.splits)
      with getTagValue_more[OF g, of q] False Inr assms s more show ?thesis by (simp add: scan_message_def)
    qed
  qed
qed

text \<open>Text before the first begin tag is skipped.\<close>

lemma scan_junk:
  assumes "str_find s BEGIN_STRING_TAG 0 = Some a"
  shows "scan_message s 0 = shift_scan a (scan_message (drop a s) 0)" "str_find (drop a s) BEGIN_STRING_TAG 0 = Some 0"
proof -
  from str_find_bounds[OF assms] have a: "a \<le> length s" by simp
  from str_find_SomeD[OF assms] have "take (length BEGIN_STRING_TAG) (drop a s) = BEGIN_STRING_TAG" by simp
  then show f: "str_find (drop a s) BEGIN_STRING_TAG 0 = Some 0"
    by (metis append_take_drop_id find_sub_prefix str_find_def option.simps(9) drop0 add_0 not_less_zero)
  have "scan_message s 0 = scan_message s a"
    using assms f a str_find_shift[of "take a s" "drop a s" BEGIN_STRING_TAG 0] by (simp add: scan_message_def)
  also have "\<dots> = shift_scan a (scan_message (drop a s) 0)"
    using scan_shift[of "take a s" "drop a s" 0] a by simp
  finally show "scan_message s 0 = shift_scan a (scan_message (drop a s) 0)" .
qed

section \<open>What a stream of bytes stands for\<close>

text \<open>The messages in a text and the rest that waits for more, independent of the offsets.\<close>

function frames :: "string \<Rightarrow> string list \<times> string" where
  "frames s = (case scan_message s 0 of
      Wait c \<Rightarrow> ([], drop c s)
    | Skip c \<Rightarrow> frames (drop c s)
    | Complete a e \<Rightarrow> (case frames (drop e s) of (ms, r) \<Rightarrow> (take (e - a) (drop a s) # ms, r)))"
  by pat_completeness auto
termination by (relation "measure length") (auto dest!: scan_progress)

declare frames.simps [simp del]

lemma cut_frames:
  assumes "c \<le> length buf"
  shows "\<exists>buf' c'. cut_messages buf c found = (found @ fst (frames (drop c buf)), buf', c')
     \<and> drop c' buf' = snd (frames (drop c buf))"
  using assms
proof (induction buf c found rule: cut_messages.induct)
  case (1 buf c found)
  have sh: "scan_message buf c = shift_scan c (scan_message (drop c buf) 0)"
    using scan_shift[of "take c buf" "drop c buf" 0] "1.prems" by simp
  show ?case
  proof (cases "scan_message (drop c buf) 0")
    case (Wait k)
    with sh show ?thesis
      by (simp add: cut_messages.simps[of buf c] frames.simps[of "drop c buf"] shift_scan_def add.commute)
  next
    case (Skip k)
    with sh have s: "scan_message buf c = Skip (c + k)" by (simp add: shift_scan_def)
    from 1(1)[OF s] scan_progress(1)[OF s] Skip s show ?thesis
      by (simp add: cut_messages.simps[of buf c] frames.simps[of "drop c buf"] add.commute)
  next
    case (Complete a e)
    with sh have s: "scan_message buf c = Complete (c + a) (c + e)" by (simp add: shift_scan_def)
    have fr: "frames (drop c buf) = (take (e - a) (drop (c + a) buf) # fst (frames (drop (c + e) buf)),
        snd (frames (drop (c + e) buf)))"
      using Complete by (simp add: frames.simps[of "drop c buf"] add.commute split: prod.split)
    show ?thesis
    proof (cases "c + a = 0 \<and> c + e = length buf")
      case True
      then have "frames (drop (c + e) buf) = ([], [])" by (simp add: frames.simps scan_message_def str_find_def patterns)
      with True s fr show ?thesis by (simp add: cut_messages.simps[of buf 0])
    next
      case False
      from 1(2)[OF s False] scan_progress(2)[OF s] fr s False show ?thesis
        by (auto simp: cut_messages.simps[of buf c])
    qed
  qed
qed

lemma frames_skip_junk: "str_find s BEGIN_STRING_TAG 0 = Some a \<Longrightarrow> frames s = frames (drop a s)"
  using scan_junk[of s a]
  by (auto simp: frames.simps[of s] frames.simps[of "drop a s"] shift_scan_def add.commute
      split: scan.splits prod.splits)

lemma scan_wait: "scan_message s 0 = Wait c \<Longrightarrow> str_find s BEGIN_STRING_TAG 0 = (if c = 0 then str_find s BEGIN_STRING_TAG 0 else Some c)"
  by (auto simp: scan_message_def split: option.splits prod.splits sum.splits if_splits)

text \<open>More text only adds messages: what was cut stays cut, and the rest carries on.\<close>

lemma frames_append:
  "frames (s @ t) = (fst (frames s) @ fst (frames (snd (frames s) @ t)), snd (frames (snd (frames s) @ t)))"
proof (induction s rule: frames.induct)
  case (1 s)
  show ?case
  proof (cases "scan_message s 0")
    case (Wait c)
    have "frames (s @ t) = frames (drop c s @ t)"
    proof (cases "c = 0")
      case False
      with scan_wait[OF Wait] have f: "str_find s BEGIN_STRING_TAG 0 = Some c" by simp
      with str_find_bounds[OF f] frames_skip_junk[OF str_find_more[OF f]] show ?thesis by simp
    qed simp
    with Wait show ?thesis by (simp add: frames.simps[of s])
  next
    case (Skip c)
    with 1(1)[OF Skip] scan_more[OF Skip] scan_progress(1)[OF Skip] show ?thesis
      by (simp add: frames.simps[of s] frames.simps[of "s @ t"])
  next
    case (Complete a e)
    with 1(2)[OF Complete] scan_more[OF Complete, of t] scan_progress(2)[OF Complete] show ?thesis
      by (simp add: frames.simps[of s] frames.simps[of "s @ t"] split: prod.split)
  qed
qed

lemma frames_rest: "frames (snd (frames s)) = ([], snd (frames s))"
  using frames_append[of s "[]"] by (cases "frames s"; cases "frames (snd (frames s))") simp

lemma read_loop_frames:
  assumes "[] \<notin> set chunks"
  shows "read_loop (map Bytes chunks) b found
    = (if chunks = [] then (Inr found, b) else
       (Inr (found @ fst (frames (b @ concat chunks))), snd (frames (b @ concat chunks))))"
  using assms
proof (induction chunks arbitrary: b found)
  case (Cons c cs)
  obtain buf' c' where cut: "cut_messages (b @ c) 0 found = (found @ fst (frames (b @ c)), buf', c')"
    "drop c' buf' = snd (frames (b @ c))"
    using cut_frames[of 0 "b @ c" found] by auto
  with Cons frames_append[of "b @ c" "concat cs"] show ?case by (auto simp: frames_rest)
qed simp

section \<open>Framed messages\<close>

lemma find_sub_skip:
  "SOH \<notin> set a \<Longrightarrow> find_sub (SOH # pat) (a @ b) = map_option ((+) (length a)) (find_sub (SOH # pat) b)"
proof (induction a)
  case (Cons x a)
  then have "x \<noteq> SOH" by auto
  with Cons show ?case by (simp add: option.map_comp comp_def)
qed (cases "find_sub (SOH # pat) b"; simp)

lemma find_sub_SOH: "SOH \<notin> set a \<Longrightarrow> find_sub [SOH] (a @ SOH # b) = Some (length a)"
  using find_sub_skip[of a "[]" "SOH # b"] by simp

lemma getTagValue_tag:
  assumes "SOH \<notin> set a" "SOH \<notin> set v"
  shows "getTagValue (pre @ a @ (SOH # pat) @ v @ SOH # rest) (SOH # pat) (length pre)
    = (v, Some (length pre + length a + length (SOH # pat) + length v))"
proof -
  let ?s = "a @ (SOH # pat) @ v @ SOH # rest"
  have f: "str_find ?s (SOH # pat) 0 = Some (length a)"
    using find_sub_skip[OF assms(1)] find_sub_prefix[of "SOH # pat" "v @ SOH # rest"]
    by (simp add: str_find_def del: find_sub.simps)
  have e: "str_find ?s [SOH] (length a + length (SOH # pat)) = Some (length a + length (SOH # pat) + length v)"
    using find_sub_SOH[OF assms(2)] by (simp add: str_find_def del: find_sub.simps)
  have "getTagValue ?s (SOH # pat) 0 = (v, Some (length a + length (SOH # pat) + length v))"
    unfolding getTagValue_Some_iff using f e by auto
  then show ?thesis using getTagValue_shift[of pre ?s "SOH # pat" 0] by (simp add: add.assoc)
qed

text \<open>The begin string of a framed message is followed by its length, and the check sum is found
  where the length says.\<close>

lemma scan_framed:
  assumes "framed w"
  shows "scan_message (w @ rest) 0 = Complete 0 (length w)"
proof -
  from assms obtain bs body ck where SOH: "SOH \<notin> set bs" "SOH \<notin> set ck"
    and ne: "ck \<noteq> []" and L: "is_int32 (int (length body))" and last: "body = [] \<or> last body = SOH"
    and w: "w = ''8='' @ bs @ SOH # ''9='' @ dec_nat (length body) @ SOH # body @ ''10='' @ ck @ [SOH]"
    unfolding framed_def by blast
  let ?n = "dec_nat (length body)"
  have n: "?n \<noteq> []" "SOH \<notin> set ?n" "from_chars_int ?n = Inr (int (length body))"
    using from_chars_dec_int[OF L] dec_int_no_sep(1)[of "int (length body)"] by (simp_all add: dec_int_def)
  define b where "b = 5 + length bs + length ?n"
  have s: "w @ rest = (''8='' @ bs) @ (SOH # ''9='') @ ?n @ SOH # (body @ ''10='' @ ck @ SOH # rest)"
    by (simp add: w)
  have len: "getTagValue (w @ rest) BODY_LENGTH_PATTERN 0 = (?n, Some b)"
    unfolding s patterns using getTagValue_tag[of "''8='' @ bs" ?n "[]" "''9=''"] SOH(1) n(2)
    by (simp add: b_def)
  obtain pre where pre: "w @ rest = pre @ [] @ (SOH # ''10='') @ ck @ SOH # rest" "length pre = b + length body"
  proof (cases "body = []")
    case True
    then show ?thesis using that[of "''8='' @ bs @ SOH # ''9='' @ ?n"] s by (simp add: b_def)
  next
    case False
    with last have body: "body = butlast body @ [SOH]" by (metis append_butlast_last_id)
    have "w @ rest = (''8='' @ bs @ SOH # ''9='' @ ?n @ SOH # butlast body) @ [] @ (SOH # ''10='') @ ck @ SOH # rest"
      by (subst s, subst (2) body) simp
    then show ?thesis using False that[of "''8='' @ bs @ SOH # ''9='' @ ?n @ SOH # butlast body"]
      by (simp add: b_def)
  qed
  have ck: "getTagValue (w @ rest) CHECKSUM_PATTERN (b + length body) = (ck, Some (b + length body + 4 + length ck))"
    unfolding patterns pre(1) pre(2)[symmetric] using getTagValue_tag[of "[]" ck pre "''10=''"] SOH(2) by simp
  have "str_find (w @ rest) BEGIN_STRING_TAG 0 = Some 0"
    using find_sub_prefix[of BEGIN_STRING_TAG] by (simp add: s patterns str_find_def del: find_sub.simps)
  moreover have "Suc (b + length body + 4 + length ck) = length w"
    by (simp add: w b_def)
  ultimately show ?thesis
    using n len ck ne by (simp add: scan_message_def)
qed

lemma frames_framed: "framed w \<Longrightarrow> frames (w @ rest) = (w # fst (frames rest), snd (frames rest))"
  using scan_framed[of w rest] by (simp add: frames.simps[of "w @ rest"] split: prod.split)

lemma frames_all: "list_all framed ws \<Longrightarrow> frames (concat ws @ rest) = (ws @ fst (frames rest), snd (frames rest))"
  by (induction ws) (simp_all add: frames_framed)

text \<open>A message that is not complete waits.\<close>

lemma frames_partial:
  assumes "framed (p @ q)" "q \<noteq> []"
  shows "frames p = ([], p)"
proof -
  have full: "scan_message (p @ q) 0 = Complete 0 (length (p @ q))"
    using scan_framed[OF assms(1), of "[]"] by simp
  then have start: "str_find (p @ q) BEGIN_STRING_TAG 0 = Some 0"
    by (auto simp: scan_message_def split: option.splits prod.splits sum.splits if_splits)
  show ?thesis
  proof (cases "scan_message p 0")
    case (Wait c)
    with scan_wait[OF Wait] str_find_more[of p BEGIN_STRING_TAG 0 c q] start have "c = 0"
      by (cases "c = 0") auto
    with Wait show ?thesis by (simp add: frames.simps[of p])
  next
    case (Skip c)
    with scan_more[OF Skip, of q] full show ?thesis by simp
  next
    case (Complete a e)
    with scan_more[OF Complete, of q] full scan_progress(2)[OF Complete] assms(2) show ?thesis
      by (cases q) auto
  qed
qed

lemma frames_Nil: "frames [] = ([], [])"
  by (simp add: frames.simps scan_message_def str_find_def patterns)

text \<open>What \<open>Message::serialize\<close> writes is framed.\<close>

definition field_end :: "string \<Rightarrow> bool" where
  "field_end s \<longleftrightarrow> s = [] \<or> last s = SOH"

lemma field_end_append: "field_end a \<Longrightarrow> field_end b \<Longrightarrow> field_end (a @ b)"
  by (auto simp: field_end_def last_append)

lemma field_end_concat: "(\<And>s. s \<in> set ss \<Longrightarrow> field_end s) \<Longrightarrow> field_end (concat ss)"
  by (induction ss) (auto simp: field_end_append field_end_def[of "[]"])

lemma field_end_part:
  assumes "\<And>s. s \<in> set (sub k) \<Longrightarrow> field_end (fst s)"
  shows "field_end (fst (field_part skip SOH sub (k, v)))"
proof -
  have "field_end (concat (map fst (sub k)))" by (rule field_end_concat) (use assms in auto)
  then have "field_end ((appendTagEq k @ v @ [SOH]) @ concat (map fst (sub k)))"
    by (rule field_end_append[rotated]) (simp add: field_end_def)
  then show ?thesis by (simp add: field_end_def[of "[]"])
qed

lemma appendGroup_field_end: "field_end (fst (appendGroup True SOH m))"
proof (induction m)
  case (FieldMap fs ow cap grps sp sn)
  let ?m = "FieldMap fs ow cap grps sp sn"
  have "field_end (fst s)" if "s \<in> set (group_parts True SOH ?m k)" for s k
  proof (cases "map_of grps k")
    case (Some gs)
    then have "(k, gs) \<in> set grps" by (simp add: map_of_SomeD)
    with Some that FieldMap show ?thesis by (force simp: group_parts_def snds.simps)
  qed (use that in \<open>simp add: group_parts_def\<close>)
  then have "field_end (concat (map fst (map (field_part True SOH (group_parts True SOH ?m)) (shown ?m))))"
    by (intro field_end_concat) (auto intro: field_end_part simp del: field_part.simps)
  then show ?case by (simp add: appendGroup_parts Let_def checksum_tail_def)
qed

definition sendable :: "message \<Rightarrow> bool" where
  "sendable msg \<longleftrightarrow> (case getField (m_header msg) FIELD_BeginString of Inr v \<Rightarrow> SOH \<notin> set v | Inl _ \<Rightarrow> False)
     \<and> length (fst (serialize_body SOH msg)) < 2147483648"

lemma serialized_framed:
  assumes "sendable msg"
  shows "framed (toString True msg)"
proof -
  from assms obtain v where v: "getField (m_header msg) FIELD_BeginString = Inr v" "SOH \<notin> set v"
    and len: "length (fst (serialize_body SOH msg)) < 2147483648"
    by (auto simp: sendable_def split: sum.splits)
  have "field_end (fst (serialize_body SOH msg))"
    by (simp add: serialize_body_def case_prod_beta appendGroup_field_end field_end_append)
  moreover have "toString True msg = ''8='' @ v @ SOH # ''9='' @ dec_nat (length (fst (serialize_body SOH msg)))
      @ SOH # fst (serialize_body SOH msg) @ ''10='' @ formatChecksum (byte_sum (before_checksum SOH msg)) @ [SOH]"
    using v len by (simp add: toString_def serialize_eq before_checksum_def serialize_prefix_getField
        dec_int_def is_int32_def)
  moreover have "is_int32 (int (length (fst (serialize_body SOH msg))))"
    using len by (simp add: is_int32_def)
  moreover have "formatChecksum (byte_sum (before_checksum SOH msg)) \<noteq> []"
    using formatChecksum_length[of "byte_sum (before_checksum SOH msg)"] by (auto simp del: formatChecksum_length)
  ultimately show ?thesis
    using v(2) formatChecksum_no_sep[of "byte_sum (before_checksum SOH msg)"]
    unfolding framed_def field_end_def by blast
qed

section \<open>Runs of reads\<close>

text \<open>A run of reads on several descriptors: for each call the chunks the socket had ready. The
  result is what the calls returned, in order, and the buffers.\<close>

fun rb_run :: "(int \<times> string list) list \<Rightarrow> read_buffer \<Rightarrow> (int \<times> string) list \<times> read_buffer" where
  "rb_run [] rb = ([], rb)"
| "rb_run ((fd, chunks) # calls) rb =
     (case rb_read fd (map Bytes chunks @ [WouldBlock]) rb of
        (Inl _, rb1) \<Rightarrow> rb_run calls rb1
      | (Inr ms, rb1) \<Rightarrow> (case rb_run calls rb1 of (out, rb2) \<Rightarrow> (map (Pair fd) ms @ out, rb2)))"

definition for_fd :: "int \<Rightarrow> (int \<times> 'a) list \<Rightarrow> 'a list" where
  "for_fd fd xs = map snd (filter (\<lambda>x. fst x = fd) xs)"

definition stream_of :: "int \<Rightarrow> (int \<times> string list) list \<Rightarrow> string" where
  "stream_of fd calls = concat (concat (for_fd fd calls))"

definition buffered :: "int \<Rightarrow> read_buffer \<Rightarrow> string" where
  "buffered fd rb = (case map_of rb fd of None \<Rightarrow> [] | Some b \<Rightarrow> b)"

lemma for_fd_simps [simp]:
  "for_fd fd [] = []" "for_fd fd (x # xs) = (if fst x = fd then [snd x] else []) @ for_fd fd xs"
  "for_fd fd (xs @ ys) = for_fd fd xs @ for_fd fd ys"
  "for_fd fd (map (Pair fd') zs) = (if fd' = fd then zs else [])"
  by (auto simp: for_fd_def comp_def filter_empty_conv)

lemma read_loop_stop: "read_loop (map Bytes chunks @ [WouldBlock]) b found = read_loop (map Bytes chunks) b found"
  by (induction chunks arbitrary: b found) (auto split: prod.split)

lemma rb_read_frames:
  assumes "[] \<notin> set chunks" "frames (buffered fd rb) = ([], buffered fd rb)"
  shows "\<exists>rb1. rb_read fd (map Bytes chunks @ [WouldBlock]) rb = (Inr (fst (frames (buffered fd rb @ concat chunks))), rb1)
    \<and> buffered fd rb1 = snd (frames (buffered fd rb @ concat chunks))
    \<and> (\<forall>fd'. fd' \<noteq> fd \<longrightarrow> buffered fd' rb1 = buffered fd' rb)"
proof -
  have b: "(case map_of (hmap_emplace rb fd []) fd of None \<Rightarrow> [] | Some b \<Rightarrow> b) = buffered fd rb"
    "fd' \<noteq> fd \<Longrightarrow> map_of (hmap_emplace rb fd []) fd' = map_of rb fd'" for fd'
    by (auto simp: hmap_emplace_def buffered_def update_conv' split: option.split)
  show ?thesis
    using assms(2) by (auto simp: rb_read_def Let_def b read_loop_stop read_loop_frames[OF assms(1)] buffered_def[of _ "hmap_set _ _ _"])
      (auto simp: buffered_def b(2))
qed

lemma rb_run_frames:
  assumes "\<forall>call\<in>set calls. [] \<notin> set (snd call)" "\<And>fd. frames (buffered fd rb) = ([], buffered fd rb)"
  shows "for_fd fd (fst (rb_run calls rb)) = fst (frames (buffered fd rb @ stream_of fd calls))
    \<and> buffered fd (snd (rb_run calls rb)) = snd (frames (buffered fd rb @ stream_of fd calls))"
  using assms
proof (induction calls rb rule: rb_run.induct)
  case (1 rb)
  then show ?case by (simp add: stream_of_def)
next
  case (2 fd1 chunks calls rb)
  from 2 have ne: "[] \<notin> set chunks" by auto
  from rb_read_frames[OF ne 2(4)] obtain rb1 where
    r: "rb_read fd1 (map Bytes chunks @ [WouldBlock]) rb = (Inr (fst (frames (buffered fd1 rb @ concat chunks))), rb1)"
    and b: "buffered fd1 rb1 = snd (frames (buffered fd1 rb @ concat chunks))"
    and o: "\<And>fd'. fd' \<noteq> fd1 \<Longrightarrow> buffered fd' rb1 = buffered fd' rb" by blast
  have "frames (buffered fd' rb1) = ([], buffered fd' rb1)" for fd'
    using b o[of fd'] 2(4)[of fd'] by (cases "fd' = fd1") (simp_all add: frames_rest)
  with 2(2)[OF r[symmetric] refl] 2(3) have IH: "for_fd fd (fst (rb_run calls rb1)) = fst (frames (buffered fd rb1 @ stream_of fd calls))"
    "buffered fd (snd (rb_run calls rb1)) = snd (frames (buffered fd rb1 @ stream_of fd calls))" by auto
  show ?case
  proof (cases "fd = fd1")
    case True
    with r b IH frames_append[of "buffered fd1 rb @ concat chunks" "stream_of fd calls"] show ?thesis
      by (simp add: stream_of_def case_prod_beta)
  next
    case False
    with r o[OF False] IH show ?thesis by (simp add: stream_of_def case_prod_beta)
  qed
qed

section \<open>Properties\<close>

text \<open>C16: the reader puts the stream back together. However the bytes of a connection are split over
  reads and over the calls of one read, and whatever arrives on other connections in between, the
  calls return exactly the messages framed in the stream, each whole, once and in order, and keep
  the incomplete last one.\<close>

theorem messages_reassembled:
  assumes "\<forall>call\<in>set calls. [] \<notin> set (snd call)" "stream_of fd calls = concat ws @ partial"
    and "list_all framed ws" "partial = [] \<or> (\<exists>q. q \<noteq> [] \<and> framed (partial @ q))"
  shows "for_fd fd (fst (rb_run calls [])) = ws \<and> buffered fd (snd (rb_run calls [])) = partial"
proof -
  have "frames partial = ([], partial)" using assms(4) frames_partial frames_Nil by blast
  with frames_all[OF assms(3), of partial] rb_run_frames[OF assms(1), of "[]" fd] assms(2)
  show ?thesis by (simp add: buffered_def frames_Nil)
qed

definition demo_wire :: string where "demo_wire = ''8=F'' @ [SOH] @ ''9=5'' @ [SOH] @ ''35=0'' @ [SOH] @ ''10=161'' @ [SOH]"

lemma demo_wire_framed: "framed demo_wire"
  unfolding framed_def by (rule exI[of _ "''F''"], rule exI[of _ "''35=0'' @ [SOH]"], rule exI[of _ "''161''"]) code_simp

lemma messages_reassembled_witness:
  "for_fd 5 (fst (rb_run [(5, [take 7 demo_wire]), (6, [''x'']), (5, [drop 7 demo_wire, take 3 demo_wire])] [])) = [demo_wire]"
proof -
  have "framed (take 3 demo_wire @ drop 3 demo_wire)" by (simp add: demo_wire_framed)
  moreover have "drop 3 demo_wire \<noteq> []" by code_simp
  ultimately have "\<exists>q. q \<noteq> [] \<and> framed (take 3 demo_wire @ q)" by blast
  moreover have "\<forall>call\<in>set [(5, [take 7 demo_wire]), (6, [''x'']), (5, [drop 7 demo_wire, take 3 demo_wire])].
      [] \<notin> set (snd call)"
    "stream_of 5 [(5, [take 7 demo_wire]), (6, [''x'']), (5, [drop 7 demo_wire, take 3 demo_wire])]
      = concat [demo_wire] @ take 3 demo_wire" by code_simp+
  ultimately show ?thesis
    using messages_reassembled[of "[(5, [take 7 demo_wire]), (6, [''x'']), (5, [drop 7 demo_wire, take 3 demo_wire])]" 5
        "[demo_wire]" "take 3 demo_wire"] demo_wire_framed by (simp del: rb_run.simps)
qed

definition demo_message :: message where
  "demo_message = empty_message\<lparr>m_header := setFieldView 35 ''0'' False (setFieldView 8 ''FIX.4.2'' False empty_fm)\<rparr>"

text \<open>What one side serializes the other side's reader cuts out again: any number of messages,
  written one after the other and received in chunks of any sizes, come out as the texts written.\<close>

theorem serialized_stream_received:
  assumes "list_all sendable msgs" "[] \<notin> set chunks" "concat chunks = concat (map (toString True) msgs)" "chunks \<noteq> []"
  shows "read_loop (map Bytes chunks) [] [] = (Inr (map (toString True) msgs), [])"
proof -
  have "list_all framed (map (toString True) msgs)"
    using assms(1) serialized_framed by (simp add: list_all_iff)
  from frames_all[OF this, of "[]"] assms show ?thesis
    by (simp add: read_loop_frames frames_Nil)
qed

lemma serialized_stream_received_witness:
  "\<exists>a b. read_loop (map Bytes [a, b]) [] [] = (Inr [toString True demo_message, toString True demo_message], [])
     \<and> length a = 1"
proof -
  let ?w = "toString True demo_message"
  let ?s = "?w @ ?w"
  have d: "dec_nat 35 = ''35''" by code_simp
  have s: "sendable demo_message"
    by (simp add: sendable_def demo_message_def setFieldView_def insertFieldView_def serialize_body_def appendGroup_parts
        shown_def getField_shown group_parts_def checksum_tail_def isIgnoredTag_def appendTagEq_eq dec_int_def empty_message_def d)
  from serialized_framed[OF this] have "2 < length ?w" by (auto simp: framed_def)
  then have "[] \<notin> set [take 1 ?s, drop 1 ?s]" "length (take 1 ?s) = 1" by auto
  with s show ?thesis
    using serialized_stream_received[of "[demo_message, demo_message]" "[take 1 ?s, drop 1 ?s]"]
    by (intro exI[of _ "take 1 ?s"] exI[of _ "drop 1 ?s"]) (simp del: read_loop.simps)
qed

end
