(* ===== verification/EndToEnd.thy ===== *)
theory EndToEnd
  imports SessionProps ReadBuffer
begin

text \<open>
  The parts composed: what one session sends, the other session's application gets. The sender's
  stamps (\<open>Session\<close>), the serializer (\<open>FixMessage\<close>), the reader's framing (\<open>ReadBuffer\<close>), the parser
  (\<open>FixDictionary\<close>), the validation, the sequence gate and the delivery (\<open>Session\<close>) meet in one theorem
  about a stream of messages from a session A to its counterparty B.
\<close>

section \<open>The stamped header\<close>

lemma setField_unordered_lookup:
  assumes "fm_wf m" "setField tag v False m = Inr m'"
  shows "fm_wf m'" "getField m' k = (if k = tag then Inr v else getField m k)"
  using setField_wf[OF assms] setField_lookup(1,2)[OF assms] by (simp_all add: misplaced_def)

text \<open>What \<open>populateMessage\<close> leaves behind, when the caller's time is given.\<close>

lemma populateMessage_stamps:
  assumes "fm_wf (m_header msg)" "t \<noteq> 0" "populateMessage env msg t s = (Inr (n, msg'), s')"
  shows "getField (m_header msg') FIELD_BeginString = Inr (getString BEGIN_STRING (e_settings env))"
    "getField (m_header msg') FIELD_SenderCompID = Inr (getString SENDER_COMP_ID (e_settings env))"
    "getField (m_header msg') FIELD_TargetCompID = Inr (getString TARGET_COMP_ID (e_settings env))"
    "getField (m_header msg') FIELD_SendingTime = Inr (fst (writeUTCTimestamp (s_writeTs s) (nat t)))"
    "getField (m_header msg') FIELD_MsgSeqNum = Inr (dec_int (c_senderSeqNum (s_cache s)))"
    "k \<notin> {8, 34, 49, 52, 56} \<Longrightarrow> getField (m_header msg') k = getField (m_header msg) k"
    "m_body msg' = m_body msg" "m_trailer msg' = m_trailer msg"
    "s' = s\<lparr>s_writeTs := snd (writeUTCTimestamp (s_writeTs s) (nat t))\<rparr>"
proof -
  define h3 where "h3 = setFieldView FIELD_TargetCompID (getString TARGET_COMP_ID (e_settings env)) False
     (setFieldView FIELD_SenderCompID (getString SENDER_COMP_ID (e_settings env)) False
       (setFieldView FIELD_BeginString (getString BEGIN_STRING (e_settings env)) False (m_header msg)))"
  define w where "w = writeUTCTimestamp (s_writeTs s) (nat t)"
  have wf3: "fm_wf h3" by (simp add: h3_def setFieldView_wf assms(1))
  have g3: "getField h3 k = (if k = 56 then Inr (getString TARGET_COMP_ID (e_settings env))
      else if k = 49 then Inr (getString SENDER_COMP_ID (e_settings env))
      else if k = 8 then Inr (getString BEGIN_STRING (e_settings env)) else getField (m_header msg) k)" for k
    by (simp add: h3_def setFieldView_get setFieldView_wf assms(1) misplaced_def)
  obtain h4 h5 where h4: "setField FIELD_SendingTime (fst w) False h3 = Inr h4"
    and h5: "setField FIELD_MsgSeqNum (dec_int (c_senderSeqNum (s_cache s))) False h4 = Inr h5"
    and m: "msg' = msg\<lparr>m_header := h5\<rparr>" "s' = s\<lparr>s_writeTs := snd w\<rparr>"
    using assms(2,3)
    by (auto simp: populateMessage_def st_bind_apply getSenderSeqNum_def writeTimestamp_def setFieldInt_def Let_def
        simp flip: h3_def w_def split: prod.splits sum.splits)
  note g4 = setField_unordered_lookup[OF wf3 h4]
  note g5 = setField_unordered_lookup(2)[OF g4(1) h5]
  show "getField (m_header msg') FIELD_BeginString = Inr (getString BEGIN_STRING (e_settings env))"
    "getField (m_header msg') FIELD_SenderCompID = Inr (getString SENDER_COMP_ID (e_settings env))"
    "getField (m_header msg') FIELD_TargetCompID = Inr (getString TARGET_COMP_ID (e_settings env))"
    "getField (m_header msg') FIELD_SendingTime = Inr (fst (writeUTCTimestamp (s_writeTs s) (nat t)))"
    "getField (m_header msg') FIELD_MsgSeqNum = Inr (dec_int (c_senderSeqNum (s_cache s)))"
    "k \<notin> {8, 34, 49, 52, 56} \<Longrightarrow> getField (m_header msg') k = getField (m_header msg) k"
    "m_body msg' = m_body msg" "m_trailer msg' = m_trailer msg"
    "s' = s\<lparr>s_writeTs := snd (writeUTCTimestamp (s_writeTs s) (nat t))\<rparr>"
    by (simp_all add: m g5 g4(2) g3 w_def)
qed

text \<open>A field that is new to a map, and that the specification does not place, goes to the end.\<close>

lemma assign_absent: "tag \<notin> set (lhm_keys fs) \<Longrightarrow> lhm_assign fs tag v = fs @ [(tag, v)]"
  by (induction fs) auto

lemma insert_unplaced:
  assumes "tag \<notin> set (lhm_keys (fm_fields m))" "\<And>s. order \<Longrightarrow> fm_spec m = Some s \<Longrightarrow> tag \<notin> set (gs_fieldOrder s)"
  shows "insertFieldView tag v order m = with_fields (fm_fields m @ [(tag, v)]) m"
proof -
  have "scan_place tag ord fs i = AtEnd" if "tag \<notin> set (lhm_keys fs)" "tag \<notin> set ord" for ord fs i
    using that
  proof (induction tag ord fs i rule: scan_place.induct)
    case (2 tag order f fs i)
    define order' where "order' = dropWhile (\<lambda>x. x \<noteq> fst f \<and> x \<noteq> tag) order"
    have "set order' \<subseteq> set order" unfolding order'_def by (rule set_dropWhileD[THEN subsetI])
    then have "tag \<notin> set order'" "\<not> (order' \<noteq> [] \<and> hd order' = tag)" using "2.prems"(2) hd_in_set by fastforce+
    then show ?case using 2 unfolding order'_def by (simp add: Let_def)
  qed simp
  moreover have "lhm_assign (fm_fields m) tag v = fm_fields m @ [(tag, v)]" using assms(1) by (rule assign_absent)
  ultimately show ?thesis using assms by (auto simp: insertFieldView_def split: option.split)
qed

lemma setFieldView_appends:
  assumes "tag \<notin> fst ` set (shown m)"
  shows "shown (setFieldView tag v False m) = shown m @ [(tag, v)]" "fm_groups (setFieldView tag v False m) = fm_groups m"
    "fm_owned (setFieldView tag v False m) = fm_owned m"
proof -
  have "tag \<notin> set (lhm_keys (fm_fields m))" using assms keys_shown[of m] by (metis list.set_map)
  then have "setFieldView tag v False m = with_fields (fm_fields m @ [(tag, Ext v)]) m"
    unfolding setFieldView_def by (rule insert_unplaced) simp
  then show "shown (setFieldView tag v False m) = shown m @ [(tag, v)]" "fm_groups (setFieldView tag v False m) = fm_groups m"
    "fm_owned (setFieldView tag v False m) = fm_owned m"
    by (simp_all add: shown_def)
qed

lemma setField_appends:
  assumes "setField tag v order m = Inr m'" "fm_wf m" "tag \<notin> fst ` set (fm_owned m)" "tag \<notin> fst ` set (shown m)"
    "\<And>s. order \<Longrightarrow> fm_spec m = Some s \<Longrightarrow> tag \<notin> set (gs_fieldOrder s)"
  shows "shown m' = shown m @ [(tag, v)]" "fm_groups m' = fm_groups m" "fst ` set (fm_owned m') = insert tag (fst ` set (fm_owned m))"
proof -
  have "find_slot ow tag = length ow" if "tag \<notin> fst ` set ow" for ow using that by (induction ow) auto
  then obtain cap where m0: "m' = insertFieldView tag (Own (length (fm_owned m)) (length v)) order
      (with_owned (fm_owned m @ [new_slot tag v]) cap m)"
    using setField_fresh[OF _ assms(1)] assms(3) by blast
  have "tag \<notin> set (lhm_keys (fm_fields m))" using assms(4) keys_shown[of m] by (metis list.set_map)
  then have m': "m' = with_fields (fm_fields m @ [(tag, Own (length (fm_owned m)) (length v))])
      (with_owned (fm_owned m @ [new_slot tag v]) cap m)"
    unfolding m0 by (subst insert_unplaced) (use assms(5) in simp_all)
  have "fv_read (fm_owned m @ [new_slot tag v]) w = fv_read (fm_owned m) w" if "(k, w) \<in> set (fm_fields m)" for k w
    using view_ok_append that assms(2) by (fastforce simp: fm_wf_def list_all_iff)
  then show "shown m' = shown m @ [(tag, v)]" "fm_groups m' = fm_groups m" "fst ` set (fm_owned m') = insert tag (fst ` set (fm_owned m))"
    by (auto simp: shown_def m' new_slot_def)
qed

text \<open>The header of a message whose caller set none of the stamped fields: they follow the caller's.\<close>

lemma populateMessage_shown:
  assumes "fm_wf (m_header msg)" "t \<noteq> 0" "populateMessage env msg t s = (Inr (n, msg'), s')"
    "fst ` set (shown (m_header msg)) \<inter> {8, 34, 49, 52, 56} = {}" "fst ` set (fm_owned (m_header msg)) \<inter> {34, 52} = {}"
  shows "shown (m_header msg') = shown (m_header msg) @ [(8, getString BEGIN_STRING (e_settings env)),
      (49, getString SENDER_COMP_ID (e_settings env)), (56, getString TARGET_COMP_ID (e_settings env)),
      (52, fst (writeUTCTimestamp (s_writeTs s) (nat t))), (34, dec_int (c_senderSeqNum (s_cache s)))]"
    "fm_groups (m_header msg') = fm_groups (m_header msg)"
proof -
  define ts where "ts = fst (writeUTCTimestamp (s_writeTs s) (nat t))"
  define h3 where "h3 = setFieldView FIELD_TargetCompID (getString TARGET_COMP_ID (e_settings env)) False
     (setFieldView FIELD_SenderCompID (getString SENDER_COMP_ID (e_settings env)) False
       (setFieldView FIELD_BeginString (getString BEGIN_STRING (e_settings env)) False (m_header msg)))"
  obtain h4 h5 where h4: "setField FIELD_SendingTime ts False h3 = Inr h4"
    and h5: "setField FIELD_MsgSeqNum (dec_int (c_senderSeqNum (s_cache s))) False h4 = Inr h5" and m: "m_header msg' = h5"
    using assms(2,3)
    by (auto simp: populateMessage_def st_bind_apply getSenderSeqNum_def writeTimestamp_def setFieldInt_def Let_def ts_def
        simp flip: h3_def split: prod.splits sum.splits)
  have wf: "fm_wf h3" by (simp add: h3_def setFieldView_wf assms(1))
  have h3: "shown h3 = shown (m_header msg) @ [(8, getString BEGIN_STRING (e_settings env)),
      (49, getString SENDER_COMP_ID (e_settings env)), (56, getString TARGET_COMP_ID (e_settings env))]"
      "fm_groups h3 = fm_groups (m_header msg)" "fm_owned h3 = fm_owned (m_header msg)"
    using assms(4) by (simp_all add: h3_def setFieldView_appends)
  have o: "52 \<notin> fst ` set (fm_owned h3)" "52 \<notin> fst ` set (shown h3)" using assms(4,5) by (auto simp: h3)
  note f4 = setField_appends[OF h4 wf o, simplified, unfolded h3]
  have o: "34 \<notin> fst ` set (fm_owned h4)" "34 \<notin> fst ` set (shown h4)" using assms(4,5) by (auto simp: f4)
  note f5 = setField_appends[OF h5 setField_wf[OF wf h4] o, simplified, unfolded f4]
  show "shown (m_header msg') = shown (m_header msg) @ [(8, getString BEGIN_STRING (e_settings env)),
      (49, getString SENDER_COMP_ID (e_settings env)), (56, getString TARGET_COMP_ID (e_settings env)),
      (52, fst (writeUTCTimestamp (s_writeTs s) (nat t))), (34, dec_int (c_senderSeqNum (s_cache s)))]"
    "fm_groups (m_header msg') = fm_groups (m_header msg)"
    by (simp_all add: m f5 ts_def[symmetric])
qed


section \<open>One message over the wire\<close>

text \<open>A and B are the two ends of one session.\<close>

definition counterparts :: "session_env \<Rightarrow> session_env \<Rightarrow> bool" where
  "counterparts A B \<longleftrightarrow>
     getString BEGIN_STRING (e_settings A) = getString BEGIN_STRING (e_settings B)
     \<and> getString SENDER_COMP_ID (e_settings A) = getString TARGET_COMP_ID (e_settings B)
     \<and> getString TARGET_COMP_ID (e_settings A) = getString SENDER_COMP_ID (e_settings B)"

text \<open>A is connected and outside a receive, whose cached time \<open>send\<close> would use; B is logged on, waits for
  nothing, and expects the number A uses next.\<close>

definition in_step :: "session \<Rightarrow> session \<Rightarrow> bool" where
  "in_step a b \<longleftrightarrow>
     handler_ok (s_network a) \<and> isConnected (s_network a) \<and> s_cachedEpochUs a = 0 \<and> ts_cache_ok (s_writeTs a)
     \<and> is_int32 (c_senderSeqNum (s_cache a)) \<and> s_state b = READY \<and> c_inboundQueue (s_cache b) = []
     \<and> c_targetSeqNum (s_cache b) = c_senderSeqNum (s_cache a)"

text \<open>A stamped message without groups that B's dictionary describes, of a given type, and of an
  application type.\<close>

definition speaks :: "session_env \<Rightarrow> string \<Rightarrow> message \<Rightarrow> bool" where
  "speaks env mt msg \<longleftrightarrow>
     flat_message msg \<and> length (fst (serialize_body SOH msg)) < 2147483648 \<and> length (toString True msg) < 2147483648
     \<and> (case sent (m_header msg) of [] \<Rightarrow> False
        | (k, mt') # hs \<Rightarrow> k = FIELD_MsgType \<and> mt' = mt
            \<and> flat_ok (parse_settings_of (e_settings env)) (e_dictionary env) (getString BEGIN_STRING (e_settings env))
                mt hs (sent (m_body msg)) (sent (m_trailer msg)))"

definition described :: "session_env \<Rightarrow> message \<Rightarrow> bool" where
  "described env msg \<longleftrightarrow>
     (case sent (m_header msg) of [] \<Rightarrow> False | (k, mt) # hs \<Rightarrow> app_type mt \<and> speaks env mt msg)"

definition fits :: "session_env \<Rightarrow> message \<Rightarrow> bool" where
  "fits env msg \<longleftrightarrow> described env msg \<and> \<not> tryGetBool (m_header msg) FIELD_PossDupFlag"

text \<open>The \<open>i\<close>-th reading of A's clock is a time that timestamps can carry, and the \<open>j\<close>-th of B's is
  within B's threshold of it.\<close>

definition clocks_agree :: "session_env \<Rightarrow> session_env \<Rightarrow> nat \<Rightarrow> nat \<Rightarrow> bool" where
  "clocks_agree A B i j \<longleftrightarrow>
     1000000 \<le> e_clock A i \<and> e_clock A i < 253402300800000000
     \<and> \<bar>int (e_clock B j) div 1000 - int (e_clock A i) div 1000\<bar> \<le> getLong SENDING_TIME_THRESHOLD (e_settings B) * 1000"

text \<open>Sending on a connected session, when \<open>send_time\<close> answers with \<open>us\<close>.\<close>

lemma send_at:
  assumes "handler_ok (s_network s)" "isConnected (s_network s)" "ts_cache_ok (s_writeTs s)"
    "send_time env s = (Inr (int us), s\<lparr>s_tick := k\<rparr>)" "1000000 \<le> us"
    "fm_wf (m_header msg)" "send env msg None s = (Inr msg', s')"
  shows "handler_ok (s_network s')" "isConnected (s_network s')" "s_cachedEpochUs s' = s_cachedEpochUs s"
    "ts_cache_ok (s_writeTs s')" "s_tick s' = Suc k"
    "populateMessage env msg (int us div 1000) (s\<lparr>s_tick := k\<rparr>)
       = (Inr (c_senderSeqNum (s_cache s), msg'),
          s\<lparr>s_tick := k, s_writeTs := snd (writeUTCTimestamp (s_writeTs s) (us div 1000))\<rparr>)"
proof -
  let ?t = "int us div 1000"
  let ?s1 = "s\<lparr>s_tick := k\<rparr>"
  note st = assms(4)
  have t: "?t \<noteq> 0" "nat ?t = us div 1000" using assms(5) by (auto simp: nat_div_distrib)
  obtain n s2 where p: "populateMessage env msg ?t ?s1 = (Inr (n, msg'), s2)"
    using assms(7) by (auto simp: send_def st_bind_apply st_seq_apply st Let_def split: prod.splits sum.splits)
  have n: "n = c_senderSeqNum (s_cache s)" using populateMessage_frame(3)[of env msg ?t ?s1 n msg'] p by simp
  have s2: "s2 = ?s1\<lparr>s_writeTs := snd (writeUTCTimestamp (s_writeTs s) (us div 1000))\<rparr>"
    using populateMessage_stamps(9)[OF assms(6) t(1) p] by (simp add: t(2))
  show "populateMessage env msg ?t ?s1 = (Inr (c_senderSeqNum (s_cache s), msg'),
      s\<lparr>s_tick := k, s_writeTs := snd (writeUTCTimestamp (s_writeTs s) (us div 1000))\<rparr>)"
    using p n s2 by simp
  have ts: "ts_cache_ok (snd (writeUTCTimestamp (s_writeTs s) (us div 1000)))"
    using assms(3) by (simp add: writeUTCTimestamp_def Let_def refresh_cache_ok)
  obtain r h where rh: "nh_send (e_inline env k) (toString True msg') None (s_network s) = (r, h)" by force
  have r: "r = None" using handler.callback_transmit[OF assms(1), of "e_inline env k" "toString True msg'" None] rh
    by (simp split: if_splits)
  have h: "handler_ok h" "isConnected h"
    using handler.ok_transmit[OF assms(1), of "e_inline env k" "toString True msg'" None]
      handler.conn_transmit[OF assms(1), of "e_inline env k" "toString True msg'" None] rh assms(2) by simp_all
  have "s_network s' = h \<and> s_cachedEpochUs s' = s_cachedEpochUs s \<and> s_writeTs s' = s_writeTs s2 \<and> s_tick s' = Suc k"
    using assms(2,7) t(1)
    by (auto simp: send_def st_bind_apply st_seq_apply st p s2 Let_def on_cache_def nextSenderSeqNum_def
      internal_send_wire_def when_do_def logMessage_def Session.network_send_def ask_def rh r)
  then show "handler_ok (s_network s')" "isConnected (s_network s')" "s_cachedEpochUs s' = s_cachedEpochUs s"
    "ts_cache_ok (s_writeTs s')" "s_tick s' = Suc k" using h ts s2 by simp_all
qed

lemma send_time_clock:
  "s_cachedEpochUs s = 0 \<Longrightarrow> send_time env s = (Inr (int (e_clock env (s_tick s))), s\<lparr>s_tick := Suc (s_tick s)\<rparr>)"
  by (simp add: send_time_def st_bind_apply getEpochMicros_def ask_def)

text \<open>What the counterparty of B sees in the header of a message that A stamped at \<open>us\<close>.\<close>

lemma stamped_for:
  assumes "counterparts A B" "fm_wf (m_header msg)" "1000000 \<le> us" "us < 253402300800000000" "ts_cache_ok (s_writeTs s)"
    "populateMessage A msg (int us div 1000) s = (Inr (n, msg'), s')"
  shows "getField (m_header msg') FIELD_BeginString = Inr (getString BEGIN_STRING (e_settings B))"
    "getField (m_header msg') FIELD_SenderCompID = Inr (getString TARGET_COMP_ID (e_settings B))"
    "getField (m_header msg') FIELD_TargetCompID = Inr (getString SENDER_COMP_ID (e_settings B))"
    "getField (m_header msg') FIELD_MsgSeqNum = Inr (dec_int (c_senderSeqNum (s_cache s)))"
    "\<exists>ts. getField (m_header msg') FIELD_SendingTime = Inr ts \<and> parseUTCTimestamp ts = int (us div 1000)"
    "k \<notin> {8, 34, 49, 52, 56} \<Longrightarrow> getField (m_header msg') k = getField (m_header msg) k"
    "m_body msg' = m_body msg"
proof -
  have t: "int us div 1000 \<noteq> 0" "nat (int us div 1000) = us div 1000" using assms(3) by (auto simp: nat_div_distrib)
  note h = populateMessage_stamps[OF assms(2) t(1) assms(6), simplified t(2)]
  have "parseUTCTimestamp (fst (writeUTCTimestamp (s_writeTs s) (us div 1000))) = int (us div 1000)"
    using written_timestamp[OF assms(5), of "us div 1000"] assms(3,4) by simp
  then show "getField (m_header msg') FIELD_BeginString = Inr (getString BEGIN_STRING (e_settings B))"
    "getField (m_header msg') FIELD_SenderCompID = Inr (getString TARGET_COMP_ID (e_settings B))"
    "getField (m_header msg') FIELD_TargetCompID = Inr (getString SENDER_COMP_ID (e_settings B))"
    "getField (m_header msg') FIELD_MsgSeqNum = Inr (dec_int (c_senderSeqNum (s_cache s)))"
    "\<exists>ts. getField (m_header msg') FIELD_SendingTime = Inr ts \<and> parseUTCTimestamp ts = int (us div 1000)"
    "k \<notin> {8, 34, 49, 52, 56} \<Longrightarrow> getField (m_header msg') k = getField (m_header msg) k"
    "m_body msg' = m_body msg"
    using h(1-8) assms(1) by (simp_all add: counterparts_def)
qed


lemma getField_sent: "\<not> isIgnoredTag k \<Longrightarrow> getField m k = (case map_of (sent m) k of None \<Rightarrow> Inl (FieldNotFound k) | Some v \<Rightarrow> Inr v)"
proof -
  assume "\<not> isIgnoredTag k"
  then have "map_of (filter (\<lambda>x. \<not> isIgnoredTag (fst x)) kvs) k = map_of kvs k" for kvs :: "(int \<times> string) list"
    by (induction kvs) auto
  then show ?thesis by (simp add: getField_shown sent_def)
qed

lemma tryGetBool_getField: "tryGetBool m k \<longleftrightarrow> getField m k = Inr ''Y''"
  by (simp add: tryGetBool_def getField_def split: option.split)

lemma fm_has_getField: "fm_has m k \<longleftrightarrow> (\<exists>v. getField m k = Inr v)"
  using map_of_eq_None_iff[of "fm_fields m" k]
  by (cases "map_of (fm_fields m) k") (simp_all add: fm_has_def getField_map_of)

section \<open>Created messages and received texts\<close>

lemma created_body:
  assumes "create d t = Inr m0"
  shows "fm_owned (m_body m0) = []" "fm_fields (m_body m0) = []" "fm_wf (m_body m0)"
proof -
  obtain spec where "m_body m0 = setSpec spec empty_fm"
    using assms by (auto simp: create_def empty_message_def split: option.splits elim!: sbind_InrE)
  then show "fm_owned (m_body m0) = []" "fm_fields (m_body m0) = []" "fm_wf (m_body m0)"
    by (simp_all add: fm_wf_def)
qed

lemma absent_not_misplaced: "tag \<notin> set (lhm_keys (fm_fields m)) \<Longrightarrow> \<not> misplaced tag order m"
  by (auto simp: misplaced_def lhm_has_def split: option.splits place.splits)

lemma setField_absent:
  assumes "fm_wf m" "setField tag v True m = Inr m'" "\<not> fm_has m tag"
  shows "fm_wf m'" "getField m' k = (if k = tag then Inr v else getField m k)"
proof -
  have "\<not> misplaced tag True m" using assms(3) by (intro absent_not_misplaced) (simp add: fm_has_def lhm_has_def)
  then show "fm_wf m'" "getField m' k = (if k = tag then Inr v else getField m k)"
    using setField_wf[OF assms(1,2)] setField_lookup(1,2)[OF assms(1,2)] by simp_all
qed

lemma created_header:
  assumes "create d t = Inr m0"
  shows "fm_wf (m_header m0)" "getField (m_header m0) k = (if k = FIELD_MsgType then Inr t else Inl (FieldNotFound k))"
proof -
  obtain h where h: "setField FIELD_MsgType t True (setSpec (Some (d_headerSpec d)) empty_fm) = Inr h" "m_header m0 = h"
    using assms by (auto simp: create_def split: option.splits elim!: sbind_InrE)
  have e: "fm_wf (setSpec (Some (d_headerSpec d)) empty_fm)" "getField (setSpec (Some (d_headerSpec d)) empty_fm) k = Inl (FieldNotFound k)" for k
    by (simp_all add: fm_wf_def getField_map_of)
  have "\<not> fm_has (setSpec (Some (d_headerSpec d)) empty_fm) FIELD_MsgType" by (simp add: fm_has_getField e(2))
  from setField_absent[OF e(1) h(1) this] h(2) e(2)
  show "fm_wf (m_header m0)" "getField (m_header m0) k = (if k = FIELD_MsgType then Inr t else Inl (FieldNotFound k))" by simp_all
qed

interpretation steady: send_frame "\<lambda>s. (s_state s, s_heartbeatInterval s) = x" for x
  by unfold_locales simp_all

lemma received_sel [simp]:
  "s_cache (received m us s) = s_cache s" "s_state (received m us s) = s_state s"
  "s_delegated (received m us s) = s_delegated s" "s_network (received m us s) = s_network s"
  "s_tick (received m us s) = Suc (s_tick s)"
  by (simp_all add: received_def)

lemma onNetworkMessage_returns:
  assumes "s_state s \<noteq> KILLING" "receive env txt s = (Inr (), s')"
  shows "onNetworkMessage env txt s = (Inr (), s')"
  using assms by (simp add: onNetworkMessage_def st_bind_apply catch_all_def)

section \<open>From one session to the other\<close>

text \<open>The parser gives the receiver the sender's fields; the three it strips are put back or dropped.\<close>

lemma parse_fitting:
  assumes "speaks env mt msg" "getField (m_header msg) FIELD_BeginString = Inr (getString BEGIN_STRING (e_settings env))"
  obtains m where "parse (parse_settings_of (e_settings env)) (e_dictionary env) (toString True msg) = Inr m"
    "shown (m_body m) = sent (m_body msg)" "getField (m_header m) FIELD_MsgType = Inr mt"
    "\<And>k. \<not> isIgnoredTag k \<Longrightarrow> getField (m_header m) k = getField (m_header msg) k"
    "getField (m_header m) FIELD_BeginString = Inr (getString BEGIN_STRING (e_settings env))"
proof -
  obtain hs where h: "sent (m_header msg) = (FIELD_MsgType, mt) # hs"
    and ok: "flat_ok (parse_settings_of (e_settings env)) (e_dictionary env) (getString BEGIN_STRING (e_settings env))
                mt hs (sent (m_body msg)) (sent (m_trailer msg))"
    and f: "flat_message msg" "length (fst (serialize_body SOH msg)) < 2147483648" "length (toString True msg) < 2147483648"
    using assms(1) by (auto simp: speaks_def split: list.splits)
  note w = toString_wire_text[OF f(1) assms(2) f(2)]
  have len: "length (wire_text (getString BEGIN_STRING (e_settings env))
      ((35, mt) # hs @ sent (m_body msg) @ sent (m_trailer msg))) < 2147483648"
    using f(3) by (simp add: w h)
  obtain m where m: "parse (parse_settings_of (e_settings env)) (e_dictionary env) (toString True msg) = Inr m"
    "shown (m_header m) = (8, getString BEGIN_STRING (e_settings env))
       # (9, dec_nat (length (fields_text ((35, mt) # hs @ sent (m_body msg) @ sent (m_trailer msg))))) # (35, mt) # hs"
    "shown (m_body m) = sent (m_body msg)"
    using parse_wire_text[OF ok len] by (auto simp: w h)
  have "getField (m_header m) k = getField (m_header msg) k" if "\<not> isIgnoredTag k" for k
    unfolding getField_sent[OF that, of "m_header msg", unfolded h]
    using that by (simp add: getField_shown m(2) isIgnoredTag_def)
  moreover have "getField (m_header m) FIELD_BeginString = Inr (getString BEGIN_STRING (e_settings env))"
    by (simp add: getField_shown m(2))
  moreover have "getField (m_header m) FIELD_MsgType = Inr mt" by (simp add: getField_shown m(2))
  ultimately show thesis using that[OF m(1,3)] by blast
qed

text \<open>A text that parses to an application message with the number \<open>n\<close>.\<close>

definition takes :: "session_env \<Rightarrow> string \<Rightarrow> message \<Rightarrow> int \<Rightarrow> bool" where
  "takes env txt m n \<longleftrightarrow>
     parse (parse_settings_of (e_settings env)) (e_dictionary env) txt = Inr m
     \<and> (\<exists>t. getField (m_header m) FIELD_MsgType = Inr t \<and> app_type t)
     \<and> getIntField (m_header m) FIELD_MsgSeqNum = Inr n"

text \<open>The milliseconds \<open>receive\<close> works with when the clock is read for the \<open>i\<close>-th time.\<close>

definition reading :: "session_env \<Rightarrow> nat \<Rightarrow> int" where
  "reading env i = cdiv (int (e_clock env i)) 1000"

text \<open>The text of a message addressed to B is taken and passes B's validation.\<close>

lemma addressed_parsed:
  assumes "speaks env mt msg"
    "getField (m_header msg) FIELD_BeginString = Inr (getString BEGIN_STRING (e_settings env))"
    "getField (m_header msg) FIELD_SenderCompID = Inr (getString TARGET_COMP_ID (e_settings env))"
    "getField (m_header msg) FIELD_TargetCompID = Inr (getString SENDER_COMP_ID (e_settings env))"
    "getField (m_header msg) FIELD_MsgSeqNum = Inr (dec_int n)" "is_int32 n"
    "getField (m_header msg) FIELD_SendingTime = Inr ts"
    "\<bar>time - parseUTCTimestamp ts\<bar> \<le> getLong SENDING_TIME_THRESHOLD (e_settings env) * 1000"
    "tryGetBool (m_header msg) FIELD_PossDupFlag \<Longrightarrow> fm_has (m_header msg) FIELD_OrigSendingTime"
  obtains m where "parse (parse_settings_of (e_settings env)) (e_dictionary env) (toString True msg) = Inr m"
    "getField (m_header m) FIELD_MsgType = Inr mt" "getIntField (m_header m) FIELD_MsgSeqNum = Inr n"
    "tryGetBool (m_header m) FIELD_PossDupFlag = tryGetBool (m_header msg) FIELD_PossDupFlag"
    "passes env m time" "shown (m_body m) = sent (m_body msg)"
proof -
  obtain m where m: "parse (parse_settings_of (e_settings env)) (e_dictionary env) (toString True msg) = Inr m"
    "shown (m_body m) = sent (m_body msg)" "getField (m_header m) FIELD_MsgType = Inr mt"
    "\<And>k. \<not> isIgnoredTag k \<Longrightarrow> getField (m_header m) k = getField (m_header msg) k"
    "getField (m_header m) FIELD_BeginString = Inr (getString BEGIN_STRING (e_settings env))"
    using parse_fitting[OF assms(1,2)] by blast
  have keep: "getField (m_header m) k = getField (m_header msg) k" if "k \<in> {34, 43, 49, 52, 56, 122}" for k
    using that by (intro m(4)) (auto simp: isIgnoredTag_def)
  have seq: "getField (m_header m) FIELD_MsgSeqNum = Inr (dec_int n)" using keep[of 34] assms(5) by simp
  then have "getIntField (m_header m) FIELD_MsgSeqNum = Inr n" using assms(6) by (simp add: getIntField_def)
  moreover have "passes env m time"
    using seq keep[of 49] keep[of 56] keep[of 52] keep[of 43] keep[of 122] m(5) assms(3,4,7-9)
    by (simp add: passes_def fm_has_getField tryGetBool_getField)
  moreover have "tryGetBool (m_header m) FIELD_PossDupFlag = tryGetBool (m_header msg) FIELD_PossDupFlag"
    using keep[of 43] by (simp add: tryGetBool_getField)
  ultimately show thesis using that m(1-3) by blast
qed

lemma addressed_taken:
  assumes "described env msg"
    "getField (m_header msg) FIELD_BeginString = Inr (getString BEGIN_STRING (e_settings env))"
    "getField (m_header msg) FIELD_SenderCompID = Inr (getString TARGET_COMP_ID (e_settings env))"
    "getField (m_header msg) FIELD_TargetCompID = Inr (getString SENDER_COMP_ID (e_settings env))"
    "getField (m_header msg) FIELD_MsgSeqNum = Inr (dec_int n)" "is_int32 n"
    "getField (m_header msg) FIELD_SendingTime = Inr ts"
    "\<bar>time - parseUTCTimestamp ts\<bar> \<le> getLong SENDING_TIME_THRESHOLD (e_settings env) * 1000"
    "tryGetBool (m_header msg) FIELD_PossDupFlag \<Longrightarrow> fm_has (m_header msg) FIELD_OrigSendingTime"
  obtains m where "takes env (toString True msg) m n" "passes env m time" "shown (m_body m) = sent (m_body msg)"
proof -
  obtain mt where mt: "speaks env mt msg" "app_type mt" using assms(1) by (auto simp: described_def split: list.splits)
  show thesis
    by (rule addressed_parsed[OF mt(1) assms(2-9)], assumption) (use that mt(2) in \<open>auto simp: takes_def\<close>)
qed

lemma one_message_arrives:
  assumes "counterparts A B" "in_step a b" "fm_wf (m_header msg)" "send A msg None a = (Inr msg', a')" "fits B msg'"
    "e_delegate B = Some (\<lambda>_. st_ret ())" "clocks_agree A B (s_tick a) (s_tick b)"
  defines "b' \<equiv> snd (onNetworkMessage B (toString True msg') b)"
  shows "handler_sent (s_network a') = handler_sent (s_network a) @ [toString True msg']"
    "\<exists>m. s_delegated b' = s_delegated b @ [OnMessage m] \<and> shown (m_body m) = sent (m_body msg)
       \<and> msg_seq m = c_senderSeqNum (s_cache a)"
    "in_step a' b'" "s_tick a' = s_tick a + 2" "s_tick b' = Suc (s_tick b)" "sendable msg'"
proof -
  let ?us = "e_clock A (s_tick a)"
  let ?t = "?us div 1000"
  let ?seq = "c_senderSeqNum (s_cache a)"
  have s: "handler_ok (s_network a)" "isConnected (s_network a)" "s_cachedEpochUs a = 0" "ts_cache_ok (s_writeTs a)"
      "is_int32 ?seq" "s_state b = READY" "c_inboundQueue (s_cache b) = []" "c_targetSeqNum (s_cache b) = ?seq"
    using assms(2) by (simp_all add: in_step_def)
  have clk: "1000000 \<le> ?us" "?us < 253402300800000000"
      "\<bar>int (e_clock B (s_tick b)) div 1000 - int ?us div 1000\<bar> \<le> getLong SENDING_TIME_THRESHOLD (e_settings B) * 1000"
    using assms(7) by (simp_all add: clocks_agree_def)
  note c = send_at[OF s(1,2,4) send_time_clock[OF s(3)] clk(1) assms(3,4)]
  have sp: "c_senderSeqNum (s_cache a') = wrap32 (?seq + 1)"
      "handler_sent (s_network a') = handler_sent (s_network a) @ [toString True msg']"
    using send_spec[OF _ s(1) assms(4)] s(2) by (simp_all add: own_callback_def)
  note h = stamped_for[OF assms(1,3) clk(1,2) _ c(6), simplified, OF s(4)]
  obtain ts where ts: "getField (m_header msg') FIELD_SendingTime = Inr ts" "parseUTCTimestamp ts = int ?t" using h(5) by blast
  obtain m where m: "takes B (toString True msg') m ?seq" "passes B m (reading B (s_tick b))" "shown (m_body m) = sent (m_body msg')"
  proof (rule addressed_taken[OF _ h(1-4) s(5) ts(1)])
    show "described B msg'" using assms(5) by (simp add: fits_def)
    show "\<bar>reading B (s_tick b) - parseUTCTimestamp ts\<bar> \<le> getLong SENDING_TIME_THRESHOLD (e_settings B) * 1000"
      using clk(3) by (simp add: ts(2) reading_def zdiv_int)
  qed (use assms(5) in \<open>simp add: fits_def\<close>)
  obtain mt where ty: "parse (parse_settings_of (e_settings B)) (e_dictionary B) (toString True msg') = Inr m"
      "getField (m_header m) FIELD_MsgType = Inr mt" "app_type mt" "getIntField (m_header m) FIELD_MsgSeqNum = Inr ?seq"
    using m(1) by (auto simp: takes_def)
  note r = receive_in_sequence[OF ty(1) m(2)[unfolded reading_def] ty(2,3) s(6,7) _ assms(6), folded b'_def]
  have r: "s_delegated b' = s_delegated b @ [OnMessage m]" "s_state b' = READY" "s_tick b' = Suc (s_tick b)"
      "c_targetSeqNum (s_cache b') = wrap32 (?seq + 1)" "c_inboundQueue (s_cache b') = []"
    using r ty(4) s(8) by simp_all
  show "s_tick b' = Suc (s_tick b)" by (rule r(3))
  show "\<exists>m. s_delegated b' = s_delegated b @ [OnMessage m] \<and> shown (m_body m) = sent (m_body msg)
       \<and> msg_seq m = c_senderSeqNum (s_cache a)"
    using r(1) m(3) h(7) ty(4) by (auto simp: msg_seq_def)
  show "in_step a' b'" using c(1-4) s(3) r sp(1) by (simp add: in_step_def)
  show "handler_sent (s_network a') = handler_sent (s_network a) @ [toString True msg']" by (rule sp(2))
  show "s_tick a' = s_tick a + 2" using c(5) by simp
  show "sendable msg'"
    using h(1) assms(5) by (auto simp: sendable_def fits_def described_def speaks_def flat_ok_def fields_ok_def good_field_def split: list.splits)
qed


section \<open>A stream of messages\<close>

text \<open>A's application sends messages one after the other; B's reader thread hands over texts one after
  the other.\<close>

fun send_each :: "session_env \<Rightarrow> message list \<Rightarrow> message list act" where
  "send_each env [] = st_ret []"
| "send_each env (m # ms) =
     st_bind (send env m None) (\<lambda>m'. st_bind (send_each env ms) (\<lambda>ms'. st_ret (m' # ms')))"

definition receive_each :: "session_env \<Rightarrow> string list \<Rightarrow> session \<Rightarrow> session" where
  "receive_each env txts s = foldl (\<lambda>s t. snd (onNetworkMessage env t s)) s txts"

lemma receive_each_simps [simp]:
  "receive_each env [] s = s"
  "receive_each env (t # ts) s = receive_each env ts (snd (onNetworkMessage env t s))"
  by (simp_all add: receive_each_def)

lemma send_each_Cons:
  assumes "send_each env (m # ms) s = (Inr ms2, s2)"
  obtains m' ms' s1 where "ms2 = m' # ms'" "send env m None s = (Inr m', s1)" "send_each env ms s1 = (Inr ms', s2)"
  using assms by (auto simp: st_bind_apply split: prod.splits sum.splits)

text \<open>A reads its clock once per message (and asks the socket once), B once per text.\<close>

definition clocks_within :: "session_env \<Rightarrow> session_env \<Rightarrow> nat \<Rightarrow> nat \<Rightarrow> nat \<Rightarrow> bool" where
  "clocks_within A B i j n \<longleftrightarrow> (\<forall>k<n. clocks_agree A B (i + 2 * k) (j + k))"

lemma clocks_within_Suc:
  "clocks_within A B i j (Suc n) \<longleftrightarrow> clocks_agree A B i j \<and> clocks_within A B (i + 2) (Suc j) n"
  unfolding clocks_within_def All_less_Suc2 by simp

lemma stream_arrives:
  assumes "counterparts A B" "e_delegate B = Some (\<lambda>_. st_ret ())" "in_step a b"
    "\<forall>m\<in>set msgs. fm_wf (m_header m)" "send_each A msgs a = (Inr msgs', a')" "list_all (fits B) msgs'"
    "clocks_within A B (s_tick a) (s_tick b) (length msgs)"
  shows "handler_sent (s_network a') = handler_sent (s_network a) @ map (toString True) msgs'
    \<and> list_all sendable msgs'
    \<and> map (shown \<circ> m_body) (delivered (receive_each B (map (toString True) msgs') b))
       = map (shown \<circ> m_body) (delivered b) @ map (sent \<circ> m_body) msgs
    \<and> in_step a' (receive_each B (map (toString True) msgs') b)"
  using assms(3-)
proof (induction msgs arbitrary: a b msgs')
  case (Cons m ms)
  obtain m' ms' a1 where s: "msgs' = m' # ms'" "send A m None a = (Inr m', a1)" "send_each A ms a1 = (Inr ms', a')"
    using send_each_Cons[OF Cons.prems(3)] by metis
  have c: "clocks_agree A B (s_tick a) (s_tick b)" "clocks_within A B (s_tick a + 2) (Suc (s_tick b)) (length ms)"
    using Cons.prems(5) by (simp_all add: clocks_within_Suc)
  have f: "fits B m'" "list_all (fits B) ms'" "fm_wf (m_header m)" using Cons.prems(2,4) s(1) by simp_all
  define b1 where "b1 = snd (onNetworkMessage B (toString True m') b)"
  note one = one_message_arrives[OF assms(1) Cons.prems(1) f(3) s(2) f(1) assms(2) c(1), folded b1_def]
  have "handler_sent (s_network a') = handler_sent (s_network a1) @ map (toString True) ms'
    \<and> list_all sendable ms'
    \<and> map (shown \<circ> m_body) (delivered (receive_each B (map (toString True) ms') b1))
       = map (shown \<circ> m_body) (delivered b1) @ map (sent \<circ> m_body) ms
    \<and> in_step a' (receive_each B (map (toString True) ms') b1)"
    using Cons.prems(2) c(2) one(4,5) f(2) s(3) by (intro Cons.IH[OF one(3)]) simp_all
  moreover obtain x where "s_delegated b1 = s_delegated b @ [OnMessage x]" "shown (m_body x) = sent (m_body m)"
    using one(2) by blast
  ultimately show ?case using one(1,6) s(1) by (simp add: delivered_def b1_def comp_def)
qed simp


text \<open>C1: what one session sends, the other's application gets. Take two sessions that are each other's
  counterparty, logged on and in step, and any list of messages that A's \<open>send\<close> takes and B's
  dictionary describes. A hands one text per message to its connection, in order. If the bytes of
  these texts reach B split over reads in any way, then B's reader cuts out texts which, passed to
  the session one after the other, make it deliver exactly these messages to the application: each
  once, in the order sent, with the fields of their bodies in place. Afterwards the two sessions are
  in step again: B expects the number that A uses next, so the statement applies to the next list.\<close>

theorem messages_arrive:
  assumes "counterparts A B" "e_delegate B = Some (\<lambda>_. st_ret ())" "in_step a b"
    "\<forall>m\<in>set msgs. fm_wf (m_header m)" "send_each A msgs a = (Inr msgs', a')" "list_all (fits B) msgs'"
    "clocks_within A B (s_tick a) (s_tick b) (length msgs)"
    "chunks \<noteq> []" "[] \<notin> set chunks" "concat chunks = concat (map (toString True) msgs')"
  shows "handler_sent (s_network a') = handler_sent (s_network a) @ map (toString True) msgs'
    \<and> (\<exists>txts. read_loop (map Bytes chunks) [] [] = (Inr txts, [])
       \<and> map (shown \<circ> m_body) (delivered (receive_each B txts b))
          = map (shown \<circ> m_body) (delivered b) @ map (sent \<circ> m_body) msgs
       \<and> in_step a' (receive_each B txts b))"
proof -
  note s = stream_arrives[OF assms(1-7)]
  then have "list_all framed (map (toString True) msgs')"
    using serialized_framed by (simp add: list_all_iff)
  from frames_all[OF this, of "[]"] assms(8-10) have "read_loop (map Bytes chunks) [] [] = (Inr (map (toString True) msgs'), [])"
    by (simp add: read_loop_frames frames_Nil)
  with s show ?thesis by auto
qed

section \<open>Two orders from A to B\<close>

definition sender_env :: session_env where
  "sender_env =
     \<lparr>e_settings = setString BEGIN_STRING ''FIX.4.2'' (setString SENDER_COMP_ID ''A'' (setString TARGET_COMP_ID ''B''
        (new_config session_defaults))),
      e_dictionary = demo_dictionary, e_delegate = None,
      e_clock = (\<lambda>n. 1000000), e_inline = (\<lambda>_. True), e_connects = (\<lambda>_. True)\<rparr>"

definition receiver_env :: session_env where
  "receiver_env = (demo_env ''acceptor'')\<lparr>e_clock := (\<lambda>n. 1000000)\<rparr>"

definition sender_session :: session where
  "sender_session = demo_ready\<lparr>s_cache := (s_cache demo_ready)\<lparr>c_senderSeqNum := 2\<rparr>\<rparr>"

definition new_order :: "string \<Rightarrow> message" where
  "new_order i = empty_message\<lparr>m_header := setFieldView 35 ''D'' False empty_fm, m_body := setFieldView 11 i False empty_fm\<rparr>"

lemma sender_env_sel [simp]:
  "getString BEGIN_STRING (e_settings sender_env) = ''FIX.4.2''" "getString SENDER_COMP_ID (e_settings sender_env) = ''A''"
  "getString TARGET_COMP_ID (e_settings sender_env) = ''B''" "e_clock sender_env n = 1000000"
  by (simp_all add: sender_env_def) code_simp+

lemma receiver_env_sel [simp]:
  "getString BEGIN_STRING (e_settings receiver_env) = ''FIX.4.2''" "getString SENDER_COMP_ID (e_settings receiver_env) = ''B''"
  "getString TARGET_COMP_ID (e_settings receiver_env) = ''A''" "e_clock receiver_env n = 1000000"
  "e_dictionary receiver_env = demo_dictionary"
  by (simp_all add: receiver_env_def demo_env_def) code_simp+

lemma digit_clean [simp]: "digit_char (n mod 10) \<noteq> SOH"
proof
  assume "digit_char (n mod 10) = SOH"
  then have "(of_char (digit_char (n mod 10)) :: nat) = of_char SOH" by simp
  then show False by simp
qed

lemma timestamp_clean:
  assumes "ts_cache_ok c" "1000 \<le> t"
  shows "SOH \<notin> set (fst (writeUTCTimestamp c t))"
proof -
  have p: "snd (refresh_cache c (t div 1000)) = utc_prefix (t div 1000)"
    using refresh_cache_ok(2)[OF assms(1), of "t div 1000"] assms(2) by (simp add: div_greater_zero_iff)
  have "SOH \<notin> set (utc_prefix s)" for s
    by (simp add: utc_prefix_def strftime_utc_def pad2_def pad4_def digit_clean[THEN not_sym])
  moreover have "SOH \<noteq> digit_char (t mod 1000 div 100)"
    using digit_clean[of "t mod 1000 div 100"] by (auto simp: less_mult_imp_div_less)
  ultimately show ?thesis
    by (auto simp: writeUTCTimestamp_def Let_def p digit_clean[THEN not_sym] dest: in_set_takeD)
qed

lemma stamped_order:
  assumes "populateMessage sender_env (new_order i) 1000 s = (Inr (n, msg'), s')"
  shows "shown (m_header msg') = [(35, ''D''), (8, ''FIX.4.2''), (49, ''A''), (56, ''B''),
     (52, fst (writeUTCTimestamp (s_writeTs s) 1000)), (34, dec_int (c_senderSeqNum (s_cache s)))]"
    "fm_groups (m_header msg') = []" "m_body msg' = setFieldView 11 i False empty_fm" "m_trailer msg' = empty_fm"
proof -
  have wf: "fm_wf (m_header (new_order i))" by (simp add: new_order_def setFieldView_wf)
  have h: "shown (m_header (new_order i)) = [(35, ''D'')]" "fm_groups (m_header (new_order i)) = []" "fm_owned (m_header (new_order i)) = []"
    by (simp_all add: new_order_def setFieldView_def insertFieldView_def shown_def)
  show "shown (m_header msg') = [(35, ''D''), (8, ''FIX.4.2''), (49, ''A''), (56, ''B''),
     (52, fst (writeUTCTimestamp (s_writeTs s) 1000)), (34, dec_int (c_senderSeqNum (s_cache s)))]" "fm_groups (m_header msg') = []"
    using populateMessage_shown[OF wf _ assms] h by simp_all
  show "m_body msg' = setFieldView 11 i False empty_fm" "m_trailer msg' = empty_fm"
    using populateMessage_stamps(7,8)[OF wf _ assms] by (simp_all add: new_order_def empty_message_def)
qed

lemma dec_int_clean: "SOH \<notin> set (dec_int n)"
  by (auto simp: dec_int_def is_digit_def dest!: dec_nat_chars split: if_splits)

lemma length_dec_nat: "length (dec_nat n) \<le> Suc n"
proof (induction n rule: dec_nat.induct)
  case (1 n)
  then show ?case by (subst dec_nat.simps) auto
qed

lemma length_wire_text: "length (wire_text v8 kvs) \<le> length v8 + 2 * length (fields_text kvs) + 14"
proof -
  have "appendTagEq 8 = ''8=''" "appendTagEq 9 = ''9=''" "appendTagEq 10 = ''10=''" by code_simp+
  moreover have "length (formatChecksum c) = 3" for c by (simp add: formatChecksum_def Let_def)
  ultimately show ?thesis
    using length_dec_nat[of "length (fields_text kvs)"] by (simp add: wire_text_def Let_def field_text_def)
qed

lemma receiver_parsing:
  "parse_settings_of (e_settings receiver_env) = \<lparr>relaxedParsing = False, validateRequired = False, reorderTags = False\<rparr>"
  by (simp add: receiver_env_def demo_env_def) code_simp

lemma char68: "char_of (68 :: nat) = CHR ''D''"
  by code_simp

text \<open>The header fields of an order as it is sent first, and as a replay sends it again.\<close>

definition order_header :: "string \<Rightarrow> string option \<Rightarrow> string \<Rightarrow> (int \<times> string) list" where
  "order_header ts orig n =
     [(49, ''A''), (56, ''B'')]
     @ (case orig of None \<Rightarrow> [(52, ts)] | Some t \<Rightarrow> [(43, ''Y''), (52, ts), (122, t)]) @ [(34, n)]"

lemma order_flat_ok:
  assumes "SOH \<notin> set ts" "\<And>t. orig = Some t \<Longrightarrow> SOH \<notin> set t" "SOH \<notin> set n" "SOH \<notin> set i"
  shows "flat_ok (parse_settings_of (e_settings receiver_env)) demo_dictionary ''FIX.4.2'' ''D'' (order_header ts orig n) [(11, i)] []"
proof -
  have g: "getMessageSpecRaw demo_dictionary ''D'' = Some (mk_spec [(11, False)] [] True [11])"
    using char68 by (simp add: getMessageSpecRaw_def demo_dictionary_def demo_bodies_def FAST_MSGTYPE_SIZE_def)
  have h: "spec_built demo_header" "gs_fields demo_header =
     [(8, True), (9, True), (35, True), (49, True), (56, True), (34, True), (43, False), (52, True),
              (122, False), (789, False), (141, False)]" "gs_groups demo_header = []"
    by (simp_all add: demo_header_def)
  have d: "d_headerSpec demo_dictionary = demo_header" "d_trailerSpec demo_dictionary = mk_spec [(10, True)] [] True [10]"
    "d_fieldTypes demo_dictionary = (\<lambda>t. if t = 9 then FT_LENGTH else FT_STRING)" for k
    by (simp_all add: demo_dictionary_def)
  show ?thesis
    unfolding flat_ok_def g using assms
    by (cases orig; simp add: order_header_def fields_ok_def good_field_def required_ok_def not_in_spec_def d h
        hasField_built findGroup_built receiver_parsing getFieldType_def MAX_FIELD_TAG_def)
qed

text \<open>A flat message of few bytes stays below the sizes that 32-bit lengths can carry.\<close>

lemma small_message:
  assumes "flat_message msg" "getField (m_header msg) FIELD_BeginString = Inr v8" "length v8 < 1000"
    "length (fields_text (sent (m_header msg) @ sent (m_body msg) @ sent (m_trailer msg))) < 3000"
  shows "length (fst (serialize_body SOH msg)) < 3000" "length (toString True msg) < 10000"
proof -
  define bytes where "bytes = fields_text (sent (m_header msg) @ sent (m_body msg) @ sent (m_trailer msg))"
  have b: "fst (serialize_body SOH msg) = bytes"
    unfolding bytes_def using assms(1) by (simp add: serialize_body_def flat_message_def case_prod_beta appendGroup_flat)
  have l: "length bytes < 3000" using assms(4) by (simp only: bytes_def)
  then show "length (fst (serialize_body SOH msg)) < 3000" by (simp add: b)
  then show "length (toString True msg) < 10000"
    using toString_wire_text[OF assms(1,2)] l assms(3) b
      length_wire_text[of v8, of "sent (m_header msg) @ sent (m_body msg) @ sent (m_trailer msg)"]
    unfolding bytes_def[symmetric] by simp
qed

lemma order_described:
  assumes "flat_message msg" "getField (m_header msg) FIELD_BeginString = Inr ''FIX.4.2''"
    "sent (m_header msg) = (35, ''D'') # order_header ts orig n" "sent (m_body msg) = [(11, i)]" "sent (m_trailer msg) = []"
    "SOH \<notin> set ts" "\<And>t. orig = Some t \<Longrightarrow> SOH \<notin> set t \<and> length t \<le> 21" "SOH \<notin> set n" "SOH \<notin> set i"
    "length ts = 21" "length n < 1000" "length i < 1000"
  shows "described receiver_env msg"
proof -
  have tags: "appendTagEq 35 = ''35=''" "appendTagEq 49 = ''49=''" "appendTagEq 56 = ''56=''" "appendTagEq 52 = ''52=''"
    "appendTagEq 34 = ''34=''" "appendTagEq 11 = ''11=''" "appendTagEq 43 = ''43=''" "appendTagEq 122 = ''122=''"
    by code_simp+
  have "length (fields_text (sent (m_header msg) @ sent (m_body msg) @ sent (m_trailer msg))) < 3000"
    unfolding assms(3-5) using assms(7,10-12)
    by (cases orig) (auto simp: order_header_def field_text_def tags)
  from small_message[OF assms(1,2) _ this]
  have l: "length (fst (serialize_body SOH msg)) < 3000" "length (toString True msg) < 10000" by simp_all
  moreover have "app_type ''D''" by (simp add: app_type_def SESSION_MSGS_def)
  ultimately show ?thesis
    using order_flat_ok[of ts orig n i] assms
    unfolding described_def speaks_def receiver_parsing receiver_env_sel by simp
qed

lemma order_fits:
  assumes "populateMessage sender_env (new_order i) 1000 s = (Inr (n, msg'), s')" "ts_cache_ok (s_writeTs s)"
    "SOH \<notin> set i" "length i < 1000" "length (dec_int (c_senderSeqNum (s_cache s))) < 1000"
  shows "fits receiver_env msg'"
proof -
  let ?ts = "fst (writeUTCTimestamp (s_writeTs s) 1000)"
  let ?n = "dec_int (c_senderSeqNum (s_cache s))"
  note h = stamped_order[OF assms(1)]
  have t: "SOH \<notin> set ?ts" "length ?ts = 21" using timestamp_clean[OF assms(2)] written_timestamp[OF assms(2), of 1000] by simp_all
  have s: "sent (m_header msg') = (35, ''D'') # order_header ?ts None ?n" "sent (m_body msg') = [(11, i)]" "sent (m_trailer msg') = []"
    by (simp_all add: sent_def h isIgnoredTag_def order_header_def) (simp_all add: shown_def setFieldView_def insertFieldView_def)
  have f: "flat_message msg'" by (simp add: flat_message_def h setFieldView_def)
  have b: "getField (m_header msg') FIELD_BeginString = Inr ''FIX.4.2''" "\<not> tryGetBool (m_header msg') FIELD_PossDupFlag"
    by (simp_all add: tryGetBool_getField getField_shown h)
  show ?thesis
    unfolding fits_def using order_described[OF f b(1) s t(1) _ dec_int_clean assms(3) t(2) assms(5,4)] b(2) by simp
qed


lemma send_order:
  assumes "s_cachedEpochUs s = 0" "handler_ok (s_network s)" "isConnected (s_network s)" "ts_cache_ok (s_writeTs s)"
    "SOH \<notin> set i" "length i < 1000" "length (dec_int (c_senderSeqNum (s_cache s))) < 1000"
  obtains m s' where "send sender_env (new_order i) None s = (Inr m, s')" "fits receiver_env m"
    "s_cachedEpochUs s' = 0" "handler_ok (s_network s')" "isConnected (s_network s')" "ts_cache_ok (s_writeTs s')"
    "c_senderSeqNum (s_cache s') = wrap32 (c_senderSeqNum (s_cache s) + 1)"
proof -
  have o: "fm_owned (m_header (new_order i)) = []" and wf: "fm_wf (m_header (new_order i))"
    by (simp_all add: new_order_def setFieldView_def setFieldView_wf[unfolded setFieldView_def])
  obtain m s' where s: "send sender_env (new_order i) None s = (Inr m, s')"
    using send_returns[of "new_order i" None s sender_env] o assms(2) by (auto simp: own_callback_def)
  note c = send_at[OF assms(2,3,4) send_time_clock[OF assms(1)] _ wf s, simplified]
  have "fits receiver_env m" using order_fits[OF c(6)] assms by simp
  moreover have "c_senderSeqNum (s_cache s') = wrap32 (c_senderSeqNum (s_cache s) + 1)"
    using send_spec[OF _ assms(2) s] by (simp add: own_callback_def)
  ultimately show thesis using that[OF s] c(1-4) assms(1) by simp
qed

lemma threshold: "getLong SENDING_TIME_THRESHOLD (demo_settings ty) = 10"
  by (simp add: demo_settings_def) code_simp

lemma messages_arrive_witness:
  "\<exists>m1 m2 a' txts. send_each sender_env [new_order ''x'', new_order ''y''] sender_session = (Inr [m1, m2], a')
     \<and> read_loop [Bytes (toString True m1 @ toString True m2)] [] [] = (Inr txts, [])
     \<and> map (shown \<circ> m_body) (delivered (receive_each receiver_env txts demo_ready)) = [[(11, ''x'')], [(11, ''y'')]]"
proof -
  have d: "dec_int 2 = ''2''" "dec_int 3 = ''3''" by code_simp+
  have a: "s_cachedEpochUs sender_session = 0" "handler_ok (s_network sender_session)" "isConnected (s_network sender_session)"
      "ts_cache_ok (s_writeTs sender_session)" "c_senderSeqNum (s_cache sender_session) = 2"
    by (simp_all add: sender_session_def) (simp_all add: demo_ready_def demo_session_def new_session_def load_session_def Let_def
        ts_cache_ok_def ts_cache0_def split: sum.splits)
  obtain m1 s1 where 1: "send sender_env (new_order ''x'') None sender_session = (Inr m1, s1)" "fits receiver_env m1"
      "s_cachedEpochUs s1 = 0" "handler_ok (s_network s1)" "isConnected (s_network s1)" "ts_cache_ok (s_writeTs s1)"
      "c_senderSeqNum (s_cache s1) = 3"
    using send_order[OF a(1-4), of "''x''"] a(5) d by (auto simp: is_int32_def)
  obtain m2 s2 where 2: "send sender_env (new_order ''y'') None s1 = (Inr m2, s2)" "fits receiver_env m2"
    by (rule send_order[OF 1(3-6), of "''y''"]) (simp_all add: 1(7) d)
  let ?ms = "[new_order ''x'', new_order ''y'']"
  have s: "send_each sender_env ?ms sender_session = (Inr [m1, m2], s2)"
    by (simp add: st_bind_apply 1(1) 2(1))
  have b: "sent (m_body (new_order i)) = [(11, i)]" for i
    by (simp add: new_order_def sent_def shown_def setFieldView_def insertFieldView_def isIgnoredTag_def)
  have thr: "getLong SENDING_TIME_THRESHOLD (e_settings receiver_env) = 10" "e_delegate receiver_env = Some (\<lambda>_. st_ret ())"
    by (simp_all add: receiver_env_def demo_env_def threshold)
  have cp: "counterparts sender_env receiver_env" by (simp add: counterparts_def)
  have st: "in_step sender_session demo_ready" using a by (simp add: in_step_def is_int32_def)
  have wf: "\<forall>m\<in>set ?ms. fm_wf (m_header m)" by (simp add: new_order_def setFieldView_wf)
  have fit: "list_all (fits receiver_env) [m1, m2]" using 1(2) 2(2) by simp
  have clk: "clocks_within sender_env receiver_env (s_tick sender_session) (s_tick demo_ready) (length ?ms)"
    by (simp add: clocks_within_def clocks_agree_def thr)
  have "list_all sendable [m1, m2]"
    using stream_arrives[OF cp thr(2) st wf s fit clk] by blast
  then have "framed (toString True m1)" by (simp add: serialized_framed)
  then have "toString True m1 \<noteq> []" by (auto simp: framed_def)
  with messages_arrive[OF cp thr(2) st wf s fit clk, of "[toString True m1 @ toString True m2]"] s b show ?thesis
    by (auto simp: delivered_def simp del: send_each.simps read_loop.simps)
qed

end
