(* ===== verification/HeaderEnd.thy ===== *)
theory HeaderEnd
  imports ParserFacts
begin

text \<open>
  Where the header ends. The parser leaves the header at the first field the header's specification
  does not know, and never comes back: whatever follows, in relaxed and strict mode, with groups and
  DATA fields, the header keeps the fields it had.
\<close>

section \<open>The parser beyond the header\<close>

text \<open>No group the parser still writes to is part of the header, whose contents are \<open>h\<close>.\<close>

definition beyond :: "field_map \<Rightarrow> parser \<Rightarrow> bool" where
  "beyond h st \<longleftrightarrow> p_msgState st \<noteq> HEADER \<and> p_header st = h \<and> (\<forall>g\<in>set (p_stack st). fst (gi_group g) \<noteq> PartHeader)"

definition outside :: "field_map \<Rightarrow> parser \<Rightarrow> bool" where
  "outside h st \<longleftrightarrow> beyond h st \<and> p_stack st \<noteq> []"

lemma assign_ref_sel [simp]:
  "p_stack (assign_ref r m st) = p_stack st" "p_msgState (assign_ref r m st) = p_msgState st"
  "fst r \<noteq> PartHeader \<Longrightarrow> p_header (assign_ref r m st) = p_header st"
  by (cases r; cases "fst r"; simp add: assign_ref_def)+

lemma ref_last_part [simp]: "fst (ref_last r tag st) = fst r"
  by (simp add: ref_last_def)

lemma outsideD: "outside h st \<Longrightarrow> i < length (p_stack st) \<Longrightarrow> fst (gi_group (p_stack st ! i)) \<noteq> PartHeader"
  by (simp add: outside_def beyond_def)

lemma outside_cur: "outside h st \<Longrightarrow> fst (gi_group (curInfo st)) \<noteq> PartHeader"
  by (simp add: outside_def beyond_def curInfo_def)

lemma beyond_same:
  "beyond h st \<Longrightarrow> p_stack st' = p_stack st \<Longrightarrow> p_msgState st' = p_msgState st \<Longrightarrow> p_header st' = p_header st \<Longrightarrow> beyond h st'"
  by (simp add: beyond_def)

lemma outside_same:
  "outside h st \<Longrightarrow> p_stack st' = p_stack st \<Longrightarrow> p_msgState st' = p_msgState st \<Longrightarrow> p_header st' = p_header st \<Longrightarrow> outside h st'"
  by (simp add: outside_def beyond_def)

lemma outside_replaced:
  "outside h st \<Longrightarrow> p_stack st' = (p_stack st)[i := g] \<Longrightarrow> fst (gi_group g) \<noteq> PartHeader \<Longrightarrow>
   p_msgState st' = p_msgState st \<Longrightarrow> p_header st' = p_header st \<Longrightarrow> outside h st'"
  using set_update_subset_insert[of "p_stack st" i g] by (auto simp: outside_def beyond_def)

lemma try_throw_Inr: "try_throw cfg msg st = Inr st' \<Longrightarrow> st' = st"
  by (simp add: try_throw_def split: if_splits)

section \<open>Each step stays beyond it\<close>

lemma validateGroup_frame:
  assumes "validateGroup cfg r s st = Inr st'"
  shows "p_stack st' = p_stack st" "p_msgState st' = p_msgState st" "fst r \<noteq> PartHeader \<Longrightarrow> p_header st' = p_header st"
  using assms by (auto simp: validateGroup_def Let_def split: if_splits elim!: sbind_InrE)

lemma overwriteStack_beyond:
  assumes "overwriteStack cfg keep st = Inr st'" "beyond h st"
  shows "beyond h st' \<and> (0 < keep \<longrightarrow> p_stack st \<noteq> [] \<longrightarrow> p_stack st' \<noteq> [])"
  using assms
proof (induction cfg keep st rule: overwriteStack.induct)
  case (1 cfg keep st)
  show ?case
  proof (cases "length (p_stack st) \<le> keep")
    case True
    then show ?thesis using "1.prems" by (simp add: overwriteStack_keep)
  next
    case False
    let ?g = "last (p_stack st)"
    obtain st1 st2 where s: "(if gi_tag ?g > 0 \<and> gi_count ?g < gi_max ?g
          then try_throw cfg (''Repeating group terminated with count less than NumInGroup (tag='' @ dec_int (gi_tag ?g) @ '')'') st
          else Inr st) = Inr st1" "validateGroup cfg (gi_group ?g) (gi_spec ?g) st1 = Inr st2"
      and rest: "overwriteStack cfg keep (st2\<lparr>p_stack := butlast (p_stack st)\<rparr>) = Inr st'"
      using "1.prems"(1) False by (subst (asm) overwriteStack.simps) (auto simp: Let_def elim!: sbind_InrE)
    have st1: "st1 = st" using s(1) by (auto split: if_splits dest: try_throw_Inr)
    have "fst (gi_group ?g) \<noteq> PartHeader" using "1.prems"(2) False last_in_set[of "p_stack st"] by (fastforce simp: beyond_def)
    then have b: "beyond h (st2\<lparr>p_stack := butlast (p_stack st)\<rparr>)"
      using validateGroup_frame[OF s(2)] "1.prems"(2) by (auto simp: beyond_def st1 dest: in_set_butlastD)
    have "beyond h st' \<and> (0 < keep \<longrightarrow> butlast (p_stack st) \<noteq> [] \<longrightarrow> p_stack st' \<noteq> [])"
      using "1.IH"[OF False refl s rest b] by simp
    moreover have "butlast (p_stack st) \<noteq> []" if "0 < keep" using that False by (cases "p_stack st" rule: rev_cases) auto
    ultimately show ?thesis by blast
  qed
qed

lemma note_length_frame:
  assumes "note_length cfg d tag val st = Inr st'"
  shows "p_stack st' = p_stack st" "p_msgState st' = p_msgState st" "p_header st' = p_header st"
  using assms by (auto simp: note_length_def Let_def split: if_splits dest!: try_throw_Inr)

lemma note_bodyLength_frame [simp]:
  "p_stack (note_bodyLength tag e st) = p_stack st" "p_msgState (note_bodyLength tag e st) = p_msgState st"
  "p_header (note_bodyLength tag e st) = p_header st"
  by (simp_all add: note_bodyLength_def)

lemma parse_setField_outside:
  assumes "parse_setField cfg d r tag val e st = Inr st'" "outside h st" "fst r \<noteq> PartHeader"
  shows "outside h st'" "length (p_stack st') = length (p_stack st)"
proof -
  obtain st1 where s: "note_length cfg d tag val st = Inr st1"
    "st' = assign_ref r (setFieldView tag val False (deref r (note_bodyLength tag e st1))) (note_bodyLength tag e st1)"
    using assms(1) by (auto simp: parse_setField_def Let_def elim!: sbind_InrE)
  with note_length_frame[OF s(1)] assms(2,3)
  show "outside h st'" "length (p_stack st') = length (p_stack st)" by (auto intro: outside_same)
qed

lemma handleRepeatingTag_outside:
  assumes "handleRepeatingTag cfg d g i tag val st = Inr (idx, st')" "outside h st" "fst (gi_group g) \<noteq> PartHeader"
    "i < length (p_stack st) \<or> gi_tag g \<le> 0"
  shows "outside h st'" "length (p_stack st') = length (p_stack st)"
proof -
  have "outside h st' \<and> length (p_stack st') = length (p_stack st)"
  proof (cases "gi_tag g > 0 \<and> gi_count g \<noteq> gi_max g")
    case True
    obtain st1 where v: "validateGroup cfg (gi_group g) (gi_spec g) st = Inr st1"
      using assms(1) True by (auto simp: handleRepeatingTag_def elim!: sbind_InrE)
    note f = validateGroup_frame[OF v]
    let ?p = "gi_group (p_stack st ! (i - 1))"
    have p: "fst ?p \<noteq> PartHeader" using outsideD[OF assms(2), of "i - 1"] assms(4) True by simp
    obtain g' where "p_stack st' = (p_stack st)[i := g']" "fst (gi_group g') \<noteq> PartHeader" "p_msgState st' = p_msgState st"
      "p_header st' = p_header st"
    proof
      show "p_stack st' = (p_stack st)[i := p_stack st' ! i]"
        using assms(1,4) True f by (auto simp: handleRepeatingTag_def v Let_def)
      show "fst (gi_group (p_stack st' ! i)) \<noteq> PartHeader"
        using assms(1,4) True f p by (auto simp: handleRepeatingTag_def v Let_def)
      show "p_msgState st' = p_msgState st" using assms(1) True f by (auto simp: handleRepeatingTag_def v Let_def)
      show "p_header st' = p_header st" using assms(1,3) True f p by (auto simp: handleRepeatingTag_def v Let_def)
    qed
    then show ?thesis using outside_replaced[OF assms(2)] by simp
  next
    case False
    then show ?thesis
      using assms(1,2) by (auto simp: handleRepeatingTag_def split: if_splits dest!: try_throw_Inr)
  qed
  then show "outside h st'" "length (p_stack st') = length (p_stack st)" by simp_all
qed

lemma trySetField_outside:
  assumes "trySetField cfg d g i tag val e st = Inr (idx, st')" "outside h st" "fst (gi_group g) \<noteq> PartHeader"
    "i < length (p_stack st) \<or> gi_tag g \<le> 0"
  shows "outside h st'" "length (p_stack st) \<le> length (p_stack st')"
proof -
  have "outside h st' \<and> length (p_stack st) \<le> length (p_stack st')"
  proof (cases "hasField (gi_spec g) tag")
    case True
    obtain m dup where m: "setFieldViewOrDetectDup tag val (deref (gi_group g) st) = (m, dup)" by force
    show ?thesis
    proof (cases dup)
      case True
      then have "handleRepeatingTag cfg d g i tag val st = Inr (idx, st')"
        using assms(1) m \<open>hasField (gi_spec g) tag\<close> by (simp add: trySetField_def)
      from handleRepeatingTag_outside[OF this assms(2-4)] show ?thesis by simp
    next
      case False
      then obtain st1 where n: "note_length cfg d tag val (assign_ref (gi_group g) m st) = Inr st1" "st' = note_bodyLength tag e st1"
        using assms(1) m True by (auto simp: trySetField_def elim!: sbind_InrE)
      show ?thesis using note_length_frame[OF n(1)] assms(2,3) n(2) by (auto intro: outside_same)
    qed
  next
    case False
    note spec = this
    show ?thesis
    proof (cases "findGroup (gi_spec g) tag")
      case None
      then show ?thesis using assms(1,2) False by (simp add: trySetField_def)
    next
      case (Some gs)
      show ?thesis
      proof (cases "getGroupCount (deref (gi_group g) st) tag > 0")
        case True
        then have "handleRepeatingTag cfg d g i tag val st = Inr (idx, st')"
          using assms(1) False Some by (simp add: trySetField_def)
        from handleRepeatingTag_outside[OF this assms(2-4)] show ?thesis by simp
      next
        case False
        show ?thesis
        proof (cases "fastParseTag val < 0")
          case True
          then show ?thesis using assms(1,2) spec False Some by (auto simp: trySetField_def Let_def dest!: try_throw_Inr)
        next
          case parsed: False
          define st1 where "st1 = assign_ref (gi_group g) (addGroup tag (deref (gi_group g) st)) st"
          define new where "new = \<lparr>gi_spec = gs, gi_group = ref_last (gi_group g) tag st1, gi_tag = tag,
              gi_count = 1, gi_max = nat (fastParseTag val)\<rparr>"
          have p: "parse_setField cfg d (gi_group g) tag val e (st1\<lparr>p_stack := p_stack st1 @ [new]\<rparr>) = Inr st'"
            using assms(1) spec Some False parsed
            by (auto simp: trySetField_def Let_def st1_def new_def split: if_splits elim!: sbind_InrE)
          have "outside h (st1\<lparr>p_stack := p_stack st1 @ [new]\<rparr>)"
            using assms(2,3) by (auto simp: outside_def beyond_def st1_def new_def)
          from parse_setField_outside[OF p this assms(3)] show ?thesis by (simp add: st1_def)
        qed
      qed
    qed
  qed
  then show "outside h st'" "length (p_stack st) \<le> length (p_stack st')" by simp_all
qed

lemma try_levels_outside:
  assumes "try_levels cfg d tag val e j st = Inr (idx, st')" "outside h st" "j \<le> length (p_stack st)"
  shows "outside h st'"
  using assms
proof (induction j arbitrary: st)
  case (Suc j)
  obtain i st1 where s: "trySetField cfg d (p_stack st ! j) j tag val e st = Inr (i, st1)"
    and r: "(case i of Some n \<Rightarrow> Inr (Some n, st1) | None \<Rightarrow> try_levels cfg d tag val e j st1) = Inr (idx, st')"
    using Suc.prems(1) by (auto elim!: sbind_InrE)
  have j: "j < length (p_stack st)" using Suc.prems(3) by simp
  have "fst (gi_group (p_stack st ! j)) \<noteq> PartHeader" by (rule outsideD[OF Suc.prems(2) j])
  note t = trySetField_outside[OF s Suc.prems(2) this disjI1[OF j]]
  show ?case
  proof (cases i)
    case None
    then show ?thesis using r t j by (intro Suc.IH[of st1]) simp_all
  qed (use r t in simp)
qed simp

lemma try_trailer_outside:
  assumes "try_trailer cfg d tag val e st = Inr (idx, st')" "outside h st"
  shows "outside h st'"
proof -
  let ?t = "root_info (d_trailerSpec d) PartTrailer"
  obtain i st1 where s: "trySetField cfg d ?t 0 tag val e st = Inr (i, st1)"
    and r: "(case i of None \<Rightarrow> Inr (None, st1)
        | Some newIdx \<Rightarrow> sbind (validateGroup cfg (gi_group (p_stack st1 ! 0)) (gi_spec (p_stack st1 ! 0)) st1)
            (\<lambda>st. sbind (overwriteStack cfg (Suc newIdx) (st\<lparr>p_msgState := TRAILER, p_stack := (p_stack st)[0 := ?t]\<rparr>))
              (\<lambda>st. Inr (Some newIdx, st)))) = Inr (idx, st')"
    using assms(1) unfolding try_trailer_def Let_def by (auto elim!: sbind_InrE)
  note t = trySetField_outside[OF s assms(2), simplified]
  show ?thesis
  proof (cases i)
    case (Some n)
    then obtain st2 where v: "validateGroup cfg (gi_group (p_stack st1 ! 0)) (gi_spec (p_stack st1 ! 0)) st1 = Inr st2"
      and o: "overwriteStack cfg (Suc n) (st2\<lparr>p_msgState := TRAILER, p_stack := (p_stack st2)[0 := ?t]\<rparr>) = Inr st'"
      using r by (auto elim!: sbind_InrE)
    have ne: "p_stack st1 \<noteq> []" using t(1) by (simp add: outside_def)
    have "fst (gi_group (p_stack st1 ! 0)) \<noteq> PartHeader" using outsideD[OF t(1), of 0] ne by simp
    note f = validateGroup_frame(1,2)[OF v] validateGroup_frame(3)[OF v this]
    have "outside h (st2\<lparr>p_msgState := p_msgState st1, p_stack := (p_stack st2)[0 := ?t]\<rparr>)"
      by (rule outside_replaced[OF t(1), where i = 0 and g = ?t]) (simp_all add: f)
    then have "beyond h (st2\<lparr>p_msgState := TRAILER, p_stack := (p_stack st2)[0 := ?t]\<rparr>)"
      by (simp add: outside_def beyond_def)
    from overwriteStack_beyond[OF o this] f ne show ?thesis by (simp add: outside_def)
  qed (use r t in simp)
qed

lemma body_or_trailer_outside:
  assumes "body_or_trailer cfg d tag val e st = Inr st'" "outside h st"
  shows "outside h st'"
proof -
  have u: "outside h x'" if "unknown_field cfg d tag val e x = Inr x'" "outside h x" for x x'
    using parse_setField_outside(1)[OF that(1)[unfolded unknown_field_def] that(2) outside_cur[OF that(2)]] .
  show ?thesis
  proof (cases "p_msgState st = BODY")
    case True
    then obtain i st1 where s: "try_trailer cfg d tag val e st = Inr (i, st1)"
      and r: "(case i of Some _ \<Rightarrow> Inr st1 | None \<Rightarrow> unknown_field cfg d tag val e st1) = Inr st'"
      using assms(1) by (auto simp: body_or_trailer_def elim!: sbind_InrE)
    show ?thesis using try_trailer_outside[OF s assms(2)] r u by (cases i) auto
  next
    case False
    then show ?thesis using assms u by (simp add: body_or_trailer_def)
  qed
qed

lemma dispatchField_outside:
  assumes "dispatchField cfg d tag val e st = Inr st'" "outside h st"
  shows "outside h st'"
proof -
  have l: "outside h x'" if "leave_header cfg d tag val e x = Inr x'" "outside h x" for x x'
    using that body_or_trailer_outside[of cfg d tag val e x x' h] by (simp add: leave_header_def outside_def beyond_def)
  show ?thesis
  proof (cases "spec_empty (gi_spec (curInfo st))")
    case True
    then show ?thesis using assms l by (simp add: dispatchField_def)
  next
    case False
    then obtain i st1 where s: "try_levels cfg d tag val e (length (p_stack st)) st = Inr (i, st1)"
      and r: "(case i of Some n \<Rightarrow> overwriteStack cfg (Suc n) st1 | None \<Rightarrow> leave_header cfg d tag val e st1) = Inr st'"
      using assms(1) by (auto simp: dispatchField_def elim!: sbind_InrE)
    note t = try_levels_outside[OF s assms(2) order_refl]
    show ?thesis
    proof (cases i)
      case (Some n)
      then have "overwriteStack cfg (Suc n) st1 = Inr st'" using r by simp
      from overwriteStack_beyond[OF this, of h] t show ?thesis by (simp add: outside_def)
    qed (use r t l in auto)
  qed
qed

lemma take_data_outside:
  assumes "take_data cfg tag after st = Inr st'" "outside h st"
  shows "outside h st'"
  using assms outside_cur[OF assms(2)] by (auto simp: take_data_def Let_def split: if_splits intro: outside_same)

section \<open>The whole loop\<close>

lemma check_first_Inr: "check_first_fields cfg tag st = Inr st' \<Longrightarrow> st' = st"
  by (auto simp: check_first_fields_def split: if_splits dest: try_throw_Inr)

lemma parse_loop_outside:
  assumes "parse_loop cfg d text rest st = Inr st'" "outside h st"
  shows "outside h st'"
  using assms
proof (induction "length rest" arbitrary: rest st rule: less_induct)
  case less
  note eq = less.prems(1)[unfolded parse_loop.simps[of cfg d "text" rest]]
  show ?case
  proof (cases "rest = [] \<or> break_at EQCH rest = None")
    case True
    then show ?thesis using eq less.prems(2) by (auto dest: try_throw_Inr split: if_splits)
  next
    case False
    then obtain t after where ta: "break_at EQCH rest = Some (t, after)" "rest \<noteq> []" by auto
    define s1 where "s1 = bump (st\<lparr>p_tag := fastParseTag t\<rparr>)"
    have o: "outside h s1" "outside h (s1\<lparr>p_dataLength := -1\<rparr>)"
      using less.prems(2) by (auto simp: s1_def bump_def intro: outside_same)
    have shorter: "length after < length rest" using break_at_shorter ta(1) by fastforce
    have IH: "outside h st'" if "parse_loop cfg d text r s = Inr st'" "outside h s" "length r \<le> length after" for r s
      using less.hyps[OF _ that(1,2)] that(3) shorter by simp
    have IH': "outside h st'" if "parse_loop cfg d text r s = Inr st'" "outside h s" "break_at SOH after = Some (v, r)" for r s v
      using IH[OF that(1,2)] break_at_shorter[OF that(3)] by simp
    show ?thesis
    proof (cases "fastParseTag t < 0")
      case True
      then show ?thesis using eq ta o(1) IH'
        by (auto simp: Let_def s1_def elim!: sbind_InrE split: option.splits prod.splits dest!: try_throw_Inr)
    next
      case False
      have step: "(if p_dataLength s1 \<ge> 0 \<and> getFieldType d (fastParseTag t) = FT_DATA
          then sbind (take_data cfg (fastParseTag t) after s1)
                 (\<lambda>st'. parse_loop cfg d text (drop (Suc (nat (p_dataLength s1))) after) st')
          else case break_at SOH after of
                 None \<Rightarrow> try_throw cfg ''Message does not end in SOH character'' (s1\<lparr>p_dataLength := -1\<rparr>)
               | Some (v, r) \<Rightarrow> sbind (dispatchField cfg d (fastParseTag t) v (length text - length r - 1) (s1\<lparr>p_dataLength := -1\<rparr>))
                   (\<lambda>st. parse_loop cfg d text r st)) = Inr st'"
        using eq ta False
        by (auto simp: Let_def simp flip: s1_def elim!: sbind_InrE dest!: check_first_Inr)
      show ?thesis
      proof (cases "p_dataLength s1 \<ge> 0 \<and> getFieldType d (fastParseTag t) = FT_DATA")
        case True
        then obtain s2 where "take_data cfg (fastParseTag t) after s1 = Inr s2"
            "parse_loop cfg d text (drop (Suc (nat (p_dataLength s1))) after) s2 = Inr st'"
          using step by (auto elim!: sbind_InrE)
        then show ?thesis using IH take_data_outside[OF _ o(1)] by simp
      next
        case notdata: False
        show ?thesis
        proof (cases "break_at SOH after")
          case None
          then show ?thesis using step notdata o(2) by (auto dest!: try_throw_Inr)
        next
          case (Some vr)
          obtain v r where vr: "break_at SOH after = Some (v, r)" using Some by (cases vr) auto
          obtain s2 where "dispatchField cfg d (fastParseTag t) v (length text - length r - 1) (s1\<lparr>p_dataLength := -1\<rparr>) = Inr s2"
              "parse_loop cfg d text r s2 = Inr st'"
            using step notdata vr by (auto elim!: sbind_InrE)
          then show ?thesis using IH'[OF _ _ vr] dispatchField_outside[OF _ o(2)] by simp
        qed
      qed
    qed
  qed
qed

lemma overwriteStack_root_Inr:
  assumes "overwriteStack cfg 0 st = Inr st'" "p_stack st = [root_info s p]" "\<not> reorderTags cfg"
  shows "st' = (part_set p (setSpec (Some s) (part_get p st)) st)\<lparr>p_stack := []\<rparr>"
proof -
  obtain st1 where v: "validateGroup cfg (p, []) s st = Inr st1" and o: "overwriteStack cfg 0 (st1\<lparr>p_stack := []\<rparr>) = Inr st'"
    using assms(1,2) by (subst (asm) overwriteStack.simps) (auto simp: Let_def elim!: sbind_InrE)
  have "st1 = part_set p (setSpec (Some s) (part_get p st)) st"
    using v assms(3) by (auto simp: validateGroup_def Let_def split: if_splits elim!: sbind_InrE)
  then show ?thesis using o by (simp add: overwriteStack_keep)
qed

text \<open>After the first field that the header's specification does not know, the header is what it was.\<close>

lemma header_ends:
  assumes "\<not> reorderTags cfg" "fields_ok d (d_headerSpec d) ((8, v8) # (35, mt) # hs)"
    "hasField (d_headerSpec d) 9" "good_field d (9, v9)"
    "good_field d (k, v)" "not_in_spec (d_headerSpec d) k"
    "text = fields_text ((8, v8) # (9, v9) # (35, mt) # hs) @ field_text (k, v) @ rest" "length text < 2147483648"
    "parse cfg d text = Inr m"
  shows "shown (m_header m) = (8, v8) # (9, v9) # (35, mt) # hs"
proof -
  let ?hs = "d_headerSpec d" and ?r = "field_text (k, v) @ rest"
  let ?H = "(8, v8) # (9, v9) # (35, mt) # hs"
  obtain st where st: "parse_loop cfg d text text (start_parser d) = parse_loop cfg d text ?r st"
      "inside PartHeader ?hs HEADER (push_all ?H empty_fm, empty_fm, empty_fm) (int (length (fields_text [(8, v8), (9, v9)]))) st"
    using parse_header[OF assms(7,8,2,3,4), of cfg] by blast
  have "distinct (map fst ?H)" using assms(2) by (auto simp: fields_ok_def)
  note ph = seen_ok_push_all_empty[OF this]
  let ?at = "at_field k st"
  have at: "p_stack ?at = [root_info ?hs PartHeader]" "p_msgState ?at = HEADER" "p_header ?at = push_all ?H empty_fm"
    "first_ok (p_tagCount st) k"
    using st(2) by (simp_all add: inside_def at_field_def first_ok_def)
  define e where "e = length text - length rest - 1"
  obtain st1 st2 where d1: "dispatchField cfg d k v e ?at = Inr st1" and l: "parse_loop cfg d text rest st1 = Inr st2"
    and f: "finish_parse cfg text st2 = Inr m"
    using assms(9) parse_loop_field[OF assms(5) at(4), of cfg "text" rest, folded e_def] st(1) by (auto simp: parse_def elim!: sbind_InrE)
  obtain sb where en: "enter_body cfg d ?at = Inr sb" and t: "sbind (trySetField cfg d (p_stack sb ! 0) 0 k v e sb)
      (\<lambda>(idx, st). case idx of Some _ \<Rightarrow> Inr st | None \<Rightarrow> body_or_trailer cfg d k v e st) = Inr st1"
    using d1 at(2) dispatch_leaves_root[OF at(1) assms(6), of cfg d v e] by (auto simp: leave_header_def elim!: sbind_InrE)
  obtain s0 where o: "overwriteStack cfg 0 ?at = Inr s0" and s0: "\<exists>s. sb = s0\<lparr>p_stack := p_stack s0 @ [root_info s PartBody], p_msgState := BODY\<rparr>"
    using en unfolding enter_body_def by (fastforce elim!: sbind_InrE split: option.splits)
  have "p_header s0 = setSpec (Some ?hs) (p_header ?at) \<and> p_stack s0 = []"
    using overwriteStack_root_Inr[OF o at(1) assms(1)] by simp
  then have sb: "outside (setSpec (Some ?hs) (push_all ?H empty_fm)) sb" "gi_tag (p_stack sb ! 0) = 0"
      "fst (gi_group (p_stack sb ! 0)) \<noteq> PartHeader"
    using s0 at(3) by (auto simp: outside_def beyond_def)
  have st1: "outside (setSpec (Some ?hs) (push_all ?H empty_fm)) st1"
    using t sb(2) trySetField_outside(1)[OF _ sb(1,3)] body_or_trailer_outside
    by (auto elim!: sbind_InrE split: option.splits)
  have st2: "beyond (setSpec (Some ?hs) (push_all ?H empty_fm)) st2"
    using parse_loop_outside[OF l st1] by (simp add: outside_def)
  obtain st3 where s3: "overwriteStack cfg 0 st2 = Inr st3" "m_header m = p_header st3"
    using f by (auto simp: finish_parse_def elim!: sbind_InrE)
  have "p_header st3 = setSpec (Some ?hs) (push_all ?H empty_fm)"
    using overwriteStack_beyond[OF s3(1) st2] by (simp add: beyond_def)
  then show ?thesis using s3(2) ph(4) by simp
qed

end
