(* ===== verification/Handshake.thy ===== *)
theory Handshake
  imports EndToEnd HeaderEnd
begin

text \<open>
  How two sessions log on: the initiator's update sends a Logon, the acceptor answers it with its own,
  and both are past logon. The texts travel as in \<open>EndToEnd\<close>; what is new here is the Logon that
  \<open>sendLogon\<close> creates, and the branch of \<open>handleLogon\<close> that accepts it.
\<close>

section \<open>The Logon that is sent\<close>

text \<open>The message \<open>sendLogon\<close> creates when it does not reset: \<open>hb\<close> is the heartbeat interval in
  milliseconds, \<open>next\<close> the number the session expects.\<close>

abbreviation names_next :: "session_env \<Rightarrow> bool" where
  "names_next env \<equiv> getBool SEND_NEXT_EXPECTED_MSG_SEQ_NUM (e_settings env)"

definition logon_message :: "session_env \<Rightarrow> int \<Rightarrow> int \<Rightarrow> exn + message" where
  "logon_message env hb next =
     sbind (create (e_dictionary env) MSG_LOGON) (\<lambda>m0.
     sbind (setField FIELD_HeartBtInt (dec_int (wrap32 (cdiv hb 1000))) True (m_body m0)) (\<lambda>b1.
     sbind (setField FIELD_EncryptMethod ''0'' True b1) (\<lambda>b2.
     let m = m0\<lparr>m_body := b2\<rparr>
     in if names_next env
        then sbind (setField FIELD_NextExpectedMsgSeqNum (dec_int next) True (m_header m)) (\<lambda>h. Inr (m\<lparr>m_header := h\<rparr>))
        else Inr m)))"

text \<open>The same message, as a session sends it at a time in milliseconds.\<close>

definition stamped_logon :: "session_env \<Rightarrow> int \<Rightarrow> int \<Rightarrow> int \<Rightarrow> session \<Rightarrow> exn + message" where
  "stamped_logon env hb next t s =
     sbind (logon_message env hb next) (\<lambda>m.
     sbind (fst (populateMessage env m t s)) (\<lambda>(n, m'). Inr m'))"

lemma logon_message_fields:
  assumes "logon_message env hb next = Inr m"
  shows "getField (m_body m) k = (if k = FIELD_EncryptMethod then Inr ''0''
      else if k = FIELD_HeartBtInt then Inr (dec_int (wrap32 (cdiv hb 1000))) else Inl (FieldNotFound k))"
    "fm_wf (m_header m)" "k \<notin> {FIELD_MsgType, FIELD_NextExpectedMsgSeqNum} \<Longrightarrow> getField (m_header m) k = Inl (FieldNotFound k)"
    "fst ` set (fm_owned (m_header m)) \<subseteq> {FIELD_MsgType, FIELD_NextExpectedMsgSeqNum}" "length (fm_owned (m_header m)) \<le> 2"
    "16 \<le> fm_ownedCap (m_header m)"
proof -
  obtain m0 b1 b2 h where m: "create (e_dictionary env) MSG_LOGON = Inr m0"
    "setField FIELD_HeartBtInt (dec_int (wrap32 (cdiv hb 1000))) True (m_body m0) = Inr b1"
    "setField FIELD_EncryptMethod ''0'' True b1 = Inr b2"
    "(if names_next env then setField FIELD_NextExpectedMsgSeqNum (dec_int next) True (m_header m0) else Inr (m_header m0)) = Inr h"
    "m_header m = h" "m_body m = b2"
    using assms by (cases "names_next env") (auto simp: logon_message_def Let_def elim!: sbind_InrE)
  note c = created_body[OF m(1)]
  have e: "getField (m_body m0) k = Inl (FieldNotFound k)" for k by (simp add: getField_map_of c)
  have "\<not> fm_has (m_body m0) FIELD_HeartBtInt" by (simp add: fm_has_getField e)
  note b1 = setField_absent[OF c(3) m(2) this, unfolded e]
  have "\<not> fm_has b1 FIELD_EncryptMethod" by (simp add: fm_has_getField b1(2))
  note b2 = setField_absent[OF b1(1) m(3) this, unfolded b1(2)]
  show "getField (m_body m) k = (if k = FIELD_EncryptMethod then Inr ''0''
      else if k = FIELD_HeartBtInt then Inr (dec_int (wrap32 (cdiv hb 1000))) else Inl (FieldNotFound k))"
    using b2(2)[of k] m(6) by simp
  note ch = created_header[OF m(1)] create_header[OF m(1)]
  have "\<not> fm_has (m_header m0) FIELD_NextExpectedMsgSeqNum" by (simp add: fm_has_getField ch(2))
  note h = setField_absent[OF ch(1) _ this]
  show "fm_wf (m_header m)" "k \<notin> {FIELD_MsgType, FIELD_NextExpectedMsgSeqNum} \<Longrightarrow> getField (m_header m) k = Inl (FieldNotFound k)"
    using h m(4,5) ch(1,2) by (auto split: if_splits)
  have "fst ` set (fm_owned h) \<subseteq> {FIELD_MsgType, FIELD_NextExpectedMsgSeqNum} \<and> length (fm_owned h) \<le> 2 \<and> 16 \<le> fm_ownedCap h"
    using setField_fits[of "m_header m0" FIELD_NextExpectedMsgSeqNum "dec_int next" True] ch(3-5) m(4) by (auto split: if_splits)
  then show "fst ` set (fm_owned (m_header m)) \<subseteq> {FIELD_MsgType, FIELD_NextExpectedMsgSeqNum}" "length (fm_owned (m_header m)) \<le> 2"
    "16 \<le> fm_ownedCap (m_header m)" using m(5) by simp_all
qed

lemma populateMessage_depends:
  assumes "t \<noteq> 0" "c_senderSeqNum (s_cache s1) = c_senderSeqNum (s_cache s2)" "s_writeTs s1 = s_writeTs s2"
  shows "fst (populateMessage env m t s1) = fst (populateMessage env m t s2)"
  using assms
  by (auto simp: populateMessage_def st_bind_apply getSenderSeqNum_def writeTimestamp_def Let_def split: prod.split sum.split)

lemma stamped_logon_depends:
  assumes "t \<noteq> 0" "c_senderSeqNum (s_cache s1) = c_senderSeqNum (s_cache s2)" "s_writeTs s1 = s_writeTs s2"
  shows "stamped_logon env hb next t s1 = stamped_logon env hb next t s2"
  using populateMessage_depends[OF assms] by (simp add: stamped_logon_def)

lemma sendLogon_logon_message:
  assumes "logon_message env (s_heartbeatInterval s) (c_targetSeqNum (s_cache s)) = Inr m"
  shows "sendLogon env False s = st_seq (send_only env None m)
    (st_bind (getEpochMillis env) (\<lambda>t. st_mod (\<lambda>s. s\<lparr>s_lastLogon := t\<rparr>))) s"
  using assms
  by (cases "names_next env")
     (auto simp: sendLogon_def logon_message_def Let_def createMessage_def set_body_def set_header_def getTargetSeqNum_def st_bind_apply elim!: sbind_InrE)

definition ready_to_send :: "session \<Rightarrow> bool" where
  "ready_to_send s \<longleftrightarrow> handler_ok (s_network s) \<and> isConnected (s_network s) \<and> ts_cache_ok (s_writeTs s)"

lemma sendLogon_sends:
  assumes "ready_to_send s" "send_time env s = (Inr (int us), s\<lparr>s_tick := k\<rparr>)" "1000000 \<le> us"
    "stamped_logon env (s_heartbeatInterval s) (c_targetSeqNum (s_cache s)) (int us div 1000) s = Inr lm"
  obtains s' where "sendLogon env False s = (Inr (), s')"
    "handler_sent (s_network s') = handler_sent (s_network s) @ [toString True lm]"
    "ready_to_send s'" "s_cachedEpochUs s' = s_cachedEpochUs s" "s_tick s' = Suc (Suc k)"
    "c_senderSeqNum (s_cache s') = wrap32 (c_senderSeqNum (s_cache s) + 1)"
    "inbound s' = inbound s" "s_state s' = s_state s" "s_heartbeatInterval s' = s_heartbeatInterval s"
proof -
  have r: "handler_ok (s_network s)" "isConnected (s_network s)" "ts_cache_ok (s_writeTs s)"
    using assms(1) by (simp_all add: ready_to_send_def)
  have t: "int us div 1000 \<noteq> 0" using assms(3) by auto
  obtain m0 n where m: "logon_message env (s_heartbeatInterval s) (c_targetSeqNum (s_cache s)) = Inr m0"
    and lm: "fst (populateMessage env m0 (int us div 1000) s) = Inr (n, lm)"
    using assms(4) by (auto simp: stamped_logon_def elim!: sbind_InrE)
  note l = logon_message_fields[OF m]
  have "FIELD_SendingTime \<notin> fst ` set (fm_owned (m_header m0))" "FIELD_MsgSeqNum \<notin> fst ` set (fm_owned (m_header m0))"
    using l(4) by auto
  from send_returns[OF _ this, of None s env] obtain lm' s1 where s1: "send env m0 None s = (Inr lm', s1)"
    using l(5,6) r(1) by (auto simp: own_callback_def)
  note a = send_at[OF r assms(2,3) l(2) s1]
  have "lm' = lm" using a(6) lm populateMessage_depends[OF t, of "s\<lparr>s_tick := k\<rparr>" s env m0] by simp
  note sp = send_spec[OF _ r(1) s1, simplified own_callback_def, simplified]
  let ?s' = "s1\<lparr>s_tick := Suc (s_tick s1), s_lastLogon := int (e_clock env (s_tick s1) div 1000)\<rparr>"
  have e: "sendLogon env False s = (Inr (), ?s')"
    unfolding sendLogon_logon_message[OF m]
    by (simp add: st_seq_apply st_bind_apply send_only_def s1 getEpochMillis_def ask_def)
  show thesis
  proof (rule that[OF e])
    show "inbound ?s' = inbound s" using st_keepsD[OF inbound.keeps_sendLogon, of s "inbound s" env False] e by simp
    show "s_state ?s' = s_state s" "s_heartbeatInterval ?s' = s_heartbeatInterval s"
      using st_keepsD[OF steady.keeps_sendLogon, of s "(s_state s, s_heartbeatInterval s)" env False] e by simp_all
  qed (use a(1-5) sp r(2) \<open>lm' = lm\<close> in \<open>simp_all add: ready_to_send_def\<close>)
qed

section \<open>The Logon that is received\<close>

definition plain_logon :: "message \<Rightarrow> bool" where
  "plain_logon m \<longleftrightarrow> (\<forall>k\<in>{141, 464, 789}. getField (m_body m) k = Inl (FieldNotFound k))"

lemma logon_processed:
  assumes "passes env m time" "getField (m_header m) FIELD_MsgType = Inr MSG_LOGON"
    "getIntField (m_header m) FIELD_MsgSeqNum = Inr (c_targetSeqNum (s_cache s))" "s_state s = LOGON"
    "plain_logon m" "\<not> getBool IS_TEST (e_settings env)"
  shows "processMessage env m time s =
    finish_logon env m (c_targetSeqNum (s_cache s)) (c_targetSeqNum (s_cache s)) None False s"
proof -
  have b: "\<not> tryGetBool (m_body m) 464" "\<not> tryGetBool (m_body m) 141" "\<not> fm_has (m_body m) 789"
    using assms(5) by (simp_all add: plain_logon_def tryGetBool_getField fm_has_getField)
  have v: "validateMessage env m MSG_LOGON time s = (Inr True, s)"
    using assms(1,4) by (intro validateMessage_passes) simp_all
  have "processMessage env m time s = handleLogon env m s"
    by (simp add: processMessage_def st_bind_apply assms(2) v)
  also have "\<dots> = finish_logon env m (c_targetSeqNum (s_cache s)) (c_targetSeqNum (s_cache s)) None False s"
    using b assms(3,6)
    by (simp add: handleLogon_def st_bind_apply getTargetSeqNum_def getSenderSeqNum_def check_next_expected_def)
  finally show ?thesis .
qed

lemma logon_received:
  assumes "parse (parse_settings_of (e_settings env)) (e_dictionary env) txt = Inr m"
    "passes env m (reading env (s_tick s))" "getField (m_header m) FIELD_MsgType = Inr MSG_LOGON"
    "getIntField (m_header m) FIELD_MsgSeqNum = Inr (c_targetSeqNum (s_cache s))" "s_state s = LOGON"
    "plain_logon m" "\<not> getBool IS_TEST (e_settings env)"
    "finish_logon env m (c_targetSeqNum (s_cache s)) (c_targetSeqNum (s_cache s)) None False
      (received m (int (e_clock env (s_tick s))) s) = (Inr (), s')" "c_inboundQueue (s_cache s') = []"
  shows "onNetworkMessage env txt s = (Inr (), s'\<lparr>s_cachedEpochUs := 0\<rparr>)"
proof -
  let ?us = "int (e_clock env (s_tick s))"
  have "processMessage env m (cdiv ?us 1000) (received m ?us s) = (Inr (), s')"
    using logon_processed[OF _ assms(3) _ _ assms(6,7), of "cdiv ?us 1000" "received m ?us s"] assms(2,4,5,8)
    by (simp add: reading_def)
  then have "receive env txt s = (Inr (), s'\<lparr>s_cachedEpochUs := 0\<rparr>)"
    by (simp add: receive_parsed[OF assms(1) refl] st_seq_apply st_bind_apply assms(9) set_cachedEpoch_def)
  then show ?thesis using assms(5) by (intro onNetworkMessage_returns) simp_all
qed

text \<open>The end of \<open>handleLogon\<close> on either side.\<close>

lemma finish_initiator:
  assumes "getSessionType (e_settings env) = Inr INITIATOR" "e_delegate env = Some (\<lambda>_. st_ret ())"
  shows "finish_logon env m n n None False s = (Inr (), s\<lparr>s_cache := snd (cache_nextTargetSeqNum (s_cache s)),
    s_state := READY, s_delegated := s_delegated s @ [OnLogon]\<rparr>)"
  using assms
  by (simp add: finish_logon_def st_seq_apply st_bind_apply when_do_def nextTargetSeqNum_def on_cache_def set_state_def call_delegate_def)

lemma finish_acceptor:
  assumes "getSessionType (e_settings env) = Inr ACCEPTOR" "e_delegate env = Some (\<lambda>_. st_ret ())"
    "getIntField (m_body m) FIELD_HeartBtInt = Inr h"
    "sendLogon env False (s\<lparr>s_cache := snd (cache_nextTargetSeqNum (s_cache s)), s_heartbeatInterval := h * 1000\<rparr>) = (Inr (), s')"
  shows "finish_logon env m n n None False s = (Inr (), s'\<lparr>s_state := READY, s_delegated := s_delegated s' @ [OnLogon]\<rparr>)"
  using assms
  by (simp add: finish_logon_def st_seq_apply st_bind_apply when_do_def nextTargetSeqNum_def on_cache_def set_state_def call_delegate_def)

section \<open>The initiator's update\<close>

definition initiator_due :: "session_env \<Rightarrow> session \<Rightarrow> bool" where
  "initiator_due env s \<longleftrightarrow>
     getSessionType (e_settings env) = Inr INITIATOR \<and> s_enabled s \<and> s_state s = LOGON
     \<and> int (e_clock env (s_tick s) div 1000) - s_lastUpdate s \<ge> 1
     \<and> int (e_clock env (Suc (s_tick s)) div 1000) - s_lastLogon s \<ge> s_logonInterval s"

lemma update_logs_on:
  assumes "initiator_due env s" "isConnected (s_network s)" "\<not> getBool RESET_SEQ_NUM_ON_LOGON (e_settings env)"
    "sendLogon env False (s\<lparr>s_lastUpdate := int (e_clock env (s_tick s) div 1000),
       s_cache := flushSeqNums (s_cache s), s_tick := s_tick s + 2\<rparr>) = (Inr (), s')"
  shows "onNetworkUpdate env s = (Inr (), s')"
proof -
  let ?s0 = "s\<lparr>s_tick := Suc (s_tick s), s_lastUpdate := int (e_clock env (s_tick s) div 1000), s_cache := flushSeqNums (s_cache s)\<rparr>"
  have "internal_update env ?s0 = (Inr (), s')"
    using assms
    by (simp add: internal_update_def getEpochMillis_def ask_def st_bind_apply logon_due_def initiator_due_def update_logon_def
        st_seq_apply when_do_def)
  then show ?thesis
    using assms(1)
    by (simp add: onNetworkUpdate_def getEpochMillis_def ask_def st_bind_apply initiator_due_def st_seq_apply catch_all_def on_cache_def)
qed

section \<open>From one session to the other\<close>

text \<open>Sessions without the options that change the Logon, and a session between two events.\<close>

definition plain_session :: "session_env \<Rightarrow> bool" where
  "plain_session env \<longleftrightarrow>
     \<not> getBool RESET_SEQ_NUM_ON_LOGON (e_settings env) \<and> \<not> getBool IS_TEST (e_settings env)
     \<and> e_delegate env = Some (\<lambda>_. st_ret ())"

definition at_rest :: "session \<Rightarrow> bool" where
  "at_rest s \<longleftrightarrow> ready_to_send s \<and> s_cachedEpochUs s = 0 \<and> c_inboundQueue (s_cache s) = [] \<and> is_int32 (c_senderSeqNum (s_cache s))"

text \<open>The Logon that A stamps at the \<open>i\<close>-th reading of its clock is one that B takes at the \<open>j\<close>-th of its own.\<close>

lemma logon_taken:
  assumes "counterparts A B" "stamped_logon A hb next (int (e_clock A i) div 1000) s = Inr lm" "speaks B MSG_LOGON lm"
    "clocks_agree A B i j" "ts_cache_ok (s_writeTs s)" "is_int32 (c_senderSeqNum (s_cache s))"
  obtains m where "parse (parse_settings_of (e_settings B)) (e_dictionary B) (toString True lm) = Inr m"
    "passes B m (reading B j)" "getField (m_header m) FIELD_MsgType = Inr MSG_LOGON"
    "getIntField (m_header m) FIELD_MsgSeqNum = Inr (c_senderSeqNum (s_cache s))" "plain_logon m"
    "getField (m_body m) FIELD_HeartBtInt = Inr (dec_int (wrap32 (cdiv hb 1000)))"
proof -
  have clk: "1000000 \<le> e_clock A i" "e_clock A i < 253402300800000000"
      "\<bar>int (e_clock B j) div 1000 - int (e_clock A i) div 1000\<bar> \<le> getLong SENDING_TIME_THRESHOLD (e_settings B) * 1000"
    using assms(4) by (simp_all add: clocks_agree_def)
  obtain m0 n where m0: "logon_message A hb next = Inr m0" "fst (populateMessage A m0 (int (e_clock A i) div 1000) s) = Inr (n, lm)"
    using assms(2) by (auto simp: stamped_logon_def elim!: sbind_InrE)
  then obtain s' where p: "populateMessage A m0 (int (e_clock A i) div 1000) s = (Inr (n, lm), s')" by (metis prod.collapse)
  note l = logon_message_fields[OF m0(1)]
  note h = stamped_for[OF assms(1) l(2) clk(1,2) assms(5) p]
  obtain ts where ts: "getField (m_header lm) FIELD_SendingTime = Inr ts" "parseUTCTimestamp ts = int (e_clock A i div 1000)"
    using h(5) by blast
  have d: "\<not> tryGetBool (m_header lm) FIELD_PossDupFlag"
    using h(6)[of 43] l(3)[of 43] by (simp add: tryGetBool_getField)
  have near: "\<bar>reading B j - parseUTCTimestamp ts\<bar> \<le> getLong SENDING_TIME_THRESHOLD (e_settings B) * 1000"
    using clk(3) by (simp add: ts(2) reading_def zdiv_int)
  obtain m where m: "parse (parse_settings_of (e_settings B)) (e_dictionary B) (toString True lm) = Inr m"
    "getField (m_header m) FIELD_MsgType = Inr MSG_LOGON"
    "getIntField (m_header m) FIELD_MsgSeqNum = Inr (c_senderSeqNum (s_cache s))"
    "passes B m (reading B j)" "shown (m_body m) = sent (m_body lm)"
    by (rule addressed_parsed[OF assms(3) h(1-4) assms(6) ts(1) near]) (use d in simp)
  have b: "getField (m_body m) k = getField (m_body m0) k" if "\<not> isIgnoredTag k" for k
    using getField_sent[OF that, of "m_body lm"] h(7) by (simp add: getField_shown m(5))
  then show thesis
    by (intro that[OF m(1,4,2,3)]) (simp_all add: plain_logon_def l(1) isIgnoredTag_def)
qed

text \<open>The initiator sends its Logon.\<close>

lemma initiator_sends:
  assumes "plain_session env" "initiator_due env s" "at_rest s" "1000000 \<le> e_clock env (s_tick s + 2)"
    "stamped_logon env (s_heartbeatInterval s) (c_targetSeqNum (s_cache s)) (int (e_clock env (s_tick s + 2)) div 1000) s = Inr lm"
  defines "s' \<equiv> snd (onNetworkUpdate env s)"
  shows "handler_sent (s_network s') = handler_sent (s_network s) @ [toString True lm]" "ready_to_send s'"
    "s_cachedEpochUs s' = 0" "s_tick s' = s_tick s + 5" "c_senderSeqNum (s_cache s') = wrap32 (c_senderSeqNum (s_cache s) + 1)"
    "inbound s' = inbound s" "s_state s' = LOGON" "s_heartbeatInterval s' = s_heartbeatInterval s"
proof -
  define s0 where "s0 = s\<lparr>s_lastUpdate := int (e_clock env (s_tick s) div 1000),
       s_cache := flushSeqNums (s_cache s), s_tick := s_tick s + 2\<rparr>"
  let ?us = "e_clock env (s_tick s + 2)"
  have o: "\<not> getBool RESET_SEQ_NUM_ON_LOGON (e_settings env)" using assms(1) by (simp add: plain_session_def)
  have r: "ready_to_send s0" "s_cachedEpochUs s0 = 0" using assms(3) by (simp_all add: at_rest_def ready_to_send_def s0_def)
  have st: "send_time env s0 = (Inr (int ?us), s0\<lparr>s_tick := s_tick s + 3\<rparr>)"
    using send_time_clock[OF r(2), of env] by (simp add: s0_def)
  have t: "int ?us div 1000 \<noteq> 0" using assms(4) by auto
  have l: "stamped_logon env (s_heartbeatInterval s0) (c_targetSeqNum (s_cache s0)) (int ?us div 1000) s0 = Inr lm"
    using assms(5) stamped_logon_depends[OF t, of s0 s env "s_heartbeatInterval s"] by (simp add: s0_def)
  obtain s2 where s2: "sendLogon env False s0 = (Inr (), s2)"
    "handler_sent (s_network s2) = handler_sent (s_network s0) @ [toString True lm]"
    "ready_to_send s2" "s_cachedEpochUs s2 = s_cachedEpochUs s0" "s_tick s2 = Suc (Suc (s_tick s + 3))"
    "c_senderSeqNum (s_cache s2) = wrap32 (c_senderSeqNum (s_cache s0) + 1)"
    "inbound s2 = inbound s0" "s_state s2 = s_state s0" "s_heartbeatInterval s2 = s_heartbeatInterval s0"
    by (rule sendLogon_sends[OF r(1) st assms(4) l])
  have "onNetworkUpdate env s = (Inr (), s2)"
    using s2(1) assms(3) by (intro update_logs_on[OF assms(2) _ o]) (simp_all add: s0_def at_rest_def ready_to_send_def)
  then have "s' = s2" by (simp add: s'_def)
  with s2 r(2) assms(2) show "handler_sent (s_network s') = handler_sent (s_network s) @ [toString True lm]" "ready_to_send s'"
    "s_cachedEpochUs s' = 0" "s_tick s' = s_tick s + 5" "c_senderSeqNum (s_cache s') = wrap32 (c_senderSeqNum (s_cache s) + 1)"
    "inbound s' = inbound s" "s_state s' = LOGON" "s_heartbeatInterval s' = s_heartbeatInterval s"
    by (simp_all add: s0_def initiator_due_def inbound_def)
qed

text \<open>The acceptor takes it, answers with its own Logon and is logged on.\<close>

lemma acceptor_answers:
  assumes "plain_session env" "getSessionType (e_settings env) = Inr ACCEPTOR" "at_rest s" "s_state s = LOGON"
    "parse (parse_settings_of (e_settings env)) (e_dictionary env) txt = Inr m" "passes env m (reading env (s_tick s))"
    "getField (m_header m) FIELD_MsgType = Inr MSG_LOGON" "plain_logon m"
    "getIntField (m_header m) FIELD_MsgSeqNum = Inr (c_targetSeqNum (s_cache s))" "getIntField (m_body m) FIELD_HeartBtInt = Inr h"
    "1000000 \<le> e_clock env (s_tick s)" "stamped_logon env (h * 1000) (wrap32 (c_targetSeqNum (s_cache s) + 1)) (int (e_clock env (s_tick s)) div 1000) s = Inr lm"
  defines "s' \<equiv> snd (onNetworkMessage env txt s)"
  shows "handler_sent (s_network s') = handler_sent (s_network s) @ [toString True lm]" "at_rest s'"
    "s_tick s' = s_tick s + 3" "c_senderSeqNum (s_cache s') = wrap32 (c_senderSeqNum (s_cache s) + 1)"
    "inbound s' = (wrap32 (c_targetSeqNum (s_cache s) + 1), [], s_delegated s @ [OnLogon])" "s_state s' = READY"
    "s_heartbeatInterval s' = h * 1000"
proof -
  let ?us = "e_clock env (s_tick s)"
  let ?r = "received m (int ?us) s"
  define s0 where "s0 = ?r\<lparr>s_cache := snd (cache_nextTargetSeqNum (s_cache ?r)), s_heartbeatInterval := h * 1000\<rparr>"
  have o: "\<not> getBool IS_TEST (e_settings env)" "e_delegate env = Some (\<lambda>_. st_ret ())"
    using assms(1) by (simp_all add: plain_session_def)
  have r: "ready_to_send s0" "c_inboundQueue (s_cache s) = []"
    using assms(3) by (simp_all add: at_rest_def ready_to_send_def s0_def received_def)
  have st: "send_time env s0 = (Inr (int ?us), s0\<lparr>s_tick := Suc (s_tick s)\<rparr>)"
    using assms(11) by (simp add: send_time_def st_bind_apply s0_def received_def)
  have t: "int ?us div 1000 \<noteq> 0" using assms(11) by auto
  have l: "stamped_logon env (s_heartbeatInterval s0) (c_targetSeqNum (s_cache s0)) (int ?us div 1000) s0 = Inr lm"
    using assms(12) stamped_logon_depends[OF t, of s0 s env "h * 1000"] by (simp add: s0_def received_def cache_ops)
  obtain s2 where s2: "sendLogon env False s0 = (Inr (), s2)"
    "handler_sent (s_network s2) = handler_sent (s_network s0) @ [toString True lm]"
    "ready_to_send s2" "s_cachedEpochUs s2 = s_cachedEpochUs s0" "s_tick s2 = Suc (Suc (Suc (s_tick s)))"
    "c_senderSeqNum (s_cache s2) = wrap32 (c_senderSeqNum (s_cache s0) + 1)"
    "inbound s2 = inbound s0" "s_state s2 = s_state s0" "s_heartbeatInterval s2 = s_heartbeatInterval s0"
    by (rule sendLogon_sends[OF r(1) st assms(11) l])
  have i: "inbound s0 = (wrap32 (c_targetSeqNum (s_cache s) + 1), [], s_delegated s)"
    using r(2) by (simp add: inbound_def s0_def cache_ops)
  have "finish_logon env m (c_targetSeqNum (s_cache s)) (c_targetSeqNum (s_cache s)) None False ?r
      = (Inr (), s2\<lparr>s_state := READY, s_delegated := s_delegated s2 @ [OnLogon]\<rparr>)"
    using s2(1) unfolding s0_def by (rule finish_acceptor[OF assms(2) o(2) assms(10)])
  note f = logon_received[OF assms(5-7,9,4,8) o(1) this]
  have "s' = s2\<lparr>s_state := READY, s_delegated := s_delegated s2 @ [OnLogon], s_cachedEpochUs := 0\<rparr>"
    using f s2(7) i by (simp add: s'_def inbound_def)
  with s2 i show "handler_sent (s_network s') = handler_sent (s_network s) @ [toString True lm]" "at_rest s'"
    "s_tick s' = s_tick s + 3" "c_senderSeqNum (s_cache s') = wrap32 (c_senderSeqNum (s_cache s) + 1)"
    "inbound s' = (wrap32 (c_targetSeqNum (s_cache s) + 1), [], s_delegated s @ [OnLogon])" "s_state s' = READY"
    "s_heartbeatInterval s' = h * 1000"
    by (simp_all add: at_rest_def ready_to_send_def inbound_def) (simp_all add: s0_def cache_ops)
qed

text \<open>The initiator takes the answer and is logged on.\<close>

lemma initiator_logged_on:
  assumes "plain_session env" "getSessionType (e_settings env) = Inr INITIATOR" "s_state s = LOGON" "ready_to_send s"
    "c_inboundQueue (s_cache s) = []"
    "parse (parse_settings_of (e_settings env)) (e_dictionary env) txt = Inr m" "passes env m (reading env (s_tick s))"
    "getField (m_header m) FIELD_MsgType = Inr MSG_LOGON" "plain_logon m"
    "getIntField (m_header m) FIELD_MsgSeqNum = Inr (c_targetSeqNum (s_cache s))"
  defines "s' \<equiv> snd (onNetworkMessage env txt s)"
  shows "s_state s' = READY" "ready_to_send s'" "s_cachedEpochUs s' = 0"
    "inbound s' = (wrap32 (c_targetSeqNum (s_cache s) + 1), [], s_delegated s @ [OnLogon])"
    "c_senderSeqNum (s_cache s') = c_senderSeqNum (s_cache s)" "s_network s' = s_network s"
proof -
  let ?r = "received m (int (e_clock env (s_tick s))) s"
  have o: "\<not> getBool IS_TEST (e_settings env)" "e_delegate env = Some (\<lambda>_. st_ret ())"
    using assms(1) by (simp_all add: plain_session_def)
  note f = logon_received[OF assms(6-8,10,3,9) o(1) finish_initiator[OF assms(2) o(2)]]
  have "s' = ?r\<lparr>s_cache := snd (cache_nextTargetSeqNum (s_cache ?r)), s_state := READY,
      s_delegated := s_delegated ?r @ [OnLogon], s_cachedEpochUs := 0\<rparr>"
    using f assms(5) by (simp add: s'_def cache_ops)
  with assms(4,5) show "s_state s' = READY" "ready_to_send s'" "s_cachedEpochUs s' = 0"
    "inbound s' = (wrap32 (c_targetSeqNum (s_cache s) + 1), [], s_delegated s @ [OnLogon])"
    "c_senderSeqNum (s_cache s') = c_senderSeqNum (s_cache s)" "s_network s' = s_network s"
    by (simp_all add: ready_to_send_def inbound_def cache_ops received_def)
qed

section \<open>Property\<close>

text \<open>The Logon \<open>lm\<close> with the heartbeat interval of \<open>h\<close> seconds that A's session stamps at the \<open>i\<close>-th reading
  of its clock: B's dictionary describes it, and B reads it in time.\<close>

definition logon_offered :: "session_env \<Rightarrow> session_env \<Rightarrow> nat \<Rightarrow> nat \<Rightarrow> int \<Rightarrow> int \<Rightarrow> session \<Rightarrow> message \<Rightarrow> bool" where
  "logon_offered A B i j h next s lm \<longleftrightarrow>
     stamped_logon A (h * 1000) next (int (e_clock A i) div 1000) s = Inr lm \<and> speaks B MSG_LOGON lm \<and> clocks_agree A B i j"

text \<open>C3: two sessions that may talk do log on. Take an initiator A and an acceptor B that are each other's
  counterparty, connected, at rest, and agree on both next numbers, with no option set that changes
  the Logon, and suppose each one's dictionary describes the Logon of the other. When A's logon is
  due, its update puts one Logon on the connection. B, given that text, answers with its own Logon
  and is logged on, with A's heartbeat interval; A, given B's text, is logged on too. Each
  application is told once. Afterwards the sessions are in step in both directions, so what either
  sends next arrives.\<close>

theorem logon_establishes:
  assumes "counterparts A B" "plain_session A" "plain_session B"
    "initiator_due A a" "at_rest a" "getSessionType (e_settings B) = Inr ACCEPTOR" "s_state b = LOGON" "at_rest b"
    "c_targetSeqNum (s_cache a) = c_senderSeqNum (s_cache b)" "c_targetSeqNum (s_cache b) = c_senderSeqNum (s_cache a)"
    "s_heartbeatInterval a = h * 1000" "0 \<le> h" "is_int32 h"
    "logon_offered A B (s_tick a + 2) (s_tick b) h (c_targetSeqNum (s_cache a)) a la"
    "logon_offered B A (s_tick b) (s_tick a + 5) h (wrap32 (c_targetSeqNum (s_cache b) + 1)) b lb"
  shows "let a1 = snd (onNetworkUpdate A a);
             b1 = snd (onNetworkMessage B (toString True la) b);
             a2 = snd (onNetworkMessage A (toString True lb) a1)
         in handler_sent (s_network a2) = handler_sent (s_network a) @ [toString True la]
          \<and> handler_sent (s_network b1) = handler_sent (s_network b) @ [toString True lb]
          \<and> s_delegated a2 = s_delegated a @ [OnLogon] \<and> s_delegated b1 = s_delegated b @ [OnLogon]
          \<and> s_heartbeatInterval b1 = s_heartbeatInterval a
          \<and> in_step a2 b1 \<and> in_step b1 a2"
proof -
  define a1 where "a1 = snd (onNetworkUpdate A a)"
  define b1 where "b1 = snd (onNetworkMessage B (toString True la) b)"
  define a2 where "a2 = snd (onNetworkMessage A (toString True lb) a1)"
  have la: "stamped_logon A (h * 1000) (c_targetSeqNum (s_cache a)) (int (e_clock A (s_tick a + 2)) div 1000) a = Inr la" "speaks B MSG_LOGON la"
      "clocks_agree A B (s_tick a + 2) (s_tick b)"
    and lb: "stamped_logon B (h * 1000) (wrap32 (c_targetSeqNum (s_cache b) + 1)) (int (e_clock B (s_tick b)) div 1000) b = Inr lb" "speaks A MSG_LOGON lb"
      "clocks_agree B A (s_tick b) (s_tick a + 5)"
    using assms(14,15) by (simp_all add: logon_offered_def)
  have clk: "1000000 \<le> e_clock A (s_tick a + 2)" "1000000 \<le> e_clock B (s_tick b)"
    using la(3) lb(3) by (simp_all add: clocks_agree_def)
  have cp: "counterparts B A" using assms(1) by (simp add: counterparts_def)
  have h: "wrap32 (cdiv (h * 1000) 1000) = h" using assms(12,13) by (simp add: is_int32_def)
  have r: "ts_cache_ok (s_writeTs s)" "is_int32 (c_senderSeqNum (s_cache s))" "c_inboundQueue (s_cache s) = []"
    if "at_rest s" for s using that by (simp_all add: at_rest_def ready_to_send_def)
  note u = initiator_sends[OF assms(2,4,5) clk(1), unfolded assms(11), OF la(1), folded a1_def]
  have i1: "c_inboundQueue (s_cache a1) = []" "c_targetSeqNum (s_cache a1) = c_senderSeqNum (s_cache b)" "s_delegated a1 = s_delegated a"
    using u(6) r(3)[OF assms(5)] assms(9) by (simp_all add: inbound_def)
  obtain ma where ma: "parse (parse_settings_of (e_settings B)) (e_dictionary B) (toString True la) = Inr ma"
    "passes B ma (reading B (s_tick b))" "getField (m_header ma) FIELD_MsgType = Inr MSG_LOGON"
    "getIntField (m_header ma) FIELD_MsgSeqNum = Inr (c_senderSeqNum (s_cache a))" "plain_logon ma"
    "getField (m_body ma) FIELD_HeartBtInt = Inr (dec_int (wrap32 (cdiv (h * 1000) 1000)))"
    by (rule logon_taken[OF assms(1) la r(1,2)[OF assms(5)]])
  have hb: "getIntField (m_body ma) FIELD_HeartBtInt = Inr h" using ma(6) assms(13) h by (simp add: getIntField_def)
  note v = acceptor_answers[OF assms(3,6,8,7) ma(1-3,5) ma(4)[folded assms(10)] hb clk(2) lb(1), folded b1_def]
  obtain mb where mb: "parse (parse_settings_of (e_settings A)) (e_dictionary A) (toString True lb) = Inr mb"
    "passes A mb (reading A (s_tick a + 5))" "getField (m_header mb) FIELD_MsgType = Inr MSG_LOGON"
    "getIntField (m_header mb) FIELD_MsgSeqNum = Inr (c_senderSeqNum (s_cache b))" "plain_logon mb"
    "getField (m_body mb) FIELD_HeartBtInt = Inr (dec_int (wrap32 (cdiv (h * 1000) 1000)))"
    by (rule logon_taken[OF cp lb r(1,2)[OF assms(8)]])
  have ty: "getSessionType (e_settings A) = Inr INITIATOR" using assms(4) by (simp add: initiator_due_def)
  note w = initiator_logged_on[OF assms(2) ty u(7,2) i1(1) mb(1) mb(2)[folded u(4)] mb(3,5) mb(4)[folded i1(2)], folded a2_def]
  have "in_step a2 b1" "in_step b1 a2"
    using u(5) v(2,4-6) w assms(9,10) i1(2) by (simp_all add: in_step_def at_rest_def ready_to_send_def inbound_def)
  with u(1) v w i1(3) assms(11) show ?thesis
    by (simp add: Let_def a1_def[symmetric] b1_def[symmetric] a2_def[symmetric] inbound_def)
qed

section \<open>A Logon that names the next expected number\<close>

text \<open>Where the header's specification does not place the field, \<open>sendLogon\<close> puts it behind MsgType,
  in front of the fields that \<open>populateMessage\<close> stamps.\<close>

definition next_field :: "session_env \<Rightarrow> int \<Rightarrow> (int \<times> string) list" where
  "next_field env next = (if names_next env then [(FIELD_NextExpectedMsgSeqNum, dec_int next)] else [])"

lemma logon_header:
  assumes "logon_message env hb next = Inr m"
    "FIELD_NextExpectedMsgSeqNum \<notin> set (gs_fieldOrder (d_headerSpec (e_dictionary env)))"
  shows "shown (m_header m) = (FIELD_MsgType, MSG_LOGON) # next_field env next" "flat_message m" "sent (m_trailer m) = []"
proof -
  obtain m0 b1 b2 h where m: "create (e_dictionary env) MSG_LOGON = Inr m0"
    "setField FIELD_HeartBtInt (dec_int (wrap32 (cdiv hb 1000))) True (m_body m0) = Inr b1"
    "setField FIELD_EncryptMethod ''0'' True b1 = Inr b2"
    "(if names_next env then setField FIELD_NextExpectedMsgSeqNum (dec_int next) True (m_header m0) else Inr (m_header m0)) = Inr h"
    "m_header m = h" "m_body m = b2" "m_trailer m = m_trailer m0"
    using assms(1) by (cases "names_next env") (auto simp: logon_message_def Let_def elim!: sbind_InrE)
  let ?e = "setSpec (Some (d_headerSpec (e_dictionary env))) empty_fm"
  obtain bs ts where c: "setField FIELD_MsgType MSG_LOGON True ?e = Inr (m_header m0)" "m_body m0 = setSpec bs empty_fm"
      "m_trailer m0 = setSpec ts empty_fm"
    using m(1) by (auto simp: create_def split: option.splits elim!: sbind_InrE)
  obtain cap where "m_header m0 = insertFieldView FIELD_MsgType (Own 0 1) True (with_owned [new_slot 35 MSG_LOGON] cap ?e)"
    using setField_fresh[OF _ c(1)] by auto
  then have h0: "shown (m_header m0) = [(FIELD_MsgType, MSG_LOGON)]" "fm_owned (m_header m0) = [new_slot 35 MSG_LOGON]"
      "fm_spec (m_header m0) = Some (d_headerSpec (e_dictionary env))" "fm_groups (m_header m0) = []"
    by (simp_all add: insertFieldView_def shown_def new_slot_def)
  have h: "shown h = shown (m_header m0) @ next_field env next \<and> fm_groups h = []"
  proof (cases "names_next env")
    case True
    then have "setField FIELD_NextExpectedMsgSeqNum (dec_int next) True (m_header m0) = Inr h" using m(4) by simp
    from setField_appends(1,2)[OF this created_header(1)[OF m(1)]] h0 assms(2) True show ?thesis
      by (simp add: next_field_def new_slot_def)
  qed (use m(4) h0 in \<open>simp add: next_field_def\<close>)
  then show "shown (m_header m) = (FIELD_MsgType, MSG_LOGON) # next_field env next" using h0 m(5) by simp
  have "fm_groups b2 = []"
    using setField_lookup(4)[OF created_body(3)[OF m(1)] m(2)] setField_lookup(4)[OF setField_wf[OF created_body(3)[OF m(1)] m(2)] m(3)] c(2)
    by simp
  then show "flat_message m" "sent (m_trailer m) = []" using h m(5-7) c(3) by (simp_all add: flat_message_def sent_def shown_def)
qed

lemma stamped_logon_header:
  assumes "stamped_logon env hb next t s = Inr lm" "t \<noteq> 0"
    "FIELD_NextExpectedMsgSeqNum \<notin> set (gs_fieldOrder (d_headerSpec (e_dictionary env)))"
  shows "sent (m_header lm) = (FIELD_MsgType, MSG_LOGON) # next_field env next
      @ [(49, getString SENDER_COMP_ID (e_settings env)), (56, getString TARGET_COMP_ID (e_settings env)),
         (52, fst (writeUTCTimestamp (s_writeTs s) (nat t))), (34, dec_int (c_senderSeqNum (s_cache s)))]"
    "flat_message lm" "getField (m_header lm) FIELD_BeginString = Inr (getString BEGIN_STRING (e_settings env))"
    "sent (m_trailer lm) = []"
proof -
  obtain m n where m: "logon_message env hb next = Inr m" "fst (populateMessage env m t s) = Inr (n, lm)"
    using assms(1) by (auto simp: stamped_logon_def elim!: sbind_InrE)
  then obtain s' where p: "populateMessage env m t s = (Inr (n, lm), s')" by (metis prod.collapse)
  note l = logon_message_fields[OF m(1)] and h = logon_header[OF m(1) assms(3)]
  note st = populateMessage_stamps[OF l(2) assms(2) p]
  have "fst ` set (shown (m_header m)) \<inter> {8, 34, 49, 52, 56} = {}" by (cases "names_next env") (simp_all add: h(1) next_field_def)
  moreover have "fst ` set (fm_owned (m_header m)) \<inter> {34, 52} = {}" using l(4) by auto
  ultimately have sh: "shown (m_header lm) = (FIELD_MsgType, MSG_LOGON) # next_field env next
      @ [(8, getString BEGIN_STRING (e_settings env)),
         (49, getString SENDER_COMP_ID (e_settings env)), (56, getString TARGET_COMP_ID (e_settings env)),
         (52, fst (writeUTCTimestamp (s_writeTs s) (nat t))), (34, dec_int (c_senderSeqNum (s_cache s)))]"
      "fm_groups (m_header lm) = fm_groups (m_header m)"
    using populateMessage_shown[OF l(2) assms(2) p] h(1) by simp_all
  show "sent (m_header lm) = (FIELD_MsgType, MSG_LOGON) # next_field env next
      @ [(49, getString SENDER_COMP_ID (e_settings env)), (56, getString TARGET_COMP_ID (e_settings env)),
         (52, fst (writeUTCTimestamp (s_writeTs s) (nat t))), (34, dec_int (c_senderSeqNum (s_cache s)))]"
    by (simp add: sent_def sh(1) next_field_def isIgnoredTag_def)
  have "fm_groups (m_header lm) = []" using sh(2) h(2) by (simp add: flat_message_def)
  then show "flat_message lm" "getField (m_header lm) FIELD_BeginString = Inr (getString BEGIN_STRING (e_settings env))"
    "sent (m_trailer lm) = []"
    using st(1,7,8) h(2,3) by (simp_all add: flat_message_def)
qed

section \<open>Refusing a message without a number\<close>

lemma unnumbered_refused:
  assumes "\<And>m. parse (parse_settings_of (e_settings env)) (e_dictionary env) txt = Inr m \<Longrightarrow> \<not> fm_has (m_header m) FIELD_MsgSeqNum"
    "s_state s = LOGON" "c_inboundQueue (s_cache s) = []"
  defines "s' \<equiv> snd (onNetworkMessage env txt s)"
  shows "inbound s' = inbound s \<and> s_state s' \<in> {KILLING, LOGON}"
proof (cases "parse (parse_settings_of (e_settings env)) (e_dictionary env) txt")
  case (Inl e)
  then have "receive env txt s = (Inl e, s)" by (simp add: receive_def st_bind_apply)
  then show ?thesis
    using assms(2) by (simp add: s'_def onNetworkMessage_def st_bind_apply catch_all_def set_cachedEpoch_def inbound_def)
next
  case (Inr m)
  define us where "us = int (e_clock env (s_tick s))"
  define time where "time = cdiv us 1000"
  define s1 where "s1 = received m us s"
  define l where "l = logout env ''Message missing MsgSeqNum(34)'' True"
  have n: "\<not> fm_has (m_header m) FIELD_MsgSeqNum" by (rule assms(1)[OF Inr])
  have v: "validateMessage env m t time s1 = refuse l s1" for t using n by (simp add: validateMessage_def l_def)
  obtain r s2 where p: "processMessage env m time s1 = (r, s2)" "s2 \<in> {s1, snd (l s1)}"
  proof (cases "getField (m_header m) FIELD_MsgType")
    case (Inl e)
    with that show thesis by (simp add: processMessage_def st_bind_apply)
  next
    case (Inr t)
    with that show thesis
      by (cases "l s1"; cases "fst (l s1)") (auto simp: processMessage_def st_bind_apply v refuse_def st_seq_apply)
  qed
  have i: "inbound (snd (l s1)) = inbound s1" "s_state (snd (l s1)) \<in> {KILLING, LOGON}"
    using st_keepsD[OF inbound.keeps_logout, of s1 "inbound s1" env] logout_closes[of env _ s1] by (simp_all add: l_def)
  have s2: "inbound s2 = inbound s" "s_state s2 \<in> {KILLING, LOGON}"
    using p(2) i assms(2) by (auto simp: s1_def inbound_def)
  have q: "c_inboundQueue (s_cache s2) = []" using s2(1) assms(3) by (simp add: inbound_def)
  have "s' \<in> {s2, s2\<lparr>s_cachedEpochUs := 0\<rparr>}"
    using assms(2) q
    by (cases r) (simp_all add: s'_def onNetworkMessage_def st_bind_apply catch_all_def st_seq_apply
        receive_parsed[OF Inr us_def[symmetric], folded time_def s1_def] p(1) set_cachedEpoch_def)
  with s2 show ?thesis by (auto simp: inbound_def)
qed

text \<open>A dictionary whose header has the three first fields but not NextExpectedMsgSeqNum, which the FIX
  specifications list in the Logon's body.\<close>

definition next_not_in_header :: "dictionary \<Rightarrow> string \<Rightarrow> bool" where
  "next_not_in_header d v8 \<longleftrightarrow>
     fields_ok d (d_headerSpec d) [(8, v8), (35, MSG_LOGON)] \<and> hasField (d_headerSpec d) 9 \<and> getFieldType d 9 \<noteq> FT_DATA
     \<and> not_in_spec (d_headerSpec d) FIELD_NextExpectedMsgSeqNum
     \<and> getFieldType d FIELD_NextExpectedMsgSeqNum \<notin> {FT_DATA, FT_LENGTH}"

lemma next_ends_header:
  assumes "\<not> reorderTags cfg" "next_not_in_header d v8" "flat_message lm" "getField (m_header lm) FIELD_BeginString = Inr v8"
    "sent (m_header lm) = (FIELD_MsgType, MSG_LOGON) # (FIELD_NextExpectedMsgSeqNum, dec_int next) # hs"
    "length (fst (serialize_body SOH lm)) < 2147483648" "length (toString True lm) < 2147483648"
    "parse cfg d (toString True lm) = Inr m"
  shows "\<not> fm_has (m_header m) FIELD_MsgSeqNum"
proof -
  let ?kvs = "sent (m_header lm) @ sent (m_body lm) @ sent (m_trailer lm)"
  define v9 where "v9 = dec_nat (length (fields_text ?kvs))"
  define rest where "rest = fields_text (hs @ sent (m_body lm) @ sent (m_trailer lm))
     @ fields_text [(10, formatChecksum (computeChecksum (fields_text ((8, v8) # (9, v9) # ?kvs))))]"
  have w: "toString True lm = fields_text ((8, v8) # (9, v9) # [(35, MSG_LOGON)]) @ field_text (789, dec_int next) @ rest"
    unfolding toString_wire_text[OF assms(3,4,6)] wire_text_def Let_def v9_def[symmetric] rest_def by (simp add: assms(5))
  have "length (fields_text ?kvs) < 2147483648"
    using assms(6) by (simp add: serialize_body_def assms(3)[unfolded flat_message_def] case_prod_beta appendGroup_flat)
  then have g9: "good_field d (9, v9)"
    using assms(2) fastParseTag_dec_nat dec_nat_chars by (fastforce simp: next_not_in_header_def good_field_def v9_def)
  have d: "fields_ok d (d_headerSpec d) [(8, v8), (35, MSG_LOGON)]" "hasField (d_headerSpec d) 9"
      "good_field d (789, dec_int next)" "not_in_spec (d_headerSpec d) 789"
    using assms(2) dec_int_clean by (simp_all add: next_not_in_header_def good_field_def)
  have "shown (m_header m) = (8, v8) # (9, v9) # [(35, MSG_LOGON)]"
    by (rule header_ends[OF assms(1) d(1,2) g9 d(3,4) w assms(7,8)])
  then show ?thesis by (simp add: fm_has_getField getField_shown)
qed

text \<open>C11: with the setting SendNextExpectedMsgSeqNum at its default, an initiator is not logged on by a
  session of the same program, when both use dictionaries that know NextExpectedMsgSeqNum as a
  field of the Logon's body. Its update puts a Logon on the connection, with the field behind
  MsgType; the counterparty's parser ends the header there, so MsgSeqNum and what else follows is
  not in the header it reads, and the session refuses the message: it takes no number, tells its
  application nothing, and closes or marks itself for killing.\<close>

theorem default_logon_refused:
  assumes "plain_session A" "names_next A" "initiator_due A a" "at_rest a" "1000000 \<le> e_clock A (s_tick a + 2)"
    "stamped_logon A (s_heartbeatInterval a) (c_targetSeqNum (s_cache a)) (int (e_clock A (s_tick a + 2)) div 1000) a = Inr la"
    "length (fst (serialize_body SOH la)) < 2147483648" "length (toString True la) < 2147483648"
    "FIELD_NextExpectedMsgSeqNum \<notin> set (gs_fieldOrder (d_headerSpec (e_dictionary A)))"
    "next_not_in_header (e_dictionary B) (getString BEGIN_STRING (e_settings A))"
    "\<not> reorderTags (parse_settings_of (e_settings B))" "s_state b = LOGON" "c_inboundQueue (s_cache b) = []"
  shows "handler_sent (s_network (snd (onNetworkUpdate A a))) = handler_sent (s_network a) @ [toString True la]
    \<and> inbound (snd (onNetworkMessage B (toString True la) b)) = inbound b
    \<and> s_state (snd (onNetworkMessage B (toString True la) b)) \<in> {KILLING, LOGON}
    \<and> getBool SEND_NEXT_EXPECTED_MSG_SEQ_NUM (new_config session_defaults)"
proof -
  have t: "int (e_clock A (s_tick a + 2)) div 1000 \<noteq> 0" using assms(5) by auto
  note h = stamped_logon_header[OF assms(6) t assms(9)]
  have "\<not> fm_has (m_header m) FIELD_MsgSeqNum"
    if "parse (parse_settings_of (e_settings B)) (e_dictionary B) (toString True la) = Inr m" for m
    using h(1) assms(2) by (intro next_ends_header[OF assms(11,10) h(2,3) _ assms(7,8) that]) (simp add: next_field_def)
  note r = unnumbered_refused[OF this assms(12,13)]
  have "getBool SEND_NEXT_EXPECTED_MSG_SEQ_NUM (new_config session_defaults)" by code_simp
  then show ?thesis using r initiator_sends(1)[OF assms(1,3-6)] by simp
qed

section \<open>Two sessions\<close>

text \<open>A dictionary with NextExpectedMsgSeqNum in the Logon's body only, as in \<^verbatim>\<open>src/test/FIXDictionary.xml\<close>.\<close>

definition plain_dictionary :: dictionary where
  "plain_dictionary = demo_dictionary\<lparr>d_headerSpec :=
     mk_spec [(8, True), (9, True), (35, True), (49, True), (56, True), (34, True), (43, False), (52, True), (122, False)]
       [] True [8, 9, 35, 49, 56, 34, 43, 52, 122]\<rparr>"

definition initiator_env :: "bool \<Rightarrow> session_env" where
  "initiator_env nx = sender_env\<lparr>e_settings := setString SESSION_TYPE_STR ''initiator''
       (setBool SEND_NEXT_EXPECTED_MSG_SEQ_NUM nx (e_settings sender_env)),
     e_dictionary := plain_dictionary, e_delegate := Some (\<lambda>_. st_ret ())\<rparr>"

definition acceptor_env :: "bool \<Rightarrow> session_env" where
  "acceptor_env nx = receiver_env\<lparr>e_settings := setBool SEND_NEXT_EXPECTED_MSG_SEQ_NUM nx (e_settings receiver_env),
     e_dictionary := plain_dictionary\<rparr>"

definition fresh_session :: session where
  "fresh_session = demo_ready\<lparr>s_state := LOGON, s_cache := new_cache (new_writer False None),
     s_logonInterval := 0, s_heartbeatInterval := 10000\<rparr>"

lemma default_settings:
  "cfg_bools (new_config session_defaults) = [False, True, False, False, True, True, False, True, False, False, False, True, False]"
  "length (cfg_strings (new_config session_defaults)) = 12" "cfg_longs (new_config session_defaults) ! 6 = 10"
  by code_simp+

lemmas settings_simps = getString_def setString_def getBool_def setBool_def getLong_def getSessionType_def parse_settings_of_def
  default_settings nth_list_update

lemma initiator_settings:
  "getString BEGIN_STRING (e_settings (initiator_env nx)) = ''FIX.4.2''" "getString SENDER_COMP_ID (e_settings (initiator_env nx)) = ''A''"
  "getString TARGET_COMP_ID (e_settings (initiator_env nx)) = ''B''"
  "parse_settings_of (e_settings (initiator_env nx)) = \<lparr>relaxedParsing = False, validateRequired = False, reorderTags = False\<rparr>"
  "getLong SENDING_TIME_THRESHOLD (e_settings (initiator_env nx)) = 10" "names_next (initiator_env nx) = nx"
  "getBool RESET_SEQ_NUM_ON_LOGON (e_settings (initiator_env nx)) = False" "getBool IS_TEST (e_settings (initiator_env nx)) = False"
  "getSessionType (e_settings (initiator_env nx)) = Inr INITIATOR"
  by (simp_all add: initiator_env_def sender_env_def settings_simps) code_simp

lemma acceptor_settings:
  "getString BEGIN_STRING (e_settings (acceptor_env nx)) = ''FIX.4.2''" "getString SENDER_COMP_ID (e_settings (acceptor_env nx)) = ''B''"
  "getString TARGET_COMP_ID (e_settings (acceptor_env nx)) = ''A''"
  "parse_settings_of (e_settings (acceptor_env nx)) = \<lparr>relaxedParsing = False, validateRequired = False, reorderTags = False\<rparr>"
  "getLong SENDING_TIME_THRESHOLD (e_settings (acceptor_env nx)) = 10" "names_next (acceptor_env nx) = nx"
  "getBool RESET_SEQ_NUM_ON_LOGON (e_settings (acceptor_env nx)) = False" "getBool IS_TEST (e_settings (acceptor_env nx)) = False"
  "getSessionType (e_settings (acceptor_env nx)) = Inr ACCEPTOR"
  by (simp_all add: acceptor_env_def receiver_env_def demo_env_def demo_settings_def settings_simps) code_simp

lemma logging_on_sel [simp]:
  "e_clock (initiator_env nx) n = 1000000" "e_dictionary (initiator_env nx) = plain_dictionary"
  "e_delegate (initiator_env nx) = Some (\<lambda>_. st_ret ())"
  "e_clock (acceptor_env nx) n = 1000000" "e_dictionary (acceptor_env nx) = plain_dictionary"
  "e_delegate (acceptor_env nx) = Some (\<lambda>_. st_ret ())"
  by (simp_all add: initiator_env_def sender_env_def acceptor_env_def receiver_env_def demo_env_def)

lemma fresh_session_facts:
  "at_rest fresh_session" "s_state fresh_session = LOGON" "s_heartbeatInterval fresh_session = 10000"
  "c_senderSeqNum (s_cache fresh_session) = 1" "c_targetSeqNum (s_cache fresh_session) = 1"
  "c_inboundQueue (s_cache fresh_session) = []" "ts_cache_ok (s_writeTs fresh_session)" "handler_sent (s_network fresh_session) = []"
  "s_delegated fresh_session = []" "s_enabled fresh_session" "s_lastUpdate fresh_session = 0" "s_lastLogon fresh_session = 0"
  "s_logonInterval fresh_session = 0"
proof -
  have t: "ts_cache_ok (s_writeTs demo_ready)" "s_cachedEpochUs demo_ready = 0" "s_delegated demo_ready = []" "s_enabled demo_ready"
      "s_lastUpdate demo_ready = 0" "s_lastLogon demo_ready = 0" 
    by (simp_all add: demo_ready_def demo_session_def new_session_def load_session_def Let_def ts_cache_ok_def ts_cache0_def split: sum.splits)
  then show "at_rest fresh_session" "s_state fresh_session = LOGON" "s_heartbeatInterval fresh_session = 10000"
  "c_senderSeqNum (s_cache fresh_session) = 1" "c_targetSeqNum (s_cache fresh_session) = 1"
  "c_inboundQueue (s_cache fresh_session) = []" "ts_cache_ok (s_writeTs fresh_session)" "handler_sent (s_network fresh_session) = []"
  "s_delegated fresh_session = []" "s_enabled fresh_session" "s_lastUpdate fresh_session = 0" "s_lastLogon fresh_session = 0"
  "s_logonInterval fresh_session = 0"
    by (simp_all add: fresh_session_def at_rest_def ready_to_send_def new_cache_def is_int32_def)
qed

lemma demo_logon:
  assumes "e_dictionary env = plain_dictionary"
  obtains m where "logon_message env 10000 next = Inr m" "sent (m_body m) = [(98, ''0''), (108, ''10'')]"
proof -
  have "case sbind (create plain_dictionary MSG_LOGON) (\<lambda>m0. sbind (setField FIELD_HeartBtInt (dec_int (wrap32 (cdiv 10000 1000))) True (m_body m0))
      (setField FIELD_EncryptMethod ''0'' True)) of Inl _ \<Rightarrow> False | Inr b \<Rightarrow> sent b = [(98, ''0''), (108, ''10'')]"
    by code_simp
  then obtain m0 b1 b2 where m: "create (e_dictionary env) MSG_LOGON = Inr m0"
    "setField FIELD_HeartBtInt (dec_int (wrap32 (cdiv 10000 1000))) True (m_body m0) = Inr b1"
    "setField FIELD_EncryptMethod ''0'' True b1 = Inr b2" "sent b2 = [(98, ''0''), (108, ''10'')]"
    unfolding assms by (auto elim!: sbind_InrE split: sum.splits)
  obtain h where "setField FIELD_NextExpectedMsgSeqNum (dec_int next) True (m_header m0) = Inr h"
    using setField_fits[of "m_header m0" FIELD_NextExpectedMsgSeqNum "dec_int next" True] create_header[OF m(1)] by auto
  then show thesis
    using m that by (cases "names_next env") (simp_all add: logon_message_def Let_def)
qed

lemma plain_dictionary_sel:
  "d_headerSpec plain_dictionary =
     mk_spec [(8, True), (9, True), (35, True), (49, True), (56, True), (34, True), (43, False), (52, True), (122, False)]
       [] True [8, 9, 35, 49, 56, 34, 43, 52, 122]"
  "d_trailerSpec plain_dictionary = mk_spec [(10, True)] [] True [10]"
  "d_fieldTypes plain_dictionary = (\<lambda>t. if t = 9 then FT_LENGTH else FT_STRING)"
  "getMessageSpecRaw plain_dictionary ''A'' =
     Some (mk_spec [(98, False), (108, False), (141, False), (789, False), (464, False)] [] True [98, 108, 141, 789, 464])"
proof -
  have "char_of (65 :: nat) = CHR ''A''" by code_simp
  then show "getMessageSpecRaw plain_dictionary ''A'' =
     Some (mk_spec [(98, False), (108, False), (141, False), (789, False), (464, False)] [] True [98, 108, 141, 789, 464])"
    by (simp add: plain_dictionary_def getMessageSpecRaw_def demo_dictionary_def demo_bodies_def FAST_MSGTYPE_SIZE_def)
qed (simp_all add: plain_dictionary_def demo_dictionary_def)

lemma plain_specs:
  "spec_built (d_headerSpec plain_dictionary)" "spec_built (d_trailerSpec plain_dictionary)"
  "gs_fields (d_headerSpec plain_dictionary) = [(8, True), (9, True), (35, True), (49, True), (56, True), (34, True), (43, False), (52, True), (122, False)]"
  "gs_groups (d_headerSpec plain_dictionary) = []" "gs_fieldOrder (d_headerSpec plain_dictionary) = [8, 9, 35, 49, 56, 34, 43, 52, 122]"
  by (simp_all add: plain_dictionary_sel)

lemma logon_flat_ok:
  assumes "SOH \<notin> set ts" "SOH \<notin> set n" "SOH \<notin> set x" "SOH \<notin> set y"
  shows "flat_ok \<lparr>relaxedParsing = False, validateRequired = False, reorderTags = False\<rparr> plain_dictionary ''FIX.4.2'' ''A''
    [(49, x), (56, y), (52, ts), (34, n)] [(98, ''0''), (108, ''10'')] []"
  unfolding flat_ok_def plain_dictionary_sel(4) using assms
  by (simp add: fields_ok_def good_field_def required_ok_def not_in_spec_def plain_specs plain_dictionary_sel(2,3)
      hasField_built findGroup_built getFieldType_def MAX_FIELD_TAG_def)

text \<open>The Logon that one of the two sends at the time 1000.\<close>

lemma demo_stamped:
  assumes "e_dictionary env = plain_dictionary" "getString BEGIN_STRING (e_settings env) = ''FIX.4.2''"
    "getString SENDER_COMP_ID (e_settings env) = x" "getString TARGET_COMP_ID (e_settings env) = y" "length x = 1" "length y = 1"
    "next \<in> {1, 2}"
  obtains lm ts where "stamped_logon env 10000 next 1000 fresh_session = Inr lm" "flat_message lm"
    "getField (m_header lm) FIELD_BeginString = Inr ''FIX.4.2''"
    "sent (m_header lm) = (FIELD_MsgType, MSG_LOGON) # next_field env next @ [(49, x), (56, y), (52, ts), (34, ''1'')]"
    "sent (m_body lm) = [(98, ''0''), (108, ''10'')]" "sent (m_trailer lm) = []" "SOH \<notin> set ts"
    "length (fst (serialize_body SOH lm)) < 3000" "length (toString True lm) < 10000"
proof -
  define ts where "ts = fst (writeUTCTimestamp (s_writeTs fresh_session) 1000)"
  have t: "SOH \<notin> set ts" "length ts = 21"
    using timestamp_clean[OF fresh_session_facts(7), of 1000] written_timestamp[OF fresh_session_facts(7), of 1000] by (simp_all add: ts_def)
  obtain m where m: "logon_message env 10000 next = Inr m" "sent (m_body m) = [(98, ''0''), (108, ''10'')]"
    by (rule demo_logon[OF assms(1)])
  note l = logon_message_fields[OF m(1)]
  have "FIELD_SendingTime \<notin> fst ` set (fm_owned (m_header m))" "FIELD_MsgSeqNum \<notin> fst ` set (fm_owned (m_header m))"
    using l(4) by auto
  from populate_fits[OF _ this, of env 1000 fresh_session] obtain lm s' where
    p: "populateMessage env m 1000 fresh_session = (Inr (1, lm), s')" "m_body lm = m_body m"
    using l(5,6) by (auto simp: fresh_session_facts)
  have s: "stamped_logon env 10000 next 1000 fresh_session = Inr lm" by (simp add: stamped_logon_def m(1) p(1))
  have u: "FIELD_NextExpectedMsgSeqNum \<notin> set (gs_fieldOrder (d_headerSpec (e_dictionary env)))" by (simp add: assms(1) plain_specs)
  have one: "dec_int 1 = ''1''" "dec_int 2 = ''2''" by code_simp+
  note h = stamped_logon_header[OF s _ u, simplified, folded ts_def, unfolded assms(2-4) fresh_session_facts(4) one]
  have tags: "appendTagEq 35 = ''35=''" "appendTagEq 49 = ''49=''" "appendTagEq 56 = ''56=''" "appendTagEq 52 = ''52=''"
    "appendTagEq 34 = ''34=''" "appendTagEq 98 = ''98=''" "appendTagEq 108 = ''108=''" "appendTagEq 789 = ''789=''"
    by code_simp+
  have n: "length (dec_int next) = 1" using assms(7) one by auto
  have "length (fields_text (sent (m_header lm) @ sent (m_body lm) @ sent (m_trailer lm))) < 3000"
    unfolding h(1,4) p(2) m(2) using t(2) assms(5,6) n by (simp add: next_field_def field_text_def tags)
  from small_message[OF h(2,3) _ this] show thesis
    using that[OF s h(2,3,1) _ h(4) t(1)] p(2) m(2) by simp
qed

lemma logon_speaks:
  assumes "e_dictionary env = plain_dictionary" "getString BEGIN_STRING (e_settings env) = ''FIX.4.2''"
    "parse_settings_of (e_settings env) = \<lparr>relaxedParsing = False, validateRequired = False, reorderTags = False\<rparr>"
    "flat_message lm" "sent (m_header lm) = (FIELD_MsgType, MSG_LOGON) # [(49, x), (56, y), (52, ts), (34, ''1'')]"
    "sent (m_body lm) = [(98, ''0''), (108, ''10'')]" "sent (m_trailer lm) = []" "SOH \<notin> set ts" "SOH \<notin> set x" "SOH \<notin> set y"
    "length (fst (serialize_body SOH lm)) < 3000" "length (toString True lm) < 10000"
  shows "speaks env MSG_LOGON lm"
  using assms(4-12) logon_flat_ok[OF assms(8) _ assms(9,10), of "''1''"] by (simp add: speaks_def assms(1-3))

lemma demo_plain: "plain_session (initiator_env nx)" "plain_session (acceptor_env nx)"
  by (simp_all add: plain_session_def initiator_settings acceptor_settings)

lemma demo_due: "initiator_due (initiator_env nx) fresh_session"
  by (simp add: initiator_due_def initiator_settings fresh_session_facts)

lemma logon_establishes_witness:
  "\<exists>la lb. let a1 = snd (onNetworkUpdate (initiator_env False) fresh_session);
       b1 = snd (onNetworkMessage (acceptor_env False) (toString True la) fresh_session);
       a2 = snd (onNetworkMessage (initiator_env False) (toString True lb) a1)
     in handler_sent (s_network a2) = [toString True la] \<and> handler_sent (s_network b1) = [toString True lb]
      \<and> s_delegated a2 = [OnLogon] \<and> s_delegated b1 = [OnLogon] \<and> in_step a2 b1 \<and> in_step b1 a2"
proof -
  let ?A = "initiator_env False" and ?B = "acceptor_env False" and ?s = fresh_session
  obtain la ts where la: "stamped_logon ?A 10000 1 1000 ?s = Inr la" "flat_message la" "getField (m_header la) FIELD_BeginString = Inr ''FIX.4.2''"
    "sent (m_header la) = (FIELD_MsgType, MSG_LOGON) # next_field ?A 1 @ [(49, ''A''), (56, ''B''), (52, ts), (34, ''1'')]"
    "sent (m_body la) = [(98, ''0''), (108, ''10'')]" "sent (m_trailer la) = []" "SOH \<notin> set ts"
    "length (fst (serialize_body SOH la)) < 3000" "length (toString True la) < 10000"
    by (rule demo_stamped[of ?A "''A''" "''B''" 1]) (simp_all add: initiator_settings)
  obtain lb ts' where lb: "stamped_logon ?B 10000 2 1000 ?s = Inr lb" "flat_message lb" "getField (m_header lb) FIELD_BeginString = Inr ''FIX.4.2''"
    "sent (m_header lb) = (FIELD_MsgType, MSG_LOGON) # next_field ?B 2 @ [(49, ''B''), (56, ''A''), (52, ts'), (34, ''1'')]"
    "sent (m_body lb) = [(98, ''0''), (108, ''10'')]" "sent (m_trailer lb) = []" "SOH \<notin> set ts'"
    "length (fst (serialize_body SOH lb)) < 3000" "length (toString True lb) < 10000"
    by (rule demo_stamped[of ?B "''B''" "''A''" 2]) (simp_all add: acceptor_settings)
  have "speaks ?B MSG_LOGON la"
    using la by (intro logon_speaks[of ?B la "''A''" "''B''" ts]) (simp_all add: acceptor_settings next_field_def initiator_settings)
  then have oa: "logon_offered ?A ?B (s_tick ?s + 2) (s_tick ?s) 10 (c_targetSeqNum (s_cache ?s)) ?s la"
    using la(1) by (simp add: logon_offered_def clocks_agree_def acceptor_settings fresh_session_facts)
  have "speaks ?A MSG_LOGON lb"
    using lb by (intro logon_speaks[of ?A lb "''B''" "''A''" ts']) (simp_all add: acceptor_settings next_field_def initiator_settings)
  then have ob: "logon_offered ?B ?A (s_tick ?s) (s_tick ?s + 5) 10 (wrap32 (c_targetSeqNum (s_cache ?s) + 1)) ?s lb"
    using lb(1) by (simp add: logon_offered_def clocks_agree_def initiator_settings fresh_session_facts is_int32_def)
  have cp: "counterparts ?A ?B" by (simp add: counterparts_def initiator_settings acceptor_settings)
  from logon_establishes[OF cp demo_plain demo_due fresh_session_facts(1) acceptor_settings(9) fresh_session_facts(2,1) _ _ _ _ _ oa ob]
  show ?thesis by (intro exI[of _ la] exI[of _ lb]) (simp add: fresh_session_facts is_int32_def Let_def)
qed

lemma default_logon_refused_witness:
  "\<exists>la. handler_sent (s_network (snd (onNetworkUpdate (initiator_env True) fresh_session))) = [toString True la]
     \<and> s_delegated (snd (onNetworkMessage (acceptor_env True) (toString True la) fresh_session)) = []
     \<and> s_state (snd (onNetworkMessage (acceptor_env True) (toString True la) fresh_session)) \<in> {KILLING, LOGON}"
proof -
  let ?A = "initiator_env True" and ?B = "acceptor_env True" and ?s = fresh_session
  obtain la ts where la: "stamped_logon ?A 10000 1 1000 ?s = Inr la"
    "length (fst (serialize_body SOH la)) < 3000" "length (toString True la) < 10000"
    by (rule demo_stamped[of ?A "''A''" "''B''" 1]) (simp_all add: initiator_settings)
  have st: "stamped_logon ?A (s_heartbeatInterval ?s) (c_targetSeqNum (s_cache ?s)) (int (e_clock ?A (s_tick ?s + 2)) div 1000) ?s = Inr la"
    using la(1) by (simp add: fresh_session_facts)
  have h: "FIELD_NextExpectedMsgSeqNum \<notin> set (gs_fieldOrder (d_headerSpec (e_dictionary ?A)))" by (simp add: plain_specs)
  have n: "next_not_in_header (e_dictionary ?B) (getString BEGIN_STRING (e_settings ?A))"
    by (simp add: next_not_in_header_def initiator_settings fields_ok_def good_field_def not_in_spec_def plain_specs
        plain_dictionary_sel(3) hasField_built findGroup_built getFieldType_def MAX_FIELD_TAG_def)
  from default_logon_refused[OF demo_plain(1) _ demo_due fresh_session_facts(1) _ st _ _ h n _ fresh_session_facts(2,6)] la(2,3)
  show ?thesis by (intro exI[of _ la]) (simp add: initiator_settings acceptor_settings fresh_session_facts inbound_def)
qed

end
