(* ===== verification/Replay.thy ===== *)
theory Replay
  imports SessionProps
begin

text \<open>
  What a replay sends. \<open>runMessageRecovery\<close> interleaves reading the cache, parsing, sending and
  counting; here it is shown to carry out a plan that depends on the cached messages only, and the
  plan is compared with the range that was asked for and with what the counterparty expects.
\<close>

section \<open>The plan\<close>

text \<open>A message sent again under its old number, or a gap fill with a number and the one it leads to.\<close>

datatype replay_item = Resend int message | Fill int int

fun first_number :: "replay_item \<Rightarrow> int" where
  "first_number (Resend n m) = n"
| "first_number (Fill a b) = a"

fun next_number :: "replay_item \<Rightarrow> int" where
  "next_number (Resend n m) = n + 1"
| "next_number (Fill a b) = b"

text \<open>The items account for every number from \<open>a\<close> up to, not including, \<open>b\<close>, each once and in order.\<close>

fun tiles :: "int \<Rightarrow> replay_item list \<Rightarrow> int \<Rightarrow> bool" where
  "tiles a [] b \<longleftrightarrow> a = b"
| "tiles a (i # is) b \<longleftrightarrow> first_number i = a \<and> a < next_number i \<and> tiles (next_number i) is b"

fun resends :: "replay_item list \<Rightarrow> (int \<times> message) list" where
  "resends [] = []"
| "resends (Resend n m # is) = (n, m) # resends is"
| "resends (Fill a b # is) = resends is"

definition session_level :: "message \<Rightarrow> bool" where
  "session_level m \<longleftrightarrow> (\<exists>t. getField (m_header m) FIELD_MsgType = Inr t \<and> t \<in> set SESSION_MSGS)"

definition typed :: "message \<Rightarrow> bool" where
  "typed m \<longleftrightarrow> (\<exists>t. getField (m_header m) FIELD_MsgType = Inr t)"

fun replay_plan :: "int \<Rightarrow> (int \<times> message) list \<Rightarrow> replay_item list" where
  "replay_plan a [] = []"
| "replay_plan a ((n, m) # es) =
     (if session_level m then replay_plan a es
      else (if n = a then [] else [Fill a n]) @ Resend n m # replay_plan (n + 1) es)"

fun reaches :: "int \<Rightarrow> replay_item list \<Rightarrow> int" where
  "reaches a [] = a"
| "reaches a (i # is) = reaches (next_number i) is"

text \<open>The steps that send one message again, and the execution of a plan.\<close>

definition resend :: "session_env \<Rightarrow> message \<Rightarrow> unit act" where
  "resend env orig =
     (let msg = copy_message orig in
      st_bind (set_header FIELD_PossDupFlag ''Y'' msg) (\<lambda>m1.
      st_bind (st_lift (getField (m_header m1) FIELD_SendingTime)) (\<lambda>sendingTime.
      st_bind (set_header FIELD_OrigSendingTime sendingTime m1) (\<lambda>m2.
      st_bind (getUTCTimestamp env) (\<lambda>ts.
      st_bind (set_header FIELD_SendingTime ts m2) (\<lambda>m3.
      internal_send env m3 None))))))"

fun run_item :: "session_env \<Rightarrow> replay_item \<Rightarrow> unit act" where
  "run_item env (Resend n m) = resend env m"
| "run_item env (Fill a b) = sendSequenceReset env a b True"

fun run_plan :: "session_env \<Rightarrow> replay_item list \<Rightarrow> unit act" where
  "run_plan env [] = st_ret ()"
| "run_plan env (i # is) = st_seq (run_item env i) (run_plan env is)"

section \<open>Replaying carries out the plan\<close>

lemma st_bind_assoc: "st_bind (st_bind m k) h = st_bind m (\<lambda>x. st_bind (k x) h)"
  by (rule ext) (simp add: st_bind_apply split: prod.splits sum.splits)

lemma st_lift_Inr [simp]: "st_lift (Inr x) = st_ret x"
  by (simp add: fun_eq_iff)

lemma st_ret_unit [simp]: "st_seq (st_ret x) m = m" "st_seq m (st_ret ()) = m"
  by (rule ext, simp add: st_seq_apply split: prod.splits sum.splits)+

lemma run_plan_append: "run_plan env (xs @ ys) = st_seq (run_plan env xs) (run_plan env ys)"
proof (induction xs)
  case Nil
  show ?case by (simp add: fun_eq_iff st_seq_apply)
next
  case (Cons i xs)
  then show ?case by (simp add: st_seq_def st_bind_assoc)
qed

lemma recover_runs_plan:
  assumes "list_all (\<lambda>(n, m). typed m \<and> is_int32 (n + 1)) es"
  shows "recover env a (map (\<lambda>(n, m). (n, Inr m)) es)
    = st_seq (run_plan env (replay_plan a es)) (st_ret (reaches a (replay_plan a es)))"
  using assms
proof (induction es arbitrary: a)
  case (Cons e es)
  obtain n m where e: "e = (n, m)" by force
  with Cons.prems obtain t where t: "getField (m_header m) FIELD_MsgType = Inr t" "is_int32 (n + 1)" by (auto simp: typed_def)
  have c: "getField (m_header (copy_message m)) FIELD_MsgType = Inr t" using t(1) by (simp add: copy_message_def getField_copy)
  have s: "session_level m \<longleftrightarrow> t \<in> set SESSION_MSGS" using t(1) by (simp add: session_level_def)
  have w: "wrap32 (n + 1) = n + 1" using t(2) by simp
  show ?case
  proof (cases "session_level m")
    case True
    with Cons e s t(1) c show ?thesis by (simp add: Let_def)
  next
    case False
    with s have ns: "t \<notin> set SESSION_MSGS" by simp
    have IH: "recover env b (map (\<lambda>(n, m). (n, Inr m)) es)
       = st_seq (run_plan env (replay_plan b es)) (st_ret (reaches b (replay_plan b es)))" for b
      using Cons.prems by (intro Cons.IH) simp
    have eq: "recover env a (map (\<lambda>(n, m). (n, Inr m)) (e # es)) =
        st_seq (when_do (n \<noteq> a) (sendSequenceReset env a n True))
          (st_seq (resend env m) (st_seq (run_plan env (replay_plan (n + 1) es)) (st_ret (reaches (n + 1) (replay_plan (n + 1) es)))))"
      using ns by (simp add: e Let_def c w IH resend_def st_seq_def st_bind_assoc)
    show ?thesis
      unfolding eq unfolding e using False
      by (cases "n = a") (simp_all add: when_do_def st_seq_def st_bind_assoc del: st_simps)
  qed
qed (simp add: st_seq_def del: st_simps)


text \<open>The whole answer to a request: the plan, and the gap fill at its end.\<close>

definition final_fill :: "int \<Rightarrow> int \<Rightarrow> int \<Rightarrow> replay_item list" where
  "final_fill a reached limit =
     (let ptr = (if reached \<noteq> a then reached - 1 else reached) in if ptr < limit then [Fill ptr limit] else [])"

lemma keeps_run_plan: "st_keeps (\<lambda>s. outbound s = v) (run_plan env is)"
proof (induction "is")
  case (Cons i "is")
  have "st_keeps (\<lambda>s. outbound s = v) (run_item env i)"
    by (cases i) (simp_all add: resend_def Let_def set_header_def, (intro keeps_intros outbound.keeps_sendSequenceReset outbound.keeps_internal_send)+)
  with Cons show ?case by (simp add: keeps_intros)
qed (unfold run_plan.simps, rule keeps_intros)

lemma reaches_int32: "is_int32 a \<Longrightarrow> list_all (\<lambda>(n, m). is_int32 (n + 1)) es \<Longrightarrow> is_int32 (reaches a (replay_plan a es))"
  by (induction a es rule: replay_plan.induct) auto

text \<open>The loop and its end together.\<close>

lemma recovery_runs_plan:
  assumes "getMessages (parse_settings_of (e_settings env)) (e_dictionary env) a (min b (c_senderSeqNum (s_cache s))) (s_cache s)
      = map (\<lambda>(n, m). (n, Inr m)) es"
    and "list_all (\<lambda>(n, m). typed m \<and> is_int32 (n + 1)) es" "is_int32 a" "a \<le> reaches a (replay_plan a es)"
    and "limit = (if min b (c_senderSeqNum (s_cache s)) \<noteq> 0 then min b (c_senderSeqNum (s_cache s)) else c_senderSeqNum (s_cache s))"
  shows "runMessageRecovery env a b s
    = run_plan env (replay_plan a es @ final_fill a (reaches a (replay_plan a es)) limit) s"
proof -
  let ?p = "replay_plan a es"
  have l: "list_all (\<lambda>(n, m). is_int32 (n + 1)) es" using assms(2) by (auto simp: list_all_iff)
  have w: "reaches a ?p \<noteq> a \<Longrightarrow> wrap32 (reaches a ?p - 1) = reaches a ?p - 1"
    using reaches_int32[OF assms(3) l] assms(3,4) by (simp add: is_int32_def)
  have k: "c_senderSeqNum (s_cache s') = c_senderSeqNum (s_cache s)" if "run_plan env ?p s = (r, s')" for r s'
    using st_keepsD[OF keeps_run_plan, of s "outbound s" env ?p] that by (simp add: outbound_def)
  show ?thesis
    using w k
    by (auto simp: runMessageRecovery_def st_bind_apply getSenderSeqNum_def assms(1,5) recover_runs_plan[OF assms(2)]
        run_plan_append st_seq_apply Let_def final_fill_def when_do_def split: prod.split sum.split)
qed


section \<open>What the plan covers\<close>

lemma resends_append [simp]: "resends (xs @ ys) = resends xs @ resends ys"
  by (induction xs rule: resends.induct) simp_all

lemma resends_plan: "resends (replay_plan a es) = filter (\<lambda>(n, m). \<not> session_level m) es"
  by (induction a es rule: replay_plan.induct) auto

text \<open>Tiling, and where it ends: after the last message resent, or at once when there is none.\<close>

definition covers :: "int \<Rightarrow> replay_item list \<Rightarrow> int \<Rightarrow> bool" where
  "covers a is reached \<longleftrightarrow> tiles a is reached \<and> a \<le> reached
     \<and> (if resends is = [] then is = [] \<and> reached = a
        else a < reached \<and> reached = fst (last (resends is)) + 1)"

lemma covers_Resend: "covers (n + 1) is r \<Longrightarrow> covers n (Resend n m # is) r"
  by (auto simp: covers_def split: if_splits)

lemma covers_Fill: "a < n \<Longrightarrow> covers n (Resend n m # is) r \<Longrightarrow> covers a (Fill a n # Resend n m # is) r"
  by (auto simp: covers_def split: if_splits)

lemma plan_covers:
  "sorted_wrt (<) (map fst es) \<Longrightarrow> (\<And>n m. (n, m) \<in> set es \<Longrightarrow> a \<le> n) \<Longrightarrow>
   covers a (replay_plan a es) (reaches a (replay_plan a es))"
proof (induction a es rule: replay_plan.induct)
  case (1 a)
  show ?case by (simp add: covers_def)
next
  case (2 a n m es)
  have s: "sorted_wrt (<) (map fst es)" using "2.prems"(1) by simp
  show ?case
  proof (cases "session_level m")
    case True
    have "covers a (replay_plan a es) (reaches a (replay_plan a es))"
      by (rule "2.IH"(1)[OF True s]) (use "2.prems"(2) in auto)
    then show ?thesis using True by simp
  next
    case False
    have "n + 1 \<le> k" if "(k, x) \<in> set es" for k x using "2.prems"(1) that by force
    with "2.IH"(2)[OF False s] have c: "covers n (Resend n m # replay_plan (n + 1) es) (reaches (n + 1) (replay_plan (n + 1) es))"
      by (intro covers_Resend) blast
    moreover have "a \<le> n" by (rule "2.prems"(2)[of n m]) simp
    ultimately show ?thesis using False by (cases "n = a") (auto intro: covers_Fill)
  qed
qed

text \<open>The messages kept in the cache, read back.\<close>

definition replayable :: "session_env \<Rightarrow> int \<Rightarrow> int \<Rightarrow> fix_cache_state \<Rightarrow> (int \<times> message) list \<Rightarrow> bool" where
  "replayable env a b c es \<longleftrightarrow> hmap_ok (c_messages c)
     \<and> getMessages (parse_settings_of (e_settings env)) (e_dictionary env) a b c = map (\<lambda>(n, m). (n, Inr m)) es
     \<and> list_all (\<lambda>(n, m). typed m \<and> is_int32 (n + 1)) es"

lemma replayable_sorted:
  assumes "replayable env a b c es"
  shows "sorted_wrt (<) (map fst es)" "(n, m) \<in> set es \<Longrightarrow> a \<le> n"
proof -
  have g: "map (\<lambda>(n, w). (n, parse (parse_settings_of (e_settings env)) (e_dictionary env) w)) (cache_entries a b c)
      = map (\<lambda>(n, m). (n, Inr m)) es"
    using assms by (simp add: replayable_def getMessages_def)
  from arg_cong[OF g, of "map fst"] have k: "map fst (cache_entries a b c) = map fst es"
    by (simp add: comp_def case_prod_beta)
  have r: "sorted_wrt (<) (map fst (cache_entries a b c))" "\<And>n w. (n, w) \<in> set (cache_entries a b c) \<Longrightarrow> a \<le> n"
    using replay_in_order[of c a b] assms by (auto simp: replayable_def Let_def)
  then show "sorted_wrt (<) (map fst es)" by (simp add: k)
  show "a \<le> n" if "(n, m) \<in> set es"
  proof -
    have "n \<in> set (map fst es)" using that by force
    then have "n \<in> set (map fst (cache_entries a b c))" by (simp only: k)
    then show ?thesis using r(2) by auto
  qed
qed

definition replay_limit :: "int \<Rightarrow> session \<Rightarrow> int" where
  "replay_limit b s = (let e = min b (c_senderSeqNum (s_cache s)) in if e \<noteq> 0 then e else c_senderSeqNum (s_cache s))"

text \<open>The numbers an item speaks for, and those a list of items accounts for.\<close>

fun item_numbers :: "replay_item \<Rightarrow> int set" where
  "item_numbers (Resend n m) = {n}"
| "item_numbers (Fill a b) = {a..<b}"

definition accounted :: "replay_item list \<Rightarrow> int set" where
  "accounted is = (\<Union>i\<in>set is. item_numbers i)"

lemma accounted_simps [simp]:
  "accounted [] = {}" "accounted (i # is) = item_numbers i \<union> accounted is" "accounted (xs @ ys) = accounted xs \<union> accounted ys"
  by (auto simp: accounted_def)

lemma item_numbers_interval: "item_numbers i = {first_number i..<next_number i}"
  by (cases i) auto

lemma tiles_accounted: "tiles a is b \<Longrightarrow> a \<le> b \<and> accounted is = {a..<b}"
proof (induction a "is" b rule: tiles.induct)
  case (2 a i "is" b)
  then show ?case by (auto simp: item_numbers_interval)
qed simp

text \<open>With the gap fill at the end: everything below the limit, and the limit itself only when it was resent.\<close>

lemma final_fill_completes:
  assumes "covers a is reached"
  shows "{a..<limit} \<subseteq> accounted (is @ final_fill a reached limit)"
    and "(\<And>n m. (n, m) \<in> set (resends is) \<Longrightarrow> a \<le> n \<and> n \<le> limit) \<Longrightarrow>
      accounted (is @ final_fill a reached limit) = {a..<limit} \<union> ({limit} \<inter> fst ` set (resends is))"
proof -
  have t: "accounted is = {a..<reached}" "a \<le> reached" using assms tiles_accounted[of a "is" reached] by (auto simp: covers_def)
  show "{a..<limit} \<subseteq> accounted (is @ final_fill a reached limit)"
    by (auto simp: t(1) final_fill_def Let_def)
  assume bound: "\<And>n m. (n, m) \<in> set (resends is) \<Longrightarrow> a \<le> n \<and> n \<le> limit"
  show "accounted (is @ final_fill a reached limit) = {a..<limit} \<union> ({limit} \<inter> fst ` set (resends is))"
  proof (cases "resends is = []")
    case True
    then show ?thesis using assms by (auto simp: covers_def final_fill_def Let_def)
  next
    case False
    then obtain l m where l: "last (resends is) = (l, m)" "(l, m) \<in> set (resends is)" by (metis last_in_set surj_pair)
    then have r: "a < reached" "reached = l + 1" "l \<le> limit" using assms False bound[of l m] by (auto simp: covers_def)
    have other: "n < reached" if "(n, x) \<in> set (resends is)" for n x
    proof -
      have "n \<in> accounted is" using that by (induction "is" rule: resends.induct) auto
      then show ?thesis using t(1) by simp
    qed
    have "limit \<in> fst ` set (resends is) \<longleftrightarrow> l = limit" using l(2) other r by force
    then show ?thesis using r by (auto simp: t(1) final_fill_def Let_def)
  qed
qed

lemma replayable_bound:
  assumes "replayable env a e c es" "e \<noteq> 0" "(n, m) \<in> set es"
  shows "n \<le> e"
proof -
  have g: "map (\<lambda>(n, w). (n, parse (parse_settings_of (e_settings env)) (e_dictionary env) w)) (cache_entries a e c)
      = map (\<lambda>(n, m). (n, Inr m)) es"
    using assms by (simp add: replayable_def getMessages_def)
  from arg_cong[OF g, of "map fst"] have k: "map fst (cache_entries a e c) = map fst es"
    by (simp add: comp_def case_prod_beta)
  have "n \<in> set (map fst (cache_entries a e c))" unfolding k using assms(3) by force
  moreover have "\<And>n w. (n, w) \<in> set (cache_entries a e c) \<Longrightarrow> n \<le> e"
    using replay_in_order[of c a e] assms(1,2) by (auto simp: replayable_def Let_def)
  ultimately show ?thesis by auto
qed

text \<open>C9: a replay is the execution of a plan. For a cache whose texts parse, \<open>runMessageRecovery\<close> sends
  exactly the items of a plan and a final gap fill, in order. The plan resends the application
  messages kept in the requested range, each once, in ascending order, and skips those of session
  level; its items account for every number from the first one asked for to one past the last message
  resent, without gap or overlap. With the final gap fill (which speaks for the last resent number a
  second time) every number from the first one asked for up to, but not including, the limit is
  accounted for. The limit is the end of the range asked for, or the next number to be sent when the
  request is open ended or goes past it. For a range with an end nothing else is accounted for, except
  the limit itself when it was resent: so a last requested number that is not resent (not kept, or of
  session level) is left unanswered.\<close>

theorem replay_covers_range:
  assumes "replayable env a (min b (c_senderSeqNum (s_cache s))) (s_cache s) es" "is_int32 a"
  defines "limit \<equiv> replay_limit b s"
  shows "\<exists>is reached. runMessageRecovery env a b s = run_plan env (is @ final_fill a reached limit) s
    \<and> covers a is reached \<and> resends is = filter (\<lambda>(n, m). \<not> session_level m) es
    \<and> {a..<limit} \<subseteq> accounted (is @ final_fill a reached limit)
    \<and> (min b (c_senderSeqNum (s_cache s)) \<noteq> 0 \<longrightarrow>
        accounted (is @ final_fill a reached limit)
          = {a..<limit} \<union> ({limit} \<inter> fst ` set (filter (\<lambda>(n, m). \<not> session_level m) es)))"
proof -
  have c: "covers a (replay_plan a es) (reaches a (replay_plan a es))"
    using replayable_sorted[OF assms(1)] by (intro plan_covers)
  then have run: "runMessageRecovery env a b s
      = run_plan env (replay_plan a es @ final_fill a (reaches a (replay_plan a es)) limit) s"
    using assms unfolding replayable_def
    by (intro recovery_runs_plan) (simp_all add: covers_def replay_limit_def Let_def)
  have "min b (c_senderSeqNum (s_cache s)) \<noteq> 0 \<longrightarrow>
      accounted (replay_plan a es @ final_fill a (reaches a (replay_plan a es)) limit)
        = {a..<limit} \<union> ({limit} \<inter> fst ` set (resends (replay_plan a es)))"
  proof (intro impI final_fill_completes(2)[OF c])
    show "a \<le> n \<and> n \<le> limit" if "min b (c_senderSeqNum (s_cache s)) \<noteq> 0" "(n, m) \<in> set (resends (replay_plan a es))" for n m
      using that replayable_sorted(2)[OF assms(1), of n m] replayable_bound[OF assms(1), of n m]
      by (simp add: limit_def replay_limit_def Let_def resends_plan)
  qed
  with run c final_fill_completes(1)[OF c, of limit] show ?thesis
    unfolding resends_plan[symmetric, of es a] by blast
qed


section \<open>The gap fill at the end\<close>

lemma low_number_refused:
  assumes "getIntField (m_header msg) FIELD_MsgSeqNum = Inr n" "n < c_targetSeqNum (s_cache s)"
  shows "\<exists>r s'. validateSeqNum env msg s = (r, s') \<and> r \<noteq> Inr True \<and> inbound s' = inbound s \<and> s_state s' \<in> {KILLING, LOGON}"
proof -
  let ?t = "c_targetSeqNum (s_cache s)"
  let ?reason = "''MsgSeqNum too low, expected '' @ dec_int ?t @ '', received '' @ dec_int n"
  have "validateSeqNum env msg s = refuse (logout env ?reason True) s"
    using assms by (simp add: validateSeqNum_def st_bind_apply getTargetSeqNum_def)
  moreover obtain r s' where "refuse (logout env ?reason True) s = (r, s')" by force
  moreover from this have "s' = snd (logout env ?reason True s)"
    by (auto simp: refuse_def st_seq_apply split: prod.splits sum.splits)
  ultimately show ?thesis
    using st_keepsD[OF inbound.keeps_logout, of s "inbound s" env ?reason True] logout_closes[of env ?reason s] by auto
qed

text \<open>C10: the final gap fill ends the connection it is sent on. After a replay that resent something, a
  counterparty that took every item expects the number after the last one resent. The final gap
  fill carries the number of that last message again (the pointer is stepped back before it is
  sent). When its text arrives, well addressed and in a state that lets it through, the gate finds
  the number too low, although the message is marked as a possible duplicate: nothing is taken in
  and the session is closed or marked for killing.\<close>

theorem final_fill_disconnects:
  assumes "covers a is reached" "resends is \<noteq> []" "final_fill a reached limit = [Fill n new]"
    and "passes env msg time" "admits (s_state s) MSG_SEQUENCE_RESET" "getField (m_header msg) FIELD_MsgType = Inr MSG_SEQUENCE_RESET"
    and "getIntField (m_header msg) FIELD_MsgSeqNum = Inr n" "getIntField (m_body msg) FIELD_NewSeqNo = Inr new"
      "tryGetBool (m_body msg) FIELD_GapFillFlag"
    and "c_targetSeqNum (s_cache s) = reached"
  defines "s' \<equiv> snd (processMessage env msg time s)"
  shows "n = fst (last (resends is)) \<and> inbound s' = inbound s \<and> s_state s' \<in> {KILLING, LOGON}"
proof -
  have n: "n = reached - 1" "new = limit" "n = fst (last (resends is))" "reached \<le> limit"
    using assms(1-3) by (auto simp: covers_def final_fill_def Let_def split: if_splits)
  have v: "validateMessage env msg MSG_SEQUENCE_RESET time s = (Inr True, s)"
    using assms(4,5) by (intro validateMessage_passes) (auto simp: admits_def)
  obtain r s1 where low: "validateSeqNum env msg s = (r, s1)" "r \<noteq> Inr True" "inbound s1 = inbound s" "s_state s1 \<in> {KILLING, LOGON}"
    using low_number_refused[OF assms(7), of s env] assms(10) n(1) by auto
  have "snd (handleSequenceReset env msg s) = s1"
    using low(1,2) assms(3,7-10) n(1,2,4)
    by (cases r) (auto simp: handleSequenceReset_def Let_def st_bind_apply getTargetSeqNum_def when_do_def)
  then have "s' = s1"
    using assms(6) v by (auto simp: s'_def processMessage_def st_bind_apply)
  with low n(3) show ?thesis by simp
qed


section \<open>The number of a gap fill\<close>

text \<open>What \<open>setField\<close> does in the case that \<open>setField_writes_one_field\<close> leaves out: the bytes in the
  owned storage are overwritten, the view keeps its old length.\<close>

lemma setField_misplaced:
  assumes "misplaced tag True m" "lhm_ok (fm_fields m)" "lhm_lookup (fm_fields m) tag = Some (Own i n)"
    and "i = find_slot (fm_owned m) tag" "i < length (fm_owned m)" "fm_owned m ! i = (tag, cap, bytes)"
    and "length value \<le> cap" "setField tag value True m = Inr m'"
  shows "getField m' tag = Inr (take n (value @ CHR 0x00 # drop (Suc (length value)) bytes))"
proof -
  let ?m = "with_owned ((fm_owned m)[i := (tag, cap, value @ CHR 0x00 # drop (Suc (length value)) bytes)]) (fm_ownedCap m) m"
  have "misplaced tag True ?m" using assms(1) by (simp add: misplaced_def cong: option.case_cong)
  then have "map_of (fm_fields (insertFieldView tag (Own i (length value)) True ?m)) tag = Some (Own i n)"
    using assms(2,3) by (simp add: insertFieldView_lookup lhm_lookup_map_of)
  then show ?thesis
    using assms(4-8) by (auto simp: setField_def Let_def getField_map_of split: if_splits)
qed

lemma demo_reset_spec: "\<exists>spec. getMessageSpecRaw demo_dictionary MSG_SEQUENCE_RESET = Some spec"
proof -
  have "char_of (52 :: nat) = CHR ''4''" by code_simp
  then show ?thesis by (simp add: getMessageSpecRaw_def demo_dictionary_def demo_bodies_def FAST_MSGTYPE_SIZE_def)
qed

text \<open>That case occurs in the first steps of \<open>sendSequenceReset\<close>. The header's order lets OrigSendingTime
  be inserted near the front, after which MsgSeqNum, appended unordered by \<open>populateMessage\<close>, is
  misplaced: a gap fill for number 5 in a session that is at 120 carries the bytes 5, NUL, 0.\<close>

lemma gap_fill_number_garbled:
  assumes "e_dictionary env = demo_dictionary" "c_senderSeqNum (s_cache s) = 120"
  shows "fst (st_bind (createMessage env MSG_SEQUENCE_RESET) (\<lambda>m0.
        st_bind (populateMessage env m0 0) (\<lambda>(_, m1).
        st_bind (set_header FIELD_OrigSendingTime ts m1) (\<lambda>m2.
        st_bind (set_header FIELD_MsgSeqNum (dec_int 5) m2) (\<lambda>m3.
        st_lift (getField (m_header m3) FIELD_MsgSeqNum))))) s) = Inr [CHR ''5'', CHR 0x00, CHR ''0'']"
proof -
  have d: "dec_int 120 = ''120''" "dec_int 5 = ''5''" by code_simp+
  have h: "gs_ordered demo_header" "gs_fieldOrder demo_header = [8, 9, 35, 49, 56, 34, 43, 52, 122, 789, 141]" "d_headerSpec demo_dictionary = demo_header"
    by (simp_all add: demo_header_def demo_dictionary_def)
  obtain spec where spec: "getMessageSpecRaw demo_dictionary MSG_SEQUENCE_RESET = Some spec"
    using demo_reset_spec by blast
  note ops = lhm_insert_at_def getField_map_of setField_def setFieldView_def insertFieldView_def new_slot_def OWNED_STORAGE_CAPACITY_def sso_capacity_def has_sso_view_def
  show ?thesis
    by (simp add: createMessage_def assms create_def spec h st_bind_apply populateMessage_def getEpochMillis_def ask_def getSenderSeqNum_def
      writeTimestamp_def setFieldInt_def set_header_def Let_def d ops split: prod.splits sum.splits)
qed

section \<open>An instance\<close>

definition replaying_session :: session where
  "replaying_session = demo_ready\<lparr>s_cache := (s_cache demo_ready)\<lparr>c_senderSeqNum := 10, c_messages := [(2, demo_order 2)]\<rparr>\<rparr>"

lemma replay_covers_range_witness:
  "\<exists>m is reached is' reached'. demo_parse (demo_order 2) = Inr m
    \<and> runMessageRecovery (demo_env ''acceptor'') 2 0 replaying_session
        = run_plan (demo_env ''acceptor'') (is @ final_fill 2 reached 10) replaying_session
    \<and> covers 2 is reached \<and> resends is = [(2, m)] \<and> {2..<10} \<subseteq> accounted (is @ final_fill 2 reached 10)
    \<and> runMessageRecovery (demo_env ''acceptor'') 2 3 replaying_session
        = run_plan (demo_env ''acceptor'') (is' @ final_fill 2 reached' 3) replaying_session
    \<and> resends is' = [(2, m)] \<and> accounted (is' @ final_fill 2 reached' 3) = {2}"
proof -
  obtain m where m: "demo_parse (demo_order 2) = Inr m" "getField (m_header m) FIELD_MsgType = Inr ''D''"
    using demo_order_parsed by metis
  have n: "filter (\<lambda>(n, m). \<not> session_level m) [(2, m)] = [(2, m)]" using m by (simp add: session_level_def SESSION_MSGS_def)
  have all: "replayable (demo_env ''acceptor'') 2 (min 0 (c_senderSeqNum (s_cache replaying_session))) (s_cache replaying_session) [(2, m)]"
    and some: "replayable (demo_env ''acceptor'') 2 (min 3 (c_senderSeqNum (s_cache replaying_session))) (s_cache replaying_session) [(2, m)]"
    using m by (simp_all add: replayable_def getMessages_def cache_entries_def replaying_session_def typed_def is_int32_def
        hmap_ok_def sort_by_key_def)
  have l: "replay_limit 0 replaying_session = 10" "replay_limit 3 replaying_session = 3" "is_int32 2"
      "min 3 (c_senderSeqNum (s_cache replaying_session)) \<noteq> 0" "{2..<3} \<union> ({3} \<inter> fst ` set [(2, m)]) = {2 :: int}"
    by (auto simp: replay_limit_def replaying_session_def is_int32_def)
  obtain "is" r where a: "runMessageRecovery (demo_env ''acceptor'') 2 0 replaying_session
        = run_plan (demo_env ''acceptor'') (is @ final_fill 2 r 10) replaying_session"
      "covers 2 is r" "resends is = [(2, m)]" "{2..<10} \<subseteq> accounted (is @ final_fill 2 r 10)"
    using replay_covers_range[OF all l(3), unfolded l n] by blast
  obtain is' r' where b: "runMessageRecovery (demo_env ''acceptor'') 2 3 replaying_session
        = run_plan (demo_env ''acceptor'') (is' @ final_fill 2 r' 3) replaying_session"
      "resends is' = [(2, m)]" "accounted (is' @ final_fill 2 r' 3) = {2}"
    using replay_covers_range[OF some l(3), unfolded l(2) n l(5)] l(4) by metis
  show ?thesis using m(1) a b by blast
qed

definition fill_text :: string where
  "fill_text = demo_text MSG_SEQUENCE_RESET 2 [(123, ''Y''), (36, ''5'')]"

lemma fill_parsed:
  "case demo_parse fill_text of Inl _ \<Rightarrow> False | Inr m \<Rightarrow>
     passes (demo_env ''acceptor'') m 0 \<and> getField (m_header m) FIELD_MsgType = Inr MSG_SEQUENCE_RESET
     \<and> getIntField (m_header m) FIELD_MsgSeqNum = Inr 2 \<and> getIntField (m_body m) FIELD_NewSeqNo = Inr 5
     \<and> tryGetBool (m_body m) FIELD_GapFillFlag"
  by code_simp

lemma final_fill_disconnects_witness:
  "\<exists>m. demo_parse fill_text = Inr m
    \<and> s_state (snd (processMessage (demo_env ''acceptor'') m 0 (demo_ready\<lparr>s_cache := (s_cache demo_ready)\<lparr>c_targetSeqNum := 3\<rparr>\<rparr>)))
       \<in> {KILLING, LOGON}"
proof -
  obtain m where m: "demo_parse fill_text = Inr m" "passes (demo_env ''acceptor'') m 0"
      "getField (m_header m) FIELD_MsgType = Inr MSG_SEQUENCE_RESET" "getIntField (m_header m) FIELD_MsgSeqNum = Inr 2"
      "getIntField (m_body m) FIELD_NewSeqNo = Inr 5" "tryGetBool (m_body m) FIELD_GapFillFlag"
    using fill_parsed by (auto split: sum.splits)
  have c: "covers 2 [Resend 2 empty_message] 3" "final_fill 2 3 5 = [Fill 2 5]"
    by (simp_all add: covers_def final_fill_def)
  from final_fill_disconnects[OF c(1) _ c(2) m(2) _ m(3-6), of "demo_ready\<lparr>s_cache := (s_cache demo_ready)\<lparr>c_targetSeqNum := 3\<rparr>\<rparr>"] m(1)
  show ?thesis by (simp add: admits_def)
qed

end
