(* ===== verification/Recovery.thy ===== *)
theory Recovery
  imports EndToEnd Replay
begin

text \<open>
  How a gap is closed between two sessions: the receiver keeps the early message and asks for what it
  lacks, the sender replays from its cache, the receiver delivers the replayed messages and then the
  one it kept. The parts are those of \<open>Replay\<close> (the sender's side) and \<open>EndToEnd\<close> (the way of a text
  from one session to the other).
\<close>

section \<open>The receiver\<close>

definition taken_in :: "session_env \<Rightarrow> message \<Rightarrow> session \<Rightarrow> session" where
  "taken_in env m s = (received m (int (e_clock env (s_tick s))) s)
     \<lparr>s_cache := snd (cache_nextTargetSeqNum (s_cache s)), s_delegated := s_delegated s @ [OnMessage m]\<rparr>"

lemma taken_in_sel [simp]:
  "s_cache (taken_in env m s) = snd (cache_nextTargetSeqNum (s_cache s))" "s_state (taken_in env m s) = s_state s"
  "s_delegated (taken_in env m s) = s_delegated s @ [OnMessage m]" "s_tick (taken_in env m s) = Suc (s_tick s)"
  by (simp_all add: taken_in_def)

lemma receive_delivers:
  assumes "takes env txt m (c_targetSeqNum (s_cache s))" "passes env m (reading env (s_tick s))" "s_state s = READY"
    "e_delegate env = Some (\<lambda>_. st_ret ())"
  shows "receive env txt s =
    st_seq (drain env (reading env (s_tick s)) (length (c_inboundQueue (s_cache s)))) (set_cachedEpoch 0) (taken_in env m s)"
proof -
  let ?us = "int (e_clock env (s_tick s))"
  obtain t where t: "parse (parse_settings_of (e_settings env)) (e_dictionary env) txt = Inr m"
      "getField (m_header m) FIELD_MsgType = Inr t" "app_type t"
      "getIntField (m_header m) FIELD_MsgSeqNum = Inr (c_targetSeqNum (s_cache s))"
    using assms(1) by (auto simp: takes_def)
  have "processMessage env m (cdiv ?us 1000) (received m ?us s) = (Inr (), taken_in env m s)"
    using in_sequence_delivered[OF _ t(2,3) _ _ _ assms(4), of "cdiv ?us 1000" "received m ?us s"] assms(2,3) t(4)
    by (simp add: taken_in_def reading_def)
  then show ?thesis
    by (simp add: receive_parsed[OF t(1) refl] st_seq_apply st_bind_apply reading_def cache_ops)
qed

text \<open>In front of a number that is still missing, the loop over the queue stops at once; when the
  missing number was the one before the queued message, that message follows.\<close>

lemma receive_before_gap:
  assumes "takes env txt m (c_targetSeqNum (s_cache s))" "passes env m (reading env (s_tick s))" "s_state s = READY"
    "e_delegate env = Some (\<lambda>_. st_ret ())"
    "c_inboundQueue (s_cache s) = [(k, late)]" "wrap32 (c_targetSeqNum (s_cache s) + 1) \<noteq> k"
  defines "s' \<equiv> snd (onNetworkMessage env txt s)"
  shows "fst (onNetworkMessage env txt s) = Inr ()"
    "inbound s' = (wrap32 (c_targetSeqNum (s_cache s) + 1), [(k, late)], s_delegated s @ [OnMessage m])"
    "s_state s' = READY" "s_tick s' = Suc (s_tick s)"
proof -
  have "receive env txt s = (Inr (), (taken_in env m s)\<lparr>s_cachedEpochUs := 0\<rparr>)"
    using assms(5,6) by (simp add: receive_delivers[OF assms(1-4)] st_seq_apply st_bind_apply set_cachedEpoch_def cache_ops)
  from onNetworkMessage_returns[OF _ this] assms(3,5) 
  show "fst (onNetworkMessage env txt s) = Inr ()"
    "inbound s' = (wrap32 (c_targetSeqNum (s_cache s) + 1), [(k, late)], s_delegated s @ [OnMessage m])"
    "s_state s' = READY" "s_tick s' = Suc (s_tick s)"
    by (simp_all add: s'_def inbound_def cache_ops)
qed

definition queued_ok :: "message \<Rightarrow> int \<Rightarrow> bool" where
  "queued_ok m n \<longleftrightarrow> (\<exists>t. getField (m_header m) FIELD_MsgType = Inr t \<and> app_type t)
     \<and> getIntField (m_header m) FIELD_MsgSeqNum = Inr n"

lemma receive_closes_gap:
  assumes "takes env txt m (c_targetSeqNum (s_cache s))" "passes env m (reading env (s_tick s))" "s_state s = READY"
    "e_delegate env = Some (\<lambda>_. st_ret ())"
    "c_inboundQueue (s_cache s) = [(k, late)]" "wrap32 (c_targetSeqNum (s_cache s) + 1) = k"
    "queued_ok late k" "passes env late (reading env (s_tick s))"
  defines "s' \<equiv> snd (onNetworkMessage env txt s)"
  shows "fst (onNetworkMessage env txt s) = Inr ()"
    "inbound s' = (wrap32 (k + 1), [], s_delegated s @ [OnMessage m, OnMessage late])"
    "s_state s' = READY" "s_tick s' = Suc (s_tick s)"
proof -
  define s1 where "s1 = taken_in env m s"
  define s2 where "s2 = s1\<lparr>s_cache := snd (cache_nextTargetSeqNum (s_cache s1)), s_delegated := s_delegated s1 @ [OnMessage late]\<rparr>"
  obtain t where t: "getField (m_header late) FIELD_MsgType = Inr t" "app_type t" "getIntField (m_header late) FIELD_MsgSeqNum = Inr k"
    using assms(7) by (auto simp: queued_ok_def)
  have s1: "s_state s1 = READY" "c_targetSeqNum (s_cache s1) = k" "c_inboundQueue (s_cache s1) = [(k, late)]"
    using assms(3,5,6) by (simp_all add: s1_def cache_ops)
  have p: "processMessage env late (reading env (s_tick s)) s1 = (Inr (), s2)"
    unfolding s2_def using t s1 assms(4,8) by (intro in_sequence_delivered) simp_all
  have q: "c_inboundQueue (s_cache s2) = [(k, late)]" using s1 by (simp add: s2_def cache_ops)
  have "receive env txt s = (Inr (), s2\<lparr>s_cache := (s_cache s2)\<lparr>c_inboundQueue := []\<rparr>, s_cachedEpochUs := 0\<rparr>)"
    unfolding receive_delivers[OF assms(1-4)] s1_def[symmetric]
    using s1 by (simp add: st_seq_apply st_bind_apply p erase_first_def q assms(5) set_cachedEpoch_def)
  from onNetworkMessage_returns[OF _ this] assms(3) s1
  show "fst (onNetworkMessage env txt s) = Inr ()"
    "inbound s' = (wrap32 (k + 1), [], s_delegated s @ [OnMessage m, OnMessage late])"
    "s_state s' = READY" "s_tick s' = Suc (s_tick s)"
    by (simp_all add: s'_def inbound_def s2_def cache_ops) (simp_all add: s1_def)
qed

text \<open>Texts with consecutive numbers from \<open>n\<close> on, the \<open>j\<close>-th in time at the receiver's reading \<open>i + j\<close>.\<close>

fun fills :: "session_env \<Rightarrow> nat \<Rightarrow> int \<Rightarrow> (string \<times> message) list \<Rightarrow> bool" where
  "fills env i n [] \<longleftrightarrow> True"
| "fills env i n ((txt, m) # xs) \<longleftrightarrow>
     takes env txt m n \<and> passes env m (reading env i) \<and> fills env (Suc i) (n + 1) xs"

lemma gap_filled:
  assumes "fills env (s_tick s) n xs" "xs \<noteq> []" "e_delegate env = Some (\<lambda>_. st_ret ())"
    "s_state s = READY" "inbound s = (n, [(n + int (length xs), late)], evs)" "is_int32 n" "is_int32 (n + int (length xs))"
    "queued_ok late (n + int (length xs))" "passes env late (reading env (s_tick s + length xs - 1))"
  defines "s' \<equiv> receive_each env (map fst xs) s"
  shows "inbound s' = (wrap32 (n + int (length xs) + 1), [], evs @ map (OnMessage \<circ> snd) xs @ [OnMessage late])
    \<and> s_state s' = READY \<and> s_tick s' = s_tick s + length xs"
  using assms(1,2,4-9) unfolding s'_def
proof (induction xs arbitrary: s n evs)
  case (Cons x xs)
  obtain tx m where x: "x = (tx, m)" by force
  have i: "c_targetSeqNum (s_cache s) = n" "s_delegated s = evs" "c_inboundQueue (s_cache s) = [(n + int (length (x # xs)), late)]"
    using Cons.prems(4) by (simp_all add: inbound_def)
  have f: "takes env tx m (c_targetSeqNum (s_cache s))" "passes env m (reading env (s_tick s))" "fills env (Suc (s_tick s)) (n + 1) xs"
    using Cons.prems(1) x i by simp_all
  define s1 where "s1 = snd (onNetworkMessage env tx s)"
  have w: "wrap32 (n + 1) = n + 1" using Cons.prems(5,6) by (simp add: is_int32_def)
  show ?case
  proof (cases "xs = []")
    case True
    note c = receive_closes_gap[OF f(1,2) Cons.prems(3) assms(3) i(3), folded s1_def]
    have "inbound s1 = (wrap32 (n + 1 + 1), [], evs @ [OnMessage m, OnMessage late])"
      "s_state s1 = READY" "s_tick s1 = Suc (s_tick s)"
      using c Cons.prems(7,8) True i w by simp_all
    then show ?thesis using True x by (simp add: s1_def)
  next
    case False
    have "wrap32 (c_targetSeqNum (s_cache s) + 1) \<noteq> n + int (length (x # xs))" using w i(1) False by simp
    note c = receive_before_gap[OF f(1,2) Cons.prems(3) assms(3) i(3) this, folded s1_def]
    have s1: "inbound s1 = (n + 1, [(n + 1 + int (length xs), late)], evs @ [OnMessage m])" using c(2) i w by (simp add: algebra_simps)
    have g: "is_int32 (n + 1)" "is_int32 (n + 1 + int (length xs))" "queued_ok late (n + 1 + int (length xs))"
      "passes env late (reading env (s_tick s1 + length xs - 1))"
      using Cons.prems(5-8) False c(4) by (simp_all add: algebra_simps is_int32_def)
    have fs: "fills env (s_tick s1) (n + 1) xs" using f(3) c(4) by simp
    show ?thesis using Cons.IH[OF fs False c(3) s1 g] x c(4) by (simp add: s1_def[symmetric] algebra_simps)
  qed
qed simp

section \<open>The gap opens\<close>

lemma sendResendRequest_sends:
  assumes "create (e_dictionary env) MSG_RESEND_REQUEST = Inr m0" "handler_ok (s_network s)" "isConnected (s_network s)"
  obtains req s' where "sendResendRequest env a b s = (Inr (), s')"
    "handler_sent (s_network s') = handler_sent (s_network s) @ [toString True req]"
    "getField (m_body req) FIELD_BeginSeqNo = Inr (dec_int a)" "getField (m_body req) FIELD_EndSeqNo = Inr (dec_int b)"
proof -
  note c = created_body[OF assms(1)]
  obtain b1 where b1: "setField FIELD_BeginSeqNo (dec_int a) True (m_body m0) = Inr b1"
      "fst ` set (fm_owned b1) = {FIELD_BeginSeqNo}" "length (fm_owned b1) = 1" "16 \<le> fm_ownedCap b1"
    using setField_fits[of "m_body m0" FIELD_BeginSeqNo "dec_int a" True] c by auto
  obtain b2 where b2: "setField FIELD_EndSeqNo (dec_int b) True b1 = Inr b2"
    using setField_fits[of b1 FIELD_EndSeqNo "dec_int b" True] b1 by auto
  have e: "\<not> fm_has (m_body m0) k" for k by (simp add: fm_has_getField getField_map_of c)
  note f1 = setField_absent[OF c(3) b1(1) e]
  have "\<not> fm_has b1 FIELD_EndSeqNo" using e[of FIELD_EndSeqNo] by (simp add: fm_has_getField f1(2))
  note f2 = setField_absent(2)[OF f1(1) b2 this, unfolded f1(2)]
  have g: "getField b2 FIELD_BeginSeqNo = Inr (dec_int a)" "getField b2 FIELD_EndSeqNo = Inr (dec_int b)" by (simp_all add: f2)
  obtain req s' where s: "send env (m0\<lparr>m_body := b2\<rparr>) None s = (Inr req, s')" "m_body req = b2"
    using send_created[OF assms(1), of None s "m0\<lparr>m_body := b2\<rparr>" env] assms(2) by (auto simp: own_callback_def)
  have "sendResendRequest env a b s = (Inr (), s')"
    by (simp add: sendResendRequest_def createMessage_def assms(1) set_body_def st_bind_apply b1(1) b2 send_only_def s(1))
  moreover have "handler_sent (s_network s') = handler_sent (s_network s) @ [toString True req]"
    using send_spec[OF _ assms(2) s(1)] assms(3) by (simp add: own_callback_def)
  ultimately show thesis using that g s(2) by simp
qed

lemma gap_opened:
  assumes "takes env txt late k" "passes env late (reading env (s_tick s))" "s_state s = READY"
    "c_inboundQueue (s_cache s) = []" "c_targetSeqNum (s_cache s) = n" "n < k" "k \<noteq> 0"
    "create (e_dictionary env) MSG_RESEND_REQUEST = Inr m0" "handler_ok (s_network s)" "isConnected (s_network s)"
  defines "s' \<equiv> snd (onNetworkMessage env txt s)"
  shows "fst (onNetworkMessage env txt s) = Inr ()" "inbound s' = (n, [(k, copy_message late)], s_delegated s)" "s_state s' = READY"
    "\<exists>req. handler_sent (s_network s') = handler_sent (s_network s) @ [toString True req]
      \<and> getField (m_body req) FIELD_BeginSeqNo = Inr (dec_int n) \<and> getField (m_body req) FIELD_EndSeqNo = Inr (dec_int k)"
proof -
  define us where "us = int (e_clock env (s_tick s))"
  define time where "time = cdiv us 1000"
  obtain t where t: "parse (parse_settings_of (e_settings env)) (e_dictionary env) txt = Inr late"
      "getField (m_header late) FIELD_MsgType = Inr t" "app_type t" "getIntField (m_header late) FIELD_MsgSeqNum = Inr k"
    using assms(1) by (auto simp: takes_def)
  define s1 where "s1 = received late us s"
  define s2 where "s2 = s1\<lparr>s_cache := (s_cache s1)\<lparr>c_inboundQueue := [(k, copy_message late)]\<rparr>\<rparr>"
  obtain req s3 where s3: "sendResendRequest env n k s2 = (Inr (), s3)"
    "handler_sent (s_network s3) = handler_sent (s_network s2) @ [toString True req]"
    "getField (m_body req) FIELD_BeginSeqNo = Inr (dec_int n)" "getField (m_body req) FIELD_EndSeqNo = Inr (dec_int k)"
    by (rule sendResendRequest_sends[OF assms(8), of s2 n k]) (simp_all add: s2_def s1_def assms(9,10))
  have v: "validateMessage env late t time s1 = (Inr True, s1)"
    using assms(2,3) by (intro validateMessage_passes) (simp_all add: s1_def reading_def time_def us_def)
  have "validateSeqNum env late s1 = (Inr False, s3)"
    using t(4) assms(4-7) s3(1) unfolding s2_def
    by (simp add: validateSeqNum_def st_bind_apply getTargetSeqNum_def refuse_def st_seq_apply on_cache_def s1_def)
  then have p: "processMessage env late time s1 = (Inr (), s3)"
    using t(2,3) v by (simp add: processMessage_def st_bind_apply app_type_def SESSION_MSGS_def)
  have i: "inbound s3 = inbound s2" "s_state s3 = s_state s2"
    using st_keepsD[OF inbound.keeps_sendResendRequest, of s2 "inbound s2" env n k]
      st_keepsD[OF steady.keeps_sendResendRequest, of s2 "(s_state s2, s_heartbeatInterval s2)" env n k] s3(1) by simp_all
  then have q: "c_inboundQueue (s_cache s3) = [(k, copy_message late)]" "c_targetSeqNum (s_cache s3) = n"
    using assms(5) by (simp_all add: inbound_def s2_def s1_def)
  have "receive env txt s = (Inr (), s3\<lparr>s_cachedEpochUs := 0\<rparr>)"
    using q assms(6)
    by (simp add: receive_parsed[OF t(1) us_def[symmetric], folded time_def s1_def] st_seq_apply st_bind_apply p set_cachedEpoch_def)
  from onNetworkMessage_returns[OF _ this] assms(3) i s3
  show "fst (onNetworkMessage env txt s) = Inr ()" "inbound s' = (n, [(k, copy_message late)], s_delegated s)" "s_state s' = READY"
    "\<exists>req. handler_sent (s_network s') = handler_sent (s_network s) @ [toString True req]
      \<and> getField (m_body req) FIELD_BeginSeqNo = Inr (dec_int n) \<and> getField (m_body req) FIELD_EndSeqNo = Inr (dec_int k)"
    using assms(5) by (auto simp: s'_def inbound_def s2_def s1_def)
qed

section \<open>The copy of the message that was kept\<close>

lemma copy_refused:
  assumes "takes env txt m k" "passes env m (reading env (s_tick s))" "s_state s = READY"
    "c_inboundQueue (s_cache s) = []" "k < c_targetSeqNum (s_cache s)"
  defines "s' \<equiv> snd (onNetworkMessage env txt s)"
  shows "inbound s' = inbound s" "s_state s' \<in> {KILLING, LOGON}"
proof -
  define us where "us = int (e_clock env (s_tick s))"
  define time where "time = cdiv us 1000"
  obtain t where t: "parse (parse_settings_of (e_settings env)) (e_dictionary env) txt = Inr m"
      "getField (m_header m) FIELD_MsgType = Inr t" "app_type t" "getIntField (m_header m) FIELD_MsgSeqNum = Inr k"
    using assms(1) by (auto simp: takes_def)
  define s1 where "s1 = received m us s"
  have v: "validateMessage env m t time s1 = (Inr True, s1)"
    using assms(2,3) by (intro validateMessage_passes) (simp_all add: s1_def reading_def time_def us_def)
  obtain r s2 where low: "validateSeqNum env m s1 = (r, s2)" "r \<noteq> Inr True" "inbound s2 = inbound s1" "s_state s2 \<in> {KILLING, LOGON}"
    using low_number_refused[OF t(4), of s1 env] assms(5) by (auto simp: s1_def)
  have q: "c_inboundQueue (s_cache s2) = []" using low(3) assms(4) by (simp add: inbound_def s1_def)
  have p: "processMessage env m time s1 = ((case r of Inl e \<Rightarrow> Inl e | Inr _ \<Rightarrow> Inr ()), s2)"
    using t(2,3) v low(1,2)
    by (cases r) (simp_all add: processMessage_def st_bind_apply app_type_def SESSION_MSGS_def)
  have "s' \<in> {s2, s2\<lparr>s_cachedEpochUs := 0\<rparr>}"
    using assms(3) q
    by (cases r) (simp_all add: s'_def onNetworkMessage_def st_bind_apply catch_all_def st_seq_apply
        receive_parsed[OF t(1) us_def[symmetric], folded time_def s1_def] p set_cachedEpoch_def)
  then show "inbound s' = inbound s" "s_state s' \<in> {KILLING, LOGON}"
    using low(3,4) by (auto simp: inbound_def s1_def)
qed

section \<open>The sender: marking a copy\<close>

text \<open>The header of the copy that a replay makes, and the copy with the time stamp it is sent with.\<close>

definition premarked :: "message \<Rightarrow> exn + field_map" where
  "premarked orig =
     sbind (setField FIELD_PossDupFlag ''Y'' True (copy_fm (m_header orig))) (\<lambda>h1.
     sbind (getField h1 FIELD_SendingTime) (\<lambda>t. setField FIELD_OrigSendingTime t True h1))"

definition marked :: "string \<Rightarrow> message \<Rightarrow> exn + message" where
  "marked ts orig =
     sbind (premarked orig) (\<lambda>h2.
     sbind (setField FIELD_SendingTime ts True h2) (\<lambda>h3. Inr ((copy_message orig)\<lparr>m_header := h3\<rparr>)))"

text \<open>A field in its own slot, whose view has the length \<open>n\<close>.\<close>

definition slotted :: "int \<Rightarrow> nat \<Rightarrow> field_map \<Rightarrow> bool" where
  "slotted tag n m \<longleftrightarrow> map_of (fm_fields m) tag = Some (Own (find_slot (fm_owned m) tag) n)
     \<and> find_slot (fm_owned m) tag < length (fm_owned m) \<and> n \<le> fst (snd (fm_owned m ! find_slot (fm_owned m) tag))"

lemma find_slot_update: "fst x = fst (ow ! i) \<Longrightarrow> find_slot (ow[i := x]) tag = find_slot ow tag"
  by (induction ow arbitrary: i) (auto split: nat.split)

lemma find_slot_append: "find_slot ow tag < length ow \<Longrightarrow> find_slot (ow @ ys) tag = find_slot ow tag"
  by (induction ow) auto

lemma slotted_other:
  assumes "fm_wf m" "slotted tag n m" "setField k v True m = Inr m'" "k \<noteq> tag"
  shows "slotted tag n m'"
proof -
  have ok: "lhm_ok (fm_fields (with_owned ow c m))" for ow c using assms(1) by (simp add: fm_wf_def)
  show ?thesis
  proof (cases "find_slot (fm_owned m) k = length (fm_owned m)")
    case True
    obtain cap where "m' = insertFieldView k (Own (length (fm_owned m)) (length v)) True
        (with_owned (fm_owned m @ [new_slot k v]) cap m)"
      by (rule setField_fresh[OF True assms(3)])
    with assms(2,4) ok show ?thesis
      by (simp add: slotted_def insertFieldView_lookup find_slot_append nth_append)
  next
    case False
    note m' = setField_present(1)[OF False assms(3)]
    have ne: "find_slot (fm_owned m) k \<noteq> find_slot (fm_owned m) tag"
      using find_slot_fst[OF False] find_slot_fst[of "fm_owned m" tag] assms(2,4) by (auto simp: slotted_def)
    with assms(2,4) ok show ?thesis
      by (simp add: slotted_def m' insertFieldView_lookup find_slot_update)
  qed
qed

text \<open>A value of the same length is written in place and read back, wherever the field stands.\<close>

lemma setField_same_length:
  assumes "fm_wf m" "slotted tag (length v) m"
  obtains m' where "setField tag v True m = Inr m'" "getField m' tag = Inr v"
proof -
  let ?i = "find_slot (fm_owned m) tag"
  have i: "?i < length (fm_owned m)" "length v \<le> fst (snd (fm_owned m ! ?i))" "map_of (fm_fields m) tag = Some (Own ?i (length v))"
    using assms(2) by (simp_all add: slotted_def)
  let ?m = "with_owned ((fm_owned m)[?i := assign_slot v (fm_owned m ! ?i)]) (fm_ownedCap m) m"
  have "setField tag v True m = Inr (insertFieldView tag (Own ?i (length v)) True ?m)"
    using i(1,2) by (simp add: setField_def Let_def)
  moreover have "map_of (fm_fields (insertFieldView tag (Own ?i (length v)) True ?m)) tag = Some (Own ?i (length v))"
    using assms(1) i(3) by (simp add: insertFieldView_lookup fm_wf_def)
  ultimately show thesis
    using that[of "insertFieldView tag (Own ?i (length v)) True ?m"] i(1) assign_slot_facts(2)[of v "fm_owned m ! ?i"]
    by (simp add: getField_map_of case_prod_beta del: assign_slot_facts(2))
qed

lemma find_slot_nth: "distinct (map fst ow) \<Longrightarrow> i < length ow \<Longrightarrow> find_slot ow (fst (ow ! i)) = i"
proof (induction ow arbitrary: i)
  case (Cons x ow)
  then show ?case by (cases i) (force simp: in_set_conv_nth)+
qed simp

lemma slotted_copy:
  assumes "lhm_ok (fm_fields m)" "getField m tag = Inr v"
  shows "slotted tag (length v) (copy_fm m)"
proof -
  obtain w where w: "map_of (fm_fields m) tag = Some w" "v = fv_read (fm_owned m) w"
    using assms(2) by (auto simp: getField_map_of split: option.splits)
  then obtain i where i: "i < length (fm_fields m)" "fm_fields m ! i = (tag, w)"
    by (auto dest!: map_of_SomeD simp: in_set_conv_nth)
  have o: "length (fm_owned (copy_fm m)) = length (fm_fields m)" "fm_owned (copy_fm m) ! i = new_slot tag v"
    using i w(2) by (simp_all add: copy_fm_sel)
  have d: "distinct (map fst (fm_owned (copy_fm m)))"
    using assms(1) by (simp add: copy_fm_sel lhm_ok_def comp_def new_slot_def case_prod_beta)
  have f: "find_slot (fm_owned (copy_fm m)) tag = i"
    using find_slot_nth[OF d, of i] i(1) o by (simp add: new_slot_def)
  have k: "distinct (map fst (fm_fields (copy_fm m)))"
    using assms(1) shown_copy[of m] by (metis keys_shown lhm_ok_def)
  have "fm_fields (copy_fm m) ! i = (tag, Own i (length v))" "i < length (fm_fields (copy_fm m))"
    using i w(2) by (simp_all add: copy_fm_sel nth_enumerate_eq)
  then have "map_of (fm_fields (copy_fm m)) tag = Some (Own i (length v))"
    using k by (metis map_of_eq_Some_iff nth_mem)
  then show ?thesis using o i(1) f by (simp add: slotted_def new_slot_def)
qed

text \<open>A message that the cache of A can send again so that B takes it: an application message with the
  number \<open>n\<close> and A's stamps, a time stamp of full length, no mark of an earlier replay, and few
  enough header fields for the storage; marked with any time stamp, B's dictionary describes it.\<close>

definition unmarked :: "session_env \<Rightarrow> int \<Rightarrow> message \<Rightarrow> bool" where
  "unmarked A n m \<longleftrightarrow>
     lhm_ok (fm_fields (m_header m)) \<and> length (fm_fields (m_header m)) \<le> 11
     \<and> (\<exists>t. getField (m_header m) FIELD_MsgType = Inr t \<and> app_type t)
     \<and> getField (m_header m) FIELD_BeginString = Inr (getString BEGIN_STRING (e_settings A))
     \<and> getField (m_header m) FIELD_SenderCompID = Inr (getString SENDER_COMP_ID (e_settings A))
     \<and> getField (m_header m) FIELD_TargetCompID = Inr (getString TARGET_COMP_ID (e_settings A))
     \<and> getField (m_header m) FIELD_MsgSeqNum = Inr (dec_int n)
     \<and> (\<exists>t. getField (m_header m) FIELD_SendingTime = Inr t \<and> length t = 21)
     \<and> \<not> fm_has (m_header m) FIELD_PossDupFlag \<and> \<not> fm_has (m_header m) FIELD_OrigSendingTime"

definition resendable :: "session_env \<Rightarrow> session_env \<Rightarrow> int \<Rightarrow> message \<Rightarrow> bool" where
  "resendable A B n m \<longleftrightarrow> unmarked A n m
     \<and> (\<forall>ts msg. length ts = 21 \<longrightarrow> SOH \<notin> set ts \<longrightarrow> marked ts m = Inr msg \<longrightarrow> described B msg)"

lemma premarked_fields:
  assumes "unmarked A n m"
  obtains h where "premarked m = Inr h" "fm_wf h" "slotted 52 21 h" "fm_has h FIELD_OrigSendingTime"
    "\<And>k. k \<notin> {43, 52, 122} \<Longrightarrow> getField h k = getField (m_header m) k"
proof -
  let ?h = "copy_fm (m_header m)"
  have ok: "lhm_ok (fm_fields (m_header m))" "length (fm_fields (m_header m)) \<le> 11" using assms by (simp_all add: unmarked_def)
  have wf: "fm_wf ?h" using copy_fm_wf[OF ok(1)] by simp
  have ow: "fst ` set (fm_owned ?h) = set (lhm_keys (fm_fields (m_header m)))" "length (fm_owned ?h) \<le> 11" "16 \<le> fm_ownedCap ?h"
    using ok(2) by (cases "m_header m"; force simp: copy_fm_sel new_slot_def OWNED_STORAGE_CAPACITY_def)+
  have no: "43 \<notin> fst ` set (fm_owned ?h)" "122 \<notin> fst ` set (fm_owned ?h)"
    using assms unfolding ow(1) by (simp_all add: unmarked_def fm_has_def lhm_has_def)
  obtain t where t: "getField (m_header m) 52 = Inr t" "length t = 21" using assms by (auto simp: unmarked_def)
  obtain h1 where h1: "setField FIELD_PossDupFlag ''Y'' True ?h = Inr h1" "fst ` set (fm_owned h1) = insert 43 (fst ` set (fm_owned ?h))"
      "length (fm_owned h1) = Suc (length (fm_owned ?h))" "16 \<le> fm_ownedCap h1"
    using setField_fits[of ?h FIELD_PossDupFlag "''Y''" True] ow(2,3) no(1) by auto
  note g1 = setField_lookup(1)[OF wf h1(1)] setField_wf[OF wf h1(1)]
  obtain h2 where h2: "setField FIELD_OrigSendingTime t True h1 = Inr h2"
    using setField_fits[of h1 FIELD_OrigSendingTime t True] h1(2-4) ow(2) no(2) by auto
  note g2 = setField_lookup(1)[OF g1(2) h2] setField_wf[OF g1(2) h2]
  have "slotted 52 21 h2"
    using slotted_other[OF g1(2) _ h2] slotted_other[OF wf slotted_copy[OF ok(1) t(1)] h1(1)] t(2) by simp
  moreover have "122 \<notin> set (lhm_keys (fm_fields h1))"
    using g1(1)[of 122] assms fm_has_getField[of "m_header m" 122] fm_has_getField[of h1 122]
    by (auto simp: unmarked_def getField_copy fm_has_def lhm_has_def)
  then have "getField h2 FIELD_OrigSendingTime = Inr t"
    by (intro setField_lookup(2)[OF g1(2) h2] absent_not_misplaced)
  then have "fm_has h2 FIELD_OrigSendingTime" by (simp add: fm_has_getField)
  moreover have "getField h2 k = getField (m_header m) k" if "k \<notin> {43, 52, 122}" for k
    using that g2(1)[of k] g1(1)[of k] by (simp add: getField_copy)
  moreover have "premarked m = Inr h2"
    using h1(1) h2 g1(1)[of 52] t(1) by (simp add: premarked_def getField_copy)
  ultimately show thesis using that g2(2) by blast
qed

lemma marked_fields:
  assumes "unmarked A n m" "length ts = 21"
  obtains msg where "marked ts m = Inr msg" "m_body msg = copy_fm (m_body m)"
    "getField (m_header msg) FIELD_SendingTime = Inr ts" "fm_has (m_header msg) FIELD_OrigSendingTime"
    "\<And>k. k \<notin> {43, 52, 122} \<Longrightarrow> getField (m_header msg) k = getField (m_header m) k"
proof -
  obtain h2 where h2: "premarked m = Inr h2" "fm_wf h2" "slotted 52 21 h2" "fm_has h2 FIELD_OrigSendingTime"
    "\<And>k. k \<notin> {43, 52, 122} \<Longrightarrow> getField h2 k = getField (m_header m) k"
    by (rule premarked_fields[OF assms(1)]) (rule that)
  obtain h3 where h3: "setField FIELD_SendingTime ts True h2 = Inr h3" "getField h3 FIELD_SendingTime = Inr ts"
    using setField_same_length[OF h2(2), of 52 ts] h2(3) assms(2) by auto
  note g3 = setField_lookup(1)[OF h2(2) h3(1)]
  have "fm_has h3 FIELD_OrigSendingTime" using g3[of 122] h2(4) by (simp add: fm_has_getField)
  moreover have "getField h3 k = getField (m_header m) k" if "k \<notin> {43, 52, 122}" for k
    using that g3[of k] h2(5)[of k] by simp
  moreover have "marked ts m = Inr ((copy_message m)\<lparr>m_header := h3\<rparr>)" by (simp add: marked_def h2(1) h3(1))
  ultimately show thesis using that h3(2) by (simp add: copy_message_def)
qed

lemma resend_marked:
  assumes "marked (fst (writeUTCTimestamp (s_utcTs s) (e_clock env (s_tick s) div 1000))) m = Inr msg"
  shows "resend env m s = internal_send env msg None
    (s\<lparr>s_tick := Suc (s_tick s), s_utcTs := snd (writeUTCTimestamp (s_utcTs s) (e_clock env (s_tick s) div 1000))\<rparr>)"
  using assms
  by (auto simp: resend_def marked_def premarked_def copy_message_def Let_def set_header_def st_bind_apply getUTCTimestamp_def ask_def case_prod_beta
      elim!: sbind_InrE)

section \<open>The sender: transmitting the copies\<close>

text \<open>A connected sender whose cached time stamp is sound.\<close>

definition transmits :: "session \<Rightarrow> bool" where
  "transmits a \<longleftrightarrow> handler_ok (s_network a) \<and> isConnected (s_network a) \<and> ts_cache_ok (s_utcTs a)"

lemma internal_send_transmits:
  assumes "transmits a"
  obtains a' where "internal_send env msg None a = (Inr (), a')" "transmits a'"
    "handler_sent (s_network a') = handler_sent (s_network a) @ [toString True msg]"
    "s_tick a \<le> s_tick a'" "s_tick a' \<le> s_tick a + 2"
proof -
  obtain us i where us: "send_time env a = (Inr us, a\<lparr>s_tick := i\<rparr>)" "s_tick a \<le> i" "i \<le> Suc (s_tick a)"
  proof (cases "s_cachedEpochUs a = 0")
    case True
    then show thesis by (intro that[of _ "Suc (s_tick a)"]) (simp_all add: send_time_def st_bind_apply getEpochMicros_def ask_def)
  next
    case False
    then show thesis by (intro that[of _ "s_tick a"]) (simp_all add: send_time_def st_bind_apply)
  qed
  obtain r h where rh: "nh_send (e_inline env i) (toString True msg) None (s_network a) = (r, h)" by force
  note c = handler.ok_transmit[of "s_network a" "e_inline env i" "toString True msg" None]
    handler.conn_transmit[of "s_network a" "e_inline env i" "toString True msg" None]
    handler.sent_transmit[of "s_network a" "e_inline env i" "toString True msg" None]
    handler.callback_transmit[of "s_network a" "e_inline env i" "toString True msg" None]
  have h: "handler_ok h" "isConnected h" "r = None" "handler_sent h = handler_sent (s_network a) @ [toString True msg]"
    using c assms rh by (simp_all add: transmits_def split: if_splits)
  have "internal_send env msg None a = (Inr (), a\<lparr>s_tick := Suc i, s_network := h,
      s_msgLogger := writeMessage (s_msgLogger a) (nat us) False (toString True msg), s_lastSentHeartbeat := cdiv us 1000\<rparr>)"
    using assms rh h(3)
    by (simp add: internal_send_def internal_send_wire_def st_bind_apply st_seq_apply us(1) when_do_def logMessage_def
        Session.network_send_def ask_def transmits_def)
  then show thesis using that h us(2,3) assms by (simp add: transmits_def)
qed

lemma resend_sends:
  assumes "transmits a" "resendable A B n m" "1000000 \<le> e_clock A (s_tick a)" "e_clock A (s_tick a) < 253402300800000000"
  obtains msg ts a' where "resend A m a = (Inr (), a')" "transmits a'"
    "handler_sent (s_network a') = handler_sent (s_network a) @ [toString True msg]"
    "s_tick a \<le> s_tick a'" "s_tick a' \<le> s_tick a + 3" "described B msg" "m_body msg = copy_fm (m_body m)"
    "getField (m_header msg) FIELD_SendingTime = Inr ts" "parseUTCTimestamp ts = int (e_clock A (s_tick a) div 1000)"
    "fm_has (m_header msg) FIELD_OrigSendingTime"
    "\<And>k. k \<notin> {43, 52, 122} \<Longrightarrow> getField (m_header msg) k = getField (m_header m) k"
proof -
  let ?t = "e_clock A (s_tick a) div 1000"
  define ts where "ts = fst (writeUTCTimestamp (s_utcTs a) ?t)"
  have c: "ts_cache_ok (s_utcTs a)" using assms(1) by (simp add: transmits_def)
  have t: "length ts = 21" "parseUTCTimestamp ts = int ?t" "SOH \<notin> set ts"
    using written_timestamp[OF c, of ?t] timestamp_clean[OF c, of ?t] assms(3,4) by (auto simp: ts_def)
  obtain msg where msg: "marked ts m = Inr msg" "m_body msg = copy_fm (m_body m)"
    "getField (m_header msg) FIELD_SendingTime = Inr ts" "fm_has (m_header msg) FIELD_OrigSendingTime"
    "\<And>k. k \<notin> {43, 52, 122} \<Longrightarrow> getField (m_header msg) k = getField (m_header m) k"
    using marked_fields[of A n m ts] assms(2) t(1) unfolding resendable_def by blast
  have d: "described B msg" using assms(2) t(1,3) msg(1) by (simp add: resendable_def)
  define a1 where "a1 = a\<lparr>s_tick := Suc (s_tick a), s_utcTs := snd (writeUTCTimestamp (s_utcTs a) ?t)\<rparr>"
  have "transmits a1"
    using assms(1) c by (simp add: transmits_def a1_def writeUTCTimestamp_def Let_def refresh_cache_ok)
  then obtain a' where a': "internal_send A msg None a1 = (Inr (), a')" "transmits a'"
    "handler_sent (s_network a') = handler_sent (s_network a) @ [toString True msg]"
    "s_tick a1 \<le> s_tick a'" "s_tick a' \<le> s_tick a1 + 2"
    by (rule internal_send_transmits[of a1 A msg]) (simp add: a1_def)
  have "resend A m a = (Inr (), a')"
    using resend_marked[of a A m msg] msg(1) a'(1) by (simp add: ts_def a1_def)
  then show thesis using that[OF _ a'(2,3)] a'(4,5) d msg t(2) by (simp add: a1_def)
qed

text \<open>A's readings \<open>i\<close> to \<open>i + m\<close> and B's readings \<open>j\<close> to \<open>j + l\<close> are all close to each other.\<close>

definition clocks_close :: "session_env \<Rightarrow> session_env \<Rightarrow> nat \<Rightarrow> nat \<Rightarrow> nat \<Rightarrow> nat \<Rightarrow> bool" where
  "clocks_close A B i m j l \<longleftrightarrow> (\<forall>x<m. \<forall>y<l. clocks_agree A B (i + x) (j + y))"

fun consecutive :: "int \<Rightarrow> (int \<times> 'a) list \<Rightarrow> bool" where
  "consecutive n [] \<longleftrightarrow> True"
| "consecutive n ((i, m) # es) \<longleftrightarrow> i = n \<and> consecutive (n + 1) es"

lemma replays_fill:
  assumes "counterparts A B" "list_all (\<lambda>(i, m). resendable A B i m \<and> is_int32 i) es" "consecutive n es" "transmits a"
    "clocks_close A B (s_tick a) (3 * length es) j (length es)"
  shows "\<exists>xs a'. run_plan A (map (case_prod Resend) es) a = (Inr (), a')
    \<and> handler_sent (s_network a') = handler_sent (s_network a) @ map fst xs
    \<and> fills B j n xs \<and> map (shown \<circ> m_body \<circ> snd) xs = map (sent \<circ> m_body \<circ> snd) es"
  using assms(2-5)
proof (induction es arbitrary: n a j)
  case Nil
  show ?case by (intro exI[of _ "[]"]) simp
next
  case (Cons e es)
  obtain m where e: "e = (n, m)" using Cons.prems(2) by (cases e) simp
  have r: "resendable A B n m" "is_int32 n" "list_all (\<lambda>(i, m). resendable A B i m \<and> is_int32 i) es" "consecutive (n + 1) es"
    using Cons.prems(1,2) e by simp_all
  have near: "clocks_agree A B (s_tick a) j" using Cons.prems(4) by (force simp: clocks_close_def)
  have clk: "1000000 \<le> e_clock A (s_tick a)" "e_clock A (s_tick a) < 253402300800000000"
    "\<bar>reading B j - int (e_clock A (s_tick a) div 1000)\<bar> \<le> getLong SENDING_TIME_THRESHOLD (e_settings B) * 1000"
    using near by (simp_all add: clocks_agree_def reading_def zdiv_int)
  obtain msg ts a1 where s: "resend A m a = (Inr (), a1)" "transmits a1"
    "handler_sent (s_network a1) = handler_sent (s_network a) @ [toString True msg]"
    "s_tick a \<le> s_tick a1" "s_tick a1 \<le> s_tick a + 3" "described B msg" "m_body msg = copy_fm (m_body m)"
    "getField (m_header msg) FIELD_SendingTime = Inr ts" "parseUTCTimestamp ts = int (e_clock A (s_tick a) div 1000)"
    "fm_has (m_header msg) FIELD_OrigSendingTime"
    "\<And>k. k \<notin> {43, 52, 122} \<Longrightarrow> getField (m_header msg) k = getField (m_header m) k"
    by (rule resend_sends[OF Cons.prems(3) r(1) clk(1,2)]) (rule that)
  obtain m' where m': "takes B (toString True msg) m' n" "passes B m' (reading B j)" "shown (m_body m') = sent (m_body msg)"
  proof (rule addressed_taken[OF s(6) _ _ _ _ r(2) s(8)])
    show "getField (m_header msg) FIELD_BeginString = Inr (getString BEGIN_STRING (e_settings B))"
      "getField (m_header msg) FIELD_SenderCompID = Inr (getString TARGET_COMP_ID (e_settings B))"
      "getField (m_header msg) FIELD_TargetCompID = Inr (getString SENDER_COMP_ID (e_settings B))"
      "getField (m_header msg) FIELD_MsgSeqNum = Inr (dec_int n)"
      using r(1) assms(1) s(11)[of 8] s(11)[of 49] s(11)[of 56] s(11)[of 34] by (simp_all add: resendable_def unmarked_def counterparts_def)
  qed (use clk(3) s(9,10) in simp_all)
  have "clocks_close A B (s_tick a1) (3 * length es) (Suc j) (length es)"
    unfolding clocks_close_def
  proof (intro allI impI)
    fix x y assume "x < 3 * length es" "y < length es"
    then have "s_tick a1 - s_tick a + x < 3 * length (e # es)" "Suc y < length (e # es)" using s(4,5) by simp_all
    then have "clocks_agree A B (s_tick a + (s_tick a1 - s_tick a + x)) (j + Suc y)"
      using Cons.prems(4) unfolding clocks_close_def by blast
    then show "clocks_agree A B (s_tick a1 + x) (Suc j + y)" using s(4) by simp
  qed
  from Cons.IH[OF r(3,4) s(2) this] obtain xs a' where
    IH: "run_plan A (map (case_prod Resend) es) a1 = (Inr (), a')"
      "handler_sent (s_network a') = handler_sent (s_network a1) @ map fst xs"
      "fills B (Suc j) (n + 1) xs" "map (shown \<circ> m_body \<circ> snd) xs = map (sent \<circ> m_body \<circ> snd) es" by blast
  have "sent (copy_fm (m_body m)) = sent (m_body m)" by (simp add: sent_def shown_copy)
  with IH e m' s(1,3,7) show ?case
    by (intro exI[of _ "(toString True msg, m') # xs"] exI[of _ a']) (simp add: st_seq_apply comp_def)
qed

section \<open>The gap is closed\<close>

lemma plan_consecutive:
  "consecutive n es \<Longrightarrow> list_all (\<lambda>(i, m). \<not> session_level m) es \<Longrightarrow>
   replay_plan n es = map (case_prod Resend) es \<and> reaches n (map (case_prod Resend) es) = n + int (length es)"
  by (induction es arbitrary: n) auto

lemma fills_append: "fills B j n (xs @ ys) \<longleftrightarrow> fills B j n xs \<and> fills B (j + length xs) (n + int (length xs)) ys"
  by (induction xs arbitrary: j n) (auto simp: algebra_simps)

lemma queued_copy: "takes B w late k \<Longrightarrow> queued_ok (copy_message late) k"
  by (auto simp: takes_def queued_ok_def copy_message_def getField_copy getIntField_def)

lemma passes_copy: "passes B (copy_message m) t \<longleftrightarrow> passes B m t"
  by (simp add: passes_def copy_message_def getField_copy fm_has_getField tryGetBool_getField)

text \<open>B is logged on and expects \<open>n\<close>, but the text that arrives carries the later number \<open>k\<close>.\<close>

definition arrives_early :: "session_env \<Rightarrow> session \<Rightarrow> int \<Rightarrow> int \<Rightarrow> string \<Rightarrow> message \<Rightarrow> bool" where
  "arrives_early B b n k w late \<longleftrightarrow>
     s_state b = READY \<and> c_inboundQueue (s_cache b) = [] \<and> c_targetSeqNum (s_cache b) = n
     \<and> handler_ok (s_network b) \<and> isConnected (s_network b) \<and> \<not> isl (create (e_dictionary B) MSG_RESEND_REQUEST)
     \<and> takes B w late k \<and> passes B late (reading B (s_tick b)) \<and> 0 < n \<and> n < k \<and> is_int32 (k + 1)"

text \<open>A is connected and its cache holds the messages \<open>n\<close> to \<open>k\<close>, all of them resendable.\<close>

definition can_replay :: "session_env \<Rightarrow> session_env \<Rightarrow> session \<Rightarrow> int \<Rightarrow> int \<Rightarrow> (int \<times> message) list \<Rightarrow> bool" where
  "can_replay A B a n k es \<longleftrightarrow>
     transmits a \<and> k < c_senderSeqNum (s_cache a) \<and> replayable A n k (s_cache a) es
     \<and> consecutive n es \<and> n + int (length es) = k + 1 \<and> list_all (\<lambda>(i, m). resendable A B i m) es"

lemma replay_sends:
  assumes "can_replay A B a n k es" "counterparts A B" "0 < n" "n < k" "is_int32 (k + 1)"
    "clocks_close A B (s_tick a) (3 * length es) j (length es)"
  obtains xs a' where "runMessageRecovery A n k a = (Inr (), a')"
    "handler_sent (s_network a') = handler_sent (s_network a) @ map fst xs"
    "fills B j n xs" "map (shown \<circ> m_body \<circ> snd) xs = map (sent \<circ> m_body \<circ> snd) es"
proof -
  have r: "transmits a" "k < c_senderSeqNum (s_cache a)" "replayable A n k (s_cache a) es" "consecutive n es"
      "n + int (length es) = k + 1" "list_all (\<lambda>(i, m). resendable A B i m) es"
    using assms(1) by (simp_all add: can_replay_def)
  have ns: "list_all (\<lambda>(i, m). \<not> session_level m) es"
    using r(6) by (auto simp: list_all_iff resendable_def unmarked_def session_level_def app_type_def)
  note plan = plan_consecutive[OF r(4) ns]
  have mem: "n \<le> i \<and> i < n + int (length es)" if "consecutive n es" "(i, m) \<in> set es" for i and m :: message and n es
    using that by (induction n es rule: consecutive.induct) auto
  have i32: "list_all (\<lambda>(i, m). resendable A B i m \<and> is_int32 i) es"
    using r(6) mem[OF r(4)] assms(3,5) r(5) by (fastforce simp: list_all_iff is_int32_def)
  have k: "min k (c_senderSeqNum (s_cache a)) = k" "k \<noteq> 0" "is_int32 n" using r(2) assms(3-5) by (auto simp: is_int32_def)
  have "runMessageRecovery A n k a = run_plan A (replay_plan n es @ final_fill n (reaches n (replay_plan n es)) k) a"
    using r(3) k plan by (intro recovery_runs_plan) (auto simp: replayable_def)
  also have "\<dots> = run_plan A (map (case_prod Resend) es) a"
    using plan r(5) assms(4) by (simp add: final_fill_def)
  finally have e: "runMessageRecovery A n k a = run_plan A (map (case_prod Resend) es) a" .
  show thesis
    using replays_fill[OF assms(2) i32 r(4,1) assms(6)] that unfolding e by blast
qed

text \<open>C2: how a gap is closed, between two sessions. B expects \<open>n\<close> when a message with the later number \<open>k\<close>
  arrives, and A's cache holds the messages \<open>n\<close> to \<open>k\<close>. B delivers nothing, keeps the message and asks
  for \<open>n\<close> to \<open>k\<close>; A's answer to that range is one copy of each of these messages, in order, and
  nothing else. When B has received the copies before \<open>k\<close>, its application has got the missing messages
  and then the one kept, each once, in order and with their bodies in place, and B expects \<open>k + 1\<close>. The
  request however names \<open>k\<close> itself, which B already has: the last copy is found too low, although it
  is marked as a possible duplicate, and closes the connection or marks it for killing.\<close>

theorem gap_closed:
  assumes "counterparts A B" "e_delegate B = Some (\<lambda>_. st_ret ())"
    "arrives_early B b n k w late" "can_replay A B a n k es"
  defines "b1 \<equiv> snd (onNetworkMessage B w b)"
  assumes "clocks_close A B (s_tick a) (3 * length es) (s_tick b1) (length es)"
    "passes B late (reading B (s_tick b1 + length es - 2))"
  shows "\<exists>req missing copy a'.
     handler_sent (s_network b1) = handler_sent (s_network b) @ [toString True req]
     \<and> getField (m_body req) FIELD_BeginSeqNo = Inr (dec_int n) \<and> getField (m_body req) FIELD_EndSeqNo = Inr (dec_int k)
     \<and> delivered b1 = delivered b
     \<and> runMessageRecovery A n k a = (Inr (), a')
     \<and> handler_sent (s_network a') = handler_sent (s_network a) @ missing @ [copy]
     \<and> (let b2 = receive_each B missing b1; b3 = snd (onNetworkMessage B copy b2) in
        map (shown \<circ> m_body) (delivered b2)
          = map (shown \<circ> m_body) (delivered b) @ map (sent \<circ> m_body \<circ> snd) (butlast es) @ [shown (m_body late)]
        \<and> s_state b2 = READY \<and> c_targetSeqNum (s_cache b2) = k + 1
        \<and> inbound b3 = inbound b2 \<and> s_state b3 \<in> {KILLING, LOGON})"
proof -
  have B: "s_state b = READY" "c_inboundQueue (s_cache b) = []" "c_targetSeqNum (s_cache b) = n"
      "handler_ok (s_network b)" "isConnected (s_network b)" "takes B w late k" "passes B late (reading B (s_tick b))"
      "0 < n" "n < k" "is_int32 (k + 1)"
    using assms(3) by (simp_all add: arrives_early_def)
  obtain m0 where m0: "create (e_dictionary B) MSG_RESEND_REQUEST = Inr m0"
    using assms(3) by (cases "create (e_dictionary B) MSG_RESEND_REQUEST") (auto simp: arrives_early_def)
  have "k \<noteq> 0" using B(8,9) by simp
  note gap = gap_opened[OF B(6,7,1-3,9) this m0 B(4,5), folded b1_def]
  have len: "n + int (length es) = k + 1" using assms(4) by (simp add: can_replay_def)
  obtain xs a' where xs: "runMessageRecovery A n k a = (Inr (), a')"
    "handler_sent (s_network a') = handler_sent (s_network a) @ map fst xs"
    "fills B (s_tick b1) n xs" "map (shown \<circ> m_body \<circ> snd) xs = map (sent \<circ> m_body \<circ> snd) es"
    by (rule replay_sends[OF assms(4,1) B(8-10) assms(6)])
  have lx: "length xs = length es" using arg_cong[OF xs(4), of length] by simp
  have "xs \<noteq> []" using lx len B(9) by auto
  then obtain ys last where xy: "xs = ys @ [last]" by (metis append_butlast_last_id)
  have ys: "xs = ys @ [last]" "ys \<noteq> []" "n + int (length ys) = k" "length es = Suc (length ys)"
    using lx len B(9) xy by auto
  obtain copy m where last: "last = (copy, m)" by force
  have f: "fills B (s_tick b1) n ys" "takes B copy m k" "passes B m (reading B (s_tick b1 + length ys))"
    using xs(3) ys(1,3) last by (simp_all add: fills_append)
  define b2 where "b2 = receive_each B (map fst ys) b1"
  have bodies: "map (shown \<circ> m_body \<circ> snd) ys = map (sent \<circ> m_body \<circ> snd) (butlast es)"
    using arg_cong[OF xs(4), of butlast] ys(1) by (simp add: map_butlast)
  have "passes B (copy_message late) (reading B (s_tick b1 + length ys - 1))"
    using assms(7) ys(4) by (simp add: passes_copy)
  then have filled: "inbound b2 = (k + 1, [], s_delegated b @ map (OnMessage \<circ> snd) ys @ [OnMessage (copy_message late)])"
      "s_state b2 = READY" "s_tick b2 = s_tick b1 + length ys"
    using gap_filled[OF f(1) ys(2) assms(2) gap(3), of "copy_message late" "s_delegated b"] gap(2) ys(3) B(8-10) queued_copy[OF B(6)]
    by (simp_all add: b2_def is_int32_def)
  have app: "app_messages (map (OnMessage \<circ> snd) zs) = map snd zs" for zs :: "(string \<times> message) list" by (induction zs) auto
  have d: "map (shown \<circ> m_body) (delivered b2)
      = map (shown \<circ> m_body) (delivered b) @ map (sent \<circ> m_body \<circ> snd) (butlast es) @ [shown (m_body late)]"
    using filled(1) bodies by (simp add: inbound_def delivered_def app copy_message_def shown_copy comp_assoc)
  note refused = copy_refused[OF f(2) _ filled(2)]
  have r: "inbound (snd (onNetworkMessage B copy b2)) = inbound b2" "s_state (snd (onNetworkMessage B copy b2)) \<in> {KILLING, LOGON}"
    using refused f(3) filled(1,3) by (simp_all add: inbound_def)
  obtain req where req: "handler_sent (s_network b1) = handler_sent (s_network b) @ [toString True req]"
    "getField (m_body req) FIELD_BeginSeqNo = Inr (dec_int n)" "getField (m_body req) FIELD_EndSeqNo = Inr (dec_int k)"
    using gap(4) by blast
  have "delivered b1 = delivered b" "c_targetSeqNum (s_cache b2) = k + 1" using gap(2) filled(1) by (simp_all add: inbound_def delivered_def)
  with req xs(1,2) ys(1) last d r filled(2) show ?thesis
    unfolding Let_def
    by (intro exI[of _ req] exI[of _ "map fst ys"] exI[of _ copy] exI[of _ a']) (simp add: b2_def)
qed

section \<open>An instance: two orders, the first one lost\<close>

lemma lhm_assign_id: "map_of fs k = Some v \<Longrightarrow> lhm_assign fs k v = fs"
  by (induction fs) (auto split: if_splits)

lemma insertFieldView_id:
  assumes "lhm_ok (fm_fields m)" "map_of (fm_fields m) tag = Some v"
  shows "insertFieldView tag v True m = m"
proof -
  have k: "tag \<in> set (lhm_keys (fm_fields m))" using assms(2) by (force dest: map_of_SomeD)
  have "with_fields (fm_fields m) m = m" by (simp add: with_fields_def)
  then show ?thesis
    using k misplaced_scan[of tag m]
    by (auto simp: insertFieldView_cases[OF assms(1)] lhm_assign_id[OF assms(2)] split: option.split place.split bool.split)
qed

lemma shown_same_length:
  assumes "fm_wf m" "slotted tag (length v) m" "setField tag v True m = Inr m'"
  shows "shown m' = map (\<lambda>(k, x). (k, if k = tag then v else x)) (shown m)" "fm_groups m' = fm_groups m"
proof -
  let ?i = "find_slot (fm_owned m) tag"
  let ?ow = "(fm_owned m)[?i := assign_slot v (fm_owned m ! ?i)]"
  have i: "?i < length (fm_owned m)" "length v \<le> fst (snd (fm_owned m ! ?i))" "map_of (fm_fields m) tag = Some (Own ?i (length v))"
    using assms(2) by (simp_all add: slotted_def)
  have m': "m' = with_owned ?ow (fm_ownedCap m) m"
    using assms(1,3) i insertFieldView_id[of "with_owned ?ow (fm_ownedCap m) m" tag "Own ?i (length v)"]
    by (simp add: setField_def Let_def fm_wf_def)
  then show "fm_groups m' = fm_groups m" by simp
  have "fv_read ?ow w = (if k = tag then v else fv_read (fm_owned m) w)" if "(k, w) \<in> set (fm_fields m)" for k w
  proof (cases "k = tag")
    case True
    have "distinct (map fst (fm_fields m))" using assms(1) by (simp add: fm_wf_def lhm_ok_def)
    then have "w = Own ?i (length v)" using that True i(3) by (metis map_of_eq_Some_iff option.inject)
    then show ?thesis using True i(1) assign_slot_facts(2)[of v "fm_owned m ! ?i"]
      by (simp add: case_prod_beta del: assign_slot_facts(2))
  next
    case False
    have "view_ok (fm_owned m) (k, w)" using assms(1) that by (auto simp: fm_wf_def list_all_iff)
    then show ?thesis
      using view_ok_update(2)[of "fm_owned m" k w ?i "assign_slot v (fm_owned m ! ?i)"] find_slot_fst[of "fm_owned m" tag] i(1) False
      by simp
  qed
  then show "shown m' = map (\<lambda>(k, x). (k, if k = tag then v else x)) (shown m)"
    by (auto simp: m' shown_def)
qed

text \<open>An order in A's cache, as A has sent it.\<close>

definition kept_order :: "int \<Rightarrow> string" where
  "kept_order n = toString True
     \<lparr>m_header = fold (\<lambda>(k, v). setFieldView k v False)
        [(35, ''D''), (8, ''FIX.4.2''), (49, ''A''), (56, ''B''), (52, ''19700101-00:00:01.000''), (34, dec_int n)] empty_fm,
      m_body = setFieldView 11 ''id'' False empty_fm, m_trailer = empty_fm, m_sourceText = []\<rparr>"

definition kept_ok :: "int \<Rightarrow> bool" where
  "kept_ok n \<longleftrightarrow> (case demo_parse (kept_order n) of Inl _ \<Rightarrow> False | Inr m \<Rightarrow>
     shown (m_header m) = [(8, ''FIX.4.2''), (9, ''51''), (35, ''D''), (49, ''A''), (56, ''B''), (52, ''19700101-00:00:01.000''), (34, dec_int n)]
     \<and> flat_message m \<and> shown (m_body m) = [(11, ''id'')] \<and> shown (m_trailer m) = []
     \<and> (case premarked m of Inl _ \<Rightarrow> False | Inr h \<Rightarrow> shown h = [(8, ''FIX.4.2''), (9, ''51''), (35, ''D''), (49, ''A''), (56, ''B''), (43, ''Y''), (52, ''19700101-00:00:01.000''),
                     (122, ''19700101-00:00:01.000''), (34, dec_int n)]))"

lemma ts1000: "parseUTCTimestamp ''19700101-00:00:01.000'' = 1000"
  by code_simp

lemma kept_orders: "kept_ok 2" "kept_ok 3"
  by code_simp+

lemma kept_order_parsed:
  assumes "n \<in> {2, 3}"
  obtains m h where "demo_parse (kept_order n) = Inr m"
    "shown (m_header m) = [(8, ''FIX.4.2''), (9, ''51''), (35, ''D''), (49, ''A''), (56, ''B''), (52, ''19700101-00:00:01.000''), (34, dec_int n)]"
    "flat_message m" "shown (m_body m) = [(11, ''id'')]" "shown (m_trailer m) = []" "premarked m = Inr h"
    "shown h = [(8, ''FIX.4.2''), (9, ''51''), (35, ''D''), (49, ''A''), (56, ''B''), (43, ''Y''), (52, ''19700101-00:00:01.000''),
                     (122, ''19700101-00:00:01.000''), (34, dec_int n)]"
  using kept_orders assms by (auto simp: kept_ok_def split: sum.splits)

lemma flat_premarked:
  assumes "premarked m = Inr h" "lhm_ok (fm_fields (m_header m))" "flat_message m"
  shows "fm_groups h = []"
proof -
  have wf: "fm_wf (copy_fm (m_header m))" using copy_fm_wf[OF assms(2)] by simp
  obtain h1 t where h: "setField FIELD_PossDupFlag ''Y'' True (copy_fm (m_header m)) = Inr h1" "setField FIELD_OrigSendingTime t True h1 = Inr h"
    using assms(1) by (auto simp: premarked_def elim!: sbind_InrE)
  show ?thesis
    using setField_lookup(4)[OF wf h(1)] setField_lookup(4)[OF setField_wf[OF wf h(1)] h(2)] assms(3)
    by (simp add: flat_message_def copy_fm_sel)
qed

lemma kept_order_resendable:
  assumes "n \<in> {2, 3}" "demo_parse (kept_order n) = Inr m"
  shows "resendable sender_env receiver_env n m" "takes receiver_env (kept_order n) m n" "passes receiver_env m 1000"
    "sent (m_body m) = [(11, ''id'')]" "shown (m_body m) = [(11, ''id'')]"
proof -
  obtain h where p: "shown (m_header m) = [(8, ''FIX.4.2''), (9, ''51''), (35, ''D''), (49, ''A''), (56, ''B''), (52, ''19700101-00:00:01.000''), (34, dec_int n)]"
    "flat_message m" "shown (m_body m) = [(11, ''id'')]" "shown (m_trailer m) = []" "premarked m = Inr h"
    "shown h = [(8, ''FIX.4.2''), (9, ''51''), (35, ''D''), (49, ''A''), (56, ''B''), (43, ''Y''), (52, ''19700101-00:00:01.000''),
                     (122, ''19700101-00:00:01.000''), (34, dec_int n)]"
    using kept_order_parsed[OF assms(1)] assms(2) by (metis sum.inject(2))
  have a: "app_type ''D''" by (simp add: app_type_def SESSION_MSGS_def)
  have ok: "lhm_ok (fm_fields (m_header m))" using keys_shown[of "m_header m"] by (simp add: lhm_ok_def p(1) flip: keys_shown)
  have "length (fm_fields (m_header m)) = 7" using arg_cong[OF p(1), of length] by (simp add: shown_def)
  then have u: "unmarked sender_env n m"
    using ok a by (simp add: unmarked_def getField_shown p(1) fm_has_getField)
  show b: "sent (m_body m) = [(11, ''id'')]" "shown (m_body m) = [(11, ''id'')]" by (simp_all add: sent_def p(3) isIgnoredTag_def)
  have "described receiver_env msg" if ts: "length ts = 21" "SOH \<notin> set ts" "marked ts m = Inr msg" for ts msg
  proof -
    obtain h' where h': "premarked m = Inr h'" "fm_wf h'" "slotted 52 21 h'" by (rule premarked_fields[OF u])
    then have w: "fm_wf h" "slotted 52 21 h" using p(5) by simp_all
    obtain h3 where h3: "setField 52 ts True h = Inr h3" "msg = (copy_message m)\<lparr>m_header := h3\<rparr>"
      using ts(3) p(5) by (auto simp: marked_def elim!: sbind_InrE)
    note sh = shown_same_length[OF w(1) _ h3(1)]
    have sh: "shown h3 = map (\<lambda>(k, x). (k, if k = 52 then ts else x)) (shown h)" "fm_groups h3 = []"
      using sh w(2) ts(1) flat_premarked[OF p(5) ok p(2)] by simp_all
    have f: "flat_message msg" using sh(2) p(2) by (simp add: h3(2) flat_message_def copy_message_def copy_fm_sel)
    have v: "getField (m_header msg) FIELD_BeginString = Inr ''FIX.4.2''" by (simp add: h3(2) getField_shown sh(1) p(6))
    have t: "SOH \<notin> set t \<and> length t \<le> 21" if "Some ''19700101-00:00:01.000'' = Some t" for t
      using that by auto
    have s: "sent (m_header msg) = (35, ''D'') # order_header ts (Some ''19700101-00:00:01.000'') (dec_int n)"
      "sent (m_body msg) = [(11, ''id'')]" "sent (m_trailer msg) = []"
      by (simp_all add: sent_def h3(2) sh(1) p isIgnoredTag_def order_header_def copy_message_def shown_copy)
    have d: "dec_int 2 = ''2''" "dec_int 3 = ''3''" by code_simp+
    then have n: "length (dec_int n) < 1000" "length ''id'' < 1000" "SOH \<notin> set ''id''" using assms(1) by auto
    show ?thesis by (rule order_described[OF f v s ts(2) t dec_int_clean n(3) ts(1) n(1,2)])
  qed
  with u show "resendable sender_env receiver_env n m" by (simp add: resendable_def)
  have i: "is_int32 n" using assms(1) by (auto simp: is_int32_def)
  show "takes receiver_env (kept_order n) m n"
    using assms(2) a i by (simp add: takes_def demo_parse_def receiver_env_def demo_env_def getIntField_def getField_shown p(1))
  have "getLong SENDING_TIME_THRESHOLD (e_settings receiver_env) = 10" by (simp add: receiver_env_def demo_env_def threshold)
  then show "passes receiver_env m 1000"
    by (simp add: passes_def getField_shown p(1) fm_has_getField tryGetBool_getField ts1000)
qed

definition keeping_session :: session where
  "keeping_session = demo_ready\<lparr>s_cache := (s_cache demo_ready)\<lparr>c_senderSeqNum := 4,
     c_messages := [(2, kept_order 2), (3, kept_order 3)]\<rparr>\<rparr>"

lemma sender_parsing: "parse (parse_settings_of (e_settings sender_env)) (e_dictionary sender_env) w = demo_parse w"
proof -
  have "parse_settings_of (e_settings sender_env) = \<lparr>relaxedParsing = False, validateRequired = False, reorderTags = False\<rparr>"
    by (simp add: sender_env_def) code_simp
  then show ?thesis
    using receiver_parsing by (simp add: demo_parse_def receiver_env_def demo_env_def sender_env_def)
qed

lemma gap_closed_witness:
  "\<exists>missing copy a'. runMessageRecovery sender_env 2 3 keeping_session = (Inr (), a')
     \<and> handler_sent (s_network a') = missing @ [copy]
     \<and> (let b1 = snd (onNetworkMessage receiver_env (kept_order 3) demo_ready); b2 = receive_each receiver_env missing b1 in
        delivered b1 = [] \<and> map (shown \<circ> m_body) (delivered b2) = [[(11, ''id'')], [(11, ''id'')]]
        \<and> c_targetSeqNum (s_cache b2) = 4
        \<and> s_state (snd (onNetworkMessage receiver_env copy b2)) \<in> {KILLING, LOGON})"
proof -
  obtain m2 m3 where m: "demo_parse (kept_order 2) = Inr m2" "demo_parse (kept_order 3) = Inr m3"
    by (rule kept_order_parsed[of 2], simp, rule kept_order_parsed[of 3], simp) (rule that)
  note r = kept_order_resendable[of 2, OF _ m(1)] kept_order_resendable[of 3, OF _ m(2)]
  have thr: "getLong SENDING_TIME_THRESHOLD (e_settings receiver_env) = 10" "e_delegate receiver_env = Some (\<lambda>_. st_ret ())"
    by (simp_all add: receiver_env_def demo_env_def threshold)
  have cp: "counterparts sender_env receiver_env" by (simp add: counterparts_def)
  have clk: "clocks_close sender_env receiver_env i x j y" for i x j y
    by (simp add: clocks_close_def clocks_agree_def thr)
  have rd: "reading receiver_env i = 1000" for i by (simp add: reading_def)
  have "\<not> isl (create demo_dictionary MSG_RESEND_REQUEST)" by code_simp
  then have early: "arrives_early receiver_env demo_ready 2 3 (kept_order 3) m3"
    using r by (simp add: arrives_early_def rd is_int32_def)
  have "typed m2" "typed m3" using r(2,7) m by (auto simp: takes_def typed_def receiver_env_def demo_parse_def demo_env_def)
  then have "replayable sender_env 2 3 (s_cache keeping_session) [(2, m2), (3, m3)]"
    using m by (simp add: replayable_def getMessages_def cache_entries_def keeping_session_def is_int32_def
        hmap_ok_def sort_by_key_def sender_parsing)
  moreover have "transmits keeping_session"
    by (simp add: transmits_def keeping_session_def)
       (simp add: demo_ready_def demo_session_def new_session_def load_session_def Let_def ts_cache_ok_def ts_cache0_def split: sum.splits)
  ultimately have can: "can_replay sender_env receiver_env keeping_session 2 3 [(2, m2), (3, m3)]"
    using r by (simp add: can_replay_def keeping_session_def)
  have z: "handler_sent (s_network keeping_session) = []" "delivered demo_ready = []"
    by (simp_all add: keeping_session_def delivered_def)
  from gap_closed[OF cp thr(2) early can clk] r z show ?thesis
    by (fastforce simp: rd Let_def)
qed

end
