(* ===== verification/WriterThread.thy ===== *)
theory WriterThread
  imports FileWriter
begin

text \<open>
  The thread of a \<open>FileWriter\<close> (\<^verbatim>\<open>lib/FileUtils.cpp\<close>): \<open>start\<close>, \<open>process\<close> and \<open>stop\<close> as a machine whose
  steps are the points between which the threads that write can act. \<open>FileStore\<close> and \<open>FileLogger\<close>
  forward their own start and stop to it. The file system works; passes on which it does not are in
  \<open>FileWriter\<close>.
\<close>

section \<open>The machine\<close>

text \<open>Where the thread stands: created, before a test of \<open>m_enabled\<close>, before instance \<open>i\<close> of a flush
  pass, asleep, returned. \<open>NoThread\<close>: never started, or joined.\<close>

datatype writer_pc = NoThread | Created | Testing | Flushing nat | Sleeping | Returned

record file_writer =
  fw_enabled :: bool
  fw_pc :: writer_pc
  fw_instances :: "(string, writer) hmap"

definition new_file_writer :: "(string, writer) hmap \<Rightarrow> file_writer" where
  "new_file_writer ws = \<lparr>fw_enabled = False, fw_pc = NoThread, fw_instances = ws\<rparr>"

text \<open>Assigning to the member of a thread that was not joined ends the process: \<open>None\<close>.\<close>

definition fw_start :: "file_writer \<Rightarrow> file_writer option" where
  "fw_start fw = (if fw_pc fw = NoThread then Some (fw\<lparr>fw_pc := Created\<rparr>) else None)"

text \<open>One step of the thread. The loop that looks for a dirty instance only reads flags; it is one step.\<close>

definition flush_nth :: "fs_env \<Rightarrow> nat \<Rightarrow> (string, writer) hmap \<Rightarrow> (string, writer) hmap" where
  "flush_nth env i ws = (case ws ! i of (p, w) \<Rightarrow> ws[i := (p, flushInstance env w)])"

definition fw_thread :: "fs_env \<Rightarrow> file_writer \<Rightarrow> file_writer" where
  "fw_thread env fw =
     (case fw_pc fw of
        Created \<Rightarrow> fw\<lparr>fw_enabled := True, fw_pc := Testing\<rparr>
      | Testing \<Rightarrow>
          if \<not> fw_enabled fw then fw\<lparr>fw_pc := Returned\<rparr>
          else if list_ex (\<lambda>(_, w). w_dirty w) (fw_instances fw) then fw\<lparr>fw_pc := Flushing 0\<rparr>
          else fw\<lparr>fw_pc := Sleeping\<rparr>
      | Flushing i \<Rightarrow>
          if i < length (fw_instances fw)
          then fw\<lparr>fw_instances := flush_nth env i (fw_instances fw), fw_pc := Flushing (Suc i)\<rparr>
          else fw\<lparr>fw_pc := Testing\<rparr>
      | Sleeping \<Rightarrow> fw\<lparr>fw_pc := Testing\<rparr>
      | _ \<Rightarrow> fw)"

text \<open>\<open>stop\<close> in two parts: whether it finds the writer enabled, and what it does once the join returns.\<close>

definition fw_stop_begin :: "file_writer \<Rightarrow> bool \<times> file_writer" where
  "fw_stop_begin fw = (if fw_enabled fw then (True, fw\<lparr>fw_enabled := False\<rparr>) else (False, fw))"

definition fw_stop_end :: "fs_env \<Rightarrow> file_writer \<Rightarrow> file_writer option" where
  "fw_stop_end env fw =
     (if fw_pc fw = Returned
      then Some (fw\<lparr>fw_pc := NoThread,
                    fw_instances := map (\<lambda>(p, w). (p, w\<lparr>w_open := False\<rparr>)) (flushInstances env (fw_instances fw))\<rparr>)
      else None)"

definition on_instance :: "string \<Rightarrow> (writer \<Rightarrow> writer) \<Rightarrow> file_writer \<Rightarrow> file_writer" where
  "on_instance p f fw = fw\<lparr>fw_instances := map (\<lambda>(q, w). (q, if q = p then f w else w)) (fw_instances fw)\<rparr>"

datatype writer_event = StartCall | ThreadStep | Put string store_op | StopCall bool | StopJoined

fun fw_step :: "file_writer \<Rightarrow> writer_event \<Rightarrow> file_writer option" where
  "fw_step fw StartCall = fw_start fw"
| "fw_step fw ThreadStep = Some (fw_thread fs_fine fw)"
| "fw_step fw (Put p op) = Some (on_instance p (\<lambda>w. buffered_put w op) fw)"
| "fw_step fw (StopCall b) = (case fw_stop_begin fw of (b', fw') \<Rightarrow> if b' = b then Some fw' else None)"
| "fw_step fw StopJoined = fw_stop_end fs_fine fw"

fun fw_run :: "file_writer \<Rightarrow> writer_event list \<Rightarrow> file_writer option" where
  "fw_run fw [] = Some fw"
| "fw_run fw (e # es) = (case fw_step fw e of None \<Rightarrow> None | Some fw' \<Rightarrow> fw_run fw' es)"

lemma fw_run_append: "fw_run fw (xs @ ys) = (case fw_run fw xs of None \<Rightarrow> None | Some fw' \<Rightarrow> fw_run fw' ys)"
  by (induction xs arbitrary: fw) (simp_all split: option.split)

fun puts :: "string \<Rightarrow> writer_event list \<Rightarrow> store_op list" where
  "puts p [] = []"
| "puts p (e # es) = (case e of Put q op \<Rightarrow> if q = p then op # puts p es else puts p es | _ \<Rightarrow> puts p es)"

section \<open>Nothing is lost\<close>

text \<open>What the instance of a path holds, in its file and its queue.\<close>

definition holds :: "string \<Rightarrow> string \<Rightarrow> file_writer \<Rightarrow> bool" where
  "holds p b fw \<longleftrightarrow> (\<exists>w. map_of (fw_instances fw) p = Some w \<and> store_writer w \<and> eventual w = b)"

lemma map_of_flush_nth:
  assumes "distinct (map fst ws)" "i < length ws"
  shows "map_of (flush_nth env i ws) p =
    map_option (\<lambda>w. if fst (ws ! i) = p then flushInstance env w else w) (map_of ws p)"
  using assms
proof (induction ws arbitrary: i)
  case (Cons x ws)
  obtain q w where x: "x = (q, w)" by force
  show ?case
  proof (cases i)
    case 0
    with Cons.prems show ?thesis by (auto simp: x flush_nth_def map_of_eq_None_iff option.map_ident_strong)
  next
    case (Suc j)
    with Cons.prems have "fst (ws ! j) \<noteq> q" using nth_mem[of j ws] by (force simp: x)
    moreover have "flush_nth env i (x # ws) = x # flush_nth env j ws" by (simp add: Suc flush_nth_def split: prod.split)
    ultimately show ?thesis using Cons Suc by (simp add: x)
  qed
qed simp

lemma keys_flush_nth: "i < length ws \<Longrightarrow> map fst (flush_nth env i ws) = map fst ws"
  by (auto simp: flush_nth_def map_update list_update_same_conv split: prod.split)

lemma map_of_on_snd: "map_of (map (\<lambda>(q, w). (q, f q w)) ws) p = map_option (f p) (map_of ws p)"
  by (induction ws) auto

lemma closed_writer: "store_writer (w\<lparr>w_open := False\<rparr>) = store_writer w" "eventual (w\<lparr>w_open := False\<rparr>) = eventual w"
  by (simp_all add: store_writer_def eventual_def)

lemma stop_end_lookup:
  assumes "fw_stop_end env fw = Some fw'"
  shows "map_of (fw_instances fw') p = map_option (\<lambda>w. (flushInstance env w)\<lparr>w_open := False\<rparr>) (map_of (fw_instances fw) p)"
proof -
  have f: "fw_instances fw' = map (\<lambda>(k, w). (k, w\<lparr>w_open := False\<rparr>)) (map (\<lambda>(k, w). (k, flushInstance env w)) (fw_instances fw))"
    using assms by (auto simp: fw_stop_end_def flushInstances_def split: if_splits)
  show ?thesis unfolding f map_of_on_snd by (simp add: option.map_comp comp_def)
qed

lemma stop_end_keys: "fw_stop_end env fw = Some fw' \<Longrightarrow> map fst (fw_instances fw') = map fst (fw_instances fw)"
  by (auto simp: fw_stop_end_def flushInstances_def case_prod_beta comp_def split: if_splits)

lemma holds_map:
  assumes "holds p b fw" "map_of (fw_instances fw') p = map_option g (map_of (fw_instances fw) p)"
    "\<And>w. store_writer w \<Longrightarrow> store_writer (g w) \<and> eventual (g w) = eventual w @ c"
  shows "holds p (b @ c) fw'"
  using assms unfolding holds_def by fastforce

lemma step_holds:
  assumes "fw_step fw e = Some fw'" "holds p b fw" "hmap_ok (fw_instances fw)"
  shows "holds p (b @ concat (map record_of (puts p [e]))) fw'" "hmap_ok (fw_instances fw')"
proof -
  have d: "distinct (map fst (fw_instances fw))" using assms(3) by (simp add: hmap_ok_def)
  have same: "holds p (b @ []) fw' \<and> hmap_ok (fw_instances fw')" if "fw_instances fw' = fw_instances fw"
    using assms(2,3) that by (simp add: holds_def)
  have fl: "\<And>w. store_writer w \<Longrightarrow> store_writer (flushInstance fs_fine w) \<and> eventual (flushInstance fs_fine w) = eventual w @ []"
    by (simp add: flush_store_writer)
  have "holds p (b @ concat (map record_of (puts p [e]))) fw' \<and> hmap_ok (fw_instances fw')"
  proof (cases e)
    case StartCall
    with assms(1) same show ?thesis by (auto simp: fw_start_def split: if_splits)
  next
    case ThreadStep
    then have f: "fw' = fw_thread fs_fine fw" using assms(1) by simp
    show ?thesis
    proof (cases "\<exists>i. fw_pc fw = Flushing i \<and> i < length (fw_instances fw)")
      case True
      then obtain i where i: "i < length (fw_instances fw)" "fw_instances fw' = flush_nth fs_fine i (fw_instances fw)"
        by (auto simp: f fw_thread_def)
      from holds_map[OF assms(2), of fw' _ "[]", OF map_of_flush_nth[OF d i(1), of fs_fine p, folded i(2)]]
      show ?thesis using fl d i keys_flush_nth[OF i(1)] ThreadStep by (auto simp: hmap_ok_def)
    next
      case False
      then have "fw_instances fw' = fw_instances fw" by (auto simp: f fw_thread_def split: writer_pc.splits)
      with same ThreadStep show ?thesis by simp
    qed
  next
    case (Put q op)
    then have f: "fw_instances fw' = map (\<lambda>(k, w). (k, if k = q then buffered_put w op else w)) (fw_instances fw)"
      using assms(1) by (auto simp: on_instance_def)
    show ?thesis
      using holds_map[OF assms(2), of fw' "\<lambda>w. if p = q then buffered_put w op else w" "if p = q then record_of op else []"]
        map_of_on_snd[of "\<lambda>k w. if k = q then buffered_put w op else w" "fw_instances fw" p] d Put
      by (auto simp: f hmap_ok_def eventual_buffered_put case_prod_beta comp_def)
  next
    case (StopCall c)
    with assms(1) same show ?thesis by (auto simp: fw_stop_begin_def split: if_splits prod.splits)
  next
    case StopJoined
    then have f: "fw_stop_end fs_fine fw = Some fw'" using assms(1) by simp
    from stop_end_lookup[OF f] have "holds p (b @ []) fw'"
      by (rule holds_map[OF assms(2)]) (simp add: closed_writer flush_store_writer)
    moreover have "map fst (fw_instances fw') = map fst (fw_instances fw)" by (rule stop_end_keys[OF f])
    ultimately show ?thesis using d StopJoined by (simp add: hmap_ok_def)
  qed
  then show "holds p (b @ concat (map record_of (puts p [e]))) fw'" "hmap_ok (fw_instances fw')" by simp_all
qed

lemma run_holds:
  "fw_run fw es = Some fw' \<Longrightarrow> holds p b fw \<Longrightarrow> hmap_ok (fw_instances fw) \<Longrightarrow>
   holds p (b @ concat (map record_of (puts p es))) fw' \<and> hmap_ok (fw_instances fw')"
proof (induction es arbitrary: fw b)
  case (Cons e es)
  then obtain fw1 where s: "fw_step fw e = Some fw1" "fw_run fw1 es = Some fw'" by (auto split: option.splits)
  from Cons.IH[OF s(2) step_holds[OF s(1) Cons.prems(2,3)]]
  show ?case by (cases e) (auto split: if_splits)
qed simp


lemma stop_flushes:
  assumes "fw_stop_end fs_fine fw = Some fw'" "holds p b fw"
  shows "\<exists>w. map_of (fw_instances fw') p = Some w \<and> w_queue w = [] \<and> load (w_file w) = load_loop b session_data0"
proof -
  obtain w where w: "map_of (fw_instances fw) p = Some w" "store_writer w" "eventual w = b"
    using assms(2) by (auto simp: holds_def)
  have "map_of (fw_instances fw') p = Some ((flushInstance fs_fine w)\<lparr>w_open := False\<rparr>)"
    using stop_end_lookup[OF assms(1), of p] w(1) by simp
  moreover have "load (w_file (flushInstance fs_fine w)) = load_loop b session_data0"
    using reload_eventual[OF w(2)] w(3) by (simp add: reload_def)
  ultimately show ?thesis using flush_store_writer(3)[OF w(2)] by simp
qed

text \<open>C26: a stop of the file writer loses nothing. Take a writer with one instance per path, whose file and
  queue at \<open>p\<close> load as \<open>d\<close>, and any run of it that ends with the return of a joined \<open>stop\<close>: started,
  written to by any threads at any points of the flush passes, even while \<open>stop\<close> waits. Afterwards
  nothing is queued at \<open>p\<close> and its file loads as \<open>d\<close> changed by the writes to \<open>p\<close>, in their order.\<close>

theorem stop_writes_everything:
  assumes "fw_run (new_file_writer ws) (es @ [StopJoined]) = Some fw" "hmap_ok ws"
    and "map_of ws p = Some w0" "store_writer w0" "reload w0 = Inr d" "list_all store_op_ok (puts p es)"
  shows "\<exists>w. map_of (fw_instances fw) p = Some w \<and> w_queue w = [] \<and> load (w_file w) = Inr (fold data_op (puts p es) d)"
proof -
  obtain fw1 where r: "fw_run (new_file_writer ws) es = Some fw1" "fw_stop_end fs_fine fw1 = Some fw"
    using assms(1) by (auto simp: fw_run_append split: option.splits)
  have "holds p (eventual w0) (new_file_writer ws)" using assms(3,4) by (simp add: holds_def new_file_writer_def)
  with run_holds[OF r(1)] assms(2) have "holds p (eventual w0 @ concat (map record_of (puts p es))) fw1"
    by (simp add: new_file_writer_def)
  moreover have "load_loop (eventual w0) session_data0 = Inr d" using assms(4,5) by (simp add: reload_eventual)
  ultimately show ?thesis using stop_flushes[OF r(2)] load_records assms(6) by metis
qed

section \<open>A stop returns\<close>

text \<open>How many of its own steps the thread still takes once it is told to stop.\<close>

fun steps_left :: "nat \<Rightarrow> writer_pc \<Rightarrow> nat" where
  "steps_left n (Flushing i) = (n - i) + 2"
| "steps_left n Sleeping = 2"
| "steps_left n Testing = 1"
| "steps_left n _ = 0"

fun thread_steps :: "writer_event list \<Rightarrow> nat" where
  "thread_steps [] = 0"
| "thread_steps (e # es) = (if e = ThreadStep then 1 else 0) + thread_steps es"

definition stopping :: "file_writer \<Rightarrow> bool" where
  "stopping fw \<longleftrightarrow> \<not> fw_enabled fw \<and> fw_pc fw \<notin> {NoThread, Created}"

definition only_work :: "writer_event \<Rightarrow> bool" where
  "only_work e \<longleftrightarrow> e = ThreadStep \<or> (\<exists>p op. e = Put p op)"

lemma stopping_thread:
  assumes "stopping fw" and "fw' = fw_thread env fw"
  shows "stopping fw' \<and> length (fw_instances fw') = length (fw_instances fw)
    \<and> steps_left (length (fw_instances fw')) (fw_pc fw') = steps_left (length (fw_instances fw)) (fw_pc fw) - 1"
proof (cases "fw_pc fw")
  case (Flushing i)
  with assms show ?thesis
    by (cases "i < length (fw_instances fw)") (auto simp: fw_thread_def stopping_def flush_nth_def split: prod.split)
qed (use assms in \<open>simp_all add: fw_thread_def stopping_def\<close>)

lemma stopping_step:
  assumes "stopping fw" "only_work e"
  obtains fw' where "fw_step fw e = Some fw'" "stopping fw'"
    "steps_left (length (fw_instances fw')) (fw_pc fw') = steps_left (length (fw_instances fw)) (fw_pc fw) - (if e = ThreadStep then 1 else 0)"
    "length (fw_instances fw') = length (fw_instances fw)"
proof (cases "e = ThreadStep")
  case True
  then have "fw_step fw e = Some (fw_thread fs_fine fw)" by simp
  with stopping_thread[OF assms(1) refl, of fs_fine] show ?thesis using that True by auto
next
  case False
  with assms(2) obtain p op where "e = Put p op" by (auto simp: only_work_def)
  with that[of "on_instance p (\<lambda>w. buffered_put w op) fw"] assms(1) show ?thesis
    by (simp add: on_instance_def stopping_def)
qed

lemma stopping_returns:
  assumes "stopping fw" "list_all only_work es" "length (fw_instances fw) + 2 \<le> thread_steps es"
  shows "\<exists>fw'. fw_run fw (es @ [StopJoined]) = Some fw'"
proof -
  have "\<exists>fw'. fw_run fw es = Some fw' \<and> stopping fw'
      \<and> steps_left (length (fw_instances fw')) (fw_pc fw') = steps_left (length (fw_instances fw)) (fw_pc fw) - thread_steps es"
    using assms(1,2)
  proof (induction es arbitrary: fw)
    case (Cons e es)
    from Cons.prems have "only_work e" by simp
    from stopping_step[OF Cons.prems(1) this] obtain fw1 where "fw_step fw e = Some fw1" "stopping fw1"
      "steps_left (length (fw_instances fw1)) (fw_pc fw1) = steps_left (length (fw_instances fw)) (fw_pc fw) - (if e = ThreadStep then 1 else 0)"
      by metis
    with Cons.IH[of fw1] Cons.prems(2) show ?case by (auto split: if_splits)
  qed simp
  then obtain fw' where fw': "fw_run fw es = Some fw'" "stopping fw'"
    "steps_left (length (fw_instances fw')) (fw_pc fw') = steps_left (length (fw_instances fw)) (fw_pc fw) - thread_steps es" by blast
  moreover have "steps_left (length (fw_instances fw)) (fw_pc fw) \<le> length (fw_instances fw) + 2"
    by (cases "fw_pc fw") simp_all
  ultimately have "steps_left (length (fw_instances fw')) (fw_pc fw') = 0" using assms(3) by simp
  then have "fw_pc fw' = Returned" using fw'(2) by (cases "fw_pc fw'") (simp_all add: stopping_def)
  then show ?thesis using fw'(1) by (simp add: fw_run_append fw_stop_end_def)
qed

text \<open>Enabled means that the thread runs: only the thread enables, and it returns only when disabled.\<close>

lemma enabled_step:
  assumes "fw_step fw e = Some fw'" "fw_enabled fw \<longrightarrow> fw_pc fw \<notin> {NoThread, Created, Returned}"
  shows "(fw_enabled fw' \<longrightarrow> fw_pc fw' \<notin> {NoThread, Created, Returned}) \<and> length (fw_instances fw') = length (fw_instances fw)"
proof (cases e)
  case ThreadStep
  then have "fw' = fw_thread fs_fine fw" using assms(1) by simp
  then show ?thesis using assms(2) by (cases "fw_pc fw") (simp_all add: fw_thread_def flush_nth_def split: prod.split)
qed (use assms in \<open>auto simp: fw_start_def on_instance_def fw_stop_begin_def fw_stop_end_def flushInstances_def split: if_splits prod.splits\<close>)

lemma enabled_run:
  "fw_run fw es = Some fw' \<Longrightarrow> fw_enabled fw \<longrightarrow> fw_pc fw \<notin> {NoThread, Created, Returned} \<Longrightarrow>
   (fw_enabled fw' \<longrightarrow> fw_pc fw' \<notin> {NoThread, Created, Returned}) \<and> length (fw_instances fw') = length (fw_instances fw)"
proof (induction es arbitrary: fw)
  case (Cons e es)
  then obtain fw1 where s: "fw_step fw e = Some fw1" "fw_run fw1 es = Some fw'" by (auto split: option.splits)
  with enabled_step[OF s(1)] Cons show ?case by metis
qed simp

text \<open>C27: a stop that found the writer enabled returns: whatever is written meanwhile, the thread needs at
  most two steps more than there are instances to leave its loop, and then the join returns.\<close>

theorem stop_returns:
  assumes "fw_run (new_file_writer ws) (es0 @ [StopCall True]) = Some fw"
    and "list_all only_work es" "length ws + 2 \<le> thread_steps es"
  shows "\<exists>fw'. fw_run fw (es @ [StopJoined]) = Some fw'"
proof -
  obtain fw1 where r: "fw_run (new_file_writer ws) es0 = Some fw1" "fw_enabled fw1" "fw = fw1\<lparr>fw_enabled := False\<rparr>"
    using assms(1) by (auto simp: fw_run_append fw_stop_begin_def split: option.splits if_splits)
  from enabled_run[OF r(1)] r(2) have "fw_pc fw1 \<notin> {NoThread, Created, Returned}" "length (fw_instances fw1) = length ws"
    by (simp_all add: new_file_writer_def)
  with r(3) assms(2,3) show ?thesis by (intro stopping_returns) (simp_all add: stopping_def)
qed

text \<open>A stop that comes before the new thread has run finds the writer not enabled and returns at once;
  the thread then enables it and stays. Nothing waits for it, and what is queued is written only by it.\<close>

lemma early_stop_forgets:
  "\<exists>fw. fw_run (new_file_writer ws) [StartCall, StopCall False, ThreadStep] = Some fw
    \<and> fw_enabled fw \<and> fw_pc fw = Testing \<and> fw_step fw StopJoined = None"
  by (simp add: new_file_writer_def fw_start_def fw_stop_begin_def fw_thread_def fw_stop_end_def)

section \<open>Instances\<close>

lemma stop_writes_everything_witness:
  "\<exists>fw w. fw_run (new_file_writer [(''f'', new_writer False None)])
       [StartCall, ThreadStep, ThreadStep, Put ''f'' (PutSender 4), StopCall True, ThreadStep, ThreadStep, Put ''f'' (PutTarget 3), StopJoined]
       = Some fw
     \<and> map_of (fw_instances fw) ''f'' = Some w \<and> load (w_file w) = Inr (session_data0\<lparr>sd_senderSeqNum := 4, sd_targetSeqNum := 3\<rparr>)"
proof -
  let ?ws = "[(''f'', new_writer False None)]"
  let ?es = "[StartCall, ThreadStep, ThreadStep, Put ''f'' (PutSender 4), StopCall True, ThreadStep, ThreadStep, Put ''f'' (PutTarget 3)]"
  obtain fw where fw: "fw_run (new_file_writer ?ws) (?es @ [StopJoined]) = Some fw"
    by (simp add: new_file_writer_def fw_start_def fw_stop_begin_def fw_thread_def fw_stop_end_def on_instance_def
        new_writer_def write_text_def)
  have w: "store_writer (new_writer False None)" "reload (new_writer False None) = Inr session_data0"
    by (simp_all add: store_writer_def new_writer_def reload_def flushInstance_def load_def)
  from stop_writes_everything[OF fw, of "''f''", OF _ _ w] fw show ?thesis
    by (auto simp: hmap_ok_def is_int32_def simp del: fw_run.simps)
qed

lemma stop_returns_witness:
  "\<exists>fw. fw_run (new_file_writer [(''f'', new_writer False None)])
     (([StartCall, ThreadStep] @ [StopCall True]) @ [ThreadStep, Put ''f'' (PutSender 4), ThreadStep, ThreadStep] @ [StopJoined]) = Some fw"
proof -
  obtain fw where fw: "fw_run (new_file_writer [(''f'', new_writer False None)]) ([StartCall, ThreadStep] @ [StopCall True]) = Some fw"
    by (simp add: new_file_writer_def fw_start_def fw_stop_begin_def fw_thread_def)
  have "list_all only_work [ThreadStep, Put ''f'' (PutSender 4), ThreadStep, ThreadStep]" by (simp add: only_work_def)
  from stop_returns[OF fw this]
  have "\<exists>fw'. fw_run fw ([ThreadStep, Put ''f'' (PutSender 4), ThreadStep, ThreadStep] @ [StopJoined]) = Some fw'" by simp
  with fw show ?thesis by (simp only: fw_run_append[of _ "[StartCall, ThreadStep] @ [StopCall True]"] option.case)
qed

end
