(* ===== verification/Runtime.thy ===== *)
theory Runtime
  imports WriterThread
begin

text \<open>
  What surrounds the engine in its process: the console log (\<^verbatim>\<open>lib/Log.h\<close>) over a parameter for
  spdlog, the signal handler (\<^verbatim>\<open>lib/SignalHandler.h\<close>), and their meeting with the writer thread in
  a process that runs until it is told to stop, as \<^verbatim>\<open>example/main.cpp\<close> does.
\<close>

section \<open>Levels\<close>

datatype log_level = TRACE | DEBUG | INFO | WARN | ERROR | FATAL

datatype spd_level = Spd_trace | Spd_debug | Spd_info | Spd_warn | Spd_err | Spd_critical

text \<open>spdlog's levels, by increasing severity.\<close>

primrec severity :: "spd_level \<Rightarrow> nat" where
  "severity Spd_trace = 0"
| "severity Spd_debug = 1"
| "severity Spd_info = 2"
| "severity Spd_warn = 3"
| "severity Spd_err = 4"
| "severity Spd_critical = 5"

lemma severity_inject [simp]: "severity a = severity b \<longleftrightarrow> a = b"
  by (cases a; cases b) simp_all

instantiation spd_level :: linorder
begin

definition less_eq_spd_level :: "spd_level \<Rightarrow> spd_level \<Rightarrow> bool" where
  "less_eq_spd_level a b \<longleftrightarrow> severity a \<le> severity b"

definition less_spd_level :: "spd_level \<Rightarrow> spd_level \<Rightarrow> bool" where
  "less_spd_level a b \<longleftrightarrow> severity a < severity b"

instance
  by standard (auto simp: less_eq_spd_level_def less_spd_level_def)

end

text \<open>The two tables of macros: the level asked for and the method called.\<close>

fun spdlog_level :: "log_level \<Rightarrow> spd_level" where
  "spdlog_level TRACE = Spd_trace"
| "spdlog_level DEBUG = Spd_debug"
| "spdlog_level INFO = Spd_info"
| "spdlog_level WARN = Spd_warn"
| "spdlog_level ERROR = Spd_err"
| "spdlog_level FATAL = Spd_critical"

fun log_method :: "log_level \<Rightarrow> string" where
  "log_method TRACE = ''trace''"
| "log_method DEBUG = ''debug''"
| "log_method INFO = ''info''"
| "log_method WARN = ''warn''"
| "log_method ERROR = ''error''"
| "log_method FATAL = ''critical''"

section \<open>spdlog and its use\<close>

text \<open>spdlog as the code uses it: whether a name is registered, the creation of a console logger (which
  throws when the name is taken), the level of a logger, the global level and pattern, and a message
  given to a method of a logger.\<close>

record 'r spdlog =
  sp_get :: "'r \<Rightarrow> string \<Rightarrow> bool"
  sp_create :: "string \<Rightarrow> 'r \<Rightarrow> 'r option"
  sp_level :: "'r \<Rightarrow> string \<Rightarrow> spd_level"
  sp_set_level :: "spd_level \<Rightarrow> 'r \<Rightarrow> 'r"
  sp_set_pattern :: "string \<Rightarrow> 'r \<Rightarrow> 'r"
  sp_emit :: "string \<Rightarrow> string \<Rightarrow> string \<Rightarrow> 'r \<Rightarrow> 'r"

text \<open>What its documentation says of the registry.\<close>

definition registry_laws :: "'r spdlog \<Rightarrow> bool" where
  "registry_laws sp \<longleftrightarrow>
     (\<forall>n r. sp_create sp n r = None \<longleftrightarrow> sp_get sp r n)
     \<and> (\<forall>n r r' m. sp_create sp n r = Some r' \<longrightarrow> (sp_get sp r' m \<longleftrightarrow> m = n \<or> sp_get sp r m))
     \<and> (\<forall>n k t r m. sp_get sp (sp_emit sp n k t r) m \<longleftrightarrow> sp_get sp r m)"

definition log_initialize :: "'r spdlog \<Rightarrow> bool \<times> 'r \<Rightarrow> bool \<times> 'r" where
  "log_initialize sp = (\<lambda>(initialized, r).
     if \<not> initialized
     then (True, sp_set_pattern sp ''[%H:%M:%S] [%n] [%l] [%t] %v'' (sp_set_level sp Spd_trace r))
     else (initialized, r))"

text \<open>\<open>get_logger\<close>: the logger of that name; \<open>None\<close> is the exception of \<open>stdout_color_mt\<close>.\<close>

definition get_logger :: "'r spdlog \<Rightarrow> string \<Rightarrow> 'r \<Rightarrow> 'r option" where
  "get_logger sp name r = (if \<not> sp_get sp r name then sp_create sp name r else Some r)"

text \<open>The names in the source are tokens that the preprocessor turns into strings: the text of an
  identifier, but a literal with its quotation marks, and with marks and backslashes escaped.\<close>

datatype c_token = Ident string | Literal string

fun escaped :: "string \<Rightarrow> string" where
  "escaped [] = []"
| "escaped (c # cs) = (if c = CHR 0x22 \<or> c = CHR 0x5C then [CHR 0x5C, c] else [c]) @ escaped cs"

fun stringize :: "c_token \<Rightarrow> string" where
  "stringize (Ident s) = s"
| "stringize (Literal s) = CHR 0x22 # escaped s @ [CHR 0x22]"

text \<open>\<open>LOG_X\<close> with one argument writes to the logger of the class, with two to the one named first; the
  text is built only when the logger takes the level.\<close>

datatype log_args = Implicit string | Explicit c_token string

text \<open>The macro's parameter \<open>logger\<close> stands twice in its body: the expression is evaluated for the test and
  again for the call.\<close>

definition log_impl :: "'r spdlog \<Rightarrow> ('r \<Rightarrow> (string \<times> 'r) option) \<Rightarrow> log_level \<Rightarrow> string \<Rightarrow> 'r \<Rightarrow> 'r option" where
  "log_impl sp logger level msg r =
     (case logger r of
        None \<Rightarrow> None
      | Some (l, r1) \<Rightarrow>
          if sp_level sp r1 l \<le> spdlog_level level
          then (case logger r1 of None \<Rightarrow> None | Some (l, r2) \<Rightarrow> Some (sp_emit sp l (log_method level) msg r2))
          else Some r1)"

definition log_call :: "'r spdlog \<Rightarrow> c_token \<Rightarrow> log_level \<Rightarrow> log_args \<Rightarrow> 'r \<Rightarrow> 'r option" where
  "log_call sp own level args r =
     (case args of
        Implicit msg \<Rightarrow> log_impl sp (\<lambda>r. Some (stringize own, r)) level msg r
      | Explicit name msg \<Rightarrow>
          log_impl sp (\<lambda>r. map_option (Pair (stringize name)) (get_logger sp (stringize name) r)) level msg r)"

lemma get_logger_returns:
  assumes "registry_laws sp"
  obtains r' where "get_logger sp n r = Some r'" "\<And>m. sp_get sp r' m \<longleftrightarrow> m = n \<or> sp_get sp r m"
proof (cases "sp_get sp r n")
  case True
  with that[of r] show thesis by (auto simp: get_logger_def)
next
  case False
  then obtain r' where "sp_create sp n r = Some r'" using assms by (fastforce simp: registry_laws_def)
  with False that[of r'] assms show thesis by (auto simp: get_logger_def registry_laws_def)
qed

text \<open>A log call comes back, keeps what is registered, and adds at most the name it is given.\<close>

lemma log_call_returns:
  assumes "registry_laws sp"
  shows "\<exists>r'. log_call sp own level args r = Some r'
    \<and> (\<forall>m. sp_get sp r' m \<longleftrightarrow> sp_get sp r m \<or> (\<exists>name msg. args = Explicit name msg \<and> m = stringize name))"
proof (cases args)
  case (Implicit msg)
  with assms show ?thesis by (auto simp: log_call_def log_impl_def registry_laws_def)
next
  case (Explicit name msg)
  obtain r1 where r1: "get_logger sp (stringize name) r = Some r1" "\<And>m. sp_get sp r1 m \<longleftrightarrow> m = stringize name \<or> sp_get sp r m"
    by (rule get_logger_returns[OF assms]) (rule that)
  then have "get_logger sp (stringize name) r1 = Some r1" by (simp add: get_logger_def)
  with r1 Explicit assms show ?thesis by (auto simp: log_call_def log_impl_def registry_laws_def)
qed

text \<open>The loggers that static initialisation makes, one after the other: every call returns, also the
  second one for a name that two classes use.\<close>

fun get_loggers :: "'r spdlog \<Rightarrow> c_token list \<Rightarrow> 'r \<Rightarrow> 'r option" where
  "get_loggers sp [] r = Some r"
| "get_loggers sp (t # ts) r = (case get_logger sp (stringize t) r of None \<Rightarrow> None | Some r' \<Rightarrow> get_loggers sp ts r')"

lemma get_loggers_returns:
  "registry_laws sp \<Longrightarrow> \<exists>r'. get_loggers sp ts r = Some r' \<and> (\<forall>m. sp_get sp r' m \<longleftrightarrow> m \<in> stringize ` set ts \<or> sp_get sp r m)"
proof (induction ts arbitrary: r)
  case (Cons t ts)
  obtain r1 where r1: "get_logger sp (stringize t) r = Some r1" "\<And>m. sp_get sp r1 m \<longleftrightarrow> m = stringize t \<or> sp_get sp r m"
    by (rule get_logger_returns[OF Cons.prems]) (rule that)
  with Cons.IH[OF Cons.prems, of r1] show ?case by auto
qed simp

text \<open>The laws hold of a list of names, and the loggers of the source's classes come to one per name.\<close>

definition name_registry :: "string list spdlog" where
  "name_registry =
     \<lparr>sp_get = (\<lambda>r n. n \<in> set r), sp_create = (\<lambda>n r. if n \<in> set r then None else Some (n # r)),
      sp_level = (\<lambda>_ _. Spd_trace), sp_set_level = (\<lambda>_ r. r), sp_set_pattern = (\<lambda>_ r. r), sp_emit = (\<lambda>_ _ _ r. r)\<rparr>"

lemma name_registry_laws: "registry_laws name_registry"
  by (auto simp: registry_laws_def name_registry_def)

definition class_loggers :: "c_token list" where
  "class_loggers = map Literal
     [''Config'', ''CpuOrchestrator'', ''Worker'', ''Dispatcher'', ''Timer'', ''Dictionary'', ''DictionaryRegistry'', ''StoreHandle'',
      ''FileStore'', ''FileLogger'', ''MemoryCache'', ''Network'', ''ReadBuffer'', ''ReaderThread'', ''Network'', ''Session'',
      ''AdminWebsite'', ''Application'']"

lemma class_loggers_created:
  "map_option length (get_loggers name_registry class_loggers []) = Some 17"
  "map_option last (get_loggers name_registry class_loggers []) = Some [CHR 0x22, CHR ''C'', CHR ''o'', CHR ''n'', CHR ''f'', CHR ''i'', CHR ''g'', CHR 0x22]"
  by code_simp+

subsection \<open>Two threads\<close>

text \<open>\<open>get_logger\<close> looks and creates in two steps, each of which locks the registry by itself.\<close>

datatype getter = Looking | Creating | Holding | Threw

definition get_step :: "'r spdlog \<Rightarrow> string \<Rightarrow> getter \<times> 'r \<Rightarrow> getter \<times> 'r" where
  "get_step sp name = (\<lambda>(pc, r).
     case pc of
       Looking \<Rightarrow> (if sp_get sp r name then (Holding, r) else (Creating, r))
     | Creating \<Rightarrow> (case sp_create sp name r of None \<Rightarrow> (Threw, r) | Some r' \<Rightarrow> (Holding, r'))
     | _ \<Rightarrow> (pc, r))"

fun get_run :: "'r spdlog \<Rightarrow> string \<Rightarrow> bool list \<Rightarrow> (getter \<times> getter) \<times> 'r \<Rightarrow> (getter \<times> getter) \<times> 'r" where
  "get_run sp name [] s = s"
| "get_run sp name (first # ss) ((a, b), r) =
     (if first then case get_step sp name (a, r) of (a', r') \<Rightarrow> get_run sp name ss ((a', b), r')
      else case get_step sp name (b, r) of (b', r') \<Rightarrow> get_run sp name ss ((a, b'), r'))"

text \<open>One thread alone runs \<open>get_logger\<close>; two threads that both look before either creates do not both
  get the logger: the second one throws.\<close>

lemma get_steps_alone:
  "get_step sp n (get_step sp n (Looking, r)) =
     (case get_logger sp n r of None \<Rightarrow> (Threw, r) | Some r' \<Rightarrow> (Holding, r'))"
  by (simp add: get_step_def get_logger_def split: option.split)

lemma first_use_races:
  assumes "registry_laws sp" "\<not> sp_get sp r n"
  shows "\<exists>r'. get_run sp n [True, False, True, False] ((Looking, Looking), r) = ((Holding, Threw), r')"
proof -
  obtain r' where c: "sp_create sp n r = Some r'" using assms by (fastforce simp: registry_laws_def)
  then have "sp_create sp n r' = None" using assms(1) by (auto simp: registry_laws_def)
  with c assms(2) show ?thesis by (simp add: get_step_def)
qed

text \<open>A registered name never throws, however many threads ask for it.\<close>

lemma registered_never_races:
  assumes "registry_laws sp" "sp_get sp r n" "fst s = (a, b)" "snd s = r" "a \<in> {Looking, Holding}" "b \<in> {Looking, Holding}"
  shows "\<exists>a b. get_run sp n ss s = ((a, b), r) \<and> a \<in> {Looking, Holding} \<and> b \<in> {Looking, Holding}"
  using assms(3-6)
proof (induction ss arbitrary: s a b)
  case Nil
  then show ?case by (cases s) auto
next
  case (Cons x ss)
  have g: "get_step sp n (pc, r) = (Holding, r)" if "pc \<in> {Looking, Holding}" for pc
    using that assms(2) by (auto simp: get_step_def)
  have "get_run sp n (x # ss) s = get_run sp n ss (if x then (Holding, b) else (a, Holding), r)"
    using Cons.prems g by (cases s) simp
  moreover obtain a' b' where "(if x then (Holding, b) else (a, Holding)) = (a', b')" "a' \<in> {Looking, Holding}" "b' \<in> {Looking, Holding}"
    using Cons.prems by (cases x) auto
  ultimately have "get_run sp n (x # ss) s = get_run sp n ss ((a', b'), r)" "a' \<in> {Looking, Holding}" "b' \<in> {Looking, Holding}"
    by simp_all
  with Cons.IH[of "((a', b'), r)"] show ?case by auto
qed

section \<open>Signals\<close>

datatype sig = SIGINT | SIGTERM

text \<open>What \<open>on_signal\<close> does with the count that \<open>fetch_add\<close> gave it.\<close>

datatype ending = Main_returned | Quick_exit int | Exit int | By_default sig | Terminated

definition signal_action :: "int \<Rightarrow> ending option" where
  "signal_action cnt = (if cnt = 2 then Some (Quick_exit 1) else if cnt \<ge> 3 then Some (Exit 1) else None)"

text \<open>
  The process of \<^verbatim>\<open>example/main.cpp\<close> from the point of \<open>Application::start\<close> at which the writers of the
  log and of the data files are started. Its main thread starts the threads, installs the two
  handlers, polls the count, and then destroys the application: \<open>Application::stop\<close>, the sessions,
  the owners of the two writers, each of which stops its writer again, and the writers, which
  stop a third time and then destroy the thread object; one that is still joinable there calls
  \<open>std::terminate\<close>. A handler counts and acts in two steps, since handlers can run in several
  threads. The other steps are those of the two writers' threads, of the update thread, and of
  whatever thread writes: the sessions (also as they are stopped and destroyed), the readers.
  Those writes can come between any two steps, which allows more than the program does.
\<close>

datatype writer_id = Log_files | Data_files

text \<open>Who calls \<open>FileWriter::stop\<close>: \<open>Application::stop\<close>, the destructor of the owner, its own.\<close>

datatype stop_call = In_stop | In_owner | In_writer

datatype main_pc =
  Start_writer writer_id | Start_update | Install_int | Install_term | Polling
| Clear_running | Stop_sessions | Stop_network | Stop_writer writer_id stop_call
| Join_writer writer_id stop_call | Join_update | Destroy_sessions | Destroy_thread writer_id | Over

record process =
  pr_caught :: "sig list"
  pr_count :: int
  pr_handling :: "int list"
  pr_main :: main_pc
  pr_running :: bool
  pr_updating :: bool
  pr_logger :: file_writer
  pr_store :: file_writer
  pr_end :: "ending option"

definition new_process :: "(string, writer) hmap \<Rightarrow> (string, writer) hmap \<Rightarrow> process" where
  "new_process logs ws = \<lparr>pr_caught = [], pr_count = 0, pr_handling = [], pr_main = Start_writer Log_files,
     pr_running = True, pr_updating = False, pr_logger = new_file_writer logs,
     pr_store = new_file_writer ws, pr_end = None\<rparr>"

fun writer_of :: "writer_id \<Rightarrow> process \<Rightarrow> file_writer" where
  "writer_of Log_files pr = pr_logger pr"
| "writer_of Data_files pr = pr_store pr"

fun set_writer :: "writer_id \<Rightarrow> file_writer \<Rightarrow> process \<Rightarrow> process" where
  "set_writer Log_files fw pr = pr\<lparr>pr_logger := fw\<rparr>"
| "set_writer Data_files fw pr = pr\<lparr>pr_store := fw\<rparr>"

text \<open>The end of \<open>Application::start\<close>: the writers' threads are created, then the update thread.\<close>

definition start_step :: "process \<Rightarrow> process option" where
  "start_step pr =
     (case pr_main pr of
        Start_writer w \<Rightarrow>
          Some (case fw_start (writer_of w pr) of
              None \<Rightarrow> pr\<lparr>pr_end := Some Terminated\<rparr>
            | Some fw \<Rightarrow> (set_writer w fw pr)
                \<lparr>pr_main := (case w of Log_files \<Rightarrow> Start_writer Data_files | Data_files \<Rightarrow> Start_update)\<rparr>)
      | Start_update \<Rightarrow> Some (pr\<lparr>pr_updating := True, pr_main := Install_int\<rparr>)
      | _ \<Rightarrow> None)"

text \<open>The update thread leaves its loop once \<open>m_running\<close> is cleared.\<close>

definition update_step :: "process \<Rightarrow> process" where
  "update_step pr = (if pr_running pr then pr else pr\<lparr>pr_updating := False\<rparr>)"

text \<open>\<open>static_wait\<close> installs the handlers and calls \<open>wait\<close>, whose loop is left once a signal was counted.\<close>

definition static_wait_step :: "process \<Rightarrow> process" where
  "static_wait_step pr =
     (case pr_main pr of
        Install_int \<Rightarrow> pr\<lparr>pr_caught := SIGINT # pr_caught pr, pr_main := Install_term\<rparr>
      | Install_term \<Rightarrow> pr\<lparr>pr_caught := SIGTERM # pr_caught pr, pr_main := Polling\<rparr>
      | _ \<Rightarrow> pr)"

definition wait_step :: "process \<Rightarrow> process" where
  "wait_step pr = (if pr_count pr = 0 then pr else pr\<lparr>pr_main := Clear_running\<rparr>)"

text \<open>Where the main thread goes on after a call of \<open>FileWriter::stop\<close>.\<close>

fun after_stop :: "writer_id \<Rightarrow> stop_call \<Rightarrow> main_pc" where
  "after_stop Log_files In_stop = Stop_writer Data_files In_stop"
| "after_stop Data_files In_stop = Join_update"
| "after_stop w In_owner = Stop_writer w In_writer"
| "after_stop w In_writer = Destroy_thread w"

text \<open>\<open>FileWriter::stop\<close> in two steps; the second has to wait for the thread and is not enabled before.\<close>

definition writer_stop_step :: "process \<Rightarrow> process option" where
  "writer_stop_step pr =
     (case pr_main pr of
        Stop_writer w c \<Rightarrow>
          (case fw_stop_begin (writer_of w pr) of (b, fw) \<Rightarrow>
             Some ((set_writer w fw pr)\<lparr>pr_main := if b then Join_writer w c else after_stop w c\<rparr>))
      | Join_writer w c \<Rightarrow>
          map_option (\<lambda>fw. (set_writer w fw pr)\<lparr>pr_main := after_stop w c\<rparr>) (fw_stop_end fs_fine (writer_of w pr))
      | _ \<Rightarrow> None)"

text \<open>\<open>Application::stop\<close> around the two stops of the writers. What the sessions and the readers write
  as they are stopped are write events.\<close>

definition app_stop_step :: "process \<Rightarrow> process option" where
  "app_stop_step pr =
     (case pr_main pr of
        Clear_running \<Rightarrow> Some (pr\<lparr>pr_running := False, pr_main := Stop_sessions\<rparr>)
      | Stop_sessions \<Rightarrow> Some (pr\<lparr>pr_main := Stop_network\<rparr>)
      | Stop_network \<Rightarrow> Some (pr\<lparr>pr_main := Stop_writer Log_files In_stop\<rparr>)
      | Join_update \<Rightarrow> if pr_updating pr then None else Some (pr\<lparr>pr_main := Destroy_sessions\<rparr>)
      | _ \<Rightarrow> None)"

text \<open>The members of the application, last one first, and the thread object of each writer.\<close>

definition destroy_step :: "process \<Rightarrow> process option" where
  "destroy_step pr =
     (case pr_main pr of
        Destroy_sessions \<Rightarrow> Some (pr\<lparr>pr_main := Stop_writer Data_files In_owner\<rparr>)
      | Destroy_thread w \<Rightarrow>
          Some (if fw_pc (writer_of w pr) \<noteq> NoThread then pr\<lparr>pr_end := Some Terminated\<rparr>
                else case w of
                  Data_files \<Rightarrow> pr\<lparr>pr_main := Stop_writer Log_files In_owner\<rparr>
                | Log_files \<Rightarrow> pr\<lparr>pr_main := Over, pr_end := Some Main_returned\<rparr>)
      | _ \<Rightarrow> None)"

definition main_step :: "process \<Rightarrow> process option" where
  "main_step pr =
     (case pr_main pr of
        Start_writer w \<Rightarrow> start_step pr
      | Start_update \<Rightarrow> start_step pr
      | Install_int \<Rightarrow> Some (static_wait_step pr)
      | Install_term \<Rightarrow> Some (static_wait_step pr)
      | Polling \<Rightarrow> Some (wait_step pr)
      | Stop_writer w c \<Rightarrow> writer_stop_step pr
      | Join_writer w c \<Rightarrow> writer_stop_step pr
      | Destroy_sessions \<Rightarrow> destroy_step pr
      | Destroy_thread w \<Rightarrow> destroy_step pr
      | _ \<Rightarrow> app_stop_step pr)"

text \<open>A signal arrives; without a handler its default action ends the process.\<close>

definition deliver :: "sig \<Rightarrow> process \<Rightarrow> process" where
  "deliver s pr =
     (if s \<in> set (pr_caught pr)
      then pr\<lparr>pr_count := wrap32 (pr_count pr + 1), pr_handling := pr_handling pr @ [wrap32 (pr_count pr + 1)]\<rparr>
      else pr\<lparr>pr_end := Some (By_default s)\<rparr>)"

definition handle_signal :: "int \<Rightarrow> process \<Rightarrow> process option" where
  "handle_signal cnt pr =
     (if cnt \<in> set (pr_handling pr)
      then Some (pr\<lparr>pr_handling := remove1 cnt (pr_handling pr), pr_end := signal_action cnt\<rparr>) else None)"

lemmas main_steps = main_step_def start_step_def static_wait_step_def wait_step_def writer_stop_step_def
  app_stop_step_def destroy_step_def

datatype process_event =
  MainStep | Deliver sig | Handle int | WriterStep writer_id | UpdateStep
| Write string store_op | Log_event string string | Log_message string nat bool string

fun process_step :: "process \<Rightarrow> process_event \<Rightarrow> process option" where
  "process_step pr e =
     (if pr_end pr \<noteq> None then None
      else case e of
        MainStep \<Rightarrow> main_step pr
      | Deliver s \<Rightarrow> Some (deliver s pr)
      | Handle cnt \<Rightarrow> handle_signal cnt pr
      | WriterStep w \<Rightarrow> Some (set_writer w (fw_thread fs_fine (writer_of w pr)) pr)
      | UpdateStep \<Rightarrow> Some (update_step pr)
      | Write p op \<Rightarrow> Some (pr\<lparr>pr_store := on_instance p (\<lambda>w. buffered_put w op) (pr_store pr)\<rparr>)
      | Log_event p t \<Rightarrow> Some (pr\<lparr>pr_logger := on_instance p (\<lambda>w. write_text w t) (pr_logger pr)\<rparr>)
      | Log_message p us inbound m \<Rightarrow>
          Some (pr\<lparr>pr_logger := on_instance p (\<lambda>w. writeMessage w us inbound m) (pr_logger pr)\<rparr>))"

fun process_run :: "process \<Rightarrow> process_event list \<Rightarrow> process option" where
  "process_run pr [] = Some pr"
| "process_run pr (e # es) = (case process_step pr e of None \<Rightarrow> None | Some pr' \<Rightarrow> process_run pr' es)"

lemma process_run_append:
  "process_run pr (xs @ ys) = (case process_run pr xs of None \<Rightarrow> None | Some pr' \<Rightarrow> process_run pr' ys)"
  by (induction xs arbitrary: pr) (simp_all del: process_step.simps split: option.split)

fun signals :: "process_event list \<Rightarrow> nat" where
  "signals [] = 0"
| "signals (e # es) = (case e of Deliver _ \<Rightarrow> 1 | _ \<Rightarrow> 0) + signals es"

fun written :: "string \<Rightarrow> process_event list \<Rightarrow> store_op list" where
  "written p [] = []"
| "written p (e # es) = (case e of Write q op \<Rightarrow> if q = p then op # written p es else written p es | _ \<Rightarrow> written p es)"

lemma signals_append: "signals (xs @ ys) = signals xs + signals ys"
  by (induction xs) simp_all

lemma written_append: "written p (xs @ ys) = written p xs @ written p ys"
  by (induction xs) (simp_all split: process_event.split)

lemma process_step_alive: "process_step pr e = Some pr' \<Longrightarrow> pr_end pr = None"
  by (simp split: if_splits)

section \<open>How the process ends\<close>

lemma writer_steps_store:
  assumes "process_step pr (WriterStep w) = Some pr'"
  shows "pr_store pr' = (case w of Log_files \<Rightarrow> pr_store pr | Data_files \<Rightarrow> fw_thread fs_fine (pr_store pr))"
  using assms by (cases w) (auto split: if_splits)

text \<open>Each step of the process is a step of the data files' writer or leaves it alone. \<open>StartCall\<close> comes
  from \<open>Start_writer Data_files\<close> only.\<close>

lemma process_step_store:
  assumes "process_step pr e = Some pr'"
  shows "pr_store pr' = pr_store pr \<and> written p [e] = []
    \<or> (\<exists>e'. fw_step (pr_store pr) e' = Some (pr_store pr') \<and> puts p [e'] = written p [e]
          \<and> (e' = StartCall \<longleftrightarrow> e = MainStep \<and> pr_main pr = Start_writer Data_files)
          \<and> (e' = StopJoined \<longrightarrow> e = MainStep \<and> (\<exists>c. pr_main pr = Join_writer Data_files c)))"
proof (cases e)
  case MainStep
  then have m: "main_step pr = Some pr'" using assms by (simp split: if_splits)
  show ?thesis
  proof (cases "pr_main pr")
    case (Start_writer w)
    show ?thesis
    proof (cases w)
      case Data_files
      show ?thesis
      proof (cases "fw_start (pr_store pr)")
        case None
        then show ?thesis using m MainStep Start_writer Data_files by (auto simp: main_steps)
      next
        case (Some fw)
        then show ?thesis using m MainStep Start_writer Data_files
          by (intro disjI2 exI[of _ StartCall]) (auto simp: main_steps)
      qed
    qed (use m MainStep Start_writer in \<open>auto simp: main_steps split: option.splits\<close>)
  next
    case (Stop_writer w c)
    obtain b fw where "fw_stop_begin (writer_of w pr) = (b, fw)" by force
    with m Stop_writer have "pr' = (set_writer w fw pr)\<lparr>pr_main := if b then Join_writer w c else after_stop w c\<rparr>"
      "fw_stop_begin (writer_of w pr) = (b, fw)" by (simp_all add: main_steps)
    then show ?thesis
      by (cases w) (simp_all add: MainStep Stop_writer, intro disjI2 exI[of _ "StopCall b"], simp)
  next
    case (Join_writer w c)
    then obtain fw where "pr' = (set_writer w fw pr)\<lparr>pr_main := after_stop w c\<rparr>"
      "fw_stop_end fs_fine (writer_of w pr) = Some fw" using m by (auto simp: main_steps)
    then show ?thesis
      by (cases w) (simp_all add: MainStep Join_writer, intro disjI2 exI[of _ StopJoined], simp)
  qed (use m MainStep in \<open>auto simp: main_steps split: if_splits writer_id.splits\<close>)
next
  case (WriterStep w)
  show ?thesis
  proof (cases w)
    case Log_files
    then show ?thesis using writer_steps_store[OF assms[unfolded WriterStep]] by (simp add: WriterStep)
  next
    case Data_files
    then have "fw_step (pr_store pr) ThreadStep = Some (pr_store pr')"
      using writer_steps_store[OF assms[unfolded WriterStep]] by simp
    then show ?thesis by (intro disjI2 exI[of _ ThreadStep]) (simp add: WriterStep)
  qed
next
  case (Write q op)
  with assms show ?thesis by (intro disjI2 exI[of _ "Put q op"]) (auto split: if_splits)
qed (use assms in \<open>auto simp: deliver_def handle_signal_def update_step_def split: if_splits\<close>)

text \<open>The signals: while the process lives, every handler from the second signal's on is still to act.\<close>

fun before_stop :: "main_pc \<Rightarrow> bool" where
  "before_stop (Start_writer w) = True"
| "before_stop Start_update = True"
| "before_stop Install_int = True"
| "before_stop Install_term = True"
| "before_stop Polling = True"
| "before_stop _ = False"

definition counted :: "nat \<Rightarrow> process \<Rightarrow> bool" where
  "counted n pr \<longleftrightarrow> pr_count pr = int n \<and> set (pr_handling pr) \<subseteq> {1..int n} \<and> {2..int n} \<subseteq> set (pr_handling pr)
     \<and> (before_stop (pr_main pr) \<or> 1 \<le> n)"

lemma set_writer_simps [simp]:
  "pr_count (set_writer w fw pr) = pr_count pr" "pr_handling (set_writer w fw pr) = pr_handling pr"
  "pr_main (set_writer w fw pr) = pr_main pr" "pr_end (set_writer w fw pr) = pr_end pr"
  by (cases w; simp)+

lemma after_stop_past: "\<not> before_stop (after_stop w c)"
  by (cases w; cases c; simp)

lemma main_step_counts:
  assumes "main_step pr = Some pr'"
  shows "pr_count pr' = pr_count pr" "pr_handling pr' = pr_handling pr"
    "before_stop (pr_main pr) \<Longrightarrow> pr_count pr = 0 \<Longrightarrow> before_stop (pr_main pr')"
    "\<not> before_stop (pr_main pr) \<Longrightarrow> \<not> before_stop (pr_main pr')"
    "pr_end pr = None \<Longrightarrow> pr_end pr' \<in> {None, Some Terminated} \<or>
       pr_end pr' = Some Main_returned \<and> pr_main pr = Destroy_thread Log_files"
proof -
  have "pr_count pr' = pr_count pr \<and> pr_handling pr' = pr_handling pr
    \<and> (before_stop (pr_main pr) \<longrightarrow> pr_count pr = 0 \<longrightarrow> before_stop (pr_main pr'))
    \<and> (\<not> before_stop (pr_main pr) \<longrightarrow> \<not> before_stop (pr_main pr'))
    \<and> (pr_end pr = None \<longrightarrow> pr_end pr' \<in> {None, Some Terminated} \<or>
       pr_end pr' = Some Main_returned \<and> pr_main pr = Destroy_thread Log_files)"
  proof (cases "pr_main pr")
    case (Start_writer w)
    then show ?thesis using assms
      by (cases "fw_start (writer_of w pr)"; cases w) (auto simp: main_steps)
  next
    case (Stop_writer w c)
    obtain b fw where "fw_stop_begin (writer_of w pr) = (b, fw)" by force
    with Stop_writer have "pr' = (set_writer w fw pr)\<lparr>pr_main := if b then Join_writer w c else after_stop w c\<rparr>"
      using assms by (simp add: main_steps)
    then show ?thesis using Stop_writer by (simp add: after_stop_past)
  next
    case (Join_writer w c)
    then obtain fw where "pr' = (set_writer w fw pr)\<lparr>pr_main := after_stop w c\<rparr>"
      using assms by (auto simp: main_steps)
    then show ?thesis using Join_writer by (simp add: after_stop_past)
  next
    case Polling
    then show ?thesis using assms by (cases "pr_count pr = 0") (auto simp: main_steps)
  next
    case Join_update
    then show ?thesis using assms by (cases "pr_updating pr") (auto simp: main_steps)
  next
    case (Destroy_thread w)
    then show ?thesis using assms
      by (cases "fw_pc (writer_of w pr) = NoThread"; cases w) (auto simp: main_steps)
  qed (use assms in \<open>auto simp: main_steps\<close>)
  then show "pr_count pr' = pr_count pr" "pr_handling pr' = pr_handling pr"
    "before_stop (pr_main pr) \<Longrightarrow> pr_count pr = 0 \<Longrightarrow> before_stop (pr_main pr')"
    "\<not> before_stop (pr_main pr) \<Longrightarrow> \<not> before_stop (pr_main pr')"
    "pr_end pr = None \<Longrightarrow> pr_end pr' \<in> {None, Some Terminated} \<or>
       pr_end pr' = Some Main_returned \<and> pr_main pr = Destroy_thread Log_files"
    by blast+
qed

text \<open>A step that is not one of the main thread, of a signal or of a handler.\<close>

lemma other_step:
  assumes "process_step pr e = Some pr'" "e \<noteq> MainStep" "\<And>s. e \<noteq> Deliver s" "\<And>c. e \<noteq> Handle c"
  shows "pr_count pr' = pr_count pr \<and> pr_handling pr' = pr_handling pr \<and> pr_main pr' = pr_main pr
    \<and> pr_end pr' = None \<and> signals [e] = 0"
  using assms by (cases e) (auto simp: update_step_def split: if_splits)

lemma process_step_counts:
  assumes "process_step pr e = Some pr'" "counted n pr" "int (n + signals [e]) < 2147483648"
  shows "pr_end pr' = None \<Longrightarrow> counted (n + signals [e]) pr'"
    and "pr_end pr' = Some (Quick_exit c) \<Longrightarrow> c = 1 \<and> 2 \<le> n \<and> signals [e] = 0"
    and "pr_end pr' = Some (Exit c) \<Longrightarrow> c = 1 \<and> 3 \<le> n \<and> signals [e] = 0"
    and "pr_end pr' = Some Main_returned \<Longrightarrow> e = MainStep \<and> pr_main pr = Destroy_thread Log_files \<and> 1 \<le> n"
proof -
  note alive = process_step_alive[OF assms(1)]
  have "(pr_end pr' = None \<longrightarrow> counted (n + signals [e]) pr')
    \<and> (pr_end pr' = Some (Quick_exit c) \<longrightarrow> c = 1 \<and> 2 \<le> n \<and> signals [e] = 0)
    \<and> (pr_end pr' = Some (Exit c) \<longrightarrow> c = 1 \<and> 3 \<le> n \<and> signals [e] = 0)
    \<and> (pr_end pr' = Some Main_returned \<longrightarrow> e = MainStep \<and> pr_main pr = Destroy_thread Log_files \<and> 1 \<le> n)" for c
  proof (cases e)
    case MainStep
    then have m: "main_step pr = Some pr'" using assms(1) alive by simp
    note c = main_step_counts[OF m]
    have "before_stop (pr_main pr') \<or> 1 \<le> n"
      using c(3,4) assms(2) by (cases "n = 0") (auto simp: counted_def)
    then show ?thesis
      using c(1,2) c(5)[OF alive] assms(2) MainStep by (auto simp: counted_def)
  next
    case (Deliver x)
    have w: "wrap32 (pr_count pr + 1) = int n + 1" using assms(2,3) Deliver by (simp add: counted_def is_int32_def)
    have pr': "pr' = deliver x pr" using assms(1) alive Deliver by simp
    show ?thesis
    proof (cases "x \<in> set (pr_caught pr)")
      case True
      then have "pr' = pr\<lparr>pr_count := int n + 1, pr_handling := pr_handling pr @ [int n + 1]\<rparr>"
        by (simp add: pr' deliver_def w)
      moreover have "set (pr_handling pr @ [int n + 1]) \<subseteq> {1..int n + 1}"
        using assms(2) by (auto simp: counted_def)
      moreover have "x \<in> set (pr_handling pr @ [int n + 1])" if "x \<in> {2..int n + 1}" for x
        by (cases "x = int n + 1") (use assms(2) that in \<open>auto simp: counted_def subset_iff\<close>)
      then have "{2..int n + 1} \<subseteq> set (pr_handling pr @ [int n + 1])" by (rule subsetI)
      ultimately show ?thesis
        using alive Deliver by (simp add: counted_def add.commute)
    qed (simp add: pr' deliver_def)
  next
    case (Handle k)
    then have k: "k \<in> set (pr_handling pr)" "pr' = pr\<lparr>pr_handling := remove1 k (pr_handling pr), pr_end := signal_action k\<rparr>"
      using assms(1) alive by (auto simp: handle_signal_def split: if_splits)
    have b: "1 \<le> k" "k \<le> int n" using k(1) assms(2) by (auto simp: counted_def)
    have "set (remove1 k (pr_handling pr)) \<subseteq> {1..int n}"
      using assms(2) set_remove1_subset[of k "pr_handling pr"] by (auto simp: counted_def)
    moreover have "{2..int n} \<subseteq> set (remove1 k (pr_handling pr))" if "k = 1"
      using assms(2) that by (auto simp: counted_def in_set_remove1 subset_iff)
    ultimately show ?thesis
      using assms(2) Handle b by (cases "k = 1") (auto simp: k(2) counted_def signal_action_def)
  qed (use other_step[OF assms(1)] assms(2) in \<open>simp_all add: counted_def\<close>)
  then show "pr_end pr' = None \<Longrightarrow> counted (n + signals [e]) pr'"
    "pr_end pr' = Some (Quick_exit c) \<Longrightarrow> c = 1 \<and> 2 \<le> n \<and> signals [e] = 0"
    "pr_end pr' = Some (Exit c) \<Longrightarrow> c = 1 \<and> 3 \<le> n \<and> signals [e] = 0"
    "pr_end pr' = Some Main_returned \<Longrightarrow> e = MainStep \<and> pr_main pr = Destroy_thread Log_files \<and> 1 \<le> n"
    by blast+
qed

text \<open>The writer of the data files: it has no thread before its start and none once it was destroyed.\<close>

fun store_unstarted :: "main_pc \<Rightarrow> bool" where
  "store_unstarted (Start_writer w) = True"
| "store_unstarted _ = False"

fun store_destroyed :: "main_pc \<Rightarrow> bool" where
  "store_destroyed (Stop_writer Log_files c) = (c \<noteq> In_stop)"
| "store_destroyed (Join_writer Log_files c) = (c \<noteq> In_stop)"
| "store_destroyed (Destroy_thread Log_files) = True"
| "store_destroyed Over = True"
| "store_destroyed _ = False"

definition staged :: "process \<Rightarrow> bool" where
  "staged pr \<longleftrightarrow>
     (fw_enabled (pr_store pr) \<longrightarrow> fw_pc (pr_store pr) \<notin> {NoThread, Created, Returned})
     \<and> (store_unstarted (pr_main pr) \<or> store_destroyed (pr_main pr) \<longrightarrow> fw_pc (pr_store pr) = NoThread)"

lemma no_thread_step:
  assumes "fw_step fw e = Some fw'" "fw_pc fw = NoThread" "\<not> fw_enabled fw" "e \<noteq> StartCall"
  shows "fw_pc fw' = NoThread \<and> (fw_instances fw' = fw_instances fw \<and> puts p [e] = []
    \<or> (\<exists>q op. e = Put q op \<and> fw' = on_instance q (\<lambda>w. buffered_put w op) fw))"
  using assms
  by (cases e) (auto simp: fw_thread_def fw_stop_begin_def fw_stop_end_def on_instance_def split: if_splits)

lemma thread_gone_by_join:
  assumes "fw_step fw e = Some fw'" "fw_pc fw' = NoThread" "fw_pc fw \<noteq> NoThread"
  shows "e = StopJoined"
proof (cases e)
  case ThreadStep
  with assms show ?thesis by (cases "fw_pc fw") (auto simp: fw_thread_def split: if_splits)
qed (use assms in \<open>auto simp: fw_start_def fw_stop_begin_def on_instance_def split: if_splits prod.splits\<close>)

lemma store_stage_step:
  assumes "main_step pr = Some pr'" "pr_end pr = None"
  shows "store_unstarted (pr_main pr') \<Longrightarrow> pr_store pr' = pr_store pr \<and> store_unstarted (pr_main pr)"
    and "store_unstarted (pr_main pr) \<Longrightarrow> \<not> store_unstarted (pr_main pr') \<Longrightarrow> fw_start (pr_store pr) = Some (pr_store pr')"
    and "store_destroyed (pr_main pr') \<Longrightarrow> pr_store pr' = pr_store pr
      \<and> (store_destroyed (pr_main pr) \<or> fw_pc (pr_store pr) = NoThread)"
proof -
  have "(store_unstarted (pr_main pr') \<longrightarrow> pr_store pr' = pr_store pr \<and> store_unstarted (pr_main pr))
    \<and> (store_unstarted (pr_main pr) \<longrightarrow> \<not> store_unstarted (pr_main pr') \<longrightarrow> fw_start (pr_store pr) = Some (pr_store pr'))
    \<and> (store_destroyed (pr_main pr') \<longrightarrow> pr_store pr' = pr_store pr
      \<and> (store_destroyed (pr_main pr) \<or> fw_pc (pr_store pr) = NoThread))"
  proof (cases "pr_main pr")
    case (Start_writer w)
    then show ?thesis using assms
      by (cases "fw_start (writer_of w pr)"; cases w) (auto simp: main_steps)
  next
    case (Stop_writer w c)
    obtain b fw where f: "fw_stop_begin (writer_of w pr) = (b, fw)" by force
    with Stop_writer have "pr' = (set_writer w fw pr)\<lparr>pr_main := if b then Join_writer w c else after_stop w c\<rparr>"
      using assms by (simp add: main_steps)
    then show ?thesis using Stop_writer by (cases w; cases c; cases b) auto
  next
    case (Join_writer w c)
    then obtain fw where "pr' = (set_writer w fw pr)\<lparr>pr_main := after_stop w c\<rparr>"
      using assms by (auto simp: main_steps)
    then show ?thesis using Join_writer by (cases w; cases c) auto
  next
    case Polling
    then show ?thesis using assms by (cases "pr_count pr = 0") (auto simp: main_steps)
  next
    case Join_update
    then show ?thesis using assms by (cases "pr_updating pr") (auto simp: main_steps)
  next
    case (Destroy_thread w)
    then show ?thesis using assms
      by (cases "fw_pc (writer_of w pr) = NoThread"; cases w) (auto simp: main_steps)
  qed (use assms in \<open>auto simp: main_steps\<close>)
  then show "store_unstarted (pr_main pr') \<Longrightarrow> pr_store pr' = pr_store pr \<and> store_unstarted (pr_main pr)"
    "store_unstarted (pr_main pr) \<Longrightarrow> \<not> store_unstarted (pr_main pr') \<Longrightarrow> fw_start (pr_store pr) = Some (pr_store pr')"
    "store_destroyed (pr_main pr') \<Longrightarrow> pr_store pr' = pr_store pr
      \<and> (store_destroyed (pr_main pr) \<or> fw_pc (pr_store pr) = NoThread)"
    by blast+
qed

lemma main_unless_MainStep:
  assumes "process_step pr e = Some pr'" "e \<noteq> MainStep"
  shows "pr_main pr' = pr_main pr"
  using assms by (cases e) (auto simp: update_step_def deliver_def handle_signal_def split: if_splits)

lemma staged_step:
  assumes "process_step pr e = Some pr'" "staged pr"
  shows "staged pr'"
proof -
  have en: "fw_enabled (pr_store pr') \<longrightarrow> fw_pc (pr_store pr') \<notin> {NoThread, Created, Returned}"
    using process_step_store[OF assms(1), of "[]"] enabled_step assms(2) unfolding staged_def by metis
  have nt: "fw_pc (pr_store pr') = NoThread"
    if "store_unstarted (pr_main pr') \<or> store_destroyed (pr_main pr')"
  proof (cases "e = MainStep")
    case True
    then have "main_step pr = Some pr'" using assms(1) by (simp split: if_splits)
    from store_stage_step[OF this process_step_alive[OF assms(1)]] that show ?thesis
      using assms(2) by (auto simp: staged_def)
  next
    case False
    then have m: "pr_main pr' = pr_main pr" by (rule main_unless_MainStep[OF assms(1)])
    then have n: "fw_pc (pr_store pr) = NoThread" "\<not> fw_enabled (pr_store pr)"
      using that assms(2) by (auto simp: staged_def)
    from process_step_store[OF assms(1), of "[]"] False no_thread_step[OF _ n] show ?thesis
      using n(1) by metis
  qed
  from en nt show ?thesis by (simp add: staged_def)
qed

text \<open>What a join of the writer flushed, and what was handed over after it.\<close>

definition joined_at :: "process \<Rightarrow> string \<Rightarrow> string \<Rightarrow> process_event list \<Rightarrow> process \<Rightarrow> bool" where
  "joined_at pr0 p b es pr \<longleftrightarrow>
     (\<exists>es1 es2 pr1 c w. es = es1 @ MainStep # es2 \<and> process_run pr0 es1 = Some pr1
        \<and> pr_main pr1 = Join_writer Data_files c
        \<and> map_of (fw_instances (pr_store pr)) p = Some w
        \<and> load (w_file w) = load_loop (b @ concat (map record_of (written p es1))) session_data0
        \<and> w_queue w = concat (map record_of (written p es2)))"

lemma joined_at_later:
  assumes "joined_at pr0 p b es pr" "hmap_ok (fw_instances (pr_store pr))"
    and "fw_instances (pr_store pr') = fw_instances (pr_store pr) \<and> written p [e] = []
      \<or> (\<exists>q op. pr_store pr' = on_instance q (\<lambda>w. buffered_put w op) (pr_store pr)
           \<and> written p [e] = (if q = p then [op] else []))"
  shows "joined_at pr0 p b (es @ [e]) pr'"
proof -
  obtain es1 es2 pr1 c w where j: "es = es1 @ MainStep # es2" "process_run pr0 es1 = Some pr1"
    "pr_main pr1 = Join_writer Data_files c" "map_of (fw_instances (pr_store pr)) p = Some w"
    "load (w_file w) = load_loop (b @ concat (map record_of (written p es1))) session_data0"
    "w_queue w = concat (map record_of (written p es2))"
    using assms(1) by (auto simp: joined_at_def)
  have "\<exists>w'. map_of (fw_instances (pr_store pr')) p = Some w' \<and> w_file w' = w_file w
      \<and> w_queue w' = w_queue w @ concat (map record_of (written p [e]))"
    using assms(3)
  proof (elim disjE exE conjE)
    fix q op
    assume "pr_store pr' = on_instance q (\<lambda>w. buffered_put w op) (pr_store pr)"
      and wr: "written p [e] = (if q = p then [op] else [])"
    then have "map_of (fw_instances (pr_store pr')) p = Some (if p = q then buffered_put w op else w)"
      using map_of_on_snd[of "\<lambda>k w. if k = q then buffered_put w op else w" "fw_instances (pr_store pr)" p] j(4)
      by (simp add: on_instance_def)
    moreover have "w_file (buffered_put w op) = w_file w \<and> w_queue (buffered_put w op) = w_queue w @ record_of op"
      by (cases op) (simp_all add: writeRaw_def write_text_def store_record_def)
    ultimately show ?thesis unfolding wr by (cases "q = p") simp_all
  qed (use j(4) in simp)
  moreover have "es @ [e] = es1 @ MainStep # (es2 @ [e])" by (simp add: j(1))
  ultimately show ?thesis
    unfolding joined_at_def using j(2,3,5,6) written_append[of p es2 "[e]"]
    by (metis concat_append map_append)
qed

lemma joined_at_step:
  assumes run: "process_run pr0 es = Some pr" and s: "process_step pr e = Some pr'"
    and st: "staged pr" and h: "holds p (b @ concat (map record_of (written p es))) (pr_store pr)"
    and ok: "hmap_ok (fw_instances (pr_store pr))"
    and j: "\<not> store_unstarted (pr_main pr) \<Longrightarrow> fw_pc (pr_store pr) = NoThread \<Longrightarrow> joined_at pr0 p b es pr"
    and now: "\<not> store_unstarted (pr_main pr')" "fw_pc (pr_store pr') = NoThread"
  shows "joined_at pr0 p b (es @ [e]) pr'"
proof (cases "fw_pc (pr_store pr) = NoThread \<and> \<not> store_unstarted (pr_main pr)")
  case True
  then have n: "fw_pc (pr_store pr) = NoThread" "\<not> fw_enabled (pr_store pr)" using st by (auto simp: staged_def)
  show ?thesis
  proof (rule joined_at_later[OF j ok])
    show "fw_instances (pr_store pr') = fw_instances (pr_store pr) \<and> written p [e] = []
      \<or> (\<exists>q op. pr_store pr' = on_instance q (\<lambda>w. buffered_put w op) (pr_store pr)
           \<and> written p [e] = (if q = p then [op] else []))"
      using process_step_store[OF s, of p]
    proof (elim disjE exE conjE)
      fix e'
      assume a: "fw_step (pr_store pr) e' = Some (pr_store pr')" "puts p [e'] = written p [e]"
        "e' = StartCall \<longleftrightarrow> e = MainStep \<and> pr_main pr = Start_writer Data_files"
      have "e' \<noteq> StartCall" using a(3) True by auto
      from no_thread_step[OF a(1) n this, THEN conjunct2, of p] show ?thesis
      proof (elim disjE exE conjE)
        fix q op
        assume "e' = Put q op" "pr_store pr' = on_instance q (\<lambda>w. buffered_put w op) (pr_store pr)"
        then show ?thesis using a(2) by (intro disjI2 exI[of _ q] exI[of _ op]) auto
      qed (use a(2) in simp)
    qed simp
  qed (use True in simp_all)
next
  case False
  have not_unstarted: "\<not> store_unstarted (pr_main pr)"
  proof
    assume u: "store_unstarted (pr_main pr)"
    then have "e = MainStep" using main_unless_MainStep[OF s] now(1) by metis
    then have "main_step pr = Some pr'" using s by (simp split: if_splits)
    from store_stage_step(2)[OF this process_step_alive[OF s] u now(1)]
    have "pr_store pr' = pr_store pr\<lparr>fw_pc := Created\<rparr>" by (simp add: fw_start_def split: if_splits)
    then show False using now(2) by simp
  qed
  with False have n: "fw_pc (pr_store pr) \<noteq> NoThread" by simp
  from process_step_store[OF s, of p] obtain e' where
    e': "fw_step (pr_store pr) e' = Some (pr_store pr')" "puts p [e'] = written p [e]"
      "e' = StopJoined \<longrightarrow> e = MainStep \<and> (\<exists>c. pr_main pr = Join_writer Data_files c)"
    using n now(2) by metis
  from thread_gone_by_join[OF e'(1) now(2) n] have sj: "e' = StopJoined" .
  with e'(3) obtain c where e: "e = MainStep" "pr_main pr = Join_writer Data_files c" by blast
  have "fw_stop_end fs_fine (pr_store pr) = Some (pr_store pr')" using e'(1) sj by simp
  from stop_flushes[OF this h] run e show ?thesis
    unfolding joined_at_def by (intro exI[of _ es] exI[of _ "[]"] exI[of _ pr] exI[of _ c]) auto
qed

lemma process_run_inv:
  assumes "hmap_ok ws" "holds p b (new_file_writer ws)"
  shows "process_run (new_process logs ws) es = Some pr \<Longrightarrow> int (signals es) < 2147483648 \<Longrightarrow>
    holds p (b @ concat (map record_of (written p es))) (pr_store pr) \<and> hmap_ok (fw_instances (pr_store pr))
    \<and> staged pr \<and> (pr_end pr = None \<longrightarrow> counted (signals es) pr)
    \<and> (\<not> store_unstarted (pr_main pr) \<longrightarrow> fw_pc (pr_store pr) = NoThread \<longrightarrow> joined_at (new_process logs ws) p b es pr)
    \<and> (\<forall>c. pr_end pr = Some (Quick_exit c) \<longrightarrow> c = 1 \<and> 2 \<le> signals es)
    \<and> (\<forall>c. pr_end pr = Some (Exit c) \<longrightarrow> c = 1 \<and> 3 \<le> signals es)
    \<and> (pr_end pr = Some Main_returned \<longrightarrow> 1 \<le> signals es \<and> joined_at (new_process logs ws) p b es pr)"
proof (induction es arbitrary: pr rule: rev_induct)
  case Nil
  then have "pr = new_process logs ws" by simp
  then show ?case using assms
    by (simp add: new_process_def staged_def counted_def) (simp add: new_file_writer_def)
next
  case (snoc e es)
  obtain pr0 where r: "process_run (new_process logs ws) es = Some pr0" and s: "process_step pr0 e = Some pr"
    using snoc.prems(1) by (auto simp del: process_step.simps simp: process_run_append split: option.splits)
  have sg: "signals (es @ [e]) = signals es + signals [e]" by (rule signals_append)
  have lt: "int (signals es + signals [e]) < 2147483648" using snoc.prems(2) sg by simp
  have alive: "pr_end pr0 = None" by (rule process_step_alive[OF s])
  from snoc.IH[OF r] lt have ih: "holds p (b @ concat (map record_of (written p es))) (pr_store pr0)"
    "hmap_ok (fw_instances (pr_store pr0))" "staged pr0" "counted (signals es) pr0"
    "\<not> store_unstarted (pr_main pr0) \<Longrightarrow> fw_pc (pr_store pr0) = NoThread \<Longrightarrow> joined_at (new_process logs ws) p b es pr0"
    using alive by auto
  note c = process_step_counts[OF s ih(4) lt]
  have h: "holds p (b @ concat (map record_of (written p (es @ [e])))) (pr_store pr) \<and> hmap_ok (fw_instances (pr_store pr))"
    using process_step_store[OF s, of p]
  proof (elim disjE exE conjE)
    fix e'
    assume "fw_step (pr_store pr0) e' = Some (pr_store pr)" "puts p [e'] = written p [e]"
    then show ?thesis using step_holds[OF _ ih(1,2), of e' "pr_store pr"] unfolding written_append by simp
  qed (use ih(1,2) in \<open>simp add: written_append\<close>)
  note j = joined_at_step[OF r s ih(3,1,2,5)]
  have m: "joined_at (new_process logs ws) p b (es @ [e]) pr" if "pr_end pr = Some Main_returned"
  proof -
    have d: "e = MainStep" "pr_main pr0 = Destroy_thread Log_files" using c(4)[OF that] by auto
    then have "main_step pr0 = Some pr" using s alive by simp
    then have "pr_main pr = Over" "pr_store pr = pr_store pr0" "fw_pc (pr_store pr0) = NoThread"
      using d(2) ih(3) that alive by (auto simp: main_steps staged_def split: if_splits)
    then show ?thesis using j by simp
  qed
  show ?case
    unfolding sg using h staged_step[OF s ih(3)] c j m by auto
qed

text \<open>C28: how a process that is told to stop by signals ends. While it has not ended, every signal from the
  second on has its handler still to act, and whichever acts ends the process with status 1: that
  of the second signal by \<open>quick_exit\<close>, that of a later one by \<open>exit\<close>, wherever the shutdown
  stands. It ends so only when a second, respectively third, signal has come. It returns from
  \<open>main\<close> only after a signal has come, and then the main thread has joined the writer of the data
  files: every record handed over before that (\<open>es1\<close>) is in the file, which loads accordingly, and
  what was handed over after it (\<open>es2\<close>) stays in the queue. However it ends, the file and the queue
  account for every record.\<close>

theorem signals_end_process:
  assumes "process_run (new_process logs ws) es = Some pr" "hmap_ok ws" "map_of ws p = Some w0" "store_writer w0"
    "reload w0 = Inr d" "list_all store_op_ok (written p es)" "int (signals es) < 2147483648"
  shows "(case pr_end pr of
      None \<Rightarrow> \<forall>c\<in>{2..int (signals es)}. \<exists>pr'. process_step pr (Handle c) = Some pr'
        \<and> pr_end pr' = Some (if c = 2 then Quick_exit 1 else Exit 1)
    | Some Main_returned \<Rightarrow> 1 \<le> signals es
        \<and> (\<exists>es1 es2 pr1 c w. es = es1 @ MainStep # es2 \<and> process_run (new_process logs ws) es1 = Some pr1
             \<and> pr_main pr1 = Join_writer Data_files c
             \<and> map_of (fw_instances (pr_store pr)) p = Some w
             \<and> load (w_file w) = Inr (fold data_op (written p es1) d)
             \<and> w_queue w = concat (map record_of (written p es2)))
    | Some (Quick_exit c) \<Rightarrow> c = 1 \<and> 2 \<le> signals es
    | Some (Exit c) \<Rightarrow> c = 1 \<and> 3 \<le> signals es
    | _ \<Rightarrow> True)
    \<and> (\<exists>w. map_of (fw_instances (pr_store pr)) p = Some w \<and> eventual w = eventual w0 @ concat (map record_of (written p es)))"
proof -
  have h0: "holds p (eventual w0) (new_file_writer ws)"
    using assms(3,4) by (simp add: holds_def new_file_writer_def)
  note inv = process_run_inv[OF assms(2) h0 assms(1,7)]
  have l: "load_loop (eventual w0) session_data0 = Inr d" using assms(4,5) by (simp add: reload_eventual)
  have fire: "\<exists>pr'. process_step pr (Handle c) = Some pr' \<and> pr_end pr' = Some (if c = 2 then Quick_exit 1 else Exit 1)"
    if "pr_end pr = None" "c \<in> {2..int (signals es)}" for c
    using inv that by (auto simp: counted_def handle_signal_def signal_action_def subset_iff)
  have ret: "\<exists>es1 es2 pr1 c w. es = es1 @ MainStep # es2 \<and> process_run (new_process logs ws) es1 = Some pr1
             \<and> pr_main pr1 = Join_writer Data_files c
             \<and> map_of (fw_instances (pr_store pr)) p = Some w
             \<and> load (w_file w) = Inr (fold data_op (written p es1) d)
             \<and> w_queue w = concat (map record_of (written p es2))"
    if "pr_end pr = Some Main_returned"
  proof -
    have "joined_at (new_process logs ws) p (eventual w0) es pr" using inv that by simp
    then obtain es1 es2 pr1 c w where j: "es = es1 @ MainStep # es2"
      "process_run (new_process logs ws) es1 = Some pr1" "pr_main pr1 = Join_writer Data_files c"
      "map_of (fw_instances (pr_store pr)) p = Some w"
      "load (w_file w) = load_loop (eventual w0 @ concat (map record_of (written p es1))) session_data0"
      "w_queue w = concat (map record_of (written p es2))"
      unfolding joined_at_def by blast
    have "list_all store_op_ok (written p es1)" using assms(6) by (simp add: j(1) written_append)
    from load_records[OF l this] j show ?thesis by metis
  qed
  have "\<exists>w. map_of (fw_instances (pr_store pr)) p = Some w \<and> eventual w = eventual w0 @ concat (map record_of (written p es))"
    using inv by (auto simp: holds_def)
  moreover have "1 \<le> signals es" if "pr_end pr = Some Main_returned" using inv that by simp
  moreover have "c = 1 \<and> 2 \<le> signals es" if "pr_end pr = Some (Quick_exit c)" for c using inv that by simp
  moreover have "c = 1 \<and> 3 \<le> signals es" if "pr_end pr = Some (Exit c)" for c using inv that by simp
  ultimately show ?thesis using fire ret
    by (cases "pr_end pr") (simp_all del: process_step.simps split: ending.split)
qed

section \<open>Processes that end\<close>

lemma first_counts: "wrap32 1 = 1" "wrap32 2 = 2" "wrap32 3 = 3"
  by (simp_all add: is_int32_def)

text \<open>The steps of the main thread up to the wait, and those of the two new threads up to their loops.\<close>

definition started :: "process_event list" where
  "started = replicate 5 MainStep @ [WriterStep Log_files, WriterStep Data_files]"

definition running_process :: "(string, writer) hmap \<Rightarrow> (string, writer) hmap \<Rightarrow> process" where
  "running_process logs ws = (new_process logs ws)
     \<lparr>pr_caught := [SIGTERM, SIGINT], pr_main := Polling, pr_updating := True,
      pr_logger := (new_file_writer logs)\<lparr>fw_enabled := True, fw_pc := Testing\<rparr>,
      pr_store := (new_file_writer ws)\<lparr>fw_enabled := True, fw_pc := Testing\<rparr>\<rparr>"

lemma started_runs: "process_run (new_process logs ws) started = Some (running_process logs ws)"
  by (simp add: started_def running_process_def new_process_def new_file_writer_def main_steps fw_start_def
      fw_thread_def numeral_nat)

lemma process_run_started: "process_run (new_process logs ws) (started @ es) = process_run (running_process logs ws) es"
  by (simp add: process_run_append started_runs)

text \<open>A record that is queued when the second signal is handled is not in the file: the process is over.\<close>

lemma second_signal_loses:
  "\<exists>pr w. process_run (new_process [] [(''f'', new_writer False None)])
       (started @ [Write ''f'' (PutSender 4), Deliver SIGINT, Handle 1, MainStep, MainStep, Deliver SIGINT, Handle 2]) = Some pr
     \<and> pr_end pr = Some (Quick_exit 1) \<and> map_of (fw_instances (pr_store pr)) ''f'' = Some w
     \<and> load (w_file w) = Inr session_data0 \<and> process_step pr e = None"
  unfolding process_run_started
  by (simp add: running_process_def new_process_def new_file_writer_def main_steps deliver_def handle_signal_def
      signal_action_def first_counts on_instance_def new_writer_def write_text_def load_def)

text \<open>Two handlers in two threads: the third signal's can act before the second's.\<close>

lemma third_overtakes:
  "\<exists>pr. process_run (new_process logs ws) (started @ [Deliver SIGINT, Deliver SIGTERM, Deliver SIGINT, Handle 3]) = Some pr
     \<and> pr_end pr = Some (Exit 1)"
  unfolding process_run_started
  by (simp add: running_process_def new_process_def deliver_def handle_signal_def signal_action_def first_counts)

text \<open>When the signal comes before the new threads have run, the writers are not enabled when they are
  stopped: no stop joins, and the destructor of the thread object ends the process by \<open>terminate\<close>.\<close>

lemma early_signal_terminates:
  "\<exists>pr. process_run (new_process logs ws)
       (replicate 5 MainStep @ [Deliver SIGINT, Handle 1] @ replicate 6 MainStep @ [UpdateStep] @ replicate 5 MainStep) = Some pr
     \<and> pr_end pr = Some Terminated"
  by (simp add: new_process_def new_file_writer_def main_steps deliver_def handle_signal_def signal_action_def
      first_counts fw_start_def fw_stop_begin_def update_step_def numeral_nat)

text \<open>A signal stops the process; a record is written while the store's writer stops, one as the sessions
  are destroyed. The first is in the file, the second stays in the queue.\<close>

definition demo_end :: "process_event list" where
  "demo_end = started @ [Write ''f'' (PutSender 4), Deliver SIGTERM, Handle 1] @ replicate 5 MainStep
     @ [WriterStep Log_files, MainStep, MainStep, Write ''f'' (PutTarget 3), WriterStep Data_files, MainStep]
     @ [UpdateStep, MainStep, Write ''f'' (PutSender 5)] @ replicate 7 MainStep"

lemma signals_end_process_witness:
  "\<exists>pr es1 es2 w. process_run (new_process [] [(''f'', new_writer False None)]) demo_end = Some pr
     \<and> pr_end pr = Some Main_returned \<and> demo_end = es1 @ MainStep # es2
     \<and> map_of (fw_instances (pr_store pr)) ''f'' = Some w
     \<and> load (w_file w) = Inr (fold data_op (written ''f'' es1) session_data0)
     \<and> w_queue w = concat (map record_of (written ''f'' es2))"
proof -
  let ?ws = "[(''f'', new_writer False None)]"
  obtain pr where pr: "process_run (new_process [] ?ws) demo_end = Some pr" "pr_end pr = Some Main_returned"
    unfolding demo_end_def process_run_started
    by (simp add: running_process_def new_process_def new_file_writer_def main_steps deliver_def handle_signal_def
      signal_action_def first_counts fw_stop_begin_def fw_stop_end_def fw_thread_def on_instance_def new_writer_def
      write_text_def update_step_def numeral_nat)
  have w: "store_writer (new_writer False None)" "reload (new_writer False None) = Inr session_data0"
    by (simp_all add: store_writer_def new_writer_def reload_def flushInstance_def load_def)
  have es: "list_all store_op_ok (written ''f'' demo_end)" "int (signals demo_end) < 2147483648"
    by (simp_all add: demo_end_def started_def written_append signals_append numeral_nat is_int32_def)
  from signals_end_process[OF pr(1), of "''f''", OF _ _ w es] pr(2) have
    "\<exists>es1 es2 pr1 c w. demo_end = es1 @ MainStep # es2 \<and> process_run (new_process [] ?ws) es1 = Some pr1
       \<and> pr_main pr1 = Join_writer Data_files c \<and> map_of (fw_instances (pr_store pr)) ''f'' = Some w
       \<and> load (w_file w) = Inr (fold data_op (written ''f'' es1) session_data0)
       \<and> w_queue w = concat (map record_of (written ''f'' es2))"
    by (simp add: hmap_ok_def del: process_run.simps)
  with pr show ?thesis by blast
qed

end
