(* ===== verification/Integrity.thy ===== *)
theory Integrity
  imports ParserFacts
begin

text \<open>
  What the checks at the end of the strict parser say about the text. Through every branch of the
  parser (groups, unknown fields, the change from header to body to trailer) it is followed which
  field maps can have got a field, and where the parser recorded the end of BodyLength; so the
  two checks, which read the parser's state, are statements about the bytes that were parsed.
\<close>

section \<open>What one field changes\<close>

text \<open>Nothing that the checks at the end look at.\<close>

definition unmoved :: "parser \<Rightarrow> parser \<Rightarrow> bool" where
  "unmoved st st' \<longleftrightarrow> (\<forall>p t. getField (part_get p st') t = getField (part_get p st) t)
     \<and> p_bodyLengthStart st' = p_bodyLengthStart st \<and> p_tag st' = p_tag st \<and> p_tagCount st' = p_tagCount st"

text \<open>At most the field itself, and for BodyLength its end: when the header gets a BodyLength, the
  end of that very field is recorded.\<close>

definition takes :: "int \<Rightarrow> string \<Rightarrow> nat \<Rightarrow> parser \<Rightarrow> parser \<Rightarrow> bool" where
  "takes tag val e st st' \<longleftrightarrow>
     (\<forall>p t v. getField (part_get p st') t = Inr v \<longrightarrow> getField (part_get p st) t = Inr v \<or> (t = tag \<and> v = val))
     \<and> (tag = FIELD_BodyLength \<and> p_bodyLengthStart st' = wrap32 (int e) + 1
        \<or> p_bodyLengthStart st' = p_bodyLengthStart st
          \<and> (\<forall>v. getField (p_header st') FIELD_BodyLength = Inr v \<longrightarrow> getField (p_header st) FIELD_BodyLength = Inr v))
     \<and> p_tag st' = p_tag st \<and> p_tagCount st' = p_tagCount st"

lemma unmoved_refl [simp]: "unmoved st st"
  by (simp add: unmoved_def)

lemma unmoved_trans: "unmoved a b \<Longrightarrow> unmoved b c \<Longrightarrow> unmoved a c"
  by (simp add: unmoved_def)

lemma unmoved_takes: "unmoved st st' \<Longrightarrow> takes tag val e st st'"
proof -
  assume u: "unmoved st st'"
  then have "getField (p_header st') t = getField (p_header st) t" for t
    unfolding unmoved_def by (metis part_get.simps(1))
  with u show ?thesis by (simp add: takes_def unmoved_def)
qed

lemma takes_trans: "takes tag val e a b \<Longrightarrow> takes tag val e b c \<Longrightarrow> takes tag val e a c"
  unfolding takes_def by (elim conjE) (intro conjI; metis)

lemma part_get_stack [simp]:
  "part_get p (st\<lparr>p_stack := x\<rparr>) = part_get p st" "part_get p (st\<lparr>p_msgState := y\<rparr>) = part_get p st"
  "part_get p (st\<lparr>p_tag := t\<rparr>) = part_get p st" "part_get p (st\<lparr>p_tagCount := n\<rparr>) = part_get p st"
  by (cases p; simp)+

lemma unmoved_fields [simp]:
  "unmoved st (st'\<lparr>p_stack := x\<rparr>) \<longleftrightarrow> unmoved st st'" "unmoved st (st'\<lparr>p_msgState := y\<rparr>) \<longleftrightarrow> unmoved st st'"
  "unmoved st (st'\<lparr>p_dataLength := z\<rparr>) \<longleftrightarrow> unmoved st st'"
  by (simp_all add: unmoved_def)

lemma takes_fields [simp]:
  "takes tag val e st (st'\<lparr>p_stack := x\<rparr>) \<longleftrightarrow> takes tag val e st st'"
  "takes tag val e st (st'\<lparr>p_msgState := y\<rparr>) \<longleftrightarrow> takes tag val e st st'"
  "takes tag val e st (st'\<lparr>p_dataLength := z\<rparr>) \<longleftrightarrow> takes tag val e st st'"
  by (simp_all add: takes_def)

section \<open>Writing through a reference\<close>

lemma sub_set_fields: "path \<noteq> [] \<Longrightarrow> getField (sub_set path m x) t = getField x t"
  by (cases path) (auto simp: getField_def split: option.splits)

lemma part_get_assign:
  "part_get p (assign_ref r m st) = (if p = fst r then sub_set (snd r) m (part_get p st) else part_get p st)"
  by (cases p; cases "fst r") (auto simp: assign_ref_def)

lemma assign_sel [simp]:
  "p_bodyLengthStart (assign_ref r m st) = p_bodyLengthStart st" "p_tag (assign_ref r m st) = p_tag st"
  "p_tagCount (assign_ref r m st) = p_tagCount st"
  by (simp_all add: assign_ref_def)

text \<open>Into an instance of a group, or into a part whose fields stay.\<close>

lemma unmoved_below: "snd r \<noteq> [] \<Longrightarrow> unmoved st (assign_ref r m st)"
  by (simp add: unmoved_def part_get_assign sub_set_fields)

lemma unmoved_assign:
  assumes "\<And>t. getField m t = getField (deref r st) t"
  shows "unmoved st (assign_ref r m st)"
proof (cases "snd r = []")
  case True
  then show ?thesis using assms by (simp add: unmoved_def part_get_assign deref_def)
qed (rule unmoved_below)

lemma getField_ops [simp]: "getField (setSpec s m) t = getField m t" "getField (addGroup g m) t = getField m t"
  by (simp_all add: getField_def addGroup_def Let_def setSpec_def split: option.split)

lemma getField_put:
  "getField (setFieldView tag val False m) t = Inr v \<Longrightarrow> getField m t = Inr v \<or> (t = tag \<and> v = val)"
  "getField (push tag val m) t = Inr v \<Longrightarrow> getField m t = Inr v \<or> (t = tag \<and> v = val)"
  by (auto simp: getField_map_of setFieldView_def insertFieldView_def setFieldViewOrDetectDup_def lhm_assign_map_of
      lhm_push_back_unchecked_def lhm_insert_fst Let_def case_prod_beta map_add_def split: option.splits if_splits)

lemma takes_put:
  assumes "\<And>t v. getField m t = Inr v \<Longrightarrow> getField (deref r st) t = Inr v \<or> (t = tag \<and> v = val)"
  shows "takes tag val e st (note_bodyLength tag e (assign_ref r m st))"
proof (cases "snd r = []")
  case True
  then have "getField (part_get p st) t = Inr v \<or> (t = tag \<and> v = val)"
    if "getField (part_get p (assign_ref r m st)) t = Inr v" for p t v
    using that assms[of t v] by (auto simp: part_get_assign deref_def split: if_splits)
  note part = this
  have "getField (p_header st) t = Inr v \<or> (t = tag \<and> v = val)"
    if "getField (p_header (assign_ref r m st)) t = Inr v" for t v
    using part[of PartHeader t v] that by simp
  with part show ?thesis
    by (cases "tag = FIELD_BodyLength") (fastforce simp: takes_def note_bodyLength_def)+
next
  case False
  note u = unmoved_below[OF this, of st m]
  then show ?thesis using unmoved_takes[OF u, of tag val e] by (auto simp: note_bodyLength_def takes_def)
qed

section \<open>Every operation of the parser\<close>

lemma validateGroup_unmoved:
  "validateGroup cfg r s st = Inr st' \<Longrightarrow> \<not> reorderTags cfg \<Longrightarrow> unmoved st st'"
  by (auto simp: validateGroup_def Let_def split: if_splits elim!: sbind_InrE intro!: unmoved_assign)

text \<open>The mode considered: strict, and the fields left in the order of the text.\<close>

definition strict_mode :: "parse_settings \<Rightarrow> bool" where
  "strict_mode cfg \<longleftrightarrow> \<not> relaxedParsing cfg \<and> \<not> reorderTags cfg"

lemma strict_throw [simp]: "strict_mode cfg \<Longrightarrow> try_throw cfg msg x \<noteq> Inr y"
  by (simp add: try_throw_def strict_mode_def)

lemma validateGroup_strict: "validateGroup cfg r s st = Inr st' \<Longrightarrow> strict_mode cfg \<Longrightarrow> unmoved st st'"
  by (simp add: validateGroup_unmoved strict_mode_def)

lemma overwriteStack_unmoved:
  assumes "overwriteStack cfg keep st = Inr st'" "strict_mode cfg"
  shows "unmoved st st'"
  using assms
proof (induction cfg keep st rule: overwriteStack.induct)
  case (1 cfg keep st)
  show ?case
  proof (cases "length (p_stack st) \<le> keep")
    case True
    then show ?thesis using "1.prems" by (simp add: overwriteStack_keep)
  next
    case False
    let ?g = "last (p_stack st)"
    obtain st1 st2 where s: "(if gi_tag ?g > 0 \<and> gi_count ?g < gi_max ?g
          then try_throw cfg (''Repeating group terminated with count less than NumInGroup (tag='' @ dec_int (gi_tag ?g) @ '')'') st
          else Inr st) = Inr st1" "validateGroup cfg (gi_group ?g) (gi_spec ?g) st1 = Inr st2"
      and rest: "overwriteStack cfg keep (st2\<lparr>p_stack := butlast (p_stack st)\<rparr>) = Inr st'"
      using "1.prems"(1) False by (subst (asm) overwriteStack.simps) (auto simp: Let_def elim!: sbind_InrE)
    have st1: "st1 = st" using s(1) "1.prems"(2) by (auto split: if_splits)
    have "unmoved st (st2\<lparr>p_stack := butlast (p_stack st)\<rparr>)"
      using validateGroup_strict[OF s(2) "1.prems"(2)] by (simp add: st1)
    then show ?thesis using "1.IH"[OF False refl s rest "1.prems"(2)] unmoved_trans by blast
  qed
qed

lemma note_length_strict: "note_length cfg d tag val st = Inr st' \<Longrightarrow> strict_mode cfg \<Longrightarrow> \<exists>x. st' = st\<lparr>p_dataLength := x\<rparr>"
  by (auto simp: note_length_def Let_def split: if_splits intro: exI[of _ "p_dataLength st"])

lemma deref_dataLength [simp]: "deref r (st\<lparr>p_dataLength := x\<rparr>) = deref r st" "deref r (st\<lparr>p_stack := y\<rparr>) = deref r st"
  by (simp_all add: deref_def)

lemma swap_note [simp]:
  "assign_ref r m (note_bodyLength tag e st) = note_bodyLength tag e (assign_ref r m st)"
  "assign_ref r m (st\<lparr>p_dataLength := x\<rparr>) = (assign_ref r m st)\<lparr>p_dataLength := x\<rparr>"
  "note_bodyLength tag e (st\<lparr>p_dataLength := x\<rparr>) = (note_bodyLength tag e st)\<lparr>p_dataLength := x\<rparr>"
  "deref r (note_bodyLength tag e st) = deref r st"
  by (cases "fst r"; simp add: assign_ref_def note_bodyLength_def deref_def)+

lemma parse_setField_takes:
  assumes "parse_setField cfg d r tag val e st = Inr st'" "strict_mode cfg"
  shows "takes tag val e st st'"
proof -
  obtain st1 where s: "note_length cfg d tag val st = Inr st1"
    "st' = assign_ref r (setFieldView tag val False (deref r (note_bodyLength tag e st1))) (note_bodyLength tag e st1)"
    using assms(1) by (auto simp: parse_setField_def Let_def elim!: sbind_InrE)
  then obtain x where "st1 = st\<lparr>p_dataLength := x\<rparr>" using note_length_strict assms(2) by blast
  with s(2) show ?thesis by (simp add: takes_put getField_put)
qed

lemma handleRepeatingTag_takes:
  assumes "handleRepeatingTag cfg d g i tag val st = Inr (idx, st')" "strict_mode cfg"
  shows "unmoved st st'"
proof (cases "gi_tag g > 0 \<and> gi_count g \<noteq> gi_max g")
  case True
  obtain st1 where v: "validateGroup cfg (gi_group g) (gi_spec g) st = Inr st1"
    using assms(1) True by (auto simp: handleRepeatingTag_def elim!: sbind_InrE)
  define parent where "parent = gi_group (p_stack st1 ! (i - 1))"
  define st2 where "st2 = assign_ref parent (addGroup (gi_tag g) (deref parent st1)) st1"
  define new where "new = ref_last parent (gi_tag g) st2"
  define st3 where "st3 = assign_ref new (push tag val (deref new st2)) st2"
  have "unmoved st1 st2" unfolding st2_def by (rule unmoved_assign) simp
  moreover have "unmoved st2 st3" unfolding st3_def by (rule unmoved_below) (simp add: new_def ref_last_def)
  ultimately have "unmoved st st3" using validateGroup_strict[OF v assms(2)] unmoved_trans by blast
  moreover have "\<exists>x y. st' = st3\<lparr>p_dataLength := x, p_stack := y\<rparr>"
  proof (cases "getFieldType d tag = FT_LENGTH \<and> fastParseTag val \<ge> 0")
    case False
    then show ?thesis using assms(1) True
      by (intro exI[of _ "p_dataLength st3"])
        (auto simp: handleRepeatingTag_def v Let_def st3_def st2_def new_def parent_def)
  qed (use assms(1) True in \<open>auto simp: handleRepeatingTag_def v Let_def st3_def st2_def new_def parent_def\<close>)
  ultimately show ?thesis by auto
next
  case False
  then show ?thesis using assms by (auto simp: handleRepeatingTag_def split: if_splits)
qed

lemma trySetField_takes:
  assumes "trySetField cfg d g i tag val e st = Inr (idx, st')" "strict_mode cfg"
  shows "takes tag val e st st'"
proof (cases "hasField (gi_spec g) tag")
  case True
  note known = this
  obtain m dup where m: "setFieldViewOrDetectDup tag val (deref (gi_group g) st) = (m, dup)" by force
  show ?thesis
  proof (cases dup)
    case True
    then have "handleRepeatingTag cfg d g i tag val st = Inr (idx, st')" using assms(1) m known by (simp add: trySetField_def)
    from handleRepeatingTag_takes[OF this assms(2)] show ?thesis by (rule unmoved_takes)
  next
    case False
    then obtain st1 where n: "note_length cfg d tag val (assign_ref (gi_group g) m st) = Inr st1" "st' = note_bodyLength tag e st1"
      using assms(1) m known by (auto simp: trySetField_def elim!: sbind_InrE)
    have "m = push tag val (deref (gi_group g) st)" using m by simp
    with n note_length_strict[OF n(1) assms(2)] show ?thesis by (auto simp: takes_put getField_put)
  qed
next
  case unknown: False
  show ?thesis
  proof (cases "findGroup (gi_spec g) tag")
    case None
    then show ?thesis using assms(1) unknown by (auto simp: trySetField_def intro: unmoved_takes)
  next
    case (Some gs)
    note group = this
    show ?thesis
    proof (cases "getGroupCount (deref (gi_group g) st) tag > 0")
      case True
      then have "handleRepeatingTag cfg d g i tag val st = Inr (idx, st')" using assms(1) unknown Some by (simp add: trySetField_def)
      from handleRepeatingTag_takes[OF this assms(2)] show ?thesis by (rule unmoved_takes)
    next
      case False
      define st1 where "st1 = assign_ref (gi_group g) (addGroup tag (deref (gi_group g) st)) st"
      obtain new where p: "parse_setField cfg d (gi_group g) tag val e (st1\<lparr>p_stack := p_stack st1 @ [new]\<rparr>) = Inr st'"
        using assms unknown group False
        by (auto simp: trySetField_def Let_def st1_def split: if_splits elim!: sbind_InrE)
      have "unmoved st (st1\<lparr>p_stack := p_stack st1 @ [new]\<rparr>)" by (simp add: st1_def unmoved_assign)
      from takes_trans[OF unmoved_takes[OF this] parse_setField_takes[OF p assms(2)]] show ?thesis .
    qed
  qed
qed

lemma try_levels_takes:
  assumes "try_levels cfg d tag val e j st = Inr (idx, st')" "strict_mode cfg"
  shows "takes tag val e st st'"
  using assms
proof (induction j arbitrary: st)
  case (Suc j)
  obtain i st1 where s: "trySetField cfg d (p_stack st ! j) j tag val e st = Inr (i, st1)"
    and r: "(case i of Some n \<Rightarrow> Inr (Some n, st1) | None \<Rightarrow> try_levels cfg d tag val e j st1) = Inr (idx, st')"
    using Suc.prems(1) by (auto elim!: sbind_InrE)
  note t = trySetField_takes[OF s Suc.prems(2)]
  show ?case using r t Suc.IH[OF _ Suc.prems(2)] takes_trans[OF t] by (auto split: option.splits)
qed (auto intro: unmoved_takes)

lemma try_trailer_takes:
  assumes "try_trailer cfg d tag val e st = Inr (idx, st')" "strict_mode cfg"
  shows "takes tag val e st st'"
proof -
  let ?t = "root_info (d_trailerSpec d) PartTrailer"
  obtain i st1 where s: "trySetField cfg d ?t 0 tag val e st = Inr (i, st1)"
    and r: "(case i of None \<Rightarrow> Inr (None, st1)
        | Some newIdx \<Rightarrow> sbind (validateGroup cfg (gi_group (p_stack st1 ! 0)) (gi_spec (p_stack st1 ! 0)) st1)
            (\<lambda>st. sbind (overwriteStack cfg (Suc newIdx) (st\<lparr>p_msgState := TRAILER, p_stack := (p_stack st)[0 := ?t]\<rparr>))
              (\<lambda>st. Inr (Some newIdx, st)))) = Inr (idx, st')"
    using assms(1) unfolding try_trailer_def Let_def by (auto elim!: sbind_InrE)
  note t = trySetField_takes[OF s assms(2)]
  show ?thesis
  proof (cases i)
    case (Some n)
    then obtain st2 where v: "validateGroup cfg (gi_group (p_stack st1 ! 0)) (gi_spec (p_stack st1 ! 0)) st1 = Inr st2"
      and o: "overwriteStack cfg (Suc n) (st2\<lparr>p_msgState := TRAILER, p_stack := (p_stack st2)[0 := ?t]\<rparr>) = Inr st'"
      using r by (auto elim!: sbind_InrE)
    have "unmoved st1 (st2\<lparr>p_msgState := TRAILER, p_stack := (p_stack st2)[0 := ?t]\<rparr>)"
      using validateGroup_strict[OF v assms(2)] by simp
    with overwriteStack_unmoved[OF o assms(2)] have "unmoved st1 st'" by (rule unmoved_trans[rotated])
    from takes_trans[OF t unmoved_takes[OF this]] show ?thesis .
  qed (use r t in simp)
qed

lemma body_or_trailer_takes:
  assumes "body_or_trailer cfg d tag val e st = Inr st'" "strict_mode cfg"
  shows "takes tag val e st st'"
proof -
  have u: "takes tag val e x x'" if "unknown_field cfg d tag val e x = Inr x'" for x x'
    using parse_setField_takes[OF that[unfolded unknown_field_def] assms(2)] .
  show ?thesis
  proof (cases "p_msgState st = BODY")
    case True
    then obtain i st1 where s: "try_trailer cfg d tag val e st = Inr (i, st1)"
      and r: "(case i of Some _ \<Rightarrow> Inr st1 | None \<Rightarrow> unknown_field cfg d tag val e st1) = Inr st'"
      using assms(1) by (auto simp: body_or_trailer_def elim!: sbind_InrE)
    note t = try_trailer_takes[OF s assms(2)]
    show ?thesis using r t takes_trans[OF t u] by (auto split: option.splits)
  next
    case False
    then show ?thesis using assms u by (simp add: body_or_trailer_def)
  qed
qed

lemma leave_header_takes:
  assumes "leave_header cfg d tag val e st = Inr st'" "strict_mode cfg"
  shows "takes tag val e st st'"
proof (cases "p_msgState st = HEADER")
  case True
  then obtain s1 i s2 where e: "enter_body cfg d st = Inr s1"
    and t: "trySetField cfg d (p_stack s1 ! 0) 0 tag val e s1 = Inr (i, s2)"
    and r: "(case i of Some _ \<Rightarrow> Inr s2 | None \<Rightarrow> body_or_trailer cfg d tag val e s2) = Inr st'"
    using assms(1) by (auto simp: leave_header_def elim!: sbind_InrE)
  obtain s0 where o: "overwriteStack cfg 0 st = Inr s0"
    and s0: "\<exists>s. s1 = s0\<lparr>p_stack := p_stack s0 @ [root_info s PartBody], p_msgState := BODY\<rparr>"
    using e unfolding enter_body_def by (fastforce elim!: sbind_InrE split: option.splits)
  have "unmoved st s1" using overwriteStack_unmoved[OF o assms(2)] s0 by auto
  from takes_trans[OF unmoved_takes[OF this] trySetField_takes[OF t assms(2)]] have t2: "takes tag val e st s2" .
  show ?thesis using r t2 takes_trans[OF t2 body_or_trailer_takes[OF _ assms(2)]] by (auto split: option.splits)
next
  case False
  then show ?thesis using assms by (simp add: leave_header_def body_or_trailer_takes)
qed

lemma dispatchField_takes:
  assumes "dispatchField cfg d tag val e st = Inr st'" "strict_mode cfg"
  shows "takes tag val e st st'"
proof (cases "spec_empty (gi_spec (curInfo st))")
  case True
  then show ?thesis using assms by (simp add: dispatchField_def leave_header_takes)
next
  case False
  then obtain i st1 where s: "try_levels cfg d tag val e (length (p_stack st)) st = Inr (i, st1)"
    and r: "(case i of Some n \<Rightarrow> overwriteStack cfg (Suc n) st1 | None \<Rightarrow> leave_header cfg d tag val e st1) = Inr st'"
    using assms(1) by (auto simp: dispatchField_def elim!: sbind_InrE)
  note t = try_levels_takes[OF s assms(2)]
  have "takes tag val e st1 st'"
    using r assms(2) by (cases i) (auto intro: leave_header_takes unmoved_takes overwriteStack_unmoved)
  with t show ?thesis by (rule takes_trans)
qed

section \<open>The whole run\<close>

text \<open>After the fields \<open>seen\<close>: what the parts hold comes from them, and if the header has a BodyLength
  the recorded position is the end of a BodyLength field.\<close>

definition run_inv :: "(int \<times> string) list \<Rightarrow> parser \<Rightarrow> bool" where
  "run_inv seen st \<longleftrightarrow>
     (\<forall>p t v. getField (part_get p st) t = Inr v \<longrightarrow> (t, v) \<in> set seen)
     \<and> (\<forall>v. getField (p_header st) FIELD_BodyLength = Inr v \<longrightarrow>
          (\<exists>pre w post. seen = pre @ (FIELD_BodyLength, w) # post
            \<and> p_bodyLengthStart st = int (length (fields_text (pre @ [(FIELD_BodyLength, w)])))))
     \<and> p_tagCount st = length seen \<and> (seen \<noteq> [] \<longrightarrow> p_tag st = fst (last seen))"

lemma run_inv_step:
  assumes "run_inv seen st" "takes k v e ((bump (st\<lparr>p_tag := k\<rparr>))\<lparr>p_dataLength := -1\<rparr>) st'"
    and "Suc e = length (fields_text (seen @ [(k, v)]))" "e < 2147483648"
  shows "run_inv (seen @ [(k, v)]) st'"
proof -
  have "getField (part_get p ((bump (st\<lparr>p_tag := k\<rparr>))\<lparr>p_dataLength := -1\<rparr>)) t = getField (part_get p st) t" for p t
    by (simp add: bump_def)
  then have f: "\<forall>p t w. getField (part_get p st') t = Inr w \<longrightarrow> getField (part_get p st) t = Inr w \<or> (t = k \<and> w = v)"
    using assms(2) by (simp add: takes_def)
  have b: "k = FIELD_BodyLength \<and> p_bodyLengthStart st' = int (length (fields_text (seen @ [(k, v)])))
      \<or> p_bodyLengthStart st' = p_bodyLengthStart st
        \<and> (\<forall>w. getField (p_header st') FIELD_BodyLength = Inr w \<longrightarrow> getField (p_header st) FIELD_BodyLength = Inr w)"
    using assms(2-4) by (auto simp: takes_def bump_def is_int32_def simp del: fields_text_simps)
  have t: "p_tag st' = k" "p_tagCount st' = Suc (p_tagCount st)" using assms(2) by (simp_all add: takes_def bump_def)
  have "\<exists>pre w post. seen @ [(k, v)] = pre @ (FIELD_BodyLength, w) # post
      \<and> p_bodyLengthStart st' = int (length (fields_text (pre @ [(FIELD_BodyLength, w)])))"
    if h: "getField (p_header st') FIELD_BodyLength = Inr x" for x
    using b
  proof
    assume "k = FIELD_BodyLength \<and> p_bodyLengthStart st' = int (length (fields_text (seen @ [(k, v)])))"
    then show ?thesis by blast
  next
    assume s: "p_bodyLengthStart st' = p_bodyLengthStart st
        \<and> (\<forall>w. getField (p_header st') FIELD_BodyLength = Inr w \<longrightarrow> getField (p_header st) FIELD_BodyLength = Inr w)"
    then obtain pre w post where "seen = pre @ (FIELD_BodyLength, w) # post"
        "p_bodyLengthStart st = int (length (fields_text (pre @ [(FIELD_BodyLength, w)])))"
      using assms(1) h unfolding run_inv_def by blast
    with s have "seen @ [(k, v)] = pre @ (FIELD_BodyLength, w) # (post @ [(k, v)])
        \<and> p_bodyLengthStart st' = int (length (fields_text (pre @ [(FIELD_BodyLength, w)])))" by simp
    then show ?thesis by blast
  qed
  moreover have "\<forall>p t w. getField (part_get p st') t = Inr w \<longrightarrow> (t, w) \<in> set (seen @ [(k, v)])"
    using assms(1) f unfolding run_inv_def by (metis Un_iff list.set_intros(1) set_append)
  ultimately show ?thesis using assms(1) t by (simp add: run_inv_def del: fields_text_simps)
qed

lemma check_first_strict:
  "check_first_fields cfg tag st = Inr st' \<Longrightarrow> strict_mode cfg \<Longrightarrow> st' = st \<and> first_ok (p_tagCount st) tag"
  by (auto simp: check_first_fields_def first_ok_def split: if_splits)

lemma firsts_ok_snoc: "firsts_ok n (kvs @ [kv]) \<longleftrightarrow> firsts_ok n kvs \<and> first_ok (n + length kvs) (fst kv)"
  by (induction kvs arbitrary: n) auto

lemma parse_loop_inv:
  assumes "parse_loop cfg d (fields_text (seen @ kvs)) (fields_text kvs) st = Inr st'" "strict_mode cfg"
    and "run_inv seen st" "firsts_ok 0 seen" "list_all (plain_field d) kvs" "length (fields_text (seen @ kvs)) < 2147483648"
  shows "run_inv (seen @ kvs) st' \<and> firsts_ok 0 (seen @ kvs)"
  using assms
proof (induction kvs arbitrary: seen st)
  case Nil
  then show ?case by (subst (asm) parse_loop.simps) simp
next
  case (Cons kv kvs)
  obtain k v where kv: "kv = (k, v)" by force
  let ?T = "fields_text (seen @ kv # kvs)"
  let ?e = "length ?T - length (fields_text kvs) - 1"
  have p: "plain_field d (k, v)" using Cons.prems(5) kv by simp
  have "parse_loop cfg d ?T (field_text (k, v) @ fields_text kvs) st = Inr st'" using Cons.prems(1) kv by simp
  then obtain s1 s2 where c: "check_first_fields cfg k (st\<lparr>p_tag := k\<rparr>) = Inr s1"
    and disp: "dispatchField cfg d k v ?e ((bump s1)\<lparr>p_dataLength := -1\<rparr>) = Inr s2"
    and rest: "parse_loop cfg d ?T (fields_text kvs) s2 = Inr st'"
    unfolding parse_loop_plain[OF p] by (auto elim!: sbind_InrE)
  have f: "s1 = st\<lparr>p_tag := k\<rparr>" "first_ok (p_tagCount st) k"
    using check_first_strict[OF c Cons.prems(2)] by simp_all
  have n: "p_tagCount st = length seen" using Cons.prems(3) by (simp add: run_inv_def)
  have e: "Suc ?e = length (fields_text (seen @ [(k, v)]))" "?e < 2147483648"
    using Cons.prems(6) by (simp_all add: kv field_text_def)
  have "run_inv (seen @ [(k, v)]) s2"
    by (rule run_inv_step[OF Cons.prems(3) dispatchField_takes[OF disp Cons.prems(2), unfolded f(1)] e])
  moreover have "firsts_ok 0 (seen @ [(k, v)])" using Cons.prems(4) f(2) n by (simp add: firsts_ok_snoc)
  ultimately show ?case
    using Cons.IH[of "seen @ [(k, v)]" s2] rest Cons.prems(2,5,6) kv by simp
qed

lemma start_run_inv: "run_inv [] (start_parser d)"
proof -
  have "getField (part_get p (start_parser d)) t = Inl (FieldNotFound t)" for p t
    by (cases p) (simp_all add: start_parser_def getField_map_of empty_fm_def)
  moreover from this[of PartHeader] have "getField (p_header (start_parser d)) t = Inl (FieldNotFound t)" for t by simp
  ultimately show ?thesis by (simp add: run_inv_def start_parser_def)
qed

section \<open>Accepted texts\<close>

lemma first_four:
  assumes "firsts_ok 0 kvs" "kvs = front @ [x]" "x = (FIELD_CheckSum, ck)"
  shows "\<exists>v8 v9 mt rest. kvs = (FIELD_BeginString, v8) # (FIELD_BodyLength, v9) # (FIELD_MsgType, mt) # rest @ [(FIELD_CheckSum, ck)]"
proof -
  obtain a r1 where r1: "front = a # r1" using assms by (cases front) (auto simp: first_ok_def)
  obtain b r2 where r2: "r1 = b # r2" using assms r1 by (cases r1) (auto simp: first_ok_def)
  obtain c r3 where r3: "r2 = c # r3" using assms r1 r2 by (cases r2) (auto simp: first_ok_def)
  show ?thesis using assms r1 r2 r3 by (cases a; cases b; cases c) (auto simp: first_ok_def)
qed

lemma body_length_second:
  assumes "a # b # c = pre @ (FIELD_BodyLength, w) # post" "fst a \<noteq> FIELD_BodyLength" "FIELD_BodyLength \<notin> fst ` set c"
  shows "pre = [a] \<and> (FIELD_BodyLength, w) = b"
proof (cases pre)
  case (Cons x pre')
  then show ?thesis using assms by (cases pre') force+
qed (use assms in auto)

text \<open>C13: whatever the strict parser accepts is consistent as a text. Take any sequence of fields
  (no DATA fields, no separator inside a value; any tags, known or not, with or without repeating
  groups) in which BodyLength does not come after the second field, nor CheckSum before the last. If
  the strict parser, told to leave the fields in their order, accepts its text, with whatever
  dictionary, then the fields begin with BeginString, BodyLength and MsgType and end with CheckSum;
  the number read from BodyLength, which is the one the message has, is the number of bytes from
  MsgType to the last field before CheckSum; and the value of CheckSum is the three digits of the
  byte sum of everything before the CheckSum field. The text is kept unchanged.\<close>

theorem strict_accepts_consistent:
  assumes "\<not> relaxedParsing cfg" "\<not> reorderTags cfg" "parse cfg d text = Inr msg"
    and "text = fields_text kvs" "list_all (plain_field d) kvs" "length text < 2147483648"
    and "FIELD_BodyLength \<notin> fst ` set (drop 2 kvs)" "FIELD_CheckSum \<notin> fst ` set (butlast kvs)"
  shows "\<exists>v8 v9 mt rest ck. kvs = (FIELD_BeginString, v8) # (FIELD_BodyLength, v9) # (FIELD_MsgType, mt) # rest @ [(FIELD_CheckSum, ck)]
    \<and> from_chars_ulong v9 = Inr (int (length (fields_text ((FIELD_MsgType, mt) # rest))))
    \<and> ck = formatChecksum (computeChecksum (fields_text (butlast kvs)))
    \<and> getField (m_header msg) FIELD_BodyLength = Inr v9 \<and> m_sourceText msg = text"
proof -
  have mode: "strict_mode cfg" using assms(1,2) by (simp add: strict_mode_def)
  obtain st0 where l: "parse_loop cfg d text text (start_parser d) = Inr st0" and f: "finish_parse cfg text st0 = Inr msg"
    using assms(3) unfolding parse_def by (rule sbind_InrE)
  obtain st where o: "overwriteStack cfg 0 st0 = Inr st" and c: "check_bodyLength text st = Inr ()" "check_checksum text st = Inr ()"
      "m_header msg = p_header st" "m_sourceText msg = text"
    using f assms(1) by (auto simp: finish_parse_def try_throw_def elim!: sbind_InrE split: if_splits)
  have "run_inv ([] @ kvs) st0 \<and> firsts_ok 0 ([] @ kvs)"
    by (rule parse_loop_inv) (use l assms mode start_run_inv in simp_all)
  then have inv0: "run_inv kvs st0" and first: "firsts_ok 0 kvs" by simp_all
  have "unmoved st0 st" using overwriteStack_unmoved[OF o mode] .
  then have u: "\<And>p t. getField (part_get p st) t = getField (part_get p st0) t" "p_tag st = p_tag st0"
      "p_bodyLengthStart st = p_bodyLengthStart st0" by (simp_all add: unmoved_def)
  obtain b where b: "getField (p_header st0) FIELD_BodyLength = Inr b"
      "from_chars_ulong b = Inr (wrapu64 (int (length text) - p_bodyLengthStart st0 - 7))"
    using c(1) u(1)[of PartHeader] u(3) by (auto simp: check_bodyLength_def Let_def elim!: sbind_InrE split: if_splits sum.splits)
  have k: "p_tag st0 = FIELD_CheckSum" "getField (p_trailer st0) FIELD_CheckSum
      = Inr (formatChecksum (computeChecksum (take (length text - 7) text)))"
    using c(2) u(1)[of PartTrailer] u(2) by (auto simp: check_checksum_def Let_def elim!: sbind_InrE split: if_splits)
  have in_text: "\<And>p t v. getField (part_get p st0) t = Inr v \<Longrightarrow> (t, v) \<in> set kvs"
    and lst: "kvs \<noteq> [] \<Longrightarrow> fst (last kvs) = FIELD_CheckSum"
    using inv0 k(1) by (auto simp: run_inv_def)
  have b9: "(FIELD_BodyLength, b) \<in> set kvs" using in_text[of PartHeader] b(1) by simp
  define ck where "ck = formatChecksum (computeChecksum (take (length text - 7) text))"
  have k10: "(FIELD_CheckSum, ck) \<in> set kvs" using in_text[of PartTrailer] k(2) by (simp add: ck_def)
  obtain front x where kx: "kvs = front @ [x]" using b9 by (cases kvs rule: rev_cases) auto
  have x: "x = (FIELD_CheckSum, ck)" using k10 assms(8) by (force simp: kx)
  obtain v8 v9 mt rest where kvs: "kvs = (FIELD_BeginString, v8) # (FIELD_BodyLength, v9) # (FIELD_MsgType, mt) # rest @ [(FIELD_CheckSum, ck)]"
    using first_four[OF first kx x] by blast
  have "b = v9" using b9 assms(7) by (force simp: kvs)
  moreover have "p_bodyLengthStart st0 = int (length (fields_text [(FIELD_BeginString, v8), (FIELD_BodyLength, v9)]))"
  proof -
    obtain pre w post where p: "kvs = pre @ (FIELD_BodyLength, w) # post"
      "p_bodyLengthStart st0 = int (length (fields_text (pre @ [(FIELD_BodyLength, w)])))"
      using inv0 b(1) unfolding run_inv_def by blast
    have "pre = [(FIELD_BeginString, v8)] \<and> (FIELD_BodyLength, w) = (FIELD_BodyLength, v9)"
      by (rule body_length_second[OF p(1)[unfolded kvs]]) (use assms(7) kvs in simp_all)
    then show ?thesis using p(2) by simp
  qed
  moreover have ten: "length (field_text (FIELD_CheckSum, ck)) = 7"
    by (simp add: field_text_def appendTagEq_eq ck_def dec_int_def dec_nat.simps)
  moreover have t: "text = fields_text (butlast kvs) @ field_text (FIELD_CheckSum, ck)"
    unfolding assms(4) kx x by simp
  ultimately have "from_chars_ulong v9 = Inr (int (length (fields_text ((FIELD_MsgType, mt) # rest))))"
    using b(2) assms(6) by (simp add: kvs wrapu64_id butlast_append)
  moreover have "take (length text - 7) text = fields_text (butlast kvs)"
    unfolding t using ten by simp
  moreover have "getField (m_header msg) FIELD_BodyLength = Inr v9"
    using b(1) u(1)[of PartHeader] \<open>b = v9\<close> by (simp add: c(3))
  ultimately show ?thesis using c(4) kvs ck_def by metis
qed

definition example_fields :: "(int \<times> string) list" where
  "example_fields = [(8, ''FIX.4.2''), (9, ''33''), (35, ''D''), (49, ''A''), (56, ''B''), (34, ''7''), (52, ''now''), (11, ''id''),
     (10, ''255'')]"

lemma strict_accepts_consistent_witness:
  "\<exists>msg. parse strict example_dictionary (fields_text example_fields) = Inr msg \<and> m_sourceText msg = fields_text example_fields
    \<and> from_chars_ulong ''33'' = Inr (int (length (fields_text (drop 2 (butlast example_fields)))))
    \<and> ''255'' = formatChecksum (computeChecksum (fields_text (butlast example_fields)))"
proof -
  have "case parse strict example_dictionary (fields_text example_fields) of Inr _ \<Rightarrow> True | Inl _ \<Rightarrow> False"
    by code_simp
  then obtain msg where m: "parse strict example_dictionary (fields_text example_fields) = Inr msg"
    by (auto split: sum.splits)
  have h: "\<not> relaxedParsing strict" "\<not> reorderTags strict" by (simp_all add: strict_def)
  have "list_all (plain_field example_dictionary) example_fields"
    by (simp add: example_fields_def plain_field_def getFieldType_def MAX_FIELD_TAG_def example_dictionary_def)
  moreover have "length (fields_text example_fields) < 2147483648"
    by (simp add: example_fields_def field_text_def appendTagEq_eq dec_int_def dec_nat.simps)
  moreover have "FIELD_BodyLength \<notin> fst ` set (drop 2 example_fields)" "FIELD_CheckSum \<notin> fst ` set (butlast example_fields)"
    by (simp_all add: example_fields_def)
  ultimately show ?thesis
    using strict_accepts_consistent[OF h m refl] m by (auto simp: example_fields_def)
qed

text \<open>The condition on BodyLength is needed. A second BodyLength field in the body, which the body does
  not know, is taken like any unknown field, but moves the position from which the length is counted:
  here the header claims a length of 0, and the strict parser accepts.\<close>

definition second_length_fields :: "(int \<times> string) list" where
  "second_length_fields = [(8, ''FIX.4.2''), (9, ''0''), (35, ''D''), (49, ''A''), (56, ''B''), (34, ''7''), (52, ''now''),
     (11, ''id''), (9, ''1''), (10, ''113'')]"

lemma second_length_accepted:
  "case parse strict example_dictionary (fields_text second_length_fields) of Inr _ \<Rightarrow> True | Inl _ \<Rightarrow> False"
  by code_simp

end
