(* ===== verification/WriteBuffer.thy ===== *)
theory WriteBuffer
  imports Containers
begin

text \<open>
  The write path of \<^verbatim>\<open>src/Network.h\<close> and \<^verbatim>\<open>src/Network.cpp\<close>: \<open>WriteEntry\<close>, \<open>WriteBuffer\<close>,
  \<open>ReaderThread::trySend\<close>, \<open>queueWrite\<close>, \<open>flushWrites\<close>, \<open>flushWrite\<close> and
  \<open>ConnectionHandle::send\<close>. What \<open>send\<close>, \<open>SSL_write\<close> and \<open>writev\<close> answer is an argument: the
  number of bytes taken, not ready (\<open>EAGAIN\<close>), or an error; an answer of 0 bytes is on the error path
  of the flushes. The operations return the bytes they put
  on the wire and the callbacks they fire, in order.
\<close>

section \<open>State\<close>

record 'cb write_entry =
  we_msg :: string
  we_callback :: "'cb option"

record 'cb write_buffer =
  wb_queue :: "'cb write_entry list"
  wb_drain :: "'cb write_entry list"
  wb_offset :: nat
  wb_valid :: bool

definition new_buffer :: "'cb write_buffer" where
  "new_buffer = \<lparr>wb_queue = [], wb_drain = [], wb_offset = 0, wb_valid = True\<rparr>"

datatype write_answer = Wrote nat | NotReady | WriteError

definition MAX_WRITE_IOVECS :: nat where "MAX_WRITE_IOVECS = 64"

definition fire :: "'cb write_entry \<Rightarrow> 'cb list" where
  "fire e = (case we_callback e of Some cb \<Rightarrow> [cb] | None \<Rightarrow> [])"

section \<open>Flushing one descriptor\<close>

definition swap_in :: "'cb write_buffer \<Rightarrow> 'cb write_buffer" where
  "swap_in wb =
     (if wb_drain wb = [] \<and> wb_queue wb \<noteq> []
      then wb\<lparr>wb_drain := wb_queue wb, wb_queue := wb_drain wb, wb_offset := 0\<rparr> else wb)"

definition drop_all :: "'cb write_buffer \<Rightarrow> 'cb write_buffer" where
  "drop_all wb = wb\<lparr>wb_drain := [], wb_queue := []\<rparr>"

text \<open>TLS: one \<open>SSL_write\<close> after the other, each with its own answer; with no answer left the
  connection is not ready.\<close>

fun flush_tls :: "write_answer list \<Rightarrow> 'cb write_buffer \<Rightarrow> string \<times> 'cb list \<times> 'cb write_buffer" where
  "flush_tls [] wb = ([], [], wb)"
| "flush_tls (a # as) wb =
     (case wb_drain wb of
        [] \<Rightarrow> ([], [], wb)
      | e # es \<Rightarrow>
          (case a of
             NotReady \<Rightarrow> ([], [], wb)
           | WriteError \<Rightarrow> ([], [], drop_all wb)
           | Wrote n \<Rightarrow>
               if n = 0 then ([], [], drop_all wb) else
               let out = take n (drop (wb_offset wb) (we_msg e));
                   off = wb_offset wb + n
               in if off \<ge> length (we_msg e)
                  then case flush_tls as (wb\<lparr>wb_drain := es, wb_offset := 0\<rparr>) of
                         (w, cbs, wb') \<Rightarrow> (out @ w, fire e @ cbs, wb')
                  else (out, [], wb\<lparr>wb_offset := off\<rparr>)))"

text \<open>Plain sockets: the bytes offered to one \<open>writev\<close>, and the accounting of what it took.\<close>

definition iovecs :: "'cb write_buffer \<Rightarrow> string list" where
  "iovecs wb =
     (case take (min (length (wb_drain wb)) MAX_WRITE_IOVECS) (wb_drain wb) of
        [] \<Rightarrow> []
      | e # es \<Rightarrow> drop (wb_offset wb) (we_msg e) # map we_msg es)"

fun account :: "nat \<Rightarrow> nat \<Rightarrow> 'cb write_entry list \<Rightarrow> 'cb list \<times> 'cb write_entry list \<times> nat" where
  "account sent offset [] = ([], [], offset)"
| "account sent offset (e # es) =
     (if sent = 0 then ([], e # es, offset)
      else let remaining = length (we_msg e) - offset in
        if sent \<ge> remaining
        then case account (sent - remaining) 0 es of (cbs, es', off) \<Rightarrow> (fire e @ cbs, es', off)
        else ([], e # es, offset + sent))"

definition flush_writev :: "write_answer \<Rightarrow> 'cb write_buffer \<Rightarrow> string \<times> 'cb list \<times> 'cb write_buffer" where
  "flush_writev a wb =
     (case a of
        NotReady \<Rightarrow> ([], [], wb)
      | WriteError \<Rightarrow> ([], [], drop_all wb)
      | Wrote n \<Rightarrow>
          if n = 0 then ([], [], drop_all wb) else
          (case account n (wb_offset wb) (wb_drain wb) of
             (cbs, drain, off) \<Rightarrow> (take n (concat (iovecs wb)), cbs, wb\<lparr>wb_drain := drain, wb_offset := off\<rparr>)))"

text \<open>\<open>tls\<close> is what \<open>hasTLS\<close> says of the descriptor, \<open>writev\<close> what \<open>::writev\<close> on it answers, and
  \<open>ssl\<close> the answers of \<open>writeConnection\<close>.\<close>

definition flushWrite ::
  "bool \<Rightarrow> write_answer \<Rightarrow> write_answer list \<Rightarrow> 'cb write_buffer \<Rightarrow> string \<times> 'cb list \<times> 'cb write_buffer" where
  "flushWrite tls writev ssl wb0 =
     (let wb = swap_in wb0 in
      if wb_drain wb = [] then ([], [], wb)
      else if tls then flush_tls ssl wb
      else flush_writev writev wb)"

text \<open>The answers given per descriptor: the first one is that of \<open>::writev\<close> on a plain socket.\<close>

definition first_answer :: "write_answer list \<Rightarrow> write_answer" where
  "first_answer answers = (case answers of [] \<Rightarrow> NotReady | a # _ \<Rightarrow> a)"

section \<open>The reader thread's buffers\<close>

type_synonym 'cb write_buffers = "(int, 'cb write_buffer) hmap"

definition buffer_at :: "int \<Rightarrow> 'cb write_buffers \<Rightarrow> 'cb write_buffer" where
  "buffer_at fd bufs = (case map_of bufs fd of Some wb \<Rightarrow> wb | None \<Rightarrow> new_buffer)"

definition attempt :: "write_answer \<Rightarrow> string \<Rightarrow> bool \<times> string \<times> string" where
  "attempt a msg = (case a of
      Wrote n \<Rightarrow> if n = length msg then (True, msg, msg) else (False, drop n msg, take n msg)
    | _ \<Rightarrow> (False, msg, []))"

text \<open>\<open>trySend\<close>: whether everything went out, what is left of the message, and the bytes written.
  \<open>free\<close> says that the lock on the write buffers is not held by another thread.\<close>

definition trySend :: "bool \<Rightarrow> write_answer \<Rightarrow> int \<Rightarrow> string \<Rightarrow> 'cb write_buffers \<Rightarrow> bool \<times> string \<times> string" where
  "trySend free a fd msg bufs =
     (if \<not> free then (False, msg, [])
      else case map_of bufs fd of
        None \<Rightarrow> attempt a msg
      | Some wb \<Rightarrow>
          if \<not> wb_valid wb then (False, msg, [])
          else if wb_queue wb \<noteq> [] \<or> wb_drain wb \<noteq> [] then (False, msg, [])
          else attempt a msg)"

definition reader_queueWrite :: "int \<Rightarrow> 'cb write_entry \<Rightarrow> 'cb write_buffers \<Rightarrow> 'cb write_buffers" where
  "reader_queueWrite fd e bufs =
     (let wb = buffer_at fd bufs in hmap_set bufs fd (wb\<lparr>wb_queue := wb_queue wb @ [e]\<rparr>))"

definition connection_send ::
  "bool \<Rightarrow> bool \<Rightarrow> write_answer \<Rightarrow> int \<Rightarrow> 'cb write_entry \<Rightarrow> 'cb write_buffers \<Rightarrow> string \<times> 'cb list \<times> 'cb write_buffers" where
  "connection_send tls free a fd e bufs =
     (case (if tls then (False, we_msg e, []) else trySend free a fd (we_msg e) bufs) of
        (True, _, w) \<Rightarrow> (w, fire e, bufs)
      | (False, rest, w) \<Rightarrow> (w, [], reader_queueWrite fd (e\<lparr>we_msg := rest\<rparr>) bufs))"

text \<open>\<open>flushWrites\<close> visits every buffer, drops the invalid ones and flushes the others; the answers of
  the sockets are given per descriptor. The output is per descriptor too.\<close>

fun flushWrites ::
  "(int \<Rightarrow> bool) \<Rightarrow> (int \<Rightarrow> write_answer list) \<Rightarrow> 'cb write_buffers \<Rightarrow> (int \<times> string \<times> 'cb list) list \<times> 'cb write_buffers" where
  "flushWrites tls answers [] = ([], [])"
| "flushWrites tls answers ((fd, wb) # bufs) =
     (case flushWrites tls answers bufs of
        (out, bufs') \<Rightarrow>
          if \<not> wb_valid wb then (out, bufs')
          else case flushWrite (tls fd) (first_answer (answers fd)) (answers fd) wb of
            (w, cbs, wb') \<Rightarrow> ((fd, w, cbs) # out, (fd, wb') # bufs'))"

text \<open>\<open>EPOLLOUT\<close> on one descriptor.\<close>

definition flush_ready :: "bool \<Rightarrow> write_answer list \<Rightarrow> int \<Rightarrow> 'cb write_buffers \<Rightarrow> string \<times> 'cb list \<times> 'cb write_buffers" where
  "flush_ready tls answers fd bufs =
     (case map_of bufs fd of
        None \<Rightarrow> ([], [], bufs)
      | Some wb \<Rightarrow> (case flushWrite tls (first_answer answers) answers wb of (w, cbs, wb') \<Rightarrow> (w, cbs, hmap_set bufs fd wb')))"

section \<open>The contract of a byte channel\<close>

text \<open>
  A flush takes entries from the front only. With the part of the first entry that is out already,
  the bytes it writes are those of the entries it completes and of the part of the next one, and the
  callbacks it fires are those of the entries it completes.
\<close>

definition fires :: "'cb write_entry list \<Rightarrow> 'cb list" where "fires es = concat (map fire es)"
definition bytes_of :: "'cb write_entry list \<Rightarrow> string" where "bytes_of es = concat (map we_msg es)"

lemma fires_simps [simp]: "fires [] = []" "fires (e # es) = fire e @ fires es" "fires (xs @ ys) = fires xs @ fires ys"
  "bytes_of [] = []" "bytes_of (e # es) = we_msg e @ bytes_of es" "bytes_of (xs @ ys) = bytes_of xs @ bytes_of ys"
  by (simp_all add: fires_def bytes_of_def)

definition first_part :: "nat \<Rightarrow> 'cb write_entry list \<Rightarrow> string" where
  "first_part off es = (case es of [] \<Rightarrow> [] | e # _ \<Rightarrow> take off (we_msg e))"

definition first_fits :: "nat \<Rightarrow> 'cb write_entry list \<Rightarrow> bool" where
  "first_fits off es = (case es of [] \<Rightarrow> True | e # _ \<Rightarrow> off \<le> length (we_msg e))"

lemma first_simps [simp]:
  "first_part off [] = []" "first_part off (e # es) = take off (we_msg e)" "first_part 0 es = []"
  "first_fits off []" "first_fits off (e # es) \<longleftrightarrow> off \<le> length (we_msg e)" "first_fits 0 es"
  by (simp_all add: first_part_def first_fits_def split: list.split)

text \<open>The entries as they were handed over may have lost the start of the first one to an inline send.\<close>

definition trimmed :: "nat \<Rightarrow> 'cb write_entry list \<Rightarrow> 'cb write_entry list" where
  "trimmed t es = (case es of [] \<Rightarrow> [] | e # es' \<Rightarrow> e\<lparr>we_msg := drop t (we_msg e)\<rparr> # es')"

lemma trimmed_simps [simp]: "trimmed t [] = []" "trimmed t (e # es) = e\<lparr>we_msg := drop t (we_msg e)\<rparr> # es"
  "trimmed t es = [] \<longleftrightarrow> es = []" "[] = trimmed t es \<longleftrightarrow> es = []" "trimmed 0 es = es"
  by (simp_all add: trimmed_def split: list.split)

lemma trimmed_parts: "first_part t es @ bytes_of (trimmed t es) = bytes_of es"
  by (cases es) (simp_all flip: append_assoc)

lemma fire_trim [simp]: "fire (e\<lparr>we_msg := m\<rparr>) = fire e"
  by (simp add: fire_def)

locale byte_channel =
  fixes entries :: "'b \<Rightarrow> 'cb write_entry list" and part :: "'b \<Rightarrow> string" and ok :: "'b \<Rightarrow> bool"
    and put :: "'cb write_entry \<Rightarrow> 'b \<Rightarrow> 'b"
    and allowed :: "'a \<Rightarrow> 'b \<Rightarrow> bool" and flush :: "'a \<Rightarrow> 'b \<Rightarrow> string \<times> 'cb list \<times> 'b"
  assumes put_law: "ok b \<Longrightarrow> ok (put e b) \<and> entries (put e b) = entries b @ [e] \<and> part (put e b) = part b"
    and flush_law: "ok b \<Longrightarrow> allowed a b \<Longrightarrow> flush a b = (w, f, b') \<Longrightarrow>
      ok b' \<and> (\<exists>d. entries b = d @ entries b' \<and> part b @ w = bytes_of d @ part b' \<and> f = fires d)"
    and part_law: "ok b \<Longrightarrow> (entries b = [] \<and> part b = []) \<or> (\<exists>e es r. entries b = e # es \<and> we_msg e = part b @ r)"
begin

text \<open>The bytes and callbacks that are still to come.\<close>

definition to_send :: "'b \<Rightarrow> string" where "to_send b = drop (length (part b)) (bytes_of (entries b))"

lemma part_to_send: "ok b \<Longrightarrow> part b @ to_send b = bytes_of (entries b)"
  using part_law[of b] by (auto simp: to_send_def)

text \<open>Of the entries handed over, those \<open>sent\<close> are out with their callbacks fired; the others are held,
  and the wire has their first bytes as far as they went.\<close>

definition carries :: "'b \<Rightarrow> 'cb write_entry list \<Rightarrow> 'cb write_entry list \<Rightarrow> string \<Rightarrow> bool" where
  "carries b handed sent wire \<longleftrightarrow> ok b \<and> (\<exists>rest t. handed = sent @ rest \<and> entries b = trimmed t rest
     \<and> wire = bytes_of sent @ first_part t rest @ part b)"

lemma carries_ok: "carries b handed sent wire \<Longrightarrow> ok b"
  by (simp add: carries_def)

lemma carries_total: "carries b handed sent wire \<Longrightarrow> wire @ to_send b = bytes_of handed"
  by (auto simp: carries_def part_to_send trimmed_parts)

lemma carries_prefix: "carries b handed sent wire \<Longrightarrow> \<exists>rest k. handed = sent @ rest \<and> wire = bytes_of sent @ take k (bytes_of rest)"
proof -
  assume c: "carries b handed sent wire"
  then obtain rest t where r: "handed = sent @ rest" "wire = bytes_of sent @ first_part t rest @ part b"
    by (auto simp: carries_def)
  with carries_total[OF c] have "bytes_of rest = (first_part t rest @ part b) @ to_send b" by simp
  then have "take (length (first_part t rest @ part b)) (bytes_of rest) = first_part t rest @ part b"
    by (metis append_eq_conv_conj)
  with r show ?thesis by metis
qed

lemma carries_flush:
  assumes "carries b handed sent wire" "allowed a b" "flush a b = (w, f, b')"
  shows "\<exists>d. carries b' handed (sent @ d) (wire @ w) \<and> f = fires d"
proof -
  from assms(1) obtain rest t where ok: "ok b" and r: "handed = sent @ rest" "entries b = trimmed t rest"
    "wire = bytes_of sent @ first_part t rest @ part b" by (auto simp: carries_def)
  from flush_law[OF ok assms(2,3)] obtain d where d: "entries b = d @ entries b'"
    "part b @ w = bytes_of d @ part b'" "f = fires d" and ok': "ok b'" by blast
  show ?thesis
  proof (cases d)
    case Nil
    with r d ok' have "carries b' handed sent (wire @ w)" by (auto simp: carries_def)
    with Nil d(3) show ?thesis by (auto intro!: exI[of _ "[]"])
  next
    case (Cons x xs)
    with r(2) d(1) obtain e where rest: "rest = e # xs @ entries b'" "x = e\<lparr>we_msg := drop t (we_msg e)\<rparr>"
      by (cases rest) auto
    then have "wire @ w = bytes_of (sent @ e # xs) @ part b'"
      using r(3) d(2) Cons by simp
    with rest r(1) ok' have "carries b' handed (sent @ e # xs) (wire @ w)"
      by (auto simp: carries_def intro!: exI[of _ "entries b'"] exI[of _ "0::nat"])
    with d(3) Cons rest(2) show ?thesis by (auto intro!: exI[of _ "e # xs"])
  qed
qed

lemma carries_put: "carries b handed sent wire \<Longrightarrow> carries (put e b) (handed @ [e]) sent wire"
proof -
  assume "carries b handed sent wire"
  then obtain rest t where ok: "ok b" and r: "handed = sent @ rest" "entries b = trimmed t rest"
    "wire = bytes_of sent @ first_part t rest @ part b" by (auto simp: carries_def)
  show ?thesis
  proof (cases rest)
    case Nil
    with r put_law[OF ok, of e] show ?thesis
      by (auto simp: carries_def intro!: exI[of _ "[e]"] exI[of _ "0::nat"])
  next
    case (Cons x xs)
    with r put_law[OF ok, of e] show ?thesis
      by (auto simp: carries_def intro!: exI[of _ "rest @ [e]"] exI[of _ t])
  qed
qed

lemma carries_idle:
  assumes "carries b handed sent wire" "entries b = []"
  shows "handed = sent" "wire = bytes_of sent" "part b = []"
proof -
  from assms(1) obtain rest t where ok: "ok b" and r: "handed = sent @ rest" "entries b = trimmed t rest"
    "wire = bytes_of sent @ first_part t rest @ part b" by (auto simp: carries_def)
  from part_law[OF ok] assms(2) show p: "part b = []" by simp
  from r(2) assms(2) have "rest = []" by simp
  with r(1,3) p show "handed = sent" "wire = bytes_of sent" by simp_all
qed

lemma carries_idleI: "ok b \<Longrightarrow> entries b = [] \<Longrightarrow> part b = [] \<Longrightarrow> carries b sent sent (bytes_of sent)"
  unfolding carries_def by (intro conjI exI[of _ "[]"] exI[of _ "0::nat"]) simp_all

lemma carries_inline:
  assumes "carries b handed sent wire" "entries b = []"
  shows "carries b (handed @ [e]) (sent @ [e]) (wire @ we_msg e)"
  using carries_idleI[of b "sent @ [e]"] carries_idle[OF assms] assms carries_ok[OF assms(1)] by simp

lemma carries_partial:
  assumes "carries b handed sent wire" "entries b = []"
  shows "carries (put (e\<lparr>we_msg := drop n (we_msg e)\<rparr>) b) (handed @ [e]) sent (wire @ take n (we_msg e))"
proof -
  from assms(1) have "ok b" by (simp add: carries_def)
  from put_law[OF this] carries_idle[OF assms] assms(2) show ?thesis
    by (auto simp: carries_def intro!: exI[of _ "[e]"] exI[of _ n])
qed

end

definition entries :: "'cb write_buffer \<Rightarrow> 'cb write_entry list" where
  "entries wb = wb_drain wb @ wb_queue wb"

definition wb_ok :: "'cb write_buffer \<Rightarrow> bool" where
  "wb_ok wb \<longleftrightarrow> wb_valid wb \<and> first_fits (wb_offset wb) (wb_drain wb)"

definition wb_part :: "'cb write_buffer \<Rightarrow> string" where
  "wb_part wb = first_part (wb_offset wb) (wb_drain wb)"

definition wb_put :: "'cb write_entry \<Rightarrow> 'cb write_buffer \<Rightarrow> 'cb write_buffer" where
  "wb_put e wb = wb\<lparr>wb_queue := wb_queue wb @ [e]\<rparr>"

text \<open>What the socket may answer: it takes at least one byte and no more than it is offered.\<close>

definition fair_answers :: "bool \<times> write_answer list \<Rightarrow> 'cb write_buffer \<Rightarrow> bool" where
  "fair_answers ta wb \<longleftrightarrow> WriteError \<notin> set (snd ta) \<and> Wrote 0 \<notin> set (snd ta)
     \<and> (case snd ta of Wrote n # _ \<Rightarrow> fst ta \<or> n \<le> length (concat (iovecs (swap_in wb))) | _ \<Rightarrow> True)"

lemma flush_tls_moves:
  assumes "WriteError \<notin> set as \<and> Wrote 0 \<notin> set as" "first_fits (wb_offset wb) (wb_drain wb)" "flush_tls as wb = (w, f, wb')"
  shows "wb_queue wb' = wb_queue wb \<and> wb_valid wb' = wb_valid wb \<and> first_fits (wb_offset wb') (wb_drain wb')
    \<and> (\<exists>d. wb_drain wb = d @ wb_drain wb' \<and> wb_part wb @ w = bytes_of d @ wb_part wb' \<and> f = fires d)"
  using assms
proof (induction as wb arbitrary: w f rule: flush_tls.induct)
  case (2 a as wb)
  show ?case
  proof (cases "wb_drain wb")
    case (Cons e es)
    show ?thesis
    proof (cases a)
      case (Wrote n)
      let ?out = "take n (drop (wb_offset wb) (we_msg e))"
      have n: "n \<noteq> 0" using 2(2) Wrote by auto
      show ?thesis
      proof (cases "wb_offset wb + n \<ge> length (we_msg e)")
        case True
        obtain w1 f1 where r: "flush_tls as (wb\<lparr>wb_drain := es, wb_offset := 0\<rparr>) = (w1, f1, wb')"
          and w: "w = ?out @ w1" "f = fire e @ f1"
          using 2(4) Cons Wrote True n by (auto simp: Let_def split: prod.splits)
        from 2(1)[OF Cons Wrote n refl refl True _ _ r] 2(2) obtain d where
          d: "es = d @ wb_drain wb'" "w1 = bytes_of d @ wb_part wb'" "f1 = fires d"
          and rest: "wb_queue wb' = wb_queue wb" "wb_valid wb' = wb_valid wb" "first_fits (wb_offset wb') (wb_drain wb')"
          by (auto simp: wb_part_def)
        from True have "take (wb_offset wb) (we_msg e) @ ?out = we_msg e"
          by (metis append_take_drop_id take_all length_drop le_diff_conv add.commute)
        with d rest w Cons show ?thesis
          by (auto simp: wb_part_def intro!: exI[of _ "e # d"])
      next
        case False
        with 2(3,4) Cons Wrote n show ?thesis
          by (auto simp: Let_def wb_part_def take_add intro!: exI[of _ "[]"])
      qed
    qed (use 2 Cons in \<open>auto intro!: exI[of _ "[]"]\<close>)
  qed (use 2 in \<open>auto intro!: exI[of _ "[]"]\<close>)
qed auto

definition offer :: "nat \<Rightarrow> 'cb write_entry list \<Rightarrow> string" where
  "offer off es = drop (length (first_part off es)) (bytes_of es)"

lemma account_moves:
  assumes "first_fits off es" "n \<le> length (offer off es)" "account n off es = (f, es', off')"
  shows "first_fits off' es'
    \<and> (\<exists>d. es = d @ es' \<and> first_part off es @ take n (offer off es) = bytes_of d @ first_part off' es' \<and> f = fires d)"
  using assms
proof (induction n off es arbitrary: f rule: account.induct)
  case (2 sent off e es)
  show ?case
  proof (cases "sent \<ge> length (we_msg e) - off \<and> sent \<noteq> 0")
    case True
    let ?m = "length (we_msg e) - off"
    obtain f1 where r: "account (sent - ?m) 0 es = (f1, es', off')" "f = fire e @ f1"
      using 2(4) True by (auto simp: Let_def split: prod.splits)
    have "sent - ?m \<le> length (offer 0 es)" using 2(2,3) by (simp add: offer_def)
    with 2(1)[OF _ refl _ _ _ r(1)] True obtain d where d: "es = d @ es'" "take (sent - ?m) (offer 0 es) = bytes_of d @ first_part off' es'"
      "f1 = fires d" "first_fits off' es'" by auto
    have "first_part off (e # es) @ take sent (offer off (e # es)) = we_msg e @ take (sent - ?m) (offer 0 es)"
      using 2(2) True by (simp add: offer_def)
    with d r(2) show ?thesis by (auto intro!: exI[of _ "e # d"])
  next
    case False
    with 2(2,4) show ?thesis
      by (auto simp: Let_def offer_def take_add split: if_splits intro!: exI[of _ "[]"])
  qed
qed (simp add: offer_def)

lemma length_concat_take: "length (concat (map f (take k xs))) \<le> length (concat (map f xs))"
  by (metis append_take_drop_id concat_append length_append le_add1 map_append)

lemma iovecs_offer:
  assumes "n \<le> length (concat (iovecs wb))" "first_fits (wb_offset wb) (wb_drain wb)"
  shows "take n (concat (iovecs wb)) = take n (offer (wb_offset wb) (wb_drain wb))"
    "n \<le> length (offer (wb_offset wb) (wb_drain wb))"
proof -
  have "\<exists>r. offer (wb_offset wb) (wb_drain wb) = concat (iovecs wb) @ r"
  proof (cases "wb_drain wb")
    case (Cons e es)
    let ?k = "min (length es) (MAX_WRITE_IOVECS - 1)"
    have "take (min (length (wb_drain wb)) MAX_WRITE_IOVECS) (wb_drain wb) = e # take ?k es"
      by (simp add: Cons MAX_WRITE_IOVECS_def min_def numeral_eq_Suc)
    moreover have "bytes_of es = concat (map we_msg (take ?k es)) @ bytes_of (drop ?k es)"
      by (simp only: bytes_of_def flip: concat_append map_append append_take_drop_id) simp
    ultimately show ?thesis using assms(2) Cons by (simp add: offer_def iovecs_def)
  qed (simp add: offer_def iovecs_def)
  with assms(1) show "take n (concat (iovecs wb)) = take n (offer (wb_offset wb) (wb_drain wb))"
    "n \<le> length (offer (wb_offset wb) (wb_drain wb))" by auto
qed

lemma take_rest: "\<exists>r. s = take n s @ r"
  by (metis append_take_drop_id)

lemma swap_in_facts:
  "wb_ok wb \<Longrightarrow> wb_ok (swap_in wb)" "wb_ok wb \<Longrightarrow> entries (swap_in wb) = entries wb" "wb_part (swap_in wb) = wb_part wb"
  by (auto simp: swap_in_def wb_ok_def entries_def wb_part_def)

lemma flushWrite_moves:
  assumes "wb_ok wb0" "fair_answers (tls, as) wb0" "flushWrite tls (first_answer as) as wb0 = (w, f, wb')"
  shows "wb_ok wb' \<and> (\<exists>d. entries wb0 = d @ entries wb' \<and> wb_part wb0 @ w = bytes_of d @ wb_part wb' \<and> f = fires d)"
proof -
  define wb where "wb = swap_in wb0"
  note sw = swap_in_facts(1,2)[OF assms(1)] swap_in_facts(3)[of wb0]
  have ok: "wb_valid wb" "first_fits (wb_offset wb) (wb_drain wb)"
    using sw(1) by (simp_all add: wb_ok_def wb_def)
  have "wb_ok wb' \<and> (\<exists>d. entries wb = d @ entries wb' \<and> wb_part wb @ w = bytes_of d @ wb_part wb' \<and> f = fires d)"
  proof (cases "wb_drain wb = [] \<or> (\<not> tls \<and> (as = [] \<or> (\<exists>as'. as = NotReady # as')))")
    case True
    with assms(3) ok show ?thesis
      by (auto simp: flushWrite_def Let_def wb_ok_def flush_writev_def first_answer_def simp flip: wb_def split: if_splits intro!: exI[of _ "[]"])
  next
    case False
    show ?thesis
    proof (cases tls)
      case True
      with False assms(2,3) flush_tls_moves[OF _ ok(2), of as w f wb'] ok show ?thesis
        by (auto simp: flushWrite_def Let_def wb_ok_def fair_answers_def entries_def simp flip: wb_def)
    next
      case nt: False
      with False assms(2) obtain n as' where a: "as = Wrote n # as'" "n \<le> length (concat (iovecs wb))" and n: "n \<noteq> 0"
        by (cases as; cases "hd as") (auto simp: fair_answers_def wb_def)
      obtain es off where acc: "account n (wb_offset wb) (wb_drain wb) = (f, es, off)"
        and r: "w = take n (concat (iovecs wb))" "wb' = wb\<lparr>wb_drain := es, wb_offset := off\<rparr>"
        using assms(3) nt False a(1) n
        by (auto simp: flushWrite_def Let_def flush_writev_def first_answer_def simp flip: wb_def split: prod.splits)
      from account_moves[OF ok(2) iovecs_offer(2)[OF a(2) ok(2)] acc] iovecs_offer(1)[OF a(2) ok(2)] r ok
      show ?thesis by (auto simp: wb_ok_def wb_part_def entries_def)
    qed
  qed
  with sw show ?thesis by (simp add: wb_def)
qed

interpretation channel: byte_channel entries wb_part wb_ok wb_put fair_answers "\<lambda>(tls, as). flushWrite tls (first_answer as) as"
proof unfold_locales
  fix wb :: "'a write_buffer" and e
  assume "wb_ok wb"
  then show "wb_ok (wb_put e wb) \<and> entries (wb_put e wb) = entries wb @ [e] \<and> wb_part (wb_put e wb) = wb_part wb"
    by (simp add: wb_ok_def wb_put_def entries_def wb_part_def)
next
  fix wb wb' :: "'a write_buffer" and a w f
  assume "wb_ok wb" "fair_answers a wb" "(case a of (tls, as) \<Rightarrow> flushWrite tls (first_answer as) as) wb = (w, f, wb')"
  then show "wb_ok wb' \<and> (\<exists>d. entries wb = d @ entries wb' \<and> wb_part wb @ w = bytes_of d @ wb_part wb' \<and> f = fires d)"
    using flushWrite_moves[of wb "fst a" "snd a"] by (cases a) auto
next
  fix wb :: "'a write_buffer"
  assume "wb_ok wb"
  then show "(entries wb = [] \<and> wb_part wb = []) \<or> (\<exists>e es r. entries wb = e # es \<and> we_msg e = wb_part wb @ r)"
    by (cases "wb_drain wb"; cases "wb_queue wb") (simp_all add: entries_def wb_part_def take_rest)
qed

section \<open>Runs of a reader's write path\<close>

text \<open>What can happen to the buffers while connections live: a session sends on one of them, the reader
  flushes them all (it was woken), or flushes one whose socket became writable.\<close>

datatype 'cb write_event =
    SendOn int bool write_answer "'cb write_entry"
  | FlushAll "int \<Rightarrow> write_answer list"
  | Writable int "write_answer list"

type_synonym 'cb writes = "(int \<times> string \<times> 'cb list) list"

fun write_step :: "(int \<Rightarrow> bool) \<Rightarrow> 'cb write_event \<Rightarrow> 'cb write_buffers \<Rightarrow> 'cb writes \<times> 'cb write_buffers" where
  "write_step tls (SendOn fd free a e) bufs =
     (case connection_send (tls fd) free a fd e bufs of (w, cbs, bufs') \<Rightarrow> ([(fd, w, cbs)], bufs'))"
| "write_step tls (FlushAll answers) bufs = flushWrites tls answers bufs"
| "write_step tls (Writable fd answers) bufs =
     (case flush_ready (tls fd) answers fd bufs of (w, cbs, bufs') \<Rightarrow> ([(fd, w, cbs)], bufs'))"

definition wire_on :: "int \<Rightarrow> 'cb writes \<Rightarrow> string" where
  "wire_on fd out = concat (map (fst \<circ> snd) (filter (\<lambda>x. fst x = fd) out))"

definition fired_on :: "int \<Rightarrow> 'cb writes \<Rightarrow> 'cb list" where
  "fired_on fd out = concat (map (snd \<circ> snd) (filter (\<lambda>x. fst x = fd) out))"

definition handed_on :: "int \<Rightarrow> 'cb write_event \<Rightarrow> 'cb write_entry list" where
  "handed_on fd ev = (case ev of SendOn fd' _ _ e \<Rightarrow> if fd' = fd then [e] else [] | _ \<Rightarrow> [])"

text \<open>The sockets stay healthy: they take at most what they are offered and report no error.\<close>

definition fair_event :: "(int \<Rightarrow> bool) \<Rightarrow> 'cb write_event \<Rightarrow> 'cb write_buffers \<Rightarrow> bool" where
  "fair_event tls ev bufs = (case ev of
      SendOn fd free a e \<Rightarrow> (case a of Wrote n \<Rightarrow> n \<le> length (we_msg e) | _ \<Rightarrow> True)
    | FlushAll answers \<Rightarrow> list_all (\<lambda>(fd, wb). fair_answers (tls fd, answers fd) wb) bufs
    | Writable fd answers \<Rightarrow> fair_answers (tls fd, answers) (buffer_at fd bufs))"

inductive write_run :: "(int \<Rightarrow> bool) \<Rightarrow> 'cb write_event list \<Rightarrow> 'cb writes \<Rightarrow> 'cb write_buffers \<Rightarrow> bool"
  for tls where
  start: "write_run tls [] [] []"
| event: "write_run tls evs out bufs \<Longrightarrow> fair_event tls ev bufs \<Longrightarrow> write_step tls ev bufs = (out', bufs')
    \<Longrightarrow> write_run tls (evs @ [ev]) (out @ out') bufs'"

lemma on_simps [simp]:
  "wire_on fd [] = []" "wire_on fd ((fd', w, c) # out) = (if fd' = fd then w else []) @ wire_on fd out"
  "wire_on fd (o1 @ o2) = wire_on fd o1 @ wire_on fd o2"
  "fired_on fd [] = []" "fired_on fd ((fd', w, c) # out) = (if fd' = fd then c else []) @ fired_on fd out"
  "fired_on fd (o1 @ o2) = fired_on fd o1 @ fired_on fd o2"
  by (simp_all add: wire_on_def fired_on_def)

lemma buffer_at_set [simp]: "buffer_at fd (hmap_set bufs fd' wb) = (if fd = fd' then wb else buffer_at fd bufs)"
  by (simp add: buffer_at_def)

lemma new_buffer_carries: "channel.carries new_buffer [] [] []"
  unfolding channel.carries_def by (simp add: new_buffer_def wb_ok_def entries_def wb_part_def)

lemma idle_entries: "entries wb = [] \<longleftrightarrow> wb_queue wb = [] \<and> wb_drain wb = []"
  by (auto simp: entries_def)

lemma send_carries:
  assumes "channel.carries (buffer_at fd bufs) handed sent wire"
    and "case a of Wrote n \<Rightarrow> n \<le> length (we_msg e) | _ \<Rightarrow> True"
    and "connection_send tls free a fd e bufs = (w, f, bufs')"
  shows "\<exists>d. channel.carries (buffer_at fd bufs') (handed @ [e]) (sent @ d) (wire @ w) \<and> f = fires d
    \<and> (\<forall>fd'. fd' \<noteq> fd \<longrightarrow> buffer_at fd' bufs' = buffer_at fd' bufs)"
proof -
  let ?wb = "buffer_at fd bufs"
  have queue: "reader_queueWrite fd x bufs = hmap_set bufs fd (wb_put x ?wb)" for x
    by (simp add: reader_queueWrite_def wb_put_def Let_def)
  have whole: "e\<lparr>we_msg := we_msg e\<rparr> = e" by simp
  show ?thesis
  proof (cases "\<not> tls \<and> free \<and> entries ?wb = [] \<and> (\<exists>n. a = Wrote n)")
    case True
    then obtain n where n: "a = Wrote n" "\<not> tls" "free" and idle: "entries ?wb = []" by blast
    have sends: "trySend free a fd (we_msg e) bufs = attempt a (we_msg e)"
      using n idle channel.carries_ok[OF assms(1)]
      by (auto simp: trySend_def idle_entries buffer_at_def wb_ok_def split: option.splits)
    show ?thesis
    proof (cases "n = length (we_msg e)")
      case True
      with n sends assms(3) have "w = we_msg e" "f = fire e" "bufs' = bufs"
        by (auto simp: connection_send_def attempt_def)
      with channel.carries_inline[OF assms(1) idle, of e] show ?thesis by (auto intro!: exI[of _ "[e]"])
    next
      case False
      with n sends assms(3) queue have "w = take n (we_msg e)" "f = []"
        "bufs' = hmap_set bufs fd (wb_put (e\<lparr>we_msg := drop n (we_msg e)\<rparr>) ?wb)"
        by (auto simp: connection_send_def attempt_def)
      with channel.carries_partial[OF assms(1) idle, of n e] show ?thesis by (auto intro!: exI[of _ "[]"])
    qed
  next
    case False
    then have "(if tls then (False, we_msg e, []) else trySend free a fd (we_msg e) bufs) = (False, we_msg e, [])"
      using channel.carries_ok[OF assms(1)]
      by (auto simp: trySend_def attempt_def idle_entries buffer_at_def new_buffer_def wb_ok_def
          split: option.splits write_answer.splits)
    with assms(3) queue whole have "w = []" "f = []" "bufs' = hmap_set bufs fd (wb_put e ?wb)"
      by (auto simp: connection_send_def)
    with channel.carries_put[OF assms(1), of e] show ?thesis by (auto intro!: exI[of _ "[]"])
  qed
qed

lemma flushWrites_absent:
  "flushWrites tls answers bufs = (out, bufs') \<Longrightarrow> fd \<notin> fst ` set bufs \<Longrightarrow>
     wire_on fd out = [] \<and> fired_on fd out = [] \<and> fd \<notin> fst ` set bufs'"
  by (induction tls answers bufs arbitrary: out bufs' rule: flushWrites.induct) (auto split: prod.splits if_splits)

lemma flushWrites_ok:
  "flushWrites tls answers bufs = (out, bufs') \<Longrightarrow> hmap_ok bufs \<Longrightarrow> hmap_ok bufs' \<and> fst ` set bufs' \<subseteq> fst ` set bufs"
  by (induction tls answers bufs arbitrary: out bufs' rule: flushWrites.induct)
    (auto simp: hmap_ok_def split: prod.splits if_splits)

lemma flushWrites_at:
  assumes "flushWrites tls answers bufs = (out, bufs')" "hmap_ok bufs" "map_of bufs fd = Some wb" "wb_valid wb"
    "flushWrite (tls fd) (first_answer (answers fd)) (answers fd) wb = (w, f, wb')"
  shows "wire_on fd out = w \<and> fired_on fd out = f \<and> map_of bufs' fd = Some wb'"
  using assms
proof (induction tls answers bufs arbitrary: out bufs' rule: flushWrites.induct)
  case (2 tls answers fd1 wb1 bufs)
  obtain out1 bufs1 where r: "flushWrites tls answers bufs = (out1, bufs1)" by force
  show ?case
  proof (cases "fd1 = fd")
    case True
    with 2(3) have "fd \<notin> fst ` set bufs" by (simp add: hmap_ok_def)
    from flushWrites_absent[OF r this] 2 True r show ?thesis by (auto simp: hmap_ok_def)
  next
    case False
    with 2(3,4) have "hmap_ok bufs" "map_of bufs fd = Some wb" by (simp_all add: hmap_ok_def)
    from 2(1)[OF r this 2(5,6)] 2(2) r False show ?thesis
      by (auto split: prod.splits if_splits)
  qed
qed simp

lemma flush_all_carries:
  assumes "flushWrites tls answers bufs = (out, bufs')" "list_all (\<lambda>(fd, wb). fair_answers (tls fd, answers fd) wb) bufs"
    and "hmap_ok bufs" "channel.carries (buffer_at fd bufs) handed sent wire"
  shows "\<exists>d. channel.carries (buffer_at fd bufs') handed (sent @ d) (wire @ wire_on fd out) \<and> fired_on fd out = fires d"
proof (cases "map_of bufs fd")
  case None
  then have "fd \<notin> fst ` set bufs" by (simp add: map_of_eq_None_iff)
  note absent = flushWrites_absent[OF assms(1) this]
  then have "map_of bufs' fd = None" by (simp add: map_of_eq_None_iff)
  with absent None assms(4) show ?thesis by (auto simp: buffer_at_def intro!: exI[of _ "[]"])
next
  case (Some wb)
  obtain w f wb' where fl: "flushWrite (tls fd) (first_answer (answers fd)) (answers fd) wb = (w, f, wb')" by (cases "flushWrite (tls fd) (first_answer (answers fd)) (answers fd) wb")
  from Some assms(4) have c: "channel.carries wb handed sent wire" by (simp add: buffer_at_def)
  from map_of_SomeD[OF Some] assms(2) have "fair_answers (tls fd, answers fd) wb" by (auto simp: list_all_iff)
  from channel.carries_flush[OF c this] fl obtain d where
    "channel.carries wb' handed (sent @ d) (wire @ w)" "f = fires d" by auto
  moreover have "wb_valid wb" using channel.carries_ok[OF c] by (simp add: wb_ok_def)
  from flushWrites_at[OF assms(1,3) Some this fl] have "wire_on fd out = w" "fired_on fd out = f" "map_of bufs' fd = Some wb'"
    by blast+
  ultimately show ?thesis by (auto simp: buffer_at_def)
qed

lemma flush_ready_carries:
  assumes "flush_ready tls answers fd bufs = (w, f, bufs')" "fair_answers (tls, answers) (buffer_at fd bufs)"
    and "channel.carries (buffer_at fd bufs) handed sent wire"
  shows "\<exists>d. channel.carries (buffer_at fd bufs') handed (sent @ d) (wire @ w) \<and> f = fires d
    \<and> (\<forall>fd'. fd' \<noteq> fd \<longrightarrow> buffer_at fd' bufs' = buffer_at fd' bufs)"
proof (cases "map_of bufs fd")
  case None
  with assms show ?thesis by (auto simp: flush_ready_def intro!: exI[of _ "[]"])
next
  case (Some wb)
  obtain wb' where "flushWrite tls (first_answer answers) answers wb = (w, f, wb')" "bufs' = hmap_set bufs fd wb'"
    using assms(1) Some by (auto simp: flush_ready_def split: prod.splits)
  with channel.carries_flush[of wb handed sent wire "(tls, answers)" w f wb'] assms Some show ?thesis
    by (auto simp: buffer_at_def)
qed

lemma write_step_ok: "write_step tls ev bufs = (out, bufs') \<Longrightarrow> hmap_ok bufs \<Longrightarrow> hmap_ok bufs'"
  by (cases ev)
    (auto simp: connection_send_def reader_queueWrite_def flush_ready_def Let_def dest: flushWrites_ok
      split: prod.splits bool.splits option.splits)

lemma write_step_carries:
  assumes "write_step tls ev bufs = (out, bufs')" "fair_event tls ev bufs" "hmap_ok bufs"
    and "channel.carries (buffer_at fd bufs) handed sent wire"
  shows "\<exists>d. channel.carries (buffer_at fd bufs') (handed @ handed_on fd ev) (sent @ d) (wire @ wire_on fd out)
    \<and> fired_on fd out = fires d"
proof (cases ev)
  case (SendOn fd1 free a e)
  obtain w f where s: "connection_send (tls fd1) free a fd1 e bufs = (w, f, bufs')" "out = [(fd1, w, f)]"
    using assms(1) SendOn by (auto split: prod.splits)
  have a: "case a of Wrote n \<Rightarrow> n \<le> length (we_msg e) | _ \<Rightarrow> True"
    using assms(2) SendOn by (simp add: fair_event_def)
  show ?thesis
  proof (cases "fd1 = fd")
    case True
    from send_carries[OF assms(4) a s(1)[unfolded True]] s(2) True SendOn show ?thesis by (auto simp: handed_on_def)
  next
    case False
    then have "buffer_at fd bufs' = buffer_at fd bufs"
      using s(1) by (auto simp: connection_send_def reader_queueWrite_def Let_def split: prod.splits bool.splits)
    with assms(4) False s(2) SendOn show ?thesis by (auto simp: handed_on_def intro!: exI[of _ "[]"])
  qed
next
  case (FlushAll answers)
  with flush_all_carries[of tls answers bufs out bufs' fd] assms show ?thesis
    by (auto simp: fair_event_def handed_on_def)
next
  case (Writable fd1 answers)
  obtain w f where s: "flush_ready (tls fd1) answers fd1 bufs = (w, f, bufs')" "out = [(fd1, w, f)]"
    using assms(1) Writable by (auto split: prod.splits)
  show ?thesis
  proof (cases "fd1 = fd")
    case True
    with flush_ready_carries[OF s(1)[unfolded True] _ assms(4)] assms(2) Writable obtain d where
      "channel.carries (buffer_at fd bufs') handed (sent @ d) (wire @ w)" "f = fires d" by (auto simp: fair_event_def)
    with s(2) True Writable show ?thesis by (auto simp: handed_on_def)
  next
    case False
    then have "buffer_at fd bufs' = buffer_at fd bufs"
      using s(1) by (auto simp: flush_ready_def split: prod.splits option.splits)
    with assms(4) False s(2) Writable show ?thesis by (auto simp: handed_on_def intro!: exI[of _ "[]"])
  qed
qed

lemma write_run_carries:
  "write_run tls evs out bufs \<Longrightarrow> hmap_ok bufs \<and>
     (\<exists>sent. channel.carries (buffer_at fd bufs) (concat (map (handed_on fd) evs)) sent (wire_on fd out) \<and> fired_on fd out = fires sent)"
proof (induction rule: write_run.induct)
  case start
  then show ?case using new_buffer_carries by (auto simp: buffer_at_def)
next
  case (event evs out bufs ev out' bufs')
  then obtain sent where c: "channel.carries (buffer_at fd bufs) (concat (map (handed_on fd) evs)) sent (wire_on fd out)"
    "fired_on fd out = fires sent" and ok: "hmap_ok bufs" by blast
  from write_step_carries[OF event(3,2) ok c(1)] obtain d where
    "channel.carries (buffer_at fd bufs') (concat (map (handed_on fd) evs) @ handed_on fd ev) (sent @ d) (wire_on fd out @ wire_on fd out')"
    "fired_on fd out' = fires d" by blast
  with c(2) write_step_ok[OF event(3) ok] show ?case by (auto intro!: exI[of _ "sent @ d"])
qed

section \<open>Properties\<close>

text \<open>C17: on healthy sockets the write path neither loses, repeats nor reorders anything, whatever
  mixture of inline sends, partial writes, queueing, vectored and TLS flushes happens on however many
  connections: the bytes on a descriptor's wire are those of the messages handed over up to some
  point, the rest is still held, and the callbacks that have fired are exactly those of the messages
  that are out completely, in order.\<close>

theorem wire_carries_messages:
  assumes "write_run tls evs out bufs"
  shows "\<exists>sent rest k. concat (map (handed_on fd) evs) = sent @ rest
    \<and> wire_on fd out = bytes_of sent @ take k (bytes_of rest)
    \<and> wire_on fd out @ channel.to_send (buffer_at fd bufs) = bytes_of (sent @ rest)
    \<and> fired_on fd out = fires sent"
proof -
  from write_run_carries[OF assms] obtain sent where
    c: "channel.carries (buffer_at fd bufs) (concat (map (handed_on fd) evs)) sent (wire_on fd out)"
    and f: "fired_on fd out = fires sent" by blast
  from channel.carries_prefix[OF c] channel.carries_total[OF c] f show ?thesis by metis
qed

definition demo_entry :: "string \<Rightarrow> nat \<Rightarrow> nat write_entry" where
  "demo_entry m cb = \<lparr>we_msg = m, we_callback = Some cb\<rparr>"

definition demo_writes :: "nat write_event list" where
  "demo_writes = [SendOn 5 True (Wrote 2) (demo_entry ''abcd'' 1), SendOn 5 True NotReady (demo_entry ''ef'' 2),
     FlushAll (\<lambda>_. [Wrote 3]), SendOn 6 True (Wrote 1) (demo_entry ''x'' 3)]"

fun write_all :: "(int \<Rightarrow> bool) \<Rightarrow> 'cb write_event list \<Rightarrow> 'cb write_buffers \<Rightarrow> bool \<times> 'cb writes \<times> 'cb write_buffers" where
  "write_all tls [] bufs = (True, [], bufs)"
| "write_all tls (ev # evs) bufs =
     (case write_step tls ev bufs of (out, bufs1) \<Rightarrow>
       (case write_all tls evs bufs1 of (fair, out', bufs') \<Rightarrow> (fair_event tls ev bufs \<and> fair, out @ out', bufs')))"

lemma write_all_run:
  "write_run tls evs0 out0 bufs \<Longrightarrow> write_all tls evs bufs = (True, out, bufs') \<Longrightarrow> write_run tls (evs0 @ evs) (out0 @ out) bufs'"
proof (induction evs arbitrary: evs0 out0 bufs out)
  case (Cons ev evs)
  then obtain out1 bufs1 out2 where s: "write_step tls ev bufs = (out1, bufs1)" "fair_event tls ev bufs"
    "write_all tls evs bufs1 = (True, out2, bufs')" "out = out1 @ out2"
    by (auto split: prod.splits)
  from Cons.IH[OF write_run.event[OF Cons.prems(1) s(2,1)] s(3)] s(4) show ?case by simp
qed simp

lemma demo_writes_run:
  "write_all (\<lambda>_. False) demo_writes [] = (True, fst (snd (write_all (\<lambda>_. False) demo_writes [])), snd (snd (write_all (\<lambda>_. False) demo_writes [])))"
  "wire_on 5 (fst (snd (write_all (\<lambda>_. False) demo_writes []))) = ''abcde''"
  by code_simp+

lemma wire_carries_messages_witness:
  "\<exists>out bufs sent rest k. write_run (\<lambda>_. False) demo_writes out bufs
     \<and> concat (map (handed_on 5) demo_writes) = sent @ rest \<and> wire_on 5 out = ''abcde''
     \<and> wire_on 5 out = bytes_of sent @ take k (bytes_of rest) \<and> fired_on 5 out = fires sent"
proof -
  from write_all_run[OF write_run.start demo_writes_run(1)] have
    "write_run (\<lambda>_. False) demo_writes (fst (snd (write_all (\<lambda>_. False) demo_writes []))) (snd (snd (write_all (\<lambda>_. False) demo_writes [])))"
    by simp
  with wire_carries_messages[OF this, of 5] demo_writes_run(2) show ?thesis by blast
qed

lemma account_all:
  "es \<noteq> [] \<Longrightarrow> off < length (we_msg (hd es)) \<Longrightarrow> list_all (\<lambda>e. we_msg e \<noteq> []) es \<Longrightarrow>
     account (length (offer off es)) off es = (fires es, [], 0)"
proof (induction es arbitrary: off)
  case (Cons e es)
  then have rest: "es \<noteq> [] \<Longrightarrow> account (length (offer 0 es)) 0 es = (fires es, [], 0)"
    by (cases es) auto
  show ?case
  proof (cases "es = []")
    case False
    with rest Cons.prems show ?thesis by (simp add: offer_def Let_def)
  qed (use Cons.prems in \<open>simp add: offer_def Let_def\<close>)
qed simp

text \<open>a flush that finishes a partly written entry does not take up what was queued meanwhile,
  even when the socket takes everything: the queue stays as it is, and since the socket never refused
  anything, no writable event will come for it (the descriptors are edge-triggered).\<close>

theorem flush_leaves_queue:
  assumes "wb_drain wb \<noteq> []" "length (wb_drain wb) \<le> MAX_WRITE_IOVECS" "list_all (\<lambda>e. we_msg e \<noteq> []) (wb_drain wb)"
    and "wb_offset wb < length (we_msg (hd (wb_drain wb)))"
  shows "flushWrite False (Wrote (length (concat (iovecs wb)))) ssl wb
    = (concat (iovecs wb), fires (wb_drain wb), wb\<lparr>wb_drain := [], wb_offset := 0\<rparr>)"
proof -
  obtain e es where d: "wb_drain wb = e # es" using assms(1) by (cases "wb_drain wb") auto
  have "concat (iovecs wb) = offer (wb_offset wb) (wb_drain wb)"
    using assms(2,4) d by (simp add: iovecs_def offer_def bytes_of_def min_def)
  moreover have "offer (wb_offset wb) (wb_drain wb) \<noteq> []" using assms(4) d by (simp add: offer_def)
  ultimately show ?thesis using account_all[OF assms(1,4,3)] assms(1)
    by (simp add: flushWrite_def swap_in_def flush_writev_def Let_def)
qed

lemma flush_leaves_queue_witness:
  "flushWrite False (Wrote 1) [] \<lparr>wb_queue = [demo_entry ''cd'' 2], wb_drain = [demo_entry ''ab'' 1], wb_offset = 1, wb_valid = True\<rparr>
    = (''b'', [1], \<lparr>wb_queue = [demo_entry ''cd'' 2], wb_drain = [], wb_offset = 0, wb_valid = True\<rparr>)"
  using flush_leaves_queue[of "\<lparr>wb_queue = [demo_entry ''cd'' 2], wb_drain = [demo_entry ''ab'' 1], wb_offset = 1, wb_valid = True\<rparr>"]
  by (simp add: demo_entry_def MAX_WRITE_IOVECS_def iovecs_def fire_def)

end
