(* ===== verification/Tls.thy ===== *)
theory Tls
  imports FixConfig ReadBuffer WriteBuffer
begin

text \<open>
  The TLS side of \<open>Network\<close> in \<^verbatim>\<open>src/Network.h\<close> and \<^verbatim>\<open>src/Network.cpp\<close>: the table of TLS
  connections, the cache of contexts with their verification policy, and the reads and writes of a
  descriptor. OpenSSL is not part of the program: the answers of its calls are the fields of
  \<open>ssl_env\<close> and the arguments of the operations.
\<close>

section \<open>Settings\<close>

definition TLS_ENABLED :: "bool config_item" where
  "TLS_ENABLED = fst (createBool ''TLSEnabled'' False (declared ''TLSEnabled''))"
definition TLS_VERIFY_PEER :: "bool config_item" where
  "TLS_VERIFY_PEER = fst (createBool ''TLSVerifyPeer'' True (declared ''TLSVerifyPeer''))"
definition TLS_REQUIRE_CLIENT_CERT :: "bool config_item" where
  "TLS_REQUIRE_CLIENT_CERT = fst (createBool ''TLSRequireClientCert'' False (declared ''TLSRequireClientCert''))"
definition TLS_CA_FILE :: "string config_item" where
  "TLS_CA_FILE = fst (createString ''TLSCAFile'' '''' (declared ''TLSCAFile''))"
definition TLS_CERT_FILE :: "string config_item" where
  "TLS_CERT_FILE = fst (createString ''TLSCertFile'' '''' (declared ''TLSCertFile''))"
definition TLS_KEY_FILE :: "string config_item" where
  "TLS_KEY_FILE = fst (createString ''TLSKeyFile'' '''' (declared ''TLSKeyFile''))"
definition TLS_SERVER_NAME :: "string config_item" where
  "TLS_SERVER_NAME = fst (createString ''TLSServerName'' '''' (declared ''TLSServerName''))"

lemma tls_items [simp]:
  "ci_index TLS_ENABLED = 10" "ci_index TLS_VERIFY_PEER = 11" "ci_index TLS_REQUIRE_CLIENT_CERT = 12"
  "ci_index TLS_CA_FILE = 7" "ci_index TLS_CERT_FILE = 8" "ci_index TLS_KEY_FILE = 9" "ci_index TLS_SERVER_NAME = 10"
  by code_simp+

definition is_tls_enabled :: "config \<Rightarrow> bool" where
  "is_tls_enabled settings = getBool TLS_ENABLED settings"

section \<open>OpenSSL's answers\<close>

record ssl_env =
  ssl_ctx_new :: bool
  ssl_load_verify_locations :: "string \<Rightarrow> bool"
  ssl_set_default_verify_paths :: bool
  ssl_use_certificate_file :: "string \<Rightarrow> bool"
  ssl_use_private_key_file :: "string \<Rightarrow> bool"
  ssl_check_private_key :: "string \<Rightarrow> string \<Rightarrow> bool"
  ssl_new :: bool
  ssl_set_fd :: "int \<Rightarrow> bool"
  ssl_get0_param :: bool
  ssl_set1_ip_asc :: "string \<Rightarrow> bool"
  ssl_set1_host :: "string \<Rightarrow> bool"

datatype handshake = Finished | InProgress | HandshakeFailed

datatype ssl_read = Decrypted string | WantRead | ZeroReturn | ReadFailed

datatype ssl_write = Encrypted nat | WantWrite | WriteFailed

section \<open>Contexts\<close>

datatype verify_mode = SSL_VERIFY_NONE | SSL_VERIFY_PEER | SSL_VERIFY_PEER_FAIL_IF_NO_PEER_CERT

record tls_context =
  ctx_ca :: string
  ctx_cert :: string
  ctx_key :: string
  ctx_verify :: verify_mode

definition createTLSContext :: "ssl_env \<Rightarrow> config \<Rightarrow> bool \<Rightarrow> tls_context option" where
  "createTLSContext env settings serverMode =
     (let caFile = getString TLS_CA_FILE settings;
          certFile = getString TLS_CERT_FILE settings;
          keyFile = getString TLS_KEY_FILE settings;
          verifyPeer = getBool TLS_VERIFY_PEER settings;
          requireClientCert = getBool TLS_REQUIRE_CLIENT_CERT settings
      in if \<not> ssl_ctx_new env then None
         else if caFile \<noteq> [] \<and> \<not> ssl_load_verify_locations env caFile then None
         else if caFile = [] \<and> (verifyPeer \<or> requireClientCert) \<and> \<not> ssl_set_default_verify_paths env then None
         else if certFile \<noteq> [] \<and> \<not> ssl_use_certificate_file env certFile then None
         else if keyFile \<noteq> [] \<and> \<not> ssl_use_private_key_file env keyFile then None
         else if (certFile \<noteq> [] \<or> keyFile \<noteq> []) \<and> \<not> ssl_check_private_key env certFile keyFile then None
         else if serverMode \<and> (certFile = [] \<or> keyFile = []) then None
         else Some \<lparr>ctx_ca = caFile, ctx_cert = certFile, ctx_key = keyFile,
           ctx_verify =
             (if serverMode then
                (if requireClientCert then SSL_VERIFY_PEER_FAIL_IF_NO_PEER_CERT
                 else if verifyPeer then SSL_VERIFY_PEER else SSL_VERIFY_NONE)
              else (if verifyPeer then SSL_VERIFY_PEER else SSL_VERIFY_NONE))\<rparr>)"

definition show_bool :: "bool \<Rightarrow> string" where "show_bool b = (if b then ''1'' else ''0'')"

definition getTLSContextKey :: "config \<Rightarrow> bool \<Rightarrow> string" where
  "getTLSContextKey settings serverMode =
     (if serverMode then ''S:'' else ''C:'') @ getSessionID settings @ '':''
       @ getString TLS_CA_FILE settings @ '':''
       @ getString TLS_CERT_FILE settings @ '':''
       @ getString TLS_KEY_FILE settings @ '':''
       @ show_bool (getBool TLS_VERIFY_PEER settings) @ '':''
       @ show_bool (getBool TLS_REQUIRE_CLIENT_CERT settings)"

section \<open>The table of connections\<close>

record tls_connection =
  tls_ctx :: tls_context
  tls_serverMode :: bool
  tls_serverName :: string
  tls_verifyTarget :: "string option"
  tls_ready :: bool

record tls_state =
  ts_connections :: "(int, tls_connection) hmap"
  ts_contexts :: "(string, tls_context) hmap"
  ts_hasTLSConnections :: bool

definition no_tls :: tls_state where
  "no_tls = \<lparr>ts_connections = [], ts_contexts = [], ts_hasTLSConnections = False\<rparr>"

definition getTLSContext :: "ssl_env \<Rightarrow> config \<Rightarrow> bool \<Rightarrow> tls_state \<Rightarrow> tls_context option \<times> tls_state" where
  "getTLSContext env settings serverMode ts =
     (let key = getTLSContextKey settings serverMode in
      case map_of (ts_contexts ts) key of
        Some ctx \<Rightarrow> (Some ctx, ts)
      | None \<Rightarrow>
          (case createTLSContext env settings serverMode of
             None \<Rightarrow> (None, ts)
           | Some ctx \<Rightarrow> (Some ctx, ts\<lparr>ts_contexts := hmap_set (ts_contexts ts) key ctx\<rparr>)))"

definition createTLSConnection ::
  "ssl_env \<Rightarrow> int \<Rightarrow> config \<Rightarrow> bool \<Rightarrow> string \<Rightarrow> tls_state \<Rightarrow> bool \<times> tls_state" where
  "createTLSConnection env fd settings serverMode serverName ts0 =
     (case getTLSContext env settings serverMode ts0 of
        (None, ts) \<Rightarrow> (False, ts)
      | (Some ctx, ts) \<Rightarrow>
          let verify = \<not> serverMode \<and> getBool TLS_VERIFY_PEER settings \<and> serverName \<noteq> [];
              conn = \<lparr>tls_ctx = ctx, tls_serverMode = serverMode,
                tls_serverName = (if serverMode then [] else serverName),
                tls_verifyTarget = (if verify then Some serverName else None), tls_ready = False\<rparr>
          in if \<not> ssl_new env then (False, ts)
             else if \<not> ssl_set_fd env fd then (False, ts)
             else if verify \<and> \<not> ssl_get0_param env then (False, ts)
             else if verify \<and> \<not> (ssl_set1_ip_asc env serverName \<or> ssl_set1_host env serverName) then (False, ts)
             else (True, ts\<lparr>ts_connections := hmap_set (ts_connections ts) fd conn, ts_hasTLSConnections := True\<rparr>))"

definition progressConnection :: "handshake \<Rightarrow> int \<Rightarrow> tls_state \<Rightarrow> bool \<times> tls_state" where
  "progressConnection answer fd ts =
     (if \<not> ts_hasTLSConnections ts then (True, ts)
      else case map_of (ts_connections ts) fd of
        None \<Rightarrow> (True, ts)
      | Some conn \<Rightarrow>
          if tls_ready conn then (True, ts)
          else case answer of
            Finished \<Rightarrow> (True, ts\<lparr>ts_connections := hmap_set (ts_connections ts) fd (conn\<lparr>tls_ready := True\<rparr>)\<rparr>)
          | InProgress \<Rightarrow> (True, ts)
          | HandshakeFailed \<Rightarrow> (False, ts))"

definition isConnectionReady :: "int \<Rightarrow> tls_state \<Rightarrow> bool" where
  "isConnectionReady fd ts =
     (if \<not> ts_hasTLSConnections ts then True
      else case map_of (ts_connections ts) fd of None \<Rightarrow> True | Some conn \<Rightarrow> tls_ready conn)"

definition requiresConnectionProgress :: "int \<Rightarrow> tls_state \<Rightarrow> bool" where
  "requiresConnectionProgress fd ts =
     (if \<not> ts_hasTLSConnections ts then False
      else case map_of (ts_connections ts) fd of None \<Rightarrow> False | Some conn \<Rightarrow> \<not> tls_ready conn)"

definition hasTLS :: "int \<Rightarrow> tls_state \<Rightarrow> bool" where
  "hasTLS fd ts = (if \<not> ts_hasTLSConnections ts then False else map_of (ts_connections ts) fd \<noteq> None)"

text \<open>\<open>recv\<close> is what the plain socket answers, \<open>SSL_read\<close> what OpenSSL does.\<close>

definition readConnection :: "read_result \<Rightarrow> ssl_read \<Rightarrow> int \<Rightarrow> tls_state \<Rightarrow> read_result" where
  "readConnection recv ssl fd ts =
     (if \<not> ts_hasTLSConnections ts then recv
      else case map_of (ts_connections ts) fd of
        None \<Rightarrow> recv
      | Some conn \<Rightarrow>
          if \<not> tls_ready conn then WouldBlock
          else case ssl of
            Decrypted s \<Rightarrow> Bytes s
          | WantRead \<Rightarrow> WouldBlock
          | ZeroReturn \<Rightarrow> EndOfStream
          | ReadFailed \<Rightarrow> EndOfStream)"

definition writeConnection :: "write_answer \<Rightarrow> ssl_write \<Rightarrow> int \<Rightarrow> tls_state \<Rightarrow> write_answer" where
  "writeConnection send_answer ssl fd ts =
     (if \<not> ts_hasTLSConnections ts then send_answer
      else case map_of (ts_connections ts) fd of
        None \<Rightarrow> send_answer
      | Some conn \<Rightarrow>
          if \<not> tls_ready conn then NotReady
          else case ssl of
            Encrypted n \<Rightarrow> Wrote n
          | WantWrite \<Rightarrow> NotReady
          | WriteFailed \<Rightarrow> WriteError)"

definition removeConnection :: "int \<Rightarrow> tls_state \<Rightarrow> tls_state" where
  "removeConnection fd ts =
     (case map_of (ts_connections ts) fd of
        None \<Rightarrow> ts
      | Some _ \<Rightarrow>
          let conns = hmap_erase (ts_connections ts) fd in
          ts\<lparr>ts_connections := conns,
             ts_hasTLSConnections := (if conns = [] then False else ts_hasTLSConnections ts)\<rparr>)"

definition clear_tls :: "tls_state \<Rightarrow> tls_state" where
  "clear_tls ts = ts\<lparr>ts_connections := [], ts_contexts := [], ts_hasTLSConnections := False\<rparr>"

section \<open>Reachable tables\<close>

datatype tls_event =
    Create ssl_env int config bool string
  | Progress handshake int
  | Remove int
  | Clear

fun tls_step :: "tls_event \<Rightarrow> tls_state \<Rightarrow> tls_state" where
  "tls_step (Create env fd settings serverMode serverName) ts = snd (createTLSConnection env fd settings serverMode serverName ts)"
| "tls_step (Progress answer fd) ts = snd (progressConnection answer fd ts)"
| "tls_step (Remove fd) ts = removeConnection fd ts"
| "tls_step Clear ts = clear_tls ts"

definition tls_run :: "tls_event list \<Rightarrow> tls_state" where
  "tls_run evs = foldl (\<lambda>ts ev. tls_step ev ts) no_tls evs"

text \<open>The policy the settings ask for.\<close>

definition verify_policy :: "config \<Rightarrow> bool \<Rightarrow> verify_mode" where
  "verify_policy settings serverMode =
     (if serverMode \<and> getBool TLS_REQUIRE_CLIENT_CERT settings then SSL_VERIFY_PEER_FAIL_IF_NO_PEER_CERT
      else if getBool TLS_VERIFY_PEER settings then SSL_VERIFY_PEER else SSL_VERIFY_NONE)"

definition context_for :: "bool \<Rightarrow> config \<Rightarrow> tls_context \<Rightarrow> bool" where
  "context_for serverMode settings ctx \<longleftrightarrow> ctx_verify ctx = verify_policy settings serverMode
     \<and> (serverMode \<longrightarrow> ctx_cert ctx \<noteq> [] \<and> ctx_key ctx \<noteq> [])"

text \<open>The cache holds contexts under keys of settings they suit, and the flag that lets the fast path
  skip the table is set exactly when the table has entries.\<close>

definition contexts_ok :: "(string, tls_context) hmap \<Rightarrow> bool" where
  "contexts_ok m \<longleftrightarrow> (\<forall>k ctx. map_of m k = Some ctx \<longrightarrow>
     (\<exists>serverMode settings. k = getTLSContextKey settings serverMode \<and> context_for serverMode settings ctx))"

definition tls_ok :: "tls_state \<Rightarrow> bool" where
  "tls_ok ts \<longleftrightarrow> ts_hasTLSConnections ts = (ts_connections ts \<noteq> []) \<and> contexts_ok (ts_contexts ts)"

lemma contexts_ok_set: "contexts_ok m \<Longrightarrow> context_for serverMode settings ctx
    \<Longrightarrow> contexts_ok (hmap_set m (getTLSContextKey settings serverMode) ctx)"
  by (auto simp: contexts_ok_def)

lemma created_context: "createTLSContext env settings serverMode = Some ctx \<Longrightarrow> context_for serverMode settings ctx"
  by (auto simp: createTLSContext_def Let_def context_for_def verify_policy_def split: if_splits)

lemma show_bool_single: "\<exists>c. show_bool b = [c]" "show_bool a = show_bool b \<longleftrightarrow> a = b"
  by (simp_all add: show_bool_def)

text \<open>A key determines the mode and the two flags, whatever the names in between.\<close>

lemma key_determines_policy:
  assumes "getTLSContextKey s1 m1 = getTLSContextKey s2 m2"
  shows "m1 = m2 \<and> getBool TLS_VERIFY_PEER s1 = getBool TLS_VERIFY_PEER s2
    \<and> getBool TLS_REQUIRE_CLIENT_CERT s1 = getBool TLS_REQUIRE_CLIENT_CERT s2"
proof -
  have key: "getTLSContextKey s m = ((if m then CHR ''S'' else CHR ''C'') # CHR '':'' # getSessionID s @ '':''
       @ getString TLS_CA_FILE s @ '':'' @ getString TLS_CERT_FILE s @ '':'' @ getString TLS_KEY_FILE s @ '':'')
       @ [hd (show_bool (getBool TLS_VERIFY_PEER s)), CHR '':'', hd (show_bool (getBool TLS_REQUIRE_CLIENT_CERT s))]" for s m
    by (simp add: getTLSContextKey_def show_bool_def)
  from assms[unfolded key] show ?thesis
    by (simp add: show_bool_def split: if_splits)
qed

lemma context_for_key:
  "getTLSContextKey s1 m1 = getTLSContextKey s2 m2 \<Longrightarrow> context_for m1 s1 ctx = context_for m2 s2 ctx"
  using key_determines_policy[of s1 m1 s2 m2] by (simp add: context_for_def verify_policy_def)

lemma getTLSContext_ok:
  assumes "tls_ok ts" "getTLSContext env settings serverMode ts = (r, ts')"
  shows "tls_ok ts' \<and> ts_connections ts' = ts_connections ts \<and> ts_hasTLSConnections ts' = ts_hasTLSConnections ts
    \<and> (\<forall>ctx. r = Some ctx \<longrightarrow> context_for serverMode settings ctx)"
proof (cases "map_of (ts_contexts ts) (getTLSContextKey settings serverMode)")
  case (Some ctx)
  with assms(1) obtain m s where "getTLSContextKey settings serverMode = getTLSContextKey s m" "context_for m s ctx"
    unfolding tls_ok_def contexts_ok_def by blast
  then have "context_for serverMode settings ctx" using context_for_key by blast
  with Some assms show ?thesis by (auto simp: getTLSContext_def)
next
  case None
  show ?thesis
  proof (cases "createTLSContext env settings serverMode")
    case (Some ctx)
    with None assms created_context[OF Some] contexts_ok_set[OF _ created_context[OF Some]] show ?thesis
      by (auto simp: getTLSContext_def tls_ok_def)
  qed (use None assms in \<open>auto simp: getTLSContext_def\<close>)
qed

lemma update_ne [simp]: "hmap_set m k v \<noteq> []"
  by (cases m) (auto simp: hmap_set_def)

lemma create_ok:
  assumes "tls_ok ts" "createTLSConnection env fd settings serverMode serverName ts = (r, ts')"
  shows "tls_ok ts' \<and> (if r then \<exists>ctx. context_for serverMode settings ctx
      \<and> map_of (ts_connections ts') fd = Some \<lparr>tls_ctx = ctx, tls_serverMode = serverMode,
          tls_serverName = (if serverMode then [] else serverName),
          tls_verifyTarget = (if \<not> serverMode \<and> getBool TLS_VERIFY_PEER settings \<and> serverName \<noteq> [] then Some serverName else None),
          tls_ready = False\<rparr>
      else ts_connections ts' = ts_connections ts)"
proof -
  obtain c ts1 where g: "getTLSContext env settings serverMode ts = (c, ts1)" by force
  note ok = getTLSContext_ok[OF assms(1) g]
  show ?thesis
  proof (cases c)
    case None
    with g ok assms(2) show ?thesis by (auto simp: createTLSConnection_def)
  next
    case (Some ctx)
    with g ok assms(2) show ?thesis
      by (auto simp: createTLSConnection_def Let_def tls_ok_def split: if_splits)
  qed
qed

lemma tls_step_ok: "tls_ok ts \<Longrightarrow> tls_ok (tls_step ev ts)"
proof (cases ev)
  case (Create env fd settings serverMode serverName)
  assume "tls_ok ts"
  with Create create_ok show ?thesis
    by (cases "createTLSConnection env fd settings serverMode serverName ts") auto
qed (auto simp: tls_ok_def progressConnection_def removeConnection_def clear_tls_def Let_def contexts_ok_def[of "[]"]
    split: option.splits handshake.splits)

lemma tls_run_ok: "tls_ok (tls_run evs)"
proof -
  have "tls_ok (foldl (\<lambda>ts ev. tls_step ev ts) ts evs)" if "tls_ok ts" for ts
    using that by (induction evs arbitrary: ts) (simp_all add: tls_step_ok)
  moreover have "tls_ok no_tls" by (simp add: no_tls_def tls_ok_def contexts_ok_def)
  ultimately show ?thesis unfolding tls_run_def by blast
qed

lemma hasTLS_iff: "tls_ok ts \<Longrightarrow> hasTLS fd ts \<longleftrightarrow> map_of (ts_connections ts) fd \<noteq> None"
  by (auto simp: hasTLS_def tls_ok_def)

lemma tls_step_keeps:
  assumes "tls_ok ts" "hasTLS fd ts" "ev \<noteq> Clear" "ev \<noteq> Remove fd"
  shows "hasTLS fd (tls_step ev ts)"
proof -
  have old: "map_of (ts_connections ts) fd \<noteq> None" using assms(1,2) by (simp add: hasTLS_iff)
  have "map_of (ts_connections (tls_step ev ts)) fd \<noteq> None"
  proof (cases ev)
    case (Create env fd1 settings serverMode serverName)
    obtain r ts1 where c: "createTLSConnection env fd1 settings serverMode serverName ts = (r, ts1)" by force
    moreover obtain x ts2 where g: "getTLSContext env settings serverMode ts = (x, ts2)" by force
    ultimately show ?thesis using Create old getTLSContext_ok[OF assms(1) g]
      by (auto simp: createTLSConnection_def Let_def split: option.splits if_splits)
  next
    case (Progress answer fd1)
    with old show ?thesis by (auto simp: progressConnection_def split: option.splits handshake.splits)
  next
    case (Remove fd1)
    with old assms(4) show ?thesis by (auto simp: removeConnection_def Let_def split: option.splits)
  qed (use assms(3) in simp)
  with tls_step_ok[OF assms(1)] show ?thesis by (simp add: hasTLS_iff)
qed

lemma tls_steps_keep:
  "tls_ok ts \<Longrightarrow> hasTLS fd ts \<Longrightarrow> Clear \<notin> set evs \<Longrightarrow> Remove fd \<notin> set evs \<Longrightarrow>
     hasTLS fd (foldl (\<lambda>ts ev. tls_step ev ts) ts evs)"
  by (induction evs arbitrary: ts) (auto simp: tls_step_ok tls_step_keeps)

text \<open>With TLS the plain socket's answers play no role.\<close>

lemma hasTLS_private:
  assumes "hasTLS fd ts"
  shows "readConnection recv ssl fd ts = readConnection recv' ssl fd ts"
    "writeConnection snd_answer wssl fd ts = writeConnection snd_answer' wssl fd ts"
    "requiresConnectionProgress fd ts \<Longrightarrow> readConnection recv ssl fd ts = WouldBlock"
    "requiresConnectionProgress fd ts \<Longrightarrow> writeConnection snd_answer wssl fd ts = NotReady"
  using assms by (auto simp: hasTLS_def readConnection_def writeConnection_def requiresConnectionProgress_def split: if_splits)

text \<open>Nor do they in a flush, which leaves the connection to OpenSSL, and before the handshake is finished
  a flush writes nothing, fires nothing and loses nothing.\<close>

lemma flush_tls_waits: "list_all (\<lambda>a. a = NotReady) as \<Longrightarrow> flush_tls as wb = ([], [], wb)"
  by (cases as) (simp_all split: list.split)

lemma hasTLS_flush:
  assumes "hasTLS fd ts"
  shows "flushWrite (hasTLS fd ts) writev (map (\<lambda>a. writeConnection plain a fd ts) ssl) wb =
      flushWrite (hasTLS fd ts) writev' (map (\<lambda>a. writeConnection plain' a fd ts) ssl) wb"
    and "requiresConnectionProgress fd ts \<Longrightarrow>
      flushWrite (hasTLS fd ts) writev (map (\<lambda>a. writeConnection plain a fd ts) ssl) wb = ([], [], swap_in wb)"
    and "fst (connection_send (hasTLS fd ts) free a fd e bufs) = []"
proof -
  have "writeConnection plain x fd ts = writeConnection plain' x fd ts" for x
    by (rule hasTLS_private(2)[OF assms])
  then show "flushWrite (hasTLS fd ts) writev (map (\<lambda>a. writeConnection plain a fd ts) ssl) wb =
      flushWrite (hasTLS fd ts) writev' (map (\<lambda>a. writeConnection plain' a fd ts) ssl) wb"
    using assms by (simp add: flushWrite_def Let_def)
  assume "requiresConnectionProgress fd ts"
  from hasTLS_private(4)[OF assms this]
  have "list_all (\<lambda>a. a = NotReady) (map (\<lambda>a. writeConnection plain a fd ts) ssl)" by (simp add: list_all_iff)
  then show "flushWrite (hasTLS fd ts) writev (map (\<lambda>a. writeConnection plain a fd ts) ssl) wb = ([], [], swap_in wb)"
    using assms by (simp add: flushWrite_def Let_def flush_tls_waits)
qed (use assms in \<open>simp add: connection_send_def\<close>)

section \<open>Properties\<close>

text \<open>C19: a connection for which TLS was set up gets the verification its own settings ask for, even
  though contexts are shared through a cache whose keys are ambiguous texts: an acceptor that
  requires client certificates never gets a context that does not, and an initiator that verifies
  its peer checks the name it connects to.\<close>

theorem tls_policy_enforced:
  assumes "createTLSConnection env fd settings serverMode serverName (tls_run evs) = (True, ts)"
  shows "\<exists>conn. map_of (ts_connections ts) fd = Some conn \<and> \<not> tls_ready conn
    \<and> ctx_verify (tls_ctx conn) = verify_policy settings serverMode
    \<and> (serverMode \<longrightarrow> ctx_cert (tls_ctx conn) \<noteq> [] \<and> ctx_key (tls_ctx conn) \<noteq> [])
    \<and> (\<not> serverMode \<and> getBool TLS_VERIFY_PEER settings \<and> serverName \<noteq> [] \<longrightarrow> tls_verifyTarget conn = Some serverName)"
  using create_ok[OF tls_run_ok assms] by (auto simp: context_for_def)

definition demo_ssl :: ssl_env where
  "demo_ssl = \<lparr>ssl_ctx_new = True, ssl_load_verify_locations = (\<lambda>_. True), ssl_set_default_verify_paths = True,
     ssl_use_certificate_file = (\<lambda>_. True), ssl_use_private_key_file = (\<lambda>_. True), ssl_check_private_key = (\<lambda>_ _. True),
     ssl_new = True, ssl_set_fd = (\<lambda>_. True), ssl_get0_param = True, ssl_set1_ip_asc = (\<lambda>_. False), ssl_set1_host = (\<lambda>_. True)\<rparr>"

definition demo_tls_settings :: config where
  "demo_tls_settings = setBool TLS_ENABLED True (setString TLS_CERT_FILE ''c'' (setString TLS_KEY_FILE ''k''
     (setBool TLS_REQUIRE_CLIENT_CERT True
       \<lparr>cfg_strings = replicate 12 [], cfg_longs = [], cfg_bools = replicate 13 False, cfg_doubles = []\<rparr>)))"

lemma demo_tls_gets:
  "getString TLS_CA_FILE demo_tls_settings = []" "getString TLS_CERT_FILE demo_tls_settings = ''c''"
  "getString TLS_KEY_FILE demo_tls_settings = ''k''" "getBool TLS_ENABLED demo_tls_settings"
  "\<not> getBool TLS_VERIFY_PEER demo_tls_settings" "getBool TLS_REQUIRE_CLIENT_CERT demo_tls_settings"
  by (simp_all add: demo_tls_settings_def setBool_def setString_def getBool_def getString_def)

definition demo_tls_created :: "bool \<times> tls_state" where
  "demo_tls_created = createTLSConnection demo_ssl 5 demo_tls_settings True [] (tls_run [])"

lemma demo_tls_created: "fst demo_tls_created" "ts_hasTLSConnections (snd demo_tls_created)"
    "map_option tls_ready (map_of (ts_connections (snd demo_tls_created)) 5) = Some False"
    "map_of (ts_connections (snd demo_tls_created)) 6 = None"
  by (simp_all add: demo_tls_created_def tls_run_def no_tls_def createTLSConnection_def getTLSContext_def createTLSContext_def
      demo_tls_gets demo_ssl_def Let_def)

lemma tls_policy_enforced_witness:
  "\<exists>conn. map_of (ts_connections (snd demo_tls_created)) 5 = Some conn
    \<and> ctx_verify (tls_ctx conn) = SSL_VERIFY_PEER_FAIL_IF_NO_PEER_CERT"
proof -
  have "createTLSConnection demo_ssl 5 demo_tls_settings True [] (tls_run []) = (True, snd demo_tls_created)"
    using demo_tls_created(1) by (simp add: prod_eq_iff flip: demo_tls_created_def)
  from tls_policy_enforced[OF this] show ?thesis by (auto simp: verify_policy_def demo_tls_gets)
qed

text \<open>C20: once TLS was set up for a descriptor, nothing of it is read or written in the clear until the
  connection is removed, whatever happens to it and to the others in between. What a read returns,
  what a write does and what a flush of its queue puts on the wire, fires and keeps do not depend on
  what \<open>recv\<close>, \<open>send\<close> or \<open>::writev\<close> on the plain socket would answer, and a message handed to a
  connection made for it is not sent inline. Before the handshake is finished nothing is read and
  nothing is written, and a flush keeps all it had.\<close>

theorem never_in_the_clear:
  assumes "createTLSConnection env fd settings serverMode serverName (tls_run evs) = (True, ts)"
    and "Clear \<notin> set later" "Remove fd \<notin> set later"
    and "ts' = foldl (\<lambda>ts ev. tls_step ev ts) ts later"
  shows "(\<forall>recv recv' ssl. readConnection recv ssl fd ts' = readConnection recv' ssl fd ts')
    \<and> (\<forall>plain plain' ssl. writeConnection plain ssl fd ts' = writeConnection plain' ssl fd ts')
    \<and> (\<forall>writev writev' plain plain' ssl (wb :: 'cb write_buffer).
         flushWrite (hasTLS fd ts') writev (map (\<lambda>a. writeConnection plain a fd ts') ssl) wb =
         flushWrite (hasTLS fd ts') writev' (map (\<lambda>a. writeConnection plain' a fd ts') ssl) wb)
    \<and> (\<forall>free a e (bufs :: 'cb write_buffers). fst (connection_send (hasTLS fd ts') free a fd e bufs) = [])
    \<and> (requiresConnectionProgress fd ts' \<longrightarrow>
         (\<forall>recv ssl. readConnection recv ssl fd ts' = WouldBlock) \<and> (\<forall>plain ssl. writeConnection plain ssl fd ts' = NotReady)
         \<and> (\<forall>writev plain ssl (wb :: 'cb write_buffer).
              flushWrite (hasTLS fd ts') writev (map (\<lambda>a. writeConnection plain a fd ts') ssl) wb = ([], [], swap_in wb)))"
proof -
  note ok = create_ok[OF tls_run_ok assms(1)]
  then have "hasTLS fd ts" by (auto simp: hasTLS_iff)
  with tls_steps_keep[OF _ this assms(2,3)] ok have h: "hasTLS fd ts'" by (simp add: assms(4))
  show ?thesis by (intro conjI allI impI; (rule hasTLS_private[OF h] hasTLS_flush[OF h]; assumption?))
qed

lemma never_in_the_clear_witness:
  "requiresConnectionProgress 5 (tls_step (Remove 6) (snd demo_tls_created))
   \<and> readConnection (Bytes ''8=FIX'') WantRead 5 (tls_step (Remove 6) (snd demo_tls_created)) = WouldBlock
   \<and> flushWrite (hasTLS 5 (tls_step (Remove 6) (snd demo_tls_created))) (Wrote 2)
       (map (\<lambda>a. writeConnection (Wrote 2) a 5 (tls_step (Remove 6) (snd demo_tls_created))) [Encrypted 2])
       (new_buffer\<lparr>wb_queue := [demo_entry ''ab'' 1]\<rparr>) = ([], [], new_buffer\<lparr>wb_drain := [demo_entry ''ab'' 1]\<rparr>)"
proof -
  let ?ts = "snd demo_tls_created"
  have c: "createTLSConnection demo_ssl 5 demo_tls_settings True [] (tls_run []) = (True, ?ts)"
    using demo_tls_created(1) by (simp add: prod_eq_iff flip: demo_tls_created_def)
  have r: "requiresConnectionProgress 5 (tls_step (Remove 6) ?ts)"
    using demo_tls_created(2,3,4)
    by (auto simp: requiresConnectionProgress_def removeConnection_def Let_def hmap_erase_def split: option.splits)
  let ?t = "tls_step (Remove 6) ?ts" and ?b = "new_buffer\<lparr>wb_queue := [demo_entry ''ab'' 1]\<rparr>"
  have "Clear \<notin> set [Remove 6]" "Remove 5 \<notin> set [Remove 6]" "?t = foldl (\<lambda>ts ev. tls_step ev ts) ?ts [Remove 6]"
    by simp_all
  note n = never_in_the_clear[OF c this, where 'cb = nat]
  have read: "readConnection (Bytes ''8=FIX'') WantRead 5 ?t = WouldBlock" using n r by blast
  have "flushWrite (hasTLS 5 ?t) (Wrote 2) (map (\<lambda>a. writeConnection (Wrote 2) a 5 ?t) [Encrypted 2]) ?b = ([], [], swap_in ?b)"
    using n r by blast
  also have "swap_in ?b = new_buffer\<lparr>wb_drain := [demo_entry ''ab'' 1]\<rparr>" by (simp add: swap_in_def new_buffer_def)
  finally show ?thesis using r read by blast
qed

end
