(* ===== verification/NetworkCore.thy ===== *)
theory NetworkCore
  imports Tls NetworkHandler
begin

text \<open>
  \<open>Network\<close>, \<open>Acceptor\<close> and the tables of \<open>ReaderThread\<close> of \<^verbatim>\<open>src/Network.h\<close> and
  \<^verbatim>\<open>src/Network.cpp\<close>. Shared objects are referred to by number: handlers (\<open>shared_ptr<NetworkHandler>\<close>)
  and acceptors (\<open>shared_ptr<Acceptor>\<close>). What the operating system answers to \<open>socket\<close>, \<open>bind\<close>,
  \<open>accept\<close>, \<open>connect\<close>, \<open>recv\<close> and \<open>writev\<close> is an argument of the operations. The descriptors that are
  closed, the messages handed to sessions and the bytes written are recorded in order.
\<close>

section \<open>State\<close>

datatype 'cb net_event =
    Closed int
  | Deliver nat string
  | Ticked nat
  | Wire int string
  | Fired 'cb

record 'cb endpoint =
  ep_handler :: "'cb network_handler"
  ep_fd :: int

record 'cb reader =
  rd_running :: bool
  rd_acceptorSockets :: "(int, nat) hmap"
  rd_unknownConnections :: "(int, nat) hmap"
  rd_connections :: "(int, nat) hmap"
  rd_buffer :: read_buffer
  rd_writeBuffers :: "'cb write_buffers"

record 'cb network =
  n_running :: bool
  n_acceptors :: "(int, int) hmap"
  n_readerThreadCount :: nat
  n_readers :: "'cb reader list"
  n_tls :: tls_state
  n_sessions :: "(string, nat) hmap list"
  n_endpoints :: "nat \<Rightarrow> 'cb endpoint"
  n_trace :: "'cb net_event list"

text \<open>What does not change while the network runs: the settings of the handlers' sessions, and which
  session the iteration over an acceptor's table meets first.\<close>

record net_env =
  ne_settings :: "nat \<Rightarrow> config"
  ne_begin :: "(string, nat) hmap \<Rightarrow> string \<times> nat"

definition new_reader :: "'cb reader" where
  "new_reader = \<lparr>rd_running = True, rd_acceptorSockets = [], rd_unknownConnections = [], rd_connections = [],
     rd_buffer = [], rd_writeBuffers = []\<rparr>"

definition new_network :: "nat \<Rightarrow> 'cb network" where
  "new_network threads = \<lparr>n_running = False, n_acceptors = [], n_readerThreadCount = threads, n_readers = [],
     n_tls = no_tls, n_sessions = [], n_endpoints = (\<lambda>_. \<lparr>ep_handler = new_handler, ep_fd = 0\<rparr>), n_trace = []\<rparr>"

definition emit :: "'cb net_event list \<Rightarrow> 'cb network \<Rightarrow> 'cb network" where
  "emit evs net = net\<lparr>n_trace := n_trace net @ evs\<rparr>"

text \<open>The reader a descriptor belongs to, \<open>fd % m_readerThreadCount\<close>.\<close>

definition owner :: "int \<Rightarrow> 'cb network \<Rightarrow> nat" where
  "owner fd net = nat fd mod n_readerThreadCount net"

definition reader_at :: "nat \<Rightarrow> 'cb network \<Rightarrow> 'cb reader" where
  "reader_at i net = n_readers net ! i"

definition on_reader :: "nat \<Rightarrow> ('cb reader \<Rightarrow> 'cb reader) \<Rightarrow> 'cb network \<Rightarrow> 'cb network" where
  "on_reader i f net = net\<lparr>n_readers := (n_readers net)[i := f (n_readers net ! i)]\<rparr>"

definition on_handler :: "nat \<Rightarrow> ('cb network_handler \<Rightarrow> 'cb network_handler) \<Rightarrow> 'cb network \<Rightarrow> 'cb network" where
  "on_handler h f net = net\<lparr>n_endpoints := (n_endpoints net)(h := (n_endpoints net h)\<lparr>ep_handler := f (ep_handler (n_endpoints net h))\<rparr>)\<rparr>"

definition handler_connected :: "nat \<Rightarrow> 'cb network \<Rightarrow> bool" where
  "handler_connected h net = isConnected (ep_handler (n_endpoints net h))"

definition sessions_of :: "nat \<Rightarrow> 'cb network \<Rightarrow> (string, nat) hmap" where
  "sessions_of a net = n_sessions net ! a"

section \<open>ReaderThread: connections and acceptors\<close>

text \<open>\<open>addConnection\<close> gives the handler a new \<open>ConnectionHandle\<close> on the descriptor.\<close>

definition rd_addConnection :: "nat \<Rightarrow> int \<Rightarrow> nat \<Rightarrow> 'cb network \<Rightarrow> 'cb network" where
  "rd_addConnection h fd i net =
     (let net1 = on_handler h (setConnection True) net;
          net2 = net1\<lparr>n_endpoints := (n_endpoints net1)(h := (n_endpoints net1 h)\<lparr>ep_fd := fd\<rparr>)\<rparr>
      in on_reader i (\<lambda>r. r\<lparr>rd_connections := hmap_set (rd_connections r) fd h\<rparr>) net2)"

definition rd_accept :: "int \<Rightarrow> nat \<Rightarrow> nat \<Rightarrow> 'cb network \<Rightarrow> 'cb network" where
  "rd_accept fd a i net = on_reader i (\<lambda>r. r\<lparr>rd_unknownConnections := hmap_set (rd_unknownConnections r) fd a\<rparr>) net"

definition rd_hasAcceptor :: "string \<Rightarrow> int \<Rightarrow> nat \<Rightarrow> 'cb network \<Rightarrow> bool" where
  "rd_hasAcceptor sessionID fd i net =
     (case map_of (rd_acceptorSockets (reader_at i net)) fd of
        Some a \<Rightarrow> map_of (sessions_of a net) sessionID \<noteq> None
      | None \<Rightarrow> False)"

definition add_session :: "string \<Rightarrow> nat \<Rightarrow> nat \<Rightarrow> 'cb network \<Rightarrow> 'cb network" where
  "add_session sessionID h a net = net\<lparr>n_sessions := (n_sessions net)[a := hmap_set (sessions_of a net) sessionID h]\<rparr>"

definition rd_addAcceptor :: "nat \<Rightarrow> string \<Rightarrow> int \<Rightarrow> nat \<Rightarrow> 'cb network \<Rightarrow> 'cb network" where
  "rd_addAcceptor h sessionID fd i net =
     (case map_of (rd_acceptorSockets (reader_at i net)) fd of
        Some a \<Rightarrow> add_session sessionID h a net
      | None \<Rightarrow>
          let a = length (n_sessions net);
              net1 = net\<lparr>n_sessions := n_sessions net @ [[]]\<rparr>;
              net2 = on_reader i (\<lambda>r. r\<lparr>rd_acceptorSockets := hmap_emplace (rd_acceptorSockets r) fd a\<rparr>) net1
          in add_session sessionID h a net2)"

definition rd_removeAcceptor :: "string \<Rightarrow> int \<Rightarrow> nat \<Rightarrow> 'cb network \<Rightarrow> bool \<times> 'cb network" where
  "rd_removeAcceptor sessionID fd i net =
     (case map_of (rd_acceptorSockets (reader_at i net)) fd of
        None \<Rightarrow> (True, net)
      | Some a \<Rightarrow>
          let net1 = net\<lparr>n_sessions := (n_sessions net)[a := hmap_erase (sessions_of a net) sessionID]\<rparr>
          in if sessions_of a net1 = []
             then (True, on_reader i (\<lambda>r. r\<lparr>rd_acceptorSockets := hmap_erase (rd_acceptorSockets r) fd\<rparr>) net1)
             else (False, net1))"

definition rd_disconnect :: "int \<Rightarrow> nat \<Rightarrow> 'cb network \<Rightarrow> 'cb network" where
  "rd_disconnect fd i net =
     (let net1 = emit [Closed fd] (net\<lparr>n_tls := removeConnection fd (n_tls net)\<rparr>);
          net2 = on_reader i (\<lambda>r. r\<lparr>rd_buffer := rb_clear fd (rd_buffer r)\<rparr>) net1;
          net3 = (case map_of (rd_connections (reader_at i net2)) fd of
                    Some h \<Rightarrow> on_reader i (\<lambda>r. r\<lparr>rd_connections := hmap_erase (rd_connections r) fd\<rparr>) (on_handler h invalidate net2)
                  | None \<Rightarrow>
                      if map_of (rd_unknownConnections (reader_at i net2)) fd \<noteq> None
                      then on_reader i (\<lambda>r. r\<lparr>rd_unknownConnections := hmap_erase (rd_unknownConnections r) fd\<rparr>) net2
                      else net2)
      in on_reader i (\<lambda>r. r\<lparr>rd_writeBuffers := hmap_erase (rd_writeBuffers r) fd\<rparr>) net3)"

text \<open>\<open>stop\<close>: every descriptor of the reader is closed, the connected handlers are invalidated.\<close>

definition close_all :: "int list \<Rightarrow> 'cb network \<Rightarrow> 'cb network" where
  "close_all fds net = foldl (\<lambda>net fd. emit [Closed fd] (net\<lparr>n_tls := removeConnection fd (n_tls net)\<rparr>)) net fds"

definition rd_stop :: "nat \<Rightarrow> 'cb network \<Rightarrow> 'cb network" where
  "rd_stop i net =
     (let r = reader_at i net;
          net1 = foldl (\<lambda>net (fd, h). on_handler h invalidate (close_all [fd] net)) net (rd_connections r);
          net2 = close_all (map fst (rd_unknownConnections r)) net1;
          net3 = close_all (map fst (rd_acceptorSockets r)) net2
      in on_reader i (\<lambda>r. r\<lparr>rd_running := False, rd_connections := [], rd_unknownConnections := [],
           rd_acceptorSockets := [], rd_writeBuffers := []\<rparr>) net3)"

section \<open>Network\<close>

definition net_start :: "'cb network \<Rightarrow> 'cb network" where
  "net_start net =
     (if n_running net then net
      else net\<lparr>n_running := True, n_readers := n_readers net @ replicate (n_readerThreadCount net) new_reader\<rparr>)"

definition net_stop :: "'cb network \<Rightarrow> 'cb network" where
  "net_stop net =
     (if \<not> n_running net then net
      else let net1 = foldl (\<lambda>net i. rd_stop i net) (net\<lparr>n_running := False\<rparr>) [0..<length (n_readers net)]
        in net1\<lparr>n_readers := [], n_tls := clear_tls (n_tls net1)\<rparr>)"

text \<open>One address of a host: what \<open>socket\<close>, \<open>fcntl\<close>, \<open>connect\<close>, \<open>poll\<close> and \<open>getsockopt\<close> answer.\<close>

datatype connect_answer = Immediately | Progressing bool bool | Refused

record address_answer =
  ad_socket :: "int option"
  ad_nonBlocking :: bool
  ad_connect :: connect_answer

fun try_addresses :: "address_answer list \<Rightarrow> int list \<times> int option" where
  "try_addresses [] = ([], None)"
| "try_addresses (ad # rest) =
     (case ad_socket ad of
        None \<Rightarrow> try_addresses rest
      | Some fd \<Rightarrow>
          if \<not> ad_nonBlocking ad then map_prod ((#) fd) id (try_addresses rest)
          else case ad_connect ad of
            Immediately \<Rightarrow> ([], Some fd)
          | Progressing polled ok \<Rightarrow>
              if polled \<and> ok then ([], Some fd) else map_prod ((#) fd) id (try_addresses rest)
          | Refused \<Rightarrow> map_prod ((#) fd) id (try_addresses rest))"

definition CONNECT_HOST :: "string config_item" where
  "CONNECT_HOST = fst (createString ''ConnectHost'' '''' (declared ''ConnectHost''))"

definition ACCEPT_PORT :: "int config_item" where
  "ACCEPT_PORT = fst (createLong ''AcceptPort'' 0 (declared ''AcceptPort''))"

text \<open>\<open>resolved\<close> is the answer of \<open>getaddrinfo\<close>.\<close>

definition net_connect ::
  "net_env \<Rightarrow> ssl_env \<Rightarrow> address_answer list option \<Rightarrow> nat \<Rightarrow> 'cb network \<Rightarrow> bool \<times> 'cb network" where
  "net_connect env ssl resolved h net =
     (let settings = ne_settings env h; hostname = getString CONNECT_HOST settings in
      if \<not> n_running net then (False, net)
      else case resolved of
        None \<Rightarrow> (False, net)
      | Some addresses \<Rightarrow>
          (case try_addresses addresses of
             (closed, None) \<Rightarrow> (False, emit (map Closed closed) net)
           | (closed, Some fd) \<Rightarrow>
               let net1 = emit (map Closed closed) net;
                   name = (if getString TLS_SERVER_NAME settings = [] then hostname else getString TLS_SERVER_NAME settings);
                   (ok, tls) = (if is_tls_enabled settings then createTLSConnection ssl fd settings False name (n_tls net1)
                                else (True, n_tls net1));
                   net2 = net1\<lparr>n_tls := tls\<rparr>
               in if \<not> ok then (False, emit [Closed fd] net2)
                  else (True, rd_addConnection h fd (owner fd net2) net2)))"

definition net_hasAcceptor :: "net_env \<Rightarrow> nat \<Rightarrow> 'cb network \<Rightarrow> bool" where
  "net_hasAcceptor env h net =
     (let settings = ne_settings env h in
      if \<not> n_running net then False
      else case map_of (n_acceptors net) (getLong ACCEPT_PORT settings) of
        Some fd \<Rightarrow> rd_hasAcceptor (getSessionID settings) fd (owner fd net) net
      | None \<Rightarrow> False)"

record listen_answer =
  la_socket :: "int option"
  la_reuse :: bool
  la_bind :: bool
  la_listen :: bool

definition net_addAcceptor :: "net_env \<Rightarrow> listen_answer \<Rightarrow> nat \<Rightarrow> 'cb network \<Rightarrow> bool \<times> 'cb network" where
  "net_addAcceptor env answer h net0 =
     (let settings = ne_settings env h; port = getLong ACCEPT_PORT settings in
      if \<not> n_running net0 then (False, net0)
      else let net = net0\<lparr>n_acceptors := hmap_emplace (n_acceptors net0) port 0\<rparr>;
               fd0 = the (map_of (n_acceptors net) port)
           in if fd0 \<noteq> 0 then (True, rd_addAcceptor h (getSessionID settings) fd0 (owner fd0 net) net)
              else case la_socket answer of
                None \<Rightarrow> (False, net)
              | Some fd \<Rightarrow>
                  if \<not> la_reuse answer \<or> \<not> la_bind answer \<or> \<not> la_listen answer then (False, emit [Closed fd] net)
                  else let net1 = net\<lparr>n_acceptors := hmap_set (n_acceptors net) port fd\<rparr>
                       in (True, rd_addAcceptor h (getSessionID settings) fd (owner fd net1) net1))"

definition net_removeAcceptor :: "net_env \<Rightarrow> nat \<Rightarrow> 'cb network \<Rightarrow> bool \<times> 'cb network" where
  "net_removeAcceptor env h net0 =
     (let settings = ne_settings env h; port = getLong ACCEPT_PORT settings in
      if \<not> n_running net0 then (False, net0)
      else let net = net0\<lparr>n_acceptors := hmap_emplace (n_acceptors net0) port 0\<rparr>;
               fd = the (map_of (n_acceptors net) port)
           in if fd = 0 then (False, net)
              else case rd_removeAcceptor (getSessionID settings) fd (owner fd net) net of
                (wasLastSession, net1) \<Rightarrow>
                  (True, if wasLastSession
                     then emit [Closed fd] (net1\<lparr>n_acceptors := hmap_erase (n_acceptors net1) port\<rparr>) else net1))"

record accept_answer =
  aa_fd :: "int option"
  aa_nonBlocking :: bool
  aa_address :: bool

definition net_accept :: "net_env \<Rightarrow> ssl_env \<Rightarrow> accept_answer \<Rightarrow> nat \<Rightarrow> 'cb network \<Rightarrow> bool \<times> 'cb network" where
  "net_accept env ssl answer a net =
     (case aa_fd answer of
        None \<Rightarrow> (False, net)
      | Some fd \<Rightarrow>
          if \<not> aa_nonBlocking answer \<or> \<not> aa_address answer then (False, emit [Closed fd] net)
          else
            let sessions = sessions_of a net;
                settings = ne_settings env (snd (ne_begin env sessions));
                (ok, tls) = (if sessions \<noteq> [] \<and> is_tls_enabled settings
                  then createTLSConnection ssl fd settings True [] (n_tls net) else (True, n_tls net));
                net1 = net\<lparr>n_tls := tls\<rparr>
            in if \<not> ok then (False, emit [Closed fd] net1)
               else (True, rd_accept fd a (owner fd net1) net1))"

section \<open>Reading\<close>

definition SENDER_COMP_ID_PATTERN :: string where "SENDER_COMP_ID_PATTERN = buildTagPattern 49"
definition TARGET_COMP_ID_PATTERN :: string where "TARGET_COMP_ID_PATTERN = buildTagPattern 56"

text \<open>The counterparty named by the first message of a connection, from this side's view: the value of
  TargetCompID and that of the SenderCompID before it.\<close>

definition counterparty :: "string \<Rightarrow> string option" where
  "counterparty msg =
     (case getTagValue msg SENDER_COMP_ID_PATTERN 0 of
        (_, None) \<Rightarrow> None
      | (sender_comp, Some e) \<Rightarrow>
          if sender_comp = [] then None
          else case getTagValue msg TARGET_COMP_ID_PATTERN e of
            (target_comp, _) \<Rightarrow> if target_comp = [] then None else Some (target_comp @ '':'' @ sender_comp))"

text \<open>What the successive reads of one call see, through TLS where the descriptor has it.\<close>

definition reads :: "(read_result \<times> ssl_read) list \<Rightarrow> int \<Rightarrow> tls_state \<Rightarrow> read_result list" where
  "reads answers fd ts = map (\<lambda>(recv, ssl). readConnection recv ssl fd ts) answers"

definition read_buffer_of ::
  "(read_result \<times> ssl_read) list \<Rightarrow> int \<Rightarrow> nat \<Rightarrow> 'cb network \<Rightarrow> (read_error + string list) \<times> 'cb network" where
  "read_buffer_of answers fd i net =
     (case rb_read fd (reads answers fd (n_tls net)) (rd_buffer (reader_at i net)) of
        (r, rb) \<Rightarrow> (r, on_reader i (\<lambda>x. x\<lparr>rd_buffer := rb\<rparr>) net))"

text \<open>The first messages of a connection that an acceptor took: they name the session, or the
  connection is closed.\<close>

definition assign_connection :: "string list \<Rightarrow> int \<Rightarrow> nat \<Rightarrow> nat \<Rightarrow> 'cb network \<Rightarrow> 'cb network" where
  "assign_connection msgs fd a i net0 =
     (let net = on_reader i (\<lambda>r. r\<lparr>rd_unknownConnections := hmap_erase (rd_unknownConnections r) fd\<rparr>) net0 in
      case counterparty (hd msgs) of
        None \<Rightarrow> emit [Closed fd] net
      | Some cpty \<Rightarrow>
          (case map_of (sessions_of a net) cpty of
             None \<Rightarrow> emit [Closed fd] net
           | Some h \<Rightarrow>
               if handler_connected h net then emit [Closed fd] net
               else emit (map (Deliver h) msgs) (rd_addConnection h fd i net)))"

definition processRead ::
  "net_env \<Rightarrow> ssl_env \<Rightarrow> (read_result \<times> ssl_read) list \<Rightarrow> accept_answer \<Rightarrow> int \<Rightarrow> nat \<Rightarrow> 'cb network
     \<Rightarrow> (read_error + unit) \<times> 'cb network" where
  "processRead env ssl answers accepted fd i net =
     (let r = reader_at i net in
      case map_of (rd_connections r) fd of
        Some h \<Rightarrow>
          (case read_buffer_of answers fd i net of
             (Inl e, net1) \<Rightarrow> (Inl e, net1)
           | (Inr msgs, net1) \<Rightarrow> (Inr (), emit (map (Deliver h) msgs) net1))
      | None \<Rightarrow>
          (case map_of (rd_acceptorSockets r) fd of
             Some a \<Rightarrow> (Inr (), snd (net_accept env ssl accepted a net))
           | None \<Rightarrow>
               (case map_of (rd_unknownConnections r) fd of
                  None \<Rightarrow> (Inr (), net)
                | Some a \<Rightarrow>
                    (case read_buffer_of answers fd i net of
                       (Inl e, net1) \<Rightarrow> (Inl e, net1)
                     | (Inr msgs, net1) \<Rightarrow>
                         (Inr (), if msgs = [] then net1 else assign_connection msgs fd a i net1)))))"

section \<open>Writing\<close>

text \<open>The write buffers of a reader, with TLS where the descriptor has it; writes before the handshake
  is finished are not ready.\<close>

definition tls_answers :: "ssl_write list \<Rightarrow> int \<Rightarrow> tls_state \<Rightarrow> write_answer list" where
  "tls_answers answers fd ts = map (\<lambda>a. writeConnection NotReady a fd ts) answers"

definition flush_answers :: "(int \<Rightarrow> write_answer) \<Rightarrow> (int \<Rightarrow> ssl_write list) \<Rightarrow> tls_state \<Rightarrow> int \<Rightarrow> write_answer list" where
  "flush_answers writev ssl ts fd = (if hasTLS fd ts then tls_answers (ssl fd) fd ts else [writev fd])"

definition rd_flushWrites ::
  "(int \<Rightarrow> write_answer) \<Rightarrow> (int \<Rightarrow> ssl_write list) \<Rightarrow> nat \<Rightarrow> 'cb network \<Rightarrow> 'cb network" where
  "rd_flushWrites writev ssl i net =
     (case flushWrites (\<lambda>fd. hasTLS fd (n_tls net)) (flush_answers writev ssl (n_tls net)) (rd_writeBuffers (reader_at i net)) of
        (out, bufs) \<Rightarrow>
          emit (concat (map (\<lambda>(fd, w, cbs). Wire fd w # map Fired cbs) out))
            (on_reader i (\<lambda>r. r\<lparr>rd_writeBuffers := bufs\<rparr>) net))"

definition rd_writable ::
  "(int \<Rightarrow> write_answer) \<Rightarrow> (int \<Rightarrow> ssl_write list) \<Rightarrow> int \<Rightarrow> nat \<Rightarrow> 'cb network \<Rightarrow> 'cb network" where
  "rd_writable writev ssl fd i net =
     (case flush_ready (hasTLS fd (n_tls net)) (flush_answers writev ssl (n_tls net) fd) fd (rd_writeBuffers (reader_at i net)) of
        (w, cbs, bufs) \<Rightarrow> emit (Wire fd w # map Fired cbs) (on_reader i (\<lambda>r. r\<lparr>rd_writeBuffers := bufs\<rparr>) net))"

section \<open>One pass of the reader thread\<close>

text \<open>An event that \<open>epoll_wait\<close> reports: the wake-up of the event descriptor, or a descriptor with its
  mask and what the system calls made for it answer.\<close>

record io_answers =
  io_handshake :: handshake
  io_reads :: "(read_result \<times> ssl_read) list"
  io_accept :: accept_answer
  io_ssl :: ssl_env
  io_writev :: "int \<Rightarrow> write_answer"
  io_ssl_write :: "int \<Rightarrow> ssl_write list"

datatype mask_bit = EPOLLERR | EPOLLHUP | EPOLLRDHUP | EPOLLIN | EPOLLOUT

datatype epoll_event = Wakeup | Ready int "mask_bit list"

definition rd_event :: "net_env \<Rightarrow> io_answers \<Rightarrow> epoll_event \<Rightarrow> nat \<Rightarrow> 'cb network \<Rightarrow> 'cb network" where
  "rd_event env io ev i net =
     (case ev of
        Wakeup \<Rightarrow> rd_flushWrites (io_writev io) (io_ssl_write io) i net
      | Ready fd bits \<Rightarrow>
          if EPOLLHUP \<in> set bits \<or> EPOLLRDHUP \<in> set bits then rd_disconnect fd i net
          else
            let progress = requiresConnectionProgress fd (n_tls net);
                (ok, tls) = (if progress then progressConnection (io_handshake io) fd (n_tls net) else (True, n_tls net));
                net1 = net\<lparr>n_tls := tls\<rparr>
            in if \<not> ok then rd_disconnect fd i net1
               else if progress \<and> requiresConnectionProgress fd (n_tls net1) then net1
               else
                 let net2 = (if EPOLLIN \<in> set bits
                       then snd (processRead env (io_ssl io) (io_reads io) (io_accept io) fd i net1) else net1)
                 in if EPOLLOUT \<in> set bits then rd_writable (io_writev io) (io_ssl_write io) fd i net2 else net2)"

text \<open>After the events of a pass every connected handler is ticked.\<close>

definition rd_tick :: "nat \<Rightarrow> 'cb network \<Rightarrow> 'cb network" where
  "rd_tick i net = emit (map (\<lambda>(_, h). Ticked h) (rd_connections (reader_at i net))) net"

definition rd_pass :: "net_env \<Rightarrow> (io_answers \<times> epoll_event) list \<Rightarrow> nat \<Rightarrow> 'cb network \<Rightarrow> 'cb network" where
  "rd_pass env evs i net = rd_tick i (foldl (\<lambda>net (io, ev). rd_event env io ev i net) net evs)"

section \<open>The handler's side\<close>

definition handler_disconnect :: "nat \<Rightarrow> 'cb network \<Rightarrow> 'cb network" where
  "handler_disconnect h net =
     (let e = n_endpoints net h; nh = ep_handler e; fd = ep_fd e;
          net1 = (if nh_connection nh \<and> nh_valid nh then rd_disconnect fd (owner fd net) net else net)
      in on_handler h disconnect net1)"

end
