(* ===== verification/NetworkProps.thy ===== *)
theory NetworkProps
  imports NetworkCore
begin

text \<open>
  What the network's tables guarantee: which session the first message of an accepted connection
  is given to, and what becomes of one that names none.
\<close>

section \<open>Frame rules\<close>

lemma on_reader_sel [simp]:
  "n_running (on_reader i f net) = n_running net" "n_acceptors (on_reader i f net) = n_acceptors net"
  "n_readerThreadCount (on_reader i f net) = n_readerThreadCount net" "n_tls (on_reader i f net) = n_tls net"
  "n_sessions (on_reader i f net) = n_sessions net" "n_endpoints (on_reader i f net) = n_endpoints net"
  "n_trace (on_reader i f net) = n_trace net" "length (n_readers (on_reader i f net)) = length (n_readers net)"
  "owner fd (on_reader i f net) = owner fd net" "sessions_of a (on_reader i f net) = sessions_of a net"
  "handler_connected h (on_reader i f net) = handler_connected h net"
  by (simp_all add: on_reader_def owner_def sessions_of_def handler_connected_def)

lemma reader_at_on [simp]:
  "i < length (n_readers net) \<Longrightarrow> reader_at i (on_reader i f net) = f (reader_at i net)"
  "i \<noteq> j \<Longrightarrow> reader_at i (on_reader j f net) = reader_at i net"
  by (simp_all add: reader_at_def on_reader_def)

lemma emit_sel [simp]:
  "n_running (emit evs net) = n_running net" "n_acceptors (emit evs net) = n_acceptors net"
  "n_readerThreadCount (emit evs net) = n_readerThreadCount net" "n_tls (emit evs net) = n_tls net"
  "n_sessions (emit evs net) = n_sessions net" "n_endpoints (emit evs net) = n_endpoints net"
  "n_trace (emit evs net) = n_trace net @ evs" "n_readers (emit evs net) = n_readers net"
  "owner fd (emit evs net) = owner fd net" "sessions_of a (emit evs net) = sessions_of a net"
  "reader_at i (emit evs net) = reader_at i net" "handler_connected h (emit evs net) = handler_connected h net"
  by (simp_all add: emit_def owner_def sessions_of_def reader_at_def handler_connected_def)

lemma on_handler_sel [simp]:
  "n_running (on_handler h f net) = n_running net" "n_acceptors (on_handler h f net) = n_acceptors net"
  "n_readerThreadCount (on_handler h f net) = n_readerThreadCount net" "n_tls (on_handler h f net) = n_tls net"
  "n_sessions (on_handler h f net) = n_sessions net" "n_readers (on_handler h f net) = n_readers net"
  "n_trace (on_handler h f net) = n_trace net"
  "owner fd (on_handler h f net) = owner fd net" "sessions_of a (on_handler h f net) = sessions_of a net"
  "reader_at i (on_handler h f net) = reader_at i net"
  by (simp_all add: on_handler_def owner_def sessions_of_def reader_at_def)

lemma rd_addConnection_sel:
  assumes "i < length (n_readers net)"
  shows "rd_connections (reader_at i (rd_addConnection h fd i net)) = hmap_set (rd_connections (reader_at i net)) fd h"
    "rd_unknownConnections (reader_at i (rd_addConnection h fd i net)) = rd_unknownConnections (reader_at i net)"
    "rd_acceptorSockets (reader_at i (rd_addConnection h fd i net)) = rd_acceptorSockets (reader_at i net)"
    "handler_connected h' (rd_addConnection h fd i net) = (h' = h \<or> handler_connected h' net)"
    "ep_fd (n_endpoints (rd_addConnection h fd i net) h) = fd"
    "n_trace (rd_addConnection h fd i net) = n_trace net" "n_tls (rd_addConnection h fd i net) = n_tls net"
    "sessions_of a (rd_addConnection h fd i net) = sessions_of a net"
  using assms
  by (simp_all add: rd_addConnection_def Let_def on_handler_def handler_connected_def setConnection_def isConnected_def
      reader_at_def on_reader_def sessions_of_def)

section \<open>The counterparty of a message\<close>

lemma find_field_skip:
  assumes "SOH \<notin> set a" "take (length pat) b \<noteq> pat"
  shows "find_sub (SOH # pat) (a @ SOH # b) = map_option (\<lambda>i. length a + Suc i) (find_sub (SOH # pat) b)"
  using find_sub_skip[OF assms(1), of pat "SOH # b"] assms(2)
  by (simp add: option.map_comp comp_def)

lemma getTagValue_at:
  assumes "find_sub (SOH # pat) s = Some k" "drop (k + length (SOH # pat)) s = v @ SOH # rest" "SOH \<notin> set v"
  shows "getTagValue s (SOH # pat) 0 = (v, Some (k + length (SOH # pat) + length v))"
proof -
  from find_sub_SomeD[OF assms(1)] have "k + length (SOH # pat) \<le> length s" by simp
  with assms find_sub_SOH[OF assms(3), of rest]
  have "str_find s [SOH] (k + length (SOH # pat)) = Some (k + length (SOH # pat) + length v)"
    by (simp add: str_find_def del: find_sub.simps)
  with assms show ?thesis
    unfolding getTagValue_Some_iff by (auto simp: str_find_def del: find_sub.simps)
qed

text \<open>The start of a message whose header names the sender before the target.\<close>

definition addressed :: "string \<Rightarrow> string \<Rightarrow> string \<Rightarrow> string \<Rightarrow> string \<Rightarrow> string \<Rightarrow> string" where
  "addressed v n t sender target rest =
     ''8='' @ v @ SOH # ''9='' @ n @ SOH # ''35='' @ t @ SOH # ''49='' @ sender @ SOH # ''56='' @ target @ SOH # rest"

lemma comp_patterns: "SENDER_COMP_ID_PATTERN = SOH # ''49=''" "TARGET_COMP_ID_PATTERN = SOH # ''56=''"
  by code_simp+

lemma counterparty_addressed:
  assumes "SOH \<notin> set v" "SOH \<notin> set n" "SOH \<notin> set t" "SOH \<notin> set sender" "SOH \<notin> set target"
    "sender \<noteq> []" "target \<noteq> []"
  shows "counterparty (addressed v n t sender target rest) = Some (target @ '':'' @ sender)"
proof -
  let ?m = "addressed v n t sender target rest"
  define a where "a = ''8='' @ v @ SOH # ''9='' @ n @ SOH # ''35='' @ t"
  have m: "?m = a @ SOH # ''49='' @ sender @ SOH # ''56='' @ target @ SOH # rest"
    by (simp add: a_def addressed_def)
  have f: "find_sub (SOH # ''49='') ?m = Some (length a)"
    using find_field_skip[of "''8='' @ v" "''49=''" "''9='' @ n @ SOH # ''35='' @ t @ SOH # ''49='' @ sender @ SOH # ''56='' @ target @ SOH # rest"]
      find_field_skip[of "''9='' @ n" "''49=''" "''35='' @ t @ SOH # ''49='' @ sender @ SOH # ''56='' @ target @ SOH # rest"]
      find_sub_skip[of "''35='' @ t" "''49=''" "SOH # ''49='' @ sender @ SOH # ''56='' @ target @ SOH # rest"]
      find_sub_prefix[of "SOH # ''49=''" "sender @ SOH # ''56='' @ target @ SOH # rest"] assms(1-3)
    by (simp add: addressed_def a_def del: find_sub.simps find_sub_prefix)
  have s: "getTagValue ?m SENDER_COMP_ID_PATTERN 0 = (sender, Some (length a + 4 + length sender))"
    unfolding comp_patterns using getTagValue_at[OF f, of sender "''56='' @ target @ SOH # rest"] assms(4)
    by (simp add: m)
  have t: "getTagValue ?m TARGET_COMP_ID_PATTERN (length a + 4 + length sender)
      = (target, Some (length a + 8 + length sender + length target))"
    unfolding comp_patterns
    using getTagValue_tag[of "[]" target "a @ SOH # ''49='' @ sender" "''56=''" rest] assms(5)
    by (simp add: m numeral_eq_Suc)
  show ?thesis using s t assms(6,7) by (simp add: counterparty_def)
qed

text \<open>The specification of a field's value: what stands between the first occurrence of the pattern and
  the next separator, with the text from that separator on.\<close>

fun value_after :: "string \<Rightarrow> string \<Rightarrow> (string \<times> string) option" where
  "value_after pat [] = None"
| "value_after pat (c # s) =
     (if take (length pat) (c # s) = pat
      then let v = drop (length pat) (c # s) in
        if SOH \<in> set v then Some (takeWhile (\<lambda>x. x \<noteq> SOH) v, dropWhile (\<lambda>x. x \<noteq> SOH) v) else None
      else value_after pat s)"

text \<open>The session a first message asks for, seen from this side: the values of its first SenderCompID and of
  the first TargetCompID after that, neither of them empty.\<close>

definition named_session :: "string \<Rightarrow> string option" where
  "named_session msg =
     (case value_after (SOH # ''49='') msg of
        None \<Rightarrow> None
      | Some (sender, rest) \<Rightarrow>
          if sender = [] then None
          else case value_after (SOH # ''56='') rest of
            None \<Rightarrow> None
          | Some (target, _) \<Rightarrow> if target = [] then None else Some (target @ '':'' @ sender))"

lemma value_after_find:
  "pat \<noteq> [] \<Longrightarrow> value_after pat s = (case find_sub pat s of
      None \<Rightarrow> None
    | Some k \<Rightarrow> let v = drop (k + length pat) s in
        if SOH \<in> set v then Some (takeWhile (\<lambda>x. x \<noteq> SOH) v, dropWhile (\<lambda>x. x \<noteq> SOH) v) else None)"
  by (induction pat s rule: value_after.induct) (auto simp: Let_def split: option.split)

lemma find_separator:
  "find_sub [SOH] v = (if SOH \<in> set v then Some (length (takeWhile (\<lambda>x. x \<noteq> SOH) v)) else None)"
  by (induction v) auto

lemma getTagValue_value:
  assumes "pat \<noteq> []"
  shows "getTagValue s pat 0 = (case value_after pat s of
      None \<Rightarrow> ([], None) | Some (v, rest) \<Rightarrow> (v, Some (length s - length rest)))"
    and "value_after pat s = Some (v, rest) \<Longrightarrow> s = take (length s - length rest) s @ rest \<and> length rest \<le> length s"
proof -
  have split: "length w - length (dropWhile p w) = length (takeWhile p w)" for p and w :: string
    by (metis add_diff_cancel_right' length_append takeWhile_dropWhile_id)
  have pos: "length s - length (dropWhile p (drop k s)) = k + length (takeWhile p (drop k s))" if "k \<le> length s" for k p
    using that split[of "drop k s" p] length_dropWhile_le[of p "drop k s"] by simp
  show "getTagValue s pat 0 = (case value_after pat s of
      None \<Rightarrow> ([], None) | Some (v, rest) \<Rightarrow> (v, Some (length s - length rest)))"
  proof (cases "find_sub pat s")
    case None
    then show ?thesis by (simp add: getTagValue_def str_find_def value_after_find[OF assms])
  next
    case (Some k)
    let ?k = "k + length pat"
    have le: "?k \<le> length s" using find_sub_SomeD[OF Some] by simp
    show ?thesis using Some le
      by (simp add: getTagValue_def str_find_def value_after_find[OF assms] find_separator pos Let_def takeWhile_eq_take[symmetric])
  qed
  show "s = take (length s - length rest) s @ rest \<and> length rest \<le> length s" if va: "value_after pat s = Some (v, rest)"
  proof -
    obtain k where k: "find_sub pat s = Some k" "rest = dropWhile (\<lambda>x. x \<noteq> SOH) (drop (k + length pat) s)"
      using va by (auto simp: value_after_find[OF assms] Let_def split: option.splits if_splits)
    let ?k = "k + length pat"
    have le: "?k \<le> length s" using find_sub_SomeD[OF k(1)] by simp
    have "rest = drop (?k + length (takeWhile (\<lambda>x. x \<noteq> SOH) (drop ?k s))) s"
      unfolding k(2) dropWhile_eq_drop by (simp add: add.commute)
    then have "rest = drop (length s - length rest) s" using pos[OF le] k(2) by metis
    moreover have "length rest \<le> length s" using k(2) length_dropWhile_le[of "\<lambda>x. x \<noteq> SOH" "drop ?k s"] le by simp
    ultimately show ?thesis by (metis append_take_drop_id)
  qed
qed

lemma counterparty_named: "counterparty msg = named_session msg"
proof (cases "value_after (SOH # ''49='') msg")
  case None
  then show ?thesis
    using getTagValue_value(1)[of "SOH # ''49=''" msg] by (simp add: counterparty_def named_session_def comp_patterns)
next
  case (Some vr)
  obtain v rest where vr: "vr = (v, rest)" by force
  let ?e = "length msg - length rest"
  have s: "getTagValue msg (SOH # ''49='') 0 = (v, Some ?e)"
    using getTagValue_value(1)[of "SOH # ''49=''" msg] Some vr by simp
  have m: "msg = take ?e msg @ rest" "length rest \<le> length msg"
    using getTagValue_value(2)[of "SOH # ''49=''" msg v rest] Some vr by simp_all
  have "length (take ?e msg) = ?e" by simp
  then have "getTagValue msg (SOH # ''56='') ?e
      = map_prod id (map_option ((+) ?e)) (getTagValue rest (SOH # ''56='') 0)"
    using getTagValue_shift[of "take ?e msg" rest "SOH # ''56=''" 0] m(1) by simp
  then have "fst (getTagValue msg (SOH # ''56='') ?e) =
      (case value_after (SOH # ''56='') rest of None \<Rightarrow> [] | Some (t, _) \<Rightarrow> t)"
    using getTagValue_value(1)[of "SOH # ''56=''" rest] by (simp split: option.splits prod.splits)
  then show ?thesis using s Some vr
    by (cases "getTagValue msg (SOH # ''56='') ?e")
       (auto simp: counterparty_def named_session_def comp_patterns split: option.split)
qed

section \<open>Properties\<close>

lemma read_buffer_of_sel:
  assumes "read_buffer_of answers fd i net = (r, net1)" "i < length (n_readers net)"
  shows "rd_connections (reader_at i net1) = rd_connections (reader_at i net)"
    "rd_acceptorSockets (reader_at i net1) = rd_acceptorSockets (reader_at i net)"
    "rd_unknownConnections (reader_at i net1) = rd_unknownConnections (reader_at i net)"
    "length (n_readers net1) = length (n_readers net)" "sessions_of a net1 = sessions_of a net"
    "n_trace net1 = n_trace net" "n_endpoints net1 = n_endpoints net" "n_tls net1 = n_tls net"
    "handler_connected h net1 = handler_connected h net"
  using assms by (auto simp: read_buffer_of_def split: prod.splits)

lemma processRead_unassigned:
  assumes "i < length (n_readers net)" "map_of (rd_connections (reader_at i net)) fd = None"
    "map_of (rd_acceptorSockets (reader_at i net)) fd = None" "map_of (rd_unknownConnections (reader_at i net)) fd = Some a"
    and "read_buffer_of answers fd i net = (Inr (addressed v n t sender target rest # msgs), net1)"
    and "SOH \<notin> set v \<union> set n \<union> set t \<union> set sender \<union> set target" "sender \<noteq> []" "target \<noteq> []"
    and "processRead env ssl answers accepted fd i net = (r, net')"
  shows "r = Inr ()" "net' = assign_connection (addressed v n t sender target rest # msgs) fd a i net1"
    "counterparty (addressed v n t sender target rest) = Some (target @ '':'' @ sender)" "i < length (n_readers net1)"
  using assms read_buffer_of_sel(4)[OF assms(5,1)] counterparty_addressed[of v n t sender target rest]
  by (auto simp: processRead_def)

text \<open>The descriptor is closed and nothing else changes for anyone.\<close>

definition only_closed :: "int \<Rightarrow> nat \<Rightarrow> 'cb network \<Rightarrow> 'cb network \<Rightarrow> bool" where
  "only_closed fd i net net' \<longleftrightarrow> n_endpoints net' = n_endpoints net
     \<and> rd_connections (reader_at i net') = rd_connections (reader_at i net) \<and> n_trace net' = n_trace net @ [Closed fd]"

text \<open>C18: the first message of an accepted connection, whatever it is, decides its fate. If it has a
  SenderCompID and after that a TargetCompID, neither of them empty, that name a session this acceptor serves
  and that is not connected yet, the descriptor becomes that session's connection and every message
  read so far is handed to it, in order. In every other case (no SenderCompID, no TargetCompID, an
  unknown session, one that is connected) the descriptor is closed, once, no session sees anything
  and none changes. Either way the descriptor leaves the table of unassigned connections.\<close>

theorem first_message_routes:
  assumes "i < length (n_readers net)" "map_of (rd_connections (reader_at i net)) fd = None"
    "map_of (rd_acceptorSockets (reader_at i net)) fd = None" "map_of (rd_unknownConnections (reader_at i net)) fd = Some a"
    and "read_buffer_of answers fd i net = (Inr (msg # msgs), net1)"
    and "processRead env ssl answers accepted fd i net = (r, net')"
  shows "r = Inr () \<and> map_of (rd_unknownConnections (reader_at i net')) fd = None
    \<and> (case named_session msg of
        None \<Rightarrow> only_closed fd i net net'
      | Some name \<Rightarrow>
          (case map_of (sessions_of a net) name of
             None \<Rightarrow> only_closed fd i net net'
           | Some h \<Rightarrow>
               if handler_connected h net then only_closed fd i net net'
               else map_of (rd_connections (reader_at i net')) fd = Some h \<and> handler_connected h net'
                 \<and> ep_fd (n_endpoints net' h) = fd
                 \<and> n_trace net' = n_trace net @ map (Deliver h) (msg # msgs)))"
proof -
  note sel = read_buffer_of_sel[OF assms(5,1)]
  have p: "r = Inr ()" "net' = assign_connection (msg # msgs) fd a i net1" "i < length (n_readers net1)"
    using assms sel(4) by (auto simp: processRead_def)
  have u: "map_of (rd_unknownConnections (reader_at i net')) fd = None"
    using p(3) unfolding p(2) assign_connection_def Let_def
    by (simp add: rd_addConnection_sel split: option.split)
  show ?thesis
  proof (cases "named_session msg")
    case None
    with p sel u show ?thesis by (simp add: assign_connection_def counterparty_named only_closed_def)
  next
    case (Some name)
    show ?thesis
    proof (cases "map_of (sessions_of a net) name")
      case None
      with Some p sel u show ?thesis by (simp add: assign_connection_def counterparty_named only_closed_def)
    next
      case h: (Some h)
      with Some p sel u show ?thesis
        by (simp add: assign_connection_def counterparty_named only_closed_def rd_addConnection_sel)
    qed
  qed
qed

lemma read_one_message:
  assumes "framed msg" "buffered fd (rd_buffer (reader_at i net)) = []" "\<not> hasTLS fd (n_tls net)"
  shows "\<exists>net1. read_buffer_of [(Bytes msg, WantRead), (WouldBlock, WantRead)] fd i net = (Inr [msg], net1)"
proof -
  have "reads [(Bytes msg, WantRead), (WouldBlock, WantRead)] fd (n_tls net) = [Bytes msg, WouldBlock]"
    using assms(3) by (auto simp: reads_def readConnection_def hasTLS_def)
  moreover have "msg \<noteq> []" using assms(1) by (auto simp: framed_def)
  with rb_read_frames[of "[msg]" fd "rd_buffer (reader_at i net)"] assms(1,2) frames_framed[of msg "[]"]
  obtain rb where "rb_read fd [Bytes msg, WouldBlock] (rd_buffer (reader_at i net)) = (Inr [msg], rb)"
    by (auto simp: frames_Nil)
  ultimately show ?thesis by (auto simp: read_buffer_of_def)
qed

lemma rd_addConnection_tls [simp]: "n_tls (rd_addConnection h fd i net) = n_tls net"
  by (simp add: rd_addConnection_def Let_def on_reader_def on_handler_def)

lemma processRead_tls:
  "map_of (rd_acceptorSockets (reader_at i net)) fd = None
     \<Longrightarrow> n_tls (snd (processRead env ssl answers accepted fd i net)) = n_tls net"
  by (auto simp: processRead_def read_buffer_of_def assign_connection_def Let_def split: option.splits prod.splits sum.splits)

lemma net_accept_plain:
  assumes "sessions_of a net \<noteq> []" "\<not> is_tls_enabled (ne_settings env (snd (ne_begin env (sessions_of a net))))"
  shows "net_accept env ssl \<lparr>aa_fd = Some fd, aa_nonBlocking = True, aa_address = True\<rparr> a net
    = (True, rd_accept fd a (owner fd net) net)"
  using assms by (simp add: net_accept_def)

text \<open>TLS is not enforced per session. Whether an accepted connection speaks TLS is decided by
  whichever session the acceptor's table lists first, before the connection names its session; if that
  one is configured without TLS, a session of the same port that is configured with TLS is connected
  in the clear and given messages no one authenticated.\<close>

theorem tls_not_enforced:
  fixes msg :: string and env :: net_env
  assumes "\<not> is_tls_enabled (ne_settings env (snd (ne_begin env (sessions_of a net))))"
    and "map_of (sessions_of a net) (target @ '':'' @ sender) = Some h" "is_tls_enabled (ne_settings env h)"
    and "\<not> handler_connected h net" "i = owner fd net" "i < length (n_readers net)"
    and "map_of (rd_connections (reader_at i net)) fd = None" "map_of (rd_acceptorSockets (reader_at i net)) fd = None"
    and "buffered fd (rd_buffer (reader_at i net)) = []" "\<not> hasTLS fd (n_tls net)"
    and "msg = addressed v n t sender target rest" "framed msg"
    and "SOH \<notin> set v \<union> set n \<union> set t \<union> set sender \<union> set target" "sender \<noteq> []" "target \<noteq> []"
    and "net1 = snd (net_accept env ssl \<lparr>aa_fd = Some fd, aa_nonBlocking = True, aa_address = True\<rparr> a net)"
    and "net2 = snd (processRead env ssl [(Bytes msg, WantRead), (WouldBlock, WantRead)] accepted fd i net1)"
  shows "map_of (rd_connections (reader_at i net2)) fd = Some h \<and> handler_connected h net2
    \<and> \<not> hasTLS fd (n_tls net2) \<and> n_trace net2 = n_trace net @ [Deliver h msg]"
proof -
  have ne: "sessions_of a net \<noteq> []" using assms(2) by auto
  have n1: "net1 = rd_accept fd a i net"
    using net_accept_plain[OF ne assms(1)] assms(5,16) by simp
  then have sel: "i < length (n_readers net1)" "map_of (rd_connections (reader_at i net1)) fd = None"
    "map_of (rd_acceptorSockets (reader_at i net1)) fd = None" "map_of (rd_unknownConnections (reader_at i net1)) fd = Some a"
    "buffered fd (rd_buffer (reader_at i net1)) = []" "n_tls net1 = n_tls net" "n_trace net1 = n_trace net"
    "sessions_of a net1 = sessions_of a net" "\<not> handler_connected h net1"
    using assms(4,6-9) by (simp_all add: rd_accept_def)
  obtain net1' where rd: "read_buffer_of [(Bytes msg, WantRead), (WouldBlock, WantRead)] fd i net1 = (Inr [msg], net1')"
    using read_one_message[OF assms(12) sel(5)] assms(10) sel(6) by auto
  obtain r where pr: "processRead env ssl [(Bytes msg, WantRead), (WouldBlock, WantRead)] accepted fd i net1 = (r, net2)"
    using assms(17) by (metis prod.collapse)
  note p = processRead_unassigned[OF sel(1-4) rd[unfolded assms(11)] assms(13-15) pr[unfolded assms(11)]]
  have "map_of (rd_connections (reader_at i net2)) fd = Some h \<and> handler_connected h net2
     \<and> n_trace net2 = n_trace net1 @ [Deliver h msg]"
    using p assms(2,11) sel(8,9) read_buffer_of_sel[OF rd sel(1)] by (simp add: assign_connection_def rd_addConnection_sel)
  moreover have "n_tls net2 = n_tls net1"
    using processRead_tls[OF sel(3)] assms(17) by simp
  ultimately show ?thesis using sel(6,7) assms(10) by simp
qed

text \<open>One port, two sessions: the first without TLS, the second with TLS.\<close>

definition mixed_env :: net_env where
  "mixed_env = \<lparr>ne_settings = (\<lambda>h. if h = 1 then demo_tls_settings else setBool TLS_ENABLED False demo_tls_settings),
     ne_begin = hd\<rparr>"

definition mixed_net :: "nat network" where
  "mixed_net = (new_network 1)\<lparr>n_running := True, n_acceptors := [(9000, 3)],
     n_readers := [new_reader\<lparr>rd_acceptorSockets := [(3, 0)]\<rparr>], n_sessions := [[(''X:Y'', 0), (''T:S'', 1)]]\<rparr>"

definition logon_text :: string where
  "logon_text = addressed ''F'' ''15'' ''A'' ''S'' ''T'' (''10=1'' @ [SOH])"

lemma logon_framed: "framed logon_text"
  unfolding framed_def
  by (rule exI[of _ "''F''"], rule exI[of _ "''35=A'' @ [SOH] @ ''49=S'' @ [SOH] @ ''56=T'' @ [SOH]"], rule exI[of _ "''1''"]) code_simp

lemma mixed_facts:
  "sessions_of 0 mixed_net = [(''X:Y'', 0), (''T:S'', 1)]" "owner 7 mixed_net = 0" "length (n_readers mixed_net) = 1"
  "reader_at 0 mixed_net = new_reader\<lparr>rd_acceptorSockets := [(3, 0)]\<rparr>" "n_tls mixed_net = no_tls" "n_trace mixed_net = []"
  "\<not> handler_connected h mixed_net"
  by (simp_all add: mixed_net_def sessions_of_def owner_def reader_at_def new_network_def handler_connected_def
      isConnected_def new_handler_def)

lemma mixed_settings:
  "is_tls_enabled (ne_settings mixed_env 1)" "\<not> is_tls_enabled (ne_settings mixed_env 0)" "ne_begin mixed_env = hd"
  by (simp_all add: mixed_env_def is_tls_enabled_def demo_tls_settings_def getBool_def setBool_def setString_def)

lemma tls_not_enforced_witness:
  "\<exists>net. is_tls_enabled (ne_settings mixed_env 1) \<and> map_of (rd_connections (reader_at 0 net)) 7 = Some 1
     \<and> \<not> hasTLS 7 (n_tls net) \<and> n_trace net = [Deliver 1 logon_text :: nat net_event]"
proof -
  let ?a = "\<lparr>aa_fd = Some 7, aa_nonBlocking = True, aa_address = True\<rparr>"
  define net1 where "net1 = snd (net_accept mixed_env demo_ssl ?a 0 mixed_net)"
  define net2 where "net2 = snd (processRead mixed_env demo_ssl [(Bytes logon_text, WantRead), (WouldBlock, WantRead)] ?a 7 0 net1)"
  have tables: "map_of (rd_connections (reader_at 0 mixed_net)) 7 = None" "map_of (rd_acceptorSockets (reader_at 0 mixed_net)) 7 = None"
    "buffered 7 (rd_buffer (reader_at 0 mixed_net)) = []" "\<not> hasTLS 7 (n_tls mixed_net)" "0 < length (n_readers mixed_net)"
    by (simp_all add: mixed_facts new_reader_def buffered_def hasTLS_def no_tls_def)
  have plain: "\<not> is_tls_enabled (ne_settings mixed_env (snd (ne_begin mixed_env (sessions_of 0 mixed_net))))"
    "map_of (sessions_of 0 mixed_net) (''T'' @ '':'' @ ''S'') = Some 1"
    by (simp_all add: mixed_facts mixed_settings)
  have "SOH \<notin> set ''F'' \<union> set ''15'' \<union> set ''A'' \<union> set ''S'' \<union> set ''T''" by code_simp
  from tls_not_enforced[OF plain mixed_settings(1) mixed_facts(7) mixed_facts(2)[symmetric] tables(5,1,2,3,4)
      logon_text_def logon_framed this _ _ net1_def net2_def] mixed_facts(6) mixed_settings(1)
  show ?thesis by auto
qed

lemma first_message_routes_witness:
  "\<exists>net. processRead mixed_env demo_ssl [(Bytes logon_text, WantRead), (WouldBlock, WantRead)]
       \<lparr>aa_fd = None, aa_nonBlocking = True, aa_address = True\<rparr> 7 0 (rd_accept 7 0 0 mixed_net) = (Inr (), net)
     \<and> n_trace net = [Deliver 1 logon_text] \<and> handler_connected 1 net"
proof -
  let ?n = "rd_accept 7 0 0 mixed_net"
  let ?io = "[(Bytes logon_text, WantRead), (WouldBlock, WantRead)]"
  have n: "length (n_readers ?n) = 1" "map_of (rd_connections (reader_at 0 ?n)) 7 = None"
    "map_of (rd_acceptorSockets (reader_at 0 ?n)) 7 = None" "map_of (rd_unknownConnections (reader_at 0 ?n)) 7 = Some 0"
    "buffered 7 (rd_buffer (reader_at 0 ?n)) = []" "\<not> hasTLS 7 (n_tls ?n)" "sessions_of 0 ?n = [(''X:Y'', 0), (''T:S'', 1)]"
    "n_trace ?n = []" "\<not> handler_connected 1 ?n"
    using mixed_facts by (simp_all add: rd_accept_def new_reader_def buffered_def hasTLS_def no_tls_def)
  obtain net1 where rd: "read_buffer_of ?io 7 0 ?n = (Inr [logon_text], net1)"
    using read_one_message[OF logon_framed n(5,6)] by blast
  obtain r net' where pr: "processRead mixed_env demo_ssl ?io \<lparr>aa_fd = None, aa_nonBlocking = True, aa_address = True\<rparr> 7 0 ?n = (r, net')"
    by force
  have "named_session logon_text = Some (''T'' @ '':'' @ ''S'')" by code_simp
  with first_message_routes[OF _ n(2-4) rd pr] n(1,7-9) pr
  show ?thesis by (intro exI[of _ net']) simp
qed

end
