(* ===== verification/DictionaryLoad.thy ===== *)
theory DictionaryLoad
  imports FixDictionary FixConfig
begin

text \<open>
  \<open>DictionaryRegistry::load\<close> of \<^verbatim>\<open>src/Dictionary.cpp\<close>: from the XML tree of a FIX dictionary to the
  field types and the specifications of header, trailer and messages. The XML parser (pugixml) is not
  part of the program: the tree it returns and its conversions of attributes are the fields of \<open>pugi\<close>.
  \<open>HashMapT\<close> and \<open>HashSetT\<close> keep their elements in the order of insertion, and \<open>load\<close> never erases.
\<close>

section \<open>The document\<close>

datatype xml = Node (xn_name: string) (xn_attrs: "(string \<times> string) list") (xn_children: "xml list")

record pugi =
  pg_load_file :: "string \<Rightarrow> string + xml"
  pg_as_int :: "int \<Rightarrow> string option \<Rightarrow> int"
  pg_as_bool :: "string option \<Rightarrow> bool"

definition attribute :: "xml \<Rightarrow> string \<Rightarrow> string option" where
  "attribute n key = map_of (xn_attrs n) key"

definition as_string :: "string option \<Rightarrow> string" where
  "as_string a = (case a of Some s \<Rightarrow> s | None \<Rightarrow> [])"

text \<open>\<open>child\<close> of a node that does not exist is a node that does not exist.\<close>

definition child :: "xml option \<Rightarrow> string \<Rightarrow> xml option" where
  "child n name = (case n of None \<Rightarrow> None | Some x \<Rightarrow> List.find (\<lambda>c. xn_name c = name) (xn_children x))"

definition children :: "xml option \<Rightarrow> xml list" where
  "children n = (case n of None \<Rightarrow> [] | Some x \<Rightarrow> xn_children x)"

definition dict_error :: "string \<Rightarrow> exn + 'a" where
  "dict_error s = Inl (DictionaryParsingError s)"

section \<open>Fields\<close>

record field_tables =
  ft_types :: "nat \<Rightarrow> field_type"
  ft_fallback :: "(int, field_type) hmap"
  ft_names :: "(string, int) hmap"

definition no_fields :: field_tables where
  "no_fields = \<lparr>ft_types = (\<lambda>_. FT_UNKNOWN), ft_fallback = [], ft_names = []\<rparr>"

definition load_field :: "pugi \<Rightarrow> xml \<Rightarrow> field_tables \<Rightarrow> exn + field_tables" where
  "load_field pg field ft =
     (let tag = pg_as_int pg (- 1) (attribute field ''number'');
          name = as_string (attribute field ''name'');
          type = as_string (attribute field ''type'')
      in if tag = - 1 \<or> name = [] \<or> type = [] then dict_error ''Invalid <field> definition''
         else case map_of FieldTypes_LOOKUP type of
           None \<Rightarrow> dict_error (''Unknown field type: '' @ type)
         | Some ty \<Rightarrow>
             if 0 \<le> tag \<and> tag < MAX_FIELD_TAG then
               (if ft_types ft (nat tag) \<noteq> FT_UNKNOWN
                then dict_error (''Multiple field definitions for tag: '' @ dec_int tag)
                else Inr (ft\<lparr>ft_types := (ft_types ft)(nat tag := ty), ft_names := hmap_set (ft_names ft) name tag\<rparr>))
             else
               (if map_of (ft_fallback ft) tag \<noteq> None
                then dict_error (''Multiple field definitions for tag: '' @ dec_int tag)
                else Inr (ft\<lparr>ft_fallback := hmap_set (ft_fallback ft) tag ty, ft_names := hmap_set (ft_names ft) name tag\<rparr>)))"

fun load_fields :: "pugi \<Rightarrow> xml list \<Rightarrow> field_tables \<Rightarrow> exn + field_tables" where
  "load_fields pg [] ft = Inr ft"
| "load_fields pg (x # xs) ft = sbind (load_field pg x ft) (load_fields pg xs)"

section \<open>Components: validation and the graph of references\<close>

type_synonym graph = "(string, string list) hmap"

definition add_edge :: "string \<Rightarrow> string \<Rightarrow> graph \<Rightarrow> graph" where
  "add_edge parent c g =
     (let cs = (case map_of g parent of Some cs \<Rightarrow> cs | None \<Rightarrow> [])
      in hmap_set g parent (if c \<in> set cs then cs else cs @ [c]))"

text \<open>\<open>validateGroup\<close>: the nodes of a component and of its groups must refer to what is defined.\<close>

fun validate_child :: "(string, int) hmap \<Rightarrow> string list \<Rightarrow> string \<Rightarrow> xml \<Rightarrow> graph \<Rightarrow> exn + graph"
  and validate_children :: "(string, int) hmap \<Rightarrow> string list \<Rightarrow> string \<Rightarrow> xml list \<Rightarrow> graph \<Rightarrow> exn + graph" where
  "validate_child names comps parent (Node nm attrs cs) g =
     (let ref = as_string (map_of attrs ''name'') in
      if strcaseeq nm ''component'' then
        (if ref = [] then dict_error ''Tried to reference a component without specifying a name''
         else if ref \<notin> set comps then dict_error (''Tried to reference undefined component: '' @ ref)
         else Inr (if parent \<noteq> [] then add_edge parent ref g else g))
      else if strcaseeq nm ''group'' then
        (if ref = [] then dict_error ''Tried to reference a group without specifying a name''
         else if map_of names ref = None then dict_error (''Tried to reference undefined group: '' @ ref)
         else validate_children names comps parent cs g)
      else if strcaseeq nm ''field'' then
        (if ref = [] then dict_error ''Tried to reference a field without specifying a name''
         else if map_of names ref = None then dict_error (''Tried to reference undefined field: '' @ ref)
         else Inr g)
      else Inr g)"
| "validate_children names comps parent [] g = Inr g"
| "validate_children names comps parent (x # xs) g =
     sbind (validate_child names comps parent x g) (validate_children names comps parent xs)"

record components =
  cm_names :: "string list"
  cm_graph :: graph
  cm_xml :: "(string, xml) hmap"

fun register_components :: "xml list \<Rightarrow> components \<Rightarrow> exn + components" where
  "register_components [] cm = Inr cm"
| "register_components (x # xs) cm =
     (let name = as_string (attribute x ''name'') in
      if name = [] then dict_error ''Component definition missing name''
      else if name \<in> set (cm_names cm) then dict_error (''Multiple component definitions with name: '' @ name)
      else register_components xs
        \<lparr>cm_names = cm_names cm @ [name], cm_graph = hmap_set (cm_graph cm) name [],
         cm_xml = hmap_set (cm_xml cm) name x\<rparr>)"

fun validate_components :: "(string, int) hmap \<Rightarrow> string list \<Rightarrow> xml list \<Rightarrow> graph \<Rightarrow> exn + graph" where
  "validate_components names comps [] g = Inr g"
| "validate_components names comps (x # xs) g =
     sbind (validate_children names comps (as_string (attribute x ''name'')) (xn_children x) g)
       (validate_components names comps xs)"

section \<open>Topological order\<close>

definition indegree :: "(string, int) hmap \<Rightarrow> string \<Rightarrow> int" where
  "indegree d n = (case map_of d n of Some i \<Rightarrow> i | None \<Rightarrow> 0)"

definition adjust :: "int \<Rightarrow> (string, int) hmap \<Rightarrow> string \<Rightarrow> (string, int) hmap" where
  "adjust k d n = hmap_set d n (indegree d n + k)"

definition indegrees :: "graph \<Rightarrow> (string, int) hmap" where
  "indegrees g =
     foldl (\<lambda>d (node, cs). foldl (adjust 1) (if map_of d node = None then hmap_set d node 0 else d) cs) [] g"

text \<open>The working list is filled at the front and emptied at the back; here it is written back to
  front, as a queue.\<close>

definition roots :: "(string, int) hmap \<Rightarrow> string list" where
  "roots d = map fst (filter (\<lambda>(k, i). i = 0) d)"

fun release :: "string list \<Rightarrow> (string, int) hmap \<times> string list \<Rightarrow> (string, int) hmap \<times> string list" where
  "release [] dq = dq"
| "release (c # cs) (d, queue) =
     (let d' = adjust (- 1) d c in release cs (d', if indegree d' c = 0 then queue @ [c] else queue))"

definition edges :: "graph \<Rightarrow> string \<Rightarrow> string list" where
  "edges g n = (case map_of g n of Some cs \<Rightarrow> cs | None \<Rightarrow> [])"

definition open_nodes :: "(string, int) hmap \<Rightarrow> nat" where
  "open_nodes d = length (filter (\<lambda>(k, i). 0 < i) d)"

lemma open_nodes_adjust:
  "open_nodes (adjust (- 1) d c) + (if indegree d c = 1 then 1 else 0) = open_nodes d"
proof -
  have "length (filter (\<lambda>(k, i). 0 < i) (AList.update c (v - 1) d)) + (if v = 1 then 1 else 0)
      = length (filter (\<lambda>(k, i). (0::int) < i) d)" if "map_of d c = Some v" for v
    using that by (induction d) (auto split: if_splits)
  moreover have "length (filter (\<lambda>(k, i). 0 < i) (AList.update c (- 1) d)) = length (filter (\<lambda>(k, i). (0::int) < i) d)"
    if "map_of d c = None"
    using that by (induction d) (auto split: if_splits)
  ultimately show ?thesis
    by (cases "map_of d c") (auto simp: open_nodes_def adjust_def hmap_set_def indegree_def)
qed

lemma release_measure:
  "release cs (d, queue) = (d', queue') \<Longrightarrow> length queue' + open_nodes d' = length queue + open_nodes d"
proof (induction cs arbitrary: d queue)
  case (Cons c cs)
  have "indegree (adjust (- 1) d c) c = indegree d c - 1" by (simp add: adjust_def indegree_def)
  with Cons.IH Cons.prems open_nodes_adjust[of d c] show ?case
    by (fastforce simp: Let_def split: if_splits)
qed simp

function toposort :: "graph \<Rightarrow> string list \<Rightarrow> (string, int) hmap \<Rightarrow> string list \<Rightarrow> string list" where
  "toposort g [] d order = order"
| "toposort g (node # queue) d order =
     (case release (edges g node) (d, queue) of (d', queue') \<Rightarrow> toposort g queue' d' (order @ [node]))"
  by pat_completeness auto
termination
  by (relation "measure (\<lambda>(g, queue, d, order). length queue + open_nodes d)")
    (auto dest: release_measure[OF sym])

definition sort_components :: "graph \<Rightarrow> exn + string list" where
  "sort_components g =
     (let d = indegrees g; order = toposort g (roots d) d []
      in if length order \<noteq> length g then dict_error ''Cycle in component graph!'' else Inr order)"

section \<open>Building specifications\<close>

record building =
  bd_fields :: "(int, bool) hmap"
  bd_groups :: "(int, group_spec) hmap"
  bd_order :: "int list"

definition empty_building :: building where
  "empty_building = \<lparr>bd_fields = [], bd_groups = [], bd_order = []\<rparr>"

definition empty_spec :: group_spec where
  "empty_spec = GroupSpec [] [] False [] (\<lambda>_. False) (\<lambda>_. False)"

fun merge_fields :: "(int \<times> bool) list \<Rightarrow> building \<Rightarrow> exn + building" where
  "merge_fields [] b = Inr b"
| "merge_fields ((tag, required) # es) b =
     (if map_of (bd_fields b) tag \<noteq> None then dict_error (''Multiple references of field in group: '' @ dec_int tag)
      else merge_fields es (b\<lparr>bd_fields := hmap_set (bd_fields b) tag required, bd_order := bd_order b @ [tag]\<rparr>))"

fun merge_groups :: "(int \<times> group_spec) list \<Rightarrow> building \<Rightarrow> exn + building" where
  "merge_groups [] b = Inr b"
| "merge_groups ((tag, spec) # es) b =
     (if map_of (bd_groups b) tag \<noteq> None then dict_error (''Multiple references of group in group: '' @ dec_int tag)
      else merge_groups es (b\<lparr>bd_groups := hmap_set (bd_groups b) tag spec, bd_order := bd_order b @ [tag]\<rparr>))"

text \<open>\<open>operator[]\<close> on a name that is not there yields 0 or an empty specification.\<close>

definition tag_of :: "(string, int) hmap \<Rightarrow> string \<Rightarrow> int" where
  "tag_of names name = (case map_of names name of Some t \<Rightarrow> t | None \<Rightarrow> 0)"

definition component_of :: "(string, group_spec) hmap \<Rightarrow> string \<Rightarrow> group_spec" where
  "component_of comps name = (case map_of comps name of Some s \<Rightarrow> s | None \<Rightarrow> empty_spec)"

definition finish_group :: "bool \<Rightarrow> building \<Rightarrow> group_spec" where
  "finish_group ordered b = mk_spec (bd_fields b) (bd_groups b) ordered (bd_order b)"

fun build_child :: "pugi \<Rightarrow> (string, int) hmap \<Rightarrow> (string, group_spec) hmap \<Rightarrow> xml \<Rightarrow> building \<Rightarrow> exn + building"
  and build_children :: "pugi \<Rightarrow> (string, int) hmap \<Rightarrow> (string, group_spec) hmap \<Rightarrow> xml list \<Rightarrow> building \<Rightarrow> exn + building" where
  "build_child pg names comps (Node nm attrs cs) b =
     (let ref = as_string (map_of attrs ''name'') in
      if strcaseeq nm ''component'' then
        (let component = component_of comps ref
         in sbind (merge_fields (gs_fields component) b) (merge_groups (gs_groups component)))
      else if strcaseeq nm ''group'' then
        (let tag = tag_of names ref in
         if map_of (bd_groups b) tag \<noteq> None
         then dict_error (''Multiple references of group in group: '' @ dec_int tag)
         else sbind (build_children pg names comps cs empty_building)
           (\<lambda>inner. Inr (b\<lparr>bd_groups := hmap_set (bd_groups b) tag
                (finish_group (pg_as_bool pg (map_of attrs ''ordered'')) inner),
              bd_order := bd_order b @ [tag]\<rparr>)))
      else if strcaseeq nm ''field'' then
        (let tag = tag_of names ref in
         if map_of (bd_fields b) tag \<noteq> None
         then dict_error (''Multiple references of field in group: '' @ dec_int tag)
         else Inr (b\<lparr>bd_fields := hmap_set (bd_fields b) tag (pg_as_bool pg (map_of attrs ''required'')),
              bd_order := bd_order b @ [tag]\<rparr>))
      else Inr b)"
| "build_children pg names comps [] b = Inr b"
| "build_children pg names comps (x # xs) b =
     sbind (build_child pg names comps x b) (build_children pg names comps xs)"

definition build_group :: "pugi \<Rightarrow> (string, int) hmap \<Rightarrow> (string, group_spec) hmap \<Rightarrow> xml \<Rightarrow> exn + group_spec" where
  "build_group pg names comps node =
     sbind (build_children pg names comps (xn_children node) empty_building)
       (\<lambda>b. Inr (finish_group (pg_as_bool pg (attribute node ''ordered'')) b))"

text \<open>From the last component of the order to the first.\<close>

fun build_components ::
  "pugi \<Rightarrow> (string, int) hmap \<Rightarrow> (string, xml) hmap \<Rightarrow> string list \<Rightarrow> (string, group_spec) hmap \<Rightarrow> exn + (string, group_spec) hmap" where
  "build_components pg names xmls [] comps = Inr comps"
| "build_components pg names xmls (name # rest) comps =
     sbind (build_group pg names comps (the (map_of xmls name)))
       (\<lambda>spec. build_components pg names xmls rest (hmap_set comps name spec))"

fun build_messages ::
  "pugi \<Rightarrow> (string, int) hmap \<Rightarrow> (string, group_spec) hmap \<Rightarrow> xml list \<Rightarrow> dictionary \<Rightarrow> exn + dictionary" where
  "build_messages pg names comps [] d = Inr d"
| "build_messages pg names comps (node # nodes) d =
     (let msgtype = as_string (attribute node ''msgtype'') in
      if msgtype = [] then dict_error ''msgtype definition missing from message''
      else if map_of (d_bodySpecs d) msgtype \<noteq> None then dict_error (''Redefinition of message type: '' @ msgtype)
      else sbind (build_group pg names comps node) (\<lambda>spec.
        build_messages pg names comps nodes
          (d\<lparr>d_bodySpecs := hmap_set (d_bodySpecs d) msgtype spec,
             d_bodySpecsFast :=
               (case msgtype of
                  [ch] \<Rightarrow> if of_char ch < FAST_MSGTYPE_SIZE then (d_bodySpecsFast d)(of_char ch := Some spec) else d_bodySpecsFast d
                | _ \<Rightarrow> d_bodySpecsFast d)\<rparr>)))"

section \<open>Loading\<close>

definition load_dictionary :: "pugi \<Rightarrow> string \<Rightarrow> exn + dictionary" where
  "load_dictionary pg path =
     (case pg_load_file pg path of
        Inl description \<Rightarrow> dict_error (''Unable to load FIX dictionary: '' @ description)
      | Inr doc \<Rightarrow>
          let root = child (Some doc) ''fix'' in
          case child root ''header'' of
            None \<Rightarrow> dict_error ''FIX dictionary missing <header> section''
          | Some header \<Rightarrow>
          case child root ''trailer'' of
            None \<Rightarrow> dict_error ''FIX dictionary missing <trailer> section''
          | Some trailer \<Rightarrow>
          sbind (load_fields pg (children (child root ''fields'')) no_fields) (\<lambda>ft.
          let nodes = children (child root ''components'') in
          sbind (register_components nodes \<lparr>cm_names = [], cm_graph = [], cm_xml = []\<rparr>) (\<lambda>cm.
          sbind (validate_components (ft_names ft) (cm_names cm) nodes (cm_graph cm)) (\<lambda>g.
          sbind (sort_components g) (\<lambda>order.
          sbind (build_components pg (ft_names ft) (cm_xml cm) (rev order) (map (\<lambda>n. (n, empty_spec)) (cm_names cm))) (\<lambda>comps.
          sbind (build_group pg (ft_names ft) comps header) (\<lambda>headerSpec.
          sbind (build_group pg (ft_names ft) comps trailer) (\<lambda>trailerSpec.
          build_messages pg (ft_names ft) comps (children (child root ''messages''))
            \<lparr>d_headerSpec = headerSpec, d_trailerSpec = trailerSpec, d_bodySpecs = [],
             d_bodySpecsFast = (\<lambda>_. None), d_fieldTypes = ft_types ft, d_fieldsFallback = ft_fallback ft\<rparr>))))))))"

type_synonym registry = "(string, dictionary) hmap"

definition registry_load :: "pugi \<Rightarrow> string \<Rightarrow> registry \<Rightarrow> (exn + dictionary) \<times> registry" where
  "registry_load pg path reg =
     (case map_of reg path of
        Some d \<Rightarrow> (Inr d, reg)
      | None \<Rightarrow>
          (case load_dictionary pg path of
             Inl e \<Rightarrow> (Inl e, reg)
           | Inr d \<Rightarrow> (Inr d, hmap_set reg path d)))"

end
