(* ===== verification/DictionaryFacts.thy ===== *)
theory DictionaryFacts
  imports DictionaryLoad
begin

text \<open>
  What \<open>DictionaryRegistry::load\<close> guarantees: the components are ordered exactly when their references
  have no cycle, and each is built from completed components only.
\<close>

section \<open>The graph of references\<close>

definition nodes :: "graph \<Rightarrow> string set" where "nodes g = fst ` set g"

definition preds :: "graph \<Rightarrow> string \<Rightarrow> string set" where
  "preds g n = {p \<in> nodes g. n \<in> set (edges g p)}"

definition references :: "graph \<Rightarrow> (string \<times> string) set" where
  "references g = {(p, c). c \<in> set (edges g p)}"

definition graph_ok :: "graph \<Rightarrow> bool" where
  "graph_ok g \<longleftrightarrow> hmap_ok g \<and> (\<forall>(n, cs) \<in> set g. distinct cs \<and> set cs \<subseteq> nodes g)"

definition topological :: "graph \<Rightarrow> string list \<Rightarrow> bool" where
  "topological g order \<longleftrightarrow> (\<forall>xs n ys. order = xs @ n # ys \<longrightarrow> preds g n \<subseteq> set xs)"

lemma finite_nodes [simp]: "finite (nodes g)" "finite (preds g n)"
  by (simp_all add: nodes_def preds_def)

lemma edges_node: "hmap_ok g \<Longrightarrow> (n, cs) \<in> set g \<Longrightarrow> edges g n = cs"
  by (simp add: edges_def hmap_ok_def map_of_is_SomeI)

lemma edges_none: "n \<notin> nodes g \<Longrightarrow> edges g n = []"
  by (simp add: edges_def nodes_def) (metis map_of_eq_None_iff option.simps(4))

lemma graph_ok_edges:
  assumes "graph_ok g"
  shows "distinct (edges g n)" "set (edges g n) \<subseteq> nodes g"
proof -
  have "distinct (edges g n) \<and> set (edges g n) \<subseteq> nodes g"
  proof (cases "n \<in> nodes g")
    case True
    then obtain cs where "(n, cs) \<in> set g" by (auto simp: nodes_def)
    with assms edges_node[of g n cs] show ?thesis by (auto simp: graph_ok_def)
  qed (simp add: edges_none)
  then show "distinct (edges g n)" "set (edges g n) \<subseteq> nodes g" by auto
qed

section \<open>Indegrees\<close>

lemma indegree_adjust [simp]: "indegree (adjust k d c) n = indegree d n + (if n = c then k else 0)"
  by (simp add: adjust_def indegree_def)

lemma hmap_set_keys [simp]: "fst ` set (hmap_set m k v) = insert k (fst ` set m)"
  using dom_map_of_conv_image_fst[of "hmap_set m k v"] dom_map_of_conv_image_fst[of m] by auto

lemma adjust_keys [simp]: "fst ` set (adjust k d c) = insert c (fst ` set d)" "hmap_ok d \<Longrightarrow> hmap_ok (adjust k d c)"
  by (simp_all add: adjust_def)

lemma adjusts:
  "distinct cs \<Longrightarrow> indegree (foldl (adjust 1) d cs) n = indegree d n + (if n \<in> set cs then 1 else 0)"
  by (induction cs arbitrary: d) auto

lemma adjusts_keys: "fst ` set (foldl (adjust 1) d cs) = fst ` set d \<union> set cs" "hmap_ok d \<Longrightarrow> hmap_ok (foldl (adjust 1) d cs)"
  by (induction cs arbitrary: d) (auto simp: adjust_keys)

lemma seed:
  fixes d :: "(string, int) hmap"
  shows "indegree (if map_of d c = None then hmap_set d c 0 else d) n = indegree d n"
    "hmap_ok d \<Longrightarrow> hmap_ok (if map_of d c = None then hmap_set d c 0 else d)"
    "fst ` set (if map_of d c = None then hmap_set d c 0 else d) = insert c (fst ` set d)"
proof -
  show "indegree (if map_of d c = None then hmap_set d c 0 else d) n = indegree d n"
    by (cases "map_of d c") (auto simp: indegree_def)
  have "c \<in> fst ` set d" if "map_of d c \<noteq> None" using that by (simp add: map_of_eq_None_iff)
  then show "fst ` set (if map_of d c = None then hmap_set d c 0 else d) = insert c (fst ` set d)" by auto
qed simp

definition count_edges :: "graph \<Rightarrow> string \<Rightarrow> nat" where
  "count_edges g n = length (filter (\<lambda>(p, cs). n \<in> set cs) g)"

lemma indegrees_fold:
  fixes g :: graph
  assumes "\<forall>(p, cs) \<in> set g. distinct cs" "hmap_ok d"
  defines "r \<equiv> foldl (\<lambda>d (node, cs). foldl (adjust 1) (if map_of d node = None then hmap_set d node 0 else d) cs) d g"
  shows "indegree r n = indegree d n + int (count_edges g n)"
    and "fst ` set r = fst ` set d \<union> nodes g \<union> \<Union> (set ` snd ` set g)" and "hmap_ok r"
proof -
  have "indegree (foldl (\<lambda>d (node, cs). foldl (adjust 1) (if map_of d node = None then hmap_set d node 0 else d) cs) d g) n
      = indegree d n + int (count_edges g n)
    \<and> fst ` set (foldl (\<lambda>d (node, cs). foldl (adjust 1) (if map_of d node = None then hmap_set d node 0 else d) cs) d g)
      = fst ` set d \<union> nodes g \<union> \<Union> (set ` snd ` set g)
    \<and> hmap_ok (foldl (\<lambda>d (node, cs). foldl (adjust 1) (if map_of d node = None then hmap_set d node 0 else d) cs) d g)"
    using assms(1,2)
  proof (induction g arbitrary: d)
    case Nil
    then show ?case by (simp add: count_edges_def nodes_def)
  next
    case (Cons x g)
    obtain node cs where x: "x = (node, cs)" by force
    let ?seed = "if map_of d node = None then hmap_set d node 0 else d"
    let ?d = "foldl (adjust 1) ?seed cs"
    have d0: "indegree ?seed n = indegree d n" "hmap_ok ?seed" "fst ` set ?seed = insert node (fst ` set d)"
      using seed(1)[of d node n] seed(2)[OF Cons.prems(2), of node] seed(3)[of d node] by simp_all
    have cs: "distinct cs" and d1: "hmap_ok ?d" using Cons.prems(1) d0(2) by (simp_all add: x adjusts_keys)
    have d: "indegree ?d n = indegree d n + (if n \<in> set cs then 1 else 0)" "fst ` set ?d = insert node (fst ` set d) \<union> set cs"
      using adjusts[OF cs, of ?seed n] adjusts_keys(1)[of ?seed cs] d0 by simp_all
    have "\<forall>(p, cs) \<in> set g. distinct cs" using Cons.prems(1) by simp
    from Cons.IH[OF this d1] show ?case
      unfolding x foldl_Cons prod.case d by (auto simp: count_edges_def nodes_def)
  qed
  then show "indegree r n = indegree d n + int (count_edges g n)"
    "fst ` set r = fst ` set d \<union> nodes g \<union> \<Union> (set ` snd ` set g)" "hmap_ok r" by (simp_all add: r_def)
qed

lemma count_preds: "hmap_ok g \<Longrightarrow> count_edges g n = card (preds g n)"
proof -
  assume ok: "hmap_ok g"
  let ?xs = "filter (\<lambda>(p, cs). n \<in> set cs) g"
  have "distinct (map fst ?xs)" using ok by (simp add: hmap_ok_def distinct_map_filter)
  moreover have "set (map fst ?xs) = preds g n"
    using edges_node[OF ok] by (force simp: preds_def nodes_def)
  ultimately show ?thesis
    by (metis count_edges_def distinct_card length_map)
qed

lemma indegrees_spec:
  assumes "graph_ok g"
  shows "indegree (indegrees g) n = int (card (preds g n))" "fst ` set (indegrees g) = nodes g" "hmap_ok (indegrees g)"
proof -
  have d: "\<forall>(p, cs) \<in> set g. distinct cs" and ok: "hmap_ok g" using assms by (auto simp: graph_ok_def)
  note f = indegrees_fold[OF d, of "[]", folded indegrees_def]
  show "indegree (indegrees g) n = int (card (preds g n))"
    using f(1)[of n] count_preds[OF ok] by (simp add: indegree_def[of "[]"])
  show "hmap_ok (indegrees g)" using f(3) by simp
  have "set cs \<subseteq> nodes g" if "(n, cs) \<in> set g" for n cs using that assms by (auto simp: graph_ok_def)
  then have "\<Union> (set ` snd ` set g) \<subseteq> nodes g" by fastforce
  then show "fst ` set (indegrees g) = nodes g" using f(2) by auto
qed

section \<open>The loop\<close>

lemma release_spec:
  "distinct cs \<Longrightarrow> release cs (d, q) = (d', q') \<Longrightarrow>
     (\<forall>n. indegree d' n = indegree d n - (if n \<in> set cs then 1 else 0)) \<and> q' = q @ filter (\<lambda>c. indegree d c = 1) cs"
proof (induction cs arbitrary: d q)
  case (Cons c cs)
  let ?d = "adjust (- 1) d c"
  have same: "filter (\<lambda>x. indegree ?d x = 1) cs = filter (\<lambda>x. indegree d x = 1) cs"
    using Cons.prems(1) by (intro filter_cong) auto
  from Cons.IH[of ?d "if indegree ?d c = 0 then q @ [c] else q"] Cons.prems same show ?case
    by (auto simp: Let_def)
qed simp

text \<open>What holds at the head of the loop: the order so far is topological, the indegrees count the
  references from nodes not yet in the order, and the queue holds the nodes that have none left.\<close>

definition sorting :: "graph \<Rightarrow> string list \<Rightarrow> (string, int) hmap \<Rightarrow> string list \<Rightarrow> bool" where
  "sorting g queue d order \<longleftrightarrow> distinct (order @ queue) \<and> set (order @ queue) \<subseteq> nodes g \<and> topological g order
     \<and> (\<forall>n. indegree d n = int (card (preds g n - set order)))
     \<and> (\<forall>n\<in>nodes g. n \<in> set (order @ queue) \<longleftrightarrow> indegree d n = 0)"

lemma topological_snoc: "topological g order \<Longrightarrow> preds g n \<subseteq> set order \<Longrightarrow> topological g (order @ [n])"
  unfolding topological_def
proof (intro allI impI)
  fix xs m ys
  assume t: "\<forall>xs n ys. order = xs @ n # ys \<longrightarrow> preds g n \<subseteq> set xs" "preds g n \<subseteq> set order"
    and o: "order @ [n] = xs @ m # ys"
  show "preds g m \<subseteq> set xs"
    using o t by (cases ys rule: rev_cases) auto
qed

lemma sorting_start:
  assumes "graph_ok g"
  shows "sorting g (roots (indegrees g)) (indegrees g) []"
proof -
  note i = indegrees_spec[OF assms]
  have "distinct (roots (indegrees g))"
    using i(3) by (simp add: roots_def hmap_ok_def distinct_map_filter)
  moreover have "n \<in> set (roots (indegrees g)) \<longleftrightarrow> n \<in> nodes g \<and> indegree (indegrees g) n = 0" for n
  proof -
    have "(n, 0) \<in> set (indegrees g) \<longleftrightarrow> n \<in> nodes g \<and> indegree (indegrees g) n = 0"
      using map_of_eq_Some_iff[of "indegrees g" n 0] map_of_eq_None_iff[of "indegrees g" n] i(2,3)
      by (cases "map_of (indegrees g) n") (simp_all add: indegree_def hmap_ok_def)
    then show ?thesis by (force simp: roots_def)
  qed
  ultimately show ?thesis
    using i(1) by (auto simp: sorting_def topological_def)
qed

lemma card_minus: "finite A \<Longrightarrow> card (A - insert x B) = card (A - B) - (if x \<in> A \<and> x \<notin> B then 1 else 0)"
proof -
  assume "finite A"
  moreover have "A - insert x B = (A - B) - {x}" by auto
  ultimately show ?thesis by (simp add: card_Diff_singleton_if)
qed

lemma sorting_step:
  assumes ok: "graph_ok g" and s: "sorting g (node # queue) d order"
    and r: "release (edges g node) (d, queue) = (d', queue')"
  shows "sorting g queue' d' (order @ [node])"
proof -
  from s have dist: "distinct (order @ node # queue)" and sub: "set (order @ node # queue) \<subseteq> nodes g"
    and top: "topological g order" and ind: "\<And>n. indegree d n = int (card (preds g n - set order))"
    and mem: "\<And>n. n \<in> nodes g \<Longrightarrow> n \<in> set (order @ node # queue) \<longleftrightarrow> indegree d n = 0"
    by (auto simp: sorting_def)
  note e = graph_ok_edges[OF ok, of node]
  from release_spec[OF e(1) r] have d': "\<And>n. indegree d' n = indegree d n - (if n \<in> set (edges g node) then 1 else 0)"
    and q': "queue' = queue @ filter (\<lambda>c. indegree d c = 1) (edges g node)" by auto
  have pred: "node \<in> preds g n \<longleftrightarrow> n \<in> set (edges g node)" for n
    using sub by (simp add: preds_def)
  have "indegree d node = 0" using mem[of node] sub by simp
  then have "preds g node \<subseteq> set order" by (simp add: ind)
  then have top': "topological g (order @ [node])" by (rule topological_snoc[OF top])
  have pos: "0 < card (preds g n - set order)" if "n \<in> set (edges g node)" for n
    using that dist pred[of n] by (auto simp: card_gt_0_iff)
  have ind': "indegree d' n = int (card (preds g n - set (order @ [node])))" for n
    using pos[of n] pred[of n] dist by (auto simp: d' ind card_minus)
  have fresh: "n \<notin> set (order @ node # queue)" if "n \<in> set (edges g node)" for n
  proof -
    have "indegree d n \<noteq> 0" using pos[OF that] unfolding ind by linarith
    with mem[of n] e(2) that show ?thesis by blast
  qed
  have mem': "n \<in> set ((order @ [node]) @ queue') \<longleftrightarrow> indegree d' n = 0" if "n \<in> nodes g" for n
    using mem[OF that] fresh[of n] pos[of n] by (auto simp: q' d')
  show ?thesis
    unfolding sorting_def
    using dist sub top' ind' mem' fresh e by (auto simp: q')
qed

lemma toposort_sorting:
  "graph_ok g \<Longrightarrow> sorting g queue d order \<Longrightarrow> \<exists>d'. sorting g [] d' (toposort g queue d order)"
proof (induction g queue d order rule: toposort.induct)
  case (2 g node queue d order)
  obtain d' queue' where r: "release (edges g node) (d, queue) = (d', queue')" by force
  from 2(1)[OF r[symmetric] 2(2) sorting_step[OF 2(2,3) r]] r show ?case by simp
qed auto

section \<open>Cycles\<close>

lemma references_finite: "graph_ok g \<Longrightarrow> finite (references g)"
proof -
  assume ok: "graph_ok g"
  have "references g \<subseteq> nodes g \<times> nodes g"
    using graph_ok_edges(2)[OF ok] edges_none by (fastforce simp: references_def)
  then show ?thesis by (rule finite_subset) simp
qed

lemma topological_acyclic:
  assumes ok: "graph_ok g" and t: "topological g order" "set order = nodes g" "distinct order"
  shows "acyclic (references g)"
proof -
  define pos where "pos n = (LEAST i. i < length order \<and> order ! i = n)" for n
  have pos: "pos (order ! i) = i" if "i < length order" for i
    unfolding pos_def using that t(3) by (intro Least_equality) (auto simp: nth_eq_iff_index_eq)
  have less: "pos p < pos c" if "(p, c) \<in> references g" for p c
  proof -
    have "c \<in> nodes g" using that graph_ok_edges(2)[OF ok] by (auto simp: references_def)
    then obtain i where i: "i < length order" "order ! i = c" using t(2) by (metis in_set_conv_nth)
    then have "order = take i order @ c # drop (Suc i) order" using id_take_nth_drop[OF i(1)] by simp
    with t(1) have "preds g c \<subseteq> set (take i order)" unfolding topological_def by blast
    moreover have "p \<in> preds g c"
      using that edges_none[of p g] by (cases "p \<in> nodes g") (auto simp: references_def preds_def)
    ultimately obtain j where "j < i" "j < length order" "order ! j = p"
      by (metis in_set_conv_nth length_take min_less_iff_conj nth_take subsetD)
    with pos[of j] pos[of i] i show ?thesis by simp
  qed
  have "pos p < pos c" if "(p, c) \<in> (references g)\<^sup>+" for p c
    using that less by (induction rule: trancl_induct) (auto intro: less_trans)
  then show ?thesis by (metis acyclic_def less_irrefl)
qed

lemma stuck_cyclic:
  assumes ok: "graph_ok g" and R: "R \<noteq> {}" "\<And>n. n \<in> R \<Longrightarrow> \<exists>p\<in>R. (p, n) \<in> references g"
  shows "\<not> acyclic (references g)"
proof
  assume "acyclic (references g)"
  with references_finite[OF ok] have "wf (references g)" by (rule finite_acyclic_wf)
  with R(1) obtain z where "z \<in> R" "\<And>y. (y, z) \<in> references g \<Longrightarrow> y \<notin> R"
    by (metis wf_eq_minimal ex_in_conv)
  with R(2) show False by blast
qed

section \<open>References of a node\<close>

text \<open>The components that a node and its groups name.\<close>

fun refs_child :: "xml \<Rightarrow> string list" and refs_children :: "xml list \<Rightarrow> string list" where
  "refs_child (Node nm attrs cs) =
     (if strcaseeq nm ''component'' then [as_string (map_of attrs ''name'')]
      else if strcaseeq nm ''group'' then refs_children cs else [])"
| "refs_children [] = []"
| "refs_children (x # xs) = refs_child x @ refs_children xs"

text \<open>A specification depends on the components its node names only.\<close>

lemma build_agree:
  "(\<And>c. c \<in> set (refs_child x) \<Longrightarrow> component_of comps c = component_of comps' c)
     \<Longrightarrow> build_child pg names comps x b = build_child pg names comps' x b"
  "(\<And>c. c \<in> set (refs_children xs) \<Longrightarrow> component_of comps c = component_of comps' c)
     \<Longrightarrow> build_children pg names comps xs b = build_children pg names comps' xs b"
proof (induction pg names comps x b and pg names comps xs b rule: build_child_build_children.induct)
  case (1 pg names comps nm attrs cs b)
  then show ?case by (auto simp: Let_def cong: sbind_cong)
next
  case (3 pg names comps x xs b)
  then show ?case by (auto intro!: sbind_cong)
qed simp

lemma build_group_agree:
  "(\<And>c. c \<in> set (refs_children (xn_children x)) \<Longrightarrow> component_of comps c = component_of comps' c)
     \<Longrightarrow> build_group pg names comps x = build_group pg names comps' x"
  using build_agree(2)[of "xn_children x" comps comps'] by (simp add: build_group_def)

lemma build_group_built: "build_group pg names comps x = Inr spec \<Longrightarrow> spec_built spec"
  by (auto simp: build_group_def finish_group_def elim!: sbind_InrE)

section \<open>Validation\<close>

lemma add_edge_sel:
  "edges (add_edge p c g) n = (if n = p then (if c \<in> set (edges g p) then edges g p else edges g p @ [c]) else edges g n)"
  "nodes (add_edge p c g) = insert p (nodes g)" "hmap_ok g \<Longrightarrow> hmap_ok (add_edge p c g)"
  by (cases "map_of g p"; simp add: add_edge_def edges_def Let_def nodes_def)+

lemma graph_ok_iff:
  "graph_ok g \<longleftrightarrow> hmap_ok g \<and> (\<forall>n. distinct (edges g n) \<and> set (edges g n) \<subseteq> nodes g)"
proof
  assume r: "hmap_ok g \<and> (\<forall>n. distinct (edges g n) \<and> set (edges g n) \<subseteq> nodes g)"
  have "distinct cs \<and> set cs \<subseteq> nodes g" if "(n, cs) \<in> set g" for n cs
    using r edges_node[OF _ that] by metis
  with r show "graph_ok g" by (auto simp: graph_ok_def)
next
  assume ok: "graph_ok g"
  then show "hmap_ok g \<and> (\<forall>n. distinct (edges g n) \<and> set (edges g n) \<subseteq> nodes g)"
    using graph_ok_edges[OF ok] by (auto simp: graph_ok_def)
qed

lemma add_edge_ok: "graph_ok g \<Longrightarrow> p \<in> nodes g \<Longrightarrow> c \<in> nodes g \<Longrightarrow> graph_ok (add_edge p c g)"
  unfolding graph_ok_iff by (auto simp: add_edge_sel)

text \<open>Validation records every component that a node names, and nothing is forgotten.\<close>

definition grows :: "string \<Rightarrow> string list \<Rightarrow> graph \<Rightarrow> graph \<Rightarrow> bool" where
  "grows parent refs g g' \<longleftrightarrow> graph_ok g' \<and> nodes g' = nodes g \<and> set refs \<subseteq> set (edges g' parent)
     \<and> (\<forall>n. set (edges g n) \<subseteq> set (edges g' n))"

lemma grows_refl: "graph_ok g \<Longrightarrow> grows parent [] g g"
  by (simp add: grows_def)

lemma grows_trans: "grows parent r1 g g1 \<Longrightarrow> grows parent r2 g1 g2 \<Longrightarrow> grows parent (r1 @ r2) g g2"
  unfolding grows_def by (simp, blast)

lemma validate_grows:
  "graph_ok g \<Longrightarrow> parent \<in> nodes g \<Longrightarrow> parent \<noteq> [] \<Longrightarrow> set comps \<subseteq> nodes g
     \<Longrightarrow> validate_child names comps parent x g = Inr g' \<Longrightarrow> grows parent (refs_child x) g g'"
  "graph_ok g \<Longrightarrow> parent \<in> nodes g \<Longrightarrow> parent \<noteq> [] \<Longrightarrow> set comps \<subseteq> nodes g
     \<Longrightarrow> validate_children names comps parent xs g = Inr g' \<Longrightarrow> grows parent (refs_children xs) g g'"
proof (induction names comps parent x g and names comps parent xs g arbitrary: g' and g' rule: validate_child_validate_children.induct)
  case (1 names comps parent nm attrs cs g)
  show ?case
  proof (cases "strcaseeq nm ''component''")
    case True
    let ?ref = "as_string (map_of attrs ''name'')"
    from 1 True have "?ref \<in> nodes g" "g' = add_edge parent ?ref g"
      by (auto simp: Let_def dict_error_def split: if_splits)
    with 1(2,3) add_edge_ok[of g parent ?ref] True show ?thesis
      by (auto simp: grows_def add_edge_sel)
  next
    case False
    with 1 grows_refl show ?thesis by (auto simp: Let_def dict_error_def split: if_splits)
  qed
next
  case (2 names comps parent g)
  then show ?case by (simp add: grows_refl)
next
  case (3 names comps parent x xs g)
  from 3(7) obtain g1 where g1: "validate_child names comps parent x g = Inr g1"
    "validate_children names comps parent xs g1 = Inr g'" by (auto elim: sbind_InrE)
  from 3(1)[OF 3(3-6) g1(1)] have a: "grows parent (refs_child x) g g1" .
  then have "graph_ok g1" "nodes g1 = nodes g" by (simp_all add: grows_def)
  with 3(2)[OF g1(1)] 3(4-6) g1(2) have "grows parent (refs_children xs) g1 g'" by simp
  with grows_trans[OF a] show ?case by simp
qed

definition node_name :: "xml \<Rightarrow> string" where "node_name x = as_string (attribute x ''name'')"

lemma validate_components_ok:
  "validate_components names comps xs g = Inr g' \<Longrightarrow> graph_ok g \<Longrightarrow> set comps \<subseteq> nodes g
     \<Longrightarrow> \<forall>x\<in>set xs. node_name x \<in> nodes g \<and> node_name x \<noteq> []
     \<Longrightarrow> graph_ok g' \<and> nodes g' = nodes g \<and> (\<forall>n. set (edges g n) \<subseteq> set (edges g' n))
       \<and> (\<forall>x\<in>set xs. set (refs_children (xn_children x)) \<subseteq> set (edges g' (node_name x)))"
proof (induction xs arbitrary: g)
  case (Cons x xs)
  from Cons.prems(1) obtain g1 where g1: "validate_children names comps (node_name x) (xn_children x) g = Inr g1"
    "validate_components names comps xs g1 = Inr g'" by (auto simp: node_name_def elim: sbind_InrE)
  have "grows (node_name x) (refs_children (xn_children x)) g g1"
    using validate_grows(2)[OF Cons.prems(2) _ _ Cons.prems(3) g1(1)] Cons.prems(4) by simp
  then have "graph_ok g1" "nodes g1 = nodes g" "\<And>n. set (edges g n) \<subseteq> set (edges g1 n)"
    "set (refs_children (xn_children x)) \<subseteq> set (edges g1 (node_name x))" by (auto simp: grows_def)
  with Cons.IH[OF g1(2)] Cons.prems(3,4) show ?case by (simp, blast)
qed simp

section \<open>Registration\<close>

definition components_ok :: "xml list \<Rightarrow> components \<Rightarrow> bool" where
  "components_ok xs cm \<longleftrightarrow> cm_names cm = map node_name xs \<and> distinct (cm_names cm) \<and> [] \<notin> set (cm_names cm)
     \<and> hmap_ok (cm_graph cm) \<and> nodes (cm_graph cm) = set (cm_names cm) \<and> (\<forall>n. edges (cm_graph cm) n = [])
     \<and> (\<forall>x\<in>set xs. map_of (cm_xml cm) (node_name x) = Some x)"

lemma register_ok:
  "register_components xs cm = Inr cm' \<Longrightarrow> components_ok before cm \<Longrightarrow> components_ok (before @ xs) cm'"
proof (induction xs arbitrary: before cm)
  case (Cons x xs)
  let ?cm = "\<lparr>cm_names = cm_names cm @ [node_name x], cm_graph = hmap_set (cm_graph cm) (node_name x) [],
     cm_xml = hmap_set (cm_xml cm) (node_name x) x\<rparr>"
  from Cons.prems have new: "node_name x \<noteq> []" "node_name x \<notin> set (cm_names cm)" "register_components xs ?cm = Inr cm'"
    by (auto simp: node_name_def Let_def dict_error_def split: if_splits)
  have other: "node_name y \<noteq> node_name x" if "y \<in> set before" for y
    using Cons.prems(2) new(2) imageI[OF that, of node_name] by (auto simp: components_ok_def)
  then have "components_ok (before @ [x]) ?cm"
    using Cons.prems(2) new(1,2) by (auto simp: components_ok_def nodes_def edges_def)
  from Cons.IH[OF new(3) this] show ?case by simp
qed simp

section \<open>Building in order\<close>

lemma component_of_set: "component_of (hmap_set comps n s) m = (if m = n then s else component_of comps m)"
  by (simp add: component_of_def)

lemma build_components_complete:
  assumes "build_components pg names xmls todo comps = Inr comps'" "distinct todo"
    and "\<And>xs n ys. todo = xs @ n # ys \<Longrightarrow> set (refs_children (xn_children (the (map_of xmls n)))) \<inter> set (n # ys) = {}"
  shows "(\<forall>n\<in>set todo. build_group pg names comps' (the (map_of xmls n)) = Inr (component_of comps' n))
    \<and> (\<forall>n. n \<notin> set todo \<longrightarrow> component_of comps' n = component_of comps n)"
  using assms
proof (induction todo arbitrary: comps)
  case (Cons n rest)
  from Cons.prems(1) obtain spec where b: "build_group pg names comps (the (map_of xmls n)) = Inr spec"
    "build_components pg names xmls rest (hmap_set comps n spec) = Inr comps'" by (auto elim: sbind_InrE)
  have "\<And>xs m ys. rest = xs @ m # ys \<Longrightarrow> set (refs_children (xn_children (the (map_of xmls m)))) \<inter> set (m # ys) = {}"
    using Cons.prems(3)[of "n # _"] by simp
  with Cons.IH[OF b(2)] Cons.prems(2) have IH:
    "\<forall>m\<in>set rest. build_group pg names comps' (the (map_of xmls m)) = Inr (component_of comps' m)"
    "\<And>m. m \<notin> set rest \<Longrightarrow> component_of comps' m = (if m = n then spec else component_of comps m)"
    by (auto simp: component_of_set)
  have "build_group pg names comps' (the (map_of xmls n)) = build_group pg names comps (the (map_of xmls n))"
  proof (rule build_group_agree)
    fix c
    assume "c \<in> set (refs_children (xn_children (the (map_of xmls n))))"
    with Cons.prems(3)[of "[]" n rest] have "c \<notin> set rest" "c \<noteq> n" by auto
    with IH(2)[of c] show "component_of comps' c = component_of comps c" by simp
  qed
  with b(1) IH Cons.prems(2) show ?case by auto
qed simp

lemma topological_rev:
  assumes "topological g order" "distinct order" "rev order = xs @ n # ys"
    and "\<And>c. c \<in> R \<Longrightarrow> c \<in> set (edges g n)"
  shows "R \<inter> set (n # ys) = {}"
proof (rule ccontr)
  assume "\<not> ?thesis"
  then obtain c where c: "c \<in> R" "c \<in> set (n # ys)" by auto
  have o: "order = rev ys @ n # rev xs" using assms(3) by (metis rev_append rev_rev_ident rev.simps(2) append_assoc append_Cons append_Nil)
  have n: "n \<in> preds g c" using assms(4)[OF c(1)] edges_none[of n g] by (cases "n \<in> nodes g") (auto simp: preds_def)
  show False
  proof (cases "c = n")
    case True
    with assms(1,2) o n show False by (fastforce simp: topological_def)
  next
    case False
    with c(2) obtain as bs where "rev ys = as @ c # bs" by (metis set_ConsD set_rev split_list)
    with o have "order = as @ c # (bs @ n # rev xs)" by simp
    with assms(1) n have "n \<in> set as" unfolding topological_def by blast
    with \<open>order = as @ c # (bs @ n # rev xs)\<close> assms(2) show False by auto
  qed
qed

section \<open>Messages\<close>

definition bodies_ok :: "pugi \<Rightarrow> (string, int) hmap \<Rightarrow> (string, group_spec) hmap \<Rightarrow> xml list \<Rightarrow> dictionary \<Rightarrow> bool" where
  "bodies_ok pg names comps msgs d \<longleftrightarrow>
     (\<forall>t. map_of (d_bodySpecs d) t = (case List.find (\<lambda>x. as_string (attribute x ''msgtype'') = t) msgs of
        None \<Rightarrow> None | Some x \<Rightarrow> (case build_group pg names comps x of Inr s \<Rightarrow> Some s | Inl _ \<Rightarrow> None)))
   \<and> (\<forall>x\<in>set msgs. \<exists>s. build_group pg names comps x = Inr s)
   \<and> (\<forall>ch. of_char ch < FAST_MSGTYPE_SIZE \<longrightarrow> d_bodySpecsFast d (of_char ch) = map_of (d_bodySpecs d) [ch])"

lemma find_append: "List.find P (xs @ ys) = (case List.find P xs of None \<Rightarrow> List.find P ys | Some x \<Rightarrow> Some x)"
  by (induction xs) auto

lemma build_messages_ok:
  "build_messages pg names comps msgs d = Inr d' \<Longrightarrow> bodies_ok pg names comps before d
     \<Longrightarrow> bodies_ok pg names comps (before @ msgs) d' \<and> d_headerSpec d' = d_headerSpec d \<and> d_trailerSpec d' = d_trailerSpec d
       \<and> d_fieldTypes d' = d_fieldTypes d \<and> d_fieldsFallback d' = d_fieldsFallback d"
proof (induction msgs arbitrary: before d)
  case (Cons x msgs)
  let ?t = "as_string (attribute x ''msgtype'')"
  let ?fast = "\<lambda>spec. case ?t of [ch] \<Rightarrow> if of_char ch < FAST_MSGTYPE_SIZE then (d_bodySpecsFast d)(of_char ch := Some spec) else d_bodySpecsFast d
                | _ \<Rightarrow> d_bodySpecsFast d"
  from Cons.prems(1) obtain spec where new: "?t \<noteq> []" "map_of (d_bodySpecs d) ?t = None"
    and b: "build_group pg names comps x = Inr spec"
    and r: "build_messages pg names comps msgs (d\<lparr>d_bodySpecs := hmap_set (d_bodySpecs d) ?t spec, d_bodySpecsFast := ?fast spec\<rparr>) = Inr d'"
    by (auto simp: Let_def dict_error_def split: if_splits elim!: sbind_InrE)
  have ok: "bodies_ok pg names comps before d" by (rule Cons.prems(2))
  have none: "List.find (\<lambda>y. as_string (attribute y ''msgtype'') = ?t) before = None"
  proof (rule ccontr)
    assume "\<not> ?thesis"
    then obtain y where y: "List.find (\<lambda>y. as_string (attribute y ''msgtype'') = ?t) before = Some y" by blast
    then have "y \<in> set before" by (auto simp: find_Some_iff)
    with ok obtain s where "build_group pg names comps y = Inr s" by (auto simp: bodies_ok_def)
    with ok y new(2) show False by (auto simp: bodies_ok_def)
  qed
  have "bodies_ok pg names comps (before @ [x]) (d\<lparr>d_bodySpecs := hmap_set (d_bodySpecs d) ?t spec, d_bodySpecsFast := ?fast spec\<rparr>)"
    unfolding bodies_ok_def
  proof (intro conjI allI impI ballI)
    fix t
    show "map_of (d_bodySpecs (d\<lparr>d_bodySpecs := hmap_set (d_bodySpecs d) ?t spec, d_bodySpecsFast := ?fast spec\<rparr>)) t
      = (case List.find (\<lambda>x. as_string (attribute x ''msgtype'') = t) (before @ [x]) of
        None \<Rightarrow> None | Some x \<Rightarrow> (case build_group pg names comps x of Inr s \<Rightarrow> Some s | Inl _ \<Rightarrow> None))"
      using ok none b by (auto simp: bodies_ok_def find_append split: option.splits)
  next
    fix y
    assume "y \<in> set (before @ [x])"
    with ok b show "\<exists>s. build_group pg names comps y = Inr s" by (auto simp: bodies_ok_def)
  next
    fix ch :: char
    assume "of_char ch < FAST_MSGTYPE_SIZE"
    with ok show "d_bodySpecsFast (d\<lparr>d_bodySpecs := hmap_set (d_bodySpecs d) ?t spec, d_bodySpecsFast := ?fast spec\<rparr>) (of_char ch)
      = map_of (d_bodySpecs (d\<lparr>d_bodySpecs := hmap_set (d_bodySpecs d) ?t spec, d_bodySpecsFast := ?fast spec\<rparr>)) [ch]"
      by (auto simp: bodies_ok_def split: list.splits)
  qed
  from Cons.IH[OF r this] show ?case by simp
qed simp

section \<open>Properties\<close>

lemma toposort_result:
  assumes "graph_ok g"
  obtains order where "order = toposort g (roots (indegrees g)) (indegrees g) []"
    "distinct order" "set order \<subseteq> nodes g" "topological g order" "length g = card (nodes g)" "length order = card (set order)"
    "\<And>n. n \<in> nodes g \<Longrightarrow> n \<in> set order \<longleftrightarrow> preds g n \<subseteq> set order"
proof -
  define order where "order = toposort g (roots (indegrees g)) (indegrees g) []"
  from toposort_sorting[OF assms sorting_start[OF assms]] obtain d where
    s: "distinct order" "set order \<subseteq> nodes g" "topological g order"
    and m: "\<And>n. n \<in> nodes g \<Longrightarrow> n \<in> set order \<longleftrightarrow> preds g n \<subseteq> set order"
    by (auto simp: order_def sorting_def)
  have "length g = card (nodes g)" "length order = card (set order)"
    using assms s(1) distinct_card[of "map fst g"] distinct_card[of order] by (simp_all add: graph_ok_def hmap_ok_def nodes_def)
  with s m show thesis by (intro that[OF order_def])
qed

lemma sort_components_Inr:
  assumes "graph_ok g" "sort_components g = Inr order"
  shows "distinct order" "set order = nodes g" "topological g order"
proof -
  obtain os where os: "os = toposort g (roots (indegrees g)) (indegrees g) []" "distinct os" "set os \<subseteq> nodes g" "topological g os"
      "length g = card (nodes g)" "length os = card (set os)"
    using toposort_result[OF assms(1)] by metis
  with assms(2) have o: "order = os" "length os = length g"
    by (auto simp: sort_components_def Let_def dict_error_def split: if_splits)
  moreover have "finite (nodes g)" by (simp add: nodes_def)
  ultimately have "set os = nodes g" using os(3,5,6) by (simp add: card_subset_eq)
  then show "distinct order" "set order = nodes g" "topological g order" using os o by simp_all
qed

text \<open>C23: the sort of the components is complete and correct: it fails exactly when the components
  refer to each other in a cycle, and otherwise lists every component once, each after all the
  components that refer to it.\<close>

theorem components_sorted:
  assumes "graph_ok g"
  shows "case sort_components g of
      Inr order \<Rightarrow> distinct order \<and> set order = nodes g \<and> topological g order \<and> acyclic (references g)
    | Inl e \<Rightarrow> \<not> acyclic (references g)"
proof -
  obtain order where order_def: "order = toposort g (roots (indegrees g)) (indegrees g) []"
    and s: "distinct order" "set order \<subseteq> nodes g" "topological g order"
    and len: "length g = card (nodes g)" "length order = card (set order)"
    and m: "\<And>n. n \<in> nodes g \<Longrightarrow> n \<in> set order \<longleftrightarrow> preds g n \<subseteq> set order"
    using toposort_result[OF assms] by metis
  show ?thesis
  proof (cases "set order = nodes g")
    case True
    with topological_acyclic[OF assms s(3) True s(1)] s len show ?thesis
      by (simp add: sort_components_def Let_def flip: order_def)
  next
    case False
    with s(2) have ne: "nodes g - set order \<noteq> {}" by auto
    have "card (set order) < card (nodes g)" using False s(2) by (simp add: psubset_card_mono psubsetI)
    moreover have "\<not> acyclic (references g)"
    proof (rule stuck_cyclic[OF assms ne])
      fix n
      assume n: "n \<in> nodes g - set order"
      with m[of n] obtain p where "p \<in> preds g n" "p \<notin> set order" by auto
      then show "\<exists>p\<in>nodes g - set order. (p, n) \<in> references g" by (auto simp: preds_def references_def)
    qed
    ultimately show ?thesis using len by (simp add: sort_components_def Let_def dict_error_def flip: order_def)
  qed
qed

definition demo_graph :: graph where "demo_graph = [(''Parties'', [''Sub'']), (''Sub'', [])]"

lemma components_sorted_witness: "sort_components demo_graph = Inr [''Parties'', ''Sub''] \<and> acyclic (references demo_graph)"
proof -
  have ok: "graph_ok demo_graph" by (simp add: demo_graph_def graph_ok_def hmap_ok_def nodes_def)
  have s: "sort_components demo_graph = Inr [''Parties'', ''Sub'']" by code_simp
  from components_sorted[OF ok] s show ?thesis by simp
qed

definition section_of :: "xml \<Rightarrow> string \<Rightarrow> xml list" where
  "section_of doc name = children (child (child (Some doc) ''fix'') name)"

text \<open>Registering, checking, sorting and building: every component is built from finished ones.\<close>

lemma components_finished:
  assumes cm: "register_components xs \<lparr>cm_names = [], cm_graph = [], cm_xml = []\<rparr> = Inr cm"
    and g: "validate_components names (cm_names cm) xs (cm_graph cm) = Inr g"
    and ord: "sort_components g = Inr order"
    and comps: "build_components pg names (cm_xml cm) (rev order) (map (\<lambda>n. (n, empty_spec)) (cm_names cm)) = Inr comps"
  shows "\<forall>x\<in>set xs. build_group pg names comps x = Inr (component_of comps (node_name x))"
proof -
  have "components_ok [] \<lparr>cm_names = [], cm_graph = [], cm_xml = []\<rparr>"
    by (simp add: components_ok_def nodes_def edges_def)
  from register_ok[OF cm this] have reg: "components_ok xs cm" by simp
  then have g0: "graph_ok (cm_graph cm)" by (auto simp: graph_ok_iff components_ok_def)
  have named_nodes: "\<forall>x\<in>set xs. node_name x \<in> nodes (cm_graph cm) \<and> node_name x \<noteq> []"
  proof
    fix x
    assume "x \<in> set xs"
    then have "node_name x \<in> set (cm_names cm)" using reg by (simp add: components_ok_def)
    moreover have "nodes (cm_graph cm) = set (cm_names cm)" "[] \<notin> set (cm_names cm)"
      using reg unfolding components_ok_def by blast+
    ultimately show "node_name x \<in> nodes (cm_graph cm) \<and> node_name x \<noteq> []" by metis
  qed
  have "set (cm_names cm) \<subseteq> nodes (cm_graph cm)" using reg by (simp add: components_ok_def)
  from validate_components_ok[OF g g0 this named_nodes] have val: "graph_ok g" "nodes g = nodes (cm_graph cm)"
    "\<And>x. x \<in> set xs \<Longrightarrow> set (refs_children (xn_children x)) \<subseteq> set (edges g (node_name x))" by auto
  note so = sort_components_Inr[OF val(1) ord]
  have at: "the (map_of (cm_xml cm) (node_name x)) = x" if "x \<in> set xs" for x
    using reg that by (simp add: components_ok_def)
  have named: "\<exists>x\<in>set xs. node_name x = n" if "n \<in> set order" for n
    using that so(2) val(2) reg by (auto simp: components_ok_def)
  have later: "set (refs_children (xn_children (the (map_of (cm_xml cm) n)))) \<inter> set (n # ys) = {}"
    if o: "rev order = bs @ n # ys" for bs n ys
  proof (rule topological_rev[OF so(3,1) o])
    fix c
    assume c: "c \<in> set (refs_children (xn_children (the (map_of (cm_xml cm) n))))"
    have "n \<in> set order" using o by (metis in_set_conv_decomp set_rev)
    with named obtain x where "x \<in> set xs" "node_name x = n" by blast
    with c at val(3) show "c \<in> set (edges g n)" by fastforce
  qed
  from build_components_complete[OF comps _ later] so(1) have
    "\<forall>n\<in>set order. build_group pg names comps (the (map_of (cm_xml cm) n)) = Inr (component_of comps n)" by simp
  then show ?thesis
    using named_nodes so(2) val(2) at by metis
qed

text \<open>C22: a dictionary that loads is complete. Every component was built from the finished components it
  names, and header, trailer and each message are built from them; the fast table of one-letter
  message types agrees with the map; and every specification has its lookup arrays built, which the
  parser relies on.\<close>

theorem loaded_dictionary_complete:
  assumes "load_dictionary pg path = Inr d" "pg_load_file pg path = Inr doc"
  shows "\<exists>names comps header trailer.
      (\<forall>x\<in>set (section_of doc ''components''). build_group pg names comps x = Inr (component_of comps (node_name x)))
    \<and> child (child (Some doc) ''fix'') ''header'' = Some header \<and> build_group pg names comps header = Inr (d_headerSpec d)
    \<and> child (child (Some doc) ''fix'') ''trailer'' = Some trailer \<and> build_group pg names comps trailer = Inr (d_trailerSpec d)
    \<and> bodies_ok pg names comps (section_of doc ''messages'') d
    \<and> (\<forall>t. getMessageSpecRaw d t = map_of (d_bodySpecs d) t)
    \<and> spec_built (d_headerSpec d) \<and> spec_built (d_trailerSpec d)
    \<and> (\<forall>t spec. getMessageSpecRaw d t = Some spec \<longrightarrow> spec_built spec)"
proof -
  let ?root = "child (Some doc) ''fix''" and ?xs = "section_of doc ''components''"
  from assms obtain header trailer where h: "child ?root ''header'' = Some header" "child ?root ''trailer'' = Some trailer"
    by (auto simp: load_dictionary_def Let_def dict_error_def split: option.splits)
  with assms obtain ft :: field_tables and cm g order comps hs ts where
    cm: "register_components ?xs \<lparr>cm_names = [], cm_graph = [], cm_xml = []\<rparr> = Inr cm"
    and g: "validate_components (ft_names ft) (cm_names cm) ?xs (cm_graph cm) = Inr g"
    and ord: "sort_components g = Inr order"
    and comps: "build_components pg (ft_names ft) (cm_xml cm) (rev order) (map (\<lambda>n. (n, empty_spec)) (cm_names cm)) = Inr comps"
    and hs: "build_group pg (ft_names ft) comps header = Inr hs"
    and ts: "build_group pg (ft_names ft) comps trailer = Inr ts"
    and m: "build_messages pg (ft_names ft) comps (section_of doc ''messages'')
      \<lparr>d_headerSpec = hs, d_trailerSpec = ts, d_bodySpecs = [], d_bodySpecsFast = (\<lambda>_. None),
       d_fieldTypes = ft_types ft, d_fieldsFallback = ft_fallback ft\<rparr> = Inr d"
    unfolding load_dictionary_def Let_def section_of_def by simp (elim sbind_InrE, blast)
  note comp = components_finished[OF cm g ord comps]
  have "bodies_ok pg (ft_names ft) comps [] \<lparr>d_headerSpec = hs, d_trailerSpec = ts, d_bodySpecs = [],
     d_bodySpecsFast = (\<lambda>_. None), d_fieldTypes = ft_types ft, d_fieldsFallback = ft_fallback ft\<rparr>"
    by (simp add: bodies_ok_def)
  from build_messages_ok[OF m this] have body: "bodies_ok pg (ft_names ft) comps (section_of doc ''messages'') d"
    "d_headerSpec d = hs" "d_trailerSpec d = ts" by auto
  have "of_char ch < FAST_MSGTYPE_SIZE \<longrightarrow> d_bodySpecsFast d (of_char ch) = map_of (d_bodySpecs d) [ch]" for ch :: char
    using body(1) unfolding bodies_ok_def by blast
  then have raw: "getMessageSpecRaw d t = map_of (d_bodySpecs d) t" for t
    by (simp add: getMessageSpecRaw_def Let_def split: list.split)
  have "spec_built spec" if "getMessageSpecRaw d t = Some spec" for t spec
    using that body(1) by (auto simp: raw bodies_ok_def split: option.splits sum.splits dest: build_group_built)
  with comp h hs ts body raw build_group_built show ?thesis by metis
qed

text \<open>A small dictionary: a component with a group, used by the header and by a message.\<close>

definition demo_node :: "string \<Rightarrow> string \<Rightarrow> xml list \<Rightarrow> xml" where
  "demo_node kind name cs = Node kind [(''name'', name), (''required'', ''Y'')] cs"

definition demo_field :: "string \<Rightarrow> string \<Rightarrow> string \<Rightarrow> xml" where
  "demo_field number name type = Node ''field'' [(''number'', number), (''name'', name), (''type'', type)] []"

definition demo_xml :: xml where
  "demo_xml = Node [] []
     [Node ''fix'' []
       [Node ''header'' [] [demo_node ''field'' ''MsgType'' []], Node ''trailer'' [] [demo_node ''field'' ''CheckSum'' []],
        Node ''messages'' [] [Node ''message'' [(''name'', ''Order''), (''msgtype'', ''D'')] [demo_node ''component'' ''Parties'' []]],
        Node ''components'' []
          [Node ''component'' [(''name'', ''Parties'')] [demo_node ''group'' ''NoParties'' [demo_node ''component'' ''Sub'' []]],
           Node ''component'' [(''name'', ''Sub'')] [demo_node ''field'' ''PartyID'' []]],
        Node ''fields'' [] [demo_field ''35'' ''MsgType'' ''STRING'', demo_field ''10'' ''CheckSum'' ''STRING'',
          demo_field ''453'' ''NoParties'' ''NUMINGROUP'', demo_field ''448'' ''PartyID'' ''STRING'']]]"

definition demo_pugi :: pugi where
  "demo_pugi = \<lparr>pg_load_file = (\<lambda>_. Inr demo_xml),
     pg_as_int = (\<lambda>def a. case a of None \<Rightarrow> def | Some s \<Rightarrow> (case from_chars_int s of Inr i \<Rightarrow> i | Inl _ \<Rightarrow> def)),
     pg_as_bool = (\<lambda>a. a = Some ''Y'')\<rparr>"

lemma demo_loads:
  "case load_dictionary demo_pugi ''FIX.xml'' of
     Inr d \<Rightarrow> (case getMessageSpecRaw d ''D'' of Some s \<Rightarrow> map fst (gs_groups s) = [453] | None \<Rightarrow> False)
   | Inl e \<Rightarrow> False"
  by code_simp

lemma loaded_dictionary_complete_witness:
  "\<exists>d spec. load_dictionary demo_pugi ''FIX.xml'' = Inr d \<and> getMessageSpecRaw d ''D'' = Some spec \<and> spec_built spec"
proof -
  obtain d spec where "load_dictionary demo_pugi ''FIX.xml'' = Inr d" "getMessageSpecRaw d ''D'' = Some spec"
    using demo_loads by (auto split: sum.splits option.splits)
  with loaded_dictionary_complete[OF this(1), of demo_xml] show ?thesis by (auto simp: demo_pugi_def)
qed

end
