(* ===== verification/Dispatch.thy ===== *)
theory Dispatch
  imports Containers
begin

text \<open>
  The worker threads of \<^verbatim>\<open>lib/Dispatcher.h\<close> and \<^verbatim>\<open>lib/Dispatcher.cpp\<close>: \<open>Worker\<close> as a machine
  whose steps are the points of \<open>Worker::run\<close> between which other threads can act, and
  \<open>Dispatcher\<close> as the vector of workers with \<open>dispatch(callback, hash)\<close>.

  The queue is moodycamel's \<open>ConcurrentQueue\<close>, which is not under \<^verbatim>\<open>src/\<close>: its three
  operations are a parameter, the record \<open>queue_ops\<close>, and what its documentation promises is
  the predicate \<open>queue_laws\<close>: elements of one producer leave in the order they were put in,
  nothing is said between producers, and a failed dequeue found every producer's stream empty.
  A callback is a value \<open>'t\<close>; running it appends it to the ghost field \<open>wk_done\<close>.
\<close>

section \<open>The queue\<close>

record ('q, 't) queue_ops =
  qo_enqueue :: "nat \<Rightarrow> 't \<Rightarrow> 'q \<Rightarrow> 'q"
  qo_try_dequeue :: "'q \<Rightarrow> ('t \<times> 'q) option"
  qo_size_approx :: "'q \<Rightarrow> nat"

definition queue_laws :: "('q, 't) queue_ops \<Rightarrow> ('q \<Rightarrow> nat \<Rightarrow> 't list) \<Rightarrow> bool" where
  "queue_laws Q streams \<longleftrightarrow>
     (\<forall>p t q. streams (qo_enqueue Q p t q) = (streams q)(p := streams q p @ [t])) \<and>
     (\<forall>q t q'. qo_try_dequeue Q q = Some (t, q') \<longrightarrow>
        (\<exists>p. streams q p = t # streams q' p \<and> streams q' = (streams q)(p := streams q' p))) \<and>
     (\<forall>q. qo_try_dequeue Q q = None \<longrightarrow> (\<forall>p. streams q p = [])) \<and>
     (\<forall>q. qo_size_approx Q q = 0 \<longrightarrow> (\<forall>p. streams q p = [])) \<and>
     (\<forall>q. (\<forall>p. streams q p = []) \<longrightarrow> qo_try_dequeue Q q = None)"

section \<open>The worker\<close>

text \<open>
  The points of \<open>Worker::run\<close>: \<open>Top\<close> before the test of \<open>m_stop\<close> in the loop head, \<open>Poll\<close>
  before the first \<open>try_dequeue\<close>, \<open>Idle\<close> after it failed (before the predicate of the wait, with
  the mutex taken or being taken), \<open>Asleep\<close> blocked in \<open>m_cv.wait\<close>, \<open>Woken\<close> past the wait,
  \<open>Retry\<close> before the second \<open>try_dequeue\<close>, \<open>Busy t\<close> inside \<open>task()\<close>, \<open>Exited\<close> returned.
  The test of the predicate and the blocking are one step because the mutex is held.
\<close>

datatype 't worker_pc = Top | Poll | Idle | Asleep | Woken | Retry | Busy 't | Exited

record ('q, 't) worker =
  wk_pc :: "'t worker_pc"
  wk_queue :: 'q
  wk_stop :: bool
  wk_spin :: bool
  wk_notify :: nat
  wk_done :: "'t list"

definition new_worker :: "'q \<Rightarrow> bool \<Rightarrow> ('q, 't) worker" where
  "new_worker q spin = \<lparr> wk_pc = Top, wk_queue = q, wk_stop = False, wk_spin = spin,
     wk_notify = 0, wk_done = [] \<rparr>"

text \<open>One step of the thread in \<open>Worker::run\<close>; \<open>None\<close> when it is blocked or has returned.\<close>

definition worker_run :: "('q, 't) queue_ops \<Rightarrow> ('q, 't) worker \<Rightarrow> ('q, 't) worker option" where
  "worker_run Q w =
     (case wk_pc w of
        Top \<Rightarrow> Some (w\<lparr>wk_pc := if wk_stop w then Exited else Poll\<rparr>)
      | Poll \<Rightarrow>
          (case qo_try_dequeue Q (wk_queue w) of
             Some (t, q) \<Rightarrow> Some (w\<lparr>wk_queue := q, wk_pc := Busy t\<rparr>)
           | None \<Rightarrow> Some (w\<lparr>wk_pc := if wk_spin w then Top else Idle\<rparr>))
      | Idle \<Rightarrow>
          Some (w\<lparr>wk_pc := if wk_stop w \<or> 0 < qo_size_approx Q (wk_queue w) then Woken else Asleep\<rparr>)
      | Woken \<Rightarrow> Some (w\<lparr>wk_pc := if wk_stop w then Exited else Retry\<rparr>)
      | Retry \<Rightarrow>
          (case qo_try_dequeue Q (wk_queue w) of
             Some (t, q) \<Rightarrow> Some (w\<lparr>wk_queue := q, wk_pc := Busy t\<rparr>)
           | None \<Rightarrow> Some (w\<lparr>wk_pc := Top\<rparr>))
      | Busy t \<Rightarrow> Some (w\<lparr>wk_done := wk_done w @ [t], wk_pc := Top\<rparr>)
      | Asleep \<Rightarrow> None
      | Exited \<Rightarrow> None)"

text \<open>
  \<open>Worker::dispatch\<close> and \<open>Worker::stop\<close>, called from other threads. Each has two effects with a
  gap between them: the enqueue (or the store of \<open>m_stop\<close>), then \<open>notify_one\<close> under the mutex.
  \<open>wk_notify\<close> counts the calls that are in the gap.
\<close>

definition worker_dispatch :: "('q, 't) queue_ops \<Rightarrow> nat \<Rightarrow> 't \<Rightarrow> ('q, 't) worker \<Rightarrow> ('q, 't) worker" where
  "worker_dispatch Q p t w =
     w\<lparr>wk_queue := qo_enqueue Q p t (wk_queue w),
       wk_notify := (if wk_spin w then wk_notify w else Suc (wk_notify w))\<rparr>"

definition worker_stop :: "('q, 't) worker \<Rightarrow> ('q, 't) worker" where
  "worker_stop w =
     w\<lparr>wk_stop := True, wk_notify := (if wk_spin w then wk_notify w else Suc (wk_notify w))\<rparr>"

definition wake :: "'t worker_pc \<Rightarrow> 't worker_pc" where
  "wake pc = (case pc of Asleep \<Rightarrow> Idle | _ \<Rightarrow> pc)"

definition worker_notify :: "('q, 't) worker \<Rightarrow> ('q, 't) worker option" where
  "worker_notify w =
     (case wk_notify w of
        0 \<Rightarrow> None
      | Suc n \<Rightarrow> Some (w\<lparr>wk_notify := n, wk_pc := wake (wk_pc w)\<rparr>))"

text \<open>What can happen to a worker: a step of its own thread, a call of another thread, the
  second half of such a call, or a spurious wake-up, which \<open>std::condition_variable\<close> allows.\<close>

datatype 't worker_event = WRun | WDispatch nat 't | WStop | WNotify | WSpurious

fun worker_step ::
  "('q, 't) queue_ops \<Rightarrow> 't worker_event \<Rightarrow> ('q, 't) worker \<Rightarrow> ('q, 't) worker option" where
  "worker_step Q WRun w = worker_run Q w"
| "worker_step Q (WDispatch p t) w = Some (worker_dispatch Q p t w)"
| "worker_step Q WStop w = Some (worker_stop w)"
| "worker_step Q WNotify w = worker_notify w"
| "worker_step Q WSpurious w = Some (w\<lparr>wk_pc := wake (wk_pc w)\<rparr>)"

fun worker_steps ::
  "('q, 't) queue_ops \<Rightarrow> 't worker_event list \<Rightarrow> ('q, 't) worker \<Rightarrow> ('q, 't) worker option" where
  "worker_steps Q [] w = Some w"
| "worker_steps Q (e # es) w =
     (case worker_step Q e w of None \<Rightarrow> None | Some w' \<Rightarrow> worker_steps Q es w')"

section \<open>Dispatcher\<close>

text \<open>
  \<open>m_workers[hash % m_workers.size()]\<close>: the \<open>int\<close> becomes a \<open>size_t\<close> first, so a negative hash
  is taken modulo \<open>2 ^ 64\<close>. With no workers the remainder is undefined behaviour: \<open>None\<close>.
\<close>

definition worker_index :: "int \<Rightarrow> nat \<Rightarrow> nat option" where
  "worker_index h n = (if n = 0 then None else Some (nat (wrapu64 h mod int n)))"

type_synonym ('q, 't) dispatcher = "('q, 't) worker list"

definition new_dispatcher :: "'q \<Rightarrow> nat \<Rightarrow> bool \<Rightarrow> ('q, 't) dispatcher" where
  "new_dispatcher q threads spin = map (\<lambda>_. new_worker q spin) [0..<threads]"

definition dispatcher_dispatch ::
  "('q, 't) queue_ops \<Rightarrow> nat \<Rightarrow> 't \<Rightarrow> int \<Rightarrow> ('q, 't) dispatcher \<Rightarrow> ('q, 't) dispatcher option" where
  "dispatcher_dispatch Q p t h ws =
     (case worker_index h (length ws) of
        None \<Rightarrow> None
      | Some i \<Rightarrow> Some (ws[i := worker_dispatch Q p t (ws ! i)]))"

text \<open>\<open>Dispatcher::stop\<close>, first loop: \<open>stop\<close> on every worker. The second loop joins the threads,
  which returns when each worker has reached \<open>Exited\<close>.\<close>

definition dispatcher_stop :: "('q, 't) dispatcher \<Rightarrow> ('q, 't) dispatcher" where
  "dispatcher_stop ws = map worker_stop ws"

definition joinable :: "('q, 't) dispatcher \<Rightarrow> bool" where
  "joinable ws \<longleftrightarrow> list_all (\<lambda>w. case wk_pc w of Exited \<Rightarrow> True | _ \<Rightarrow> False) ws"

text \<open>A step of the whole: a call of \<open>dispatch\<close>, a call of \<open>stop\<close>, or worker \<open>i\<close> moves (its own
  step, the second half of a call, or a spurious wake-up).\<close>

datatype 't dispatcher_event = DDispatch nat 't int | DStop | DRun nat | DNotify nat | DSpurious nat

definition at_worker ::
  "nat \<Rightarrow> (('q, 't) worker \<Rightarrow> ('q, 't) worker option) \<Rightarrow> ('q, 't) dispatcher \<Rightarrow> ('q, 't) dispatcher option"
where
  "at_worker i f ws =
     (if i < length ws then map_option (\<lambda>w. ws[i := w]) (f (ws ! i)) else None)"

fun dispatcher_step ::
  "('q, 't) queue_ops \<Rightarrow> 't dispatcher_event \<Rightarrow> ('q, 't) dispatcher \<Rightarrow> ('q, 't) dispatcher option" where
  "dispatcher_step Q (DDispatch p t h) ws = dispatcher_dispatch Q p t h ws"
| "dispatcher_step Q DStop ws = Some (dispatcher_stop ws)"
| "dispatcher_step Q (DRun i) ws = at_worker i (worker_step Q WRun) ws"
| "dispatcher_step Q (DNotify i) ws = at_worker i (worker_step Q WNotify) ws"
| "dispatcher_step Q (DSpurious i) ws = at_worker i (worker_step Q WSpurious) ws"

fun dispatcher_steps ::
  "('q, 't) queue_ops \<Rightarrow> 't dispatcher_event list \<Rightarrow> ('q, 't) dispatcher \<Rightarrow> ('q, 't) dispatcher option" where
  "dispatcher_steps Q [] ws = Some ws"
| "dispatcher_steps Q (e # es) ws =
     (case dispatcher_step Q e ws of None \<Rightarrow> None | Some ws' \<Rightarrow> dispatcher_steps Q es ws')"

text \<open>What the events mean for one worker, and the tasks thread \<open>p\<close> has sent to it.\<close>

fun event_for :: "nat \<Rightarrow> nat \<Rightarrow> 't dispatcher_event \<Rightarrow> 't worker_event list" where
  "event_for n i (DDispatch p t h) = (if worker_index h n = Some i then [WDispatch p t] else [])"
| "event_for n i DStop = [WStop]"
| "event_for n i (DRun j) = (if i = j then [WRun] else [])"
| "event_for n i (DNotify j) = (if i = j then [WNotify] else [])"
| "event_for n i (DSpurious j) = (if i = j then [WSpurious] else [])"

fun sent_by :: "nat \<Rightarrow> 't worker_event list \<Rightarrow> 't list" where
  "sent_by p [] = []"
| "sent_by p (WDispatch p' t # es) = (if p' = p then t # sent_by p es else sent_by p es)"
| "sent_by p (_ # es) = sent_by p es"

text \<open>The tasks a worker has begun, the one it is in included.\<close>

definition started :: "('q, 't) worker \<Rightarrow> 't list" where
  "started w = wk_done w @ (case wk_pc w of Busy t \<Rightarrow> [t] | _ \<Rightarrow> [])"

section \<open>Facts about one worker\<close>

lemmas worker_defs = worker_run_def worker_dispatch_def worker_stop_def worker_notify_def wake_def
  new_worker_def

lemma queue_enqueue:
  "queue_laws Q S \<Longrightarrow> S (qo_enqueue Q p t q) = (S q)(p := S q p @ [t])"
  by (simp add: queue_laws_def)

lemma queue_dequeueE:
  assumes "queue_laws Q S" "qo_try_dequeue Q q = Some (t, q')"
  obtains p where "S q p = t # S q' p" "S q' = (S q)(p := S q' p)"
  using assms unfolding queue_laws_def by blast

lemma queue_dequeue_None: "queue_laws Q S \<Longrightarrow> qo_try_dequeue Q q = None \<longleftrightarrow> (\<forall>p. S q p = [])"
  unfolding queue_laws_def by blast

lemma queue_size_0: "queue_laws Q S \<Longrightarrow> qo_size_approx Q q = 0 \<Longrightarrow> S q p = []"
  unfolding queue_laws_def by blast

text \<open>The invariant: a worker that sleeps with work to do or a request to stop has a
  notification under way, and a worker returns only on a request to stop.\<close>

definition worker_inv :: "('q \<Rightarrow> nat \<Rightarrow> 't list) \<Rightarrow> ('q, 't) worker \<Rightarrow> bool" where
  "worker_inv S w \<longleftrightarrow>
     (wk_pc w = Asleep \<longrightarrow> \<not> wk_spin w \<and> (wk_stop w \<or> (\<exists>p. S (wk_queue w) p \<noteq> []) \<longrightarrow> 0 < wk_notify w)) \<and>
     (wk_pc w = Idle \<longrightarrow> \<not> wk_spin w) \<and>
     (wk_pc w = Exited \<longrightarrow> wk_stop w)"

lemma worker_inv_new: "worker_inv S (new_worker q spin)"
  by (simp add: worker_inv_def new_worker_def)

lemma worker_inv_step:
  assumes "queue_laws Q S" "worker_inv S w" "worker_step Q e w = Some w'"
  shows "worker_inv S w'"
  using assms
  by (cases e; cases "wk_pc w")
     (auto simp: worker_defs worker_inv_def split: option.splits if_splits nat.splits prod.splits
           dest: queue_size_0)

lemma worker_inv_steps:
  assumes "queue_laws Q S" "worker_inv S w" "worker_steps Q es w = Some w'"
  shows "worker_inv S w'"
  using assms(2,3)
  by (induction es arbitrary: w) (auto split: option.splits intro: worker_inv_step[OF assms(1)])

subsection \<open>Order of the tasks\<close>

definition of_producer :: "nat \<Rightarrow> nat list \<Rightarrow> 't list \<Rightarrow> 't list" where
  "of_producer p own ts = map snd (filter (\<lambda>x. fst x = p) (zip own ts))"

definition attributed ::
  "('q \<Rightarrow> nat \<Rightarrow> 't list) \<Rightarrow> 't worker_event list \<Rightarrow> ('q, 't) worker \<Rightarrow> nat list \<Rightarrow> bool" where
  "attributed S es w own \<longleftrightarrow>
     length own = length (started w) \<and>
     (\<forall>p. of_producer p own (started w) @ S (wk_queue w) p = sent_by p es)"

lemma sent_by_append [simp]: "sent_by p (es @ fs) = sent_by p es @ sent_by p fs"
  by (induction p es rule: sent_by.induct) auto

lemma of_producer_snoc:
  "length own = length ts \<Longrightarrow>
   of_producer p (own @ [p']) (ts @ [t]) = of_producer p own ts @ (if p' = p then [t] else [])"
  by (simp add: of_producer_def)

lemma attributed_dequeue:
  assumes Q: "queue_laws Q S" and own: "attributed S es w own"
    and d: "qo_try_dequeue Q (wk_queue w) = Some (t, q')"
    and w': "started w' = started w @ [t]" "wk_queue w' = q'"
  shows "\<exists>own'. attributed S es w' own'"
proof -
  obtain p where p: "S (wk_queue w) p = t # S q' p" "S q' = (S (wk_queue w))(p := S q' p)"
    using queue_dequeueE[OF Q d] by blast
  have "S q' j = S (wk_queue w) j" if "j \<noteq> p" for j
    using fun_cong[OF p(2), of j] that by simp
  then have "of_producer j (own @ [p]) (started w @ [t]) @ S q' j =
      of_producer j own (started w) @ S (wk_queue w) j" for j
    using own p(1) by (cases "j = p") (simp_all add: of_producer_snoc attributed_def)
  then have "attributed S es w' (own @ [p])"
    using own w' by (simp add: attributed_def)
  then show ?thesis by blast
qed

lemma attributed_same:
  "attributed S es w own \<Longrightarrow> started w' = started w \<Longrightarrow> wk_queue w' = wk_queue w \<Longrightarrow>
   \<exists>own'. attributed S es w' own'"
  by (auto simp: attributed_def)

lemma attributed_step:
  assumes Q: "queue_laws Q S" and own: "attributed S es w own" and st: "worker_step Q e w = Some w'"
  shows "\<exists>own'. attributed S (es @ [e]) w' own'"
proof (cases e)
  case WRun
  have run: "attributed S (es @ [WRun]) w' o' = attributed S es w' o'" for o'
    by (simp add: attributed_def)
  have st': "worker_run Q w = Some w'" using st WRun by simp
  show ?thesis
  proof (cases "wk_pc w = Poll \<or> wk_pc w = Retry")
    case True
    then have no: "started w = wk_done w" by (auto simp: started_def)
    show ?thesis
    proof (cases "qo_try_dequeue Q (wk_queue w)")
      case None
      with st' True have "started w' = started w" "wk_queue w' = wk_queue w"
        by (auto simp: worker_run_def started_def)
      from attributed_same[OF own this] show ?thesis by (simp add: WRun run)
    next
      case (Some x)
      obtain t q' where x: "x = (t, q')" by force
      with st' True Some have "started w' = started w @ [t]" "wk_queue w' = q'"
        by (auto simp: worker_run_def started_def)
      from attributed_dequeue[OF Q own Some[unfolded x] this] show ?thesis by (simp add: WRun run)
    qed
  next
    case False
    with st' have "started w' = started w" "wk_queue w' = wk_queue w"
      by (auto simp: worker_run_def started_def split: worker_pc.splits if_splits)
    from attributed_same[OF own this] show ?thesis by (simp add: WRun run)
  qed
next
  case (WDispatch p t)
  have "started w' = started w" using st WDispatch by (auto simp: worker_dispatch_def started_def)
  then have "attributed S (es @ [e]) w' own"
    using own st WDispatch by (auto simp: attributed_def worker_dispatch_def queue_enqueue[OF Q])
  then show ?thesis by blast
next
  case WStop
  then have "attributed S (es @ [e]) w' own"
    using own st by (auto simp: attributed_def worker_stop_def started_def)
  then show ?thesis by blast
next
  case WNotify
  then have "attributed S (es @ [e]) w' own"
    using own st by (auto simp: attributed_def worker_notify_def wake_def started_def
        split: nat.splits worker_pc.splits)
  then show ?thesis by blast
next
  case WSpurious
  then have "attributed S (es @ [e]) w' own"
    using own st by (auto simp: attributed_def wake_def started_def split: worker_pc.splits)
  then show ?thesis by blast
qed

lemma attributed_steps:
  assumes Q: "queue_laws Q S"
  shows "attributed S es w own \<Longrightarrow> worker_steps Q fs w = Some w' \<Longrightarrow>
    \<exists>own'. attributed S (es @ fs) w' own'"
proof (induction fs arbitrary: es w own)
  case (Cons f fs)
  then obtain w1 where w1: "worker_step Q f w = Some w1" "worker_steps Q fs w1 = Some w'"
    by (auto split: option.splits)
  obtain own1 where "attributed S (es @ [f]) w1 own1"
    using attributed_step[OF Q Cons.prems(1) w1(1)] by blast
  from Cons.IH[OF this w1(2)] show ?case by simp
qed auto

lemma attributed_new: "(\<And>p. S q p = []) \<Longrightarrow> attributed S [] (new_worker q spin) []"
  by (simp add: attributed_def new_worker_def started_def of_producer_def)

section \<open>Each worker of a dispatcher\<close>

lemma worker_index_bound: "worker_index h n = Some i \<Longrightarrow> i < n"
  by (auto simp: worker_index_def nat_less_iff split: if_splits)

lemma dispatcher_step_worker:
  assumes "dispatcher_step Q e ws = Some ws'" "i < length ws"
  shows "length ws' = length ws" (is ?A)
    and "worker_steps Q (event_for (length ws) i e) (ws ! i) = Some (ws' ! i)" (is ?B)
proof -
  show ?A
    using assms by (cases e) (auto simp: dispatcher_dispatch_def dispatcher_stop_def at_worker_def
        split: option.splits if_splits)
  show ?B
    using assms
    by (cases e) (auto simp: dispatcher_dispatch_def dispatcher_stop_def at_worker_def nth_list_update
        split: option.splits if_splits)
qed

lemma worker_steps_append:
  "worker_steps Q (es @ fs) w =
     (case worker_steps Q es w of None \<Rightarrow> None | Some w' \<Rightarrow> worker_steps Q fs w')"
  by (induction es arbitrary: w) (auto split: option.splits)

lemma dispatcher_steps_worker:
  assumes "dispatcher_steps Q es ws = Some ws'" "i < length ws"
  shows "length ws' = length ws \<and>
    worker_steps Q (concat (map (event_for (length ws) i) es)) (ws ! i) = Some (ws' ! i)"
  using assms
proof (induction es arbitrary: ws)
  case (Cons e es)
  then obtain ws1 where ws1: "dispatcher_step Q e ws = Some ws1" "dispatcher_steps Q es ws1 = Some ws'"
    by (auto split: option.splits)
  note l = dispatcher_step_worker[OF ws1(1) Cons.prems(2)]
  have "i < length ws1" using l(1) Cons.prems(2) by simp
  from Cons.IH[OF ws1(2) this] l show ?case by (simp add: worker_steps_append)
qed simp

lemma dispatcher_worker:
  assumes "dispatcher_steps Q es (new_dispatcher q n spin) = Some ws" "i < n"
  shows "worker_steps Q (concat (map (event_for n i) es)) (new_worker q spin) = Some (ws ! i)"
  using dispatcher_steps_worker[OF assms(1), of i] assms(2) by (simp add: new_dispatcher_def)

lemma dispatcher_worker_inv:
  assumes "queue_laws Q S" "dispatcher_steps Q es (new_dispatcher q n spin) = Some ws" "i < n"
  shows "worker_inv S (ws ! i)"
  using worker_inv_steps[OF assms(1) worker_inv_new dispatcher_worker[OF assms(2,3)]] .

section \<open>A queue that meets the laws\<close>

text \<open>One list of (producer, task) pairs, used to instantiate the parameter.\<close>

definition fifo_ops :: "((nat \<times> 't) list, 't) queue_ops" where
  "fifo_ops = \<lparr> qo_enqueue = (\<lambda>p t q. q @ [(p, t)]),
     qo_try_dequeue = (\<lambda>q. case q of [] \<Rightarrow> None | (p, t) # r \<Rightarrow> Some (t, r)),
     qo_size_approx = length \<rparr>"

definition fifo_streams :: "(nat \<times> 't) list \<Rightarrow> nat \<Rightarrow> 't list" where
  "fifo_streams q p = map snd (filter (\<lambda>x. fst x = p) q)"

lemma fifo_streams_Nil [simp]: "fifo_streams [] p = []"
  by (simp add: fifo_streams_def)

lemma fifo_streams_empty: "(\<forall>p. fifo_streams q p = []) \<longleftrightarrow> q = []"
  by (cases q) (auto simp: fifo_streams_def)

lemma fifo_laws: "queue_laws fifo_ops fifo_streams"
  unfolding queue_laws_def
proof (intro conjI allI impI)
  show "fifo_streams (qo_enqueue fifo_ops p t q) = (fifo_streams q)(p := fifo_streams q p @ [t])"
    for p t q by (auto simp: fifo_ops_def fifo_streams_def)
next
  fix q t q'
  assume "qo_try_dequeue fifo_ops q = Some (t, q')"
  then obtain p where q: "q = (p, t) # q'"
    by (auto simp: fifo_ops_def split: list.splits)
  show "\<exists>p. fifo_streams q p = t # fifo_streams q' p \<and>
      fifo_streams q' = (fifo_streams q)(p := fifo_streams q' p)"
    by (rule exI[of _ p]) (auto simp: q fifo_streams_def)
next
  show "fifo_streams q p = []" if "qo_try_dequeue fifo_ops q = None" for q p
    using that by (auto simp: fifo_ops_def split: list.splits)
next
  show "fifo_streams q p = []" if "qo_size_approx fifo_ops q = 0" for q p
    using that by (simp add: fifo_ops_def)
next
  show "qo_try_dequeue fifo_ops q = None" if "\<forall>p. fifo_streams q p = []" for q
    using that by (simp add: fifo_streams_empty fifo_ops_def)
qed

section \<open>Properties\<close>

text \<open>Tasks that one thread dispatches with hashes that select the same worker are started
  in the order they were dispatched, each once, and what has not been started is still queued:
  the tasks a worker has started are an interleaving of what each thread sent it.\<close>

theorem dispatch_keeps_order:
  assumes "queue_laws Q S" "\<And>p. S q p = []" "i < n"
    and "dispatcher_steps Q es (new_dispatcher q n spin) = Some ws"
  shows "\<exists>own. length own = length (started (ws ! i)) \<and>
    (\<forall>p. of_producer p own (started (ws ! i)) @ S (wk_queue (ws ! i)) p =
         sent_by p (concat (map (event_for n i) es)))"
  using attributed_steps[OF assms(1) attributed_new dispatcher_worker[OF assms(4,3)]] assms(2)
  unfolding attributed_def by simp

text \<open>Two threads, two workers: hash 4 selects worker 0, hash -1 worker 1.\<close>

definition demo_events :: "char dispatcher_event list" where
  "demo_events = [DRun 0, DRun 0, DRun 0, DDispatch 0 CHR ''a'' 4, DDispatch 1 CHR ''b'' 4,
     DDispatch 0 CHR ''c'' (-1), DNotify 0, DNotify 0, DNotify 1, DRun 0, DRun 0, DRun 0, DRun 0,
     DDispatch 0 CHR ''d'' 4, DNotify 0]"

definition demo_dispatcher :: "((nat \<times> char) list, char) dispatcher" where
  "demo_dispatcher =
     [\<lparr> wk_pc = Top, wk_queue = [(1, CHR ''b''), (0, CHR ''d'')], wk_stop = False, wk_spin = False,
        wk_notify = 0, wk_done = ''a'' \<rparr>,
      \<lparr> wk_pc = Top, wk_queue = [(0, CHR ''c'')], wk_stop = False, wk_spin = False,
        wk_notify = 0, wk_done = '''' \<rparr>]"

lemma demo_run:
  "dispatcher_steps fifo_ops demo_events (new_dispatcher [] 2 False) = Some demo_dispatcher"
  by code_simp

lemma demo_stopped:
  "dispatcher_steps fifo_ops (demo_events @ [DStop, DNotify 0]) (new_dispatcher [] 2 False) =
     Some [(demo_dispatcher ! 0)\<lparr>wk_stop := True\<rparr>, (demo_dispatcher ! 1)\<lparr>wk_stop := True, wk_notify := 1\<rparr>]"
  by code_simp

theorem dispatch_keeps_order_witness:
  "\<exists>own. length own = length (started (demo_dispatcher ! 0)) \<and>
    (\<forall>p. of_producer p own (started (demo_dispatcher ! 0)) @
         fifo_streams (wk_queue (demo_dispatcher ! 0)) p =
         sent_by p (concat (map (event_for 2 0) demo_events)))"
  using dispatch_keeps_order[OF fifo_laws fifo_streams_Nil _ demo_run, of 0] by simp

text \<open>C37: A worker that is not told to stop and has a task queued for it, with no
  notification still on its way, completes a task within four steps of its own thread; in
  particular it does not sleep, so no wake-up is lost.\<close>

theorem queued_task_runs:
  assumes "queue_laws Q S" "i < n"
    and "dispatcher_steps Q es (new_dispatcher q n spin) = Some ws"
    and "\<not> wk_stop (ws ! i)" "wk_notify (ws ! i) = 0" "S (wk_queue (ws ! i)) p \<noteq> []"
  shows "\<exists>k\<le>4. \<exists>w. worker_steps Q (replicate k WRun) (ws ! i) = Some w \<and>
    length (wk_done w) = Suc (length (wk_done (ws ! i)))"
proof -
  let ?w = "ws ! i"
  have inv: "worker_inv S ?w" by (rule dispatcher_worker_inv[OF assms(1,3,2)])
  have pos: "0 < qo_size_approx Q (wk_queue ?w)"
    using queue_size_0[OF assms(1)] assms(6) by (metis gr0I)
  obtain t q' where d: "qo_try_dequeue Q (wk_queue ?w) = Some (t, q')"
    using queue_dequeue_None[OF assms(1)] assms(6) by (metis not_None_eq surj_pair)
  have "wk_pc ?w \<noteq> Asleep" "wk_pc ?w \<noteq> Exited"
    using inv assms(4,5,6) by (auto simp: worker_inv_def)
  then consider "wk_pc ?w = Top" | "wk_pc ?w = Poll" | "wk_pc ?w = Idle" | "wk_pc ?w = Woken"
    | "wk_pc ?w = Retry" | t where "wk_pc ?w = Busy t"
    by (cases "wk_pc ?w") auto
  then show ?thesis
  proof cases
    case 1 with assms(4) d show ?thesis by (intro exI[of _ 3]) (simp add: worker_run_def numeral_eq_Suc)
  next
    case 2 with assms(4) d show ?thesis by (intro exI[of _ 2]) (simp add: worker_run_def numeral_eq_Suc)
  next
    case 3 with assms(4) d pos show ?thesis
      by (intro exI[of _ 4]) (simp add: worker_run_def numeral_eq_Suc)
  next
    case 4 with assms(4) d show ?thesis by (intro exI[of _ 3]) (simp add: worker_run_def numeral_eq_Suc)
  next
    case 5 with assms(4) d show ?thesis by (intro exI[of _ 2]) (simp add: worker_run_def numeral_eq_Suc)
  next
    case 6 then show ?thesis by (intro exI[of _ 1]) (simp add: worker_run_def)
  qed
qed

theorem queued_task_runs_witness:
  "\<exists>k\<le>4. \<exists>w. worker_steps fifo_ops (replicate k WRun) (demo_dispatcher ! 0) = Some w \<and>
    length (wk_done w) = Suc (length (wk_done (demo_dispatcher ! 0)))"
  by (rule queued_task_runs[OF fifo_laws _ demo_run, of 0 1])
     (simp_all add: demo_dispatcher_def fifo_streams_def)

text \<open>Once \<open>stop\<close> has been called on a worker and its notification has been delivered, the
  thread returns from \<open>Worker::run\<close> within three of its own steps, so the join in
  \<open>Dispatcher::stop\<close> ends.\<close>

theorem stopped_worker_exits:
  assumes "queue_laws Q S" "i < n"
    and "dispatcher_steps Q es (new_dispatcher q n spin) = Some ws"
    and "wk_stop (ws ! i)" "wk_notify (ws ! i) = 0"
  shows "\<exists>k\<le>3. \<exists>w. worker_steps Q (replicate k WRun) (ws ! i) = Some w \<and> wk_pc w = Exited"
proof -
  let ?w = "ws ! i"
  have inv: "worker_inv S ?w" by (rule dispatcher_worker_inv[OF assms(1,3,2)])
  then have "wk_pc ?w \<noteq> Asleep"
    using assms(4,5) by (auto simp: worker_inv_def)
  then consider "wk_pc ?w = Exited" | "wk_pc ?w = Top \<or> wk_pc ?w = Woken" | "wk_pc ?w = Poll"
    | "wk_pc ?w = Idle" | "wk_pc ?w = Retry" | t where "wk_pc ?w = Busy t"
    by (cases "wk_pc ?w") auto
  then show ?thesis
  proof cases
    case 1 then show ?thesis by (intro exI[of _ 0]) simp
  next
    case 2 with assms(4) show ?thesis by (intro exI[of _ 1]) (auto simp: worker_run_def)
  next
    case 3
    consider "qo_try_dequeue Q (wk_queue ?w) = None" "wk_spin ?w"
      | "qo_try_dequeue Q (wk_queue ?w) = None" "\<not> wk_spin ?w"
      | t q where "qo_try_dequeue Q (wk_queue ?w) = Some (t, q)"
      by (cases "qo_try_dequeue Q (wk_queue ?w)") force+
    then show ?thesis
    proof cases
      case 1
      with 3 assms(4) show ?thesis by (intro exI[of _ 2]) (simp add: worker_run_def numeral_eq_Suc)
    next
      case 2
      with 3 assms(4) show ?thesis by (intro exI[of _ 3]) (simp add: worker_run_def numeral_eq_Suc)
    next
      case (3 t q)
      with \<open>wk_pc ?w = Poll\<close> assms(4) show ?thesis
        by (intro exI[of _ 3]) (simp add: worker_run_def numeral_eq_Suc)
    qed
  next
    case 4 with assms(4) show ?thesis by (intro exI[of _ 2]) (simp add: worker_run_def numeral_eq_Suc)
  next
    case 5
    show ?thesis
    proof (cases "qo_try_dequeue Q (wk_queue ?w)")
      case None
      with 5 assms(4) show ?thesis by (intro exI[of _ 2]) (simp add: worker_run_def numeral_eq_Suc)
    next
      case (Some x)
      then obtain t q where "qo_try_dequeue Q (wk_queue ?w) = Some (t, q)" by (cases x) simp
      with 5 assms(4) show ?thesis by (intro exI[of _ 3]) (simp add: worker_run_def numeral_eq_Suc)
    qed
  next
    case 6 with assms(4) show ?thesis by (intro exI[of _ 2]) (simp add: worker_run_def numeral_eq_Suc)
  qed
qed

theorem stopped_worker_exits_witness:
  "\<exists>k\<le>3. \<exists>w. worker_steps fifo_ops (replicate k WRun) ((demo_dispatcher ! 0)\<lparr>wk_stop := True\<rparr>) = Some w \<and>
    wk_pc w = Exited"
  using stopped_worker_exits[OF fifo_laws _ demo_stopped, of 0] by (simp add: demo_dispatcher_def)

text \<open>A task that is still queued when its worker is stopped is dropped: the destructor of
  \<open>Dispatcher\<close> joins the threads and destroys the queues with what they hold.\<close>

lemma stop_drops_tasks:
  "map_option (\<lambda>ws. (joinable ws, map wk_queue ws, map wk_done ws))
     (dispatcher_steps fifo_ops
        [DDispatch 0 CHR ''a'' 0, DNotify 0, DStop, DNotify 0, DRun 0]
        (new_dispatcher [] 1 False)) =
   Some (True, [[(0, CHR ''a'')]], [''''])"
  by code_simp

end
