(* ===== verification/TimerQueue.thy ===== *)
theory TimerQueue
  imports Containers
begin

text \<open>
  The timer thread of \<^verbatim>\<open>lib/Dispatcher.h\<close> and \<^verbatim>\<open>lib/Dispatcher.cpp\<close>: \<open>Timer::schedule\<close>,
  \<open>Timer::erase\<close>, the pass of \<open>Timer::run\<close> over the events that are due, and the thread itself as
  a machine with the points of \<open>run\<close> at which other threads can act.

  \<^item> \<open>m_timers\<close> is a hash map from ids to events, \<open>m_events\<close> a \<open>std::map\<close> from times in
    milliseconds to lists of ids; \<open>m_timerCount\<close> is an atomic 32-bit counter.
  \<^item> A callback is a value \<open>'c\<close>; calling it is the entry it leaves in the list of fired timers.
    The callbacks run with \<open>m_mutex\<close> held, so none of them can call \<open>schedule\<close> or \<open>erase\<close>.
  \<^item> The clock, \<open>Utils::getEpochMillis\<close>, is an argument of each operation that reads it.
  \<^item> Re-queueing a repeating timer under the key whose vector is being iterated is undefined
    behaviour (\<open>push_back\<close> invalidates the iterators): the fault \<open>Iterated_vector_grows\<close>.
\<close>

section \<open>State\<close>

type_synonym timer_id = "32 word"

record 'c timer_event =
  te_callback :: 'c
  te_repeating :: bool
  te_interval :: int

definition TimerEvent :: "'c \<Rightarrow> int \<Rightarrow> 'c timer_event" where
  "TimerEvent callback interval =
     \<lparr> te_callback = callback, te_repeating = True, te_interval = interval \<rparr>"

record 'c timer =
  tm_count :: timer_id
  tm_timers :: "(timer_id, 'c timer_event) hmap"
  tm_events :: "timer_id list smap"

definition new_timer :: "'c timer" where
  "new_timer = \<lparr> tm_count = 0, tm_timers = [], tm_events = [] \<rparr>"

section \<open>schedule and erase\<close>

text \<open>\<open>m_events[key]\<close>, which inserts an empty vector, and \<open>push_back\<close> on it.\<close>

definition events_at :: "timer_id list smap \<Rightarrow> int \<Rightarrow> timer_id list" where
  "events_at m k = (case map_of m k of None \<Rightarrow> [] | Some ids \<Rightarrow> ids)"

definition events_push :: "timer_id list smap \<Rightarrow> int \<Rightarrow> timer_id \<Rightarrow> timer_id list smap" where
  "events_push m k i = smap_set m k (events_at m k @ [i])"

definition timer_schedule :: "int \<Rightarrow> 'c timer_event \<Rightarrow> int \<Rightarrow> 'c timer \<Rightarrow> timer_id \<times> 'c timer" where
  "timer_schedule now ev delay t =
     (let i = tm_count t + 1
      in (i, t\<lparr>tm_count := i,
               tm_timers := hmap_emplace (tm_timers t) i ev,
               tm_events := events_push (tm_events t) (wrapu64 (now + delay)) i\<rparr>))"

definition timer_erase :: "timer_id \<Rightarrow> 'c timer \<Rightarrow> bool \<times> 'c timer" where
  "timer_erase i t =
     (map_of (tm_timers t) i \<noteq> None, t\<lparr>tm_timers := hmap_erase (tm_timers t) i\<rparr>)"

section \<open>The pass over the due events\<close>

datatype timer_fault = Iterated_vector_grows | Out_of_fuel

text \<open>The inner loop: the ids of one key, in order. A stale id (its timer was erased) is skipped.\<close>

fun fire_ids ::
  "int \<Rightarrow> int \<Rightarrow> timer_id list \<Rightarrow> 'c timer \<Rightarrow> timer_fault + ((timer_id \<times> 'c) list \<times> 'c timer)" where
  "fire_ids time key [] t = Inr ([], t)"
| "fire_ids time key (i # ids) t =
     (case map_of (tm_timers t) i of
        None \<Rightarrow> fire_ids time key ids t
      | Some ev \<Rightarrow>
          let key' = wrapu64 (time + te_interval ev)
          in if te_repeating ev \<and> key' = key then Inl Iterated_vector_grows
             else sbind
               (fire_ids time key ids
                  (if te_repeating ev then t\<lparr>tm_events := events_push (tm_events t) key' i\<rparr>
                   else t\<lparr>tm_timers := hmap_erase (tm_timers t) i\<rparr>))
               (\<lambda>(fired, t'). Inr ((i, te_callback ev) # fired, t')))"

text \<open>The outer loop. The result has what was fired and the value assigned to \<open>next\<close>, if any.\<close>

fun fire_due ::
  "nat \<Rightarrow> int \<Rightarrow> 'c timer \<Rightarrow> timer_fault + ((timer_id \<times> 'c) list \<times> int option \<times> 'c timer)" where
  "fire_due 0 time t = Inl Out_of_fuel"
| "fire_due (Suc fuel) time t =
     (case tm_events t of
        [] \<Rightarrow> Inr ([], None, t)
      | (key, ids) # _ \<Rightarrow>
          if key \<le> time then
            sbind (fire_ids time key ids t) (\<lambda>(fired, t').
            sbind (fire_due fuel time (t'\<lparr>tm_events := smap_erase (tm_events t') key\<rparr>))
              (\<lambda>(more, next, t''). Inr (fired @ more, next, t'')))
          else Inr ([], Some key, t))"

text \<open>The fuel: one round per key that is due, and one to stop.\<close>

definition timer_pass ::
  "int \<Rightarrow> 'c timer \<Rightarrow> timer_fault + ((timer_id \<times> 'c) list \<times> int option \<times> 'c timer)" where
  "timer_pass time t = fire_due (Suc (length (tm_events t))) time t"

section \<open>The thread\<close>

text \<open>
  \<open>TTop\<close> before the test of \<open>m_stop\<close>, \<open>TLock\<close> between that test and taking the mutex,
  \<open>TSleep start d\<close> blocked since the time \<open>start\<close> in \<open>wait\<close> (\<open>None\<close>) or in \<open>wait_for\<close> with the
  relative timeout \<open>d\<close>. A pass takes time: it reads the clock once, at its start, into \<open>time\<close>,
  and begins its wait when the callbacks it called have returned. \<open>tt_time\<close> and \<open>tt_next\<close> are the
  local variables \<open>time\<close> and \<open>next\<close> of \<open>run\<close>; \<open>next\<close> is \<open>None\<close> until it is first assigned, and it
  keeps its value from one iteration to the next. Reading it unassigned is undefined behaviour;
  the two waits it may select are both steps of the machine.
\<close>

datatype timer_pc = TTop | TLock | TSleep int "int option" | TExited

record 'c timer_thread =
  tt_pc :: timer_pc
  tt_stop :: bool
  tt_time :: int
  tt_next :: "int option"
  tt_timer :: "'c timer"
  tt_fired :: "(timer_id \<times> 'c) list"

definition new_timer_thread :: "'c timer_thread" where
  "new_timer_thread = \<lparr> tt_pc = TTop, tt_stop = False, tt_time = 0, tt_next = None,
     tt_timer = new_timer,
     tt_fired = [] \<rparr>"

text \<open>The events: a step of the thread (\<open>TRun time finish garbage\<close>: a pass that reads the clock at
  \<open>time\<close> and ends at \<open>finish\<close>, where \<open>garbage\<close> is what an unassigned \<open>next\<close> holds), \<open>schedule\<close>,
  \<open>erase\<close>, the destructor's first block, the end of a \<open>wait_for\<close> at a time when its timeout has
  passed, a spurious wake-up.\<close>

datatype 'c timer_action =
  TRun int int int
| TSchedule int "'c timer_event" int
| TErase timer_id
| TDestroy
| TTimeout int
| TSpurious

definition timer_wake :: "timer_pc \<Rightarrow> timer_pc" where
  "timer_wake pc = (case pc of TSleep _ _ \<Rightarrow> TTop | _ \<Rightarrow> pc)"

definition timer_wait :: "int \<Rightarrow> int \<Rightarrow> int \<Rightarrow> timer_pc" where
  "timer_wait time next start =
     (if next > time then TSleep start (Some (next - time)) else TSleep start None)"

fun timer_step :: "'c timer_action \<Rightarrow> 'c timer_thread \<Rightarrow> timer_fault + 'c timer_thread option" where
  "timer_step (TRun time finish garbage) s =
     (case tt_pc s of
        TTop \<Rightarrow> Inr (Some (s\<lparr>tt_pc := if tt_stop s then TExited else TLock\<rparr>))
      | TLock \<Rightarrow>
          sbind (timer_pass time (tt_timer s)) (\<lambda>(fired, next, t).
            let nx = (case next of None \<Rightarrow> tt_next s | Some k \<Rightarrow> Some k);
                val = (case nx of None \<Rightarrow> garbage | Some k \<Rightarrow> k)
            in Inr (Some (s\<lparr>tt_timer := t, tt_time := time, tt_next := nx,
                            tt_fired := tt_fired s @ fired,
                            tt_pc := timer_wait time val finish\<rparr>)))
      | TSleep _ _ \<Rightarrow> Inr None
      | TExited \<Rightarrow> Inr None)"
| "timer_step (TSchedule now ev delay) s =
     Inr (Some (s\<lparr>tt_timer := snd (timer_schedule now ev delay (tt_timer s)),
                  tt_pc := timer_wake (tt_pc s)\<rparr>))"
| "timer_step (TErase i) s =
     Inr (Some (s\<lparr>tt_timer := snd (timer_erase i (tt_timer s)), tt_pc := timer_wake (tt_pc s)\<rparr>))"
| "timer_step TDestroy s = Inr (Some (s\<lparr>tt_stop := True, tt_pc := timer_wake (tt_pc s)\<rparr>))"
| "timer_step (TTimeout now) s =
     (case tt_pc s of
        TSleep start (Some d) \<Rightarrow>
          if start + d \<le> now then Inr (Some (s\<lparr>tt_pc := TTop\<rparr>)) else Inr None
      | _ \<Rightarrow> Inr None)"
| "timer_step TSpurious s = Inr (Some (s\<lparr>tt_pc := timer_wake (tt_pc s)\<rparr>))"

fun timer_steps ::
  "'c timer_action list \<Rightarrow> 'c timer_thread \<Rightarrow> timer_fault + 'c timer_thread option" where
  "timer_steps [] s = Inr (Some s)"
| "timer_steps (a # as) s =
     sbind (timer_step a s) (\<lambda>r. case r of None \<Rightarrow> Inr None | Some s' \<Rightarrow> timer_steps as s')"

section \<open>Facts about the maps\<close>

lemma wrapu64_same: "0 \<le> x \<Longrightarrow> x < 18446744073709551616 \<Longrightarrow> wrapu64 x = x"
  by (simp add: wrapu64_def)

lemma smap_ok_push [simp]: "smap_ok m \<Longrightarrow> smap_ok (events_push m k i)"
  by (simp add: events_push_def)

lemma events_at_push:
  "smap_ok m \<Longrightarrow> events_at (events_push m k i) k' = events_at m k' @ (if k' = k then [i] else [])"
  by (simp add: events_push_def events_at_def smap_lookup_set)

lemma events_at_erase:
  "events_at (smap_erase m k) k' = (if k' = k then [] else events_at m k')"
  by (simp add: events_at_def smap_lookup_erase)

definition due :: "int \<Rightarrow> timer_id list smap \<Rightarrow> timer_id list smap" where
  "due time m = takeWhile (\<lambda>e. fst e \<le> time) m"

definition due_ids :: "int \<Rightarrow> timer_id list smap \<Rightarrow> timer_id list" where
  "due_ids time m = concat (map snd (due time m))"

lemma due_set_later: "time < k \<Longrightarrow> due time (smap_set m k v) = due time m"
  by (induction m) (auto simp: due_def)

lemma due_push_later [simp]: "time < k \<Longrightarrow> due time (events_push m k i) = due time m"
  by (simp add: events_push_def due_set_later)

lemma smap_erase_absent: "k \<notin> fst ` set m \<Longrightarrow> smap_erase m k = m"
  by (auto simp: smap_erase_def filter_id_conv)

lemma smap_erase_head:
  assumes "smap_ok m" "due time m = (k, ids) # r"
  shows "due time (smap_erase m k) = r"
proof -
  obtain m' where m: "m = (k, ids) # m'" "due time m' = r"
    using assms(2) by (cases m) (auto simp: due_def split: if_splits)
  have "k \<notin> fst ` set m'" using assms(1) m(1) by (fastforce simp: smap_ok_Cons)
  from smap_erase_absent[OF this] have "smap_erase m k = m'" by (simp add: m(1) smap_erase_def)
  with m(2) show ?thesis by simp
qed

lemma due_empty_next:
  "due time m = [] \<Longrightarrow> m = [] \<or> (\<exists>k ids r. m = (k, ids) # r \<and> time < k)"
  by (cases m) (auto simp: due_def split: if_splits)

lemma events_at_Cons:
  "events_at ((k, ids) # m) k' = (if k' = k then ids else events_at m k')"
  by (simp add: events_at_def)

lemma events_at_absent: "k \<notin> fst ` set m \<Longrightarrow> events_at m k = []"
  by (simp add: events_at_def map_of_eq_None_iff[THEN iffD2])

lemma in_events_at:
  "smap_ok m \<Longrightarrow> i \<in> set (concat (map snd m)) \<longleftrightarrow> (\<exists>k. i \<in> set (events_at m k))"
proof (induction m)
  case (Cons e m)
  obtain k ids where e: "e = (k, ids)" by force
  with Cons.prems have k: "k \<notin> fst ` set m" "smap_ok m" by (fastforce simp: smap_ok_Cons)+
  then have none: "events_at m k = []"
    by (simp add: events_at_absent)
  have "(\<exists>k'. i \<in> set (events_at (e # m) k')) \<longleftrightarrow> i \<in> set ids \<or> (\<exists>k'. i \<in> set (events_at m k'))"
    using none by (auto simp: e events_at_Cons) (metis empty_iff empty_set)
  with Cons.IH[OF k(2)] show ?case by (simp add: e)
qed (simp add: events_at_def)

text \<open>Every id occurs once among the events, said key by key.\<close>

definition at_most_once :: "timer_id list smap \<Rightarrow> bool" where
  "at_most_once m \<longleftrightarrow> distinct (concat (map snd m))"

lemma at_most_once_iff:
  "smap_ok m \<Longrightarrow> at_most_once m \<longleftrightarrow>
     (\<forall>k. distinct (events_at m k)) \<and>
     (\<forall>k k' i. i \<in> set (events_at m k) \<longrightarrow> i \<in> set (events_at m k') \<longrightarrow> k = k')"
proof (induction m)
  case Nil
  then show ?case by (simp add: at_most_once_def events_at_def)
next
  case (Cons e m)
  obtain k ids where e: "e = (k, ids)" by force
  with Cons.prems have k: "k \<notin> fst ` set m" "smap_ok m" by (fastforce simp: smap_ok_Cons)+
  then have none: "events_at m k = []"
    by (simp add: events_at_absent)
  let ?E = "events_at m"
  have E: "events_at (e # m) = ?E(k := ids)"
    by (rule ext) (simp add: e events_at_Cons)
  have "at_most_once (e # m) \<longleftrightarrow>
      distinct ids \<and> at_most_once m \<and> (\<forall>i k'. i \<in> set ids \<longrightarrow> i \<notin> set (?E k'))"
    using in_events_at[OF k(2)] by (auto simp: at_most_once_def e)
  also have "\<dots> \<longleftrightarrow> (\<forall>j. distinct ((?E(k := ids)) j)) \<and>
      (\<forall>j j' i. i \<in> set ((?E(k := ids)) j) \<longrightarrow> i \<in> set ((?E(k := ids)) j') \<longrightarrow> j = j')"
    (is "?A \<longleftrightarrow> ?B \<and> ?C")
  proof
    assume a: ?A
    then have m: "\<And>j. distinct (?E j)" "\<And>j j' i. i \<in> set (?E j) \<Longrightarrow> i \<in> set (?E j') \<Longrightarrow> j = j'"
      and ids: "distinct ids" "\<And>i j. i \<in> set ids \<Longrightarrow> i \<notin> set (?E j)"
      unfolding Cons.IH[OF k(2)] by blast+
    have ?B using m(1) ids(1) by simp
    moreover have ?C
    proof (intro allI impI)
      fix j j' i
      assume "i \<in> set ((?E(k := ids)) j)" "i \<in> set ((?E(k := ids)) j')"
      then show "j = j'" by (metis fun_upd_apply ids(2) m(2))
    qed
    ultimately show "?B \<and> ?C" ..
  next
    assume "?B \<and> ?C"
    then have b: "\<And>j. distinct ((?E(k := ids)) j)"
      and c: "\<And>j j' i. i \<in> set ((?E(k := ids)) j) \<Longrightarrow> i \<in> set ((?E(k := ids)) j') \<Longrightarrow> j = j'"
      by blast+
    have "distinct (?E j)" for j using b[of j] none by (cases "j = k") simp_all
    moreover have away: "j \<noteq> k" if "i \<in> set (?E j)" for i j using that none by auto
    have "j = j'" if "i \<in> set (?E j)" "i \<in> set (?E j')" for i j j'
    proof (rule c[of i])
      show "i \<in> set ((?E(k := ids)) j)" "i \<in> set ((?E(k := ids)) j')"
        using that away[OF that(1)] away[OF that(2)] by simp_all
    qed
    moreover have "i \<notin> set (?E j)" if "i \<in> set ids" for i j
    proof
      assume j: "i \<in> set (?E j)"
      have "j = k" by (rule c[of i]) (use that j away[OF j] in simp_all)
      with away[OF j] show False ..
    qed
    moreover have "distinct ids" using b[of k] by simp
    ultimately show ?A using Cons.IH[OF k(2)] by blast
  qed
  finally show ?case by (simp only: E)
qed

section \<open>Facts about the pass\<close>

definition intervals_ok :: "'c timer \<Rightarrow> bool" where
  "intervals_ok t \<longleftrightarrow>
     list_all (\<lambda>(i, ev). 0 < te_interval ev \<and> te_interval ev \<le> 9223372036854775808) (tm_timers t)"

definition clock_ok :: "int \<Rightarrow> bool" where
  "clock_ok time \<longleftrightarrow> 0 \<le> time \<and> time < 9223372036854775808"

definition is_live :: "'c timer \<Rightarrow> timer_id \<Rightarrow> bool" where
  "is_live t i \<longleftrightarrow> map_of (tm_timers t) i \<noteq> None"

definition is_repeating :: "'c timer \<Rightarrow> timer_id \<Rightarrow> bool" where
  "is_repeating t i = (case map_of (tm_timers t) i of None \<Rightarrow> False | Some ev \<Rightarrow> te_repeating ev)"

text \<open>The calls a pass makes for a list of ids, and the ids it queues again at a given time.\<close>

definition calls :: "'c timer \<Rightarrow> timer_id list \<Rightarrow> (timer_id \<times> 'c) list" where
  "calls t ids = map (\<lambda>i. (i, te_callback (the (map_of (tm_timers t) i)))) (filter (is_live t) ids)"

definition rearmed :: "int \<Rightarrow> 'c timer \<Rightarrow> timer_id list \<Rightarrow> int \<Rightarrow> timer_id list" where
  "rearmed time t ids k =
     filter (\<lambda>i. is_repeating t i \<and> time + te_interval (the (map_of (tm_timers t) i)) = k) ids"

lemma intervals_okD:
  "intervals_ok t \<Longrightarrow> map_of (tm_timers t) i = Some ev \<Longrightarrow>
   0 < te_interval ev \<and> te_interval ev \<le> 9223372036854775808"
  by (auto simp: intervals_ok_def list_all_iff dest!: map_of_SomeD)

lemma next_key:
  assumes "intervals_ok t" "clock_ok time" "map_of (tm_timers t) i = Some ev"
  shows "wrapu64 (time + te_interval ev) = time + te_interval ev" "time < time + te_interval ev"
  using intervals_okD[OF assms(1,3)] assms(2) by (auto intro: wrapu64_same simp: clock_ok_def)

definition fired_state :: "int \<Rightarrow> 'c timer \<Rightarrow> timer_id list \<Rightarrow> 'c timer \<Rightarrow> bool" where
  "fired_state time t ids t' \<longleftrightarrow>
     tm_count t' = tm_count t \<and> smap_ok (tm_events t') \<and> hmap_ok (tm_timers t') \<and>
     intervals_ok t' \<and> due time (tm_events t') = due time (tm_events t) \<and>
     (\<forall>j. map_of (tm_timers t') j =
        (if j \<in> set ids \<and> \<not> is_repeating t j then None else map_of (tm_timers t) j)) \<and>
     (\<forall>k. events_at (tm_events t') k = events_at (tm_events t) k @ rearmed time t ids k)"

lemma calls_cong:
  "(\<And>i. i \<in> set ids \<Longrightarrow> map_of (tm_timers t) i = map_of (tm_timers t') i) \<Longrightarrow> calls t ids = calls t' ids"
  by (auto simp: calls_def is_live_def cong: filter_cong)

lemma rearmed_cong:
  "(\<And>i. i \<in> set ids \<Longrightarrow> map_of (tm_timers t) i = map_of (tm_timers t') i) \<Longrightarrow>
   rearmed time t ids k = rearmed time t' ids k"
  by (auto simp: rearmed_def is_repeating_def cong: filter_cong)

lemma calls_Cons:
  "calls t (i # ids) = (case map_of (tm_timers t) i of None \<Rightarrow> calls t ids
     | Some ev \<Rightarrow> (i, te_callback ev) # calls t ids)"
  by (auto simp: calls_def is_live_def split: option.split)

lemma rearmed_Cons:
  "rearmed time t (i # ids) k = (case map_of (tm_timers t) i of
     None \<Rightarrow> rearmed time t ids k
   | Some ev \<Rightarrow> (if te_repeating ev \<and> time + te_interval ev = k then [i] else []) @ rearmed time t ids k)"
  by (auto simp: rearmed_def is_repeating_def split: option.split)

lemma intervals_ok_erase: "intervals_ok t \<Longrightarrow> intervals_ok (t\<lparr>tm_timers := hmap_erase (tm_timers t) i\<rparr>)"
  by (auto simp: intervals_ok_def list_all_iff hmap_erase_def AList.delete_eq)

lemma fire_ids_exact:
  assumes "distinct ids" "key \<le> time" "clock_ok time" "intervals_ok t"
    "smap_ok (tm_events t)" "hmap_ok (tm_timers t)"
  shows "\<exists>t'. fire_ids time key ids t = Inr (calls t ids, t') \<and> fired_state time t ids t'"
  using assms
proof (induction ids arbitrary: t)
  case Nil
  then show ?case by (simp add: fired_state_def calls_def rearmed_def)
next
  case (Cons i ids)
  show ?case
  proof (cases "map_of (tm_timers t) i")
    case None
    from Cons obtain t' where "fire_ids time key ids t = Inr (calls t ids, t')"
      "fired_state time t ids t'" by force
    with None show ?thesis
      by (auto simp: fired_state_def calls_Cons rearmed_Cons is_repeating_def)
  next
    case (Some ev)
    let ?k = "time + te_interval ev"
    note key = next_key[OF Cons.prems(4,3) Some]
    let ?t = "if te_repeating ev then t\<lparr>tm_events := events_push (tm_events t) ?k i\<rparr>
      else t\<lparr>tm_timers := hmap_erase (tm_timers t) i\<rparr>"
    have ok: "intervals_ok ?t" "smap_ok (tm_events ?t)" "hmap_ok (tm_timers ?t)"
      using Cons.prems intervals_ok_erase[OF Cons.prems(4)] by (auto simp: intervals_ok_def)
    have same: "map_of (tm_timers ?t) j = map_of (tm_timers t) j" if "j \<in> set ids" for j
      using that Cons.prems(1) by auto
    obtain t' where t': "fire_ids time key ids ?t = Inr (calls ?t ids, t')"
      "fired_state time ?t ids t'"
      using Cons.IH[OF _ Cons.prems(2,3) ok] Cons.prems(1) by auto
    have "fire_ids time key (i # ids) t = Inr ((i, te_callback ev) # calls ?t ids, t')"
      using Some key Cons.prems(2) t'(1) by (simp add: Let_def)
    moreover have "calls ?t ids = calls t ids" by (rule calls_cong[OF same])
    moreover have "fired_state time t (i # ids) t'"
    proof -
      have r: "rearmed time ?t ids k = rearmed time t ids k" for k by (rule rearmed_cong[OF same])
      have l: "map_of (tm_timers ?t) j =
          (if j = i \<and> \<not> te_repeating ev then None else map_of (tm_timers t) j)" for j by simp
      have rep: "is_repeating ?t j = is_repeating t j" if "j \<in> set ids" for j
        using same[OF that] by (simp add: is_repeating_def)
      have "map_of (tm_timers t') j = (if j \<in> set (i # ids) \<and> \<not> is_repeating t j then None
          else map_of (tm_timers t) j)" for j
        using t'(2) l[of j] rep[of j] Some Cons.prems(1)
        by (cases "j = i") (auto simp: fired_state_def is_repeating_def)
      moreover have "events_at (tm_events t') k = events_at (tm_events t) k @ rearmed time t (i # ids) k" for k
      proof -
        have "events_at (tm_events ?t) k = events_at (tm_events t) k @
            (if te_repeating ev \<and> ?k = k then [i] else [])"
          using Cons.prems(5) by (simp add: events_at_push)
        with t'(2) r show ?thesis by (simp add: fired_state_def rearmed_Cons Some)
      qed
      moreover have "due time (tm_events t') = due time (tm_events t)"
        using t'(2) key(2) by (simp add: fired_state_def)
      ultimately show ?thesis using t'(2) by (simp add: fired_state_def)
    qed
    ultimately show ?thesis using Some by (auto simp: calls_Cons)
  qed
qed

text \<open>The state after a pass: no key is due, the timers that fired once are gone, and each
  repeating timer that fired is queued again one interval later.\<close>

definition passed :: "int \<Rightarrow> 'c timer \<Rightarrow> timer_id list \<Rightarrow> 'c timer \<Rightarrow> bool" where
  "passed time t ids t' \<longleftrightarrow>
     tm_count t' = tm_count t \<and> smap_ok (tm_events t') \<and> hmap_ok (tm_timers t') \<and>
     intervals_ok t' \<and> due time (tm_events t') = [] \<and>
     (\<forall>j. map_of (tm_timers t') j =
        (if j \<in> set ids \<and> \<not> is_repeating t j then None else map_of (tm_timers t) j)) \<and>
     (\<forall>k. events_at (tm_events t') k =
        (if k \<le> time then [] else events_at (tm_events t) k @ rearmed time t ids k))"

definition first_key :: "timer_id list smap \<Rightarrow> int option" where
  "first_key m = (case m of [] \<Rightarrow> None | e # _ \<Rightarrow> Some (fst e))"

lemma due_empty_at: "smap_ok m \<Longrightarrow> due time m = [] \<Longrightarrow> k \<le> time \<Longrightarrow> events_at m k = []"
  by (rule events_at_absent, cases m) (auto simp: due_def smap_ok_Cons split: if_splits)

lemma rearmed_append: "rearmed time t (a @ b) k = rearmed time t a k @ rearmed time t b k"
  by (simp add: rearmed_def)

lemma calls_append: "calls t (a @ b) = calls t a @ calls t b"
  by (simp add: calls_def)

lemma rearmed_same: "is_repeating t j = is_repeating t' j"
  if "map_of (tm_timers t) j = map_of (tm_timers t') j"
  using that by (simp add: is_repeating_def)

lemma passed_step:
  assumes fired: "fired_state time t ids t1" and d: "distinct (ids @ rest)"
    and key: "key \<le> time"
    and p: "passed time (t1\<lparr>tm_events := smap_erase (tm_events t1) key\<rparr>) rest t'" (is "passed _ ?t2 _ _")
  shows "passed time t (ids @ rest) t'"
    and "calls t (ids @ rest) = calls t ids @ calls ?t2 rest"
proof -
  have same: "map_of (tm_timers t) i = map_of (tm_timers ?t2) i" if "i \<in> set rest" for i
    using that d fired by (auto simp: fired_state_def)
  show "calls t (ids @ rest) = calls t ids @ calls ?t2 rest"
    by (simp add: calls_append calls_cong[OF same])
  have r: "rearmed time t (ids @ rest) k = rearmed time t ids k @ rearmed time ?t2 rest k" for k
    unfolding rearmed_append by (simp add: rearmed_cong[OF same])
  have "events_at (tm_events t') k =
      (if k \<le> time then [] else events_at (tm_events t) k @ rearmed time t (ids @ rest) k)" for k
    using p fired key unfolding r by (simp add: passed_def fired_state_def events_at_erase)
  moreover have "map_of (tm_timers t') j = (if j \<in> set (ids @ rest) \<and> \<not> is_repeating t j then None
      else map_of (tm_timers t) j)" for j
  proof (cases "j \<in> set rest")
    case True
    with p same[OF True] rearmed_same[OF same[OF True]] show ?thesis
      by (simp add: passed_def)
  next
    case False
    with p fired show ?thesis by (simp add: passed_def fired_state_def)
  qed
  ultimately show "passed time t (ids @ rest) t'"
    using p fired by (simp add: passed_def fired_state_def)
qed

lemma fire_due_exact:
  assumes "length (due time (tm_events t)) < fuel" "clock_ok time" "intervals_ok t"
    "smap_ok (tm_events t)" "hmap_ok (tm_timers t)" "distinct (due_ids time (tm_events t))"
  shows "\<exists>t'. fire_due fuel time t =
      Inr (calls t (due_ids time (tm_events t)), first_key (tm_events t'), t') \<and>
    passed time t (due_ids time (tm_events t)) t'"
  using assms
proof (induction fuel arbitrary: t)
  case (Suc fuel)
  note ok = Suc.prems(2-5)
  show ?case
  proof (cases "due time (tm_events t)")
    case Nil
    then have "fire_due (Suc fuel) time t = Inr ([], first_key (tm_events t), t)"
      using due_empty_next[OF Nil] by (auto simp: first_key_def)
    moreover have "passed time t [] t"
      using ok Nil due_empty_at[OF ok(3) Nil] by (auto simp: passed_def rearmed_def)
    ultimately show ?thesis using Nil by (auto simp: due_ids_def calls_def)
  next
    case (Cons e r)
    obtain key ids where e: "e = (key, ids)" by force
    then obtain m where m: "tm_events t = (key, ids) # m" "key \<le> time"
      using Cons by (cases "tm_events t") (auto simp: due_def split: if_splits)
    have ids: "due_ids time (tm_events t) = ids @ concat (map snd r)" by (simp add: due_ids_def Cons e)
    then have d: "distinct (ids @ concat (map snd r))" "distinct ids"
      using Suc.prems(6) by simp_all
    obtain t1 where t1: "fire_ids time key ids t = Inr (calls t ids, t1)" "fired_state time t ids t1"
      using fire_ids_exact[OF d(2) m(2) ok(1-4)] by blast
    let ?t2 = "t1\<lparr>tm_events := smap_erase (tm_events t1) key\<rparr>"
    have due2: "due time (tm_events ?t2) = r"
      using t1(2) Cons e smap_erase_head[of "tm_events t1" time key ids r] by (simp add: fired_state_def)
    have ok2: "intervals_ok ?t2" "smap_ok (tm_events ?t2)" "hmap_ok (tm_timers ?t2)"
      using t1(2) by (simp_all add: fired_state_def intervals_ok_def)
    have r2: "due_ids time (tm_events ?t2) = concat (map snd r)" unfolding due_ids_def due2 ..
    have len: "length (due time (tm_events ?t2)) < fuel"
      unfolding due2 using Suc.prems(1) Cons by simp
    have dist: "distinct (due_ids time (tm_events ?t2))" unfolding r2 using d(1) by simp
    obtain t' where t': "fire_due fuel time ?t2 =
        Inr (calls ?t2 (concat (map snd r)), first_key (tm_events t'), t')"
      "passed time ?t2 (concat (map snd r)) t'"
      using Suc.IH[OF len ok(1) ok2 dist] unfolding r2 by blast
    note step = passed_step[OF t1(2) d(1) m(2) t'(2)]
    have "fire_due (Suc fuel) time t =
        Inr (calls t ids @ calls ?t2 (concat (map snd r)), first_key (tm_events t'), t')"
      using m t1(1) t'(1) by simp
    with step show ?thesis unfolding ids by auto
  qed
qed simp

text \<open>A timer in good order: what \<open>schedule\<close>, \<open>erase\<close> and the pass keep.\<close>

definition timer_ok :: "'c timer \<Rightarrow> bool" where
  "timer_ok t \<longleftrightarrow> smap_ok (tm_events t) \<and> hmap_ok (tm_timers t) \<and> intervals_ok t \<and>
     at_most_once (tm_events t)"

lemma distinct_due_ids: "at_most_once m \<Longrightarrow> distinct (due_ids time m)"
proof -
  assume "at_most_once m"
  then have "distinct (concat (map snd (takeWhile (\<lambda>e. fst e \<le> time) m @ dropWhile (\<lambda>e. fst e \<le> time) m)))"
    by (simp add: at_most_once_def)
  then show ?thesis unfolding map_append concat_append distinct_append due_ids_def due_def by blast
qed

lemma timer_pass_spec:
  assumes "timer_ok t" "clock_ok time"
  shows "\<exists>t'. timer_pass time t =
      Inr (calls t (due_ids time (tm_events t)), first_key (tm_events t'), t') \<and>
    passed time t (due_ids time (tm_events t)) t'"
proof -
  have "length (due time (tm_events t)) < Suc (length (tm_events t))"
    by (simp add: due_def length_takeWhile_le le_imp_less_Suc)
  then show ?thesis
    using assms distinct_due_ids unfolding timer_pass_def timer_ok_def
    by (intro fire_due_exact) auto
qed

section \<open>The invariant of the timer\<close>

abbreviation pending_ids :: "'c timer \<Rightarrow> timer_id list" where
  "pending_ids t \<equiv> concat (map snd (tm_events t))"

text \<open>Ids handed out are at most the counter; every live timer is queued.\<close>

definition timer_inv :: "'c timer \<Rightarrow> bool" where
  "timer_inv t \<longleftrightarrow> timer_ok t \<and>
     (\<forall>i\<in>set (pending_ids t). i \<le> tm_count t) \<and>
     (\<forall>i\<in>fst ` set (tm_timers t). i \<in> set (pending_ids t))"

lemma is_live_iff: "is_live t i \<longleftrightarrow> i \<in> fst ` set (tm_timers t)"
  by (simp add: is_live_def map_of_eq_None_iff)

lemma timer_inv_new: "timer_inv new_timer"
  by (simp add: timer_inv_def timer_ok_def new_timer_def intervals_ok_def at_most_once_def)

lemma events_at_due:
  "smap_ok m \<Longrightarrow> events_at (due time m) k = (if k \<le> time then events_at m k else [])"
proof (induction m)
  case (Cons e m)
  then have ok: "smap_ok m" "\<forall>x\<in>set m. fst e < fst x" by (auto simp: smap_ok_Cons)
  show ?case
  proof (cases "fst e \<le> time")
    case True
    with Cons.IH[OF ok(1)] show ?thesis
      by (cases e) (auto simp: due_def events_at_Cons)
  next
    case False
    have "events_at (e # m) k = []" if "k \<le> time"
      by (intro events_at_absent notI) (use that False ok(2) in force)
    with False show ?thesis by (simp add: due_def events_at_def)
  qed
qed (simp add: due_def events_at_def)

lemma smap_ok_due: "smap_ok m \<Longrightarrow> smap_ok (due time m)"
  by (induction m) (auto simp: due_def smap_ok_Cons dest: set_takeWhileD)

lemma in_due_ids:
  "smap_ok m \<Longrightarrow> i \<in> set (due_ids time m) \<longleftrightarrow> (\<exists>k\<le>time. i \<in> set (events_at m k))"
  unfolding due_ids_def in_events_at[OF smap_ok_due]
  by (auto simp: events_at_due split: if_splits)

lemma in_rearmed:
  "i \<in> set (rearmed time t ids k) \<longleftrightarrow> i \<in> set ids \<and>
     (\<exists>ev. map_of (tm_timers t) i = Some ev \<and> te_repeating ev \<and> time + te_interval ev = k)"
  by (auto simp: rearmed_def is_repeating_def split: option.splits)

lemma timer_inv_pass:
  assumes inv: "timer_inv t" and time: "clock_ok time"
    and pass: "passed time t (due_ids time (tm_events t)) t'"
  shows "timer_inv t'"
proof -
  let ?E = "events_at (tm_events t)" and ?E' = "events_at (tm_events t')"
  let ?due = "due_ids time (tm_events t)"
  have ok: "smap_ok (tm_events t)" "intervals_ok t" "at_most_once (tm_events t)"
    using inv by (simp_all add: timer_inv_def timer_ok_def)
  have ok': "smap_ok (tm_events t')" using pass by (simp add: passed_def)
  have E': "?E' k = (if k \<le> time then [] else ?E k @ rearmed time t ?due k)" for k
    using pass by (simp add: passed_def)
  have dist: "distinct (?E k)" and uniq: "i \<in> set (?E k) \<Longrightarrow> i \<in> set (?E k') \<Longrightarrow> k = k'" for i k k'
    using ok(3) unfolding at_most_once_iff[OF ok(1)] by blast+
  have due: "i \<in> set ?due \<Longrightarrow> i \<in> set (?E k) \<Longrightarrow> k \<le> time" for i k
    using in_due_ids[OF ok(1)] uniq by metis
  have old: "i \<in> set (pending_ids t)" if "i \<in> set (?E' k)" for i k
    using that in_due_ids[OF ok(1)] unfolding E' in_events_at[OF ok(1)]
    by (auto simp: in_rearmed split: if_splits)
  have "distinct (?E' k)" for k
    using dist[of k] distinct_due_ids[OF ok(3), of time] due
    by (auto simp: E' rearmed_def)
  moreover have "k = k'" if "i \<in> set (?E' k)" "i \<in> set (?E' k')" for i k k'
    using that due[of i] uniq[of i k k'] by (auto simp: E' in_rearmed split: if_splits)
  ultimately have "at_most_once (tm_events t')"
    unfolding at_most_once_iff[OF ok'] by blast
  moreover have "\<forall>i\<in>set (pending_ids t'). i \<le> tm_count t'"
  proof
    fix i assume "i \<in> set (pending_ids t')"
    then obtain k where "i \<in> set (?E' k)" unfolding in_events_at[OF ok'] by blast
    from old[OF this] inv pass show "i \<le> tm_count t'"
      unfolding timer_inv_def passed_def by metis
  qed
  moreover have "i \<in> set (pending_ids t')" if i: "is_live t' i" for i
  proof -
    have look: "map_of (tm_timers t') i =
        (if i \<in> set ?due \<and> \<not> is_repeating t i then None else map_of (tm_timers t) i)"
      using pass by (simp add: passed_def)
    with i have l: "is_live t i" and rep: "i \<in> set ?due \<Longrightarrow> is_repeating t i"
      by (auto simp: is_live_def split: if_splits)
    obtain ev where ev: "map_of (tm_timers t) i = Some ev" using l by (auto simp: is_live_def)
    obtain k where k: "i \<in> set (?E k)"
      using l inv in_events_at[OF ok(1)] unfolding is_live_iff timer_inv_def by blast
    show ?thesis
    proof (cases "k \<le> time")
      case True
      then have "i \<in> set ?due" using k in_due_ids[OF ok(1)] by blast
      then have "i \<in> set (?E' (time + te_interval ev))"
        using rep ev next_key(2)[OF ok(2) time ev] by (auto simp: E' in_rearmed is_repeating_def)
      then show ?thesis unfolding in_events_at[OF ok'] by blast
    next
      case False
      with k have "i \<in> set (?E' k)" by (simp add: E')
      then show ?thesis unfolding in_events_at[OF ok'] by blast
    qed
  qed
  ultimately show ?thesis
    using pass unfolding timer_inv_def timer_ok_def is_live_iff passed_def by blast
qed

lemma timer_inv_erase: "timer_inv t \<Longrightarrow> timer_inv (snd (timer_erase i t))"
  using intervals_ok_erase[of t i]
  by (auto simp: timer_inv_def timer_ok_def timer_erase_def intervals_ok_def hmap_erase_def AList.delete_eq
      hmap_ok_ops(3)[unfolded hmap_erase_def AList.delete_eq])

definition interval_ok :: "'c timer_event \<Rightarrow> bool" where
  "interval_ok ev \<longleftrightarrow> 0 < te_interval ev \<and> te_interval ev \<le> 9223372036854775808"

lemma next_id_unat: "unat (i :: timer_id) < 4294967295 \<Longrightarrow> unat (i + 1) = Suc (unat i)"
  by (simp add: unat_word_ariths)

lemma next_id_fresh:
  assumes "timer_inv t" "unat (tm_count t) < 4294967295"
  shows "tm_count t + 1 \<notin> set (pending_ids t)" "\<not> is_live t (tm_count t + 1)"
proof -
  have "tm_count t < tm_count t + 1"
    using next_id_unat[OF assms(2)] by (simp add: word_less_nat_alt)
  then show fresh: "tm_count t + 1 \<notin> set (pending_ids t)"
    using assms(1) unfolding timer_inv_def by (metis leD)
  show "\<not> is_live t (tm_count t + 1)"
    using fresh assms(1) unfolding timer_inv_def is_live_iff by metis
qed

lemma intervals_ok_iff:
  "hmap_ok (tm_timers t) \<Longrightarrow> intervals_ok t \<longleftrightarrow>
     (\<forall>i ev. map_of (tm_timers t) i = Some ev \<longrightarrow> interval_ok ev)"
  by (auto simp: intervals_ok_def interval_ok_def list_all_iff hmap_ok_def map_of_eq_Some_iff)

lemma timer_inv_schedule:
  assumes inv: "timer_inv t" and n: "unat (tm_count t) < 4294967295" and ev: "interval_ok ev"
  shows "timer_inv (snd (timer_schedule now ev delay t))" (is "timer_inv ?t")
proof -
  let ?i = "tm_count t + 1" and ?k = "wrapu64 (now + delay)"
  let ?E = "events_at (tm_events t)" and ?E' = "events_at (tm_events ?t)"
  have ok: "smap_ok (tm_events t)" "at_most_once (tm_events t)" "intervals_ok t" "hmap_ok (tm_timers t)"
    using inv by (simp_all add: timer_inv_def timer_ok_def)
  have t: "tm_timers ?t = hmap_set (tm_timers t) ?i ev" "tm_events ?t = events_push (tm_events t) ?k ?i"
      "tm_count ?t = ?i"
    using next_id_fresh(2)[OF inv n]
    by (simp_all add: timer_schedule_def hmap_emplace_def hmap_set_def is_live_def Let_def)
  have ok': "smap_ok (tm_events ?t)" "hmap_ok (tm_timers ?t)" using ok t by simp_all
  have E': "?E' k = ?E k @ (if k = ?k then [?i] else [])" for k
    by (simp add: t(2) events_at_push[OF ok(1)])
  have fresh: "?i \<notin> set (?E k)" for k
    using next_id_fresh(1)[OF inv n] unfolding in_events_at[OF ok(1)] by blast
  have dist: "distinct (?E k)" and uniq: "i \<in> set (?E k) \<Longrightarrow> i \<in> set (?E k') \<Longrightarrow> k = k'" for i k k'
    using ok(2) unfolding at_most_once_iff[OF ok(1)] by blast+
  have "distinct (?E' k)" for k using dist fresh by (simp add: E')
  moreover have "k = k'" if "i \<in> set (?E' k)" "i \<in> set (?E' k')" for i k k'
    using that fresh uniq[of i k k'] by (auto simp: E' split: if_splits)
  ultimately have once: "at_most_once (tm_events ?t)"
    unfolding at_most_once_iff[OF ok'(1)] by blast
  have ids: "i \<in> set (pending_ids ?t) \<longleftrightarrow> i = ?i \<or> i \<in> set (pending_ids t)" for i
    unfolding in_events_at[OF ok'(1)] in_events_at[OF ok(1)] E' by auto
  have int: "intervals_ok ?t"
    using ok(3) ev unfolding intervals_ok_iff[OF ok'(2)] intervals_ok_iff[OF ok(4)]
    by (auto simp: interval_ok_def t(1))
  have le: "tm_count t \<le> ?i" using next_id_unat[OF n] by (simp add: word_le_nat_alt)
  have keys: "fst ` set (tm_timers ?t) = insert ?i (fst ` set (tm_timers t))"
    by (simp add: t(1) hmap_set_def dom_update)
  have "\<forall>i\<in>set (pending_ids ?t). i \<le> tm_count ?t"
  proof
    fix i assume "i \<in> set (pending_ids ?t)"
    then consider "i = ?i" | "i \<in> set (pending_ids t)" unfolding ids by blast
    then show "i \<le> tm_count ?t"
    proof cases
      case 2
      with inv have "i \<le> tm_count t" unfolding timer_inv_def by blast
      with le show ?thesis unfolding t(3) by (rule order.trans[rotated])
    qed (simp add: t(3))
  qed
  moreover have "\<forall>i\<in>fst ` set (tm_timers ?t). i \<in> set (pending_ids ?t)"
    unfolding keys ids using inv unfolding timer_inv_def by blast
  ultimately show ?thesis
    using ok' once int by (simp add: timer_inv_def timer_ok_def)
qed

section \<open>The invariant of the thread\<close>

text \<open>What the callers respect: a clock that is a non-negative \<open>long\<close>, and intervals that are
  positive and below \<open>2 ^ 63\<close>.\<close>

fun action_ok :: "'c timer_action \<Rightarrow> bool" where
  "action_ok (TRun time finish garbage) = (clock_ok time \<and> time \<le> finish)"
| "action_ok (TSchedule now ev delay) = interval_ok ev"
| "action_ok _ = True"

fun is_schedule :: "'c timer_action \<Rightarrow> bool" where
  "is_schedule (TSchedule _ _ _) = True"
| "is_schedule _ = False"

definition schedules :: "'c timer_action list \<Rightarrow> nat" where
  "schedules as = length (filter is_schedule as)"

text \<open>A sleeping thread is in a timed wait for what was left to the first event when its last
  pass began.\<close>

definition sleeps_in_time :: "'c timer_thread \<Rightarrow> bool" where
  "sleeps_in_time s \<longleftrightarrow>
     (case tt_pc s of
        TSleep start d \<Rightarrow> (case first_key (tm_events (tt_timer s)) of
            None \<Rightarrow> True
          | Some k \<Rightarrow> d = Some (k - tt_time s) \<and> tt_time s < k \<and> tt_time s \<le> start)
      | _ \<Rightarrow> True)"

definition thread_inv :: "nat \<Rightarrow> 'c timer_thread \<Rightarrow> bool" where
  "thread_inv n s \<longleftrightarrow>
     timer_inv (tt_timer s) \<and> sleeps_in_time s \<and> unat (tm_count (tt_timer s)) = n"

lemma sleeps_awake: "(\<And>b d. tt_pc s \<noteq> TSleep b d) \<Longrightarrow> sleeps_in_time s"
  by (simp add: sleeps_in_time_def split: timer_pc.split)

lemma timer_wake_not_asleep [simp]: "timer_wake pc \<noteq> TSleep b d"
  by (simp add: timer_wake_def split: timer_pc.split)

lemma thread_inv_new: "thread_inv 0 new_timer_thread"
  using timer_inv_new by (simp add: thread_inv_def new_timer_thread_def sleeps_in_time_def) (simp add: new_timer_def)

lemma thread_pass:
  assumes inv: "thread_inv n s" and ok: "clock_ok time" "time \<le> finish" and pc: "tt_pc s = TLock"
  shows "\<exists>s'. timer_step (TRun time finish garbage) s = Inr (Some s') \<and> thread_inv n s'"
proof -
  have t: "timer_inv (tt_timer s)" "timer_ok (tt_timer s)"
    using inv by (simp_all add: thread_inv_def timer_inv_def)
  obtain t' where t': "timer_pass time (tt_timer s) =
      Inr (calls (tt_timer s) (due_ids time (tm_events (tt_timer s))), first_key (tm_events t'), t')"
    "passed time (tt_timer s) (due_ids time (tm_events (tt_timer s))) t'"
    using timer_pass_spec[OF t(2) ok(1)] by blast
  have "timer_inv t'" by (rule timer_inv_pass[OF t(1) ok(1) t'(2)])
  moreover have "time < k" if "first_key (tm_events t') = Some k" for k
    using that due_empty_next[of time "tm_events t'"] t'(2)
    by (auto simp: passed_def first_key_def split: list.splits)
  moreover have "unat (tm_count t') = n" using inv t'(2) by (simp add: thread_inv_def passed_def)
  ultimately show ?thesis
    using pc t'(1) ok(2)
    by (auto simp: thread_inv_def sleeps_in_time_def timer_wait_def Let_def split: option.split)
qed

lemma thread_inv_step:
  assumes inv: "thread_inv n s" and ok: "action_ok a"
    and n: "n < 4294967295 \<or> \<not> is_schedule a"
  shows "\<exists>r. timer_step a s = Inr r \<and>
    (\<forall>s'. r = Some s' \<longrightarrow> thread_inv (if is_schedule a then Suc n else n) s')"
proof (cases a)
  case (TRun time finish garbage)
  show ?thesis
  proof (cases "tt_pc s")
    case TLock
    from TRun ok have "clock_ok time" "time \<le> finish" by simp_all
    from thread_pass[OF inv this TLock, of garbage] obtain s' where
      "timer_step a s = Inr (Some s')" "thread_inv n s'" unfolding TRun by blast
    then show ?thesis by (simp add: TRun del: timer_step.simps)
  qed (use inv TRun in \<open>simp_all add: thread_inv_def sleeps_in_time_def\<close>)
next
  case (TSchedule now ev delay)
  let ?t = "snd (timer_schedule now ev delay (tt_timer s))"
  have c: "unat (tm_count (tt_timer s)) < 4294967295" using inv n TSchedule by (simp add: thread_inv_def)
  have "timer_inv ?t"
    using timer_inv_schedule[OF _ c] inv ok TSchedule by (simp add: thread_inv_def)
  moreover have "unat (tm_count ?t) = Suc n"
    using next_id_unat[OF c] inv by (simp add: timer_schedule_def thread_inv_def Let_def)
  ultimately show ?thesis
    by (simp add: TSchedule thread_inv_def sleeps_awake)
next
  case (TErase i)
  have "timer_inv (snd (timer_erase i (tt_timer s)))"
    by (rule timer_inv_erase) (use inv in \<open>simp add: thread_inv_def\<close>)
  then show ?thesis
    using inv by (simp add: TErase thread_inv_def timer_erase_def sleeps_awake)
next
  case (TTimeout now)
  then show ?thesis
    using inv by (simp add: thread_inv_def sleeps_awake split: timer_pc.split option.split)
qed (use inv in \<open>simp_all add: thread_inv_def sleeps_awake\<close>)

lemma schedules_Cons: "schedules (a # as) = (if is_schedule a then Suc (schedules as) else schedules as)"
  by (simp add: schedules_def)

lemma thread_inv_steps:
  "thread_inv n s \<Longrightarrow> list_all action_ok as \<Longrightarrow> n + schedules as < 4294967296 \<Longrightarrow>
   \<exists>r. timer_steps as s = Inr r \<and> (\<forall>s'. r = Some s' \<longrightarrow> thread_inv (n + schedules as) s')"
proof (induction as arbitrary: n s)
  case Nil
  then show ?case by (simp add: schedules_def)
next
  case (Cons a as)
  let ?n = "if is_schedule a then Suc n else n"
  have n: "n < 4294967295 \<or> \<not> is_schedule a" "?n + schedules as = n + schedules (a # as)"
    using Cons.prems(3) by (auto simp: schedules_Cons split: if_splits)
  obtain r where r: "timer_step a s = Inr r" "\<And>s'. r = Some s' \<Longrightarrow> thread_inv ?n s'"
    using thread_inv_step[OF Cons.prems(1), of a] n(1) Cons.prems(2) by auto
  show ?case
  proof (cases r)
    case (Some s')
    have "?n + schedules as < 4294967296" using n(2) Cons.prems(3) by simp
    from Cons.IH[OF r(2)[OF Some] _ this] Cons.prems(2) show ?thesis
      unfolding n(2) by (simp add: r(1) Some)
  qed (simp add: r(1))
qed

section \<open>Properties\<close>

text \<open>C34: One pass of the timer thread at a given time calls, in order of their times, exactly
  the callbacks of the live timers whose time has come; afterwards nothing that is due is left,
  the timers that fire once are gone, every repeating timer that fired is queued one interval
  after the time of the pass, behind what was queued there already, and \<open>next\<close> is the first
  time that is still queued. The loop ends within its fuel.\<close>

theorem timer_fires_due:
  assumes "timer_ok t" "clock_ok time"
  shows "\<exists>t'. timer_pass time t =
      Inr (calls t (due_ids time (tm_events t)), first_key (tm_events t'), t') \<and>
    passed time t (due_ids time (tm_events t)) t'"
  by (rule timer_pass_spec[OF assms])

definition demo_timer :: "char timer" where
  "demo_timer = \<lparr> tm_count = 3,
     tm_timers = [(1, TimerEvent CHR ''a'' 30), (2, (TimerEvent CHR ''b'' 1)\<lparr>te_repeating := False\<rparr>)],
     tm_events = [(10, [2, 3]), (20, [1])] \<rparr>"

lemma demo_timer_ok: "timer_ok demo_timer"
  by code_simp

theorem timer_fires_due_witness:
  "\<exists>t'. timer_pass 20 demo_timer =
      Inr (calls demo_timer (due_ids 20 (tm_events demo_timer)), first_key (tm_events t'), t') \<and>
    passed 20 demo_timer (due_ids 20 (tm_events demo_timer)) t'"
  by (rule timer_fires_due[OF demo_timer_ok]) (simp add: clock_ok_def)

lemma demo_timer_pass:
  "timer_pass 20 demo_timer =
     Inr ([(2, CHR ''b''), (1, CHR ''a'')], Some 50,
       demo_timer\<lparr>tm_timers := [(1, TimerEvent CHR ''a'' 30)], tm_events := [(50, [1])]\<rparr>)"
  by code_simp

lemma count_once: "distinct xs \<Longrightarrow> i \<in> set xs \<Longrightarrow> count_list xs i = 1"
  by (induction xs) (auto simp: count_list_0_iff)

text \<open>As long as fewer than \<open>2 ^ 32\<close> timers have been scheduled, every timer that is neither
  erased nor spent is queued exactly once, whatever the interleaving of the timer thread with
  calls of \<open>schedule\<close> and \<open>erase\<close>: none is forgotten and none fires twice for one period.\<close>

theorem live_timers_queued_once:
  assumes "timer_steps as new_timer_thread = Inr (Some s)"
    and "list_all action_ok as" "schedules as < 4294967296" "is_live (tt_timer s) i"
  shows "count_list (pending_ids (tt_timer s)) i = 1"
proof -
  have "timer_inv (tt_timer s)"
    using thread_inv_steps[OF thread_inv_new assms(2)] assms(1,3) by (auto simp: thread_inv_def)
  with assms(4) have "distinct (pending_ids (tt_timer s))" "i \<in> set (pending_ids (tt_timer s))"
    unfolding timer_inv_def timer_ok_def at_most_once_def is_live_iff by blast+
  then show ?thesis by (rule count_once)
qed

text \<open>C35: While the timer thread sleeps and an event is queued, it never waits without a
  timeout and never for another event: it is in a \<open>wait_for\<close> whose timeout is the time left to
  the first queued event when its last pass read the clock. The wait can time out exactly from
  \<open>k + (start - tt_time s)\<close> on, where \<open>start\<close> is when the wait began: the event is late by the
  time the callbacks of the last pass took, and not late at all when they took none.\<close>

theorem timer_wakes_in_time:
  assumes "timer_steps as new_timer_thread = Inr (Some s)"
    and "list_all action_ok as" "schedules as < 4294967296"
    and "tt_pc s = TSleep start d" "tm_events (tt_timer s) = (k, ids) # rest"
  shows "tt_time s \<le> start \<and> tt_time s < k \<and> d = Some (k - tt_time s) \<and>
    (timer_step (TTimeout now) s = Inr (Some (s\<lparr>tt_pc := TTop\<rparr>)) \<longleftrightarrow>
     k + (start - tt_time s) \<le> now)"
proof -
  have "tt_time s \<le> start \<and> tt_time s < k \<and> d = Some (k - tt_time s)"
    using thread_inv_steps[OF thread_inv_new assms(2)] assms(1,3,4,5)
    by (auto simp: thread_inv_def sleeps_in_time_def first_key_def)
  with assms(4) show ?thesis by auto
qed

text \<open>C36: The first \<open>2 ^ 32 - 1\<close> calls of \<open>schedule\<close> hand out ids that are not in use: the
  new id belongs to no is_live timer and to no queued event.\<close>

theorem schedule_id_fresh:
  assumes "timer_steps as new_timer_thread = Inr (Some s)"
    and "list_all action_ok as" "schedules as < 4294967295"
  shows "fst (timer_schedule now ev delay (tt_timer s)) \<notin>
    fst ` set (tm_timers (tt_timer s)) \<union> set (pending_ids (tt_timer s))"
proof -
  have "timer_inv (tt_timer s)" "unat (tm_count (tt_timer s)) < 4294967295"
    using thread_inv_steps[OF thread_inv_new assms(2)] assms(1,3) by (auto simp: thread_inv_def)
  from next_id_fresh[OF this] show ?thesis by (simp add: timer_schedule_def Let_def is_live_iff)
qed

text \<open>A run: two timers scheduled, the thread asleep until the first is due.\<close>

definition demo_actions :: "char timer_action list" where
  "demo_actions = [TRun 5 5 0, TSchedule 5 (TimerEvent CHR ''a'' 30) 20, TRun 6 7 0,
     TSchedule 7 (TimerEvent CHR ''b'' 40) 3, TRun 7 7 0, TRun 7 9 0]"

definition demo_thread :: "char timer_thread" where
  "demo_thread = \<lparr> tt_pc = TSleep 9 (Some 3), tt_stop = False, tt_time = 7, tt_next = Some 10,
     tt_timer = \<lparr> tm_count = 2,
       tm_timers = [(1, TimerEvent CHR ''a'' 30), (2, TimerEvent CHR ''b'' 40)],
       tm_events = [(10, [2]), (25, [1])] \<rparr>,
     tt_fired = [] \<rparr>"

lemma demo_thread_run:
  "timer_steps demo_actions new_timer_thread = Inr (Some demo_thread)"
  "list_all action_ok demo_actions" "schedules demo_actions = 2"
  by code_simp+

theorem live_timers_queued_once_witness: "count_list (pending_ids (tt_timer demo_thread)) 1 = 1"
  by (rule live_timers_queued_once[OF demo_thread_run(1,2)])
     (simp_all add: demo_thread_run(3) demo_thread_def is_live_def)

theorem timer_wakes_in_time_witness:
  "tt_time demo_thread \<le> 9 \<and> tt_time demo_thread < 10 \<and> Some 3 = Some (10 - tt_time demo_thread) \<and>
   (timer_step (TTimeout 11) demo_thread = Inr (Some (demo_thread\<lparr>tt_pc := TTop\<rparr>)) \<longleftrightarrow>
    10 + (9 - tt_time demo_thread) \<le> 11)"
  using timer_wakes_in_time[OF demo_thread_run(1,2), of 9 "Some 3" 10 "[2]" "[(25, [1])]" 11]
  by (simp add: demo_thread_run(3)) (simp add: demo_thread_def)

theorem schedule_id_fresh_witness:
  "fst (timer_schedule 8 (TimerEvent CHR ''c'' 1) 1 (tt_timer demo_thread)) \<notin>
    fst ` set (tm_timers (tt_timer demo_thread)) \<union> set (pending_ids (tt_timer demo_thread))"
  by (rule schedule_id_fresh[OF demo_thread_run(1,2)]) (simp add: demo_thread_run(3))

section \<open>What the code does not promise\<close>

text \<open>A repeating timer with interval 0 makes the pass append to the vector it iterates over.\<close>

lemma zero_interval_faults:
  "timer_pass 10 (snd (timer_schedule 5 (TimerEvent CHR ''a'' 0) 0 new_timer)) = Inl Iterated_vector_grows"
  by code_simp

text \<open>
  The timeout is relative and computed from the clock as it was before the callbacks ran
  (\<^verbatim>\<open>Dispatcher.cpp\<close> 121 and 149). Two timers, due at 10 and at 15; the callback of the first
  takes 4 milliseconds; the thread then sleeps until 19, and the timer that was due at 15 cannot
  fire before.
\<close>

lemma slow_callback_delays_timers:
  "timer_steps [TSchedule 5 (TimerEvent CHR ''a'' 30) 5, TSchedule 5 (TimerEvent CHR ''b'' 30) 10,
       TRun 10 10 0, TRun 10 14 0] new_timer_thread =
     Inr (Some \<lparr> tt_pc = TSleep 14 (Some 5), tt_stop = False, tt_time = 10, tt_next = Some 15,
       tt_timer = \<lparr> tm_count = 2,
         tm_timers = [(1, TimerEvent CHR ''a'' 30), (2, TimerEvent CHR ''b'' 30)],
         tm_events = [(15, [2]), (40, [1])] \<rparr>,
       tt_fired = [(1, CHR ''a'')] \<rparr>)"
  by code_simp

text \<open>
  The destructor sets \<open>m_stop\<close> and notifies under the mutex, but \<open>run\<close> tests \<open>m_stop\<close> before it
  takes the mutex and then waits without a predicate. When the destructor runs in between, its
  notification is lost: the thread goes to sleep after the request to stop, with no timeout, and
  no step of its own, no timeout and no other call follows, so the join does not return.
\<close>

lemma destructor_can_hang:
  "timer_steps [TRun 5 5 0, TDestroy, TRun 6 6 0] (new_timer_thread :: char timer_thread) =
     Inr (Some (new_timer_thread\<lparr>tt_pc := TSleep 6 None, tt_stop := True, tt_time := 6\<rparr>))"
  "timer_step (TRun 7 7 0) ((new_timer_thread :: char timer_thread)
       \<lparr>tt_pc := TSleep 6 None, tt_stop := True, tt_time := 6\<rparr>) = Inr None"
  "timer_step (TTimeout now) ((new_timer_thread :: char timer_thread)
       \<lparr>tt_pc := TSleep 6 None, tt_stop := True, tt_time := 6\<rparr>) = Inr None"
  by (code_simp, code_simp, simp)

end
