(* ===== verification/Cpu.thy ===== *)
theory Cpu
  imports FixConfig
begin

text \<open>
  \<^verbatim>\<open>lib/CpuOrchestrator.h\<close> and \<^verbatim>\<open>lib/CpuOrchestrator.cpp\<close>: reading CPU lists, finding the physical
  cores and the best NUMA node, filling the pool of cores at start and handing one core to each
  thread that binds.

  The file system under \<^verbatim>\<open>/sys\<close> is the parameter \<open>sysfs\<close>: the names in a directory and the
  contents of a file, \<open>None\<close> when there is none. The call \<open>pthread_setaffinity_np\<close> is a
  parameter of \<open>bind\<close>: the cores it accepts. Exceptions are the errors of \<open>cpu_error\<close>; counting
  an \<open>int\<close> past its largest value is undefined behaviour and has an error of its own.
\<close>

section \<open>Reading a CPU list\<close>

datatype cpu_error = Stoi_failed num_error | Int_overflow | Filesystem_error

text \<open>\<open>std::stoi\<close>: \<open>std::stol\<close> with the range of \<open>int\<close>.\<close>

definition stoi :: "string \<Rightarrow> num_error + int" where
  "stoi s = sbind (stol s) (\<lambda>v. if is_int32 v then Inr v else Inl OutOfRange)"

definition cpu_stoi :: "string \<Rightarrow> cpu_error + int" where
  "cpu_stoi s = (case stoi s of Inl e \<Rightarrow> Inl (Stoi_failed e) | Inr v \<Rightarrow> Inr v)"

text \<open>The tokens \<open>std::getline\<close> yields up to the end of the stream: a separator at the end of the
  text does not open another token.\<close>

function getline_all :: "char \<Rightarrow> string \<Rightarrow> string list" where
  "getline_all c s =
     (if s = [] then []
      else case break_at c s of None \<Rightarrow> [s] | Some (a, r) \<Rightarrow> a # getline_all c r)"
  by pat_completeness auto
termination
  by (relation "measure (\<lambda>(c, s). length s)") (auto dest: break_at_shorter)

declare getline_all.simps [simp del]

text \<open>The trimming by \<open>find_first_not_of\<close> and \<open>find_last_not_of\<close>.\<close>

definition is_blank :: "char \<Rightarrow> bool" where
  "is_blank c = (let n = (of_char c :: nat) in n = 32 \<or> n = 9 \<or> n = 10 \<or> n = 13)"

definition trim :: "string \<Rightarrow> string" where
  "trim s = rev (dropWhile is_blank (rev (dropWhile is_blank s)))"

text \<open>\<open>for (int i = lo; i <= hi; ++i)\<close>: with \<open>hi\<close> the largest \<open>int\<close> the increment overflows.\<close>

definition int_range :: "int \<Rightarrow> int \<Rightarrow> cpu_error + int list" where
  "int_range lo hi =
     (if lo \<le> hi \<and> hi = 2147483647 then Inl Int_overflow else Inr [lo..hi])"

definition parse_token :: "string \<Rightarrow> cpu_error + int list" where
  "parse_token tok =
     (case break_at DASH tok of
        Some (a, b) \<Rightarrow> sbind (cpu_stoi a) (\<lambda>lo. sbind (cpu_stoi b) (\<lambda>hi. int_range lo hi))
      | None \<Rightarrow> sbind (cpu_stoi tok) (\<lambda>v. Inr [v]))"

fun parse_tokens :: "string list \<Rightarrow> cpu_error + int list" where
  "parse_tokens [] = Inr []"
| "parse_tokens (tok # toks) =
     (let t = trim tok
      in if t = [] then parse_tokens toks
         else sbind (parse_token t) (\<lambda>xs. sbind (parse_tokens toks) (\<lambda>ys. Inr (xs @ ys))))"

definition parseCpuList :: "string \<Rightarrow> cpu_error + int list" where
  "parseCpuList s = sbind (parse_tokens (getline_all CHR '','' s)) (\<lambda>xs. Inr (sort xs))"

section \<open>Looking at the machine\<close>

record sysfs =
  sys_dir :: "string \<Rightarrow> string list option"
  sys_file :: "string \<Rightarrow> string option"

definition cpu_base :: string where "cpu_base = ''/sys/devices/system/cpu''"
definition node_base :: string where "node_base = ''/sys/devices/system/node''"

text \<open>\<open>f >> online\<close>: the number, 0 when there is none.\<close>

definition extract_int :: "string \<Rightarrow> int" where
  "extract_int s =
     (case stoi s of Inr v \<Rightarrow> v | Inl InvalidArgument \<Rightarrow> 0
      | Inl OutOfRange \<Rightarrow> (if fst (take_sign s) then -2147483648 else 2147483647))"

definition first_line :: "string \<Rightarrow> string" where
  "first_line s = takeWhile (\<lambda>c. c \<noteq> CHR 0x0A) s"

text \<open>The number after a prefix, as the scans of both directories read it: other names are
  skipped.\<close>

definition entry_number :: "string \<Rightarrow> string \<Rightarrow> int option" where
  "entry_number prefix name =
     (if take (length prefix) name \<noteq> prefix \<or> length name < Suc (length prefix) then None
      else case stoi (drop (length prefix) name) of Inl _ \<Rightarrow> None | Inr v \<Rightarrow> Some v)"

definition is_online :: "sysfs \<Rightarrow> string \<Rightarrow> bool" where
  "is_online sys name =
     (case sys_file sys (cpu_base @ ''/'' @ name @ ''/online'') of
        None \<Rightarrow> True | Some text \<Rightarrow> extract_int text \<noteq> 0)"

text \<open>One entry of the directory: the core it contributes, if any.\<close>

definition physical_entry :: "sysfs \<Rightarrow> string \<Rightarrow> cpu_error + int list" where
  "physical_entry sys name =
     (case entry_number ''cpu'' name of
        None \<Rightarrow> Inr []
      | Some cpuId \<Rightarrow>
          if \<not> is_online sys name then Inr []
          else case sys_file sys (cpu_base @ ''/'' @ name @ ''/topology/thread_siblings_list'') of
            None \<Rightarrow> Inr []
          | Some text \<Rightarrow>
              sbind (parseCpuList (first_line text)) (\<lambda>siblings.
                Inr (if siblings \<noteq> [] \<and> hd siblings = cpuId then [cpuId] else [])))"

fun physical_entries :: "sysfs \<Rightarrow> string list \<Rightarrow> cpu_error + int list" where
  "physical_entries sys [] = Inr []"
| "physical_entries sys (n # ns) =
     sbind (physical_entry sys n) (\<lambda>xs. sbind (physical_entries sys ns) (\<lambda>ys. Inr (xs @ ys)))"

definition detectPhysicalCores :: "sysfs \<Rightarrow> cpu_error + int list" where
  "detectPhysicalCores sys =
     (case sys_dir sys cpu_base of
        None \<Rightarrow> Inl Filesystem_error
      | Some names \<Rightarrow> sbind (physical_entries sys names) (\<lambda>xs. Inr (sort xs)))"

definition getCoresForNumaNode :: "sysfs \<Rightarrow> int \<Rightarrow> cpu_error + int list" where
  "getCoresForNumaNode sys node =
     (case sys_file sys (node_base @ ''/node'' @ dec_int node @ ''/cpulist'') of
        None \<Rightarrow> Inr [] | Some text \<Rightarrow> parseCpuList (first_line text))"

definition better_node :: "nat \<Rightarrow> int \<Rightarrow> nat \<Rightarrow> int \<Rightarrow> bool" where
  "better_node count nodeId bestCount bestNode \<longleftrightarrow>
     count > bestCount \<or> (count = bestCount \<and> (bestNode < 0 \<or> nodeId < bestNode))"

fun best_of :: "sysfs \<Rightarrow> int list \<Rightarrow> string list \<Rightarrow> nat \<Rightarrow> int \<Rightarrow> cpu_error + int" where
  "best_of sys phys [] bestCount bestNode = Inr bestNode"
| "best_of sys phys (n # ns) bestCount bestNode =
     (case entry_number ''node'' n of
        None \<Rightarrow> best_of sys phys ns bestCount bestNode
      | Some nodeId \<Rightarrow>
          sbind (getCoresForNumaNode sys nodeId) (\<lambda>cores.
            let count = length (filter (\<lambda>c. c \<in> set phys) cores)
            in if better_node count nodeId bestCount bestNode
               then best_of sys phys ns count nodeId
               else best_of sys phys ns bestCount bestNode))"

definition detectBestNumaNode :: "sysfs \<Rightarrow> int list \<Rightarrow> cpu_error + int" where
  "detectBestNumaNode sys phys =
     (case sys_dir sys node_base of
        None \<Rightarrow> Inr (-1) | Some names \<Rightarrow> best_of sys phys names 0 (-1))"

section \<open>The pool\<close>

record cpu_pool =
  cp_cores :: "int list"
  cp_next :: int
  cp_enabled :: bool

definition new_pool :: cpu_pool where
  "new_pool = \<lparr> cp_cores = [], cp_next = 0, cp_enabled = False \<rparr>"

text \<open>\<open>initialize\<close>. An exception leaves the pool as it was.\<close>

definition init_explicit :: "string \<Rightarrow> cpu_pool \<Rightarrow> cpu_error + cpu_pool" where
  "init_explicit cpuCores p =
     sbind (parseCpuList cpuCores) (\<lambda>cores.
       Inr (p\<lparr>cp_cores := cores, cp_enabled := (cores \<noteq> [] \<or> cp_enabled p)\<rparr>))"

definition select_cores :: "sysfs \<Rightarrow> int list \<Rightarrow> int \<Rightarrow> cpu_error + int list" where
  "select_cores sys phys numaNode =
     sbind (if 0 \<le> numaNode then Inr numaNode else detectBestNumaNode sys phys) (\<lambda>node.
       if 0 \<le> node then
         sbind (getCoresForNumaNode sys node) (\<lambda>cores.
           let filtered = filter (\<lambda>c. c \<in> set cores) phys
           in Inr (if filtered = [] then phys else filtered))
       else Inr phys)"

definition cpu_initialize ::
  "sysfs \<Rightarrow> string \<Rightarrow> bool \<Rightarrow> int \<Rightarrow> cpu_pool \<Rightarrow> cpu_error + cpu_pool" where
  "cpu_initialize sys cpuCores avoidHT numaNode p =
     (if cpuCores \<noteq> [] then init_explicit cpuCores p
      else if \<not> avoidHT then Inr p
      else sbind (detectPhysicalCores sys) (\<lambda>phys.
        if phys = [] then Inr p
        else sbind (select_cores sys phys numaNode) (\<lambda>cores.
          Inr (p\<lparr>cp_cores := cores, cp_enabled := True\<rparr>))))"

text \<open>\<open>bind\<close>: the atomic counter moves on whether or not the core is then accepted.\<close>

definition cpu_bind :: "(int \<Rightarrow> bool) \<Rightarrow> cpu_pool \<Rightarrow> int \<times> cpu_pool" where
  "cpu_bind accepts p =
     (if \<not> cp_enabled p \<or> cp_cores p = [] then (-1, p)
      else
        let idx = cp_next p; p' = p\<lparr>cp_next := wrapu64 (idx + 1)\<rparr>
        in if int (length (cp_cores p)) \<le> idx then (-1, p')
           else let core = cp_cores p ! nat idx
                in (if accepts core then core else -1, p'))"

text \<open>Threads binding one after the other, in the order in which their \<open>fetch_add\<close> took effect.\<close>

fun bind_all :: "(int \<Rightarrow> bool) \<Rightarrow> nat \<Rightarrow> cpu_pool \<Rightarrow> int list \<times> cpu_pool" where
  "bind_all accepts 0 p = ([], p)"
| "bind_all accepts (Suc n) p =
     (let (c, p') = cpu_bind accepts p; (cs, p'') = bind_all accepts n p' in (c # cs, p''))"

section \<open>Facts about CPU lists\<close>

text \<open>The text the kernel writes for a list of ranges, as \<^verbatim>\<open>/sys\<close> documents it.\<close>

definition range_text :: "nat \<times> nat \<Rightarrow> string" where
  "range_text r = (if fst r = snd r then dec_nat (fst r) else dec_nat (fst r) @ DASH # dec_nat (snd r))"

fun cpulist_text :: "(nat \<times> nat) list \<Rightarrow> string" where
  "cpulist_text [] = ''''"
| "cpulist_text [r] = range_text r"
| "cpulist_text (r # rs) = range_text r @ CHR '','' # cpulist_text rs"

definition range_cpus :: "nat \<times> nat \<Rightarrow> int list" where
  "range_cpus r = [int (fst r)..int (snd r)]"

lemma digit_not_blank: "is_digit c \<Longrightarrow> \<not> is_blank c \<and> \<not> is_space c \<and> c \<noteq> DASH \<and> c \<noteq> CHR ''+'' \<and> c \<noteq> CHR '',''"
  by (auto simp: is_digit_def is_blank_def is_space_def Let_def)

lemma dash_not_blank [simp]: "\<not> is_blank DASH"
  by (simp add: is_blank_def)

lemma take_sign_dec_nat [simp]: "take_sign (dec_nat n) = (False, dec_nat n)"
proof -
  obtain c r where d: "dec_nat n = c # r" by (metis dec_nat_nonempty list.exhaust)
  then have "is_digit c" using dec_nat_chars[of c n] by simp
  with digit_not_blank[of c] show ?thesis by (simp add: take_sign_def d Let_def)
qed

lemma stoi_dec_nat [simp]: "n \<le> 2147483647 \<Longrightarrow> cpu_stoi (dec_nat n) = Inr (int n)"
  by (simp add: cpu_stoi_def stoi_def stol_def is_int32_def Let_def)

lemma range_text_chars: "c \<in> set (range_text r) \<Longrightarrow> is_digit c \<or> c = DASH"
  by (auto simp: range_text_def dest: dec_nat_chars split: if_splits)

lemma range_text_nonempty [simp]: "range_text r \<noteq> []"
  by (simp add: range_text_def)

lemma trim_id:
  assumes "list_all (\<lambda>c. \<not> is_blank c) s"
  shows "trim s = s"
proof -
  have "dropWhile is_blank s = s" if "list_all (\<lambda>c. \<not> is_blank c) s" for s
    using that by (cases s) simp_all
  with assms show ?thesis by (simp add: trim_def list_all_rev)
qed

lemma trim_range_text [simp]: "trim (range_text r) = range_text r"
  by (rule trim_id) (auto simp: list_all_iff dest!: range_text_chars digit_not_blank)

lemma getline_all_Nil [simp]: "getline_all c [] = []"
  by (simp add: getline_all.simps)

lemma getline_all_last: "s \<noteq> [] \<Longrightarrow> c \<notin> set s \<Longrightarrow> getline_all c s = [s]"
  by (simp add: getline_all.simps[of c s] break_at_None_iff[THEN iffD2])

lemma getline_all_Cons: "c \<notin> set a \<Longrightarrow> getline_all c (a @ c # r) = a # getline_all c r"
  by (simp add: getline_all.simps[of c "a @ c # r"])

lemma getline_cpulist: "getline_all CHR '','' (cpulist_text rs) = map range_text rs"
proof (induction rs rule: cpulist_text.induct)
  case (2 r)
  have "CHR '','' \<notin> set (range_text r)" by (auto dest!: range_text_chars digit_not_blank)
  then show ?case by (simp add: getline_all_last)
next
  case (3 r r' rs)
  have "CHR '','' \<notin> set (range_text r)" by (auto dest!: range_text_chars digit_not_blank)
  with 3 show ?case by (simp add: getline_all_Cons)
qed simp

lemma parse_range_text:
  assumes "fst r \<le> snd r" "snd r < 2147483647"
  shows "parse_token (range_text r) = Inr (range_cpus r)"
proof -
  have no_dash: "DASH \<notin> set (dec_nat n)" for n
    using dec_nat_chars[of DASH n] by auto
  then have "break_at DASH (dec_nat n) = None" for n by (simp add: break_at_None_iff)
  with assms no_dash show ?thesis
    by (auto simp: parse_token_def range_text_def range_cpus_def int_range_def)
qed

lemma parse_cpulist_tokens:
  "list_all (\<lambda>r. fst r \<le> snd r \<and> snd r < 2147483647) rs \<Longrightarrow>
   parse_tokens (map range_text rs) = Inr (concat (map range_cpus rs))"
  by (induction rs) (simp_all add: parse_range_text)

section \<open>Facts about detection and binding\<close>

abbreviation cpu_ids :: "string list \<Rightarrow> int list" where
  "cpu_ids ns \<equiv> List.map_filter (entry_number ''cpu'') ns"

lemma physical_entry_ids:
  "physical_entry sys n = Inr xs \<Longrightarrow> xs = [] \<or> entry_number ''cpu'' n = Some (hd xs) \<and> xs = [hd xs]"
  by (auto simp: physical_entry_def sbind_Inr_iff split: option.splits if_splits)

lemma physical_entries_ids:
  "physical_entries sys ns = Inr xs \<Longrightarrow> distinct (cpu_ids ns) \<Longrightarrow>
   distinct xs \<and> set xs \<subseteq> set (cpu_ids ns)"
proof (induction ns arbitrary: xs)
  case (Cons n ns)
  then obtain ys zs where yz: "physical_entry sys n = Inr ys" "physical_entries sys ns = Inr zs" "xs = ys @ zs"
    by (auto simp: sbind_Inr_iff)
  have "distinct (cpu_ids ns)"
    using Cons.prems(2) by (simp add: map_filter_simps split: option.splits)
  from Cons.IH[OF yz(2) this] have zs: "distinct zs" "set zs \<subseteq> set (cpu_ids ns)" by blast+
  show ?case
  proof (cases "ys = []")
    case True
    with zs yz(3) show ?thesis by (auto simp: map_filter_simps split: option.split)
  next
    case False
    then have n: "entry_number ''cpu'' n = Some (hd ys)" "ys = [hd ys]"
      using physical_entry_ids[OF yz(1)] by blast+
    have "xs = hd ys # zs" using yz(3) n(2) by (metis append_Cons append_Nil)
    moreover have "hd ys \<notin> set (cpu_ids ns)" using Cons.prems(2) n(1) by (simp add: map_filter_simps)
    ultimately show ?thesis using zs n(1) by (auto simp: map_filter_simps)
  qed
qed (simp add: map_filter_simps)

lemma auto_pool_distinct:
  assumes "cpu_initialize sys '''' True numaNode new_pool = Inr p"
    and "sys_dir sys cpu_base = Some names" "distinct (cpu_ids names)"
  shows "distinct (cp_cores p)" "set (cp_cores p) \<subseteq> set (cpu_ids names)" "cp_next p = 0"
proof -
  obtain phys where phys: "detectPhysicalCores sys = Inr phys"
    using assms(1) by (auto simp: cpu_initialize_def sbind_Inr_iff)
  then obtain xs where xs: "physical_entries sys names = Inr xs" "phys = sort xs"
    using assms(2) by (auto simp: detectPhysicalCores_def sbind_Inr_iff)
  then have d: "distinct phys" "set phys \<subseteq> set (cpu_ids names)"
    using physical_entries_ids[OF xs(1) assms(3)] by auto
  have sel: "distinct cores \<and> set cores \<subseteq> set phys" if "select_cores sys phys numaNode = Inr cores" for cores
    using that d(1) by (auto simp: select_cores_def sbind_Inr_iff Let_def split: if_splits)
  have p: "cp_cores p = [] \<or> (\<exists>cores. select_cores sys phys numaNode = Inr cores \<and> cp_cores p = cores)"
    "cp_next p = 0"
    using assms(1) phys by (auto simp: cpu_initialize_def new_pool_def sbind_Inr_iff split: if_splits)
  with sel d show "distinct (cp_cores p)" "set (cp_cores p) \<subseteq> set (cpu_ids names)" "cp_next p = 0"
    by auto
qed

text \<open>What the threads get: core \<open>i\<close> for the thread whose \<open>fetch_add\<close> returned \<open>i\<close>.\<close>

definition core_for :: "(int \<Rightarrow> bool) \<Rightarrow> cpu_pool \<Rightarrow> nat \<Rightarrow> int" where
  "core_for accepts p i =
     (if cp_enabled p \<and> i < length (cp_cores p) \<and> accepts (cp_cores p ! i) then cp_cores p ! i else -1)"

lemma cpu_bind_core:
  "cp_next p = int k \<Longrightarrow> int k < 18446744073709551615 \<Longrightarrow>
   fst (cpu_bind accepts p) = core_for accepts p k \<and>
   (cp_enabled p \<and> cp_cores p \<noteq> [] \<longrightarrow> snd (cpu_bind accepts p) = p\<lparr>cp_next := int (Suc k)\<rparr>) \<and>
   (\<not> (cp_enabled p \<and> cp_cores p \<noteq> []) \<longrightarrow> snd (cpu_bind accepts p) = p)"
  by (auto simp: cpu_bind_def core_for_def wrapu64_def Let_def)

lemma core_for_next [simp]: "core_for accepts (p\<lparr>cp_next := j\<rparr>) i = core_for accepts p i"
  by (simp add: core_for_def)

lemma bind_all_cores:
  "cp_next p = int k \<Longrightarrow> int (k + n) < 18446744073709551616 \<Longrightarrow>
   fst (bind_all accepts n p) = map (core_for accepts p) [k..<k + n]"
proof (induction n arbitrary: p k)
  case (Suc n)
  have k: "int k < 18446744073709551615" using Suc.prems(2) by simp
  note b = cpu_bind_core[OF Suc.prems(1) k, of accepts]
  have range: "[k..<k + Suc n] = k # [Suc k..<Suc k + n]" by (simp add: upt_rec)
  show ?case
  proof (cases "cp_enabled p \<and> cp_cores p \<noteq> []")
    case True
    then have s: "snd (cpu_bind accepts p) = p\<lparr>cp_next := int (Suc k)\<rparr>" using b by blast
    have "fst (bind_all accepts n (snd (cpu_bind accepts p))) = map (core_for accepts p) [Suc k..<Suc k + n]"
      unfolding s using Suc.IH[of "p\<lparr>cp_next := int (Suc k)\<rparr>" "Suc k"] Suc.prems(2) by simp
    with b show ?thesis unfolding range by (simp add: split_beta)
  next
    case False
    have none: "core_for accepts p i = -1" for i using False by (auto simp: core_for_def)
    have all: "fst (bind_all accepts m p) = replicate m (-1)" for m
      using False by (induction m) (auto simp: cpu_bind_def split_beta)
    have "core_for accepts p = (\<lambda>_. -1)" by (rule ext) (rule none)
    then have m1: "map (core_for accepts p) [k..<k + Suc n] = replicate (Suc n) (-1)"
      by (simp add: map_replicate_const del: upt_Suc replicate_Suc)
    show ?thesis unfolding m1 by (rule all)
  qed
qed simp

lemma cores_distinct:
  assumes "distinct (cp_cores p)"
  shows "distinct (filter (\<lambda>c. c \<noteq> -1) (map (core_for accepts p) [0..<n]))"
proof -
  have "inj_on (core_for accepts p) {i. core_for accepts p i \<noteq> -1}"
    using assms by (auto simp: inj_on_def core_for_def nth_eq_iff_index_eq split: if_splits)
  then have "inj_on (core_for accepts p) (set (filter (\<lambda>i. core_for accepts p i \<noteq> -1) [0..<n]))"
    by (rule inj_on_subset) auto
  then show ?thesis by (simp add: filter_map comp_def distinct_map del: set_filter)
qed

section \<open>The best node\<close>

definition node_score :: "sysfs \<Rightarrow> int list \<Rightarrow> int \<Rightarrow> nat" where
  "node_score sys phys node =
     (case getCoresForNumaNode sys node of Inl _ \<Rightarrow> 0 | Inr cores \<Rightarrow> length (filter (\<lambda>c. c \<in> set phys) cores))"

abbreviation node_ids :: "string list \<Rightarrow> int list" where
  "node_ids ns \<equiv> List.map_filter (entry_number ''node'') ns"

definition at_least_as_good :: "sysfs \<Rightarrow> int list \<Rightarrow> int \<Rightarrow> int \<Rightarrow> bool" where
  "at_least_as_good sys phys b m \<longleftrightarrow>
     node_score sys phys m < node_score sys phys b \<or>
     (node_score sys phys m = node_score sys phys b \<and> b \<le> m)"

lemma best_of_maximal:
  "best_of sys phys ns count best = Inr b \<Longrightarrow> list_all (\<lambda>m. 0 \<le> m) (node_ids ns) \<Longrightarrow>
   (best < 0 \<and> count = 0 \<or> 0 \<le> best \<and> count = node_score sys phys best) \<Longrightarrow>
   (\<forall>m\<in>set (node_ids ns). at_least_as_good sys phys b m) \<and>
   (0 \<le> best \<longrightarrow> at_least_as_good sys phys b best) \<and> (b = best \<or> b \<in> set (node_ids ns)) \<and>
   (0 \<le> best \<or> node_ids ns \<noteq> [] \<longrightarrow> 0 \<le> b)"
proof (induction ns arbitrary: count best)
  case (Cons n ns)
  show ?case
  proof (cases "entry_number ''node'' n")
    case None
    then have ids: "node_ids (n # ns) = node_ids ns" by (simp add: map_filter_simps)
    have "best_of sys phys ns count best = Inr b" using Cons.prems(1) None by simp
    from Cons.IH[OF this Cons.prems(2)[unfolded ids] Cons.prems(3)] show ?thesis unfolding ids .
  next
    case (Some m)
    then obtain cores where cores: "getCoresForNumaNode sys m = Inr cores"
      using Cons.prems(1) by (auto simp: sbind_Inr_iff)
    then have score: "length (filter (\<lambda>c. c \<in> set phys) cores) = node_score sys phys m"
      by (simp add: node_score_def)
    have m: "0 \<le> m" "list_all (\<lambda>m. 0 \<le> m) (node_ids ns)"
      using Cons.prems(2) Some by (simp_all add: map_filter_simps)
    show ?thesis
    proof (cases "better_node (node_score sys phys m) m count best")
      case True
      with Cons.prems(1) Some cores score have "best_of sys phys ns (node_score sys phys m) m = Inr b"
        by (simp add: Let_def)
      from Cons.IH[OF this m(2)] m(1) True Cons.prems(3) Some show ?thesis
        by (auto simp: map_filter_simps at_least_as_good_def better_node_def)
    next
      case False
      with Cons.prems(1) Some cores score have "best_of sys phys ns count best = Inr b"
        by (simp add: Let_def)
      from Cons.IH[OF this m(2) Cons.prems(3)] m(1) False Cons.prems(3) Some show ?thesis
        by (auto simp: map_filter_simps at_least_as_good_def better_node_def)
    qed
  qed
qed (auto simp: map_filter_simps at_least_as_good_def)

section \<open>Properties\<close>

text \<open>Reading back a CPU list in the kernel's format (ranges and single cores, separated by
  commas) gives the cores of the ranges in ascending order.\<close>

theorem cpu_list_roundtrip:
  assumes "list_all (\<lambda>r. fst r \<le> snd r \<and> snd r < 2147483647) rs"
  shows "parseCpuList (cpulist_text rs) = Inr (sort (concat (map range_cpus rs)))"
  by (simp add: parseCpuList_def getline_cpulist parse_cpulist_tokens[OF assms])

theorem cpu_list_roundtrip_witness:
  "parseCpuList (cpulist_text [(8, 10), (2, 2)]) = Inr [2, 8, 9, 10]"
  using cpu_list_roundtrip[of "[(8, 10), (2, 2)]"] by (simp add: range_cpus_def upto.simps)

text \<open>C38: With automatic detection, as many threads as bind before the counter wraps around get
  pairwise different cores: no two threads are pinned to the same core.\<close>

theorem bound_cores_distinct:
  assumes "cpu_initialize sys '''' True numaNode new_pool = Inr p"
    and "sys_dir sys cpu_base = Some names" "distinct (cpu_ids names)"
    and "int n < 18446744073709551616"
  shows "distinct (filter (\<lambda>c. c \<noteq> -1) (fst (bind_all accepts n p)))"
proof -
  note pool = auto_pool_distinct[OF assms(1-3)]
  have "cp_next p = int 0" "int (0 + n) < 18446744073709551616" using pool(3) assms(4) by simp_all
  from bind_all_cores[OF this, of accepts] cores_distinct[OF pool(1), of accepts n] show ?thesis by simp
qed

text \<open>The NUMA node chosen automatically is one whose CPU list holds the most physical
  cores, and among those the one with the smallest number.\<close>

theorem best_node_maximal:
  assumes "detectBestNumaNode sys phys = Inr b" "sys_dir sys node_base = Some names"
    and "list_all (\<lambda>m. 0 \<le> m) (node_ids names)" "m \<in> set (node_ids names)"
  shows "b \<in> set (node_ids names) \<and> at_least_as_good sys phys b m"
proof -
  have best: "best_of sys phys names 0 (-1) = Inr b"
    using assms(1,2) by (simp add: detectBestNumaNode_def)
  have start: "(-1::int) < 0 \<and> (0::nat) = 0 \<or> 0 \<le> (-1::int) \<and> 0 = node_score sys phys (-1)" by simp
  note r = best_of_maximal[OF best assms(3) start]
  have "0 \<le> b" using r assms(4) by force
  then have "b \<noteq> -1" by simp
  with r assms(4) show ?thesis by blast
qed

definition demo_sys :: sysfs where
  "demo_sys = \<lparr>
     sys_dir = (\<lambda>p. if p = cpu_base then Some [''cpufreq'', ''cpu3'', ''cpu0'', ''cpu1'', ''cpu2'']
                    else if p = node_base then Some [''has_cpu'', ''node1'', ''node0''] else None),
     sys_file = map_of
       [(''/sys/devices/system/cpu/cpu0/topology/thread_siblings_list'', ''0,2'' @ [CHR 0x0A]),
        (''/sys/devices/system/cpu/cpu1/topology/thread_siblings_list'', ''1'' @ [CHR 0x0A]),
        (''/sys/devices/system/cpu/cpu2/topology/thread_siblings_list'', ''0,2'' @ [CHR 0x0A]),
        (''/sys/devices/system/cpu/cpu3/topology/thread_siblings_list'', ''3'' @ [CHR 0x0A]),
        (''/sys/devices/system/cpu/cpu3/online'', ''1'' @ [CHR 0x0A]),
        (''/sys/devices/system/node/node0/cpulist'', ''0,2'' @ [CHR 0x0A]),
        (''/sys/devices/system/node/node1/cpulist'', ''1,3'' @ [CHR 0x0A])] \<rparr>"

lemma demo_sys_dirs:
  "sys_dir demo_sys cpu_base = Some [''cpufreq'', ''cpu3'', ''cpu0'', ''cpu1'', ''cpu2'']"
  "sys_dir demo_sys node_base = Some [''has_cpu'', ''node1'', ''node0'']"
  by code_simp+

lemma demo_pool:
  "cpu_initialize demo_sys '''' True (-1) new_pool =
     Inr \<lparr> cp_cores = [1, 3], cp_next = 0, cp_enabled = True \<rparr>"
  "detectBestNumaNode demo_sys [0, 1, 3] = Inr 1"
  by code_simp+

lemma demo_ids:
  "cpu_ids [''cpufreq'', ''cpu3'', ''cpu0'', ''cpu1'', ''cpu2''] = [3, 0, 1, 2]"
  "node_ids [''has_cpu'', ''node1'', ''node0''] = [1, 0]"
  by code_simp+

theorem bound_cores_distinct_witness:
  "distinct (filter (\<lambda>c. c \<noteq> -1)
     (fst (bind_all (\<lambda>_. True) 3 \<lparr> cp_cores = [1, 3], cp_next = 0, cp_enabled = True \<rparr>)))"
  by (rule bound_cores_distinct[OF demo_pool(1) demo_sys_dirs(1)]) (unfold demo_ids, simp_all)

theorem best_node_maximal_witness:
  "1 \<in> set (node_ids [''has_cpu'', ''node1'', ''node0'']) \<and> at_least_as_good demo_sys [0, 1, 3] 1 0"
  by (rule best_node_maximal[OF demo_pool(2) demo_sys_dirs(2)]) (unfold demo_ids, simp_all)

section \<open>What the code does not check\<close>

text \<open>An explicit list may name a core twice, and then two threads share it; a list whose
  range ends in the largest \<open>int\<close> makes the counter overflow.\<close>

lemma explicit_duplicates:
  "(case cpu_initialize demo_sys ''2,2'' False 0 new_pool of
      Inl _ \<Rightarrow> [] | Inr p \<Rightarrow> fst (bind_all (\<lambda>_. True) 2 p)) = [2, 2]"
  by code_simp

lemma explicit_overflow: "parse_token (dec_nat 0 @ DASH # dec_nat 2147483647) = Inl Int_overflow"
proof -
  have "DASH \<notin> set (dec_nat 0)" using dec_nat_chars[of DASH 0] by auto
  then show ?thesis by (simp add: parse_token_def int_range_def)
qed

end
