(* ===== verification/Application.thy ===== *)
theory Application
  imports SessionDemo Cpu NetworkCore
begin

text \<open>
  \<^verbatim>\<open>src/Application.h\<close>, \<^verbatim>\<open>src/Application.cpp\<close>, with \<open>FileLogger\<close> (\<^verbatim>\<open>src/FIXLogger.cpp\<close>) and
  \<open>FileStore\<close> (\<^verbatim>\<open>src/FIXStore.cpp\<close>) as the owners of the files: creating sessions, starting,
  updating the sessions that are not connected, and stopping.

  \<^item> The two file writers are tables from paths to writer instances. A session uses the three
    instances at its paths, which sessions with the same CompIDs share: an operation of a session
    runs on the instances of the tables and leaves them there.
  \<^item> \<open>PlatformSettings\<close> is the argument \<open>plat\<close>; what the files held before is \<open>disk\<close>.
  \<^item> Starting the writer threads is taken to be complete when \<open>start\<close> returns.
\<close>

section \<open>Files of a session\<close>

definition platform_declared :: "string \<Rightarrow> config_defaults" where
  "platform_declared name = foldl register no_defaults (takeWhile (\<lambda>x. decl_name x \<noteq> name) platform_decls)"

definition LOG_PATH :: "string config_item" where
  "LOG_PATH = fst (createString ''LogPath'' ''./log'' (platform_declared ''LogPath''))"
definition DATA_PATH :: "string config_item" where
  "DATA_PATH = fst (createString ''DataPath'' ''./data'' (platform_declared ''DataPath''))"
definition CPU_CORES :: "string config_item" where
  "CPU_CORES = fst (createString ''CpuCores'' '''' (platform_declared ''CpuCores''))"
definition CPU_AVOID_HT :: "bool config_item" where
  "CPU_AVOID_HT = fst (createBool ''CpuAvoidHT'' False (platform_declared ''CpuAvoidHT''))"
definition CPU_NUMA_NODE :: "int config_item" where
  "CPU_NUMA_NODE = fst (createLong ''CpuNumaNode'' (- 1) (platform_declared ''CpuNumaNode''))"

definition file_id :: "config \<Rightarrow> string" where
  "file_id settings = getString SENDER_COMP_ID settings @ ''-'' @ getString TARGET_COMP_ID settings"

definition event_log_path :: "config \<Rightarrow> config \<Rightarrow> string" where
  "event_log_path plat settings = getString LOG_PATH plat @ ''/'' @ file_id settings @ ''.event.log''"

definition message_log_path :: "config \<Rightarrow> config \<Rightarrow> string" where
  "message_log_path plat settings = getString LOG_PATH plat @ ''/'' @ file_id settings @ ''.messages.log''"

definition data_path :: "config \<Rightarrow> config \<Rightarrow> string" where
  "data_path plat settings = getString DATA_PATH plat @ ''/'' @ file_id settings @ ''.data''"

section \<open>State\<close>

record application =
  ap_running :: bool
  ap_sessions :: "(string, session_env \<times> session) hmap"
  ap_logFiles :: "(string, writer) hmap"
  ap_storeFiles :: "(string, writer) hmap"
  ap_loggerOn :: bool
  ap_storeOn :: bool
  ap_network :: "send_callback network"
  ap_cpu :: cpu_pool
  ap_updateThread :: bool

definition new_application :: "nat \<Rightarrow> application" where
  "new_application threads =
     \<lparr> ap_running = False, ap_sessions = [], ap_logFiles = [], ap_storeFiles = [],
       ap_loggerOn = False, ap_storeOn = False, ap_network = new_network threads,
       ap_cpu = new_pool, ap_updateThread = False \<rparr>"

datatype app_error = Session_exists string | Cpu_failed cpu_error | Thread_not_joinable

text \<open>\<open>FileLogger::createLogger\<close> and \<open>FileStore::createStore\<close>: one instance per path.\<close>

definition createLogger :: "config \<Rightarrow> (string \<Rightarrow> string option) \<Rightarrow> config \<Rightarrow> application \<Rightarrow> application" where
  "createLogger plat disk settings app =
     (let evt = event_log_path plat settings; msg = message_log_path plat settings;
          files = createInstance (ap_logFiles app) evt False (disk evt)
      in app\<lparr>ap_logFiles := createInstance files msg True (disk msg)\<rparr>)"

definition createStore :: "config \<Rightarrow> (string \<Rightarrow> string option) \<Rightarrow> config \<Rightarrow> application \<Rightarrow> application" where
  "createStore plat disk settings app =
     (let p = data_path plat settings
      in app\<lparr>ap_storeFiles := createInstance (ap_storeFiles app) p False (disk p)\<rparr>)"

text \<open>A session works on the instances at its paths.\<close>

definition instance_at :: "(string, writer) hmap \<Rightarrow> string \<Rightarrow> writer \<Rightarrow> writer" where
  "instance_at files path w = (case map_of files path of None \<Rightarrow> w | Some w' \<Rightarrow> w')"

definition lend_files :: "config \<Rightarrow> application \<Rightarrow> config \<Rightarrow> session \<Rightarrow> session" where
  "lend_files plat app settings s =
     s\<lparr>s_evtLogger := instance_at (ap_logFiles app) (event_log_path plat settings) (s_evtLogger s),
       s_msgLogger := instance_at (ap_logFiles app) (message_log_path plat settings) (s_msgLogger s),
       s_cache := (s_cache s)\<lparr>c_store :=
         instance_at (ap_storeFiles app) (data_path plat settings) (c_store (s_cache s))\<rparr>\<rparr>"

definition return_files :: "config \<Rightarrow> config \<Rightarrow> session \<Rightarrow> application \<Rightarrow> application" where
  "return_files plat settings s app =
     app\<lparr>ap_logFiles := hmap_set (hmap_set (ap_logFiles app) (event_log_path plat settings) (s_evtLogger s))
                          (message_log_path plat settings) (s_msgLogger s),
         ap_storeFiles := hmap_set (ap_storeFiles app) (data_path plat settings) (c_store (s_cache s))\<rparr>"

definition run_session :: "config \<Rightarrow> string \<Rightarrow> (session_env \<Rightarrow> 'a act) \<Rightarrow> application \<Rightarrow> application" where
  "run_session plat name m app =
     (case map_of (ap_sessions app) name of
        None \<Rightarrow> app
      | Some (env, s) \<Rightarrow>
          let s' = snd (m env (lend_files plat app (e_settings env) s))
          in (return_files plat (e_settings env) s' app)
               \<lparr>ap_sessions := hmap_set (ap_sessions app) name (env, s')\<rparr>)"

section \<open>Operations\<close>

definition createSession ::
  "config \<Rightarrow> (string \<Rightarrow> string option) \<Rightarrow> string \<Rightarrow> session_env \<Rightarrow> application \<Rightarrow> app_error + application" where
  "createSession plat disk name env app =
     (if map_of (ap_sessions app) name \<noteq> None then Inl (Session_exists name)
      else
        let settings = e_settings env;
            app1 = createStore plat disk settings (createLogger plat disk settings app);
            w = new_writer False None;
            s = new_session settings
                  (instance_at (ap_logFiles app1) (event_log_path plat settings) w)
                  (instance_at (ap_logFiles app1) (message_log_path plat settings) w)
                  (instance_at (ap_storeFiles app1) (data_path plat settings) w)
        in Inr (app1\<lparr>ap_sessions := hmap_set (ap_sessions app1) name (env, s)\<rparr>))"

definition getSession :: "string \<Rightarrow> application \<Rightarrow> (session_env \<times> session) option" where
  "getSession name app = map_of (ap_sessions app) name"

text \<open>\<open>start\<close>. \<open>CpuOrchestrator::initialize\<close> may throw, after \<open>m_running\<close> has been set.\<close>

definition ap_start :: "sysfs \<Rightarrow> config \<Rightarrow> application \<Rightarrow> (app_error + unit) \<times> application" where
  "ap_start sys plat app =
     (if ap_running app then (Inr (), app)
      else
        let app1 = app\<lparr>ap_running := True\<rparr>
        in case cpu_initialize sys (getString CPU_CORES plat) (getBool CPU_AVOID_HT plat)
                  (wrap32 (getLong CPU_NUMA_NODE plat)) (ap_cpu app1) of
             Inl e \<Rightarrow> (Inl (Cpu_failed e), app1)
           | Inr pool \<Rightarrow>
               (Inr (), app1\<lparr>ap_cpu := pool, ap_loggerOn := True, ap_storeOn := True,
                             ap_network := net_start (ap_network app1), ap_updateThread := True\<rparr>))"

text \<open>\<open>FileWriter::stop\<close>: the last flush, then every file is closed.\<close>

definition stop_files :: "fs_env \<Rightarrow> (string, writer) hmap \<Rightarrow> (string, writer) hmap" where
  "stop_files fs files = map (\<lambda>(p, w). (p, w\<lparr>w_open := False\<rparr>)) (flushInstances fs files)"

definition stop_logger :: "fs_env \<Rightarrow> application \<Rightarrow> application" where
  "stop_logger fs app =
     (if ap_loggerOn app then app\<lparr>ap_loggerOn := False, ap_logFiles := stop_files fs (ap_logFiles app)\<rparr>
      else app)"

definition stop_store :: "fs_env \<Rightarrow> application \<Rightarrow> application" where
  "stop_store fs app =
     (if ap_storeOn app then app\<lparr>ap_storeOn := False, ap_storeFiles := stop_files fs (ap_storeFiles app)\<rparr>
      else app)"

text \<open>
  \<open>stop\<close> as the list of its actions: \<open>m_running\<close> is cleared, then each session is disabled, flushes
  its sequence numbers and closes its connection, then the network, the logger and the store are
  stopped and the update thread is joined. Other threads can act between any two of them.
\<close>

datatype stop_action =
  Clear_running | Disable_session string | Flush_session string | Close_session string
| Stop_network | Stop_logger | Stop_store | Join_update

definition stop_script :: "application \<Rightarrow> stop_action list" where
  "stop_script app =
     Clear_running #
     concat (map (\<lambda>n. [Disable_session n, Flush_session n, Close_session n]) (map fst (ap_sessions app))) @
     [Stop_network, Stop_logger, Stop_store, Join_update]"

fun do_stop :: "fs_env \<Rightarrow> config \<Rightarrow> stop_action \<Rightarrow> application \<Rightarrow> application" where
  "do_stop fs plat Clear_running app = app\<lparr>ap_running := False\<rparr>"
| "do_stop fs plat (Disable_session n) app =
     run_session plat n (\<lambda>env. st_mod (\<lambda>s. s\<lparr>s_enabled := False\<rparr>)) app"
| "do_stop fs plat (Flush_session n) app = run_session plat n (\<lambda>env. on_cache flushSeqNums) app"
| "do_stop fs plat (Close_session n) app = run_session plat n (\<lambda>env. on_network nh_stop) app"
| "do_stop fs plat Stop_network app = app\<lparr>ap_network := net_stop (ap_network app)\<rparr>"
| "do_stop fs plat Stop_logger app = stop_logger fs app"
| "do_stop fs plat Stop_store app = stop_store fs app"
| "do_stop fs plat Join_update app = app\<lparr>ap_updateThread := False\<rparr>"

text \<open>\<open>stop\<close> by itself. Joining a thread that was never started throws \<open>std::system_error\<close>.\<close>

definition ap_stop :: "fs_env \<Rightarrow> config \<Rightarrow> application \<Rightarrow> (app_error + unit) \<times> application" where
  "ap_stop fs plat app =
     (if \<not> ap_running app then (Inr (), app)
      else (if ap_updateThread app then Inr () else Inl Thread_not_joinable,
            foldl (\<lambda>app a. do_stop fs plat a app) app (stop_script app)))"

text \<open>
  \<open>stop\<close> among the other threads. What these do to a session's data is a sequence of operations of
  its cache, each under the cache's own synchronisation, and passes of the store's thread over the
  file of the session, while that thread runs.
\<close>

datatype stop_event = Stop_step | Cache_op string cache_op

definition cache_event :: "config \<Rightarrow> string \<Rightarrow> cache_op \<Rightarrow> application \<Rightarrow> application" where
  "cache_event plat n opn app =
     (if opn = WriterPass \<and> \<not> ap_storeOn app then app
      else run_session plat n (\<lambda>env. on_cache (\<lambda>c. cache_step c opn)) app)"

fun stop_run ::
  "fs_env \<Rightarrow> config \<Rightarrow> stop_event list \<Rightarrow> stop_action list \<times> application \<Rightarrow> stop_action list \<times> application" where
  "stop_run fs plat [] s = s"
| "stop_run fs plat (Stop_step # es) (as, app) =
     (case as of [] \<Rightarrow> stop_run fs plat es ([], app) | a # as' \<Rightarrow> stop_run fs plat es (as', do_stop fs plat a app))"
| "stop_run fs plat (Cache_op n opn # es) (as, app) = stop_run fs plat es (as, cache_event plat n opn app)"

text \<open>The operations on the cache of one session until the store is stopped, in their order.\<close>

fun cache_trace :: "string \<Rightarrow> stop_action list \<Rightarrow> stop_event list \<Rightarrow> cache_op list" where
  "cache_trace n as [] = []"
| "cache_trace n as (Cache_op m opn # es) = (if m = n then [opn] else []) @ cache_trace n as es"
| "cache_trace n as (Stop_step # es) =
     (case as of
        [] \<Rightarrow> []
      | a # as' \<Rightarrow>
          if a = Stop_store then []
          else (if a = Flush_session n then [FlushSeqNums] else []) @ cache_trace n as' es)"

text \<open>\<open>runUpdate\<close>, the body of the update thread's loop.\<close>

definition update_one :: "config \<Rightarrow> string \<Rightarrow> application \<Rightarrow> application" where
  "update_one plat name app =
     (case map_of (ap_sessions app) name of
        None \<Rightarrow> app
      | Some (env, s) \<Rightarrow>
          if isConnected (s_network s) then app else run_session plat name onNetworkUpdate app)"

definition runUpdate :: "config \<Rightarrow> application \<Rightarrow> application" where
  "runUpdate plat app = foldl (\<lambda>app name. update_one plat name app) app (map fst (ap_sessions app))"

section \<open>Facts about one session among others\<close>

lemma run_session_simps [simp]:
  "map_of (ap_sessions app) name = None \<Longrightarrow> run_session plat name m app = app"
  "ap_updateThread (run_session plat name m app) = ap_updateThread app"
  "ap_storeOn (run_session plat name m app) = ap_storeOn app"
  "ap_loggerOn (run_session plat name m app) = ap_loggerOn app"
  "ap_running (run_session plat name m app) = ap_running app"
  "ap_network (run_session plat name m app) = ap_network app"
  by (auto simp: run_session_def return_files_def Let_def split: option.split)

lemma run_session_other:
  assumes "n \<noteq> name"
  shows "map_of (ap_sessions (run_session plat n m app)) name = map_of (ap_sessions app) name"
  using assms by (auto simp: run_session_def return_files_def Let_def split: option.split)

lemma run_session_other_store:
  assumes "\<And>env s. map_of (ap_sessions app) n = Some (env, s) \<Longrightarrow> data_path plat (e_settings env) \<noteq> p"
  shows "map_of (ap_storeFiles (run_session plat n m app)) p = map_of (ap_storeFiles app) p"
  using assms by (auto simp: run_session_def return_files_def Let_def split: option.split)

lemma run_session_self:
  assumes "map_of (ap_sessions app) name = Some (env, s)"
  shows "map_of (ap_sessions (run_session plat name m app)) name =
      Some (env, snd (m env (lend_files plat app (e_settings env) s)))"
    and "map_of (ap_storeFiles (run_session plat name m app)) (data_path plat (e_settings env)) =
      Some (c_store (s_cache (snd (m env (lend_files plat app (e_settings env) s)))))"
  using assms by (simp_all add: run_session_def return_files_def Let_def)

lemma run_session_env:
  "map_option fst (map_of (ap_sessions (run_session plat n m app)) name) =
   map_option fst (map_of (ap_sessions app) name)"
  by (cases "n = name") (auto simp: run_session_def return_files_def Let_def split: option.split)

text \<open>The cache a session works on, and a session whose data file no other session uses.\<close>

definition session_cache :: "config \<Rightarrow> application \<Rightarrow> string \<Rightarrow> fix_cache_state option" where
  "session_cache plat app name =
     map_option (\<lambda>(env, s). s_cache (lend_files plat app (e_settings env) s)) (map_of (ap_sessions app) name)"

definition own_data_file :: "config \<Rightarrow> application \<Rightarrow> string \<Rightarrow> string \<Rightarrow> bool" where
  "own_data_file plat app name p \<longleftrightarrow>
     (case map_of (ap_sessions app) name of None \<Rightarrow> False | Some (env, s) \<Rightarrow> data_path plat (e_settings env) = p) \<and>
     list_all (\<lambda>(n, env, s). n = name \<or> data_path plat (e_settings env) \<noteq> p) (ap_sessions app)"

lemma own_data_fileD:
  "own_data_file plat app name p \<Longrightarrow> map_of (ap_sessions app) n = Some (env, s) \<Longrightarrow> n \<noteq> name \<Longrightarrow>
   data_path plat (e_settings env) \<noteq> p"
  by (auto simp: own_data_file_def list_all_iff dest!: map_of_SomeD)

definition env_of :: "application \<Rightarrow> string \<Rightarrow> session_env option" where
  "env_of app n = map_option fst (map_of (ap_sessions app) n)"

definition others_away :: "config \<Rightarrow> (string \<Rightarrow> session_env option) \<Rightarrow> string \<Rightarrow> string \<Rightarrow> bool" where
  "others_away plat E name p \<longleftrightarrow>
     (\<forall>n env. n \<noteq> name \<longrightarrow> E n = Some env \<longrightarrow> data_path plat (e_settings env) \<noteq> p)"

lemma own_others_away: "own_data_file plat app name p \<Longrightarrow> others_away plat (env_of app) name p"
  by (auto simp: others_away_def env_of_def dest: own_data_fileD)

lemma env_of_run [simp]: "env_of (run_session plat n m app) = env_of app"
  by (simp add: fun_eq_iff env_of_def run_session_env)

text \<open>What the other sessions leave alone: the entry of the session and its data file.\<close>

definition same_for :: "string \<Rightarrow> string \<Rightarrow> application \<Rightarrow> application \<Rightarrow> bool" where
  "same_for name p a b \<longleftrightarrow>
     map_of (ap_sessions b) name = map_of (ap_sessions a) name \<and>
     map_of (ap_storeFiles b) p = map_of (ap_storeFiles a) p"

lemma session_files_private:
  assumes away: "others_away plat (env_of b) name p" and n: "n \<noteq> name"
  shows "same_for name p b (run_session plat n m b)"
proof -
  have "data_path plat (e_settings env) \<noteq> p" if "map_of (ap_sessions b) n = Some (env, s)" for env s
    using away n that by (simp add: others_away_def env_of_def)
  from run_session_other_store[of b n plat p m, OF this] run_session_other[OF n, of plat m b]
  show ?thesis by (simp add: same_for_def)
qed

section \<open>Facts about stopping\<close>

lemma lent_store: "c_store (s_cache (lend_files plat app st s)) =
    instance_at (ap_storeFiles app) (data_path plat st) (c_store (s_cache s))"
  by (simp add: lend_files_def)

text \<open>An operation of the session that acts on its cache as \<open>f\<close>, and one of another session.\<close>

lemma session_cache_self:
  assumes "session_cache plat app name = Some c" "\<And>env x. s_cache (snd (m env x)) = f (s_cache x)"
  shows "session_cache plat (run_session plat name m app) name = Some (f c)"
proof -
  obtain env s where s: "map_of (ap_sessions app) name = Some (env, s)"
    "c = s_cache (lend_files plat app (e_settings env) s)"
    using assms(1) by (auto simp: session_cache_def)
  let ?s' = "snd (m env (lend_files plat app (e_settings env) s))"
  have "s_cache (lend_files plat (run_session plat name m app) (e_settings env) ?s') = s_cache ?s'"
    using run_session_self(2)[OF s(1), of plat m] by (simp add: lend_files_def instance_at_def)
  then show ?thesis
    using run_session_self(1)[OF s(1), of plat m] assms(2) by (simp add: session_cache_def s(2))
qed

lemma session_cache_other:
  assumes "same_for name p a b" "\<And>env s. map_of (ap_sessions a) name = Some (env, s) \<Longrightarrow> data_path plat (e_settings env) = p"
  shows "session_cache plat b name = session_cache plat a name"
  using assms
  by (cases "map_of (ap_sessions a) name")
     (auto simp: session_cache_def same_for_def lend_files_def instance_at_def)

text \<open>The session's own file, as far as its environment and those of the others say.\<close>

definition owner_of :: "config \<Rightarrow> string \<Rightarrow> string \<Rightarrow> application \<Rightarrow> bool" where
  "owner_of plat name p app \<longleftrightarrow>
     others_away plat (env_of app) name p \<and>
     (\<forall>env. env_of app name = Some env \<longrightarrow> data_path plat (e_settings env) = p)"

lemma owner_of_own: "own_data_file plat app name p \<Longrightarrow> owner_of plat name p app"
  using own_others_away[of plat app name p]
  by (auto simp: owner_of_def own_data_file_def env_of_def split: option.splits)

lemma owner_of_env: "env_of b = env_of a \<Longrightarrow> owner_of plat name p b = owner_of plat name p a"
  by (simp add: owner_of_def)

lemma cache_of_other:
  assumes "owner_of plat name p app" "n \<noteq> name"
  shows "session_cache plat (run_session plat n m app) name = session_cache plat app name"
    and "map_of (ap_storeFiles (run_session plat n m app)) p = map_of (ap_storeFiles app) p"
proof -
  have same: "same_for name p app (run_session plat n m app)"
    by (rule session_files_private) (use assms in \<open>simp_all add: owner_of_def\<close>)
  show "session_cache plat (run_session plat n m app) name = session_cache plat app name"
    by (rule session_cache_other[OF same]) (use assms(1) in \<open>simp add: owner_of_def env_of_def\<close>)
  show "map_of (ap_storeFiles (run_session plat n m app)) p = map_of (ap_storeFiles app) p"
    using same by (simp add: same_for_def)
qed

lemma file_of_cache:
  assumes "owner_of plat name p app" "session_cache plat app name = Some c" "map_of (ap_storeFiles app) p = Some w"
  shows "w = c_store c"
  using assms by (auto simp: session_cache_def owner_of_def env_of_def lent_store instance_at_def)

lemma stop_files_lookup:
  "map_of (stop_files fs files) p = map_option (\<lambda>w. (flushInstance fs w)\<lparr>w_open := False\<rparr>) (map_of files p)"
  by (induction files) (auto simp: stop_files_def flushInstances_def)

lemma stop_store_lookup:
  "ap_storeOn app \<Longrightarrow> map_of (ap_storeFiles (stop_store fs app)) p =
     map_option (\<lambda>w. (flushInstance fs w)\<lparr>w_open := False\<rparr>) (map_of (ap_storeFiles app) p)"
  by (simp add: stop_store_def stop_files_lookup)

lemma do_stop_env [simp]: "env_of (do_stop fs plat a app) = env_of app"
  by (cases a) (simp_all add: env_of_def fun_eq_iff stop_logger_def stop_store_def run_session_env)

lemma cache_event_env [simp]: "env_of (cache_event plat n opn app) = env_of app"
  by (simp add: cache_event_def)

text \<open>What an action other than the stop of the store does for the cache of a session.\<close>

lemma session_cache_log:
  "ap_sessions b = ap_sessions a \<Longrightarrow> ap_storeFiles b = ap_storeFiles a \<Longrightarrow>
   session_cache plat b name = session_cache plat a name"
  by (simp add: session_cache_def lend_files_def)

lemma run_keeps_file: "map_of (ap_storeFiles app) p \<noteq> None \<Longrightarrow> map_of (ap_storeFiles (run_session plat n m app)) p \<noteq> None"
  by (auto simp: run_session_def return_files_def Let_def split: option.split)

lemma do_stop_cache:
  assumes "owner_of plat name p app" "session_cache plat app name = Some c" "ap_storeOn app" "a \<noteq> Stop_store"
  shows "session_cache plat (do_stop fs plat a app) name =
      Some (if a = Flush_session name then cache_step c FlushSeqNums else c)"
    and "ap_storeOn (do_stop fs plat a app)"
    and "map_of (ap_storeFiles app) p \<noteq> None \<or> a = Flush_session name \<Longrightarrow>
      map_of (ap_storeFiles (do_stop fs plat a app)) p \<noteq> None"
proof -
  have run: "session_cache plat (run_session plat n m app) name = Some (if n = name then f c else c)"
    if "\<And>env x. s_cache (snd (m env x)) = f (s_cache x)" for n m f
    using session_cache_self[OF assms(2), of m f] that cache_of_other(1)[OF assms(1), of n m] assms(2) by simp
  show "session_cache plat (do_stop fs plat a app) name =
      Some (if a = Flush_session name then cache_step c FlushSeqNums else c)"
  proof (cases a)
    case (Disable_session n)
    have "session_cache plat (do_stop fs plat a app) name = Some (if n = name then c else c)"
      unfolding Disable_session do_stop.simps by (rule run) (simp add: st_mod_def)
    with Disable_session show ?thesis by simp
  next
    case (Flush_session n)
    have "session_cache plat (do_stop fs plat a app) name = Some (if n = name then flushSeqNums c else c)"
      unfolding Flush_session do_stop.simps by (rule run) (simp add: on_cache_def st_mod_def)
    with Flush_session show ?thesis by simp
  next
    case (Close_session n)
    have "session_cache plat (do_stop fs plat a app) name = Some (if n = name then c else c)"
      unfolding Close_session do_stop.simps by (rule run) (simp add: on_network_def st_mod_def)
    with Close_session show ?thesis by simp
  qed (use assms(2,4) in \<open>simp_all add: session_cache_def lend_files_def stop_logger_def\<close>)
  show "ap_storeOn (do_stop fs plat a app)" using assms(3,4) by (cases a) (simp_all add: stop_logger_def)
  have self: "map_of (ap_storeFiles (run_session plat name m app)) p \<noteq> None" for m
  proof -
    obtain env s where s: "map_of (ap_sessions app) name = Some (env, s)"
      using assms(2) by (auto simp: session_cache_def)
    have "data_path plat (e_settings env) = p" using assms(1) s by (simp add: owner_of_def env_of_def)
    with run_session_self(2)[OF s, of plat m] show ?thesis by simp
  qed
  show "map_of (ap_storeFiles (do_stop fs plat a app)) p \<noteq> None"
    if "map_of (ap_storeFiles app) p \<noteq> None \<or> a = Flush_session name"
    using that assms(4) self run_keeps_file[of app p plat]
    by (cases a) (auto simp: stop_logger_def)
qed

lemma cache_event_cache:
  assumes "owner_of plat name p app" "session_cache plat app name = Some c"
    and "ap_storeOn app \<or> opn \<noteq> WriterPass"
  shows "session_cache plat (cache_event plat n opn app) name = Some (if n = name then cache_step c opn else c)"
    and "map_of (ap_storeFiles app) p \<noteq> None \<Longrightarrow> map_of (ap_storeFiles (cache_event plat n opn app)) p \<noteq> None"
    and "ap_storeOn (cache_event plat n opn app) = ap_storeOn app"
proof -
  let ?m = "\<lambda>env. on_cache (\<lambda>c. cache_step c opn)"
  have e: "cache_event plat n opn app = run_session plat n ?m app" using assms(3) by (auto simp: cache_event_def)
  show "session_cache plat (cache_event plat n opn app) name = Some (if n = name then cache_step c opn else c)"
    unfolding e using session_cache_self[OF assms(2), of ?m "\<lambda>c. cache_step c opn"]
      cache_of_other(1)[OF assms(1), of n ?m] assms(2) by (simp add: on_cache_def st_mod_def)
  show "map_of (ap_storeFiles app) p \<noteq> None \<Longrightarrow> map_of (ap_storeFiles (cache_event plat n opn app)) p \<noteq> None"
    unfolding e by (rule run_keeps_file)
  show "ap_storeOn (cache_event plat n opn app) = ap_storeOn app" unfolding e by simp
qed

text \<open>Once the store is stopped, the file of a session does not change any more.\<close>

definition closed_file :: "config \<Rightarrow> string \<Rightarrow> string \<Rightarrow> string option \<Rightarrow> application \<Rightarrow> bool" where
  "closed_file plat name p f app \<longleftrightarrow>
     owner_of plat name p app \<and> \<not> ap_storeOn app \<and>
     (\<exists>c. session_cache plat app name = Some c \<and> map_of (ap_storeFiles app) p = Some (c_store c) \<and> w_file (c_store c) = f)"

lemma closed_file_run:
  assumes "closed_file plat name p f app" "\<And>env x. w_file (c_store (s_cache (snd (m env x)))) = w_file (c_store (s_cache x))"
  shows "closed_file plat name p f (run_session plat n m app)"
proof -
  obtain c where c: "session_cache plat app name = Some c" "map_of (ap_storeFiles app) p = Some (c_store c)"
    "w_file (c_store c) = f" and own: "owner_of plat name p app" and off: "\<not> ap_storeOn app"
    using assms(1) by (auto simp: closed_file_def)
  have own': "owner_of plat name p (run_session plat n m app)" using own by (simp add: owner_of_def)
  show ?thesis
  proof (cases "n = name")
    case True
    obtain env s where s: "map_of (ap_sessions app) name = Some (env, s)"
      "c = s_cache (lend_files plat app (e_settings env) s)"
      using c(1) by (auto simp: session_cache_def)
    let ?c' = "s_cache (snd (m env (lend_files plat app (e_settings env) s)))"
    have p: "data_path plat (e_settings env) = p" using own s(1) by (simp add: owner_of_def env_of_def)
    have "map_of (ap_storeFiles (run_session plat name m app)) p = Some (c_store ?c')"
      using run_session_self(2)[OF s(1), of plat m] p by simp
    moreover from this have "session_cache plat (run_session plat name m app) name = Some ?c'"
      using run_session_self(1)[OF s(1), of plat m] p by (simp add: session_cache_def lend_files_def instance_at_def)
    moreover have "w_file (c_store ?c') = f" using assms(2) c(3) s(2) by simp
    ultimately show ?thesis using own' off True by (simp add: closed_file_def)
  next
    case False
    with cache_of_other[OF own False, of m] c own' off show ?thesis by (simp add: closed_file_def)
  qed
qed

lemma closed_file_frame:
  "closed_file plat name p f a \<Longrightarrow> ap_sessions b = ap_sessions a \<Longrightarrow> ap_storeFiles b = ap_storeFiles a \<Longrightarrow>
   ap_storeOn b = ap_storeOn a \<Longrightarrow> closed_file plat name p f b"
  using session_cache_log[of b a plat name] owner_of_env[of b a plat name p]
  by (simp add: closed_file_def env_of_def fun_eq_iff)

lemma closed_file_stop: "closed_file plat name p f app \<Longrightarrow> closed_file plat name p f (do_stop fs plat a app)"
proof (cases a)
  case (Flush_session n)
  then show "closed_file plat name p f app \<Longrightarrow> ?thesis"
    using step_keeps_file[of FlushSeqNums] by (auto intro!: closed_file_run simp: on_cache_def st_mod_def)
next
  case Stop_logger
  then show "closed_file plat name p f app \<Longrightarrow> ?thesis"
    by (auto intro: closed_file_frame simp: stop_logger_def)
next
  case Stop_store
  then show "closed_file plat name p f app \<Longrightarrow> ?thesis"
    by (simp add: stop_store_def closed_file_def)
qed (auto intro: closed_file_frame intro!: closed_file_run simp: st_mod_def on_network_def)

lemma closed_file_event: "closed_file plat name p f app \<Longrightarrow> closed_file plat name p f (cache_event plat n opn app)"
proof -
  assume c: "closed_file plat name p f app"
  then have off: "\<not> ap_storeOn app" by (simp add: closed_file_def)
  show ?thesis
  proof (cases "opn = WriterPass")
    case True
    with c off show ?thesis by (simp add: cache_event_def)
  next
    case False
    have "closed_file plat name p f (run_session plat n (\<lambda>env. on_cache (\<lambda>c. cache_step c opn)) app)"
      by (rule closed_file_run[OF c]) (simp add: on_cache_def st_mod_def step_keeps_file[OF False])
    with False show ?thesis by (simp add: cache_event_def)
  qed
qed

lemma closed_file_stays:
  "closed_file plat name p f app \<Longrightarrow> closed_file plat name p f (snd (stop_run fs plat es (as, app)))"
proof (induction es arbitrary: as app)
  case (Cons e es)
  then show ?case
    by (cases e; cases as) (simp_all add: closed_file_stop closed_file_event)
qed simp

text \<open>The file holds the cache as the operations up to the stop of the store left it.\<close>

lemma stop_run_file:
  assumes "owner_of plat name p app" "session_cache plat app name = Some c" "ap_storeOn app"
    and "map_of (ap_storeFiles app) p \<noteq> None \<or> Flush_session name \<in> set (takeWhile (\<lambda>a. a \<noteq> Stop_store) as)"
    and "Stop_store \<in> set as" "stop_run fs plat es (as, app) = ([], app')"
  shows "\<exists>w. map_of (ap_storeFiles app') p = Some w \<and>
    w_file w = w_file (flushInstance fs (c_store (foldl cache_step c (cache_trace name as es))))"
  using assms
proof (induction es arbitrary: as app c)
  case (Cons e es)
  show ?case
  proof (cases e)
    case (Cache_op n opn)
    let ?app = "cache_event plat n opn app"
    note ev = cache_event_cache[OF Cons.prems(1,2), of opn n]
    have "owner_of plat name p ?app" using Cons.prems(1) by (simp add: owner_of_def)
    from Cons.IH[OF this ev(1), of as] ev(2,3) Cons.prems(3-6) Cache_op show ?thesis by (cases "n = name") auto
  next
    case Stop_step
    obtain a as' where as: "as = a # as'" using Cons.prems(5) by (cases as) auto
    let ?app = "do_stop fs plat a app"
    have own: "owner_of plat name p ?app" using Cons.prems(1) by (simp add: owner_of_def)
    have run: "stop_run fs plat es (as', ?app) = ([], app')" using Cons.prems(6) by (simp add: Stop_step as)
    show ?thesis
    proof (cases "a = Stop_store")
      case False
      note st = do_stop_cache[OF Cons.prems(1-3) False, where fs = fs]
      have "map_of (ap_storeFiles ?app) p \<noteq> None \<or> Flush_session name \<in> set (takeWhile (\<lambda>a. a \<noteq> Stop_store) as')"
        using Cons.prems(4) st(3) False by (auto simp: as)
      moreover have "Stop_store \<in> set as'" using Cons.prems(5) False by (simp add: as)
      ultimately have "\<exists>w. map_of (ap_storeFiles app') p = Some w \<and> w_file w = w_file (flushInstance fs (c_store
          (foldl cache_step (if a = Flush_session name then cache_step c FlushSeqNums else c) (cache_trace name as' es))))"
        by (rule Cons.IH[OF own st(1,2) _ _ run])
      then show ?thesis using False by (simp add: Stop_step as split: if_splits)
    next
      case True
      obtain w where w: "map_of (ap_storeFiles app) p = Some w" using Cons.prems(4) True by (auto simp: as)
      have wc: "w = c_store c" by (rule file_of_cache[OF Cons.prems(1,2) w])
      let ?w = "(flushInstance fs w)\<lparr>w_open := False\<rparr>"
      have entry: "map_of (ap_storeFiles ?app) p = Some ?w"
        using stop_store_lookup[OF Cons.prems(3), of fs p] w True by simp
      have "session_cache plat ?app name = Some (c\<lparr>c_store := ?w\<rparr>)"
      proof -
        obtain env s where s: "map_of (ap_sessions app) name = Some (env, s)"
          "c = s_cache (lend_files plat app (e_settings env) s)"
          using Cons.prems(2) by (auto simp: session_cache_def)
        have "data_path plat (e_settings env) = p" using Cons.prems(1) s(1) by (simp add: owner_of_def env_of_def)
        then show ?thesis using s entry True Cons.prems(3)
          by (simp add: session_cache_def lend_files_def instance_at_def stop_store_def)
      qed
      moreover have "\<not> ap_storeOn ?app" using True by (simp add: stop_store_def)
      ultimately have "closed_file plat name p (w_file ?w) ?app" using own entry by (simp add: closed_file_def)
      from closed_file_stays[OF this, of fs es as'] run
      have "closed_file plat name p (w_file ?w) app'" by simp
      then show ?thesis using True wc by (auto simp: closed_file_def Stop_step as)
    qed
  qed
qed simp

section \<open>Properties\<close>

lemma script_flushes:
  assumes "n \<in> fst ` set (ap_sessions app)"
  shows "Flush_session n \<in> set (takeWhile (\<lambda>a. a \<noteq> Stop_store) (stop_script app))" "Stop_store \<in> set (stop_script app)"
proof -
  let ?ss = "concat (map (\<lambda>n. [Disable_session n, Flush_session n, Close_session n]) (map fst (ap_sessions app)))"
  have no: "a \<noteq> Stop_store" if "a \<in> set (Clear_running # ?ss)" for a using that by auto
  have "takeWhile (\<lambda>a. a \<noteq> Stop_store) (stop_script app) =
      (Clear_running # ?ss) @ takeWhile (\<lambda>a. a \<noteq> Stop_store) [Stop_network, Stop_logger, Stop_store, Join_update]"
    unfolding stop_script_def append_Cons[symmetric] by (rule takeWhile_append2) (rule no)
  then show "Flush_session n \<in> set (takeWhile (\<lambda>a. a \<noteq> Stop_store) (stop_script app))" using assms by force
  show "Stop_store \<in> set (stop_script app)" by (simp add: stop_script_def)
qed

lemma trace_flushes:
  "stop_run fs plat es (as, app) = ([], app') \<Longrightarrow> Flush_session n \<in> set (takeWhile (\<lambda>a. a \<noteq> Stop_store) as) \<Longrightarrow>
   FlushSeqNums \<in> set (cache_trace n as es)"
proof (induction es arbitrary: as app)
  case (Cons e es)
  show ?case
  proof (cases e)
    case Stop_step
    obtain a as' where as: "as = a # as'" "a \<noteq> Stop_store" using Cons.prems(2) by (cases as) (auto split: if_splits)
    with Cons Stop_step show ?thesis by (cases "a = Flush_session n") auto
  qed (use Cons in auto)
qed auto

lemma stop_alone:
  "stop_run fs plat (replicate (length as) Stop_step) (as, app) = ([], foldl (\<lambda>app a. do_stop fs plat a app) app as)"
  by (induction as arbitrary: app) simp_all


definition demo_cache :: fix_cache_state where
  "demo_cache = foldl cache_step (new_cache (new_writer False None)) [CacheMessage 1 ''x'', NextSender]"

definition demo_application :: application where
  "demo_application = (new_application 1)\<lparr>ap_running := True, ap_storeOn := True, ap_updateThread := True,
     ap_sessions := [(''s'', demo_env ''initiator'', demo_ready\<lparr>s_cache := demo_cache\<rparr>)]\<rparr>"

lemma stop_run_script:
  "fst (stop_run fs plat es (as, app)) = drop (length (filter (\<lambda>e. e = Stop_step) es)) as"
proof (induction es arbitrary: as app)
  case (Cons e es)
  then show ?case by (cases e; cases as) simp_all
qed simp

text \<open>Messages are cached before and after the session's flush; the second one is not kept.\<close>

definition demo_stop :: "stop_event list" where
  "demo_stop = [Stop_step, Stop_step, Cache_op ''s'' (CacheMessage 2 ''y''), Stop_step,
     Cache_op ''s'' (CacheMessage 3 ''z''), Stop_step, Cache_op ''s'' WriterPass,
     Stop_step, Stop_step, Stop_step, Cache_op ''s'' FlushSeqNums, Stop_step]"


text \<open>A session name is registered once: \<open>createSession\<close> with a new name makes exactly that
  session available to \<open>getSession\<close> and leaves the others as they were, and with a name that is
  taken it fails.\<close>

theorem createSession_registers:
  "(case createSession plat disk name env app of
      Inl e \<Rightarrow> e = Session_exists name \<and> getSession name app \<noteq> None
    | Inr app' \<Rightarrow> getSession name app = None \<and>
        map_option fst (getSession name app') = Some env \<and>
        (\<forall>n. n \<noteq> name \<longrightarrow> getSession n app' = getSession n app))"
  by (cases "map_of (ap_sessions app) name")
     (simp_all add: createSession_def getSession_def createStore_def createLogger_def Let_def)

section \<open>What the code does not promise\<close>

text \<open>An exception from \<open>CpuOrchestrator::initialize\<close> leaves \<open>m_running\<close> set and no thread
  started: a second \<open>start\<close> does nothing, and \<open>stop\<close>, which the destructor also calls, throws.\<close>

lemma failed_start_wedges:
  assumes "\<not> ap_running app" "\<not> ap_updateThread app" "ap_start sys plat app = (Inl e, app')"
  shows "ap_start sys plat app' = (Inr (), app')" "fst (ap_stop fs plat app') = Inl Thread_not_joinable"
proof -
  have r: "app' = app\<lparr>ap_running := True\<rparr>"
    using assms by (auto simp: ap_start_def Let_def split: sum.splits)
  then show "ap_start sys plat app' = (Inr (), app')" by (simp add: ap_start_def)
  show "fst (ap_stop fs plat app') = Inl Thread_not_joinable"
    using assms(2) by (simp add: r ap_stop_def)
qed

text \<open>The files of a session are named after its CompIDs joined by a dash, so sessions with
  different CompIDs can share them.\<close>

lemma file_ids_collide:
  assumes "getString SENDER_COMP_ID c1 = ''A''" "getString TARGET_COMP_ID c1 = ''B-C''"
    and "getString SENDER_COMP_ID c2 = ''A-B''" "getString TARGET_COMP_ID c2 = ''C''"
  shows "data_path plat c1 = data_path plat c2"
  using assms by (simp add: data_path_def file_id_def)

end
