(* ===== verification/Admin.thy ===== *)
theory Admin
  imports Application Tls
begin

text \<open>
  \<^verbatim>\<open>src/AdminWebsite.cpp\<close>: the pages and the form handlers of the administration site. A route is a
  function of the application and the request; the web framework (crow), which is not under
  \<^verbatim>\<open>src/\<close>, calls it and sends its response. The style sheet, a constant of the file, is the
  argument \<open>css\<close>. The code writes markup piece by piece to a stream; here the same text is built
  with \<open>el\<close> and \<open>open_tag\<close>.
\<close>

section \<open>Markup\<close>

definition dq :: string where "dq = [CHR 0x22]"

fun attr :: "string \<times> string \<Rightarrow> string" where
  "attr (k, v) = '' '' @ k @ ''='' @ dq @ v @ dq"

definition open_tag :: "string \<Rightarrow> (string \<times> string) list \<Rightarrow> string" where
  "open_tag n ats = ''<'' @ n @ concat (map attr ats) @ ''>''"

definition el :: "string \<Rightarrow> (string \<times> string) list \<Rightarrow> string \<Rightarrow> string" where
  "el n ats body = open_tag n ats @ body @ ''</'' @ n @ ''>''"

abbreviation cls :: "string \<Rightarrow> (string \<times> string) list" where
  "cls c \<equiv> [(''class'', c)]"

section \<open>Helpers\<close>

definition escape_char :: "char \<Rightarrow> string" where
  "escape_char c =
     (if c = CHR ''&'' then ''&amp;'' else if c = CHR ''<'' then ''&lt;''
      else if c = CHR ''>'' then ''&gt;'' else if c = CHR 0x22 then ''&quot;'' else [c])"

definition htmlEscape :: "string \<Rightarrow> string" where
  "htmlEscape s = concat (map escape_char s)"

definition formatFIXMessage :: "string \<Rightarrow> string" where
  "formatFIXMessage raw = htmlEscape (map (\<lambda>c. if c = SOH then BAR else c) raw)"

fun stateToString :: "session_state \<Rightarrow> string" where
  "stateToString LOGON = ''LOGON''"
| "stateToString READY = ''READY''"
| "stateToString TEST_REQUEST = ''TEST_REQUEST''"
| "stateToString KILLING = ''KILLING''"
| "stateToString LOGOUT = ''LOGOUT''"

fun stateToBadgeClass :: "session_state \<Rightarrow> string" where
  "stateToBadgeClass READY = ''badge-green''"
| "stateToBadgeClass LOGON = ''badge-yellow''"
| "stateToBadgeClass TEST_REQUEST = ''badge-yellow''"
| "stateToBadgeClass LOGOUT = ''badge-orange''"
| "stateToBadgeClass KILLING = ''badge-red''"

definition sessionTypeString :: "config \<Rightarrow> string" where
  "sessionTypeString settings =
     (case getSessionType settings of
        Inr INITIATOR \<Rightarrow> ''Initiator'' | Inr ACCEPTOR \<Rightarrow> ''Acceptor'' | Inl _ \<Rightarrow> ''Unknown'')"

definition getLogBase :: "config \<Rightarrow> config \<Rightarrow> string" where
  "getLogBase plat settings =
     getString LOG_PATH plat @ ''/'' @ getString SENDER_COMP_ID settings @ ''-'' @ getString TARGET_COMP_ID settings"

text \<open>The last 512 kB of the file, cut into lines; empty lines and lines without the filter text
  are left out, and only the last \<open>maxLines\<close> are kept. \<open>None\<close> is a file that cannot be opened.\<close>

definition log_lines :: "string \<Rightarrow> string \<Rightarrow> string list" where
  "log_lines buffer flt =
     filter (\<lambda>line. line \<noteq> [] \<and> (flt = [] \<or> str_find line flt 0 \<noteq> None)) (getline_all CHR 0x0A buffer)"

definition log_window :: nat where "log_window = 512 * 1024"

definition readLogTail :: "string option \<Rightarrow> nat \<Rightarrow> string \<Rightarrow> string list" where
  "readLogTail content maxLines flt =
     (case content of
        None \<Rightarrow> []
      | Some bytes \<Rightarrow>
          if bytes = [] then []
          else
            let buffer = drop (length bytes - min (length bytes) log_window) bytes;
                ls = log_lines buffer flt
            in if maxLines < length ls then drop (length ls - maxLines) ls else ls)"

definition parseFormBody :: "string \<Rightarrow> (string, string) hmap" where
  "parseFormBody body =
     foldl (\<lambda>m token. case break_at EQCH token of None \<Rightarrow> m | Some (k, v) \<Rightarrow> hmap_set m k v)
       [] (getline_all CHR ''&'' body)"

definition refresh_script :: "nat \<Rightarrow> string" where
  "refresh_script refreshMs =
     el ''script'' []
       (''setTimeout(function(){window.location.reload();},'' @ dec_nat refreshMs @ '');'' @
        ''window.addEventListener('' @ [CHR 0x27] @ ''load'' @ [CHR 0x27] @
        '',function(){window.scrollTo(0,document.body.scrollHeight);});'')"

definition buildPage :: "string \<Rightarrow> string \<Rightarrow> string \<Rightarrow> string \<Rightarrow> nat option \<Rightarrow> string" where
  "buildPage css title navExtra body refreshMs =
     ''<!DOCTYPE html>'' @
     el ''html'' [(''lang'', ''en'')]
       (el ''head'' []
          (open_tag ''meta'' [(''charset'', ''utf-8'')] @
           open_tag ''meta'' [(''name'', ''viewport''), (''content'', ''width=device-width, initial-scale=1'')] @
           el ''title'' [] (htmlEscape title @ '' - openfix Admin'') @
           el ''style'' [] css) @
        el ''body'' []
          (el ''nav'' [] (el ''span'' (cls ''brand'') ''openfix'' @ navExtra) @
           el ''div'' (cls ''container'') body @
           (case refreshMs of None \<Rightarrow> [] | Some ms \<Rightarrow> refresh_script ms)))"

definition dashboard_link :: string where
  "dashboard_link = el ''a'' [(''href'', ''/'')] ''Dashboard''"

definition notFoundPage :: "string \<Rightarrow> string \<Rightarrow> string" where
  "notFoundPage css sessionName =
     buildPage css ''Not Found'' (el ''span'' (cls ''breadcrumb'') dashboard_link)
       (el ''div'' (cls ''not-found'')
          (el ''h2'' [] (''Session not found: '' @ htmlEscape sessionName) @
           el ''p'' [(''style'', ''margin-top:12px'')] (el ''a'' [(''href'', ''/'')] ''Back to dashboard'')))
       None"

section \<open>Responses and requests\<close>

datatype response = Page nat string | Moved string

text \<open>\<open>req.url_params.get\<close>: an absent parameter is a null pointer. \<open>std::atoi\<close> on a number out of
  range is undefined; the model takes its value as out of range, which the test maps to 200.\<close>

definition atoi :: "string \<Rightarrow> int" where
  "atoi s = (case stoi s of Inr v \<Rightarrow> v | Inl _ \<Rightarrow> 0)"

definition tail_param :: "string option \<Rightarrow> nat" where
  "tail_param p =
     (let tail = (case p of None \<Rightarrow> 200 | Some s \<Rightarrow> atoi s)
      in if tail \<le> 0 \<or> 5000 < tail then 200 else nat tail)"

section \<open>Dashboard\<close>

definition yes_no :: "bool \<Rightarrow> string" where
  "yes_no b = (if b then ''Yes'' else ''No'')"

definition dot :: "bool \<Rightarrow> string" where
  "dot b = el ''span'' (cls (''dot '' @ (if b then ''dot-green'' else ''dot-red''))) [] @ yes_no b"

definition badge :: "session_state \<Rightarrow> string" where
  "badge state = el ''span'' (cls (''badge '' @ stateToBadgeClass state)) (stateToString state)"

definition dashboard_row :: "string \<Rightarrow> session_env \<times> session \<Rightarrow> string" where
  "dashboard_row name entry =
     (case entry of (env, s) \<Rightarrow>
        el ''tr'' []
          (el ''td'' [] (el ''a'' [(''href'', ''/session/'' @ htmlEscape name)] (htmlEscape name)) @
           el ''td'' [] (sessionTypeString (e_settings env)) @
           el ''td'' [] (htmlEscape (getString BEGIN_STRING (e_settings env))) @
           el ''td'' [] (badge (s_state s)) @
           el ''td'' [] (dot (isConnected (s_network s))) @
           el ''td'' [] (dot (s_enabled s)) @
           el ''td'' [] (dec_int (c_senderSeqNum (s_cache s))) @
           el ''td'' [] (dec_int (c_targetSeqNum (s_cache s)))))"

definition dashboard_table :: "(string, session_env \<times> session) hmap \<Rightarrow> string" where
  "dashboard_table sessions =
     el ''table'' []
       (el ''thead'' []
          (el ''tr'' []
             (concat (map (el ''th'' [])
                [''Name'', ''Type'', ''FIX Version'', ''State'', ''Connected'', ''Enabled'',
                 ''Sender SeqNum'', ''Target SeqNum'']))) @
        el ''tbody'' [] (concat (map (\<lambda>(name, entry). dashboard_row name entry) sessions)))"

definition route_dashboard :: "string \<Rightarrow> application \<Rightarrow> response" where
  "route_dashboard css app =
     Page 200
       (buildPage css ''Dashboard'' []
          (el ''div'' (cls ''page-title'') ''Sessions'' @
           el ''div'' (cls ''card'')
             (if ap_sessions app = [] then el ''p'' (cls ''empty'') ''No sessions configured.''
              else dashboard_table (ap_sessions app)))
          (Some 5000))"

section \<open>Session page\<close>

definition CONNECT_PORT :: "int config_item" where
  "CONNECT_PORT = fst (createLong ''ConnectPort'' 0 (declared ''ConnectPort''))"
definition CONNECT_TIMEOUT :: "int config_item" where
  "CONNECT_TIMEOUT = fst (createLong ''ConnectTimeout'' 5000 (declared ''ConnectTimeout''))"
definition ALLOW_RESET_SEQ_NUM_FLAG :: "bool config_item" where
  "ALLOW_RESET_SEQ_NUM_FLAG =
     fst (createBool ''AllowResetSeqNumFlag'' False (declared ''AllowResetSeqNumFlag''))"
definition ENABLE_TCP_NODELAY :: "bool config_item" where
  "ENABLE_TCP_NODELAY = fst (createBool ''TCPNoDelay'' True (declared ''TCPNoDelay''))"
definition ENABLE_TCP_QUICKACK :: "bool config_item" where
  "ENABLE_TCP_QUICKACK = fst (createBool ''TCPQuickAck'' True (declared ''TCPQuickAck''))"
definition START_TIME :: "string config_item" where
  "START_TIME = fst (createString ''StartTime'' ''00:00:00'' (declared ''StartTime''))"
definition STOP_TIME :: "string config_item" where
  "STOP_TIME = fst (createString ''StopTime'' ''00:00:00'' (declared ''StopTime''))"

definition stat_item :: "string \<Rightarrow> string \<Rightarrow> string" where
  "stat_item label content =
     el ''div'' (cls ''stat-item'')
       (el ''div'' (cls ''stat-label'') label @ el ''div'' (cls ''stat-value'') content)"

definition status_card :: "session \<Rightarrow> string" where
  "status_card s =
     el ''div'' (cls ''card'')
       (el ''h2'' [] ''Status'' @
        el ''div'' (cls ''stat-grid'')
          (stat_item ''State'' (badge (s_state s)) @
           stat_item ''Connected'' (dot (isConnected (s_network s))) @
           stat_item ''Enabled'' (dot (s_enabled s)) @
           stat_item ''Sender SeqNum'' (dec_int (c_senderSeqNum (s_cache s))) @
           stat_item ''Target SeqNum'' (dec_int (c_targetSeqNum (s_cache s)))))"

definition post_button :: "string \<Rightarrow> string \<Rightarrow> string \<Rightarrow> string" where
  "post_button action c label =
     el ''form'' [(''method'', ''post''), (''action'', action)]
       (el ''button'' [(''class'', c), (''type'', ''submit'')] label)"

definition seqnum_input :: "string \<Rightarrow> string \<Rightarrow> int \<Rightarrow> string" where
  "seqnum_input label name num =
     el ''label'' []
       (label @ open_tag ''input''
          [(''type'', ''number''), (''name'', name), (''min'', ''1''), (''value'', dec_int num)])"

definition controls_card :: "string \<Rightarrow> session \<Rightarrow> string" where
  "controls_card enc s =
     (let base = ''/session/'' @ enc in
     el ''div'' (cls ''card'')
       (el ''h2'' [] ''Controls'' @
        el ''div'' (cls ''controls'')
          (post_button (base @ ''/enable'') ''btn btn-green'' ''Enable'' @
           post_button (base @ ''/disable'') ''btn btn-orange'' ''Disable'' @
           post_button (base @ ''/disconnect'') ''btn btn-red'' ''Force Disconnect'') @
        el ''form'' [(''method'', ''post''), (''action'', base @ ''/seqnum'')]
          (el ''div'' (cls ''seqnum-form'')
             (seqnum_input ''Sender SeqNum: '' ''sender'' (c_senderSeqNum (s_cache s)) @
              seqnum_input ''Target SeqNum: '' ''target'' (c_targetSeqNum (s_cache s)) @
              el ''button'' [(''class'', ''btn btn-blue''), (''type'', ''submit'')] ''Apply''))))"

definition logs_card :: "string \<Rightarrow> string" where
  "logs_card enc =
     el ''div'' (cls ''card'')
       (el ''h2'' [] ''Logs'' @
        el ''div'' (cls ''controls'')
          (el ''a'' [(''class'', ''btn btn-blue''), (''href'', ''/session/'' @ enc @ ''/messages'')] ''Message Log'' @
           el ''a'' [(''class'', ''btn btn-blue''), (''href'', ''/session/'' @ enc @ ''/events'')] ''Event Log''))"

definition config_row :: "string \<times> string \<Rightarrow> string" where
  "config_row kv =
     (case kv of (key, val) \<Rightarrow>
        el ''tr'' []
          (el ''td'' (cls ''config-key'') key @
           el ''td'' (cls ''config-val'')
             (if val = [] then el ''span'' (cls ''empty'') ''&mdash;'' else htmlEscape val)))"

definition config_rows :: "config \<Rightarrow> (string \<times> string) list" where
  "config_rows settings =
     (let row = (\<lambda>item. getString item settings);
          lrow = (\<lambda>item. dec_int (getLong item settings));
          brow = (\<lambda>item. yes_no (getBool item settings))
      in [(''BeginString'', row BEGIN_STRING),
          (''SenderCompID'', row SENDER_COMP_ID),
          (''TargetCompID'', row TARGET_COMP_ID),
          (''SessionType'', row SESSION_TYPE_STR),
          (''ConnectHost'', row CONNECT_HOST),
          (''ConnectPort'', lrow CONNECT_PORT),
          (''AcceptPort'', lrow ACCEPT_PORT),
          (''HeartbeatInterval'', lrow HEARTBEAT_INTERVAL),
          (''LogonInterval'', lrow LOGON_INTERVAL),
          (''ReconnectInterval'', lrow RECONNECT_INTERVAL),
          (''ConnectTimeout'', lrow CONNECT_TIMEOUT),
          (''TLSEnabled'', brow TLS_ENABLED),
          (''TLSVerifyPeer'', brow TLS_VERIFY_PEER),
          (''TLSRequireClientCert'', brow TLS_REQUIRE_CLIENT_CERT),
          (''TLSServerName'', row TLS_SERVER_NAME),
          (''ResetSeqNumOnLogon'', brow RESET_SEQ_NUM_ON_LOGON),
          (''AllowResetSeqNumFlag'', brow ALLOW_RESET_SEQ_NUM_FLAG),
          (''SendNextExpectedMsgSeqNum'', brow SEND_NEXT_EXPECTED_MSG_SEQ_NUM),
          (''ValidateRequiredFields'', brow VALIDATE_REQUIRED_FIELDS),
          (''RelaxedParsing'', brow RELAXED_PARSING),
          (''TCPNoDelay'', brow ENABLE_TCP_NODELAY),
          (''TCPQuickAck'', brow ENABLE_TCP_QUICKACK),
          (''FIXDictionary'', row FIX_DICTIONARY),
          (''StartTime'', row START_TIME),
          (''StopTime'', row STOP_TIME)])"

definition config_card :: "config \<Rightarrow> string" where
  "config_card settings =
     el ''div'' (cls ''card'')
       (el ''h2'' [] ''Configuration'' @
        el ''table'' []
          (el ''thead'' [] (el ''tr'' [] (el ''th'' [] ''Setting'' @ el ''th'' [] ''Value'')) @
           el ''tbody'' [] (concat (map config_row (config_rows settings)))))"

definition route_session :: "string \<Rightarrow> string \<Rightarrow> application \<Rightarrow> response" where
  "route_session css name app =
     (case map_of (ap_sessions app) name of
        None \<Rightarrow> Page 404 (notFoundPage css name)
      | Some (env, s) \<Rightarrow>
          let enc = htmlEscape name
          in Page 200
               (buildPage css name
                  (el ''span'' (cls ''breadcrumb'') (dashboard_link @ '' &rsaquo; '' @ enc))
                  (el ''div'' (cls ''page-title'') enc @ status_card s @ controls_card enc s @
                   logs_card enc @ config_card (e_settings env))
                  (Some 5000)))"

section \<open>Forms\<close>

definition setEnabled :: "bool \<Rightarrow> unit act" where
  "setEnabled b = st_mod (\<lambda>s. s\<lparr>s_enabled := b\<rparr>)"

definition session_url :: "string \<Rightarrow> string" where
  "session_url name = ''/session/'' @ name"

definition route_enable :: "config \<Rightarrow> bool \<Rightarrow> string \<Rightarrow> application \<Rightarrow> response \<times> application" where
  "route_enable plat b name app =
     (Moved (session_url name), run_session plat name (\<lambda>env. setEnabled b) app)"

definition route_disconnect :: "config \<Rightarrow> string \<Rightarrow> application \<Rightarrow> response \<times> application" where
  "route_disconnect plat name app =
     (Moved (session_url name), run_session plat name (\<lambda>env. on_network disconnect) app)"

text \<open>A number that \<open>std::stoi\<close> refuses leaves the sequence number as it is.\<close>

definition set_from :: "(int \<Rightarrow> unit act) \<Rightarrow> string option \<Rightarrow> unit act" where
  "set_from assign p =
     (case p of
        None \<Rightarrow> st_ret ()
      | Some v \<Rightarrow> if v = [] then st_ret ()
                  else case stoi v of Inl _ \<Rightarrow> st_ret () | Inr n \<Rightarrow> assign n)"

definition route_seqnum :: "config \<Rightarrow> string \<Rightarrow> string \<Rightarrow> application \<Rightarrow> response \<times> application" where
  "route_seqnum plat body name app =
     (let params = parseFormBody body
      in (Moved (session_url name),
          run_session plat name
            (\<lambda>env. st_seq (set_from setSenderSeqNum (map_of params ''sender''))
                          (set_from setTargetSeqNum (map_of params ''target'')))
            app))"

section \<open>Log pages\<close>

definition log_nav :: "string \<Rightarrow> string \<Rightarrow> string" where
  "log_nav enc title =
     el ''span'' (cls ''breadcrumb'')
       (dashboard_link @ '' &rsaquo; '' @ el ''a'' [(''href'', ''/session/'' @ enc)] enc @ '' &rsaquo; '' @ title)"

definition option_tag :: "string \<Rightarrow> bool \<Rightarrow> string \<Rightarrow> string" where
  "option_tag v selected label =
     ''<option'' @ attr (''value'', v) @ (if selected then '' selected'' else []) @ ''>'' @ label @ ''</option>''"

definition filter_select :: "string \<Rightarrow> string" where
  "filter_select flt =
     el ''label'' []
       (''Filter: '' @ el ''select'' [(''name'', ''filter'')]
          (option_tag [] (flt = []) ''All'' @
           option_tag ''SENT'' (flt = ''SENT'') ''SENT'' @
           option_tag ''RECV'' (flt = ''RECV'') ''RECV''))"

definition tail_select :: "nat \<Rightarrow> string" where
  "tail_select tail =
     el ''label'' []
       (''Lines: '' @ el ''select'' [(''name'', ''tail'')]
          (option_tag ''50'' (tail = 50) ''50'' @ option_tag ''100'' (tail = 100) ''100'' @
           option_tag ''200'' (tail = 200) ''200'' @ option_tag ''500'' (tail = 500) ''500'' @
           option_tag ''1000'' (tail = 1000) ''1000''))"

definition log_controls :: "string \<Rightarrow> string \<Rightarrow> string" where
  "log_controls action selects =
     el ''form'' [(''method'', ''get''), (''action'', action)]
       (el ''div'' (cls ''log-controls'')
          (selects @ el ''button'' [(''class'', ''btn btn-blue''), (''type'', ''submit'')] ''Apply''))"

definition log_footer :: "string list \<Rightarrow> string \<Rightarrow> string" where
  "log_footer ls path =
     el ''p'' [(''style'', ''color:#555;font-size:0.75rem;margin-top:8px'')]
       (''Showing last '' @ dec_nat (length ls) @ '' lines from: '' @ htmlEscape path @
        '' &mdash; auto-refreshes every 3s'')"

definition log_view :: "(string \<Rightarrow> string) \<Rightarrow> string list \<Rightarrow> string" where
  "log_view row ls =
     el ''div'' (cls ''log-view'')
       (if ls = [] then el ''span'' (cls ''empty'') ''No log entries found.'' else concat (map row ls))"

datatype direction = Sent | Received | Neither

definition line_direction :: "string \<Rightarrow> direction" where
  "line_direction line =
     (if str_find line '' SENT: '' 0 \<noteq> None then Sent
      else if str_find line '' RECV: '' 0 \<noteq> None then Received else Neither)"

definition message_row :: "string \<Rightarrow> string" where
  "message_row line =
     (let dir = line_direction line;
          split = (\<lambda>mark c label.
            let pos = (case str_find line mark 0 of None \<Rightarrow> 0 | Some i \<Rightarrow> i)
            in el ''span'' [(''style'', ''color:#555'')] (htmlEscape (take pos line)) @ '' '' @
               el ''span'' (cls (''dir-badge '' @ c)) label @ formatFIXMessage (drop (pos + 7) line))
      in case dir of
           Sent \<Rightarrow> el ''div'' (cls ''log-line log-sent'') (split '' SENT: '' ''dir-sent'' ''SENT'')
         | Received \<Rightarrow> el ''div'' (cls ''log-line log-recv'') (split '' RECV: '' ''dir-recv'' ''RECV'')
         | Neither \<Rightarrow> el ''div'' (cls ''log-line '') (htmlEscape line))"

definition message_log_page :: "string \<Rightarrow> string \<Rightarrow> nat \<Rightarrow> string \<Rightarrow> string \<Rightarrow> string list \<Rightarrow> string" where
  "message_log_page css name tail flt path ls =
     (let enc = htmlEscape name
      in buildPage css (name @ '' - Messages'') (log_nav enc ''Message Log'')
           (el ''div'' (cls ''page-title'') (enc @ '' &ndash; Message Log'') @
            log_controls (''/session/'' @ enc @ ''/messages'') (filter_select flt @ tail_select tail) @
            log_view message_row ls @ log_footer ls path)
           (Some 3000))"

definition route_messages ::
  "string \<Rightarrow> config \<Rightarrow> (string \<Rightarrow> string option) \<Rightarrow> string option \<Rightarrow> string option \<Rightarrow> string \<Rightarrow> application \<Rightarrow> response"
where
  "route_messages css plat disk tail_p filter_p name app =
     (case map_of (ap_sessions app) name of
        None \<Rightarrow> Page 404 (notFoundPage css name)
      | Some (env, s) \<Rightarrow>
          let tail = tail_param tail_p;
              flt = (case filter_p of None \<Rightarrow> [] | Some f \<Rightarrow> f);
              path = getLogBase plat (e_settings env) @ ''.messages.log''
          in Page 200 (message_log_page css name tail flt path (readLogTail (disk path) tail flt)))"

definition event_row :: "string \<Rightarrow> string" where
  "event_row line = el ''div'' (cls ''log-line log-event'') (htmlEscape line)"

definition event_log_page :: "string \<Rightarrow> string \<Rightarrow> nat \<Rightarrow> string \<Rightarrow> string list \<Rightarrow> string" where
  "event_log_page css name tail path ls =
     (let enc = htmlEscape name
      in buildPage css (name @ '' - Events'') (log_nav enc ''Event Log'')
           (el ''div'' (cls ''page-title'') (enc @ '' &ndash; Event Log'') @
            log_controls (''/session/'' @ enc @ ''/events'') (tail_select tail) @
            log_view event_row ls @ log_footer ls path)
           (Some 3000))"

definition route_events ::
  "string \<Rightarrow> config \<Rightarrow> (string \<Rightarrow> string option) \<Rightarrow> string option \<Rightarrow> string \<Rightarrow> application \<Rightarrow> response" where
  "route_events css plat disk tail_p name app =
     (case map_of (ap_sessions app) name of
        None \<Rightarrow> Page 404 (notFoundPage css name)
      | Some (env, s) \<Rightarrow>
          let tail = tail_param tail_p;
              path = getLogBase plat (e_settings env) @ ''.event.log''
          in Page 200 (event_log_page css name tail path (readLogTail (disk path) tail [])))"

section \<open>Escaping\<close>

text \<open>The characters that open or close a tag or an attribute value, in the order they occur.\<close>

definition markup :: "string \<Rightarrow> string" where
  "markup s = filter (\<lambda>c. c = CHR ''<'' \<or> c = CHR ''>'' \<or> c = CHR 0x22) s"

lemma markup_append [simp]: "markup (a @ b) = markup a @ markup b"
  by (simp add: markup_def)

lemma markup_Nil [simp]: "markup [] = []"
  by (simp add: markup_def)

lemma markup_Cons [simp]:
  "markup (c # s) = (if c = CHR ''<'' \<or> c = CHR ''>'' \<or> c = CHR 0x22 then c # markup s else markup s)"
  by (simp add: markup_def)

lemma markup_escape_char [simp]: "markup (escape_char c) = []"
  by (simp add: escape_char_def)

lemma markup_htmlEscape [simp]: "markup (htmlEscape s) = []"
  by (induction s) (simp_all add: htmlEscape_def)

lemma markup_formatFIX [simp]: "markup (formatFIXMessage s) = []"
  by (simp add: formatFIXMessage_def)

lemma markup_digits [simp]: "markup (dec_nat n) = []"
proof -
  have "c \<noteq> CHR ''<'' \<and> c \<noteq> CHR ''>'' \<and> c \<noteq> CHR 0x22" if "c \<in> set (dec_nat n)" for c
    using dec_nat_chars[OF that] by (auto simp: is_digit_def)
  then show ?thesis by (auto simp: markup_def filter_empty_conv)
qed

lemma markup_concat: "markup (concat ss) = concat (map markup ss)"
  by (induction ss) simp_all

lemma markup_attr: "markup (attr (k, v)) = markup k @ [CHR 0x22] @ markup v @ [CHR 0x22]"
  by (simp add: dq_def)

lemma markup_open_tag:
  "markup (open_tag n ats) = CHR ''<'' # markup n @ concat (map (\<lambda>a. markup (attr a)) ats) @ [CHR ''>'']"
  by (simp add: open_tag_def markup_concat comp_def)

lemma markup_el:
  "markup (el n ats body) = markup (open_tag n ats) @ markup body @ CHR ''<'' # markup n @ [CHR ''>'']"
  by (simp add: el_def)

lemmas markup_simps = markup_open_tag markup_el markup_attr

text \<open>Reading the escaped text back, as a browser does with the four character references.\<close>

fun unescape :: "nat \<Rightarrow> string \<Rightarrow> string" where
  "unescape 0 s = s"
| "unescape (Suc fuel) s =
     (case s of
        [] \<Rightarrow> []
      | c # r \<Rightarrow>
          if take 5 s = ''&amp;'' then CHR ''&'' # unescape fuel (drop 5 s)
          else if take 4 s = ''&lt;'' then CHR ''<'' # unescape fuel (drop 4 s)
          else if take 4 s = ''&gt;'' then CHR ''>'' # unescape fuel (drop 4 s)
          else if take 6 s = ''&quot;'' then CHR 0x22 # unescape fuel (drop 6 s)
          else c # unescape fuel r)"

lemma unescape_char:
  "unescape (Suc fuel) (escape_char c @ r) = c # unescape fuel r"
  by (simp add: escape_char_def)

lemma unescape_htmlEscape:
  "length s \<le> fuel \<Longrightarrow> unescape fuel (htmlEscape s) = s"
proof (induction s arbitrary: fuel)
  case Nil
  then show ?case by (cases fuel) (simp_all add: htmlEscape_def)
next
  case (Cons c s)
  then obtain f where f: "fuel = Suc f" "length s \<le> f" by (cases fuel) auto
  have "htmlEscape (c # s) = escape_char c @ htmlEscape s" by (simp add: htmlEscape_def)
  with Cons.IH[OF f(2)] show ?case unfolding f(1) by (simp only: unescape_char)
qed

text \<open>Two pages have the same markup when their parts do; titles are escaped.\<close>

lemma same_page:
  "markup n = markup n' \<Longrightarrow> markup b = markup b' \<Longrightarrow>
   markup (buildPage css t n b r) = markup (buildPage css t' n' b' r)"
  by (simp add: buildPage_def markup_simps)

lemma same_el:
  "concat (map (\<lambda>a. markup (attr a)) ats) = concat (map (\<lambda>a. markup (attr a)) ats') \<Longrightarrow>
   markup b = markup b' \<Longrightarrow> markup (el n ats b) = markup (el n ats' b')"
  by (simp add: markup_simps)

lemma same_log_nav: "markup (log_nav (htmlEscape n) t) = markup (log_nav (htmlEscape n') t)"
  by (simp add: log_nav_def markup_simps del: attr.simps)

lemma same_log_controls:
  "markup a = markup a' \<Longrightarrow> markup (log_controls a x) = markup (log_controls a' x)"
  by (simp add: log_controls_def markup_simps del: attr.simps)

lemma same_log_footer: "markup (log_footer ls p) = markup (log_footer ls' p')"
  by (simp add: log_footer_def markup_simps del: attr.simps)

lemma message_row_markup:
  "line_direction l = line_direction l' \<Longrightarrow> markup (message_row l) = markup (message_row l')"
  by (simp add: message_row_def Let_def markup_simps del: attr.simps split: direction.split)

lemma event_row_markup: "markup (event_row l) = markup (event_row l')"
  by (simp add: event_row_def markup_simps del: attr.simps)

lemma same_log_view:
  assumes "list_all2 (\<lambda>l l'. markup (row l) = markup (row l')) ls ls'"
  shows "markup (log_view row ls) = markup (log_view row ls')"
proof -
  have "markup (concat (map row ls)) = markup (concat (map row ls'))"
    using assms by (induction rule: list_all2_induct) simp_all
  moreover have "ls = [] \<longleftrightarrow> ls' = []" using assms by auto
  ultimately show ?thesis by (simp add: log_view_def markup_simps)
qed

section \<open>Properties\<close>

text \<open>C39: Nothing a log holds can add markup to the page that shows it: two message logs whose
  lines have the same directions give pages with the same tags and quotation marks, whatever
  the session's name, the path and the texts of the lines, which come from the counterparty.\<close>

theorem log_text_adds_no_markup:
  assumes "list_all2 (\<lambda>l l'. line_direction l = line_direction l') ls ls'"
  shows "markup (message_log_page css name tail flt path ls) =
    markup (message_log_page css name' tail flt path' ls')"
proof -
  have rows: "list_all2 (\<lambda>l l'. markup (message_row l) = markup (message_row l')) ls ls'"
    by (rule list_all2_mono[OF assms]) (rule message_row_markup)
  have title: "markup (el ''div'' (cls ''page-title'') (htmlEscape name @ '' &ndash; Message Log'')) =
      markup (el ''div'' (cls ''page-title'') (htmlEscape name' @ '' &ndash; Message Log''))"
    by (rule same_el) simp_all
  have controls: "markup (log_controls (''/session/'' @ htmlEscape name @ ''/messages'') x) =
      markup (log_controls (''/session/'' @ htmlEscape name' @ ''/messages'') x)" for x
    by (rule same_log_controls) simp
  show ?thesis
    unfolding message_log_page_def Let_def
    by (rule same_page[OF same_log_nav])
       (simp only: markup_append title controls same_log_view[OF rows] same_log_footer[of ls path ls' path'])
qed

theorem log_text_adds_no_markup_witness:
  "markup (message_log_page [] ''a'' 50 [] ''p'' [''x RECV: <script>alert(1)</script>'']) =
   markup (message_log_page [] ''b'' 50 [] ''q'' [''x RECV: ''])"
proof (rule log_text_adds_no_markup)
  have "line_direction ''x RECV: <script>alert(1)</script>'' = line_direction ''x RECV: ''" by code_simp
  then show "list_all2 (\<lambda>l l'. line_direction l = line_direction l')
      [''x RECV: <script>alert(1)</script>''] [''x RECV: '']" by simp
qed

text \<open>Escaping loses nothing: replacing the four character references by their characters
  gives the text back.\<close>

theorem html_escape_roundtrip: "unescape (length s) (htmlEscape s) = s"
  by (rule unescape_htmlEscape) simp

text \<open>The log viewer shows at most the number of lines asked for (never more than 5000), and
  they are the last ones of the part of the file it read that are not empty and match the
  filter.\<close>

theorem log_tail_bounded:
  assumes "ls = readLogTail (Some bytes) (tail_param p) flt"
  shows "length ls \<le> tail_param p \<and> tail_param p \<le> 5000 \<and>
    (\<exists>older. log_lines (drop (length bytes - min (length bytes) log_window) bytes) flt = older @ ls)"
proof -
  have tail: "tail_param p \<le> 5000" by (auto simp: tail_param_def Let_def)
  show ?thesis
  proof (cases "bytes = []")
    case True
    with assms tail show ?thesis by (simp add: readLogTail_def log_lines_def)
  next
    case False
    let ?all = "log_lines (drop (length bytes - min (length bytes) log_window) bytes) flt"
    have ls: "ls = drop (length ?all - tail_param p) ?all"
      using assms False by (simp add: readLogTail_def Let_def)
    have "length ls \<le> tail_param p" unfolding ls by simp
    moreover have "?all = take (length ?all - tail_param p) ?all @ ls"
      unfolding ls by (rule append_take_drop_id[symmetric])
    ultimately show ?thesis using tail by blast
  qed
qed

theorem log_tail_bounded_witness:
  "length (readLogTail (Some ''abc'') (tail_param (Some ''1'')) []) \<le> tail_param (Some ''1'') \<and>
    tail_param (Some ''1'') \<le> 5000 \<and>
    (\<exists>older. log_lines (drop (length ''abc'' - min (length ''abc'') log_window) ''abc'') [] =
       older @ readLogTail (Some ''abc'') (tail_param (Some ''1'')) [])"
  by (rule log_tail_bounded[OF refl])

text \<open>The form of a session sets exactly what it says: posting two numbers makes them the
  sender's and the target's sequence number of the named session, and changes nothing else of
  that session's state except that the numbers are marked for the store.\<close>

lemma take_sign_dec_int:
  "take_sign (dec_int i) = (i < 0, dec_nat (nat \<bar>i\<bar>))"
proof (cases "i < 0")
  case True
  then show ?thesis by (simp add: dec_int_def take_sign_def is_space_def)
next
  case False
  then show ?thesis by (simp add: dec_int_def)
qed

lemma stoi_dec_int: "is_int32 i \<Longrightarrow> stoi (dec_int i) = Inr i"
  by (auto simp: stoi_def stol_def take_sign_dec_int is_int32_def Let_def)

lemma dec_int_no_amp: "CHR ''&'' \<notin> set (dec_int i)"
  by (auto simp: dec_int_def is_digit_def dest!: dec_nat_chars split: if_splits)

lemma parse_seqnum_form:
  "parseFormBody (''sender='' @ dec_int a @ ''&target='' @ dec_int b) =
     [(''sender'', dec_int a), (''target'', dec_int b)]"
proof -
  have "getline_all CHR ''&'' ((''sender='' @ dec_int a) @ CHR ''&'' # (''target='' @ dec_int b)) =
      [''sender='' @ dec_int a, ''target='' @ dec_int b]"
    using dec_int_no_amp[of a] dec_int_no_amp[of b]
    by (subst getline_all_Cons) (simp_all add: getline_all_last)
  moreover have "break_at EQCH (''sender='' @ dec_int a) = Some (''sender'', dec_int a)"
    "break_at EQCH (''target='' @ dec_int b) = Some (''target'', dec_int b)"
    by simp_all
  ultimately show ?thesis by (simp add: parseFormBody_def hmap_set_def)
qed

theorem seqnum_form_applies:
  assumes "getSession name app = Some (env, s)" "is_int32 a" "is_int32 b"
  shows "\<exists>s'. getSession name
      (snd (route_seqnum plat (''sender='' @ dec_int a @ ''&target='' @ dec_int b) name app)) = Some (env, s') \<and>
    s' = (lend_files plat app (e_settings env) s)\<lparr>s_cache :=
       (s_cache (lend_files plat app (e_settings env) s))
         \<lparr>c_senderSeqNum := a, c_targetSeqNum := b, c_seqNumsDirty := True\<rparr>\<rparr>"
proof -
  have found: "map_of (ap_sessions app) name = Some (env, s)" using assms(1) by (simp add: getSession_def)
  show ?thesis
    unfolding getSession_def route_seqnum_def parse_seqnum_form Let_def snd_conv run_session_self(1)[OF found]
    using assms(2,3)
    by (simp add: set_from_def stoi_dec_int setSenderSeqNum_def setTargetSeqNum_def on_cache_def
        cache_setSenderSeqNum_def cache_setTargetSeqNum_def monad_simps)
qed

theorem seqnum_form_applies_witness:
  "\<exists>s'. getSession ''s''
      (snd (route_seqnum (new_config platform_defaults) (''sender='' @ dec_int 5 @ ''&target='' @ dec_int 7) ''s'' demo_application)) =
      Some (demo_env ''initiator'', s') \<and>
    s' = (lend_files (new_config platform_defaults) demo_application (e_settings (demo_env ''initiator''))
            (demo_ready\<lparr>s_cache := demo_cache\<rparr>))\<lparr>s_cache :=
       (s_cache (lend_files (new_config platform_defaults) demo_application (e_settings (demo_env ''initiator''))
            (demo_ready\<lparr>s_cache := demo_cache\<rparr>)))
         \<lparr>c_senderSeqNum := 5, c_targetSeqNum := 7, c_seqNumsDirty := True\<rparr>\<rparr>"
  by (rule seqnum_form_applies) (simp_all add: demo_application_def getSession_def is_int32_def)

section \<open>Where the pages and the logs meet\<close>

text \<open>The viewer reads the files the logger writes, and the rows it cuts out are the writer's.\<close>

lemma viewer_reads_logger_file:
  "getLogBase plat settings @ ''.messages.log'' = message_log_path plat settings"
  "getLogBase plat settings @ ''.event.log'' = event_log_path plat settings"
  by (simp_all add: getLogBase_def message_log_path_def event_log_path_def file_id_def)

text \<open>A received message that contains the text of the other direction's mark is shown as sent,
  and cut at that place.\<close>

lemma received_shown_as_sent:
  "line_direction ''T RECV: 35=D|58=a SENT: b|'' = Sent"
  "message_row ''T RECV: 35=D|58=a SENT: b|'' =
     el ''div'' (cls ''log-line log-sent'')
       (el ''span'' [(''style'', ''color:#555'')] ''T RECV: 35=D|58=a'' @ '' '' @
        el ''span'' (cls ''dir-badge dir-sent'') ''SENT'' @ ''b|'')"
  by code_simp+

text \<open>The form accepts numbers that no FIX session may have.\<close>

lemma form_accepts_negative: "stoi ''-5'' = Inr (-5)"
  by code_simp

end
