(* ===== verification/Spec2Isabelle.thy ===== *)
theory Spec2Isabelle
  imports Handshake Recovery Runtime Integrity NetworkProps DictionaryFacts Dispatch TimerQueue Admin
begin

text \<open>
  A verification library for openfix, a C++ engine for the FIX protocol.

  \<^bold>\<open>The program.\<close> An \<open>Application\<close> owns sessions, a network, a logger and a store. A reader thread of
  the network cuts the bytes of a connection into messages and hands each to its session. The
  session parses the message with the dictionary loaded from an XML file, checks its header, its
  sequence number and its own state, answers administrative messages, queues messages that come
  too early and delivers application messages to the delegate. Messages to send are stamped with
  the next number, kept in the cache for replay, serialized and given to the connection. The cache
  writes numbers and messages behind to the session's data file through an asynchronous file
  writer, as the logger does with its logs.

  \<^bold>\<open>Theories and the code they model\<close>, from the bottom up:

  \<^item> \<open>Prelude\<close>: bytes, exceptions as sums, the state monad with exceptions, C++ integers, decimal
    text, searching. \<open>Containers\<close>: hash maps (\<open>hmap\<close>) and \<open>std::map\<close> (\<open>smap\<close>) behind one
    interface, \<open>key_value\<close>. \<open>LinkedHash\<close>: \<^verbatim>\<open>lib/LinkedHashMap.h\<close>.
  \<^item> \<open>Checksum\<close>: the three variants of \<^verbatim>\<open>src/Checksum.h\<close>. \<open>Utils\<close>: the timestamps of
    \<^verbatim>\<open>lib/Utils.h\<close>. \<open>Store\<close>: the records of \<^verbatim>\<open>src/FIXStore.cpp\<close>. \<open>FileWriter\<close>:
    \<^verbatim>\<open>lib/FileUtils.cpp\<close>, a writer instance as an interleaving of locked operations and flushes;
    \<open>WriterThread\<close> its thread, from \<open>start\<close> to the join in \<open>stop\<close>.
  \<^item> \<open>FixMessage\<close>: \<^verbatim>\<open>src/Message.h\<close> and \<^verbatim>\<open>src/Message.cpp\<close>, field maps, groups and serialization;
    \<open>MessageFacts\<close> the proofs about them. \<open>FixDictionary\<close>: the parser of \<^verbatim>\<open>src/Dictionary.cpp\<close>
    with its stack of groups; \<open>ParserFacts\<close> what it accepts, \<open>Integrity\<close> what its acceptance says about
    the length and the checksum of the text, \<open>HeaderEnd\<close> where it leaves the header for good. \<open>DictionaryLoad\<close>: the loader, over a parameter for the XML tree; \<open>DictionaryFacts\<close> the sort of
    the components and the tables.
  \<^item> \<open>FixConfig\<close>: the typed settings of \<^verbatim>\<open>src/Config.h\<close>. \<open>FixCache\<close>: \<^verbatim>\<open>src/FIXCache.cpp\<close>.
  \<^item> \<open>NetworkHandler\<close>, \<open>ReadBuffer\<close>, \<open>WriteBuffer\<close>, \<open>Tls\<close>, \<open>NetworkCore\<close>: \<^verbatim>\<open>src/Network.cpp\<close>, by the
    handler a session holds, the framing of the byte stream, the write queues, the TLS connections
    and the tables of the readers; \<open>NetworkProps\<close> the routing of accepted connections.
  \<^item> \<open>Session\<close>: \<^verbatim>\<open>src/Session.cpp\<close> and \<^verbatim>\<open>src/Messages.h\<close>, one definition per member function, in
    the monad of \<open>Prelude\<close>; \<open>SessionFacts\<close> its frame lemmas, \<open>Delivery\<close> the invariant of delivery,
    \<open>SessionProps\<close> the properties of the handlers, \<open>SessionDemo\<close> a session for the witnesses.
    \<open>Replay\<close>: what the answer to a resend request sends. \<open>EndToEnd\<close>: two sessions, from one's \<open>send\<close>
    to the other's application; \<open>Handshake\<close>: two sessions that log on, or with the default settings do
    not; \<open>Recovery\<close>: two sessions that close a gap, from the request to the delivery of what was missing.
  \<^item> \<open>Dispatch\<close> and \<open>TimerQueue\<close>: \<^verbatim>\<open>lib/Dispatcher.cpp\<close>, the worker threads and the timer thread as
    machines whose steps are the points between which other threads act. \<open>Cpu\<close>:
    \<^verbatim>\<open>lib/CpuOrchestrator.cpp\<close> over a parameter for the files under \<^verbatim>\<open>/sys\<close>.
  \<^item> \<open>Application\<close>: \<^verbatim>\<open>src/Application.cpp\<close>, with \<open>FileLogger\<close> and \<open>FileStore\<close> as the owners of the
    files; its \<open>stop\<close> once as one function and once as a sequence of actions, between which other threads
    change the caches and the store's thread writes. \<open>Admin\<close>: \<^verbatim>\<open>src/AdminWebsite.cpp\<close>, every route as a function to the text of its page.
  \<^item> \<open>Runtime\<close>: \<^verbatim>\<open>lib/Log.h\<close> over a parameter for spdlog (\<open>registry_laws\<close>), and \<^verbatim>\<open>lib/SignalHandler.h\<close> in
    the process of \<^verbatim>\<open>example/main.cpp\<close>, whose main thread starts the machines of \<open>WriterThread\<close> for
    the logs and the data files, waits, stops them one after the other and destroys them.

  \<^bold>\<open>How state and operations correspond.\<close> A class is a record of its members; a member function
  is a definition with its name (where a name clashes, with the class in front) from the state to
  the state. A \<open>throw\<close> is \<open>Inl\<close>, and what the function had changed before stays changed. Shared
  objects are referred to by number or by path. What the operating system, OpenSSL, pugixml, the
  lock-free queue and the clock answer is an argument; where a proof relies on such an answer, the
  hypothesis is named (\<open>queue_laws\<close>, \<open>clock_ok\<close>) or stated in the theorem. \<open>int\<close> arithmetic that can
  overflow goes through \<open>wrap32\<close>, unsigned arithmetic through \<open>wrapu64\<close> or words; overflow and
  invalidated iterators, which are undefined behaviour, are error values.

  \<^bold>\<open>What the lemmas show.\<close> Delivery: a list of messages sent by one session is
  given, whole and in order, to the other's application, however the bytes are split; and whatever
  arrives, application messages reach the delegate at most once, in increasing order of their
  numbers and below the number expected. Two sessions log on and then agree on their numbers, when
  each describes the other's Logon; with SendNextExpectedMsgSeqNum at its default and the usual
  dictionaries it does not, and the logon is refused. The gate and the validation do what FIX
  prescribes in each case, refused messages change nothing, exceptions stay inside the handler,
  replays change nothing, resend what was kept of what was asked for and fill the rest, except a
  last number that was not resent, and a gap between two sessions is filled in order (after which
  the connection ends, for the request names one message too many). Serializing and parsing are
  inverse on flat messages; what the strict parser accepts begins and ends with the prescribed
  fields and has the right length and checksum. Bytes on the wire are the messages handed over, in
  order, in both directions, and never in the clear once TLS is set up. The data file loads to what
  was stored, through restarts, flushes and the application's \<open>stop\<close> (up to the last
  flush before the store stops), and at the end of a process that returns from \<open>main\<close>
  after a signal; a second signal ends the process at once and leaves the queue unwritten. A pass of
  the timer fires what is due, and a sleeping timer thread wakes for the next event, late by no more
  than the callbacks took. Settings are read back as they were configured. Tasks of a worker are not
  forgotten, and pages of the administration site carry no markup from the logs they show.

  \<^bold>\<open>Interfaces.\<close> \<open>key_value\<close> (the maps), \<open>session_store\<close> (the file and the buffered writer),
  \<open>seq_counter\<close> (both sequence numbers) and \<open>byte_channel\<close> (the write path) are locales, interpreted
  on the model's definitions where these are given, as are \<open>ordered_map\<close> (the insertion-ordered map)
  and \<open>connection\<close> (a session's end of its connection). \<open>internal_frame\<close>, \<open>send_frame\<close> and
  \<open>logout_frame\<close>, each an extension of the one before, say what a predicate on sessions must
  tolerate to be kept by sends, by logouts and by everything internal; they are interpreted for the
  invariants of \<open>Delivery\<close> and \<open>SessionProps\<close>.

  \<^bold>\<open>Fuel.\<close> The loop over early messages (\<open>drain\<close>) is given the number of queued messages, which
  \<open>drain_completes\<close> shows to be enough; the pass of the timer (\<open>timer_pass\<close>) one round per queued
  time and one to stop, which \<open>timer_fires_due\<close> shows to be enough; \<open>unescape\<close> the length of the
  text. Other loops are structural or have termination proofs.

  \<^bold>\<open>Not modelled.\<close> What spdlog prints and how it locks; socket options and the registration with epoll;
  the scheduling of threads beyond the interleavings above; the style sheet and crow's own HTTP
  handling; binary floating point (a \<open>double\<close> is the decimal of its text).
\<close>

end
